(* ===== verification/Wf_Prelude.thy ===== *)
theory Wf_Prelude
  imports Main "HOL-Library.Word" "HOL-Library.Char_ord" "HOL-Library.List_Lexorder"
    "HOL-Library.Signed_Division"
begin

text \<open>
  Shared vocabulary of the development: the outcome of a C++ call (value, exception or
  undefined behaviour), ordered maps in the style of \<^verbatim>\<open>std::map\<close>, the numeric conversions of
  the C and C++ standard library that the sources use (\<^verbatim>\<open>strtol\<close>, \<^verbatim>\<open>std::stoi\<close>, \<^verbatim>\<open>std::stoul\<close>,
  \<^verbatim>\<open>std::to_string\<close>), big-endian byte encodings, and the interface locales \<open>keyed_store\<close> and
  \<open>bounded_queue\<close> which several components implement.
\<close>

unbundle bit_operations_syntax

named_theorems wf_simps \<open>unfolding rules of the model's operations\<close>
named_theorems wf_inv \<open>invariant preservation rules\<close>

section \<open>Outcomes of a call\<close>

datatype exn =
    Invalid_Argument
  | Out_Of_Range
  | Runtime_Error string
  | Netmask_Exception string
  | Wforce_Exception string
  | Length_Error
  | Network_Error
  | Exit_Failure

text \<open>
  \<open>Ret s v\<close>: the call returned \<open>v\<close> and left the state \<open>s\<close>. \<open>Exn e s\<close>: it threw \<open>e\<close> after
  having changed the state to \<open>s\<close>. \<open>Undef\<close>: undefined behaviour (an out-of-range access, a
  division by zero).
\<close>

datatype ('s, 'v) outcome = Ret 's 'v | Exn exn 's | Undef

fun obind :: "('s, 'v) outcome \<Rightarrow> ('s \<Rightarrow> 'v \<Rightarrow> ('s, 'w) outcome) \<Rightarrow> ('s, 'w) outcome" where
  "obind (Ret s v) f = f s v"
| "obind (Exn e s) f = Exn e s"
| "obind Undef f = Undef"

fun defined :: "('s, 'v) outcome \<Rightarrow> bool" where
  "defined Undef = False"
| "defined (Ret s v) = True"
| "defined (Exn e s) = True"

fun final_state :: "('s, 'v) outcome \<Rightarrow> 's option" where
  "final_state (Ret s v) = Some s"
| "final_state (Exn e s) = Some s"
| "final_state Undef = None"

fun map_state :: "('s \<Rightarrow> 't) \<Rightarrow> ('s, 'v) outcome \<Rightarrow> ('t, 'v) outcome" where
  "map_state f (Ret s v) = Ret (f s) v"
| "map_state f (Exn e s) = Exn e (f s)"
| "map_state f Undef = Undef"

lemma obind_assoc: "obind (obind m f) g = obind m (\<lambda>s v. obind (f s v) g)"
  by (cases m) auto

lemma obind_Ret_iff [simp]: "obind m f = Ret s v \<longleftrightarrow> (\<exists>s' v'. m = Ret s' v' \<and> f s' v' = Ret s v)"
  by (cases m) auto

lemma final_state_map_state [simp]: "final_state (map_state f m) = map_option f (final_state m)"
  by (cases m) auto

lemma defined_map_state [simp]: "defined (map_state f m) = defined m"
  by (cases m) auto

lemma defined_iff_final_state: "defined m \<longleftrightarrow> final_state m \<noteq> None"
  by (cases m) auto

section \<open>Ordered maps\<close>

text \<open>
  A \<^verbatim>\<open>std::map\<close> is an association list with strictly increasing keys; iteration is the list
  order. \<open>sm_insert\<close> is \<^verbatim>\<open>insert\<close>/\<^verbatim>\<open>emplace\<close> (an existing value is kept), \<open>sm_assign\<close> is
  \<^verbatim>\<open>operator[]\<close> followed by an assignment, \<open>sm_erase\<close> is \<^verbatim>\<open>erase\<close> by key and lookup is \<open>map_of\<close>.
\<close>

fun sm_insert :: "'k::linorder \<Rightarrow> 'v \<Rightarrow> ('k \<times> 'v) list \<Rightarrow> ('k \<times> 'v) list" where
  "sm_insert k v [] = [(k, v)]"
| "sm_insert k v ((a, b) # m) =
     (if k < a then (k, v) # (a, b) # m
      else if k = a then (a, b) # m
      else (a, b) # sm_insert k v m)"

fun sm_assign :: "'k::linorder \<Rightarrow> 'v \<Rightarrow> ('k \<times> 'v) list \<Rightarrow> ('k \<times> 'v) list" where
  "sm_assign k v [] = [(k, v)]"
| "sm_assign k v ((a, b) # m) =
     (if k < a then (k, v) # (a, b) # m
      else if k = a then (a, v) # m
      else (a, b) # sm_assign k v m)"

fun sm_erase :: "'k::linorder \<Rightarrow> ('k \<times> 'v) list \<Rightarrow> ('k \<times> 'v) list" where
  "sm_erase k [] = []"
| "sm_erase k ((a, b) # m) = (if k = a then m else (a, b) # sm_erase k m)"

definition sm_ok :: "('k::linorder \<times> 'v) list \<Rightarrow> bool" where
  "sm_ok m \<longleftrightarrow> sorted_wrt (<) (map fst m)"

lemma sm_ok_Nil [simp]: "sm_ok []"
  by (simp add: sm_ok_def)

lemma sm_ok_Cons [simp]: "sm_ok ((a, b) # m) \<longleftrightarrow> (\<forall>x \<in> set m. a < fst x) \<and> sm_ok m"
  by (simp add: sm_ok_def)

lemma sm_ok_distinct: "sm_ok m \<Longrightarrow> distinct (map fst m)"
  by (simp add: sm_ok_def strict_sorted_iff)

lemma set_sm_insert: "fst ` set (sm_insert k v m) = insert k (fst ` set m)"
  by (induction k v m rule: sm_insert.induct) auto

lemma set_sm_assign: "fst ` set (sm_assign k v m) = insert k (fst ` set m)"
  by (induction k v m rule: sm_assign.induct) auto

lemma set_sm_erase: "set (sm_erase k m) \<subseteq> set m"
  by (induction k m rule: sm_erase.induct) auto

lemma sm_ok_keys_above:
  "sm_ok ((a, b) # m) \<longleftrightarrow> (\<forall>x \<in> fst ` set m. a < x) \<and> sm_ok m"
  by auto

lemma sm_ok_insert [simp, intro]: "sm_ok m \<Longrightarrow> sm_ok (sm_insert k v m)"
  by (induction k v m rule: sm_insert.induct)
    (auto simp del: sm_ok_Cons simp add: sm_ok_keys_above set_sm_insert)

lemma sm_ok_assign [simp, intro]: "sm_ok m \<Longrightarrow> sm_ok (sm_assign k v m)"
  by (induction k v m rule: sm_assign.induct)
    (auto simp del: sm_ok_Cons simp add: sm_ok_keys_above set_sm_assign)

lemma sm_ok_erase [simp, intro]: "sm_ok m \<Longrightarrow> sm_ok (sm_erase k m)"
  by (induction k m rule: sm_erase.induct) (use set_sm_erase in fastforce)+

lemma sm_ok_map_value: "sm_ok m \<Longrightarrow> sm_ok (map (\<lambda>(k, v). (k, f k v)) m)"
  by (simp add: sm_ok_def comp_def case_prod_beta)

lemma map_of_below: "sm_ok ((a, b) # m) \<Longrightarrow> k < a \<Longrightarrow> map_of m k = None"
  by (force simp: map_of_eq_None_iff)

lemma map_of_head_absent: "sm_ok ((a, b) # m) \<Longrightarrow> map_of m a = None"
  by (force simp: map_of_eq_None_iff)

lemma map_of_sm_insert:
  "sm_ok m \<Longrightarrow>
   map_of (sm_insert k v m) = (case map_of m k of None \<Rightarrow> (map_of m)(k \<mapsto> v) | Some _ \<Rightarrow> map_of m)"
  by (induction k v m rule: sm_insert.induct)
    (auto simp: fun_eq_iff map_of_below split: option.splits)

lemma map_of_sm_assign: "map_of (sm_assign k v m) = (map_of m)(k \<mapsto> v)"
  by (induction k v m rule: sm_assign.induct) (auto simp: fun_eq_iff)

lemma map_of_sm_erase: "sm_ok m \<Longrightarrow> map_of (sm_erase k m) = (map_of m)(k := None)"
  by (induction k m rule: sm_erase.induct) (auto simp: fun_eq_iff map_of_head_absent)

section \<open>Interfaces shared by several components\<close>

text \<open>
  A store of values by key: what a client may rely on after an update. The laws are those of a
  finite map; the components that keep a table (the ordered maps here, the black and white lists,
  the netmask tree) interpret it on their own operations, for the states that satisfy their
  invariant.
\<close>

locale keyed_store =
  fixes ok :: "'s \<Rightarrow> bool"
    and lookup :: "'s \<Rightarrow> 'k \<Rightarrow> 'v option"
    and put :: "'k \<Rightarrow> 'v \<Rightarrow> 's \<Rightarrow> 's"
    and remove :: "'k \<Rightarrow> 's \<Rightarrow> 's"
  assumes ok_put: "ok s \<Longrightarrow> ok (put k v s)"
    and ok_remove: "ok s \<Longrightarrow> ok (remove k s)"
    and lookup_put: "ok s \<Longrightarrow> lookup (put k v s) j = (if j = k then Some v else lookup s j)"
    and lookup_remove: "ok s \<Longrightarrow> lookup (remove k s) j = (if j = k then None else lookup s j)"
begin

lemma put_then_lookup: "ok s \<Longrightarrow> lookup (put k v s) k = Some v"
  by (simp add: lookup_put)

lemma put_other: "ok s \<Longrightarrow> j \<noteq> k \<Longrightarrow> lookup (put k v s) j = lookup s j"
  by (simp add: lookup_put)

lemma put_put: "ok s \<Longrightarrow> lookup (put k v (put k w s)) j = lookup (put k v s) j"
  by (simp add: lookup_put ok_put)

lemma put_commute:
  "ok s \<Longrightarrow> k \<noteq> k' \<Longrightarrow> lookup (put k v (put k' w s)) j = lookup (put k' w (put k v s)) j"
  by (simp add: lookup_put ok_put)

lemma remove_put: "ok s \<Longrightarrow> lookup (remove k (put k v s)) j = lookup (remove k s) j"
  by (simp add: lookup_put lookup_remove ok_put)

lemma fold_put_ok: "ok s \<Longrightarrow> ok (fold (\<lambda>(k, v). put k v) kvs s)"
  by (induction kvs arbitrary: s) (auto simp: ok_put)

lemma fold_put_lookup:
  "ok s \<Longrightarrow> lookup (fold (\<lambda>(k, v). put k v) kvs s) j =
     (case map_of (rev kvs) j of None \<Rightarrow> lookup s j | Some v \<Rightarrow> Some v)"
proof (induction kvs arbitrary: s)
  case (Cons kv kvs)
  then show ?case
    by (cases kv) (auto simp: ok_put lookup_put map_add_def split: option.splits)
qed simp

lemma fold_remove_ok: "ok s \<Longrightarrow> ok (fold remove ks s)"
  by (induction ks arbitrary: s) (auto simp: ok_remove)

lemma fold_remove_lookup:
  "ok s \<Longrightarrow> lookup (fold remove ks s) j = (if j \<in> set ks then None else lookup s j)"
  by (induction ks arbitrary: s) (auto simp: ok_remove lookup_remove)

end

interpretation smap: keyed_store sm_ok "\<lambda>m k. map_of m k" sm_assign sm_erase
  by unfold_locales (auto simp: map_of_sm_assign map_of_sm_erase)

text \<open>
  A queue with a capacity which refuses what does not fit: the sibling send queues, the received
  replication queue and the webhook runner's queue all have this shape.
\<close>

locale bounded_queue =
  fixes contents :: "'s \<Rightarrow> 'a list"
    and capacity :: "'s \<Rightarrow> nat"
    and offer :: "'a \<Rightarrow> 's \<Rightarrow> 's"
  assumes contents_offer:
      "contents (offer x s) =
         (if length (contents s) < capacity s then contents s @ [x] else contents s)"
    and capacity_offer: "capacity (offer x s) = capacity s"
begin

definition within :: "'s \<Rightarrow> bool" where
  "within s \<longleftrightarrow> length (contents s) \<le> capacity s"

lemma within_offer: "within s \<Longrightarrow> within (offer x s)"
  by (simp add: within_def contents_offer capacity_offer)

lemma offers_contents:
  "within s \<Longrightarrow>
   contents (fold offer xs s) = contents s @ take (capacity s - length (contents s)) xs"
proof (induction xs arbitrary: s)
  case (Cons x xs)
  then have "within (offer x s)" by (simp add: within_offer)
  then show ?case
    using Cons.IH[of "offer x s"] Cons.prems
    by (cases "capacity s - length (contents s)")
      (auto simp: contents_offer capacity_offer within_def simp flip: diff_Suc_eq_diff_pred
        intro: arg_cong[where f = "\<lambda>n. take n xs"])
qed simp

lemma offers_capacity: "capacity (fold offer xs s) = capacity s"
  by (induction xs arbitrary: s) (auto simp: capacity_offer)

lemma offers_bounded: "within s \<Longrightarrow> length (contents (fold offer xs s)) \<le> capacity s"
  by (simp add: offers_contents within_def)

end

section \<open>Strings, numbers and bytes\<close>

definition c_str :: "string \<Rightarrow> string" where
  "c_str s = takeWhile (\<lambda>c. of_char c \<noteq> (0::nat)) s"

definition isspace_c :: "char \<Rightarrow> bool" where
  "isspace_c c \<longleftrightarrow> (let n = of_char c :: nat in n = 32 \<or> 9 \<le> n \<and> n \<le> 13)"

definition isdigit_c :: "char \<Rightarrow> bool" where
  "isdigit_c c \<longleftrightarrow> (let n = of_char c :: nat in 48 \<le> n \<and> n \<le> 57)"

definition digit_value :: "char \<Rightarrow> nat" where
  "digit_value c = of_char c - 48"

definition digits_value :: "string \<Rightarrow> nat" where
  "digits_value ds = foldl (\<lambda>n c. 10 * n + digit_value c) 0 ds"

text \<open>
  The subject sequence of \<^verbatim>\<open>strtol\<close> and \<^verbatim>\<open>strtoul\<close> in base 10: leading white space, an
  optional sign, then the longest run of digits; \<open>None\<close> when there is no digit.
\<close>

definition strto_subject :: "string \<Rightarrow> (bool \<times> nat) option" where
  "strto_subject s =
     (let t = dropWhile isspace_c (c_str s);
          neg = (t \<noteq> [] \<and> hd t = CHR ''-'');
          u = (if t \<noteq> [] \<and> (hd t = CHR ''-'' \<or> hd t = CHR ''+'') then tl t else t);
          ds = takeWhile isdigit_c u
      in if ds = [] then None else Some (neg, digits_value ds))"

definition int_max :: int where "int_max = 2147483647"
definition int_min :: int where "int_min = - 2147483648"

definition stoi :: "string \<Rightarrow> exn + int" where
  "stoi s =
     (case strto_subject s of
        None \<Rightarrow> Inl Invalid_Argument
      | Some (neg, n) \<Rightarrow>
          (let v = (if neg then - int n else int n)
           in if int_min \<le> v \<and> v \<le> int_max then Inr v else Inl Out_Of_Range))"

definition stoul :: "string \<Rightarrow> exn + nat" where
  "stoul s =
     (case strto_subject s of
        None \<Rightarrow> Inl Invalid_Argument
      | Some (neg, n) \<Rightarrow>
          (if 2 ^ 64 \<le> n then Inl Out_Of_Range
           else Inr (if neg then (2 ^ 64 - n) mod 2 ^ 64 else n)))"

definition pdns_stou :: "string \<Rightarrow> exn + nat" where
  "pdns_stou s =
     (if s = [] then Inr 0
      else case stoul s of
             Inl e \<Rightarrow> Inl e
           | Inr result \<Rightarrow> if 2 ^ 32 - 1 < result then Inl Out_Of_Range else Inr result)"

definition digit_char :: "nat \<Rightarrow> char" where
  "digit_char d = char_of (48 + d)"

fun nat_to_string :: "nat \<Rightarrow> string" where
  "nat_to_string n =
     (if n < 10 then [digit_char n] else nat_to_string (n div 10) @ [digit_char (n mod 10)])"

declare nat_to_string.simps [simp del]

definition int_to_string :: "int \<Rightarrow> string" where
  "int_to_string i = (if i < 0 then CHR ''-'' # nat_to_string (nat (- i)) else nat_to_string (nat i))"

lemma of_char_digit_char: "d < 10 \<Longrightarrow> of_char (digit_char d) = 48 + d"
  by (simp add: digit_char_def of_char_of)

lemma isdigit_digit_char [simp]: "d < 10 \<Longrightarrow> isdigit_c (digit_char d)"
  by (simp add: isdigit_c_def of_char_digit_char)

lemma digit_value_digit_char [simp]: "d < 10 \<Longrightarrow> digit_value (digit_char d) = d"
  by (simp add: digit_value_def of_char_digit_char)

lemma isdigit_nat_to_string: "\<forall>c \<in> set (nat_to_string n). isdigit_c c"
proof (induction n rule: nat_to_string.induct)
  case (1 n)
  then show ?case
    by (subst nat_to_string.simps) auto
qed

lemma nat_to_string_not_Nil [simp]: "nat_to_string n \<noteq> []"
  by (subst nat_to_string.simps) auto

lemma digits_value_snoc [simp]: "digits_value (ds @ [c]) = 10 * digits_value ds + digit_value c"
  by (simp add: digits_value_def)

lemma digits_value_nat_to_string [simp]: "digits_value (nat_to_string n) = n"
proof (induction n rule: nat_to_string.induct)
  case (1 n)
  show ?case
  proof (cases "n < 10")
    case True
    then show ?thesis
      by (subst nat_to_string.simps) (simp add: digits_value_def)
  next
    case False
    then have "digits_value (nat_to_string (n div 10)) = n div 10" using 1 by simp
    then show ?thesis
      using False by (subst nat_to_string.simps) simp
  qed
qed

lemma isdigit_plain:
  "isdigit_c c \<Longrightarrow> of_char c \<noteq> (0::nat) \<and> \<not> isspace_c c \<and> c \<noteq> CHR ''-'' \<and> c \<noteq> CHR ''+'' \<and> c \<noteq> CHR ''/''
     \<and> c \<noteq> CHR '':'' \<and> c \<noteq> CHR ''.''"
  by (auto simp: isdigit_c_def isspace_c_def Let_def)

lemma c_str_digits: "\<forall>c \<in> set ds. isdigit_c c \<Longrightarrow> c_str ds = ds"
  using isdigit_plain by (fastforce simp: c_str_def takeWhile_eq_all_conv)

lemma strto_subject_nat [simp]: "strto_subject (nat_to_string n) = Some (False, n)"
proof -
  let ?ds = "nat_to_string n"
  have dig: "\<forall>c \<in> set ?ds. isdigit_c c" by (rule isdigit_nat_to_string)
  have hd_dig: "isdigit_c (hd ?ds)" using dig by simp
  have "dropWhile isspace_c ?ds = ?ds"
    using hd_dig isdigit_plain by (cases ?ds) auto
  moreover have tw: "takeWhile isdigit_c ?ds = ?ds" using dig by simp
  ultimately show ?thesis
    using isdigit_plain[OF hd_dig] by (simp add: strto_subject_def c_str_digits[OF dig] Let_def tw)
qed

lemma pdns_stou_nat_to_string: "n < 2 ^ 32 \<Longrightarrow> pdns_stou (nat_to_string n) = Inr n"
  by (simp add: pdns_stou_def stoul_def)

lemma strto_subject_neg [simp]: "strto_subject (CHR ''-'' # nat_to_string n) = Some (True, n)"
proof -
  let ?ds = "nat_to_string n"
  have dig: "\<forall>c \<in> set ?ds. isdigit_c c" by (rule isdigit_nat_to_string)
  have tw: "takeWhile isdigit_c ?ds = ?ds" using dig by simp
  have "c_str (CHR ''-'' # ?ds) = CHR ''-'' # ?ds"
    using c_str_digits[OF dig] by (simp add: c_str_def)
  moreover have "\<not> isspace_c CHR ''-''" by (simp add: isspace_c_def)
  ultimately show ?thesis by (simp add: strto_subject_def Let_def tw)
qed

lemma stoi_int_to_string: "int_min \<le> i \<Longrightarrow> i \<le> int_max \<Longrightarrow> stoi (int_to_string i) = Inr i"
  by (auto simp: stoi_def int_to_string_def)

definition splitField :: "string \<Rightarrow> char \<Rightarrow> string \<times> string" where
  "splitField inp sepa =
     (if sepa \<in> set inp
      then (takeWhile (\<lambda>c. c \<noteq> sepa) inp, tl (dropWhile (\<lambda>c. c \<noteq> sepa) inp))
      else (inp, []))"

lemma splitField_append: "sepa \<notin> set a \<Longrightarrow> splitField (a @ sepa # b) sepa = (a, b)"
  by (induction a) (auto simp: splitField_def)

lemma splitField_join:
  "sepa \<in> set inp \<Longrightarrow> (case splitField inp sepa of (a, b) \<Rightarrow> a @ sepa # b) = inp"
  by (induction inp) (auto simp: splitField_def)

text \<open>Bytes of a 32-bit value: most significant first (network order) and least significant first.\<close>

definition be32 :: "32 word \<Rightarrow> 8 word list" where
  "be32 x = [ucast (drop_bit 24 x), ucast (drop_bit 16 x), ucast (drop_bit 8 x), ucast x]"

definition from_be32 :: "8 word list \<Rightarrow> 32 word" where
  "from_be32 bs = foldl (\<lambda>a b. push_bit 8 a OR ucast b) 0 bs"

definition le32 :: "32 word \<Rightarrow> 8 word list" where
  "le32 x = rev (be32 x)"

definition from_le32 :: "8 word list \<Rightarrow> 32 word" where
  "from_le32 bs = from_be32 (rev bs)"

lemma length_be32 [simp]: "length (be32 x) = 4"
  by (simp add: be32_def)

lemma length_le32 [simp]: "length (le32 x) = 4"
  by (simp add: le32_def)

lemma from_be32_be32 [simp]: "from_be32 (be32 x) = x"
proof (rule bit_word_eqI)
  fix n :: nat
  consider "n < 8" | "8 \<le> n" "n < 16" | "16 \<le> n" "n < 24" | "24 \<le> n" by linarith
  then show "n < LENGTH(32) \<Longrightarrow> bit (from_be32 (be32 x)) n = bit x n"
    by cases (auto simp: from_be32_def be32_def bit_simps)
qed

lemma from_le32_le32 [simp]: "from_le32 (le32 x) = x"
  by (simp add: from_le32_def le32_def)

definition byte_of_char :: "char \<Rightarrow> 8 word" where
  "byte_of_char c = of_char c"

definition char_of_byte :: "8 word \<Rightarrow> char" where
  "char_of_byte b = char_of (unat b)"

lemma byte_of_char_nat: "byte_of_char c = word_of_nat (of_char c)"
  by (simp add: byte_of_char_def of_nat_of_char)

lemma char_of_byte_of_char [simp]: "char_of_byte (byte_of_char c) = c"
  by (simp add: byte_of_char_nat char_of_byte_def unat_of_nat take_bit_eq_mod)

lemma byte_of_char_of_byte [simp]: "byte_of_char (char_of_byte b) = b"
  using unsigned_less[of b, where 'a = nat] by (simp add: byte_of_char_nat char_of_byte_def)

lemma byte_of_char_eq_iff: "byte_of_char c = byte_of_char d \<longleftrightarrow> c = d"
  by (metis char_of_byte_of_char)

text \<open>The signed value of a 32-bit \<^verbatim>\<open>int\<close>.\<close>

abbreviation int32 :: "32 word \<Rightarrow> int" where "int32 \<equiv> sint"

end
