(* ===== verification/Sketches.thy ===== *)
theory Sketches
  imports Wf_Prelude
begin

text \<open>
  The probabilistic counters of \<^verbatim>\<open>ext/ext\<close>: MurmurHash3 (\<^verbatim>\<open>murmur3.cc\<close>), the HyperLogLog
  registers (\<^verbatim>\<open>hyperloglog.hpp\<close>) and the count-min sketch (\<^verbatim>\<open>count_min_sketch.cpp\<close>). The
  machine is little-endian, \<^verbatim>\<open>char\<close> is signed and \<^verbatim>\<open>int\<close> arithmetic that overflows wraps. What
  the constructors compute in floating point (the dimensions of a count-min sketch, the final
  HyperLogLog estimate) and \<^verbatim>\<open>rand\<close> are arguments of the definitions (\<open>sk_env\<close>).
\<close>

section \<open>MurmurHash3\<close>

definition rotl32 :: "32 word \<Rightarrow> nat \<Rightarrow> 32 word" where
  "rotl32 x r = push_bit r x OR drop_bit (32 - r) x"

definition fmix32 :: "32 word \<Rightarrow> 32 word" where
  "fmix32 h0 =
     (let h1 = h0 XOR drop_bit 16 h0;
          h2 = h1 * 0x85ebca6b;
          h3 = h2 XOR drop_bit 13 h2;
          h4 = h3 * 0xc2b2ae35
      in h4 XOR drop_bit 16 h4)"

definition murmur_k :: "32 word \<Rightarrow> 32 word" where
  "murmur_k k1 = rotl32 (k1 * 0xcc9e2d51) 15 * 0x1b873593"

definition murmur_block :: "32 word \<Rightarrow> 32 word \<Rightarrow> 32 word" where
  "murmur_block h1 k1 = rotl32 (h1 XOR murmur_k k1) 13 * 5 + 0xe6546b64"

text \<open>The loop over the four-byte blocks; the remaining bytes are the tail.\<close>

fun murmur_body :: "32 word \<Rightarrow> 8 word list \<Rightarrow> 32 word \<times> 8 word list" where
  "murmur_body h1 (a # b # c # d # rest) = murmur_body (murmur_block h1 (from_le32 [a, b, c, d])) rest"
| "murmur_body h1 tail = (h1, tail)"

definition murmur_tail :: "32 word \<Rightarrow> 8 word list \<Rightarrow> 32 word" where
  "murmur_tail h1 tail =
     (case tail of
        [a, b, c] \<Rightarrow> h1 XOR murmur_k (push_bit 16 (ucast c) XOR push_bit 8 (ucast b) XOR ucast a)
      | [a, b] \<Rightarrow> h1 XOR murmur_k (push_bit 8 (ucast b) XOR ucast a)
      | [a] \<Rightarrow> h1 XOR murmur_k (ucast a)
      | _ \<Rightarrow> h1)"

definition MurmurHash3_x86_32 :: "string \<Rightarrow> 32 word \<Rightarrow> 32 word" where
  "MurmurHash3_x86_32 key seed =
     (let (h1, tail) = murmur_body seed (map byte_of_char key)
      in fmix32 (murmur_tail h1 tail XOR of_nat (length key)))"

lemma murmur_body_tail_length: "length (snd (murmur_body h bs)) = length bs mod 4"
  by (induction h bs rule: murmur_body.induct) simp_all

lemma murmur_body_append:
  "length bs mod 4 = 0 \<Longrightarrow> murmur_body h (bs @ cs) = murmur_body (fst (murmur_body h bs)) cs"
  by (induction h bs rule: murmur_body.induct) simp_all

section \<open>The environment of the sketches\<close>

record sk_env =
  num_bits :: "32 word"
  cm_eps :: "32 word"
  cm_gamma :: "32 word"
  cm_range :: "32 word \<Rightarrow> 32 word \<Rightarrow> bool"
  cm_width :: "32 word \<Rightarrow> 32 word"
  cm_depth :: "32 word \<Rightarrow> 32 word"
  cm_rand :: "int \<Rightarrow> nat \<Rightarrow> 32 word"
  lround_estimate :: "nat \<Rightarrow> 8 word list \<Rightarrow> 32 word"

text \<open>
  \<open>num_bits\<close>, \<open>cm_eps\<close> and \<open>cm_gamma\<close> are the static members of the window classes (a \<^verbatim>\<open>float\<close>
  is kept as its 32 bits). \<open>cm_range\<close> is the two range tests of the constructor, \<open>cm_width\<close> and
  \<open>cm_depth\<close> its \<^verbatim>\<open>ceil\<close> expressions, \<open>cm_rand t\<close> the values of \<^verbatim>\<open>genajbj\<close> after
  \<^verbatim>\<open>srand(t)\<close>, and \<open>lround_estimate\<close> the rounded estimate of a register array.
\<close>

section \<open>HyperLogLog\<close>

record HyperLogLog =
  hll_b :: nat
  hll_M :: "8 word list"

definition new_HyperLogLog :: "nat \<Rightarrow> (unit, HyperLogLog) outcome" where
  "new_HyperLogLog b =
     (if 32 \<le> b then Undef
      else if b < 4 \<or> 30 < b then Exn Invalid_Argument ()
      else Ret () \<lparr>hll_b = b, hll_M = replicate (2 ^ b) 0\<rparr>)"

function clz_loop :: "nat \<Rightarrow> 32 word \<Rightarrow> nat \<Rightarrow> nat" where
  "clz_loop v x b = (if v \<le> b \<and> \<not> bit x 31 then clz_loop (v + 1) (push_bit 1 x) b else v)"
  by pat_completeness auto
termination
  by (relation "measure (\<lambda>(v, x, b). b + 1 - v)") auto

declare clz_loop.simps [simp del]

definition get_leading_zero_count :: "32 word \<Rightarrow> nat \<Rightarrow> nat" where
  "get_leading_zero_count x b = clz_loop 1 x b"

definition hll_index :: "nat \<Rightarrow> 32 word \<Rightarrow> nat" where
  "hll_index b hash = unat (hash AND (push_bit b 1 - 1))"

definition hll_rank :: "nat \<Rightarrow> 32 word \<Rightarrow> 8 word" where
  "hll_rank b hash = of_nat (get_leading_zero_count (push_bit b hash) (32 - b))"

definition hll_add :: "string \<Rightarrow> HyperLogLog \<Rightarrow> HyperLogLog" where
  "hll_add str h =
     (let hash = MurmurHash3_x86_32 str 313;
          index = hll_index (hll_b h) hash;
          rank = hll_rank (hll_b h) hash
      in if hll_M h ! index < rank then h\<lparr>hll_M := (hll_M h)[index := rank]\<rparr> else h)"

definition hll_estimate :: "sk_env \<Rightarrow> HyperLogLog \<Rightarrow> 32 word" where
  "hll_estimate E h = lround_estimate E (hll_b h) (hll_M h)"

definition hll_merge :: "HyperLogLog \<Rightarrow> HyperLogLog \<Rightarrow> (HyperLogLog, unit) outcome" where
  "hll_merge h other =
     (if 2 ^ hll_b h \<noteq> (2 ^ hll_b other :: nat) then Exn Invalid_Argument h
      else Ret (h\<lparr>hll_M := map2 (\<lambda>m om. if m < om then m OR om else m) (hll_M h) (hll_M other)\<rparr>) ())"

definition hll_clear :: "HyperLogLog \<Rightarrow> HyperLogLog" where
  "hll_clear h = h\<lparr>hll_M := map (\<lambda>_. 0) (hll_M h)\<rparr>"

definition hll_dump :: "HyperLogLog \<Rightarrow> 8 word list" where
  "hll_dump h = of_nat (hll_b h) # hll_M h"

definition hll_restore :: "8 word list \<Rightarrow> HyperLogLog \<Rightarrow> (HyperLogLog, unit) outcome" where
  "hll_restore is h =
     (let b = (case is of [] \<Rightarrow> 0 | x # _ \<Rightarrow> unat x)
      in case new_HyperLogLog b of
           Undef \<Rightarrow> Undef
         | Exn e _ \<Rightarrow> Exn e h
         | Ret _ tempHLL \<Rightarrow>
             (if length (tl is) < 2 ^ b then Exn (Runtime_Error ''HLL: Failed to restore'') h
              else Ret (tempHLL\<lparr>hll_M := take (2 ^ b) (tl is)\<rparr>) ()))"

definition hll_ok :: "HyperLogLog \<Rightarrow> bool" where
  "hll_ok h \<longleftrightarrow> 4 \<le> hll_b h \<and> hll_b h \<le> 30 \<and> length (hll_M h) = 2 ^ hll_b h"

lemma hll_index_less: "b < 32 \<Longrightarrow> hll_index b hash < 2 ^ b"
proof -
  assume b: "b < 32"
  have "hash AND (push_bit b 1 - 1) = take_bit b hash"
    by (simp add: take_bit_eq_mask mask_eq_exp_minus_1 push_bit_eq_mult)
  then show ?thesis
    using b by (simp add: hll_index_def unsigned_take_bit_eq)
qed

lemma new_HyperLogLog_ok: "new_HyperLogLog b = Ret u h \<Longrightarrow> hll_ok h"
  by (auto simp: new_HyperLogLog_def hll_ok_def split: if_splits)

lemma hll_add_ok [wf_inv]: "hll_ok h \<Longrightarrow> hll_ok (hll_add s h)"
  by (auto simp: hll_add_def hll_ok_def Let_def)

lemma hll_clear_ok [wf_inv]: "hll_ok h \<Longrightarrow> hll_ok (hll_clear h)"
  by (simp add: hll_clear_def hll_ok_def)

lemma hll_restore_ok: "hll_restore is h = Ret h' u \<Longrightarrow> hll_ok h'"
  by (auto simp: hll_restore_def new_HyperLogLog_def hll_ok_def Let_def split: if_splits)


text \<open>
  What the loop computes: the position, counted from one, of the first set bit from the top, or
  \<open>b + 1\<close> when the \<open>b\<close> top bits are clear.
\<close>

lemma bit_push1: "bit (push_bit 1 (x :: 32 word)) n \<longleftrightarrow> 0 < n \<and> n < 32 \<and> bit x (n - 1)"
  unfolding bit_push_bit_iff by (auto dest: bit_imp_le_length)

lemma clz_loop_spec:
  "1 \<le> v \<Longrightarrow> v \<le> b + 1 \<Longrightarrow> b \<le> 32 \<Longrightarrow> v \<le> clz_loop v x b \<and> clz_loop v x b \<le> b + 1
     \<and> (\<forall>i < clz_loop v x b - v. \<not> bit x (31 - i))
     \<and> (clz_loop v x b \<le> b \<longrightarrow> bit x (31 - (clz_loop v x b - v)))"
proof (induction v x b rule: clz_loop.induct)
  case (1 v x b)
  show ?case
  proof (cases "v \<le> b \<and> \<not> bit x 31")
    case False
    then show ?thesis using 1(3) by (subst (1 2 3 4 5) clz_loop.simps) auto
  next
    case True
    define r where "r = clz_loop (v + 1) (push_bit 1 x) b"
    have step: "clz_loop v x b = r" using True by (subst clz_loop.simps) (simp add: r_def)
    from True 1 have IH: "v + 1 \<le> r" "r \<le> b + 1" "\<forall>i < r - (v + 1). \<not> bit (push_bit 1 x) (31 - i)"
      "r \<le> b \<longrightarrow> bit (push_bit 1 x) (31 - (r - (v + 1)))"
      by (auto simp: r_def)
    have "\<not> bit x (31 - i)" if "i < r - v" for i
    proof (cases i)
      case (Suc j)
      then have "j < r - (v + 1)" using that by simp
      then have "\<not> bit (push_bit 1 x) (31 - j)" using IH(3) by blast
      moreover have "j < 31" using that Suc IH(2) 1(2,4) by linarith
      ultimately show ?thesis using Suc unfolding bit_push1 by simp
    qed (use True in simp)
    moreover have "bit x (31 - (r - v))" if "r \<le> b"
    proof -
      have "31 - (r - (v + 1)) - 1 = 31 - (r - v)"
        using IH(1) that 1(4) by simp
      then show ?thesis using IH(4) that unfolding bit_push1 by simp
    qed
    ultimately show ?thesis using step IH by auto
  qed
qed

lemma hll_rank_positive: "4 \<le> b \<Longrightarrow> b \<le> 30 \<Longrightarrow> 0 < hll_rank b hash"
proof -
  assume b: "4 \<le> b" "b \<le> 30"
  let ?r = "get_leading_zero_count (push_bit b hash) (32 - b)"
  have "1 \<le> ?r" "?r \<le> 33 - b"
    using clz_loop_spec[of 1 "32 - b" "push_bit b hash"] b by (auto simp: get_leading_zero_count_def)
  then have "1 \<le> ?r" "?r < 2 ^ 8" using b by auto
  then show ?thesis
    unfolding hll_rank_def by (simp add: word_less_nat_alt unat_of_nat)
qed

text \<open>
  The registers after a sequence of additions: register \<open>i\<close> holds the largest rank of the added
  strings that hash to \<open>i\<close>. So neither the order nor the multiplicity of the additions matters.
\<close>

definition str_index :: "nat \<Rightarrow> string \<Rightarrow> nat" where
  "str_index b s = hll_index b (MurmurHash3_x86_32 s 313)"

definition str_rank :: "nat \<Rightarrow> string \<Rightarrow> 8 word" where
  "str_rank b s = hll_rank b (MurmurHash3_x86_32 s 313)"

lemma hll_add_b [simp]: "hll_b (hll_add s h) = hll_b h"
  by (simp add: hll_add_def Let_def)

lemma hll_add_length [simp]: "length (hll_M (hll_add s h)) = length (hll_M h)"
  by (simp add: hll_add_def Let_def)

lemma hll_add_M_nth:
  "hll_ok h \<Longrightarrow> i < 2 ^ hll_b h \<Longrightarrow>
   hll_M (hll_add s h) ! i =
     (if i = str_index (hll_b h) s then max (hll_M h ! i) (str_rank (hll_b h) s) else hll_M h ! i)"
  by (auto simp: hll_add_def hll_ok_def str_index_def str_rank_def Let_def max_def nth_list_update)

lemma Max_insert_max:
  "finite A \<Longrightarrow> Max (insert (max a b) A) = Max (insert a (insert b A))"
  for a :: "'a :: linorder"
  by (cases "A = {}") (auto simp: max.assoc)

lemma hll_adds_nth:
  "hll_ok h \<Longrightarrow> i < 2 ^ hll_b h \<Longrightarrow>
   hll_M (fold hll_add ss h) ! i =
     Max (insert (hll_M h ! i) (str_rank (hll_b h) ` {s \<in> set ss. str_index (hll_b h) s = i}))"
proof (induction ss arbitrary: h)
  case (Cons s ss)
  have "{t \<in> set (s # ss). str_index (hll_b h) t = i} =
     (if str_index (hll_b h) s = i then insert s {t \<in> set ss. str_index (hll_b h) t = i}
      else {t \<in> set ss. str_index (hll_b h) t = i})" by auto
  with Cons show ?case
    by (auto simp: hll_add_ok hll_add_M_nth Max_insert_max)
qed simp

lemma hll_adds_b [simp]: "hll_b (fold hll_add ss h) = hll_b h"
  by (induction ss arbitrary: h) auto

lemma hll_adds_length [simp]: "length (hll_M (fold hll_add ss h)) = length (hll_M h)"
  by (induction ss arbitrary: h) auto

lemma hll_adds_set:
  assumes "hll_ok h" "set ss = set ts"
  shows "fold hll_add ss h = fold hll_add ts h"
proof -
  have "hll_M (fold hll_add ss h) = hll_M (fold hll_add ts h)"
    using assms by (intro nth_equalityI) (auto simp: hll_adds_nth hll_ok_def)
  then show ?thesis
    by (metis (full_types) HyperLogLog.surjective hll_adds_b old.unit.exhaust)
qed

lemma hll_restore_dump: "hll_ok h \<Longrightarrow> hll_restore (hll_dump h) g = Ret h ()"
  by (simp add: hll_restore_def hll_dump_def new_HyperLogLog_def hll_ok_def unat_of_nat)

lemma hll_merge_empty:
  assumes "hll_ok h"
  shows "hll_merge \<lparr>hll_b = hll_b h, hll_M = replicate (2 ^ hll_b h) 0\<rparr> h = Ret h ()"
proof -
  have "map2 (\<lambda>m om. if m < om then m OR om else m) (replicate (length M) 0) M = M"
    for M :: "8 word list"
    by (induction M) (auto simp: word_gt_0)
  from this[of "hll_M h"] assms show ?thesis by (simp add: hll_merge_def hll_ok_def)
qed

section \<open>Count-min sketch\<close>

record CountMinSketch =
  cms_w :: "32 word"
  cms_d :: "32 word"
  cms_eps :: "32 word"
  cms_gamma :: "32 word"
  cms_total :: "32 word"
  cms_C :: "32 word list list"
  cms_hashes :: "(32 word \<times> 32 word) list"

text \<open>The constructor at time \<open>t\<close>; out-of-range arguments end the process.\<close>

definition new_CountMinSketch ::
    "sk_env \<Rightarrow> int \<Rightarrow> 32 word \<Rightarrow> 32 word \<Rightarrow> (unit, CountMinSketch) outcome" where
  "new_CountMinSketch E t ep gamm =
     (if \<not> cm_range E ep gamm then Exn Exit_Failure ()
      else let w = cm_width E ep; d = cm_depth E gamm
           in Ret () \<lparr>cms_w = w, cms_d = d, cms_eps = ep, cms_gamma = gamm, cms_total = 0,
                cms_C = replicate (unat d) (replicate (unat w) 0),
                cms_hashes = map (\<lambda>i. (cm_rand E t (2 * i), cm_rand E t (2 * i + 1))) [0..<unat d]\<rparr>)"

definition cms_cell :: "CountMinSketch \<Rightarrow> nat \<Rightarrow> 32 word \<Rightarrow> nat" where
  "cms_cell s j item =
     unat ((fst (cms_hashes s ! j) * item + snd (cms_hashes s ! j)) mod cms_w s)"

definition cms_update_int :: "32 word \<Rightarrow> 32 word \<Rightarrow> CountMinSketch \<Rightarrow> CountMinSketch" where
  "cms_update_int item c s =
     s\<lparr>cms_total := cms_total s + c,
       cms_C := map (\<lambda>j. (cms_C s ! j)[cms_cell s j item := cms_C s ! j ! cms_cell s j item + c])
                  [0..<unat (cms_d s)]\<rparr>"

definition cms_hashstr :: "string \<Rightarrow> 32 word" where
  "cms_hashstr str =
     (ucast (foldl (\<lambda>hash c. push_bit 5 hash + hash + scast (byte_of_char c)) (5381 :: 64 word)
        (c_str str)) :: 32 word)"

definition cms_update :: "string \<Rightarrow> 32 word \<Rightarrow> CountMinSketch \<Rightarrow> CountMinSketch" where
  "cms_update str c s = cms_update_int (cms_hashstr str) c s"

definition cms_estimate_int :: "32 word \<Rightarrow> CountMinSketch \<Rightarrow> 32 word" where
  "cms_estimate_int item s =
     foldl (\<lambda>minval j. let c = cms_C s ! j ! cms_cell s j item in if minval <s c then minval else c)
       2147483647 [0..<unat (cms_d s)]"

definition cms_estimate :: "string \<Rightarrow> CountMinSketch \<Rightarrow> 32 word" where
  "cms_estimate str s = cms_estimate_int (cms_hashstr str) s"

definition cms_totalcount :: "CountMinSketch \<Rightarrow> 32 word" where
  "cms_totalcount s = cms_total s"

definition cms_erase :: "CountMinSketch \<Rightarrow> CountMinSketch" where
  "cms_erase s =
     s\<lparr>cms_C := replicate (unat (cms_d s)) (replicate (unat (cms_w s)) 0), cms_total := 0\<rparr>"

definition cms_dump :: "CountMinSketch \<Rightarrow> 8 word list" where
  "cms_dump s =
     le32 (cms_eps s) @ le32 (cms_gamma s) @ le32 (cms_total s)
       @ concat (map (\<lambda>row. concat (map le32 row)) (cms_C s))
       @ concat (map (\<lambda>(a, b). le32 a @ le32 b) (cms_hashes s))"

text \<open>
  Reading \<open>n\<close> consecutive 32-bit values; a short read leaves the missing bytes as they were
  (zero here) and sets the fail bit.
\<close>

fun read_words :: "nat \<Rightarrow> 8 word list \<Rightarrow> 32 word list \<times> 8 word list" where
  "read_words 0 is = ([], is)"
| "read_words (Suc n) is =
     (let (ws, rest) = read_words n (drop 4 is)
      in (from_le32 (take 4 (is @ replicate 4 0)) # ws, rest))"

fun chunks :: "nat \<Rightarrow> nat \<Rightarrow> 'a list \<Rightarrow> 'a list list" where
  "chunks 0 k xs = []"
| "chunks (Suc n) k xs = take k xs # chunks n k (drop k xs)"

fun pair_up :: "'a list \<Rightarrow> ('a \<times> 'a) list" where
  "pair_up (a # b # xs) = (a, b) # pair_up xs"
| "pair_up _ = []"

definition cms_restore ::
    "sk_env \<Rightarrow> int \<Rightarrow> 8 word list \<Rightarrow> CountMinSketch \<Rightarrow> (CountMinSketch, unit) outcome" where
  "cms_restore E t is s =
     (let (hdr, is1) = read_words 2 is;
          myeps = hdr ! 0;
          mygamma = hdr ! 1
      in case new_CountMinSketch E t myeps mygamma of
           Undef \<Rightarrow> Undef
         | Exn e _ \<Rightarrow> Exn e s
         | Ret _ temp \<Rightarrow>
             (let w = unat (cms_w temp); d = unat (cms_d temp);
                  (ws, _) = read_words (1 + d * w + 2 * d) is1
              in if length is < 8 + 4 * (1 + d * w + 2 * d)
                 then Exn (Runtime_Error ''CountMinSketch: Failed to restore'') s
                 else Ret (temp\<lparr>cms_total := hd ws,
                                 cms_C := chunks d w (tl ws),
                                 cms_hashes := pair_up (drop (1 + d * w) ws)\<rparr>) ()))"

definition cms_ok :: "CountMinSketch \<Rightarrow> bool" where
  "cms_ok s \<longleftrightarrow> 0 < cms_w s \<and> length (cms_C s) = unat (cms_d s)
     \<and> (\<forall>row \<in> set (cms_C s). length row = unat (cms_w s))
     \<and> length (cms_hashes s) = unat (cms_d s)"

lemma cms_cell_less: "cms_ok s \<Longrightarrow> cms_cell s j item < unat (cms_w s)"
  by (simp add: cms_cell_def cms_ok_def unat_mod word_less_nat_alt)

lemma cms_ok_row: "cms_ok s \<Longrightarrow> j < unat (cms_d s) \<Longrightarrow> length (cms_C s ! j) = unat (cms_w s)"
  by (simp add: cms_ok_def)

lemma cms_update_int_ok [wf_inv]: "cms_ok s \<Longrightarrow> cms_ok (cms_update_int item c s)"
  by (auto simp: cms_ok_def cms_update_int_def)

lemma cms_update_ok [wf_inv]: "cms_ok s \<Longrightarrow> cms_ok (cms_update str c s)"
  by (simp add: cms_update_def cms_update_int_ok)

lemma cms_erase_ok [wf_inv]: "cms_ok s \<Longrightarrow> cms_ok (cms_erase s)"
  by (simp add: cms_ok_def cms_erase_def)

lemma new_CountMinSketch_ok:
  "new_CountMinSketch E t ep g = Ret u s \<Longrightarrow> 0 < cm_width E ep \<Longrightarrow> cms_ok s"
  by (auto simp: new_CountMinSketch_def cms_ok_def Let_def split: if_splits)

subsection \<open>The contents of a cell\<close>

definition cms_updates :: "(32 word \<times> 32 word) list \<Rightarrow> CountMinSketch \<Rightarrow> CountMinSketch" where
  "cms_updates ups s = fold (\<lambda>(item, c). cms_update_int item c) ups s"

lemma cms_update_int_shape [simp]:
  "cms_w (cms_update_int i c s) = cms_w s" "cms_d (cms_update_int i c s) = cms_d s"
  "cms_hashes (cms_update_int i c s) = cms_hashes s"
  "cms_cell (cms_update_int i c s) = cms_cell s"
  by (simp_all add: cms_update_int_def cms_cell_def fun_eq_iff)

lemma cms_updates_shape [simp]:
  "cms_w (cms_updates ups s) = cms_w s" "cms_d (cms_updates ups s) = cms_d s"
  "cms_hashes (cms_updates ups s) = cms_hashes s" "cms_cell (cms_updates ups s) = cms_cell s"
  by (induction ups arbitrary: s) (auto simp: cms_updates_def)

lemma cms_updates_ok: "cms_ok s \<Longrightarrow> cms_ok (cms_updates ups s)"
  by (induction ups arbitrary: s) (auto simp: cms_updates_def cms_update_int_ok)

lemma cms_update_int_cell:
  "cms_ok s \<Longrightarrow> j < unat (cms_d s) \<Longrightarrow> k < unat (cms_w s) \<Longrightarrow>
   cms_C (cms_update_int item c s) ! j ! k =
     cms_C s ! j ! k + (if cms_cell s j item = k then c else 0)"
  by (auto simp: cms_update_int_def cms_ok_row nth_list_update)

lemma cms_updates_cell:
  "cms_ok s \<Longrightarrow> j < unat (cms_d s) \<Longrightarrow> k < unat (cms_w s) \<Longrightarrow>
   cms_C (cms_updates ups s) ! j ! k =
     cms_C s ! j ! k + sum_list (map snd (filter (\<lambda>u. cms_cell s j (fst u) = k) ups))"
proof (induction ups arbitrary: s)
  case (Cons u ups)
  obtain item c where u: "u = (item, c)" by (cases u)
  have "cms_updates (u # ups) s = cms_updates ups (cms_update_int item c s)"
    by (simp add: cms_updates_def u)
  with Cons show ?case by (simp add: u cms_update_int_ok cms_update_int_cell add.assoc)
qed (simp add: cms_updates_def)

lemma cms_updates_total: "cms_total (cms_updates ups s) = cms_total s + sum_list (map snd ups)"
proof (induction ups arbitrary: s)
  case (Cons u ups)
  obtain item c where u: "u = (item, c)" by (cases u)
  have "cms_updates (u # ups) s = cms_updates ups (cms_update_int item c s)"
    by (simp add: cms_updates_def u)
  with Cons show ?case by (simp add: u cms_update_int_def add.assoc)
qed (simp add: cms_updates_def)

lemma sum_list_filter_le:
  "sum_list (map f (filter P xs)) \<le> sum_list (map f xs)"
  for f :: "'a \<Rightarrow> nat"
  by (induction xs) auto

lemma unat_sum_list:
  "sum_list (map unat xs) < 2 ^ 32 \<Longrightarrow> unat (sum_list xs) = sum_list (map unat xs)"
  for xs :: "32 word list"
  by (induction xs) (auto simp: unat_word_ariths)

lemma foldl_min_le:
  "sint (foldl (\<lambda>minval j. let c = f j in if minval <s c then minval else c) m js) \<le> sint m \<and>
   (\<forall>j \<in> set js. sint (foldl (\<lambda>minval j. let c = f j in if minval <s c then minval else c) m js)
      \<le> sint (f j))"
  for f :: "nat \<Rightarrow> 32 word"
proof (induction js arbitrary: m)
  case (Cons j js)
  then show ?case
    by (auto simp: Let_def word_sless_alt) (meson order.trans not_less less_imp_le)+
qed simp

lemma foldl_min_ge:
  "b \<le> sint m \<Longrightarrow> (\<forall>j \<in> set js. b \<le> sint (f j)) \<Longrightarrow>
   b \<le> sint (foldl (\<lambda>minval j. let c = f j in if minval <s c then minval else c) m js)"
  for f :: "nat \<Rightarrow> 32 word"
  by (induction js arbitrary: m) (auto simp: Let_def)

lemma sint_small:
  fixes x :: "32 word"
  assumes "unat x < 2 ^ 31"
  shows "sint x = int (unat x)"
proof -
  have "unat x < 2147483648" using assms by simp
  then have "int (unat x) < 2147483648" by linarith
  then have "uint x < 2 ^ 31" by simp
  then have "signed_take_bit 31 (uint x) = uint x"
    using uint_ge_0[of x] by (intro signed_take_bit_int_eq_self) linarith+
  then show ?thesis by (simp add: sint_uint)
qed

text \<open>The count of an item in a list of updates, and the cells of a sketch that had been erased.\<close>

definition item_count :: "32 word \<Rightarrow> (32 word \<times> 32 word) list \<Rightarrow> nat" where
  "item_count item ups = sum_list (map (unat \<circ> snd) (filter (\<lambda>u. fst u = item) ups))"

definition all_count :: "(32 word \<times> 32 word) list \<Rightarrow> nat" where
  "all_count ups = sum_list (map (unat \<circ> snd) ups)"

lemma item_count_le_cell:
  "item_count item ups \<le> sum_list (map (unat \<circ> snd) (filter (\<lambda>u. f (fst u) = f item) ups))"
  by (induction ups) (auto simp: item_count_def)

lemma cms_erase_shape [simp]:
  "cms_w (cms_erase s) = cms_w s" "cms_d (cms_erase s) = cms_d s"
  "cms_hashes (cms_erase s) = cms_hashes s" "cms_cell (cms_erase s) = cms_cell s"
  by (simp_all add: cms_erase_def cms_cell_def fun_eq_iff)

lemma cms_cell_count:
  assumes ok: "cms_ok s" and all: "all_count ups < 2 ^ 31" and j: "j < unat (cms_d s)"
  shows "sint (cms_C (cms_updates ups (cms_erase s)) ! j ! cms_cell s j item) =
     int (sum_list (map (unat \<circ> snd) (filter (\<lambda>u. cms_cell s j (fst u) = cms_cell s j item) ups)))"
proof -
  let ?F = "filter (\<lambda>u. cms_cell s j (fst u) = cms_cell s j item) ups"
  have "sum_list (map (unat \<circ> snd) ?F) \<le> all_count ups"
    unfolding all_count_def by (rule sum_list_filter_le)
  then have small: "sum_list (map unat (map snd ?F)) < 2 ^ 31" using all by simp
  have "cms_C (cms_updates ups (cms_erase s)) ! j ! cms_cell s j item = sum_list (map snd ?F)"
    using cms_updates_cell[of "cms_erase s" j "cms_cell s j item" ups] ok j cms_cell_less[OF ok]
    by (simp add: cms_erase_ok) (simp add: cms_erase_def)
  moreover have "unat (sum_list (map snd ?F)) = sum_list (map unat (map snd ?F))"
    using small by (intro unat_sum_list) simp
  ultimately show ?thesis using small by (simp add: sint_small)
qed

lemma cms_estimate_bounds:
  assumes ok: "cms_ok s" and all: "all_count ups < 2 ^ 31" and d: "0 < cms_d s"
  shows "int (item_count item ups) \<le> sint (cms_estimate_int item (cms_updates ups (cms_erase s)))"
    and "sint (cms_estimate_int item (cms_updates ups (cms_erase s))) \<le> int (all_count ups)"
proof -
  let ?s = "cms_updates ups (cms_erase s)"
  let ?f = "\<lambda>j. cms_C ?s ! j ! cms_cell s j item"
  have est: "cms_estimate_int item ?s =
      foldl (\<lambda>minval j. let c = ?f j in if minval <s c then minval else c) 2147483647
        [0..<unat (cms_d s)]"
    by (simp add: cms_estimate_int_def)
  have "item_count item ups \<le> all_count ups"
    unfolding item_count_def all_count_def by (rule sum_list_filter_le)
  then have top: "int (item_count item ups) \<le> sint (2147483647 :: 32 word)"
    using all by simp
  have "int (item_count item ups) \<le> sint (?f j)" if "j < unat (cms_d s)" for j
    using item_count_le_cell[of item ups "cms_cell s j"] cms_cell_count[OF ok all that] by simp
  then show "int (item_count item ups) \<le> sint (cms_estimate_int item ?s)"
    unfolding est by (intro foldl_min_ge top) auto
  have d0: "0 < unat (cms_d s)" using d by (simp add: word_less_nat_alt)
  then have "sint (cms_estimate_int item ?s) \<le> sint (?f 0)"
    unfolding est
    using foldl_min_le[of ?f "2147483647" "[0..<unat (cms_d s)]"] by auto
  also have "\<dots> \<le> int (all_count ups)"
    using cms_cell_count[OF ok all d0, of item]
      sum_list_filter_le[of "unat \<circ> snd" "\<lambda>u. cms_cell s 0 (fst u) = cms_cell s 0 item" ups]
    by (simp add: all_count_def)
  finally show "sint (cms_estimate_int item ?s) \<le> int (all_count ups)" .
qed

subsection \<open>Dump and restore\<close>

lemma read_words_append [simp]:
  "read_words (length ws) (concat (map le32 ws) @ rest) = (ws, rest)"
  by (induction ws) auto

lemma chunks_concat:
  "\<forall>row \<in> set rows. length row = k \<Longrightarrow> chunks (length rows) k (concat rows @ rest) = rows"
  by (induction rows) auto

lemma pair_up_concat: "pair_up (concat (map (\<lambda>(a, b). [a, b]) ps)) = ps"
  by (induction ps) auto

lemma length_concat_rows:
  "\<forall>row \<in> set rows. length row = k \<Longrightarrow> length (concat rows) = length rows * k"
  by (induction rows) auto

lemma concat_map_le32_rows:
  "concat (map (\<lambda>row. concat (map le32 row)) rows) = concat (map le32 (concat rows))"
  by (induction rows) auto

lemma concat_map_le32_pairs:
  "concat (map (\<lambda>(a, b). le32 a @ le32 b) ps) =
     concat (map le32 (concat (map (\<lambda>(a, b). [a, b]) ps)))"
  by (induction ps) auto

lemma length_concat_pairs: "length (concat (map (\<lambda>(a, b). [a, b]) ps)) = 2 * length ps"
  by (induction ps) auto

lemma cms_dump_words:
  "cms_dump s = concat (map le32
     ([cms_eps s, cms_gamma s] @
      (cms_total s # concat (cms_C s) @ concat (map (\<lambda>(a, b). [a, b]) (cms_hashes s)))))"
  by (simp add: cms_dump_def concat_map_le32_rows concat_map_le32_pairs)

definition cms_fits :: "sk_env \<Rightarrow> CountMinSketch \<Rightarrow> bool" where
  "cms_fits E s \<longleftrightarrow> cms_ok s \<and> cm_range E (cms_eps s) (cms_gamma s)
     \<and> cms_w s = cm_width E (cms_eps s) \<and> cms_d s = cm_depth E (cms_gamma s)"

lemma length_concat_le32 [simp]: "length (concat (map le32 ws)) = 4 * length ws"
  by (induction ws) auto

lemma cms_restore_dump:
  assumes "cms_fits E s"
  shows "cms_restore E t (cms_dump s) g = Ret s ()"
proof -
  let ?pairs = "concat (map (\<lambda>(a, b). [a, b]) (cms_hashes s))"
  let ?body = "cms_total s # concat (cms_C s) @ ?pairs"
  let ?w = "unat (cms_w s)" and ?d = "unat (cms_d s)"
  have rows: "\<forall>row \<in> set (cms_C s). length row = ?w" and nrows: "length (cms_C s) = ?d"
    and npairs: "length (cms_hashes s) = ?d"
    using assms by (auto simp: cms_fits_def cms_ok_def)
  have len: "length ?body = 1 + ?d * ?w + 2 * ?d"
    by (simp add: length_concat_rows[OF rows] length_concat_pairs nrows npairs)
  have hdr: "read_words 2 (cms_dump s) = ([cms_eps s, cms_gamma s], concat (map le32 ?body))"
    using read_words_append[of "[cms_eps s, cms_gamma s]" "concat (map le32 ?body)"]
    by (simp add: cms_dump_words numeral_2_eq_2)
  have body: "read_words (1 + ?d * ?w + 2 * ?d) (concat (map le32 ?body)) = (?body, [])"
    using read_words_append[of ?body "[]"] len by simp
  have total_len: "length (cms_dump s) = 8 + 4 * (1 + ?d * ?w + 2 * ?d)"
    using len by (simp add: cms_dump_words)
  have rows_back: "chunks ?d ?w (concat (cms_C s) @ ?pairs) = cms_C s"
    using chunks_concat[OF rows, of ?pairs] nrows by simp
  have "length (concat (cms_C s)) = ?d * ?w" using length_concat_rows[OF rows] nrows by simp
  then have pairs_back: "pair_up (drop (1 + ?d * ?w) ?body) = cms_hashes s"
    by (simp add: pair_up_concat)
  show ?thesis
    using assms hdr body total_len rows_back pairs_back
    by (simp add: cms_restore_def new_CountMinSketch_def cms_fits_def Let_def)
qed

section \<open>Properties of the sketches\<close>

definition cms_count :: "string \<Rightarrow> (string \<times> 32 word) list \<Rightarrow> nat" where
  "cms_count str ups = sum_list (map (unat \<circ> snd) (filter (\<lambda>u. fst u = str) ups))"

definition cms_run :: "(string \<times> 32 word) list \<Rightarrow> CountMinSketch \<Rightarrow> CountMinSketch" where
  "cms_run ups s = fold (\<lambda>(str, c). cms_update str c) ups (cms_erase s)"

lemma cms_run_updates:
  "cms_run ups s = cms_updates (map (\<lambda>(str, c). (cms_hashstr str, c)) ups) (cms_erase s)"
  unfolding cms_run_def cms_updates_def
  by (induction ups arbitrary: s rule: rev_induct) (auto simp: cms_update_def)

lemma cms_run_total: "cms_total (cms_run ups s) = sum_list (map snd ups)"
  by (induction ups rule: rev_induct)
    (auto simp: cms_run_def cms_update_def cms_update_int_def cms_erase_def)

lemma cms_count_le_item:
  "cms_count str ups \<le> item_count (cms_hashstr str) (map (\<lambda>(str, c). (cms_hashstr str, c)) ups)"
  by (induction ups) (auto simp: cms_count_def item_count_def)

lemma all_count_map: "all_count (map (\<lambda>(str, c). (cms_hashstr str, c)) ups) = sum_list (map (unat \<circ> snd) ups)"
  by (induction ups) (auto simp: all_count_def)

text \<open>
  C33. A count-min window never underestimates: after any sequence of updates of an erased sketch
  with counts that do not overflow an \<^verbatim>\<open>int\<close> in total, the estimate of a string lies between the
  count that was added for it and the sum of all counts, and \<^verbatim>\<open>totalcount\<close> is exactly that sum.
\<close>

theorem cms_estimate_sound:
  assumes "cms_ok s" and "0 < cms_d s" and "sum_list (map (unat \<circ> snd) ups) < 2 ^ 31"
  shows "int (cms_count str ups) \<le> sint (cms_estimate str (cms_run ups s))
    \<and> sint (cms_estimate str (cms_run ups s)) \<le> int (sum_list (map (unat \<circ> snd) ups))
    \<and> unat (cms_totalcount (cms_run ups s)) = sum_list (map (unat \<circ> snd) ups)"
proof -
  let ?ups = "map (\<lambda>(str, c). (cms_hashstr str, c)) ups"
  have small: "all_count ?ups < 2 ^ 31" using assms(3) by (simp add: all_count_map)
  have "int (cms_count str ups) \<le> int (item_count (cms_hashstr str) ?ups)"
    using cms_count_le_item by simp
  moreover have "unat (sum_list (map snd ups)) = sum_list (map (unat \<circ> snd) ups)"
    using unat_sum_list[of "map snd ups"] assms(3) by simp
  ultimately show ?thesis
    using cms_estimate_bounds[OF assms(1) small assms(2), of "cms_hashstr str"]
    by (simp add: cms_totalcount_def cms_run_total) (simp add: cms_run_updates cms_estimate_def all_count_map)
qed

definition demo_cms :: CountMinSketch where
  "demo_cms = \<lparr>cms_w = 3, cms_d = 2, cms_eps = 1, cms_gamma = 2, cms_total = 0,
     cms_C = [[0, 0, 0], [0, 0, 0]], cms_hashes = [(1, 0), (2, 1)]\<rparr>"

theorem cms_estimate_sound_witness:
  "2 \<le> sint (cms_estimate ''a'' (cms_run [(''a'', 2), (''b'', 1)] demo_cms))
   \<and> unat (cms_totalcount (cms_run [(''a'', 2), (''b'', 1)] demo_cms)) = 3"
  using cms_estimate_sound[of demo_cms "[(''a'', 2), (''b'', 1)]" "''a''"]
  by (simp add: demo_cms_def cms_ok_def cms_count_def)

text \<open>
  A HyperLogLog window depends only on the set of strings added to it: register \<open>i\<close> is the
  largest rank among the added strings that hash to \<open>i\<close>, and two sequences of additions with the
  same set of strings give the same sketch.
\<close>

lemma hll_registers_spec:
  assumes "hll_ok h"
  shows "(i < 2 ^ hll_b h \<longrightarrow>
      hll_M (fold hll_add ss (hll_clear h)) ! i =
        Max (insert 0 (str_rank (hll_b h) ` {s \<in> set ss. str_index (hll_b h) s = i})))
    \<and> (set ss = set ts \<longrightarrow> fold hll_add ss (hll_clear h) = fold hll_add ts (hll_clear h))"
  using assms hll_adds_nth[of "hll_clear h" i ss] hll_adds_set[of "hll_clear h" ss ts]
  by (simp add: hll_clear_ok) (simp add: hll_clear_def hll_ok_def)

definition demo_hll :: HyperLogLog where
  "demo_hll = \<lparr>hll_b = 4, hll_M = replicate 16 0\<rparr>"

definition hll_of :: "string list \<Rightarrow> HyperLogLog" where
  "hll_of ss = fold hll_add ss \<lparr>hll_b = 6, hll_M = replicate 64 0\<rparr>"

lemmas murmur_eval = MurmurHash3_x86_32_def byte_of_char_def murmur_tail_def murmur_block_def
  from_le32_def from_be32_def fmix32_def murmur_k_def rotl32_def Let_def

lemmas hll_eval = murmur_eval str_index_def str_rank_def hll_index_def hll_rank_def
  get_leading_zero_count_def clz_loop.simps

lemma hll_a_and_i:
  "str_index 6 ''a'' = 40" "str_rank 6 ''a'' = 1" "str_index 6 ''i'' = 40" "str_rank 6 ''i'' = 2"
  by (simp_all add: hll_eval)

lemma hll_of_shape [simp]: "hll_b (hll_of ss) = 6" "length (hll_M (hll_of ss)) = 64"
  by (simp_all add: hll_of_def)

lemma hll_of_nth:
  "i < 64 \<Longrightarrow>
   hll_M (hll_of ss) ! i = Max (insert 0 (str_rank 6 ` {s \<in> set ss. str_index 6 s = i}))"
  unfolding hll_of_def by (subst hll_adds_nth) (auto simp: hll_ok_def)

lemma hll_merge_of:
  "hll_merge (hll_of ss) (hll_of ts) =
     Ret ((hll_of ss)\<lparr>hll_M := map2 (\<lambda>m om. if m < om then m OR om else m)
       (hll_M (hll_of ss)) (hll_M (hll_of ts))\<rparr>) ()"
  by (simp add: hll_merge_def)

text \<open>
  Merging HyperLogLog sketches is not the union of their sets (the code combines two registers
  with a bitwise or where the maximum is meant): for the strings a and i, which share register 40
  with ranks 1 and 2, the merged sketch is not the sketch of both strings, and the result depends
  on the order of the merge.
\<close>

lemma hll_merge_not_union:
  "hll_merge (hll_of [''a'']) (hll_of [''i'']) \<noteq> Ret (hll_of [''a'', ''i'']) ()
   \<and> hll_merge (hll_of [''a'']) (hll_of [''i'']) \<noteq> hll_merge (hll_of [''i'']) (hll_of [''a''])"
proof -
  have sets: "{s. s = ''a'' \<and> str_index 6 s = 40} = {''a''}"
    "{s. s = ''i'' \<and> str_index 6 s = 40} = {''i''}"
    "{s. (s = ''a'' \<or> s = ''i'') \<and> str_index 6 s = 40} = {''a'', ''i''}"
    by (auto simp: hll_a_and_i)
  have a: "hll_M (hll_of [''a'']) ! 40 = 1" and i: "hll_M (hll_of [''i'']) ! 40 = 2"
    and ai: "hll_M (hll_of [''a'', ''i'']) ! 40 = 2"
    by (simp_all add: hll_of_nth sets hll_a_and_i)
  define ab where "ab = map2 (\<lambda>m om. if m < om then m OR om else m)
      (hll_M (hll_of [''a''])) (hll_M (hll_of [''i'']))"
  define ba where "ba = map2 (\<lambda>m om. if m < om then m OR om else m)
      (hll_M (hll_of [''i''])) (hll_M (hll_of [''a'']))"
  have "ab ! 40 = 3" "ba ! 40 = 2" by (simp_all add: ab_def ba_def a i)
  then have "ab \<noteq> hll_M (hll_of [''a'', ''i''])" "ab \<noteq> ba" using ai by auto
  then show ?thesis
    by (auto simp: hll_merge_of simp flip: ab_def ba_def dest!: arg_cong[where f = hll_M])
qed

text \<open>
  Restoring a dumped HyperLogLog sketch, into whatever sketch is there, gives back exactly the
  dumped registers and register width.
\<close>

lemma hll_dump_roundtrip:
  assumes "hll_ok h"
  shows "hll_restore (hll_dump h) g = Ret h ()"
  using assms by (rule hll_restore_dump)

text \<open>
  Restoring a dumped count-min sketch gives back the same sketch (counters, total and hash
  coefficients), at whatever time and into whatever sketch it is restored.
\<close>

lemma cms_dump_roundtrip:
  assumes "cms_fits E s"
  shows "cms_restore E t (cms_dump s) g = Ret s ()"
  using assms by (rule cms_restore_dump)

definition demo_env :: sk_env where
  "demo_env = \<lparr>num_bits = 6, cm_eps = 1, cm_gamma = 2, cm_range = (\<lambda>_ _. True),
     cm_width = (\<lambda>_. 3), cm_depth = (\<lambda>_. 2), cm_rand = (\<lambda>t i. word_of_nat (7 * i + 1)),
     lround_estimate = (\<lambda>_ M. of_nat (length (filter (\<lambda>r. r \<noteq> 0) M)))\<rparr>"

end
