(* ===== verification/TW_Stats.thy ===== *)
theory TW_Stats
  imports Sketches
begin

text \<open>
  The time-windowed counters of \<^verbatim>\<open>common/twmap.hh\<close>: the window contents (\<^verbatim>\<open>TWStatsMember\<close> and its
  three subclasses) and the ring of windows of one field (\<^verbatim>\<open>TWStatsEntry\<close>). Every call of
  \<^verbatim>\<open>std::time\<close> is an argument of its own: an operation that looks at the clock three times takes
  three readings. An access outside the ring and a division by zero are \<open>Undef\<close>.
\<close>

section \<open>The contents of a window\<close>

datatype TWStatsMember =
    TWStatsMemberInt "32 word"
  | TWStatsMemberHLL HyperLogLog
  | TWStatsMemberCountMin CountMinSketch

fun member_type :: "TWStatsMember \<Rightarrow> string" where
  "member_type (TWStatsMemberInt _) = ''int''"
| "member_type (TWStatsMemberHLL _) = ''hll''"
| "member_type (TWStatsMemberCountMin _) = ''countmin''"

definition type_map_has :: "string \<Rightarrow> bool" where
  "type_map_has field_type \<longleftrightarrow> field_type \<in> {''int'', ''hll'', ''countmin''}"

definition new_HLL_member :: "sk_env \<Rightarrow> (unit, TWStatsMember) outcome" where
  "new_HLL_member E =
     obind (new_HyperLogLog (unat (ucast (num_bits E) :: 8 word))) (\<lambda>_ h. Ret () (TWStatsMemberHLL h))"

definition new_CountMin_member :: "sk_env \<Rightarrow> int \<Rightarrow> (unit, TWStatsMember) outcome" where
  "new_CountMin_member E t =
     obind (new_CountMinSketch E t (cm_eps E) (cm_gamma E)) (\<lambda>_ s. Ret () (TWStatsMemberCountMin s))"

definition createInstance :: "sk_env \<Rightarrow> int \<Rightarrow> string \<Rightarrow> (unit, TWStatsMember) outcome" where
  "createInstance E t field_type =
     (if field_type = ''int'' then Ret () (TWStatsMemberInt 0)
      else if field_type = ''hll'' then new_HLL_member E
      else new_CountMin_member E t)"

definition setNumBits :: "32 word \<Rightarrow> sk_env \<Rightarrow> sk_env" where
  "setNumBits nbits E =
     (let n1 = (if nbits < 4 then 4 else nbits);
          n2 = (if 30 < num_bits E then 30 else n1)
      in E\<lparr>num_bits := n2\<rparr>)"

fun member_add_int :: "32 word \<Rightarrow> TWStatsMember \<Rightarrow> TWStatsMember" where
  "member_add_int a (TWStatsMemberInt i) = TWStatsMemberInt (i + a)"
| "member_add_int a (TWStatsMemberHLL h) = TWStatsMemberHLL (hll_add (int_to_string (sint a)) h)"
| "member_add_int a (TWStatsMemberCountMin s) = TWStatsMemberCountMin s"

fun member_add_str :: "string \<Rightarrow> TWStatsMember \<Rightarrow> exn + TWStatsMember" where
  "member_add_str s (TWStatsMemberInt i) =
     (case stoi s of Inl e \<Rightarrow> Inl e | Inr a \<Rightarrow> Inr (TWStatsMemberInt (i + word_of_int a)))"
| "member_add_str s (TWStatsMemberHLL h) = Inr (TWStatsMemberHLL (hll_add s h))"
| "member_add_str s (TWStatsMemberCountMin c) = Inr (TWStatsMemberCountMin (cms_update s 1 c))"

fun member_add_str_int :: "string \<Rightarrow> 32 word \<Rightarrow> TWStatsMember \<Rightarrow> TWStatsMember" where
  "member_add_str_int s a (TWStatsMemberCountMin c) = TWStatsMemberCountMin (cms_update s a c)"
| "member_add_str_int s a m = m"

fun member_sub_int :: "32 word \<Rightarrow> TWStatsMember \<Rightarrow> TWStatsMember" where
  "member_sub_int a (TWStatsMemberInt i) = TWStatsMemberInt (i - a)"
| "member_sub_int a m = m"

fun member_sub_str :: "string \<Rightarrow> TWStatsMember \<Rightarrow> exn + TWStatsMember" where
  "member_sub_str s (TWStatsMemberInt i) =
     (case stoi s of Inl e \<Rightarrow> Inl e | Inr a \<Rightarrow> Inr (TWStatsMemberInt (i - word_of_int a)))"
| "member_sub_str s m = Inr m"

fun member_get :: "sk_env \<Rightarrow> TWStatsMember \<Rightarrow> 32 word" where
  "member_get E (TWStatsMemberInt i) = i"
| "member_get E (TWStatsMemberHLL h) = hll_estimate E h"
| "member_get E (TWStatsMemberCountMin s) = cms_totalcount s"

fun member_get_str :: "sk_env \<Rightarrow> string \<Rightarrow> TWStatsMember \<Rightarrow> TWStatsMember \<times> 32 word" where
  "member_get_str E s (TWStatsMemberInt i) = (TWStatsMemberInt i, i)"
| "member_get_str E s (TWStatsMemberHLL h) =
     (let h' = hll_add s h in (TWStatsMemberHLL h', hll_estimate E h'))"
| "member_get_str E s (TWStatsMemberCountMin c) = (TWStatsMemberCountMin c, cms_estimate s c)"

fun member_set_int :: "32 word \<Rightarrow> TWStatsMember \<Rightarrow> TWStatsMember" where
  "member_set_int a (TWStatsMemberInt i) = TWStatsMemberInt a"
| "member_set_int a m = m"

fun member_set_str :: "string \<Rightarrow> TWStatsMember \<Rightarrow> TWStatsMember" where
  "member_set_str s (TWStatsMemberHLL h) = TWStatsMemberHLL (hll_add s (hll_clear h))"
| "member_set_str s m = m"

fun member_erase :: "TWStatsMember \<Rightarrow> TWStatsMember" where
  "member_erase (TWStatsMemberInt i) = TWStatsMemberInt 0"
| "member_erase (TWStatsMemberHLL h) = TWStatsMemberHLL (hll_clear h)"
| "member_erase (TWStatsMemberCountMin s) = TWStatsMemberCountMin (cms_erase s)"

type_synonym TWStatsBuf = "(int \<times> TWStatsMember) list"

definition sum_gets :: "sk_env \<Rightarrow> TWStatsBuf \<Rightarrow> 32 word" where
  "sum_gets E vec = foldl (\<lambda>count a. count + member_get E (snd a)) 0 vec"

text \<open>The union over all windows of a HyperLogLog field; a window of another class is a bad cast.\<close>

fun merge_all :: "TWStatsBuf \<Rightarrow> HyperLogLog \<Rightarrow> (unit, HyperLogLog) outcome" where
  "merge_all [] hllsum = Ret () hllsum"
| "merge_all ((_, TWStatsMemberHLL h) # vec) hllsum =
     (case hll_merge hllsum h of
        Ret hs _ \<Rightarrow> merge_all vec hs
      | Exn e _ \<Rightarrow> Exn e ()
      | Undef \<Rightarrow> Undef)"
| "merge_all (_ # vec) hllsum = Exn (Runtime_Error ''std::bad_cast'') ()"

fun member_sum :: "sk_env \<Rightarrow> TWStatsMember \<Rightarrow> TWStatsBuf \<Rightarrow> (unit, 32 word) outcome" where
  "member_sum E (TWStatsMemberInt _) vec = Ret () (sum_gets E vec)"
| "member_sum E (TWStatsMemberHLL _) vec =
     obind (new_HyperLogLog (unat (ucast (num_bits E) :: 8 word))) (\<lambda>_ hllsum.
       obind (merge_all vec hllsum) (\<lambda>_ h. Ret () (hll_estimate E h)))"
| "member_sum E (TWStatsMemberCountMin _) vec = Ret () (sum_gets E vec)"

fun member_sum_str :: "sk_env \<Rightarrow> string \<Rightarrow> TWStatsMember \<Rightarrow> TWStatsBuf \<Rightarrow> 32 word" where
  "member_sum_str E s (TWStatsMemberCountMin _) vec =
     foldl (\<lambda>count a. count + snd (member_get_str E s (snd a))) 0 vec"
| "member_sum_str E s m vec = 0"

fun member_dump :: "TWStatsMember \<Rightarrow> 8 word list" where
  "member_dump (TWStatsMemberInt i) = be32 i"
| "member_dump (TWStatsMemberHLL h) = hll_dump h"
| "member_dump (TWStatsMemberCountMin s) = cms_dump s"

fun member_restore ::
    "sk_env \<Rightarrow> int \<Rightarrow> 8 word list \<Rightarrow> TWStatsMember \<Rightarrow> (TWStatsMember, unit) outcome" where
  "member_restore E t is (TWStatsMemberInt i) =
     Ret (TWStatsMemberInt (from_be32 (take 4 (is @ replicate 4 0)))) ()"
| "member_restore E t is (TWStatsMemberHLL h) = map_state TWStatsMemberHLL (hll_restore is h)"
| "member_restore E t is (TWStatsMemberCountMin s) =
     map_state TWStatsMemberCountMin (cms_restore E t is s)"

fun member_ok :: "TWStatsMember \<Rightarrow> bool" where
  "member_ok (TWStatsMemberInt i) = True"
| "member_ok (TWStatsMemberHLL h) = hll_ok h"
| "member_ok (TWStatsMemberCountMin s) = cms_ok s"

section \<open>The ring of windows of one field\<close>

record TWStatsEntry =
  stats_array :: TWStatsBuf
  num_windows :: int
  window_size :: int
  start_time :: int
  last_cleaned :: int
  sum_cache_valid :: bool
  sum_cache_value :: "32 word"
  ssum_cache_valid :: bool
  ssum_cache_value :: "32 word"

fun create_windows :: "sk_env \<Rightarrow> int \<Rightarrow> string \<Rightarrow> nat \<Rightarrow> (unit, TWStatsBuf) outcome" where
  "create_windows E t ft 0 = Ret () []"
| "create_windows E t ft (Suc n) =
     obind (createInstance E t ft) (\<lambda>_ m.
       obind (create_windows E t ft n) (\<lambda>_ ms. Ret () ((0, m) # ms)))"

definition new_TWStatsEntry ::
    "sk_env \<Rightarrow> int \<Rightarrow> int \<Rightarrow> int \<Rightarrow> int \<Rightarrow> string \<Rightarrow> (unit, TWStatsEntry) outcome" where
  "new_TWStatsEntry E t nw ws st field_type =
     obind (if type_map_has field_type then create_windows E t field_type (nat nw) else Ret () [])
       (\<lambda>_ arr. Ret () \<lparr>stats_array = arr, num_windows = nw, window_size = ws, start_time = st,
          last_cleaned = 0, sum_cache_valid = False, sum_cache_value = 0,
          ssum_cache_valid = False, ssum_cache_value = 0\<rparr>)"

definition window_at :: "TWStatsEntry \<Rightarrow> int \<Rightarrow> (int \<times> TWStatsMember) option" where
  "window_at e i =
     (if 0 \<le> i \<and> i < int (length (stats_array e)) then Some (stats_array e ! nat i) else None)"

definition set_member :: "int \<Rightarrow> TWStatsMember \<Rightarrow> TWStatsEntry \<Rightarrow> TWStatsEntry" where
  "set_member i m e =
     e\<lparr>stats_array := (stats_array e)[nat i := (fst (stats_array e ! nat i), m)]\<rparr>"

text \<open>\<^verbatim>\<open>window_size * num_windows\<close> is a product of two \<^verbatim>\<open>int\<close>s.\<close>

definition expire_diff :: "TWStatsEntry \<Rightarrow> int" where
  "expire_diff e = signed_take_bit 31 (window_size e * num_windows e)"

definition clean_one :: "int \<Rightarrow> int \<Rightarrow> int \<times> TWStatsMember \<Rightarrow> int \<times> TWStatsMember" where
  "clean_one now ed w =
     (if fst w \<noteq> 0 \<and> ed \<le> now - fst w then (0, member_erase (snd w)) else w)"

definition clean_windows :: "int \<Rightarrow> TWStatsEntry \<Rightarrow> TWStatsEntry" where
  "clean_windows now e =
     (if now - last_cleaned e < window_size e then e
      else let expired = (\<exists>w \<in> set (stats_array e). fst w \<noteq> 0 \<and> expire_diff e \<le> now - fst w)
           in e\<lparr>stats_array := map (clean_one now (expire_diff e)) (stats_array e),
                sum_cache_valid := sum_cache_valid e \<and> \<not> expired,
                ssum_cache_valid := ssum_cache_valid e \<and> \<not> expired,
                last_cleaned := now\<rparr>)"

definition current_window :: "int \<Rightarrow> TWStatsEntry \<Rightarrow> int option" where
  "current_window now e =
     (if window_size e = 0 \<or> num_windows e = 0 then None
      else Some (((now - start_time e) sdiv window_size e) smod num_windows e))"

definition entry_update_write_timestamp :: "int \<Rightarrow> int \<Rightarrow> TWStatsEntry \<Rightarrow> TWStatsEntry" where
  "entry_update_write_timestamp now cw e =
     (let e1 = (if fst (stats_array e ! nat cw) = 0
                then let write_time = now - ((now - start_time e) smod window_size e)
                     in e\<lparr>stats_array :=
                           (stats_array e)[nat cw := (write_time, snd (stats_array e ! nat cw))]\<rparr>
                else e)
      in e1\<lparr>sum_cache_valid := False, ssum_cache_valid := False\<rparr>)"

text \<open>
  The common prefix of all accesses, \<^verbatim>\<open>clean_windows(); cur_window = current_window();
  stats_array[cur_window]\<close>, with the clock readings \<open>t1\<close> and \<open>t2\<close>.
\<close>

definition at_current ::
    "int \<Rightarrow> int \<Rightarrow> TWStatsEntry \<Rightarrow> (TWStatsEntry \<Rightarrow> int \<Rightarrow> TWStatsMember \<Rightarrow> (TWStatsEntry, 'v) outcome)
     \<Rightarrow> (TWStatsEntry, 'v) outcome" where
  "at_current t1 t2 e k =
     (let e1 = clean_windows t1 e
      in case current_window t2 e1 of
           None \<Rightarrow> Undef
         | Some cur_window \<Rightarrow>
             (case window_at e1 cur_window of
                None \<Rightarrow> Undef
              | Some sm \<Rightarrow> k e1 cur_window (snd sm)))"

definition entry_modify ::
    "(TWStatsMember \<Rightarrow> exn + TWStatsMember) \<Rightarrow> int \<times> int \<times> int \<Rightarrow> TWStatsEntry
     \<Rightarrow> (TWStatsEntry, unit) outcome" where
  "entry_modify f ts e =
     (case ts of (t1, t2, t3) \<Rightarrow>
        at_current t1 t2 e (\<lambda>e1 cur_window m.
          case f m of
            Inl x \<Rightarrow> Exn x e1
          | Inr m' \<Rightarrow> Ret (entry_update_write_timestamp t3 cur_window (set_member cur_window m' e1)) ()))"

definition entry_add_int :: "32 word \<Rightarrow> int \<times> int \<times> int \<Rightarrow> TWStatsEntry \<Rightarrow> (TWStatsEntry, unit) outcome" where
  "entry_add_int a = entry_modify (\<lambda>m. Inr (member_add_int a m))"

definition entry_add_str :: "string \<Rightarrow> int \<times> int \<times> int \<Rightarrow> TWStatsEntry \<Rightarrow> (TWStatsEntry, unit) outcome" where
  "entry_add_str s = entry_modify (member_add_str s)"

definition entry_add_str_int ::
    "string \<Rightarrow> 32 word \<Rightarrow> int \<times> int \<times> int \<Rightarrow> TWStatsEntry \<Rightarrow> (TWStatsEntry, unit) outcome" where
  "entry_add_str_int s a = entry_modify (\<lambda>m. Inr (member_add_str_int s a m))"

definition entry_sub_int :: "32 word \<Rightarrow> int \<times> int \<times> int \<Rightarrow> TWStatsEntry \<Rightarrow> (TWStatsEntry, unit) outcome" where
  "entry_sub_int a = entry_modify (\<lambda>m. Inr (member_sub_int a m))"

definition entry_sub_str :: "string \<Rightarrow> int \<times> int \<times> int \<Rightarrow> TWStatsEntry \<Rightarrow> (TWStatsEntry, unit) outcome" where
  "entry_sub_str s = entry_modify (member_sub_str s)"

definition entry_get :: "sk_env \<Rightarrow> int \<times> int \<Rightarrow> TWStatsEntry \<Rightarrow> (TWStatsEntry, 32 word) outcome" where
  "entry_get E ts e = at_current (fst ts) (snd ts) e (\<lambda>e1 cw m. Ret e1 (member_get E m))"

definition entry_get_str ::
    "sk_env \<Rightarrow> string \<Rightarrow> int \<times> int \<Rightarrow> TWStatsEntry \<Rightarrow> (TWStatsEntry, 32 word) outcome" where
  "entry_get_str E s ts e =
     at_current (fst ts) (snd ts) e (\<lambda>e1 cw m.
       case member_get_str E s m of (m', v) \<Rightarrow> Ret (set_member cw m' e1) v)"

text \<open>The loop of \<^verbatim>\<open>get_windows\<close>: \<open>k\<close> more windows, starting with the index \<open>i % num_windows\<close>.\<close>

fun windows_loop ::
    "(TWStatsMember \<Rightarrow> TWStatsMember \<times> 32 word) \<Rightarrow> nat \<Rightarrow> int \<Rightarrow> TWStatsEntry
     \<Rightarrow> (TWStatsEntry, 32 word list) outcome" where
  "windows_loop g 0 i e = Ret e []"
| "windows_loop g (Suc k) i e =
     (let index = i smod num_windows e
      in case window_at e index of
           None \<Rightarrow> Undef
         | Some sm \<Rightarrow>
             (case g (snd sm) of (m', v) \<Rightarrow>
                obind (windows_loop g k (i - 1) (set_member index m' e)) (\<lambda>e' vs. Ret e' (v # vs))))"

definition entry_get_windows_gen ::
    "(TWStatsMember \<Rightarrow> TWStatsMember \<times> 32 word) \<Rightarrow> int \<times> int \<Rightarrow> TWStatsEntry
     \<Rightarrow> (TWStatsEntry, 32 word list) outcome" where
  "entry_get_windows_gen g ts e =
     (let e1 = clean_windows (fst ts) e
      in case current_window (snd ts) e1 of
           None \<Rightarrow> Undef
         | Some cur \<Rightarrow> windows_loop g (nat (num_windows e1)) (cur + num_windows e1) e1)"

definition entry_get_windows ::
    "sk_env \<Rightarrow> int \<times> int \<Rightarrow> TWStatsEntry \<Rightarrow> (TWStatsEntry, 32 word list) outcome" where
  "entry_get_windows E = entry_get_windows_gen (\<lambda>m. (m, member_get E m))"

definition entry_get_windows_str ::
    "sk_env \<Rightarrow> string \<Rightarrow> int \<times> int \<Rightarrow> TWStatsEntry \<Rightarrow> (TWStatsEntry, 32 word list) outcome" where
  "entry_get_windows_str E s = entry_get_windows_gen (member_get_str E s)"

definition entry_sum :: "sk_env \<Rightarrow> int \<times> int \<Rightarrow> TWStatsEntry \<Rightarrow> (TWStatsEntry, 32 word) outcome" where
  "entry_sum E ts e =
     (let e1 = clean_windows (fst ts) e
      in case current_window (snd ts) e1 of
           None \<Rightarrow> Undef
         | Some cur \<Rightarrow>
             (if sum_cache_valid e1 then Ret e1 (sum_cache_value e1)
              else case window_at e1 cur of
                     None \<Rightarrow> Undef
                   | Some sm \<Rightarrow>
                       (case member_sum E (snd sm) (stats_array e1) of
                          Undef \<Rightarrow> Undef
                        | Exn x _ \<Rightarrow> Exn x e1
                        | Ret _ v \<Rightarrow> Ret (e1\<lparr>sum_cache_value := v\<rparr>) v)))"

definition entry_sum_str ::
    "sk_env \<Rightarrow> string \<Rightarrow> int \<times> int \<Rightarrow> TWStatsEntry \<Rightarrow> (TWStatsEntry, 32 word) outcome" where
  "entry_sum_str E s ts e =
     (let e1 = clean_windows (fst ts) e
      in case current_window (snd ts) e1 of
           None \<Rightarrow> Undef
         | Some cur \<Rightarrow>
             (if ssum_cache_valid e1 then Ret e1 (ssum_cache_value e1)
              else case window_at e1 cur of
                     None \<Rightarrow> Undef
                   | Some sm \<Rightarrow>
                       (let v = member_sum_str E s (snd sm) (stats_array e1)
                        in Ret (e1\<lparr>ssum_cache_value := v\<rparr>) v)))"

definition entry_reset :: "TWStatsEntry \<Rightarrow> TWStatsEntry" where
  "entry_reset e =
     e\<lparr>stats_array := map (\<lambda>w. (0, member_erase (snd w))) (stats_array e),
       sum_cache_valid := False, ssum_cache_valid := False\<rparr>"

type_synonym TWStatsBufSerial = "(int \<times> 8 word list) list"

definition entry_dump :: "TWStatsEntry \<Rightarrow> TWStatsBufSerial \<times> int" where
  "entry_dump e = (map (\<lambda>w. (fst w, member_dump (snd w))) (stats_array e), start_time e)"

text \<open>
  The restore loop writes window \<open>j\<close> of the ring for entry \<open>j\<close> of the dump, without comparing the
  two lengths; a member that refuses its bytes ends it with an exception, after the timestamp of
  that window has been stored.
\<close>

fun restore_loop ::
    "sk_env \<Rightarrow> int \<Rightarrow> nat \<Rightarrow> TWStatsBufSerial \<Rightarrow> TWStatsEntry \<Rightarrow> (TWStatsEntry, unit) outcome" where
  "restore_loop E t j [] e = Ret e ()"
| "restore_loop E t j ((ts, bytes) # statsvec) e =
     (if length (stats_array e) \<le> j then Undef
      else let e1 = e\<lparr>stats_array := (stats_array e)[j := (ts, snd (stats_array e ! j))]\<rparr>
           in case member_restore E t bytes (snd (stats_array e ! j)) of
                Undef \<Rightarrow> Undef
              | Exn x m \<Rightarrow> Exn x (e1\<lparr>stats_array := (stats_array e1)[j := (ts, m)]\<rparr>)
              | Ret m _ \<Rightarrow>
                  restore_loop E t (Suc j) statsvec
                    (e1\<lparr>stats_array := (stats_array e1)[j := (ts, m)]\<rparr>))"

definition entry_restore ::
    "sk_env \<Rightarrow> int \<Rightarrow> TWStatsBufSerial \<Rightarrow> int \<Rightarrow> TWStatsEntry \<Rightarrow> (TWStatsEntry, unit) outcome" where
  "entry_restore E t statsvec stime e =
     restore_loop E t 0 statsvec
       (e\<lparr>start_time := stime, last_cleaned := 0, sum_cache_valid := False, ssum_cache_valid := False\<rparr>)"

section \<open>The invariant of a ring\<close>

text \<open>
  A ring of windows of type \<open>ty\<close>: positive dimensions whose product is an \<^verbatim>\<open>int\<close>, as many windows
  as \<^verbatim>\<open>num_windows\<close>, all of the same class, and both cache flags clear (no operation sets them).
\<close>

definition entry_ok :: "string \<Rightarrow> TWStatsEntry \<Rightarrow> bool" where
  "entry_ok ty e \<longleftrightarrow>
     0 < window_size e \<and> 0 < num_windows e \<and> window_size e * num_windows e < 2 ^ 31
     \<and> length (stats_array e) = nat (num_windows e)
     \<and> (\<forall>w \<in> set (stats_array e). member_ok (snd w) \<and> member_type (snd w) = ty)
     \<and> \<not> sum_cache_valid e \<and> \<not> ssum_cache_valid e"

lemma sdiv_nonneg [simp]: "0 \<le> k \<Longrightarrow> 0 < l \<Longrightarrow> k sdiv l = k div l" for k l :: int
  by (cases "k = 0") (auto simp: signed_divide_int_def)

lemma smod_nonneg [simp]: "0 \<le> k \<Longrightarrow> 0 < l \<Longrightarrow> k smod l = k mod l" for k l :: int
  by (cases "k = 0") (auto simp: signed_modulo_int_def)

lemma expire_diff_eq: "entry_ok ty e \<Longrightarrow> expire_diff e = window_size e * num_windows e"
  unfolding expire_diff_def entry_ok_def
  by (rule signed_take_bit_int_eq_self) (auto intro: order.trans[of _ 0])

lemma current_window_range:
  "entry_ok ty e \<Longrightarrow> start_time e \<le> now \<Longrightarrow>
   current_window now e = Some ((now - start_time e) div window_size e mod num_windows e)
   \<and> 0 \<le> (now - start_time e) div window_size e mod num_windows e
   \<and> (now - start_time e) div window_size e mod num_windows e < num_windows e"
  by (auto simp: current_window_def entry_ok_def pos_imp_zdiv_nonneg_iff)

lemma clean_windows_fields [simp]:
  "num_windows (clean_windows now e) = num_windows e"
  "window_size (clean_windows now e) = window_size e"
  "start_time (clean_windows now e) = start_time e"
  "length (stats_array (clean_windows now e)) = length (stats_array e)"
  "expire_diff (clean_windows now e) = expire_diff e"
  by (auto simp: clean_windows_def Let_def expire_diff_def)

lemma current_window_clean [simp]: "current_window now (clean_windows t e) = current_window now e"
  by (simp add: current_window_def)

lemma set_member_fields [simp]:
  "num_windows (set_member i m e) = num_windows e" "window_size (set_member i m e) = window_size e"
  "start_time (set_member i m e) = start_time e" "last_cleaned (set_member i m e) = last_cleaned e"
  "length (stats_array (set_member i m e)) = length (stats_array e)"
  "sum_cache_valid (set_member i m e) = sum_cache_valid e"
  "ssum_cache_valid (set_member i m e) = ssum_cache_valid e"
  by (simp_all add: set_member_def)

lemma update_ts_fields [simp]:
  "num_windows (entry_update_write_timestamp t i e) = num_windows e"
  "window_size (entry_update_write_timestamp t i e) = window_size e"
  "start_time (entry_update_write_timestamp t i e) = start_time e"
  "last_cleaned (entry_update_write_timestamp t i e) = last_cleaned e"
  "length (stats_array (entry_update_write_timestamp t i e)) = length (stats_array e)"
  "\<not> sum_cache_valid (entry_update_write_timestamp t i e)"
  "\<not> ssum_cache_valid (entry_update_write_timestamp t i e)"
  by (simp_all add: entry_update_write_timestamp_def Let_def)

lemma member_erase_ok [simp]: "member_ok m \<Longrightarrow> member_ok (member_erase m)"
  by (cases m) (auto simp: hll_clear_ok cms_erase_ok)

lemma member_erase_type [simp]: "member_type (member_erase m) = member_type m"
  by (cases m) auto

lemma member_get_str_ok [simp]: "member_ok m \<Longrightarrow> member_ok (fst (member_get_str E s m))"
  by (cases m) (auto simp: hll_add_ok Let_def)

lemma member_get_str_type [simp]: "member_type (fst (member_get_str E s m)) = member_type m"
  by (cases m) (auto simp: Let_def)

lemma member_add_int_keeps [simp]:
  "member_ok m \<Longrightarrow> member_ok (member_add_int a m)" "member_type (member_add_int a m) = member_type m"
  by (cases m; simp add: hll_add_ok)+

lemma member_add_str_int_keeps [simp]:
  "member_ok m \<Longrightarrow> member_ok (member_add_str_int s a m)"
  "member_type (member_add_str_int s a m) = member_type m"
  by (cases m; simp add: cms_update_ok)+

lemma member_sub_int_keeps [simp]:
  "member_ok m \<Longrightarrow> member_ok (member_sub_int a m)" "member_type (member_sub_int a m) = member_type m"
  by (cases m; simp)+

lemma clean_windows_ok [wf_inv]: "entry_ok ty e \<Longrightarrow> entry_ok ty (clean_windows now e)"
  by (auto simp: entry_ok_def clean_windows_def clean_one_def Let_def)

lemma set_member_ok [wf_inv]:
  "entry_ok ty e \<Longrightarrow> member_ok m \<Longrightarrow> member_type m = ty \<Longrightarrow> entry_ok ty (set_member i m e)"
  unfolding entry_ok_def by (auto simp: set_member_def dest!: set_update_subset_insert[THEN subsetD])

lemma update_ts_ok [wf_inv]:
  assumes ok: "entry_ok ty e" and i: "0 \<le> i" "i < int (length (stats_array e))"
  shows "entry_ok ty (entry_update_write_timestamp t i e)"
proof -
  have "stats_array e ! nat i \<in> set (stats_array e)" using i by simp
  then show ?thesis
    using ok unfolding entry_ok_def
    by (auto simp: entry_update_write_timestamp_def Let_def dest!: set_update_subset_insert[THEN subsetD])
qed

lemma entry_reset_ok [wf_inv]: "entry_ok ty e \<Longrightarrow> entry_ok ty (entry_reset e)"
  by (auto simp: entry_ok_def entry_reset_def)

lemma window_at_ok:
  assumes "entry_ok ty e" and "0 \<le> i" and "i < num_windows e"
  shows "window_at e i = Some (stats_array e ! nat i)"
    and "member_ok (snd (stats_array e ! nat i))" and "member_type (snd (stats_array e ! nat i)) = ty"
proof -
  have i: "nat i < length (stats_array e)" using assms by (simp add: entry_ok_def nat_less_eq_zless)
  then show "window_at e i = Some (stats_array e ! nat i)" using assms by (simp add: window_at_def)
  show "member_ok (snd (stats_array e ! nat i))" "member_type (snd (stats_array e ! nat i)) = ty"
    using assms(1) nth_mem[OF i] by (simp_all add: entry_ok_def)
qed

text \<open>Under the invariant, and with a clock not before the start time, every access hits a window.\<close>

definition cur_slot :: "int \<Rightarrow> TWStatsEntry \<Rightarrow> nat" where
  "cur_slot now e = nat ((now - start_time e) div window_size e mod num_windows e)"

lemma cur_slot_less:
  "entry_ok ty e \<Longrightarrow> start_time e \<le> now \<Longrightarrow> cur_slot now e < length (stats_array e)"
  using current_window_range[of ty e now] by (auto simp: entry_ok_def cur_slot_def)

lemma cur_slot_fields [simp]:
  "cur_slot now (clean_windows t e) = cur_slot now e" "cur_slot now (set_member i m e) = cur_slot now e"
  by (simp_all add: cur_slot_def)

lemma at_current_eq:
  assumes ok: "entry_ok ty e" and st: "start_time e \<le> t2"
  shows "at_current t1 t2 e k =
    k (clean_windows t1 e) (int (cur_slot t2 e)) (snd (stats_array (clean_windows t1 e) ! cur_slot t2 e))"
proof -
  let ?e = "clean_windows t1 e"
  have ok1: "entry_ok ty ?e" using ok by (rule clean_windows_ok)
  have "cur_slot t2 e < length (stats_array ?e)" using cur_slot_less[OF ok st] by simp
  moreover have "current_window t2 ?e = Some (int (cur_slot t2 e))"
    using current_window_range[OF ok st] by (simp add: cur_slot_def)
  ultimately show ?thesis by (simp add: at_current_def Let_def window_at_def)
qed

text \<open>
  The contract of a change of one window: it keeps the class and the well-formedness of the
  member. What follows from it for the whole ring is proved once.
\<close>

locale member_change =
  fixes f :: "TWStatsMember \<Rightarrow> exn + TWStatsMember"
  assumes change_ok: "member_ok m \<Longrightarrow> f m = Inr m' \<Longrightarrow> member_ok m'"
    and change_type: "f m = Inr m' \<Longrightarrow> member_type m' = member_type m"
begin

lemma modify_ok:
  assumes ok: "entry_ok ty e" and st: "start_time e \<le> t2"
  shows "\<exists>e'. final_state (entry_modify f (t1, t2, t3) e) = Some e' \<and> entry_ok ty e'"
proof -
  let ?e = "clean_windows t1 e" and ?i = "cur_slot t2 e"
  let ?m = "snd (stats_array ?e ! ?i)"
  have ok1: "entry_ok ty ?e" using ok by (rule clean_windows_ok)
  have i: "?i < length (stats_array ?e)" using cur_slot_less[OF ok st] by simp
  then have m: "member_ok ?m" "member_type ?m = ty" using ok1 by (auto simp: entry_ok_def)
  show ?thesis
  proof (cases "f ?m")
    case (Inl x)
    then show ?thesis using ok1 by (simp add: entry_modify_def at_current_eq[OF ok st])
  next
    case (Inr m')
    have "entry_ok ty (set_member (int ?i) m' ?e)"
      using set_member_ok[OF ok1 change_ok[OF m(1) Inr]] change_type[OF Inr] m(2) by simp
    then have "entry_ok ty (entry_update_write_timestamp t3 (int ?i) (set_member (int ?i) m' ?e))"
      by (rule update_ts_ok) (use i in auto)
    then show ?thesis using Inr by (simp add: entry_modify_def at_current_eq[OF ok st])
  qed
qed

end

interpretation add_int: member_change "\<lambda>m. Inr (member_add_int a m)"
  by unfold_locales auto

interpretation add_str: member_change "member_add_str s"
proof
  show "member_ok m \<Longrightarrow> member_add_str s m = Inr m' \<Longrightarrow> member_ok m'" for m m'
    by (cases m) (auto simp: hll_add_ok cms_update_ok split: sum.splits)
  show "member_add_str s m = Inr m' \<Longrightarrow> member_type m' = member_type m" for m m'
    by (cases m) (auto split: sum.splits)
qed

interpretation add_str_int: member_change "\<lambda>m. Inr (member_add_str_int s a m)"
  by unfold_locales auto

interpretation sub_int: member_change "\<lambda>m. Inr (member_sub_int a m)"
  by unfold_locales auto

interpretation sub_str: member_change "member_sub_str s"
proof
  show "member_ok m \<Longrightarrow> member_sub_str s m = Inr m' \<Longrightarrow> member_ok m'" for m m'
    by (cases m) (auto split: sum.splits)
  show "member_sub_str s m = Inr m' \<Longrightarrow> member_type m' = member_type m" for m m'
    by (cases m) (auto split: sum.splits)
qed

section \<open>Every access is defined\<close>

lemma windows_loop_ok:
  assumes g: "\<And>m. member_ok m \<Longrightarrow> member_ok (fst (g m)) \<and> member_type (fst (g m)) = member_type m"
  shows "entry_ok ty e \<Longrightarrow> int k \<le> i + 1 \<Longrightarrow>
    \<exists>e' vs. windows_loop g k i e = Ret e' vs \<and> entry_ok ty e' \<and> length vs = k"
proof (induction k arbitrary: i e)
  case (Suc k)
  then have i: "0 \<le> i" and nw: "0 < num_windows e" by (auto simp: entry_ok_def)
  let ?j = "i mod num_windows e"
  have j: "0 \<le> ?j" "?j < num_windows e" using nw by auto
  note w = window_at_ok[OF Suc.prems(1) j]
  obtain m' v where gm: "g (snd (stats_array e ! nat ?j)) = (m', v)" by fastforce
  with g w have "member_ok m'" "member_type m' = ty" by (metis fst_conv)+
  with Suc.prems have "entry_ok ty (set_member ?j m' e)" by (auto intro: set_member_ok)
  from Suc.IH[OF this, of "i - 1"] Suc.prems(2) obtain e' vs where
    "windows_loop g k (i - 1) (set_member ?j m' e) = Ret e' vs" "entry_ok ty e'" "length vs = k"
    by auto
  then show ?case using w gm i nw by (simp add: Let_def)
qed simp

lemma get_windows_gen_ok:
  assumes g: "\<And>m. member_ok m \<Longrightarrow> member_ok (fst (g m)) \<and> member_type (fst (g m)) = member_type m"
    and ok: "entry_ok ty e" and st: "start_time e \<le> t2"
  shows "\<exists>e' vs. entry_get_windows_gen g (t1, t2) e = Ret e' vs \<and> entry_ok ty e'
    \<and> length vs = nat (num_windows e)"
proof -
  let ?e = "clean_windows t1 e" and ?c = "(t2 - start_time e) div window_size e mod num_windows e"
  have ok1: "entry_ok ty ?e" using ok by (rule clean_windows_ok)
  have "int (nat (num_windows e)) \<le> ?c + num_windows e + 1"
    using current_window_range[OF ok st] ok by (simp add: entry_ok_def)
  from windows_loop_ok[OF g ok1 this] show ?thesis
    using current_window_range[OF ok st] by (simp add: entry_get_windows_gen_def Let_def)
qed

lemma merge_all_not_Undef: "merge_all vec h \<noteq> Undef"
  by (induction vec h rule: merge_all.induct) (auto simp: hll_merge_def split: outcome.splits)

lemma member_sum_not_Undef:
  "unat (ucast (num_bits E) :: 8 word) < 32 \<Longrightarrow> member_sum E m vec \<noteq> Undef"
  by (cases m) (auto simp: new_HyperLogLog_def merge_all_not_Undef elim!: obind.elims)

lemma entry_ok_sum_cache [simp]:
  "entry_ok ty (e\<lparr>sum_cache_value := v\<rparr>) = entry_ok ty e"
  "entry_ok ty (e\<lparr>ssum_cache_value := v\<rparr>) = entry_ok ty e"
  by (simp_all add: entry_ok_def)

lemma entry_sum_ok:
  assumes ok: "entry_ok ty e" and st: "start_time e \<le> t2"
    and nb: "unat (ucast (num_bits E) :: 8 word) < 32"
  shows "\<exists>e'. final_state (entry_sum E (t1, t2) e) = Some e' \<and> entry_ok ty e'"
proof -
  let ?e = "clean_windows t1 e" and ?c = "(t2 - start_time e) div window_size e mod num_windows e"
  have ok1: "entry_ok ty ?e" using ok by (rule clean_windows_ok)
  have c: "0 \<le> ?c" "?c < num_windows ?e" using current_window_range[OF ok st] by auto
  have "\<not> sum_cache_valid ?e" using ok1 by (simp add: entry_ok_def)
  then show ?thesis
    using current_window_range[OF ok st] window_at_ok(1)[OF ok1 c] ok1
      member_sum_not_Undef[OF nb, of "snd (stats_array ?e ! nat ?c)" "stats_array ?e"]
    by (auto simp: entry_sum_def Let_def split: outcome.splits)
qed

lemma entry_sum_str_ok:
  assumes ok: "entry_ok ty e" and st: "start_time e \<le> t2"
  shows "\<exists>e'. final_state (entry_sum_str E s (t1, t2) e) = Some e' \<and> entry_ok ty e'"
proof -
  let ?e = "clean_windows t1 e" and ?c = "(t2 - start_time e) div window_size e mod num_windows e"
  have ok1: "entry_ok ty ?e" using ok by (rule clean_windows_ok)
  have c: "0 \<le> ?c" "?c < num_windows ?e" using current_window_range[OF ok st] by auto
  have "\<not> ssum_cache_valid ?e" using ok1 by (simp add: entry_ok_def)
  then show ?thesis
    using current_window_range[OF ok st] window_at_ok(1)[OF ok1 c] ok1
    by (simp add: entry_sum_str_def Let_def)
qed

text \<open>The calls a database makes on an entry, as data; \<open>entry_exec\<close> is the state a call leaves.\<close>

datatype entry_call =
    AddInt "32 word" | AddStr string | AddStrInt string "32 word"
  | SubInt "32 word" | SubStr string
  | GetCur | GetCurStr string | GetWindows | GetWindowsStr string
  | SumAll | SumStr string | ResetAll

fun entry_exec :: "sk_env \<Rightarrow> entry_call \<Rightarrow> int \<times> int \<times> int \<Rightarrow> TWStatsEntry \<Rightarrow> TWStatsEntry option" where
  "entry_exec E (AddInt a) ts e = final_state (entry_add_int a ts e)"
| "entry_exec E (AddStr s) ts e = final_state (entry_add_str s ts e)"
| "entry_exec E (AddStrInt s a) ts e = final_state (entry_add_str_int s a ts e)"
| "entry_exec E (SubInt a) ts e = final_state (entry_sub_int a ts e)"
| "entry_exec E (SubStr s) ts e = final_state (entry_sub_str s ts e)"
| "entry_exec E GetCur (t1, t2, _) e = final_state (entry_get E (t1, t2) e)"
| "entry_exec E (GetCurStr s) (t1, t2, _) e = final_state (entry_get_str E s (t1, t2) e)"
| "entry_exec E GetWindows (t1, t2, _) e = final_state (entry_get_windows E (t1, t2) e)"
| "entry_exec E (GetWindowsStr s) (t1, t2, _) e = final_state (entry_get_windows_str E s (t1, t2) e)"
| "entry_exec E SumAll (t1, t2, _) e = final_state (entry_sum E (t1, t2) e)"
| "entry_exec E (SumStr s) (t1, t2, _) e = final_state (entry_sum_str E s (t1, t2) e)"
| "entry_exec E ResetAll ts e = Some (entry_reset e)"

lemma entry_get_str_ok:
  assumes ok: "entry_ok ty e" and st: "start_time e \<le> t2"
  shows "\<exists>e'. final_state (entry_get_str E s (t1, t2) e) = Some e' \<and> entry_ok ty e'"
proof -
  let ?e = "clean_windows t1 e" and ?i = "cur_slot t2 e"
  let ?m = "snd (stats_array ?e ! ?i)"
  have ok1: "entry_ok ty ?e" using ok by (rule clean_windows_ok)
  have "?i < length (stats_array ?e)" using cur_slot_less[OF ok st] by simp
  then have m: "member_ok ?m" "member_type ?m = ty" using ok1 by (auto simp: entry_ok_def)
  have "entry_ok ty (set_member (int ?i) (fst (member_get_str E s ?m)) ?e)"
    using m by (intro set_member_ok ok1) auto
  then show ?thesis
    by (simp add: entry_get_str_def at_current_eq[OF ok st] case_prod_beta)
qed

lemma entry_exec_ok:
  assumes ok: "entry_ok ty e" and st: "start_time e \<le> t2"
    and nb: "unat (ucast (num_bits E) :: 8 word) < 32"
  shows "\<exists>e'. entry_exec E call (t1, t2, t3) e = Some e' \<and> entry_ok ty e'"
proof (cases call)
  case (GetWindowsStr s)
  then show ?thesis
    using get_windows_gen_ok[OF _ ok st, of "member_get_str E s" t1]
    by (auto simp: entry_get_windows_str_def)
next
  case GetWindows
  then show ?thesis
    using get_windows_gen_ok[OF _ ok st, of "\<lambda>m. (m, member_get E m)" t1]
    by (auto simp: entry_get_windows_def)
qed (use add_int.modify_ok[OF ok st] add_str.modify_ok[OF ok st] add_str_int.modify_ok[OF ok st]
    sub_int.modify_ok[OF ok st] sub_str.modify_ok[OF ok st] entry_sum_ok[OF ok st nb]
    entry_sum_str_ok[OF ok st] entry_get_str_ok[OF ok st, of E _ t1] clean_windows_ok[OF ok]
    entry_reset_ok[OF ok] in
    \<open>auto simp: entry_add_int_def entry_add_str_def entry_add_str_int_def entry_sub_int_def
       entry_sub_str_def entry_get_def at_current_eq[OF ok st]\<close>)


section \<open>Timing: which additions a window holds\<close>

text \<open>
  Windows are numbered by \<open>win_no\<close> from the start time; the data of window \<open>q\<close> lives in slot
  \<open>q mod num_windows\<close> with the time stamp \<open>wstart e q\<close>.
\<close>

definition win_no :: "TWStatsEntry \<Rightarrow> int \<Rightarrow> int" where
  "win_no e t = (t - start_time e) div window_size e"

definition wstart :: "TWStatsEntry \<Rightarrow> int \<Rightarrow> int" where
  "wstart e q = start_time e + window_size e * q"

definition slot_of :: "TWStatsEntry \<Rightarrow> int \<Rightarrow> nat" where
  "slot_of e q = nat (q mod num_windows e)"

text \<open>
  The stamps of a ring at time \<open>now\<close>: a window in use carries the start of a window that is not in
  the future, sits in that window's slot, and had not expired at the last cleaning; a window not in
  use is blank.
\<close>

definition slot_timed :: "int \<Rightarrow> TWStatsEntry \<Rightarrow> nat \<Rightarrow> bool" where
  "slot_timed now e i \<longleftrightarrow>
     (let ts = fst (stats_array e ! i); q = win_no e ts
      in if ts = 0 then member_erase (snd (stats_array e ! i)) = snd (stats_array e ! i)
         else 0 \<le> q \<and> q \<le> win_no e now \<and> ts = wstart e q \<and> slot_of e q = i
              \<and> last_cleaned e - ts < window_size e * num_windows e)"

definition time_ok :: "int \<Rightarrow> TWStatsEntry \<Rightarrow> bool" where
  "time_ok now e \<longleftrightarrow>
     0 < start_time e \<and> last_cleaned e \<le> now \<and> (\<forall>i \<in> {0..<length (stats_array e)}. slot_timed now e i)"

text \<open>
  No window has outlived its expiry without being cleaned: either this access cleans, or there is
  nothing to clean. The test of \<^verbatim>\<open>clean_windows\<close> that skips the cleaning does not ensure it.
\<close>

definition settled :: "int \<Rightarrow> TWStatsEntry \<Rightarrow> bool" where
  "settled now e \<longleftrightarrow>
     window_size e \<le> now - last_cleaned e
     \<or> list_all (\<lambda>w. fst w = 0 \<or> now - fst w < window_size e * num_windows e) (stats_array e)"

definition view :: "TWStatsEntry \<Rightarrow> int \<Rightarrow> TWStatsMember option" where
  "view e q =
     (let w = stats_array e ! slot_of e q
      in if fst w = wstart e q \<and> fst w \<noteq> 0 then Some (snd w) else None)"

lemma timing_fields [simp]:
  "win_no (clean_windows t e) = win_no e" "wstart (clean_windows t e) = wstart e"
  "slot_of (clean_windows t e) = slot_of e"
  "win_no (set_member i m e) = win_no e" "wstart (set_member i m e) = wstart e"
  "slot_of (set_member i m e) = slot_of e"
  "win_no (entry_update_write_timestamp t j e) = win_no e"
  "wstart (entry_update_write_timestamp t j e) = wstart e"
  "slot_of (entry_update_write_timestamp t j e) = slot_of e"
  by (simp_all add: win_no_def wstart_def slot_of_def fun_eq_iff)

lemma win_no_wstart [simp]: "0 < window_size e \<Longrightarrow> win_no e (wstart e q) = q"
  by (simp add: win_no_def wstart_def)

lemma wstart_win_no: "0 < window_size e \<Longrightarrow> wstart e (win_no e t) \<le> t \<and> t < wstart e (win_no e t) + window_size e"
  unfolding win_no_def wstart_def
  using pos_mod_bound[of "window_size e" "t - start_time e"] pos_mod_sign[of "window_size e" "t - start_time e"]
    mult_div_mod_eq[of "window_size e" "t - start_time e"] by linarith

lemma slot_of_less: "entry_ok ty e \<Longrightarrow> slot_of e q < length (stats_array e)"
  by (simp add: entry_ok_def slot_of_def nat_less_eq_zless)

lemma cur_slot_eq: "cur_slot t e = slot_of e (win_no e t)"
  by (simp add: cur_slot_def slot_of_def win_no_def)

lemma win_no_mono: "0 < window_size e \<Longrightarrow> t \<le> t' \<Longrightarrow> win_no e t \<le> win_no e t'"
  unfolding win_no_def by (intro zdiv_mono1) auto

lemma slot_of_inj:
  assumes "entry_ok ty e" "slot_of e q = slot_of e q'" "\<bar>q - q'\<bar> < num_windows e"
  shows "q = q'"
proof -
  have "0 < num_windows e" using assms(1) by (simp add: entry_ok_def)
  then have "q mod num_windows e = q' mod num_windows e"
    using assms(2) by (simp add: slot_of_def eq_nat_nat_iff)
  then have "num_windows e dvd q - q'" by (simp add: mod_eq_dvd_iff)
  then show ?thesis using assms(3) zdvd_not_zless[of "\<bar>q - q'\<bar>" "num_windows e"] by fastforce
qed

lemma clean_slot:
  "entry_ok ty e \<Longrightarrow> i < length (stats_array e) \<Longrightarrow>
   stats_array (clean_windows t e) ! i =
     (if window_size e \<le> t - last_cleaned e
      then clean_one t (window_size e * num_windows e) (stats_array e ! i) else stats_array e ! i)"
  by (auto simp: clean_windows_def Let_def expire_diff_eq)

lemma member_erase_idem [simp]: "member_erase (member_erase m) = member_erase m"
  by (cases m) (auto simp: hll_clear_def cms_erase_def)

lemma last_cleaned_clean:
  "last_cleaned (clean_windows t e) = (if window_size e \<le> t - last_cleaned e then t else last_cleaned e)"
  by (simp add: clean_windows_def Let_def)

lemma clean_time_ok:
  assumes ok: "entry_ok ty e" and tm: "time_ok now e" and now: "now \<le> t"
  shows "time_ok t (clean_windows t e)"
proof -
  have ws: "0 < window_size e" using ok by (simp add: entry_ok_def)
  have "slot_timed t (clean_windows t e) i" if i: "i < length (stats_array e)" for i
  proof -
    have "slot_timed now e i" using tm i by (simp add: time_ok_def)
    moreover note win_no_mono[OF ws now]
    ultimately show ?thesis
      using clean_slot[OF ok i, of t]
      by (auto simp: slot_timed_def Let_def last_cleaned_clean clean_one_def split: if_splits)
  qed
  then show ?thesis using tm now by (simp add: time_ok_def last_cleaned_clean)
qed

text \<open>After a settled cleaning, the slot of a live window holds the data of exactly that window.\<close>

lemma settled_clean:
  assumes ok: "entry_ok ty e" and se: "settled t e" and i: "i < length (stats_array e)"
  shows "fst (stats_array (clean_windows t e) ! i) = 0
    \<or> t - fst (stats_array (clean_windows t e) ! i) < window_size e * num_windows e"
  using se clean_slot[OF ok i, of t] i
  by (auto simp: settled_def clean_one_def list_all_length)

lemma live_slot:
  assumes ok: "entry_ok ty e" and tm: "time_ok t e" and se: "settled t e"
    and q: "win_no e t - num_windows e < q" "q \<le> win_no e t"
  shows "fst (stats_array (clean_windows t e) ! slot_of e q) \<in> {0, wstart e q}"
proof -
  let ?e = "clean_windows t e" and ?i = "slot_of e q"
  let ?ts = "fst (stats_array ?e ! ?i)"
  have i: "?i < length (stats_array e)" using slot_of_less[OF ok] .
  have ws: "0 < window_size e" using ok by (simp add: entry_ok_def)
  have "slot_timed t ?e ?i" using clean_time_ok[OF ok tm order_refl] i by (simp add: time_ok_def)
  then have "?ts = 0 \<or> (win_no e ?ts \<le> win_no e t \<and> ?ts = wstart e (win_no e ?ts) \<and> slot_of e (win_no e ?ts) = ?i)"
    by (auto simp: slot_timed_def Let_def split: if_splits)
  moreover have "win_no e ?ts = q" if nz: "?ts \<noteq> 0" and le: "win_no e ?ts \<le> win_no e t"
    and ts: "?ts = wstart e (win_no e ?ts)" and sl: "slot_of e (win_no e ?ts) = ?i"
  proof -
    have "t - wstart e (win_no e ?ts) < window_size e * num_windows e"
      using settled_clean[OF ok se i] nz ts by auto
    then have "wstart e (win_no e t) - wstart e (win_no e ?ts) < window_size e * num_windows e"
      using wstart_win_no[OF ws, of t] by linarith
    then have "window_size e * (win_no e t - win_no e ?ts) < window_size e * num_windows e"
      by (simp add: wstart_def algebra_simps)
    then have "win_no e t - win_no e ?ts < num_windows e" using ws by simp
    then have "\<bar>win_no e ?ts - q\<bar> < num_windows e" using q le by linarith
    then show ?thesis using slot_of_inj[OF ok sl] by simp
  qed
  ultimately show ?thesis by (metis insertI1 insertI2 singletonI)
qed

lemma live_not_expired:
  assumes "entry_ok ty e" "win_no e t - num_windows e < q"
  shows "t - wstart e q < window_size e * num_windows e"
proof -
  have ws: "0 < window_size e" using assms(1) by (simp add: entry_ok_def)
  have "t - wstart e q < wstart e (win_no e t) + window_size e - wstart e q"
    using wstart_win_no[OF ws, of t] by linarith
  also have "\<dots> = window_size e * (win_no e t - q + 1)" by (simp add: wstart_def algebra_simps)
  also have "\<dots> \<le> window_size e * num_windows e" using assms(2) ws by simp
  finally show ?thesis .
qed

lemma view_clean:
  assumes ok: "entry_ok ty e" and q: "win_no e t - num_windows e < q"
  shows "view (clean_windows t e) q = view e q"
  using clean_slot[OF ok slot_of_less[OF ok], of t q] live_not_expired[OF ok q]
  by (auto simp: view_def Let_def clean_one_def)

definition view_get :: "sk_env \<Rightarrow> TWStatsEntry \<Rightarrow> int \<Rightarrow> 32 word" where
  "view_get E e q = (case view e q of None \<Rightarrow> 0 | Some m \<Rightarrow> member_get E m)"

lemma member_get_blank: "member_erase m = m \<Longrightarrow> member_type m \<noteq> ''hll'' \<Longrightarrow> member_get E m = 0"
proof (cases m)
  case (TWStatsMemberCountMin s)
  moreover assume "member_erase m = m"
  ultimately have "cms_total s = cms_total (cms_erase s)" by simp
  then show ?thesis using TWStatsMemberCountMin by (simp add: cms_totalcount_def cms_erase_def)
qed auto

lemma live_value:
  assumes ok: "entry_ok ty e" and ty: "ty \<noteq> ''hll''" and tm: "time_ok t e" and se: "settled t e"
    and q: "win_no e t - num_windows e < q" "q \<le> win_no e t"
  shows "member_get E (snd (stats_array (clean_windows t e) ! slot_of e q)) = view_get E e q"
proof -
  let ?e = "clean_windows t e" and ?i = "slot_of e q"
  have i: "?i < length (stats_array ?e)" using slot_of_less[OF ok] by simp
  have mty: "member_type (snd (stats_array ?e ! ?i)) \<noteq> ''hll''"
    using nth_mem[OF i] clean_windows_ok[OF ok, of t] ty by (auto simp: entry_ok_def)
  have "slot_timed t ?e ?i" using clean_time_ok[OF ok tm order_refl] i by (simp add: time_ok_def)
  then have "fst (stats_array ?e ! ?i) = 0 \<Longrightarrow> member_get E (snd (stats_array ?e ! ?i)) = 0"
    using mty by (auto simp: slot_timed_def intro: member_get_blank)
  then have "member_get E (snd (stats_array ?e ! ?i)) = view_get E ?e q"
    using live_slot[OF ok tm se q] by (auto simp: view_get_def view_def Let_def)
  then show ?thesis using view_clean[OF ok q(1)] by (simp add: view_get_def)
qed

subsection \<open>Reading the ring\<close>

lemma set_member_same: "set_member i (snd (stats_array e ! nat i)) e = e"
  by (simp add: set_member_def list_update_same_conv)

lemma windows_loop_get:
  "entry_ok ty e \<Longrightarrow> int k \<le> i + 1 \<Longrightarrow>
   windows_loop (\<lambda>m. (m, member_get E m)) k i e =
     Ret e (map (\<lambda>j. member_get E (snd (stats_array e ! slot_of e (i - int j)))) [0..<k])"
proof (induction k arbitrary: i)
  case (Suc k)
  then have i: "0 \<le> i" and nw: "0 < num_windows e" by (auto simp: entry_ok_def)
  have j: "0 \<le> i mod num_windows e" "i mod num_windows e < num_windows e" using nw by auto
  have "map (\<lambda>j. member_get E (snd (stats_array e ! slot_of e (i - int j)))) [0..<Suc k] =
     member_get E (snd (stats_array e ! slot_of e i))
     # map (\<lambda>j. member_get E (snd (stats_array e ! slot_of e (i - 1 - int j)))) [0..<k]"
    by (simp add: upt_rec[of 0 "Suc k"] comp_def algebra_simps del: upt_Suc flip: map_Suc_upt)
  with Suc.IH[OF Suc.prems(1), of "i - 1"] Suc.prems(2) window_at_ok(1)[OF Suc.prems(1) j] i nw
  show ?case by (simp add: set_member_same slot_of_def Let_def del: upt_Suc)
qed simp

lemma slot_of_cur: "entry_ok ty e \<Longrightarrow> slot_of e (win_no e t mod num_windows e + num_windows e - k) = slot_of e (win_no e t - k)"
  unfolding slot_of_def by (metis add.commute diff_add_eq mod_add_self1 mod_diff_left_eq)

lemma get_windows_view:
  assumes ok: "entry_ok ty e" and ty: "ty \<noteq> ''hll''" and tm: "time_ok t e" and se: "settled t e"
    and st: "start_time e \<le> t"
  shows "entry_get_windows E (t, t) e =
    Ret (clean_windows t e) (map (\<lambda>k. view_get E e (win_no e t - int k)) [0..<nat (num_windows e)])"
proof -
  let ?e = "clean_windows t e" and ?c = "win_no e t mod num_windows e"
  have ok1: "entry_ok ty ?e" using ok by (rule clean_windows_ok)
  have nw: "0 < num_windows e" using ok by (simp add: entry_ok_def)
  then have "0 \<le> ?c" by simp
  then have le: "int (nat (num_windows e)) \<le> ?c + num_windows e + 1" using nw by linarith
  have "windows_loop (\<lambda>m. (m, member_get E m)) (nat (num_windows e)) (?c + num_windows e) ?e =
    Ret ?e (map (\<lambda>j. member_get E (snd (stats_array ?e ! slot_of e (win_no e t - int j)))) [0..<nat (num_windows e)])"
    using windows_loop_get[OF ok1 le, of E] slot_of_cur[OF ok] by simp
  also have "\<dots> = Ret ?e (map (\<lambda>k. view_get E e (win_no e t - int k)) [0..<nat (num_windows e)])"
    using live_value[OF ok ty tm se] nw by auto
  finally show ?thesis
    using current_window_range[OF ok st]
    by (simp add: entry_get_windows_def entry_get_windows_gen_def Let_def win_no_def)
qed

lemma sum_gets_sum: "sum_gets E vec = (\<Sum>i<length vec. member_get E (snd (vec ! i)))"
proof -
  have "foldl (\<lambda>count a. count + member_get E (snd a)) z vec = z + (\<Sum>i<length vec. member_get E (snd (vec ! i)))" for z
    by (induction vec arbitrary: z) (auto simp: sum.lessThan_Suc_shift add.assoc simp del: sum.lessThan_Suc)
  then show ?thesis by (simp add: sum_gets_def)
qed

lemma slot_of_bij:
  assumes ok: "entry_ok ty e"
  shows "bij_betw (\<lambda>k. slot_of e (c - int k)) {..<nat (num_windows e)} {..<nat (num_windows e)}"
proof -
  have "inj_on (\<lambda>k. slot_of e (c - int k)) {..<nat (num_windows e)}"
  proof (rule inj_onI)
    fix x y assume "x \<in> {..<nat (num_windows e)}" "y \<in> {..<nat (num_windows e)}"
      "slot_of e (c - int x) = slot_of e (c - int y)"
    then show "x = y" using slot_of_inj[OF ok, of "c - int x" "c - int y"] by auto
  qed
  moreover have "(\<lambda>k. slot_of e (c - int k)) ` {..<nat (num_windows e)} \<subseteq> {..<nat (num_windows e)}"
    using slot_of_less[OF ok] ok by (auto simp: entry_ok_def)
  ultimately show ?thesis by (simp add: bij_betw_def endo_inj_surj)
qed

lemma sum_view:
  assumes ok: "entry_ok ty e" and ty: "ty \<noteq> ''hll''" and tm: "time_ok t e" and se: "settled t e"
  shows "sum_gets E (stats_array (clean_windows t e)) =
    (\<Sum>k<nat (num_windows e). view_get E e (win_no e t - int k))"
proof -
  let ?e = "clean_windows t e"
  have "length (stats_array ?e) = nat (num_windows e)" using ok by (simp add: entry_ok_def)
  then have "sum_gets E (stats_array ?e) =
     (\<Sum>k<nat (num_windows e). member_get E (snd (stats_array ?e ! slot_of e (win_no e t - int k))))"
    unfolding sum_gets_sum
    using sum.reindex_bij_betw[OF slot_of_bij[OF ok],
        of "\<lambda>i. member_get E (snd (stats_array ?e ! i))" "win_no e t"] by simp
  also have "\<dots> = (\<Sum>k<nat (num_windows e). view_get E e (win_no e t - int k))"
    by (intro sum.cong refl live_value[OF ok ty tm se]) auto
  finally show ?thesis .
qed

lemma member_sum_gets: "member_type m \<noteq> ''hll'' \<Longrightarrow> member_sum E m vec = Ret () (sum_gets E vec)"
  by (cases m) auto

lemma entry_sum_view:
  assumes ok: "entry_ok ty e" and ty: "ty \<noteq> ''hll''" and tm: "time_ok t e" and se: "settled t e"
    and st: "start_time e \<le> t"
  shows "\<exists>e'. entry_sum E (t, t) e = Ret e' (\<Sum>k<nat (num_windows e). view_get E e (win_no e t - int k))"
proof -
  let ?e = "clean_windows t e" and ?c = "(t - start_time e) div window_size e mod num_windows e"
  have ok1: "entry_ok ty ?e" using ok by (rule clean_windows_ok)
  have c: "0 \<le> ?c" "?c < num_windows ?e" using current_window_range[OF ok st] by auto
  have "\<not> sum_cache_valid ?e" using ok1 by (simp add: entry_ok_def)
  then show ?thesis
    using current_window_range[OF ok st] window_at_ok[OF ok1 c] ty sum_view[OF ok ty tm se, of E]
    by (simp add: entry_sum_def Let_def member_sum_gets)
qed


subsection \<open>Writing the ring\<close>

lemma write_time_eq:
  "entry_ok ty e \<Longrightarrow> start_time e \<le> t \<Longrightarrow>
   t - ((t - start_time e) smod window_size e) = wstart e (win_no e t)"
  using minus_mod_eq_mult_div[of "t - start_time e" "window_size e"]
  by (simp add: entry_ok_def wstart_def win_no_def algebra_simps)

lemma wstart_nonzero: "entry_ok ty e \<Longrightarrow> time_ok t' e \<Longrightarrow> start_time e \<le> t \<Longrightarrow> 0 < wstart e (win_no e t)"
  by (auto simp: entry_ok_def time_ok_def wstart_def win_no_def pos_imp_zdiv_nonneg_iff
      intro!: add_pos_nonneg)

definition write_slot :: "int \<Rightarrow> TWStatsMember \<Rightarrow> TWStatsEntry \<Rightarrow> TWStatsBuf" where
  "write_slot t m e =
     (let i = slot_of e (win_no e t); ts = fst (stats_array e ! i)
      in (stats_array e)[i := (if ts = 0 then wstart e (win_no e t) else ts, m)])"

lemma write_stats_array:
  assumes ok: "entry_ok ty e" and st: "start_time e \<le> t"
  shows "stats_array (entry_update_write_timestamp t (int (slot_of e (win_no e t)))
      (set_member (int (slot_of e (win_no e t))) m e)) = write_slot t m e"
  using slot_of_less[OF ok, of "win_no e t"] write_time_eq[OF ok st]
  by (simp add: entry_update_write_timestamp_def set_member_def write_slot_def Let_def)

lemma entry_modify_run:
  assumes ok: "entry_ok ty e" and st: "start_time e \<le> t"
  shows "entry_modify f (t, t, t) e =
    (let e1 = clean_windows t e; i = slot_of e (win_no e t)
     in case f (snd (stats_array e1 ! i)) of
          Inl x \<Rightarrow> Exn x e1
        | Inr m' \<Rightarrow> Ret (entry_update_write_timestamp t (int i) (set_member (int i) m' e1)) ())"
  by (simp add: entry_modify_def at_current_eq[OF ok st] cur_slot_eq Let_def)

lemma write_time_ok:
  assumes ok: "entry_ok ty e" and tm: "time_ok t e" and st: "start_time e \<le> t"
  shows "time_ok t (entry_update_write_timestamp t (int (slot_of e (win_no e t)))
      (set_member (int (slot_of e (win_no e t))) m e))" (is "time_ok t ?e'")
proof -
  let ?i = "slot_of e (win_no e t)"
  have ws: "0 < window_size e" and nw: "0 < num_windows e" using ok by (auto simp: entry_ok_def)
  have i: "?i < length (stats_array e)" using slot_of_less[OF ok] .
  have old: "slot_timed t e j" if "j < length (stats_array e)" for j using tm that by (simp add: time_ok_def)
  have "0 \<le> win_no e t" using st ws by (simp add: win_no_def pos_imp_zdiv_nonneg_iff)
  moreover have "last_cleaned e - wstart e (win_no e t) < window_size e * num_windows e"
  proof -
    have "last_cleaned e \<le> t" using tm by (simp add: time_ok_def)
    then have "last_cleaned e - wstart e (win_no e t) < window_size e * 1"
      using wstart_win_no[OF ws, of t] by linarith
    also have "\<dots> \<le> window_size e * num_windows e" using nw ws by (intro mult_left_mono) auto
    finally show ?thesis .
  qed
  ultimately have "slot_timed t ?e' j" if j: "j < length (stats_array e)" for j
    using old[OF j] j ws i write_stats_array[OF ok st, of m] wstart_nonzero[OF ok tm st]
    by (cases "j = ?i") (auto simp: slot_timed_def write_slot_def Let_def split: if_splits)
  then show ?thesis using tm by (simp add: time_ok_def)
qed

text \<open>
  The contract of a change carries over to the stamps, whether or not the ring was settled; on a
  settled ring exactly the current window changes, and it holds what the change makes of it.
\<close>

context member_change
begin

lemma modify_time_ok:
  assumes ok: "entry_ok ty e" and tm: "time_ok t e" and st: "start_time e \<le> t"
    and run: "final_state (entry_modify f (t, t, t) e) = Some e'"
  shows "time_ok t e'"
proof -
  let ?e = "clean_windows t e" and ?i = "slot_of e (win_no e t)"
  have ok1: "entry_ok ty ?e" and tm1: "time_ok t ?e"
    using clean_windows_ok[OF ok] clean_time_ok[OF ok tm order_refl] by auto
  show ?thesis
    using run tm1 write_time_ok[OF ok1 tm1] st
    by (auto simp: entry_modify_run[OF ok st] Let_def split: sum.splits)
qed

lemma modify_view:
  assumes ok: "entry_ok ty e" and tm: "time_ok t e" and se: "settled t e" and st: "start_time e \<le> t"
    and run: "entry_modify f (t, t, t) e = Ret e' ()"
    and q: "win_no e t - num_windows e < q" "q \<le> win_no e t"
  obtains m m' where "f m = Inr m'" and "view e (win_no e t) = Some m \<or> view e (win_no e t) = None \<and> member_erase m = m"
    and "member_type m = ty"
    and "view e' q = (if q = win_no e t then Some m' else view e q)"
proof -
  let ?e = "clean_windows t e" and ?i = "slot_of e (win_no e t)"
  let ?m = "snd (stats_array ?e ! ?i)"
  have ok1: "entry_ok ty ?e" and tm1: "time_ok t ?e"
    using clean_windows_ok[OF ok] clean_time_ok[OF ok tm order_refl] by auto
  have nw: "0 < num_windows e" using ok by (simp add: entry_ok_def)
  have nz: "wstart e (win_no e t) \<noteq> 0" using wstart_nonzero[OF ok tm st] by simp
  have i: "?i < length (stats_array ?e)" using slot_of_less[OF ok] by simp
  obtain m' where m': "f ?m = Inr m'"
    and e': "e' = entry_update_write_timestamp t (int ?i) (set_member (int ?i) m' ?e)"
    using run by (auto simp: entry_modify_run[OF ok st] Let_def split: sum.splits)
  have arr: "stats_array e' = write_slot t m' ?e"
    using write_stats_array[OF ok1, of t m'] st e' by simp
  have ts: "fst (stats_array ?e ! ?i) \<in> {0, wstart e (win_no e t)}"
    using live_slot[OF ok tm se, of "win_no e t"] nw by simp
  have "slot_timed t ?e ?i" using tm1 i by (simp add: time_ok_def)
  then have old: "view e (win_no e t) = Some ?m \<or> view e (win_no e t) = None \<and> member_erase ?m = ?m"
    using ts nz view_clean[OF ok, of t "win_no e t"] nw
    by (auto simp: view_def Let_def slot_timed_def split: if_splits)
  have "member_type ?m = ty" using ok1 nth_mem[OF i] by (simp add: entry_ok_def)
  moreover have "view e' q = (if q = win_no e t then Some m' else view ?e q)"
  proof (cases "q = win_no e t")
    case True
    then show ?thesis using arr ts nz i by (auto simp: e' view_def write_slot_def Let_def)
  next
    case False
    then have "slot_of e q \<noteq> ?i" using slot_of_inj[OF ok, of q "win_no e t"] q by force
    then show ?thesis using False arr by (simp add: e' view_def write_slot_def Let_def)
  qed
  ultimately show ?thesis using that[OF m' old] view_clean[OF ok q(1)] by simp
qed

end

subsection \<open>Runs\<close>

lemma get_str_same: "member_type m \<noteq> ''hll'' \<Longrightarrow> fst (member_get_str E s m) = m"
  by (cases m) auto

lemma windows_loop_same:
  assumes g: "\<And>m. member_type m \<noteq> ''hll'' \<Longrightarrow> fst (g m) = m" and ty: "ty \<noteq> ''hll''"
  shows "entry_ok ty e \<Longrightarrow> windows_loop g k i e = Ret e' vs \<Longrightarrow> e' = e"
proof (induction k arbitrary: i vs)
  case (Suc k)
  let ?j = "i smod num_windows e"
  obtain sm where w: "window_at e ?j = Some sm"
    using Suc.prems(2) by (cases "window_at e ?j") (auto simp: Let_def)
  then have j: "nat ?j < length (stats_array e)" and sm: "sm = stats_array e ! nat ?j"
    by (auto simp: window_at_def split: if_splits)
  have "member_type (snd sm) = ty" using Suc.prems(1) nth_mem[OF j] sm by (simp add: entry_ok_def)
  then have "fst (g (snd sm)) = snd sm" using g ty by simp
  then show ?case
    using Suc.prems Suc.IH w sm
    by (auto simp: Let_def set_member_same case_prod_beta elim!: obind.elims)
qed simp

lemma windows_loop_not_Exn [simp]: "windows_loop g k i e \<noteq> Exn x e'"
proof (induction k arbitrary: i e)
  case (Suc k)
  then show ?case
    by (auto simp: Let_def split: option.splits prod.splits elim!: obind.elims)
qed simp

lemma windows_gen_state:
  assumes "\<And>m. member_type m \<noteq> ''hll'' \<Longrightarrow> fst (g m) = m" "ty \<noteq> ''hll''" "entry_ok ty e"
    "final_state (entry_get_windows_gen g (t, t) e) = Some e'"
  shows "e' = clean_windows t e"
  using assms(4) windows_loop_same[OF assms(1,2) clean_windows_ok[OF assms(3)]]
  by (cases "entry_get_windows_gen g (t, t) e")
    (auto simp: entry_get_windows_gen_def Let_def split: option.splits)


lemma time_ok_mono: "entry_ok ty e \<Longrightarrow> time_ok now e \<Longrightarrow> now \<le> t \<Longrightarrow> time_ok t e"
  using win_no_mono[of e now t]
  by (auto simp: time_ok_def slot_timed_def entry_ok_def Let_def)

lemma time_ok_caches [simp]:
  "time_ok t (e\<lparr>sum_cache_value := v\<rparr>) = time_ok t e"
  "time_ok t (e\<lparr>ssum_cache_value := v\<rparr>) = time_ok t e"
  by (simp_all add: time_ok_def slot_timed_def win_no_def wstart_def slot_of_def)

lemma reset_time_ok: "time_ok t e \<Longrightarrow> time_ok t (entry_reset e)"
  by (auto simp: time_ok_def slot_timed_def entry_reset_def Let_def)

text \<open>The state a reading call leaves: the cleaned ring, up to the cached value.\<close>

lemma entry_sum_state:
  "final_state (entry_sum E (t, t) e) = Some e' \<Longrightarrow>
   e' = clean_windows t e \<or> (\<exists>v. e' = (clean_windows t e)\<lparr>sum_cache_value := v\<rparr>)"
  by (auto simp: entry_sum_def Let_def split: option.splits if_splits outcome.splits)

lemma entry_sum_str_state:
  "final_state (entry_sum_str E s (t, t) e) = Some e' \<Longrightarrow>
   e' = clean_windows t e \<or> (\<exists>v. e' = (clean_windows t e)\<lparr>ssum_cache_value := v\<rparr>)"
  by (auto simp: entry_sum_str_def Let_def split: option.splits if_splits)

lemma entry_get_str_state:
  assumes ok: "entry_ok ty e" and ty: "ty \<noteq> ''hll''" and st: "start_time e \<le> t"
    and run: "final_state (entry_get_str E s (t, t) e) = Some e'"
  shows "e' = clean_windows t e"
proof -
  have "cur_slot t e < length (stats_array (clean_windows t e))" using cur_slot_less[OF ok st] by simp
  from nth_mem[OF this] have "member_type (snd (stats_array (clean_windows t e) ! cur_slot t e)) = ty"
    using clean_windows_ok[OF ok, of t] by (simp add: entry_ok_def)
  then show ?thesis
    using run ty set_member_same[of "int (cur_slot t e)" "clean_windows t e"]
    by (simp add: entry_get_str_def at_current_eq[OF ok st] case_prod_beta get_str_same)
qed

definition is_write :: "entry_call \<Rightarrow> bool" where
  "is_write call \<longleftrightarrow> (case call of AddInt _ \<Rightarrow> True | AddStr _ \<Rightarrow> True | AddStrInt _ _ \<Rightarrow> True
     | SubInt _ \<Rightarrow> True | SubStr _ \<Rightarrow> True | _ \<Rightarrow> False)"

lemma entry_read_state:
  assumes ok: "entry_ok ty e" and ty: "ty \<noteq> ''hll''" and st: "start_time e \<le> t"
    and run: "entry_exec E call (t, t, t) e = Some e'" and call: "\<not> is_write call" "call \<noteq> ResetAll"
  shows "e' = clean_windows t e \<or> (\<exists>v. e' = (clean_windows t e)\<lparr>sum_cache_value := v\<rparr>)
    \<or> (\<exists>v. e' = (clean_windows t e)\<lparr>ssum_cache_value := v\<rparr>)"
  using run call
  by (cases call)
    (auto simp: is_write_def entry_get_def at_current_eq[OF ok st] entry_get_windows_def
      entry_get_windows_str_def get_str_same
      dest: entry_sum_state entry_sum_str_state entry_get_str_state[OF ok ty st]
        windows_gen_state[rotated 3, OF _ _ ty ok])

lemma entry_write_state:
  assumes run: "entry_exec E call (t, t, t) e = Some e'" and call: "is_write call"
  obtains f where "member_change f" "final_state (entry_modify f (t, t, t) e) = Some e'"
  using run call
  by (cases call)
    (auto simp: is_write_def entry_add_int_def entry_add_str_def entry_add_str_int_def
      entry_sub_int_def entry_sub_str_def
      intro: that[OF add_int.member_change_axioms] that[OF add_str.member_change_axioms]
        that[OF add_str_int.member_change_axioms] that[OF sub_int.member_change_axioms]
        that[OF sub_str.member_change_axioms])

lemma entry_exec_time_ok:
  assumes ok: "entry_ok ty e" and ty: "ty \<noteq> ''hll''" and tm: "time_ok now e" and now: "now \<le> t"
    and st: "start_time e \<le> t" and run: "entry_exec E call (t, t, t) e = Some e'"
  shows "time_ok t e'"
proof -
  have tm1: "time_ok t e" using time_ok_mono[OF ok tm now] .
  consider "is_write call" | "call = ResetAll" | "\<not> is_write call" "call \<noteq> ResetAll" by blast
  then show ?thesis
  proof cases
    case 1
    then obtain f where "member_change f" "final_state (entry_modify f (t, t, t) e) = Some e'"
      using entry_write_state[OF run] by blast
    then show ?thesis using member_change.modify_time_ok[OF _ ok tm1 st] by blast
  next
    case 2
    then show ?thesis using run reset_time_ok[OF tm1] by auto
  next
    case 3
    then show ?thesis
      using entry_read_state[OF ok ty st run] clean_time_ok[OF ok tm1 order_refl] by auto
  qed
qed

lemma create_windows_spec:
  "create_windows E t ft n = Ret () arr \<Longrightarrow>
   length arr = n \<and> (\<forall>w \<in> set arr. fst w = 0 \<and> createInstance E t ft = Ret () (snd w))"
proof (induction n arbitrary: arr)
  case (Suc n)
  then show ?case by fastforce
qed simp

lemma createInstance_spec:
  assumes "createInstance E t ft = Ret () m" "type_map_has ft"
    "ft = ''countmin'' \<Longrightarrow> 0 < cm_width E (cm_eps E)"
  shows "member_ok m \<and> member_type m = ft \<and> member_erase m = m"
proof -
  have "cms_erase s = s" if "new_CountMinSketch E t ep g = Ret () s" for s ep g
    using that by (auto simp: new_CountMinSketch_def cms_erase_def Let_def split: if_splits)
  moreover have "hll_clear h = h" if "new_HyperLogLog b = Ret () h" for h b
    using that by (auto simp: new_HyperLogLog_def hll_clear_def map_replicate_const split: if_splits)
  ultimately show ?thesis
    using assms
    by (auto simp: createInstance_def new_HLL_member_def new_CountMin_member_def type_map_has_def
        new_HyperLogLog_ok new_CountMinSketch_ok split: if_splits elim!: obind.elims)
qed

definition dims_ok :: "int \<Rightarrow> int \<Rightarrow> bool" where
  "dims_ok nw ws \<longleftrightarrow> 0 < ws \<and> 0 < nw \<and> ws * nw < 2 ^ 31"

lemma new_entry_ok:
  assumes new: "new_TWStatsEntry E t nw ws st ty = Ret () e" and d: "dims_ok nw ws" and ty: "type_map_has ty"
    and w: "ty = ''countmin'' \<Longrightarrow> 0 < cm_width E (cm_eps E)"
  shows "entry_ok ty e" and "0 < st \<Longrightarrow> time_ok st e"
    and "start_time e = st \<and> window_size e = ws \<and> num_windows e = nw"
proof -
  obtain arr where arr: "create_windows E t ty (nat nw) = Ret () arr"
    and e: "e = \<lparr>stats_array = arr, num_windows = nw, window_size = ws, start_time = st,
          last_cleaned = 0, sum_cache_valid = False, sum_cache_value = 0,
          ssum_cache_valid = False, ssum_cache_value = 0\<rparr>"
    using new ty by (auto simp: new_TWStatsEntry_def elim!: obind.elims)
  have m: "member_ok (snd x) \<and> member_type (snd x) = ty \<and> member_erase (snd x) = snd x" if "x \<in> set arr" for x
    using create_windows_spec[OF arr] that createInstance_spec[OF _ ty w] by blast
  show "entry_ok ty e" using m d create_windows_spec[OF arr] by (auto simp: e entry_ok_def dims_ok_def)
  show "time_ok st e" if "0 < st"
    using m create_windows_spec[OF arr] that nth_mem[of _ arr]
    by (auto simp: e time_ok_def slot_timed_def Let_def)
  show "start_time e = st \<and> window_size e = ws \<and> num_windows e = nw" by (simp add: e)
qed


section \<open>Dump and restore\<close>

fun member_fits :: "sk_env \<Rightarrow> TWStatsMember \<Rightarrow> bool" where
  "member_fits E (TWStatsMemberInt i) = True"
| "member_fits E (TWStatsMemberHLL h) = hll_ok h"
| "member_fits E (TWStatsMemberCountMin s) = cms_fits E s"

lemma member_restore_dump:
  "member_fits E m \<Longrightarrow> member_type m0 = member_type m \<Longrightarrow> member_restore E t (member_dump m) m0 = Ret m ()"
  by (cases m; cases m0) (auto simp: hll_restore_dump cms_restore_dump)

lemma restore_loop_dump:
  "\<forall>w \<in> set xs. member_fits E (snd w) \<Longrightarrow>
   list_all2 (\<lambda>w w'. member_type (snd w) = member_type (snd w')) xs ys \<Longrightarrow>
   restore_loop E t (length pre) (map (\<lambda>w. (fst w, member_dump (snd w))) xs) (g\<lparr>stats_array := pre @ ys\<rparr>) =
     Ret (g\<lparr>stats_array := pre @ xs\<rparr>) ()"
proof (induction xs arbitrary: pre ys)
  case (Cons x xs)
  then obtain y ys' where ys: "ys = y # ys'" and ty: "member_type (snd x) = member_type (snd y)"
    and rest: "list_all2 (\<lambda>w w'. member_type (snd w) = member_type (snd w')) xs ys'"
    by (auto simp: list_all2_Cons1)
  have "member_restore E t (member_dump (snd x)) (snd y) = Ret (snd x) ()"
    using Cons.prems(1) ty by (intro member_restore_dump) auto
  then show ?case
    using Cons.IH[of ys' "pre @ [x]"] Cons.prems(1) rest by (simp add: ys Let_def nth_append)
qed simp

lemma entry_restore_dump:
  assumes ok: "entry_ok ty e" and gok: "entry_ok ty g" and nw: "num_windows g = num_windows e"
    and fits: "\<forall>w \<in> set (stats_array e). member_fits E (snd w)"
  shows "entry_restore E t (fst (entry_dump e)) (snd (entry_dump e)) g =
    Ret (g\<lparr>stats_array := stats_array e, start_time := start_time e, last_cleaned := 0\<rparr>) ()"
proof -
  let ?g = "g\<lparr>start_time := start_time e, last_cleaned := 0, sum_cache_valid := False, ssum_cache_valid := False\<rparr>"
  have "length (stats_array e) = length (stats_array g)" using ok gok nw by (simp add: entry_ok_def)
  moreover have "member_type (snd (stats_array e ! i)) = member_type (snd (stats_array g ! i))"
    if "i < length (stats_array e)" for i
    using that ok gok calculation by (simp add: entry_ok_def)
  ultimately have "list_all2 (\<lambda>w w'. member_type (snd w) = member_type (snd w')) (stats_array e) (stats_array g)"
    by (simp add: list_all2_conv_all_nth)
  from restore_loop_dump[OF fits this, of t "[]" ?g] show ?thesis
    using gok by (simp add: entry_restore_def entry_dump_def entry_ok_def)
qed

lemma restore_loop_too_many:
  "\<forall>w \<in> set (stats_array e). member_type (snd w) = ''int'' \<Longrightarrow> j \<le> length (stats_array e) \<Longrightarrow>
   length (stats_array e) < j + length sv \<Longrightarrow> restore_loop E t j sv e = Undef"
proof (induction sv arbitrary: j e)
  case (Cons x sv)
  show ?case
  proof (cases "j < length (stats_array e)")
    case True
    then have "member_type (snd (stats_array e ! j)) = ''int''" using Cons.prems(1) by simp
    then obtain i where i: "snd (stats_array e ! j) = TWStatsMemberInt i"
      by (cases "snd (stats_array e ! j)") auto
    have all: "member_type (snd w) = ''int''" if "w \<in> set ((stats_array e)[j := (ts, TWStatsMemberInt k)])" for w ts k
      using that Cons.prems(1) by (auto dest!: set_update_subset_insert[THEN subsetD])
    then show ?thesis
      using True i Cons.prems(2,3) by (cases x) (simp add: Let_def all Cons.IH)
  qed (cases x, simp)
qed simp

section \<open>Adding and summing\<close>

lemma add_view:
  assumes ok: "entry_ok ''int'' e" and tm: "time_ok t e" and se: "settled t e" and st: "start_time e \<le> t"
    and q: "win_no e t - num_windows e < q" "q \<le> win_no e t"
    and run: "entry_add_int a (t, t, t) e = Ret e' ()"
  shows "view_get E e' q = view_get E e q + (if q = win_no e t then a else 0)"
proof -
  have run': "entry_modify (\<lambda>m. Inr (member_add_int a m)) (t, t, t) e = Ret e' ()"
    using run by (simp add: entry_add_int_def)
  obtain m where m: "view e (win_no e t) = Some m \<or> view e (win_no e t) = None \<and> member_erase m = m"
    and ty: "member_type m = ''int''"
    and v: "view e' q = (if q = win_no e t then Some (member_add_int a m) else view e q)"
    using add_int.modify_view[OF ok tm se st run' q] by (metis Inr_inject)
  show ?thesis using m v ty by (cases m) (auto simp: view_get_def)
qed

lemma add_int_returns:
  assumes ok: "entry_ok ''int'' e" and tm: "time_ok t e" and st: "start_time e \<le> t"
  obtains e' where "entry_add_int a (t, t, t) e = Ret e' ()" "entry_ok ''int'' e'" "time_ok t e'"
    "stats_array e' = write_slot t (member_add_int a (snd (stats_array (clean_windows t e) ! slot_of e (win_no e t)))) (clean_windows t e)"
    "last_cleaned e' = last_cleaned (clean_windows t e)"
    "num_windows e' = num_windows e" "window_size e' = window_size e" "start_time e' = start_time e"
proof -
  let ?e = "clean_windows t e" and ?i = "int (slot_of e (win_no e t))"
  let ?m = "member_add_int a (snd (stats_array ?e ! slot_of e (win_no e t)))"
  let ?e' = "entry_update_write_timestamp t ?i (set_member ?i ?m ?e)"
  have run: "entry_modify (\<lambda>m. Inr (member_add_int a m)) (t, t, t) e = Ret ?e' ()"
    by (simp add: entry_modify_run[OF ok st] Let_def)
  have "entry_ok ''int'' ?e'" using add_int.modify_ok[OF ok st, of a t t] run by simp
  moreover have "time_ok t ?e'" using add_int.modify_time_ok[OF ok tm st, where a = a and e' = ?e'] run by simp
  moreover have "stats_array ?e' = write_slot t ?m ?e"
    using write_stats_array[OF clean_windows_ok[OF ok], of t t] st by simp
  ultimately show ?thesis using that[of ?e'] run by (simp add: entry_add_int_def)
qed

text \<open>A settled ring stays settled at the same time when the current window is written.\<close>

lemma settled_write:
  assumes ok: "entry_ok ty e" and tm: "time_ok t e" and se: "settled t e"
    and arr: "stats_array e' = write_slot t m (clean_windows t e)"
    and dims: "num_windows e' = num_windows e" "window_size e' = window_size e"
  shows "settled t e'"
proof -
  have nw: "0 < num_windows e" using ok by (simp add: entry_ok_def)
  let ?q = "win_no e t"
  have "fst w = 0 \<or> t - fst w < window_size e * num_windows e" if w: "w \<in> set (stats_array e')" for w
  proof -
    obtain i where i: "i < length (stats_array e)" and wi: "w = stats_array e' ! i"
      using w by (auto simp: arr write_slot_def Let_def in_set_conv_nth)
    show ?thesis
      using settled_clean[OF ok se i] live_not_expired[OF ok, of t ?q] live_slot[OF ok tm se, of ?q] nw i
      by (cases "i = slot_of e ?q") (auto simp: wi arr write_slot_def Let_def)
  qed
  then show ?thesis by (auto simp: settled_def dims list_all_iff)
qed

lemma add_then_sum:
  assumes ok: "entry_ok ''int'' e" and tm: "time_ok t e" and se: "settled t e" and st: "start_time e \<le> t"
  shows "\<exists>s e0 e' e''. entry_sum E (t, t) e = Ret e0 s \<and> entry_add_int a (t, t, t) e = Ret e' ()
    \<and> entry_sum E (t, t) e' = Ret e'' (s + a)"
proof -
  let ?n = "nat (num_windows e)"
  obtain e' where run: "entry_add_int a (t, t, t) e = Ret e' ()" and ok': "entry_ok ''int'' e'"
    and tm': "time_ok t e'"
    and arr: "stats_array e' = write_slot t (member_add_int a (snd (stats_array (clean_windows t e) ! slot_of e (win_no e t)))) (clean_windows t e)"
    and f: "num_windows e' = num_windows e" "window_size e' = window_size e" "start_time e' = start_time e"
    using add_int_returns[OF ok tm st] by metis
  have se': "settled t e'" using settled_write[OF ok tm se arr f(1,2)] .
  have wn: "win_no e' t = win_no e t" by (simp add: win_no_def f)
  have pos: "0 < ?n" using ok by (simp add: entry_ok_def)
  have "(\<Sum>k<?n. view_get E e' (win_no e t - int k)) =
      (\<Sum>k<?n. view_get E e (win_no e t - int k) + (if k = 0 then a else 0))"
    by (intro sum.cong refl, subst add_view[OF ok tm se st _ _ run]) auto
  also have "\<dots> = (\<Sum>k<?n. view_get E e (win_no e t - int k)) + a"
    using pos by (simp add: sum.distrib)
  finally show ?thesis
    using entry_sum_view[OF ok _ tm se st, of E] entry_sum_view[OF ok' _ tm' se', of E] st run f wn by auto
qed

section \<open>Properties of the time windows\<close>

text \<open>
  C1. No access to the ring is undefined: for a well-formed entry, a clock that is not before its start
  time and a number of HyperLogLog bits whose low byte is below 32 (a larger one, which \<^verbatim>\<open>setNumBits\<close> does not
  refuse, makes a shift undefined), each of the twelve calls returns or throws, and leaves a well-formed entry.
\<close>

theorem tw_entry_safe:
  assumes "entry_ok ty e" and "start_time e \<le> t2" and "unat (ucast (num_bits E) :: 8 word) < 32"
  shows "\<exists>e'. entry_exec E call (t1, t2, t3) e = Some e' \<and> entry_ok ty e'"
  using assms by (rule entry_exec_ok)

definition demo_entry :: TWStatsEntry where
  "demo_entry = \<lparr>stats_array = [(0, TWStatsMemberInt 0), (0, TWStatsMemberInt 0)], num_windows = 2,
     window_size = 10, start_time = 1000, last_cleaned = 0, sum_cache_valid = False,
     sum_cache_value = 0, ssum_cache_valid = False, ssum_cache_value = 0\<rparr>"

theorem tw_entry_safe_witness:
  "\<exists>e'. entry_exec demo_env (AddStr ''x'') (1005, 1005, 1006) demo_entry = Some e' \<and> entry_ok ''int'' e'"
  by (rule tw_entry_safe) (simp_all add: demo_entry_def demo_env_def entry_ok_def)

text \<open>
  C2. Functional behaviour of an integer field: on a settled ring, after \<^verbatim>\<open>add(a)\<close> at time \<open>t\<close> the
  count of each of the \<open>num_windows\<close> most recent windows is what it was, plus \<open>a\<close> in the current
  window; the stamps stay consistent.
\<close>

theorem tw_add_view:
  assumes ok: "entry_ok ''int'' e" and tm: "time_ok t e" and se: "settled t e" and st: "start_time e \<le> t"
    and q: "win_no e t - num_windows e < q" "q \<le> win_no e t"
  shows "\<exists>e'. entry_add_int a (t, t, t) e = Ret e' () \<and> time_ok t e'
    \<and> view_get E e' q = view_get E e q + (if q = win_no e t then a else 0)"
  using add_int_returns[OF ok tm st, of a] add_view[OF ok tm se st q, of a _ E] by metis

theorem tw_add_view_witness:
  "\<exists>e'. entry_add_int 5 (1012, 1012, 1012) demo_entry = Ret e' () \<and> time_ok 1012 e'
    \<and> view_get demo_env e' 1 = view_get demo_env demo_entry 1 + 5"
  using tw_add_view[of demo_entry 1012 1 5 demo_env]
  by (simp add: demo_entry_def entry_ok_def time_ok_def slot_timed_def settled_def win_no_def
      atLeast0_lessThan_Suc numeral_2_eq_2)

text \<open>
  C3. Reading an integer or count-min field on a settled ring: \<^verbatim>\<open>get_windows\<close> lists the counts of
  the \<open>num_windows\<close> most recent windows, newest first, and \<^verbatim>\<open>sum\<close> returns their sum (modulo the
  width of an \<^verbatim>\<open>int\<close>).
\<close>

theorem tw_reads_view:
  assumes "entry_ok ty e" and "ty \<noteq> ''hll''" and "time_ok t e" and "settled t e" and "start_time e \<le> t"
  shows "(\<exists>e'. entry_get_windows E (t, t) e =
      Ret e' (map (\<lambda>k. view_get E e (win_no e t - int k)) [0..<nat (num_windows e)]))
    \<and> (\<exists>e'. entry_sum E (t, t) e = Ret e' (\<Sum>k<nat (num_windows e). view_get E e (win_no e t - int k)))"
  using get_windows_view[OF assms, of E] entry_sum_view[OF assms, of E] by blast

definition demo_entry2 :: TWStatsEntry where
  "demo_entry2 = demo_entry\<lparr>stats_array := [(1000, TWStatsMemberInt 5), (1010, TWStatsMemberInt 7)],
     last_cleaned := 1010\<rparr>"

lemma demo_entry2_ok: "entry_ok ''int'' demo_entry2" "time_ok 1012 demo_entry2"
  by (simp_all add: demo_entry2_def demo_entry_def entry_ok_def time_ok_def slot_timed_def
      win_no_def wstart_def slot_of_def atLeast0_lessThan_Suc numeral_2_eq_2 Let_def)

theorem tw_reads_view_witness:
  "\<exists>e'. entry_get_windows demo_env (1012, 1012) demo_entry2 = Ret e' [7, 5]"
  using tw_reads_view[OF demo_entry2_ok(1) _ demo_entry2_ok(2), of demo_env]
  by (simp add: demo_entry2_def demo_entry_def settled_def view_get_def view_def win_no_def
      wstart_def slot_of_def numeral_2_eq_2)

text \<open>The states of an entry that a database created at \<open>st\<close> can reach, with a clock that does not go back.\<close>

inductive entry_reach :: "sk_env \<Rightarrow> int \<Rightarrow> int \<Rightarrow> int \<Rightarrow> string \<Rightarrow> int \<Rightarrow> TWStatsEntry \<Rightarrow> bool"
  for E :: sk_env and nw ws st :: int and ty :: string where
  new: "new_TWStatsEntry E t nw ws st ty = Ret () e \<Longrightarrow> entry_reach E nw ws st ty st e"
| call: "entry_reach E nw ws st ty now e \<Longrightarrow> now \<le> t \<Longrightarrow> entry_exec E c (t, t, t) e = Some e' \<Longrightarrow>
     entry_reach E nw ws st ty t e'"

lemma entry_exec_start:
  assumes "entry_ok ty e" "ty \<noteq> ''hll''" "start_time e \<le> t" "entry_exec E c (t, t, t) e = Some e'"
  shows "start_time e' = start_time e \<and> window_size e' = window_size e \<and> num_windows e' = num_windows e"
proof -
  consider "is_write c" | "c = ResetAll" | "\<not> is_write c" "c \<noteq> ResetAll" by blast
  then show ?thesis
  proof cases
    case 1
    then obtain f where "final_state (entry_modify f (t, t, t) e) = Some e'"
      using entry_write_state[OF assms(4)] by blast
    then show ?thesis by (auto simp: entry_modify_run[OF assms(1,3)] Let_def split: sum.splits)
  next
    case 2
    then show ?thesis using assms(4) by (auto simp: entry_reset_def)
  next
    case 3
    then show ?thesis using entry_read_state[OF assms(1-4)] by auto
  qed
qed

lemma entry_reach_inv:
  assumes "entry_reach E nw ws st ty now e" and d: "dims_ok nw ws" and ty: "type_map_has ty" "ty \<noteq> ''hll''"
    and w: "0 < cm_width E (cm_eps E)" and st: "0 < st" and nb: "unat (ucast (num_bits E) :: 8 word) < 32"
  shows "entry_ok ty e \<and> time_ok now e \<and> start_time e = st \<and> st \<le> now
    \<and> window_size e = ws \<and> num_windows e = nw"
  using assms(1)
proof induction
  case (new t e)
  then show ?case using new_entry_ok[OF new d ty(1) w] st by simp
next
  case (call now e t c e')
  then have "entry_ok ty e" "time_ok now e" "start_time e \<le> t" by auto
  with call show ?case
    using entry_exec_ok[of ty e t E c t t] entry_exec_time_ok[of ty e now t E c e'] ty(2) nb
      entry_exec_start[of ty e t E c e'] by auto
qed

lemma exec_last_cleaned:
  assumes ok: "entry_ok ty e" and ty: "ty \<noteq> ''hll''" and st: "start_time e \<le> t"
    and run: "entry_exec E c (t, t, t) e = Some e'" and c: "c \<noteq> ResetAll"
  shows "t - last_cleaned e' < window_size e"
proof -
  have lc: "t - last_cleaned (clean_windows t e) < window_size e"
    using ok by (simp add: last_cleaned_clean entry_ok_def)
  show ?thesis
  proof (cases "is_write c")
    case True
    then obtain f where "final_state (entry_modify f (t, t, t) e) = Some e'"
      using entry_write_state[OF run] by blast
    then show ?thesis using lc by (auto simp: entry_modify_run[OF ok st] Let_def split: sum.splits)
  next
    case False
    then show ?thesis using lc c entry_read_state[OF ok ty st run] by auto
  qed
qed


lemma demo_reach: "entry_reach demo_env 2 10 1000 ''int'' 1000 demo_entry"
  by (rule entry_reach.new[where t = 1000])
    (simp add: new_TWStatsEntry_def type_map_has_def createInstance_def numeral_2_eq_2 demo_entry_def)

lemma demo_add:
  "entry_exec demo_env (AddInt 5) (1003, 1003, 1003) demo_entry =
     Some (demo_entry\<lparr>stats_array := [(1000, TWStatsMemberInt 5), (0, TWStatsMemberInt 0)], last_cleaned := 1003\<rparr>)"
  by (simp add: demo_entry_def entry_add_int_def entry_modify_def at_current_def Let_def
      clean_windows_def clean_one_def current_window_def window_at_def entry_update_write_timestamp_def
      set_member_def)

lemma demo_reach_add: "entry_reach demo_env 2 10 1000 ''int'' 1003
    (demo_entry\<lparr>stats_array := [(1000, TWStatsMemberInt 5), (0, TWStatsMemberInt 0)], last_cleaned := 1003\<rparr>)"
  by (rule entry_reach.call[OF demo_reach _ demo_add]) simp

lemma demo_read:
  "entry_exec demo_env GetCur (1025, 1025, 1025)
     (demo_entry\<lparr>stats_array := [(1000, TWStatsMemberInt 5), (0, TWStatsMemberInt 0)], last_cleaned := 1003\<rparr>) =
     Some (demo_entry\<lparr>stats_array := [(0, TWStatsMemberInt 0), (0, TWStatsMemberInt 0)], last_cleaned := 1025\<rparr>)"
  by (simp add: demo_entry_def entry_get_def clean_windows_def clean_one_def expire_diff_def at_current_def current_window_def window_at_def Let_def)


definition lost_run :: "TWStatsEntry \<Rightarrow> (TWStatsEntry, 32 word \<times> 32 word) outcome" where
  "lost_run e0 =
     obind (entry_add_int 5 (1000, 1000, 1000) e0) (\<lambda>e1 _.
     obind (entry_sum demo_env (1019, 1019) e1) (\<lambda>e2 _.
     obind (entry_add_int 7 (1020, 1020, 1020) e2) (\<lambda>e3 _.
     obind (entry_sum demo_env (1020, 1020) e3) (\<lambda>e4 s1.
     obind (entry_sum demo_env (1029, 1029) e4) (\<lambda>e5 s2. Ret e5 (s1, s2))))))"

lemmas entry_eval = entry_add_int_def entry_modify_def at_current_def Let_def
  clean_windows_def clean_one_def current_window_def window_at_def entry_update_write_timestamp_def
  set_member_def entry_sum_def sum_gets_def expire_diff_def

text \<open>
  The cleaning shortcut loses updates. With two windows of ten seconds starting at 1000: 5 is
  added at 1000, the field is read at 1019 (which cleans, with nothing to expire), 7 is added at
  1020. The last access skips the cleaning, so 7 goes into the window stamped 1000, next to the
  expired 5 (the sum at 1020 is 12); at 1029 that window is erased and the sum is 0, although 7 was
  added nine seconds before.
\<close>

lemma tw_lost_update:
  "new_TWStatsEntry demo_env 1000 2 10 1000 ''int'' = Ret () demo_entry
   \<and> (\<exists>e. lost_run demo_entry = Ret e (12, 0))"
proof
  show "new_TWStatsEntry demo_env 1000 2 10 1000 ''int'' = Ret () demo_entry"
    by (simp add: new_TWStatsEntry_def type_map_has_def createInstance_def numeral_2_eq_2 demo_entry_def)
  show "\<exists>e. lost_run demo_entry = Ret e (12, 0)"
    by (simp add: lost_run_def demo_entry_def entry_eval)
qed

text \<open>
  Restoring the dump of an entry into an entry of the same shape gives back every window with
  its time stamp and the start time, for all three kinds of window.
\<close>

lemma tw_dump_roundtrip:
  assumes "entry_ok ty e" and "entry_ok ty g" and "num_windows g = num_windows e"
    and "\<forall>w \<in> set (stats_array e). member_fits E (snd w)"
  shows "entry_restore E t (fst (entry_dump e)) (snd (entry_dump e)) g =
    Ret (g\<lparr>stats_array := stats_array e, start_time := start_time e, last_cleaned := 0\<rparr>) ()"
  using assms by (rule entry_restore_dump)

text \<open>
  A restore of more windows than the ring has writes past the end of the ring (undefined
  behaviour): the lengths are never compared.
\<close>

lemma tw_restore_overrun:
  assumes "entry_ok ''int'' e" and "nat (num_windows e) < length statsvec"
  shows "entry_restore E t statsvec stime e = Undef"
  unfolding entry_restore_def
  by (rule restore_loop_too_many) (use assms in \<open>auto simp: entry_ok_def\<close>)

end
