(* ===== verification/TW_DB.thy ===== *)
theory TW_DB
  imports TW_Stats "HOL-Library.AList"
begin

text \<open>
  \<^verbatim>\<open>TWStatsDB\<close> of \<^verbatim>\<open>common/twmap.hh\<close>: the table from keys to fields to rings of windows, and the
  list of keys in the order of their last modification that drives expiry. The table is an
  association list with distinct keys (an \<^verbatim>\<open>unordered_map\<close> whose iteration order is never used);
  the fields of a key are a \<^verbatim>\<open>std::map\<close>. A list iterator kept in the table is the key it points
  to: the tracker holds every key once, so moving the iterator's node moves that key.
\<close>

type_synonym fields = "(string \<times> TWStatsEntry) list"

record TWStatsDB =
  key_tracker :: "string list"
  stats_db :: "(string \<times> fields) list"
  field_map :: "(string \<times> string) list"
  db_window_size :: int
  db_num_windows :: int
  map_size_soft :: "32 word"
  db_start_time :: int
  db_name :: string
  v4_prefix :: "8 word"
  v6_prefix :: "8 word"
  expire_ms :: "32 word"

definition new_TWStatsDB :: "int \<Rightarrow> string \<Rightarrow> int \<Rightarrow> int \<Rightarrow> TWStatsDB" where
  "new_TWStatsDB now name w_siz num_w =
     \<lparr>key_tracker = [], stats_db = [], field_map = [],
      db_window_size = (if w_siz \<noteq> 0 then w_siz else 1),
      db_num_windows = (if num_w \<noteq> 0 then num_w else 1),
      map_size_soft = 524288, db_start_time = now, db_name = name,
      v4_prefix = 32, v6_prefix = 128, expire_ms = 250\<rparr>"

definition db_setFields :: "(string \<times> string) list \<Rightarrow> TWStatsDB \<Rightarrow> TWStatsDB \<times> bool" where
  "db_setFields flds db =
     (if list_all (\<lambda>f. type_map_has (snd f)) flds then (db\<lparr>field_map := flds\<rparr>, True) else (db, False))"

definition touch :: "string \<Rightarrow> TWStatsDB \<Rightarrow> TWStatsDB" where
  "touch key db = db\<lparr>key_tracker := remove1 key (key_tracker db) @ [key]\<rparr>"

definition put_entry :: "string \<Rightarrow> string \<Rightarrow> TWStatsEntry \<Rightarrow> TWStatsDB \<Rightarrow> TWStatsDB" where
  "put_entry key field e db =
     db\<lparr>stats_db := AList.update key
          (sm_assign field e (case map_of (stats_db db) key of None \<Rightarrow> [] | Some fm \<Rightarrow> fm)) (stats_db db)\<rparr>"

text \<open>
  Running the caller's lambda on an entry that exists: \<open>fn\<close> is the call on the entry, and \<open>wr\<close>
  says whether the lambda goes on to move the key to the end of the tracker (it does not get there
  when \<open>fn\<close> throws).
\<close>

definition run_fn ::
    "(TWStatsEntry \<Rightarrow> (TWStatsEntry, 'v) outcome) \<Rightarrow> bool \<Rightarrow> string \<Rightarrow> string \<Rightarrow> TWStatsEntry \<Rightarrow> TWStatsDB
     \<Rightarrow> (TWStatsDB, 'v option) outcome" where
  "run_fn fn wr key field_name e db =
     (case fn e of
        Undef \<Rightarrow> Undef
      | Exn x e' \<Rightarrow> Exn x (put_entry key field_name e' db)
      | Ret e' v \<Rightarrow>
          (let db' = put_entry key field_name e' db in Ret (if wr then touch key db' else db') (Some v)))"

text \<open>
  \<^verbatim>\<open>_find_create_key_field\<close> at time \<open>t\<close>: \<open>None\<close> is the return value \<^verbatim>\<open>false\<close>. After creating what
  is missing it calls itself with \<^verbatim>\<open>create\<close> cleared.
\<close>

function find_create_key_field ::
    "sk_env \<Rightarrow> int \<Rightarrow> (TWStatsEntry \<Rightarrow> (TWStatsEntry, 'v) outcome) \<Rightarrow> bool \<Rightarrow> bool \<Rightarrow> string \<Rightarrow> string
     \<Rightarrow> TWStatsDB \<Rightarrow> (TWStatsDB, 'v option) outcome" where
  "find_create_key_field E t fn wr create key field_name db =
     (case map_of (field_map db) field_name of
        None \<Rightarrow> Ret db None
      | Some mytype \<Rightarrow>
          (if \<not> type_map_has mytype then Ret db None
           else
             (let mk = new_TWStatsEntry E t (db_num_windows db) (db_window_size db) (db_start_time db) mytype
              in case map_of (stats_db db) key of
                   Some fm \<Rightarrow>
                     (case map_of fm field_name of
                        Some e \<Rightarrow> run_fn fn wr key field_name e db
                      | None \<Rightarrow>
                          (if \<not> create then Ret db None
                           else (case mk of
                                   Undef \<Rightarrow> Undef
                                 | Exn x _ \<Rightarrow> Exn x db
                                 | Ret _ e \<Rightarrow>
                                     find_create_key_field E t fn wr False key field_name
                                       (db\<lparr>stats_db := AList.update key (sm_insert field_name e fm) (stats_db db)\<rparr>))))
                 | None \<Rightarrow>
                     (if \<not> create then Ret db None
                      else let db1 = db\<lparr>key_tracker := key_tracker db @ [key]\<rparr>
                           in (case mk of
                                 Undef \<Rightarrow> Undef
                               | Exn x _ \<Rightarrow> Exn x db1
                               | Ret _ e \<Rightarrow>
                                   find_create_key_field E t fn wr False key field_name
                                     (db1\<lparr>stats_db := AList.update key [(field_name, e)] (stats_db db1)\<rparr>))))))"
  by pat_completeness auto
termination
  by (relation "measure (\<lambda>(E, t, fn, wr, create, key, field_name, db). if create then 1 else 0)") auto

declare find_create_key_field.simps [simp del]

section \<open>Operations\<close>

text \<open>The time of the construction of a missing entry is the first reading of the clock.\<close>

definition db_add_int ::
    "sk_env \<Rightarrow> int \<times> int \<times> int \<Rightarrow> string \<Rightarrow> string \<Rightarrow> 32 word \<Rightarrow> TWStatsDB \<Rightarrow> (TWStatsDB, unit option) outcome" where
  "db_add_int E ts key field_name a =
     find_create_key_field E (fst ts) (entry_add_int a ts) True True key field_name"

definition db_add_str ::
    "sk_env \<Rightarrow> int \<times> int \<times> int \<Rightarrow> string \<Rightarrow> string \<Rightarrow> string \<Rightarrow> TWStatsDB \<Rightarrow> (TWStatsDB, unit option) outcome" where
  "db_add_str E ts key field_name s =
     find_create_key_field E (fst ts) (entry_add_str s ts) True True key field_name"

definition db_add_str_int ::
    "sk_env \<Rightarrow> int \<times> int \<times> int \<Rightarrow> string \<Rightarrow> string \<Rightarrow> string \<Rightarrow> 32 word \<Rightarrow> TWStatsDB \<Rightarrow> (TWStatsDB, unit option) outcome" where
  "db_add_str_int E ts key field_name s a =
     find_create_key_field E (fst ts) (entry_add_str_int s a ts) True True key field_name"

definition db_sub_int ::
    "sk_env \<Rightarrow> int \<times> int \<times> int \<Rightarrow> string \<Rightarrow> string \<Rightarrow> 32 word \<Rightarrow> TWStatsDB \<Rightarrow> (TWStatsDB, unit option) outcome" where
  "db_sub_int E ts key field_name a =
     find_create_key_field E (fst ts) (entry_sub_int a ts) True True key field_name"

definition db_sub_str ::
    "sk_env \<Rightarrow> int \<times> int \<times> int \<Rightarrow> string \<Rightarrow> string \<Rightarrow> string \<Rightarrow> TWStatsDB \<Rightarrow> (TWStatsDB, unit option) outcome" where
  "db_sub_str E ts key field_name s =
     find_create_key_field E (fst ts) (entry_sub_str s ts) True True key field_name"

definition db_incr where "db_incr E ts key field_name = db_add_int E ts key field_name 1"

definition db_decr where "db_decr E ts key field_name = db_sub_int E ts key field_name 1"

definition opt0 :: "(TWStatsDB, 32 word option) outcome \<Rightarrow> (TWStatsDB, 32 word) outcome" where
  "opt0 r = obind r (\<lambda>db v. Ret db (case v of None \<Rightarrow> 0 | Some x \<Rightarrow> x))"

definition db_get :: "sk_env \<Rightarrow> int \<times> int \<Rightarrow> string \<Rightarrow> string \<Rightarrow> TWStatsDB \<Rightarrow> (TWStatsDB, 32 word) outcome" where
  "db_get E ts key field_name db =
     opt0 (find_create_key_field E (fst ts) (entry_sum E ts) False False key field_name db)"

definition db_get_str ::
    "sk_env \<Rightarrow> int \<times> int \<Rightarrow> string \<Rightarrow> string \<Rightarrow> string \<Rightarrow> TWStatsDB \<Rightarrow> (TWStatsDB, 32 word) outcome" where
  "db_get_str E ts key field_name s db =
     opt0 (find_create_key_field E (fst ts) (entry_sum_str E s ts) False False key field_name db)"

definition db_get_current :: "sk_env \<Rightarrow> int \<times> int \<Rightarrow> string \<Rightarrow> string \<Rightarrow> TWStatsDB \<Rightarrow> (TWStatsDB, 32 word) outcome" where
  "db_get_current E ts key field_name db =
     opt0 (find_create_key_field E (fst ts) (entry_get E ts) False False key field_name db)"

definition db_get_current_str ::
    "sk_env \<Rightarrow> int \<times> int \<Rightarrow> string \<Rightarrow> string \<Rightarrow> string \<Rightarrow> TWStatsDB \<Rightarrow> (TWStatsDB, 32 word) outcome" where
  "db_get_current_str E ts key field_name s db =
     opt0 (find_create_key_field E (fst ts) (entry_get_str E s ts) False False key field_name db)"

definition db_get_windows ::
    "sk_env \<Rightarrow> int \<times> int \<Rightarrow> string \<Rightarrow> string \<Rightarrow> TWStatsDB \<Rightarrow> (TWStatsDB, 32 word list option) outcome" where
  "db_get_windows E ts key field_name =
     find_create_key_field E (fst ts) (entry_get_windows E ts) False False key field_name"

definition db_get_windows_str ::
    "sk_env \<Rightarrow> int \<times> int \<Rightarrow> string \<Rightarrow> string \<Rightarrow> string \<Rightarrow> TWStatsDB \<Rightarrow> (TWStatsDB, 32 word list option) outcome" where
  "db_get_windows_str E ts key field_name s =
     find_create_key_field E (fst ts) (entry_get_windows_str E s ts) False False key field_name"

text \<open>A loop over all fields of a key; \<open>clk i\<close> are the readings of the clock for the \<open>i\<close>-th field.\<close>

fun fields_loop ::
    "(int \<times> int \<Rightarrow> TWStatsEntry \<Rightarrow> (TWStatsEntry, 'v) outcome) \<Rightarrow> (nat \<Rightarrow> int \<times> int) \<Rightarrow> nat \<Rightarrow> fields
     \<Rightarrow> (fields, (string \<times> 'v) list) outcome" where
  "fields_loop f clk i [] = Ret [] []"
| "fields_loop f clk i ((fld, e) # fm) =
     (case f (clk i) e of
        Undef \<Rightarrow> Undef
      | Exn x e' \<Rightarrow> Exn x ((fld, e') # fm)
      | Ret e' v \<Rightarrow>
          (case fields_loop f clk (Suc i) fm of
             Undef \<Rightarrow> Undef
           | Exn x fm' \<Rightarrow> Exn x ((fld, e') # fm')
           | Ret fm' vs \<Rightarrow> Ret ((fld, e') # fm') ((fld, v) # vs)))"

definition set_fields :: "string \<Rightarrow> fields \<Rightarrow> TWStatsDB \<Rightarrow> TWStatsDB" where
  "set_fields key fm db = db\<lparr>stats_db := AList.update key fm (stats_db db)\<rparr>"

definition over_fields ::
    "(int \<times> int \<Rightarrow> TWStatsEntry \<Rightarrow> (TWStatsEntry, 'v) outcome) \<Rightarrow> (nat \<Rightarrow> int \<times> int) \<Rightarrow> string \<Rightarrow> TWStatsDB
     \<Rightarrow> (TWStatsDB, (string \<times> 'v) list option) outcome" where
  "over_fields f clk key db =
     (case map_of (stats_db db) key of
        None \<Rightarrow> Ret db None
      | Some fm \<Rightarrow>
          obind (map_state (\<lambda>fm'. set_fields key fm' db) (fields_loop f clk 0 fm)) (\<lambda>db' vs. Ret db' (Some vs)))"

definition db_get_all_fields ::
    "sk_env \<Rightarrow> (nat \<Rightarrow> int \<times> int) \<Rightarrow> string \<Rightarrow> TWStatsDB \<Rightarrow> (TWStatsDB, (string \<times> 32 word) list option) outcome" where
  "db_get_all_fields E clk key db = over_fields (entry_sum E) clk key db"

definition db_get_all_fields_windows ::
    "sk_env \<Rightarrow> (nat \<Rightarrow> int \<times> int) \<Rightarrow> string \<Rightarrow> TWStatsDB
     \<Rightarrow> (TWStatsDB, (string \<times> 32 word list) list option) outcome" where
  "db_get_all_fields_windows E clk key db = over_fields (entry_get_windows E) clk key db"

definition db_reset :: "string \<Rightarrow> TWStatsDB \<Rightarrow> TWStatsDB" where
  "db_reset key db =
     (case map_of (stats_db db) key of
        None \<Rightarrow> db
      | Some fm \<Rightarrow> set_fields key (map (\<lambda>(fld, e). (fld, entry_reset e)) fm) db)"

definition db_reset_field :: "string \<Rightarrow> string \<Rightarrow> TWStatsDB \<Rightarrow> TWStatsDB" where
  "db_reset_field key field_name db =
     (case map_of (stats_db db) key of
        None \<Rightarrow> db
      | Some fm \<Rightarrow>
          (case map_of fm field_name of
             None \<Rightarrow> db
           | Some e \<Rightarrow> put_entry key field_name (entry_reset e) db))"

definition set_map_size_soft :: "32 word \<Rightarrow> TWStatsDB \<Rightarrow> TWStatsDB" where
  "set_map_size_soft sz db = db\<lparr>map_size_soft := sz\<rparr>"

definition db_get_size :: "TWStatsDB \<Rightarrow> 32 word" where
  "db_get_size db = of_nat (length (stats_db db))"

definition db_get_max_size :: "TWStatsDB \<Rightarrow> 32 word" where
  "db_get_max_size db = map_size_soft db"

text \<open>
  One pass of the expiry thread: the \<^verbatim>\<open>while (num_expire--)\<close> loop removes the key at the front of
  the tracker from both containers, provided the table has it.
\<close>

fun expire_loop :: "nat \<Rightarrow> TWStatsDB \<Rightarrow> (TWStatsDB, unit) outcome" where
  "expire_loop 0 db = Ret db ()"
| "expire_loop (Suc num_expire) db =
     (case key_tracker db of
        [] \<Rightarrow> Undef
      | key # rest \<Rightarrow>
          (case map_of (stats_db db) key of
             Some _ \<Rightarrow>
               expire_loop num_expire
                 (db\<lparr>stats_db := AList.delete key (stats_db db), key_tracker := rest\<rparr>)
           | None \<Rightarrow> expire_loop num_expire db))"

definition expireEntries :: "TWStatsDB \<Rightarrow> (TWStatsDB, unit) outcome" where
  "expireEntries db =
     (let sz = length (stats_db db); soft = unat (map_size_soft db)
      in if sz \<le> soft then Ret db () else expire_loop ((sz - soft) mod 2 ^ 32) db)"

definition wait_interval :: "32 word \<Rightarrow> nat \<times> nat" where
  "wait_interval ms =
     (if 1000 \<le> ms then (unat (ms div 1000), unat ((ms mod 1000) * 1000000))
      else (0, unat (ms * 1000000)))"

type_synonym dump_entry = "(string \<times> (int \<times> TWStatsBufSerial)) list"

definition DBDumpEntry :: "string \<Rightarrow> TWStatsDB \<Rightarrow> dump_entry option" where
  "DBDumpEntry key db =
     map_option (map (\<lambda>(fld, e). (fld, (snd (entry_dump e), fst (entry_dump e))))) (map_of (stats_db db) key)"

definition DBGetEntry ::
    "sk_env \<Rightarrow> (nat \<Rightarrow> int \<times> int) \<Rightarrow> string \<Rightarrow> TWStatsDB
     \<Rightarrow> (TWStatsDB, (string \<times> 32 word list) list option) outcome" where
  "DBGetEntry E clk key db = db_get_all_fields_windows E clk key db"

fun restoreEntry :: "sk_env \<Rightarrow> int \<Rightarrow> string \<Rightarrow> dump_entry \<Rightarrow> TWStatsDB \<Rightarrow> (TWStatsDB, unit) outcome" where
  "restoreEntry E t key [] db = Ret db ()"
| "restoreEntry E t key ((fld, (stime, sv)) # entry) db =
     obind (find_create_key_field E t (entry_restore E t sv stime) True True key fld db)
       (\<lambda>db' _. restoreEntry E t key entry db')"

section \<open>The invariant of the database\<close>

text \<open>
  The tracker and the table hold the same keys, once each; the fields of a key are an ordered map;
  every entry satisfies \<open>good\<close>; the dimensions are usable and the registered field types exist.
\<close>

definition db_inv :: "(TWStatsEntry \<Rightarrow> bool) \<Rightarrow> TWStatsDB \<Rightarrow> bool" where
  "db_inv good db \<longleftrightarrow>
     distinct (key_tracker db) \<and> distinct (map fst (stats_db db))
     \<and> set (key_tracker db) = fst ` set (stats_db db)
     \<and> (\<forall>kf \<in> set (stats_db db). sm_ok (snd kf) \<and> (\<forall>fe \<in> set (snd kf). good (snd fe)))
     \<and> dims_ok (db_num_windows db) (db_window_size db)
     \<and> list_all (\<lambda>f. type_map_has (snd f)) (field_map db)"

lemma set_sm_assign_vals: "x \<in> set (sm_assign k v m) \<Longrightarrow> x = (k, v) \<or> x \<in> set m"
  by (induction k v m rule: sm_assign.induct) (auto split: if_splits)

lemma set_sm_insert_vals: "x \<in> set (sm_insert k v m) \<Longrightarrow> x = (k, v) \<or> x \<in> set m"
  by (induction k v m rule: sm_insert.induct) (auto split: if_splits)

lemma set_alist_update: "x \<in> set (AList.update k v al) \<Longrightarrow> x = (k, v) \<or> x \<in> set al"
  by (induction al) (auto split: if_splits)

lemma fst_set_alist_update: "fst ` set (AList.update k v al) = insert k (fst ` set al)"
  using dom_update[of k v al] by simp

lemma db_inv_fields:
  "db_inv good db \<Longrightarrow> map_of (stats_db db) key = Some fm \<Longrightarrow> sm_ok fm \<and> (\<forall>fe \<in> set fm. good (snd fe))"
  by (auto simp: db_inv_def dest: map_of_SomeD)

lemma set_fields_inv:
  assumes "db_inv good db" and "key \<in> fst ` set (stats_db db)" and "sm_ok fm" and "\<forall>fe \<in> set fm. good (snd fe)"
  shows "db_inv good (set_fields key fm db)"
  using assms
  by (auto simp: db_inv_def set_fields_def distinct_update fst_set_alist_update insert_absorb
      dest!: set_alist_update)

lemma put_entry_inv:
  assumes "db_inv good db" and "key \<in> fst ` set (stats_db db)" and "good e"
  shows "db_inv good (put_entry key field e db)"
proof -
  obtain fm where fm: "map_of (stats_db db) key = Some fm"
    using assms(2) by (metis map_of_eq_None_iff not_None_eq)
  have "put_entry key field e db = set_fields key (sm_assign field e fm) db"
    by (simp add: put_entry_def set_fields_def fm)
  moreover have "db_inv good (set_fields key (sm_assign field e fm) db)"
    using db_inv_fields[OF assms(1) fm] assms
    by (intro set_fields_inv) (auto dest: set_sm_assign_vals)
  ultimately show ?thesis by simp
qed

lemma put_entry_keys [simp]: "fst ` set (stats_db (put_entry key field e db)) = insert key (fst ` set (stats_db db))"
  by (simp add: put_entry_def fst_set_alist_update)

lemma put_entry_simps [simp]:
  "key_tracker (put_entry key field e db) = key_tracker db" "field_map (put_entry key field e db) = field_map db"
  "map_size_soft (put_entry key field e db) = map_size_soft db"
  "db_num_windows (put_entry key field e db) = db_num_windows db"
  "db_window_size (put_entry key field e db) = db_window_size db"
  "db_start_time (put_entry key field e db) = db_start_time db"
  by (simp_all add: put_entry_def)

lemma touch_simps [simp]:
  "stats_db (touch key db) = stats_db db" "field_map (touch key db) = field_map db"
  "map_size_soft (touch key db) = map_size_soft db"
  "db_num_windows (touch key db) = db_num_windows db" "db_window_size (touch key db) = db_window_size db"
  "db_start_time (touch key db) = db_start_time db"
  by (simp_all add: touch_def)

lemma touch_inv: "db_inv good db \<Longrightarrow> key \<in> fst ` set (stats_db db) \<Longrightarrow> db_inv good (touch key db)"
  by (auto simp: db_inv_def touch_def)

text \<open>What \<open>find_create_key_field\<close> does, in one step: nothing, or the lambda on an entry of a sound database.\<close>

lemma find_existing:
  "map_of (field_map db) field = Some ty \<Longrightarrow> type_map_has ty \<Longrightarrow> map_of (stats_db db) key = Some fm \<Longrightarrow>
   map_of fm field = Some e \<Longrightarrow>
   find_create_key_field E t fn wr create key field db = run_fn fn wr key field e db"
  by (subst find_create_key_field.simps) simp

definition add_key :: "string \<Rightarrow> string \<Rightarrow> TWStatsEntry \<Rightarrow> TWStatsDB \<Rightarrow> TWStatsDB" where
  "add_key key field e db =
     db\<lparr>key_tracker := key_tracker db @ [key], stats_db := AList.update key [(field, e)] (stats_db db)\<rparr>"

definition add_field :: "string \<Rightarrow> string \<Rightarrow> TWStatsEntry \<Rightarrow> fields \<Rightarrow> TWStatsDB \<Rightarrow> TWStatsDB" where
  "add_field key field e fm db = db\<lparr>stats_db := AList.update key (sm_insert field e fm) (stats_db db)\<rparr>"

lemma find_new_field:
  assumes "map_of (field_map db) field = Some ty" "type_map_has ty" "map_of (stats_db db) key = Some fm"
    "map_of fm field = None" "sm_ok fm"
    "new_TWStatsEntry E t (db_num_windows db) (db_window_size db) (db_start_time db) ty = Ret () e"
  shows "find_create_key_field E t fn wr True key field db = run_fn fn wr key field e (add_field key field e fm db)"
proof -
  have "map_of (sm_insert field e fm) field = Some e" using assms(4,5) by (simp add: map_of_sm_insert)
  then have "find_create_key_field E t fn wr False key field (add_field key field e fm db) =
    run_fn fn wr key field e (add_field key field e fm db)"
    using assms(1,2) by (intro find_existing[where ty = ty]) (auto simp: add_field_def update_conv')
  then show ?thesis using assms by (subst find_create_key_field.simps) (simp add: add_field_def)
qed

lemma find_new_key:
  assumes "map_of (field_map db) field = Some ty" "type_map_has ty" "map_of (stats_db db) key = None"
    "new_TWStatsEntry E t (db_num_windows db) (db_window_size db) (db_start_time db) ty = Ret () e"
  shows "find_create_key_field E t fn wr True key field db = run_fn fn wr key field e (add_key key field e db)"
proof -
  have "find_create_key_field E t fn wr False key field (add_key key field e db) =
    run_fn fn wr key field e (add_key key field e db)"
    using assms(1,2) by (intro find_existing[where ty = ty]) (auto simp: add_key_def update_conv')
  then show ?thesis using assms by (subst find_create_key_field.simps) (simp add: add_key_def Let_def)
qed

lemma add_key_inv:
  "db_inv good db \<Longrightarrow> map_of (stats_db db) key = None \<Longrightarrow> good e \<Longrightarrow> db_inv good (add_key key field e db)"
  by (auto simp: db_inv_def add_key_def distinct_update fst_set_alist_update map_of_eq_None_iff
      dest!: set_alist_update)

lemma add_field_inv:
  assumes "db_inv good db" "map_of (stats_db db) key = Some fm" "good e"
  shows "db_inv good (add_field key field e fm db)"
proof -
  have "add_field key field e fm db = set_fields key (sm_insert field e fm) db"
    by (simp add: add_field_def set_fields_def)
  moreover have "db_inv good (set_fields key (sm_insert field e fm) db)"
    using db_inv_fields[OF assms(1,2)] assms
    by (intro set_fields_inv) (force dest: set_sm_insert_vals map_of_SomeD)+
  ultimately show ?thesis by simp
qed

lemma key_in_add_key: "key \<in> fst ` set (stats_db (add_key key field e db))"
  by (simp add: add_key_def fst_set_alist_update)

lemma key_in_add_field: "key \<in> fst ` set (stats_db (add_field key field e fm db))"
  by (simp add: add_field_def fst_set_alist_update)

lemma find_create_cases:
  assumes inv: "db_inv good db"
    and mk: "\<And>ty. type_map_has ty \<Longrightarrow> create \<Longrightarrow>
      \<exists>e. new_TWStatsEntry E t (db_num_windows db) (db_window_size db) (db_start_time db) ty = Ret () e \<and> good e"
  shows "find_create_key_field E t fn wr create key field db = Ret db None
    \<or> (\<exists>db1 e. db_inv good db1 \<and> key \<in> fst ` set (stats_db db1) \<and> good e
        \<and> find_create_key_field E t fn wr create key field db = run_fn fn wr key field e db1)"
proof (cases "map_of (field_map db) field")
  case None
  then show ?thesis by (subst find_create_key_field.simps) simp
next
  case (Some ty)
  then have ty: "type_map_has ty"
    using inv by (force simp: db_inv_def list_all_iff dest: map_of_SomeD)
  show ?thesis
  proof (cases "map_of (stats_db db) key")
    case None
    show ?thesis
    proof (cases create)
      case True
      then obtain e where "new_TWStatsEntry E t (db_num_windows db) (db_window_size db) (db_start_time db) ty = Ret () e" "good e"
        using mk[OF ty] by blast
      then show ?thesis
        using True find_new_key[OF Some ty None, of E t e fn wr] add_key_inv[OF inv None] key_in_add_key
        by (intro disjI2 exI[of _ "add_key key field e db"] exI[of _ e]) simp
    qed (use Some ty None in \<open>subst find_create_key_field.simps, simp\<close>)
  next
    case fm: (Some fm)
    note fmok = db_inv_fields[OF inv fm]
    have key: "key \<in> fst ` set (stats_db db)" using fm by (force dest: map_of_SomeD)
    show ?thesis
    proof (cases "map_of fm field")
      case None
      show ?thesis
      proof (cases create)
        case True
        then obtain e where "new_TWStatsEntry E t (db_num_windows db) (db_window_size db) (db_start_time db) ty = Ret () e" "good e"
          using mk[OF ty] by blast
        then show ?thesis
          using True find_new_field[OF Some ty fm None, of E t e fn wr] fmok add_field_inv[OF inv fm] key_in_add_field
          by (intro disjI2 exI[of _ "add_field key field e fm db"] exI[of _ e]) simp
      qed (use Some ty None fm in \<open>subst find_create_key_field.simps, simp\<close>)
    next
      case e: (Some e)
      then have "good e" using fmok by (force dest: map_of_SomeD)
      then show ?thesis using find_existing[OF Some ty fm e] inv key by blast
    qed
  qed
qed


text \<open>
  The contract of a call the database makes on an entry: it is defined on good entries and leaves a
  good entry, whether it returns or throws.
\<close>

locale entry_fn =
  fixes good :: "TWStatsEntry \<Rightarrow> bool" and fn :: "TWStatsEntry \<Rightarrow> (TWStatsEntry, 'v) outcome"
  assumes fn_good: "good e \<Longrightarrow> \<exists>e'. final_state (fn e) = Some e' \<and> good e'"
begin

lemma run_fn_inv:
  assumes "db_inv good db" "key \<in> fst ` set (stats_db db)" "good e"
  shows "\<exists>db'. final_state (run_fn fn wr key field e db) = Some db' \<and> db_inv good db'"
proof -
  obtain e' where "final_state (fn e) = Some e'" "good e'" using fn_good[OF assms(3)] by blast
  then show ?thesis
    using put_entry_inv[OF assms(1,2), of e' field] touch_inv[of good "put_entry key field e' db" key]
    by (cases "fn e") (auto simp: run_fn_def Let_def)
qed

lemma find_create_inv:
  assumes inv: "db_inv good db"
    and mk: "\<And>ty. type_map_has ty \<Longrightarrow> create \<Longrightarrow>
      \<exists>e. new_TWStatsEntry E t (db_num_windows db) (db_window_size db) (db_start_time db) ty = Ret () e \<and> good e"
  shows "\<exists>db'. final_state (find_create_key_field E t fn wr create key field db) = Some db' \<and> db_inv good db'"
proof -
  consider "find_create_key_field E t fn wr create key field db = Ret db None"
    | db1 e where "db_inv good db1" "key \<in> fst ` set (stats_db db1)" "good e"
        "find_create_key_field E t fn wr create key field db = run_fn fn wr key field e db1"
    using find_create_cases[OF inv mk] by blast
  then show ?thesis using run_fn_inv inv by cases auto
qed

end

lemma fields_loop_good:
  assumes f: "\<And>i. entry_fn good (f (clk i))"
  shows "\<forall>fe \<in> set fm. good (snd fe) \<Longrightarrow> \<exists>fm'. final_state (fields_loop f clk i fm) = Some fm'
    \<and> map fst fm' = map fst fm \<and> (\<forall>fe \<in> set fm'. good (snd fe))"
proof (induction fm arbitrary: i)
  case (Cons fe fm)
  obtain fld e where fe: "fe = (fld, e)" by (cases fe)
  obtain e' where "final_state (f (clk i) e) = Some e'" "good e'"
    using entry_fn.fn_good[OF f] Cons.prems fe by fastforce
  moreover obtain fm' where "final_state (fields_loop f clk (Suc i) fm) = Some fm'"
    "map fst fm' = map fst fm" "\<forall>fe \<in> set fm'. good (snd fe)" using Cons.IH[of "Suc i"] Cons.prems by auto
  ultimately show ?case
    using Cons.prems fe by (cases "f (clk i) e"; cases "fields_loop f clk (Suc i) fm") auto
qed simp

lemma over_fields_inv:
  assumes f: "\<And>i. entry_fn good (f (clk i))" and inv: "db_inv good db"
  shows "\<exists>db'. final_state (over_fields f clk key db) = Some db' \<and> db_inv good db'"
proof (cases "map_of (stats_db db) key")
  case (Some fm)
  then obtain fm' where fm': "final_state (fields_loop f clk 0 fm) = Some fm'"
    "map fst fm' = map fst fm" "\<forall>fe \<in> set fm'. good (snd fe)"
    using fields_loop_good[where f = f and clk = clk and fm = fm and i = 0, OF f] db_inv_fields[OF inv Some]
    by auto
  have "key \<in> fst ` set (stats_db db)" using Some by (force dest: map_of_SomeD)
  moreover have "sm_ok fm'" using fm'(2) db_inv_fields[OF inv Some] by (simp add: sm_ok_def)
  ultimately have "db_inv good (set_fields key fm' db)" using set_fields_inv[OF inv] fm'(3) by blast
  then show ?thesis
    using fm'(1) Some by (cases "fields_loop f clk 0 fm") (auto simp: over_fields_def)
qed (use inv in \<open>simp add: over_fields_def\<close>)

section \<open>Every call keeps the invariant\<close>

definition env_ok :: "sk_env \<Rightarrow> bool" where
  "env_ok E \<longleftrightarrow> (let b = unat (ucast (num_bits E) :: 8 word) in 4 \<le> b \<and> b \<le> 30)
     \<and> cm_range E (cm_eps E) (cm_gamma E) \<and> 0 < cm_width E (cm_eps E)"

definition good_entry :: "int \<Rightarrow> TWStatsEntry \<Rightarrow> bool" where
  "good_entry now e \<longleftrightarrow> (\<exists>ty \<in> {''int'', ''hll'', ''countmin''}. entry_ok ty e) \<and> start_time e \<le> now"

lemma createInstance_returns:
  assumes "env_ok E"
  shows "\<exists>m. createInstance E t ty = Ret () m"
  using assms
  by (simp add: createInstance_def env_ok_def new_HLL_member_def new_HyperLogLog_def Let_def
      new_CountMin_member_def new_CountMinSketch_def)

lemma create_windows_returns:
  assumes "env_ok E"
  shows "\<exists>arr. create_windows E t ty n = Ret () arr"
proof (induction n)
  case (Suc n)
  then show ?case using createInstance_returns[OF assms, of t ty] by force
qed simp

lemma new_entry_returns:
  assumes E: "env_ok E" and d: "dims_ok nw ws" and ty: "type_map_has ty"
  obtains e where "new_TWStatsEntry E t nw ws st ty = Ret () e" "entry_ok ty e"
    "0 < st \<Longrightarrow> time_ok st e" "start_time e = st \<and> window_size e = ws \<and> num_windows e = nw"
proof -
  obtain arr where "create_windows E t ty (nat nw) = Ret () arr" using create_windows_returns[OF E] by blast
  then obtain e where e: "new_TWStatsEntry E t nw ws st ty = Ret () e"
    using ty by (simp add: new_TWStatsEntry_def)
  have w: "0 < cm_width E (cm_eps E)" using E by (simp add: env_ok_def)
  show ?thesis using that[OF e] new_entry_ok[OF e d ty] w by blast
qed

lemma mk_good:
  assumes E: "env_ok E" and inv: "db_inv good db" and st: "db_start_time db \<le> now" and ty: "type_map_has ty"
  shows "\<exists>e. new_TWStatsEntry E t (db_num_windows db) (db_window_size db) (db_start_time db) ty = Ret () e \<and> good_entry now e"
proof -
  have "dims_ok (db_num_windows db) (db_window_size db)" using inv by (simp add: db_inv_def)
  then show ?thesis
    using new_entry_returns[OF E _ ty] ty st by (metis good_entry_def type_map_has_def)
qed

lemma windows_loop_start: "windows_loop g k i e = Ret e' vs \<Longrightarrow> start_time e' = start_time e"
proof (induction k arbitrary: i e vs)
  case (Suc k)
  then show ?case by (auto simp: Let_def split: option.splits prod.splits)
qed simp

lemma windows_gen_start:
  "final_state (entry_get_windows_gen g ts e) = Some e' \<Longrightarrow> start_time e' = start_time e"
  by (cases "entry_get_windows_gen g ts e")
    (auto simp: entry_get_windows_gen_def Let_def split: option.splits dest: windows_loop_start)

lemma modify_start: "final_state (entry_modify f ts e) = Some e' \<Longrightarrow> start_time e' = start_time e"
  by (auto simp: entry_modify_def at_current_def Let_def split: prod.splits option.splits sum.splits)

lemma entry_fnI:
  assumes "\<And>ty e. entry_ok ty e \<Longrightarrow> start_time e \<le> t2 \<Longrightarrow> \<exists>e'. final_state (fn e) = Some e' \<and> entry_ok ty e'"
    and "\<And>e e'. final_state (fn e) = Some e' \<Longrightarrow> start_time e' = start_time e"
  shows "entry_fn (good_entry t2) fn"
  by unfold_locales (use assms in \<open>fastforce simp: good_entry_def\<close>)

interpretation fn_add_int: entry_fn "good_entry t2" "entry_add_int a (t1, t2, t3)"
  unfolding entry_add_int_def by (rule entry_fnI) (rule add_int.modify_ok, auto dest: modify_start)

interpretation fn_add_str: entry_fn "good_entry t2" "entry_add_str s (t1, t2, t3)"
  unfolding entry_add_str_def by (rule entry_fnI) (rule add_str.modify_ok, auto dest: modify_start)

interpretation fn_add_str_int: entry_fn "good_entry t2" "entry_add_str_int s a (t1, t2, t3)"
  unfolding entry_add_str_int_def by (rule entry_fnI) (rule add_str_int.modify_ok, auto dest: modify_start)

interpretation fn_sub_int: entry_fn "good_entry t2" "entry_sub_int a (t1, t2, t3)"
  unfolding entry_sub_int_def by (rule entry_fnI) (rule sub_int.modify_ok, auto dest: modify_start)

interpretation fn_sub_str: entry_fn "good_entry t2" "entry_sub_str s (t1, t2, t3)"
  unfolding entry_sub_str_def by (rule entry_fnI) (rule sub_str.modify_ok, auto dest: modify_start)

interpretation fn_get: entry_fn "good_entry t2" "entry_get E (t1, t2)"
proof (rule entry_fnI)
  show "\<exists>e'. final_state (entry_get E (t1, t2) e) = Some e' \<and> entry_ok ty e'"
    if "entry_ok ty e" "start_time e \<le> t2" for ty e
    using clean_windows_ok[OF that(1), of t1] by (simp add: entry_get_def at_current_eq[OF that])
  show "start_time e' = start_time e" if "final_state (entry_get E (t1, t2) e) = Some e'" for e e'
    using that by (auto simp: entry_get_def at_current_def Let_def split: option.splits)
qed

interpretation fn_get_str: entry_fn "good_entry t2" "entry_get_str E s (t1, t2)"
proof (rule entry_fnI)
  show "\<exists>e'. final_state (entry_get_str E s (t1, t2) e) = Some e' \<and> entry_ok ty e'"
    if "entry_ok ty e" "start_time e \<le> t2" for ty e
    using entry_get_str_ok[OF that] by simp
  show "start_time e' = start_time e" if "final_state (entry_get_str E s (t1, t2) e) = Some e'" for e e'
    using that by (auto simp: entry_get_str_def at_current_def Let_def case_prod_beta split: option.splits)
qed

interpretation fn_get_windows: entry_fn "good_entry t2" "entry_get_windows E (t1, t2)"
proof (rule entry_fnI)
  show "\<exists>e'. final_state (entry_get_windows E (t1, t2) e) = Some e' \<and> entry_ok ty e'"
    if "entry_ok ty e" "start_time e \<le> t2" for ty e
    using get_windows_gen_ok[OF _ that, of "\<lambda>m. (m, member_get E m)" t1] by (auto simp: entry_get_windows_def)
  show "start_time e' = start_time e" if "final_state (entry_get_windows E (t1, t2) e) = Some e'" for e e'
    using that windows_gen_start by (simp add: entry_get_windows_def)
qed

interpretation fn_get_windows_str: entry_fn "good_entry t2" "entry_get_windows_str E s (t1, t2)"
proof (rule entry_fnI)
  show "\<exists>e'. final_state (entry_get_windows_str E s (t1, t2) e) = Some e' \<and> entry_ok ty e'"
    if "entry_ok ty e" "start_time e \<le> t2" for ty e
    using get_windows_gen_ok[OF _ that, of "member_get_str E s" t1] by (auto simp: entry_get_windows_str_def)
  show "start_time e' = start_time e" if "final_state (entry_get_windows_str E s (t1, t2) e) = Some e'" for e e'
    using that windows_gen_start by (simp add: entry_get_windows_str_def)
qed

interpretation fn_sum_str: entry_fn "good_entry t2" "entry_sum_str E s (t1, t2)"
proof (rule entry_fnI)
  show "\<exists>e'. final_state (entry_sum_str E s (t1, t2) e) = Some e' \<and> entry_ok ty e'"
    if "entry_ok ty e" "start_time e \<le> t2" for ty e
    using entry_sum_str_ok[OF that] by simp
  show "start_time e' = start_time e" if "final_state (entry_sum_str E s (t1, t2) e) = Some e'" for e e'
    using that by (auto simp: entry_sum_str_def Let_def split: option.splits if_splits)
qed

lemma fn_sum:
  assumes "env_ok E"
  shows "entry_fn (good_entry t2) (entry_sum E (t1, t2))"
proof (rule entry_fnI)
  show "\<exists>e'. final_state (entry_sum E (t1, t2) e) = Some e' \<and> entry_ok ty e'"
    if "entry_ok ty e" "start_time e \<le> t2" for ty e
    using entry_sum_ok[OF that] assms by (simp add: env_ok_def Let_def)
  show "start_time e' = start_time e" if "final_state (entry_sum E (t1, t2) e) = Some e'" for e e'
    using that by (auto simp: entry_sum_def Let_def split: option.splits if_splits outcome.splits)
qed


datatype db_call =
    DbAddInt string string "32 word" | DbAddStr string string string
  | DbAddStrInt string string string "32 word"
  | DbSubInt string string "32 word" | DbSubStr string string string
  | DbGet string string | DbGetStr string string string
  | DbGetCurrent string string | DbGetCurrentStr string string string
  | DbGetWindows string string | DbGetWindowsStr string string string
  | DbGetAllFields string | DbGetAllFieldsWindows string
  | DbReset string | DbResetField string string
  | DbExpire | DbSetSize "32 word" | DbSetFields "(string \<times> string) list"

fun db_exec :: "sk_env \<Rightarrow> db_call \<Rightarrow> int \<times> int \<times> int \<Rightarrow> TWStatsDB \<Rightarrow> TWStatsDB option" where
  "db_exec E (DbAddInt k f a) ts db = final_state (db_add_int E ts k f a db)"
| "db_exec E (DbAddStr k f s) ts db = final_state (db_add_str E ts k f s db)"
| "db_exec E (DbAddStrInt k f s a) ts db = final_state (db_add_str_int E ts k f s a db)"
| "db_exec E (DbSubInt k f a) ts db = final_state (db_sub_int E ts k f a db)"
| "db_exec E (DbSubStr k f s) ts db = final_state (db_sub_str E ts k f s db)"
| "db_exec E (DbGet k f) (t1, t2, _) db = final_state (db_get E (t1, t2) k f db)"
| "db_exec E (DbGetStr k f s) (t1, t2, _) db = final_state (db_get_str E (t1, t2) k f s db)"
| "db_exec E (DbGetCurrent k f) (t1, t2, _) db = final_state (db_get_current E (t1, t2) k f db)"
| "db_exec E (DbGetCurrentStr k f s) (t1, t2, _) db = final_state (db_get_current_str E (t1, t2) k f s db)"
| "db_exec E (DbGetWindows k f) (t1, t2, _) db = final_state (db_get_windows E (t1, t2) k f db)"
| "db_exec E (DbGetWindowsStr k f s) (t1, t2, _) db = final_state (db_get_windows_str E (t1, t2) k f s db)"
| "db_exec E (DbGetAllFields k) (t1, t2, _) db = final_state (db_get_all_fields E (\<lambda>_. (t1, t2)) k db)"
| "db_exec E (DbGetAllFieldsWindows k) (t1, t2, _) db =
     final_state (db_get_all_fields_windows E (\<lambda>_. (t1, t2)) k db)"
| "db_exec E (DbReset k) ts db = Some (db_reset k db)"
| "db_exec E (DbResetField k f) ts db = Some (db_reset_field k f db)"
| "db_exec E DbExpire ts db = final_state (expireEntries db)"
| "db_exec E (DbSetSize n) ts db = Some (set_map_size_soft n db)"
| "db_exec E (DbSetFields flds) ts db = Some (fst (db_setFields flds db))"

lemma final_state_opt0 [simp]: "final_state (opt0 r) = final_state r"
  by (cases r) (auto simp: opt0_def)

lemma good_entry_reset: "good_entry now e \<Longrightarrow> good_entry now (entry_reset e)"
  using entry_reset_ok by (auto simp: good_entry_def) (auto simp: entry_reset_def)

lemma db_reset_inv: "db_inv (good_entry now) db \<Longrightarrow> db_inv (good_entry now) (db_reset key db)"
proof (cases "map_of (stats_db db) key")
  case (Some fm)
  assume inv: "db_inv (good_entry now) db"
  have "sm_ok (map (\<lambda>(fld, e). (fld, entry_reset e)) fm)"
    using sm_ok_map_value[of fm "\<lambda>_. entry_reset"] db_inv_fields[OF inv Some] by simp
  moreover have "key \<in> fst ` set (stats_db db)" using Some by (force dest: map_of_SomeD)
  moreover have "\<forall>fe \<in> set (map (\<lambda>(fld, e). (fld, entry_reset e)) fm). good_entry now (snd fe)"
    using db_inv_fields[OF inv Some] good_entry_reset by fastforce
  ultimately show ?thesis
    using Some set_fields_inv[OF inv] by (simp add: db_reset_def)
qed (simp add: db_reset_def)

lemma db_reset_field_inv: "db_inv (good_entry now) db \<Longrightarrow> db_inv (good_entry now) (db_reset_field key f db)"
proof -
  assume inv: "db_inv (good_entry now) db"
  have "good_entry now e" if "map_of (stats_db db) key = Some fm" "map_of fm f = Some e" for fm e
    using db_inv_fields[OF inv that(1)] that(2) by (force dest: map_of_SomeD)
  then show ?thesis
    using inv by (auto simp: db_reset_field_def split: option.splits
        intro!: put_entry_inv good_entry_reset) (force dest: map_of_SomeD)
qed

lemma set_alist_delete: "set (AList.delete k al) = {x \<in> set al. fst x \<noteq> k}"
  by (auto simp: AList.delete_eq)

lemma expire_loop_spec:
  "db_inv good db \<Longrightarrow> n \<le> length (key_tracker db) \<Longrightarrow>
   \<exists>db'. expire_loop n db = Ret db' () \<and> db_inv good db'
     \<and> key_tracker db' = drop n (key_tracker db)
     \<and> map_of (stats_db db') = (map_of (stats_db db)) |` (- set (take n (key_tracker db)))
     \<and> field_map db' = field_map db \<and> db_start_time db' = db_start_time db
     \<and> map_size_soft db' = map_size_soft db"
proof (induction n arbitrary: db)
  case (Suc n)
  then obtain key rest where kt: "key_tracker db = key # rest" by (cases "key_tracker db") auto
  have "key \<in> fst ` set (stats_db db)" using Suc.prems(1) kt by (auto simp: db_inv_def)
  then obtain fm where fm: "map_of (stats_db db) key = Some fm" by (metis map_of_eq_None_iff not_None_eq)
  let ?db = "db\<lparr>stats_db := AList.delete key (stats_db db), key_tracker := rest\<rparr>"
  have "db_inv good ?db"
    using Suc.prems(1) kt by (auto simp: db_inv_def distinct_delete set_alist_delete) force
  from Suc.IH[OF this] Suc.prems(2) kt show ?case
    using fm by (auto simp: delete_conv' restrict_map_def fun_eq_iff)
qed (simp add: restrict_map_def fun_eq_iff)

lemma db_inv_size: "db_inv good db \<Longrightarrow> length (stats_db db) = length (key_tracker db)"
  unfolding db_inv_def by (metis distinct_card length_map set_map)


lemma expireEntries_spec:
  assumes inv: "db_inv good db" and sz: "length (stats_db db) < 2 ^ 32"
  shows "\<exists>db'. expireEntries db = Ret db' () \<and> db_inv good db'
    \<and> (let n = length (stats_db db) - unat (map_size_soft db)
       in key_tracker db' = drop n (key_tracker db)
          \<and> map_of (stats_db db') = (map_of (stats_db db)) |` (- set (take n (key_tracker db))))
    \<and> length (stats_db db') = min (length (stats_db db)) (unat (map_size_soft db))
    \<and> db_start_time db' = db_start_time db"
proof (cases "length (stats_db db) \<le> unat (map_size_soft db)")
  case True
  then show ?thesis using inv by (simp add: expireEntries_def restrict_map_def fun_eq_iff)
next
  case False
  let ?n = "length (stats_db db) - unat (map_size_soft db)"
  have "?n mod 2 ^ 32 = ?n" using sz by simp
  moreover obtain db' where db': "expire_loop ?n db = Ret db' ()" "db_inv good db'"
    "key_tracker db' = drop ?n (key_tracker db)"
    "map_of (stats_db db') = (map_of (stats_db db)) |` (- set (take ?n (key_tracker db)))"
    "db_start_time db' = db_start_time db"
    using expire_loop_spec[OF inv, of ?n] db_inv_size[OF inv] by auto
  moreover have "length (stats_db db') = unat (map_size_soft db)"
    using db_inv_size[OF db'(2)] db_inv_size[OF inv] db'(3) False by simp
  ultimately show ?thesis using False by (simp add: expireEntries_def Let_def)
qed

lemma db_inv_mono: "db_inv (good_entry now) db \<Longrightarrow> now \<le> t \<Longrightarrow> db_inv (good_entry t) db"
  by (fastforce simp: db_inv_def good_entry_def)

lemma expire_loop_start: "expire_loop n db = Ret db' () \<Longrightarrow> db_start_time db' = db_start_time db"
  by (induction n arbitrary: db) (auto split: list.splits option.splits)

lemma db_exec_inv:
  assumes E: "env_ok E" and inv: "db_inv (good_entry t2) db" and st: "db_start_time db \<le> t2"
    and sz: "call = DbExpire \<Longrightarrow> length (stats_db db) < 2 ^ 32"
  shows "\<exists>db'. db_exec E call (t1, t2, t3) db = Some db' \<and> db_inv (good_entry t2) db'"
proof -
  have all: "entry_fn (good_entry t2) (entry_sum E ((\<lambda>_. (t1, t2)) i))" for i :: nat
    using fn_sum[OF E] by simp
  have allw: "entry_fn (good_entry t2) (entry_get_windows E ((\<lambda>_. (t1, t2)) i))" for i :: nat
    using fn_get_windows.entry_fn_axioms by simp
  note mk = mk_good[OF E inv st]
  note fci = entry_fn.find_create_inv[OF _ inv mk]
  show ?thesis
  proof (cases call)
    case (DbGetAllFields k)
    then show ?thesis
      using over_fields_inv[where f = "entry_sum E" and clk = "\<lambda>_. (t1, t2)", OF all inv, of k]
      by (simp add: db_get_all_fields_def)
  next
    case (DbGetAllFieldsWindows k)
    then show ?thesis
      using over_fields_inv[where f = "entry_get_windows E" and clk = "\<lambda>_. (t1, t2)", OF allw inv, of k]
      by (simp add: db_get_all_fields_windows_def)
  next
    case DbExpire
    then show ?thesis using expireEntries_spec[OF inv sz] by auto
  next
    case (DbSetFields flds)
    then show ?thesis using inv by (auto simp: db_setFields_def db_inv_def)
  next
    case (DbSetSize n)
    then show ?thesis using inv by (simp add: set_map_size_soft_def db_inv_def)
  next
    case (DbReset k)
    then show ?thesis using db_reset_inv[OF inv] by simp
  next
    case (DbResetField k f)
    then show ?thesis using db_reset_field_inv[OF inv] by simp
  next
    case (DbGet k f)
    then show ?thesis using fci[OF fn_sum[OF E]] by (simp add: db_get_def)
  qed (auto simp: db_add_int_def db_add_str_def db_add_str_int_def db_sub_int_def db_sub_str_def
      db_get_str_def db_get_current_def db_get_current_str_def db_get_windows_def db_get_windows_str_def
      intro!: fci fn_add_int.entry_fn_axioms fn_add_str.entry_fn_axioms fn_add_str_int.entry_fn_axioms
        fn_sub_int.entry_fn_axioms fn_sub_str.entry_fn_axioms fn_sum_str.entry_fn_axioms
        fn_get.entry_fn_axioms fn_get_str.entry_fn_axioms fn_get_windows.entry_fn_axioms
        fn_get_windows_str.entry_fn_axioms)
qed

section \<open>What a call leaves alone\<close>

text \<open>
  \<open>frame K db db'\<close>: the settings of the database are the same, and no key outside \<open>K\<close> has been added.
\<close>

definition settings :: "TWStatsDB \<Rightarrow> TWStatsDB" where
  "settings db = db\<lparr>key_tracker := [], stats_db := []\<rparr>"

definition frame :: "string set \<Rightarrow> TWStatsDB \<Rightarrow> TWStatsDB \<Rightarrow> bool" where
  "frame K db db' \<longleftrightarrow>
     settings db' = settings db \<and> fst ` set (stats_db db') \<subseteq> fst ` set (stats_db db) \<union> K"

lemma frame_refl [simp]: "frame K db db"
  by (simp add: frame_def)

lemma frame_trans: "frame K a b \<Longrightarrow> frame K b c \<Longrightarrow> frame K a c"
  unfolding frame_def by (elim conjE, intro conjI) (simp, blast)

lemma settings_eq:
  assumes "settings db' = settings db"
  shows "field_map db' = field_map db \<and> db_start_time db' = db_start_time db
     \<and> v4_prefix db' = v4_prefix db \<and> v6_prefix db' = v6_prefix db \<and> map_size_soft db' = map_size_soft db"
  using arg_cong[OF assms, of field_map] arg_cong[OF assms, of db_start_time] arg_cong[OF assms, of v4_prefix]
    arg_cong[OF assms, of v6_prefix] arg_cong[OF assms, of map_size_soft]
  by (simp add: settings_def)

lemma frame_put_entry: "frame {key} db (put_entry key field e db)"
  by (auto simp: frame_def settings_def put_entry_def fst_set_alist_update)

lemma frame_touch: "frame K db (touch key db)"
  by (auto simp: frame_def settings_def touch_def)

lemma frame_set_fields: "frame {key} db (set_fields key fm db)"
  by (auto simp: frame_def settings_def set_fields_def fst_set_alist_update)

lemma run_fn_frame: "final_state (run_fn fn wr key field e db) = Some db' \<Longrightarrow> frame {key} db db'"
  using frame_put_entry frame_trans[OF frame_put_entry frame_touch]
  by (cases "fn e") (auto simp: run_fn_def Let_def)

lemma find_frame:
  "final_state (find_create_key_field E t fn wr False key field db) = Some db' \<Longrightarrow> frame {key} db db'"
  by (subst (asm) find_create_key_field.simps)
    (auto simp: Let_def split: option.splits if_splits dest: run_fn_frame)

lemma find_create_frame:
  "final_state (find_create_key_field E t fn wr create key field db) = Some db' \<Longrightarrow> frame {key} db db'"
proof (cases create)
  case True
  have new: "frame {key} db (db\<lparr>key_tracker := tr, stats_db := AList.update key fm (stats_db db)\<rparr>)"
    "frame {key} db (db\<lparr>stats_db := AList.update key fm (stats_db db)\<rparr>)"
    "frame {key} db (db\<lparr>key_tracker := tr\<rparr>)" for tr fm
    by (auto simp: frame_def settings_def fst_set_alist_update)
  show "final_state (find_create_key_field E t fn wr create key field db) = Some db' \<Longrightarrow> frame {key} db db'"
    unfolding True
    by (subst (asm) find_create_key_field.simps)
      (auto simp: Let_def new split: option.splits if_splits outcome.splits dest: run_fn_frame
        dest!: find_frame intro: frame_trans[OF new(1)] frame_trans[OF new(2)])
qed (use find_frame in simp)

lemma over_fields_frame: "final_state (over_fields f clk key db) = Some db' \<Longrightarrow> frame {key} db db'"
  by (cases "map_of (stats_db db) key"; cases "fields_loop f clk 0 (the (map_of (stats_db db) key))")
    (auto simp: over_fields_def frame_set_fields)

lemma expire_loop_frame: "expire_loop n db = Ret db' () \<Longrightarrow> frame {} db db'"
proof (induction n arbitrary: db)
  case (Suc n)
  have "frame {} db (db\<lparr>stats_db := AList.delete k (stats_db db), key_tracker := tr\<rparr>)" for k tr
    by (auto simp: frame_def settings_def set_alist_delete)
  then show ?case
    using Suc by (auto split: list.splits option.splits intro: frame_trans)
qed simp

lemma expire_loop_no_exn: "expire_loop n db \<noteq> Exn x db'"
  by (induction n arbitrary: db) (auto split: list.splits option.splits)

lemma expireEntries_frame: "final_state (expireEntries db) = Some db' \<Longrightarrow> frame {} db db'"
  by (cases "expire_loop ((length (stats_db db) - unat (map_size_soft db)) mod 2 ^ 32) db")
    (auto simp: expireEntries_def Let_def expire_loop_frame expire_loop_no_exn split: if_splits)

fun call_keys :: "db_call \<Rightarrow> string set" where
  "call_keys (DbAddInt k f a) = {k}"
| "call_keys (DbAddStr k f s) = {k}"
| "call_keys (DbAddStrInt k f s a) = {k}"
| "call_keys (DbSubInt k f a) = {k}"
| "call_keys (DbSubStr k f s) = {k}"
| "call_keys (DbGet k f) = {k}"
| "call_keys (DbGetStr k f s) = {k}"
| "call_keys (DbGetCurrent k f) = {k}"
| "call_keys (DbGetCurrentStr k f s) = {k}"
| "call_keys (DbGetWindows k f) = {k}"
| "call_keys (DbGetWindowsStr k f s) = {k}"
| "call_keys (DbGetAllFields k) = {k}"
| "call_keys (DbGetAllFieldsWindows k) = {k}"
| "call_keys (DbReset k) = {k}"
| "call_keys (DbResetField k f) = {k}"
| "call_keys _ = {}"

fun is_setting :: "db_call \<Rightarrow> bool" where
  "is_setting (DbSetSize _) = True"
| "is_setting (DbSetFields _) = True"
| "is_setting _ = False"

lemma db_exec_frame:
  assumes "db_exec E call ts db = Some db'" and "\<not> is_setting call"
  shows "frame (call_keys call) db db'"
proof -
  obtain t1 t2 t3 where ts: "ts = (t1, t2, t3)" by (cases ts)
  have reset: "frame {k} db (db_reset k db)" "frame {k} db (db_reset_field k f db)" for k f
    by (auto simp: db_reset_def db_reset_field_def frame_set_fields frame_put_entry split: option.splits)
  show ?thesis
    using assms reset
    by (cases call) (auto simp: ts db_add_int_def db_add_str_def db_add_str_int_def db_sub_int_def db_sub_str_def
      db_get_def db_get_str_def db_get_current_def db_get_current_str_def db_get_windows_def db_get_windows_str_def
      db_get_all_fields_def db_get_all_fields_windows_def
      dest: find_create_frame over_fields_frame expireEntries_frame)
qed

section \<open>Recency: the tracker is in the order of the last modification\<close>

lemma run_fn_tracker:
  "run_fn fn wr key field e db = Ret db' (Some v) \<Longrightarrow>
   key_tracker db' = (if wr then remove1 key (key_tracker db) @ [key] else key_tracker db)"
  by (auto simp: run_fn_def touch_def Let_def split: outcome.splits)

lemma find_create_tracker:
  assumes "find_create_key_field E t fn True create key field db = Ret db' (Some v)"
    and "db_inv good db"
  shows "key_tracker db' = remove1 key (key_tracker db) @ [key]"
proof -
  obtain ty where ty: "map_of (field_map db) field = Some ty" "type_map_has ty"
    using assms(1) by (subst (asm) find_create_key_field.simps) (auto split: option.splits if_splits)
  show ?thesis
  proof (cases "map_of (stats_db db) key")
    case None
    then obtain e where create: "create" and e: "new_TWStatsEntry E t (db_num_windows db) (db_window_size db) (db_start_time db) ty = Ret () e"
      using assms(1) ty by (subst (asm) find_create_key_field.simps)
        (auto simp: Let_def split: if_splits outcome.splits)
    have "key \<notin> set (key_tracker db)" using None assms(2) by (auto simp: db_inv_def map_of_eq_None_iff)
    moreover have "run_fn fn True key field e (add_key key field e db) = Ret db' (Some v)"
      using assms(1) create find_new_key[OF ty None e, of fn True] by simp
    ultimately show ?thesis
      using run_fn_tracker by (fastforce simp: add_key_def remove1_append remove1_idem)
  next
    case (Some fm)
    show ?thesis
    proof (cases "map_of fm field")
      case None
      then obtain e where create: "create" and e: "new_TWStatsEntry E t (db_num_windows db) (db_window_size db) (db_start_time db) ty = Ret () e"
        using assms(1) ty Some by (subst (asm) find_create_key_field.simps)
          (auto simp: Let_def split: if_splits outcome.splits)
      have "run_fn fn True key field e (add_field key field e fm db) = Ret db' (Some v)"
        using assms(1) create find_new_field[OF ty Some None _ e, of fn True] db_inv_fields[OF assms(2) Some] by simp
      then show ?thesis using run_fn_tracker by (fastforce simp: add_field_def)
    next
      case e: (Some e)
      then show ?thesis
        using assms(1) find_existing[OF ty Some e, of E t fn True create] run_fn_tracker by fastforce
    qed
  qed
qed


section \<open>What a key and field hold\<close>

definition db_entry :: "TWStatsDB \<Rightarrow> string \<times> string \<Rightarrow> TWStatsEntry option" where
  "db_entry db kf = Option.bind (map_of (stats_db db) (fst kf)) (\<lambda>fm. map_of fm (snd kf))"

lemma db_entry_put: "db_entry (put_entry k f e db) kf = (if kf = (k, f) then Some e else db_entry db kf)"
  by (cases kf) (auto simp: db_entry_def put_entry_def update_conv' map_of_sm_assign split: option.splits)

lemma db_entry_touch [simp]: "db_entry (touch k db) = db_entry db"
  by (simp add: db_entry_def fun_eq_iff)

lemma db_entry_add_key:
  "map_of (stats_db db) k = None \<Longrightarrow>
   db_entry (add_key k f e db) kf = (if kf = (k, f) then Some e else db_entry db kf)"
  by (cases kf) (auto simp: db_entry_def add_key_def update_conv')

lemma db_entry_add_field:
  "map_of (stats_db db) k = Some fm \<Longrightarrow> map_of fm f = None \<Longrightarrow> sm_ok fm \<Longrightarrow>
   db_entry (add_field k f e fm db) kf = (if kf = (k, f) then Some e else db_entry db kf)"
  by (cases kf) (auto simp: db_entry_def add_field_def update_conv' map_of_sm_insert)

lemma find_entry:
  "map_of (field_map db) f = Some ty \<Longrightarrow> type_map_has ty \<Longrightarrow> db_entry db (k, f) = Some e \<Longrightarrow>
   find_create_key_field E t fn wr create k f db = run_fn fn wr k f e db"
  by (auto simp: db_entry_def Option.bind_eq_Some_conv intro: find_existing)

lemma find_no_entry:
  assumes "map_of (field_map db) f = Some ty" "type_map_has ty" "db_entry db (k, f) = None" "db_inv good db"
    and "new_TWStatsEntry E t (db_num_windows db) (db_window_size db) (db_start_time db) ty = Ret () e"
  obtains db1 where "find_create_key_field E t fn wr True k f db = run_fn fn wr k f e db1"
    "find_create_key_field E t fn' wr' False k f db = Ret db None"
    "field_map db1 = field_map db" "\<And>kf. db_entry db1 kf = (if kf = (k, f) then Some e else db_entry db kf)"
proof (cases "map_of (stats_db db) k")
  case None
  then show ?thesis
    using that[of "add_key k f e db"] find_new_key[OF assms(1,2) None assms(5), of fn wr] db_entry_add_key assms(1,2)
    by (simp add: find_create_key_field.simps[of E t fn' wr' False]) (simp add: add_key_def)
next
  case (Some fm)
  then have nf: "map_of fm f = None" using assms(3) by (simp add: db_entry_def)
  have fm: "sm_ok fm" using db_inv_fields[OF assms(4) Some] by simp
  show ?thesis
    using that[of "add_field k f e fm db"] find_new_field[OF assms(1,2) Some nf fm assms(5), of fn wr]
      db_entry_add_field[OF Some nf fm] assms(1,2) Some nf
    by (simp add: find_create_key_field.simps[of E t fn' wr' False]) (simp add: add_field_def)
qed

lemma run_fn_Ret:
  "fn e = Ret e' v \<Longrightarrow> \<exists>db'. run_fn fn wr k f e db = Ret db' (Some v) \<and> field_map db' = field_map db
     \<and> (\<forall>kf. db_entry db' kf = (if kf = (k, f) then Some e' else db_entry db kf))"
  by (simp add: run_fn_def Let_def db_entry_put)

definition timed_int :: "int \<Rightarrow> TWStatsEntry \<Rightarrow> bool" where
  "timed_int t e \<longleftrightarrow> entry_ok ''int'' e \<and> time_ok t e \<and> settled t e \<and> start_time e \<le> t"

lemma fresh_entry:
  assumes "new_TWStatsEntry E t0 nw ws st ty = Ret () e"
  shows "list_all (\<lambda>w. fst w = 0) (stats_array e)"
  using assms create_windows_spec[of E t0 ty "nat nw"]
  by (fastforce simp: new_TWStatsEntry_def list_all_iff split: if_splits)

lemma fresh_timed:
  assumes E: "env_ok E" and d: "dims_ok nw ws" and st: "0 < st" "st \<le> t"
  obtains e where "new_TWStatsEntry E t0 nw ws st ''int'' = Ret () e" "timed_int t e"
    "\<And>E'. \<exists>e'. entry_sum E' (t, t) e = Ret e' 0"
proof -
  have ty: "type_map_has ''int''" by (simp add: type_map_has_def)
  obtain e where e: "new_TWStatsEntry E t0 nw ws st ''int'' = Ret () e" and ok: "entry_ok ''int'' e"
    and tm: "time_ok st e" and f: "start_time e = st"
    using new_entry_returns[OF E d ty] st(1) by metis
  have fresh: "list_all (\<lambda>w. fst w = 0) (stats_array e)" using fresh_entry[OF e] .
  then have se: "settled t e" by (auto simp: settled_def list_all_iff)
  have tm': "time_ok t e" using time_ok_mono[OF ok tm st(2)] .
  have "view e q = None" for q
    using fresh slot_of_less[OF ok, of q] by (simp add: view_def list_all_length Let_def)
  then have z: "view_get E' e q = 0" for E' q by (simp add: view_get_def)
  have sum0: "\<exists>e'. entry_sum E' (t, t) e = Ret e' 0" for E'
    using entry_sum_view[OF ok _ tm' se, of E'] f st(2) by (simp add: z)
  show ?thesis using that[OF e _ sum0] ok tm' se f st(2) by (simp add: timed_int_def)
qed

lemma add_get:
  assumes E: "env_ok E" and inv: "db_inv good db" and ty: "map_of (field_map db) f = Some ''int''"
    and st: "0 < db_start_time db" "db_start_time db \<le> t"
    and e: "case db_entry db (k, f) of None \<Rightarrow> True | Some e \<Rightarrow> timed_int t e"
  shows "\<exists>db1 v db2 db3. db_get E (t, t) k f db = Ret db1 v \<and> db_add_int E (t, t, t) k f a db = Ret db2 (Some ())
    \<and> db_get E (t, t) k f db2 = Ret db3 (v + a)
    \<and> (\<forall>kf. kf \<noteq> (k, f) \<longrightarrow> db_entry db2 kf = db_entry db kf)"
proof -
  have ht: "type_map_has ''int''" by (simp add: type_map_has_def)
  have get: "\<exists>db'. db_get E (t, t) k f d = Ret db' v"
    if "map_of (field_map d) f = Some ''int''" "db_entry d (k, f) = Some x" "entry_sum E (t, t) x = Ret x' v" for d x x' v
    using that run_fn_Ret[of "entry_sum E (t, t)" x x' v False k f d]
    by (auto simp: db_get_def opt0_def find_entry[OF that(1) ht that(2)])
  have add: "\<exists>db2 db3. run_fn (entry_add_int a (t, t, t)) True k f x d = Ret db2 (Some ())
      \<and> db_get E (t, t) k f db2 = Ret db3 (v + a) \<and> (\<forall>kf. kf \<noteq> (k, f) \<longrightarrow> db_entry db2 kf = db_entry d kf)"
    if d: "map_of (field_map d) f = Some ''int''" and x: "timed_int t x" and v: "entry_sum E (t, t) x = Ret x' v" for d x x' v
  proof -
    obtain x1 x2 where x1: "entry_add_int a (t, t, t) x = Ret x1 ()" and x2: "entry_sum E (t, t) x1 = Ret x2 (v + a)"
      using add_then_sum[of x t E a] x v by (auto simp: timed_int_def)
    obtain db2 where db2: "run_fn (entry_add_int a (t, t, t)) True k f x d = Ret db2 (Some ())"
      "field_map db2 = field_map d" "\<forall>kf. db_entry db2 kf = (if kf = (k, f) then Some x1 else db_entry d kf)"
      using run_fn_Ret[of "entry_add_int a (t, t, t)" x x1 "()" True k f d, OF x1] by blast
    then show ?thesis using get[of db2 x1 x2 "v + a"] d x2 by auto
  qed
  show ?thesis
  proof (cases "db_entry db (k, f)")
    case (Some x)
    then have x: "timed_int t x" using e by simp
    then obtain v x' where v: "entry_sum E (t, t) x = Ret x' v"
      using add_then_sum[of x t E a] by (auto simp: timed_int_def)
    show ?thesis
      using get[OF ty Some v] add[OF ty x v]
      unfolding db_add_int_def find_entry[OF ty ht Some, where fn = "entry_add_int a (t, t, t)"] by blast
  next
    case None
    have "dims_ok (db_num_windows db) (db_window_size db)" using inv by (simp add: db_inv_def)
    from fresh_timed[OF E this st] obtain x x' where
      x: "new_TWStatsEntry E t (db_num_windows db) (db_window_size db) (db_start_time db) ''int'' = Ret () x"
        "timed_int t x" "entry_sum E (t, t) x = Ret x' 0" by metis
    obtain db1 where db1: "find_create_key_field E t (entry_add_int a (t, t, t)) True True k f db =
        run_fn (entry_add_int a (t, t, t)) True k f x db1"
      "find_create_key_field E t (entry_sum E (t, t)) False False k f db = Ret db None"
      "field_map db1 = field_map db" "\<And>kf. db_entry db1 kf = (if kf = (k, f) then Some x else db_entry db kf)"
      using find_no_entry[OF ty ht None inv x(1)] by metis
    then show ?thesis
      using add[of db1, OF _ x(2,3)] ty by (simp add: db_add_int_def db_get_def opt0_def)
  qed
qed


section \<open>Properties of the database\<close>

text \<open>
  C13. Every call keeps the database sound and is defined: with usable sketch parameters, each of the
  eighteen calls, at any time not before the start time, returns or throws and leaves the tracker
  and the table with the same keys, once each, and all rings well formed.
\<close>

theorem db_calls_keep_invariant:
  assumes "env_ok E" and "db_inv (good_entry now) db" and "db_start_time db \<le> now" and "now \<le> t2"
    and "call = DbExpire \<Longrightarrow> length (stats_db db) < 2 ^ 32"
  shows "\<exists>db'. db_exec E call (t1, t2, t3) db = Some db' \<and> db_inv (good_entry t2) db'"
  using db_exec_inv[of E t2 db call t1 t3] db_inv_mono[of now db t2] assms by simp

definition demo_db :: TWStatsDB where
  "demo_db = fst (db_setFields [(''cnt'', ''int''), (''uniq'', ''hll'')] (new_TWStatsDB 1000 ''db'' 10 2))"

lemma demo_db_inv: "db_inv (good_entry 1000) demo_db" "env_ok demo_env"
  by (simp_all add: demo_db_def db_setFields_def type_map_has_def new_TWStatsDB_def db_inv_def dims_ok_def
      env_ok_def demo_env_def Let_def)

theorem db_calls_keep_invariant_witness:
  "\<exists>db'. db_exec demo_env (DbAddStr ''k'' ''uniq'' ''x'') (1005, 1005, 1005) demo_db = Some db'
     \<and> db_inv (good_entry 1005) db'"
  by (rule db_calls_keep_invariant[OF demo_db_inv(2,1)])
    (simp_all add: demo_db_def db_setFields_def type_map_has_def new_TWStatsDB_def)

text \<open>
  Read your own write: adding \<open>a\<close> to an integer field and reading it at the same time returns
  the previous value plus \<open>a\<close> (the previous value of a key or field that did not exist is 0), and no
  other key or field changes. The ring, if it exists, has to be settled.
\<close>

lemma db_add_then_get:
  assumes "env_ok E" and "db_inv good db" and "map_of (field_map db) f = Some ''int''"
    and "0 < db_start_time db" and "db_start_time db \<le> t"
    and "case db_entry db (k, f) of None \<Rightarrow> True | Some e \<Rightarrow> timed_int t e"
  shows "\<exists>db1 v db2 db3. db_get E (t, t) k f db = Ret db1 v \<and> db_add_int E (t, t, t) k f a db = Ret db2 (Some ())
    \<and> db_get E (t, t) k f db2 = Ret db3 (v + a)
    \<and> (\<forall>kf. kf \<noteq> (k, f) \<longrightarrow> db_entry db2 kf = db_entry db kf)"
  using assms by (rule add_get)

lemma read_tracker: "final_state (find_create_key_field E t fn False False key field db) = Some db' \<Longrightarrow> key_tracker db' = key_tracker db"
  by (subst (asm) find_create_key_field.simps)
    (auto simp: run_fn_def Let_def put_entry_def split: option.splits if_splits outcome.splits)

lemma opt0_final: "final_state (opt0 r) = final_state r"
  by (cases r) (simp_all add: opt0_def)

text \<open>The calls that write a field of a key, and those that read one.\<close>

definition write_calls :: "sk_env \<Rightarrow> int \<times> int \<times> int \<Rightarrow> string \<Rightarrow> string \<Rightarrow> TWStatsDB \<Rightarrow> (TWStatsDB, unit option) outcome set" where
  "write_calls E ts key field db =
     range (\<lambda>a. db_add_int E ts key field a db) \<union> range (\<lambda>s. db_add_str E ts key field s db)
     \<union> range (\<lambda>(s, a). db_add_str_int E ts key field s a db) \<union> range (\<lambda>a. db_sub_int E ts key field a db)
     \<union> range (\<lambda>s. db_sub_str E ts key field s db) \<union> {db_incr E ts key field db, db_decr E ts key field db}"

definition read_calls :: "sk_env \<Rightarrow> int \<times> int \<Rightarrow> string \<Rightarrow> string \<Rightarrow> TWStatsDB \<Rightarrow> TWStatsDB option set" where
  "read_calls E ts key field db =
     {final_state (db_get E ts key field db), final_state (db_get_current E ts key field db), final_state (db_get_windows E ts key field db)}
     \<union> range (\<lambda>s. final_state (db_get_str E ts key field s db)) \<union> range (\<lambda>s. final_state (db_get_current_str E ts key field s db))
     \<union> range (\<lambda>s. final_state (db_get_windows_str E ts key field s db))"

lemma write_calls_tracker:
  assumes "db_inv good db" and "Ret db' (Some v) \<in> write_calls E ts key field db"
  shows "key_tracker db' = remove1 key (key_tracker db) @ [key]"
proof -
  note d = db_incr_def db_decr_def db_add_int_def db_add_str_def db_add_str_int_def db_sub_int_def db_sub_str_def
  obtain fn where "find_create_key_field E (fst ts) fn True True key field db = Ret db' (Some v)"
    using assms(2) unfolding write_calls_def d by (auto simp: eq_commute)
  then show ?thesis by (rule find_create_tracker[OF _ assms(1)])
qed

lemma read_calls_tracker: "Some db' \<in> read_calls E ts key field db \<Longrightarrow> key_tracker db' = key_tracker db"
  unfolding read_calls_def db_get_def db_get_str_def db_get_current_def db_get_current_str_def db_get_windows_def db_get_windows_str_def
    opt0_final
  by (elim UnE insertE emptyE rangeE) (simp_all add: read_tracker[OF sym])

text \<open>
  C14. Expiry removes exactly the least recently modified keys: one pass of the expiry thread on a
  sound database of fewer than 2^32 keys drops the first \<open>size - map_size_soft\<close> keys of the tracker and keeps the data of
  every other key; the size is then at most the limit. The tracker is in the order of modification: each of the calls that add to or subtract
  from a field, when it has changed it, moves its key to the end and leaves the order of the others, and a call that
  reads a field changes nothing in it.
\<close>

theorem expiry_is_least_recently_modified:
  assumes "db_inv good db" and "length (stats_db db) < 2 ^ 32"
  shows "(\<exists>db'. expireEntries db = Ret db' () \<and> db_inv good db'
      \<and> (let n = length (stats_db db) - unat (map_size_soft db)
         in key_tracker db' = drop n (key_tracker db)
            \<and> map_of (stats_db db') = (map_of (stats_db db)) |` (- set (take n (key_tracker db))))
      \<and> length (stats_db db') = min (length (stats_db db)) (unat (map_size_soft db)))
    \<and> (\<forall>E ts key field db' v. Ret db' (Some v) \<in> write_calls E ts key field db \<longrightarrow> key_tracker db' = remove1 key (key_tracker db) @ [key])
    \<and> (\<forall>E ts key field db'. Some db' \<in> read_calls E ts key field db \<longrightarrow> key_tracker db' = key_tracker db)"
  using expireEntries_spec[OF assms] write_calls_tracker[OF assms(1)] read_calls_tracker[of _ _ _ _ _ db] by blast

definition demo_db2 :: TWStatsDB where
  "demo_db2 = demo_db\<lparr>key_tracker := [''a'', ''b''], stats_db := [(''b'', []), (''a'', [])], map_size_soft := 1\<rparr>"

theorem expiry_is_least_recently_modified_witness:
  "\<exists>db'. expireEntries demo_db2 = Ret db' () \<and> key_tracker db' = [''b'']"
proof -
  have "db_inv (good_entry 1000) demo_db2"
    using demo_db_inv(1) by (auto simp: db_inv_def demo_db2_def)
  from expiry_is_least_recently_modified[OF this] show ?thesis by (auto simp: demo_db2_def)
qed

lemma expire_orphan:
  "key_tracker db = key # rest \<Longrightarrow> map_of (stats_db db) key = None \<Longrightarrow> expire_loop n db = Ret db ()"
  by (induction n) auto

lemma demo_bits_31: "unat (ucast (num_bits (setNumBits 31 demo_env)) :: 8 word) = 31"
  by (simp add: setNumBits_def demo_env_def)

lemma bad_hll_entry:
  assumes "unat (ucast (num_bits E) :: 8 word) = 31"
  shows "new_TWStatsEntry E t 2 ws st ''hll'' = Exn Invalid_Argument ()"
proof -
  have "new_HyperLogLog 31 = Exn Invalid_Argument ()" by (simp add: new_HyperLogLog_def)
  then have "createInstance E t ''hll'' = Exn Invalid_Argument ()"
    using assms by (simp add: createInstance_def new_HLL_member_def)
  then show ?thesis by (simp add: new_TWStatsEntry_def numeral_2_eq_2 type_map_has_def)
qed

text \<open>
  A throwing constructor leaves an orphan: when the HyperLogLog register width is out of range
  (31 bits, which \<^verbatim>\<open>setNumBits\<close> lets through), adding to a new key throws after the key has been put
  at the end of the tracker and before the table has it. An expiry pass that meets such a key at
  the front of the tracker removes nothing, whatever the size of the table.
\<close>

lemma orphan_key_blocks_expiry:
  "num_bits (setNumBits 31 demo_env) = 31
   \<and> (\<exists>db'. db_add_str (setNumBits 31 demo_env) (1005, 1005, 1005) ''k'' ''uniq'' ''x'' demo_db = Exn Invalid_Argument db'
        \<and> key_tracker db' = [''k''] \<and> stats_db db' = [])
   \<and> (\<forall>db key rest. key_tracker db = key # rest \<longrightarrow> map_of (stats_db db) key = None \<longrightarrow> expireEntries db = Ret db ())"
proof (intro conjI)
  show "num_bits (setNumBits 31 demo_env) = 31" by (simp add: setNumBits_def demo_env_def)
  show "\<exists>db'. db_add_str (setNumBits 31 demo_env) (1005, 1005, 1005) ''k'' ''uniq'' ''x'' demo_db = Exn Invalid_Argument db'
        \<and> key_tracker db' = [''k''] \<and> stats_db db' = []"
    unfolding db_add_str_def
    by (subst find_create_key_field.simps)
      (simp add: bad_hll_entry[OF demo_bits_31] demo_db_def db_setFields_def type_map_has_def new_TWStatsDB_def)
  show "\<forall>db key rest. key_tracker db = key # rest \<longrightarrow> map_of (stats_db db) key = None \<longrightarrow> expireEntries db = Ret db ()"
    by (auto simp: expireEntries_def Let_def expire_orphan)
qed

end
