(* ===== verification/Netmask.thy ===== *)
theory Netmask
  imports Wf_Prelude "HOL-Library.Sublist"
begin

text \<open>
  Addresses and netmasks of \<^verbatim>\<open>common/iputils.hh\<close>, with the address parsers of \<^verbatim>\<open>common/misc.cc\<close>. An
  IPv4 address is its value in host order, an IPv6 address its sixteen bytes; the scope identifier
  is left out. The resolver functions of the C library (\<^verbatim>\<open>inet_pton\<close>, \<^verbatim>\<open>inet_aton\<close>,
  \<^verbatim>\<open>getaddrinfo\<close>, \<^verbatim>\<open>getnameinfo\<close>) are the fields of a \<open>netlib\<close>, an argument of the definitions that
  call them.
\<close>

section \<open>Addresses\<close>

datatype ComboAddress =
    CA_V4 "32 word" "16 word"
  | CA_V6 "8 word list" "16 word"
  | CA_None

record netlib =
  inet_pton4 :: "string \<Rightarrow> 32 word option"
  inet_aton :: "string \<Rightarrow> 32 word option"
  inet_pton6 :: "string \<Rightarrow> 8 word list option"
  getaddrinfo6 :: "string \<Rightarrow> 8 word list option"
  getnameinfo :: "ComboAddress \<Rightarrow> string option"

fun ca_wf :: "ComboAddress \<Rightarrow> bool" where
  "ca_wf (CA_V6 bs _) \<longleftrightarrow> length bs = 16"
| "ca_wf _ \<longleftrightarrow> True"

fun isIpv4 :: "ComboAddress \<Rightarrow> bool" where
  "isIpv4 (CA_V4 _ _) = True"
| "isIpv4 _ = False"

fun isIpv6 :: "ComboAddress \<Rightarrow> bool" where
  "isIpv6 (CA_V6 _ _) = True"
| "isIpv6 _ = False"

fun getPort :: "ComboAddress \<Rightarrow> 16 word" where
  "getPort (CA_V4 _ p) = p"
| "getPort (CA_V6 _ p) = p"
| "getPort CA_None = 0"

fun set_port :: "16 word \<Rightarrow> ComboAddress \<Rightarrow> ComboAddress" where
  "set_port p (CA_V4 a _) = CA_V4 a p"
| "set_port p (CA_V6 bs _) = CA_V6 bs p"
| "set_port p CA_None = CA_None"

text \<open>\<^verbatim>\<open>AF_INET\<close> is 2 and \<^verbatim>\<open>AF_INET6\<close> is 10; the address orders compare memory, byte by byte or as a little-endian word.\<close>

fun sin_family :: "ComboAddress \<Rightarrow> nat" where
  "sin_family (CA_V4 _ _) = 2"
| "sin_family (CA_V6 _ _) = 10"
| "sin_family CA_None = 0"

fun addr_key :: "ComboAddress \<Rightarrow> nat list" where
  "addr_key (CA_V4 a _) = [unat (from_le32 (be32 a))]"
| "addr_key (CA_V6 bs _) = map unat bs"
| "addr_key CA_None = []"

definition sin_port :: "ComboAddress \<Rightarrow> nat" where
  "sin_port ca = (let p = unat (getPort ca) in p mod 256 * 256 + p div 256)"

definition ca_less :: "ComboAddress \<Rightarrow> ComboAddress \<Rightarrow> bool" where
  "ca_less a b =
     (if sin_family a = 0 then False
      else if sin_family a < sin_family b \<or> sin_family a = sin_family b \<and> sin_port a < sin_port b then True
      else if sin_family b < sin_family a \<or> sin_family a = sin_family b \<and> sin_port b < sin_port a then False
      else addr_key a < addr_key b)"

definition addressOnlyLessThan :: "ComboAddress \<Rightarrow> ComboAddress \<Rightarrow> bool" where
  "addressOnlyLessThan a b =
     (if sin_family a < sin_family b then True
      else if sin_family b < sin_family a then False
      else addr_key a < addr_key b)"

definition addressOnlyEqual :: "ComboAddress \<Rightarrow> ComboAddress \<Rightarrow> bool" where
  "addressOnlyEqual a b \<longleftrightarrow> sin_family a = sin_family b \<and> addr_key a = addr_key b"

fun isMappedIPv4 :: "ComboAddress \<Rightarrow> bool" where
  "isMappedIPv4 (CA_V6 bs _) \<longleftrightarrow> list_all (\<lambda>b. b = 0) (take 10 bs) \<and> list_all (\<lambda>b. b = 0xff) (take 2 (drop 10 bs))"
| "isMappedIPv4 _ \<longleftrightarrow> False"

fun mapToIPv4 :: "ComboAddress \<Rightarrow> exn + ComboAddress" where
  "mapToIPv4 (CA_V6 bs p) =
     (if isMappedIPv4 (CA_V6 bs p) then Inr (CA_V4 (from_be32 (drop 12 bs)) p)
      else Inl (Netmask_Exception ''ComboAddress can't map non-mapped IPv6 address back to IPv4''))"
| "mapToIPv4 _ = Inl (Netmask_Exception ''ComboAddress can't map non-mapped IPv6 address back to IPv4'')"

definition ca_toString :: "netlib \<Rightarrow> ComboAddress \<Rightarrow> string" where
  "ca_toString N ca =
     (if ca = CA_None then ''invalid''
      else case getnameinfo N ca of None \<Rightarrow> ''invalid'' | Some host \<Rightarrow> host)"

definition toStringWithPort :: "netlib \<Rightarrow> ComboAddress \<Rightarrow> string" where
  "toStringWithPort N ca =
     (if isIpv4 ca then ca_toString N ca @ '':'' @ nat_to_string (unat (getPort ca))
      else ''['' @ ca_toString N ca @ '']:'' @ nat_to_string (unat (getPort ca)))"

definition IsAnyAddress :: "ComboAddress \<Rightarrow> bool" where
  "IsAnyAddress ca =
     (case ca of CA_V4 a _ \<Rightarrow> a = 0 | CA_V6 bs _ \<Rightarrow> list_all (\<lambda>b. b = 0) bs | CA_None \<Rightarrow> False)"

text \<open>The bytes to the right of \<open>bits\<close> are cleared, then the remaining low bits of the byte before them.\<close>

definition truncate_bytes :: "nat \<Rightarrow> 8 word list \<Rightarrow> 8 word list" where
  "truncate_bytes bits bs =
     (let len = length bs; tozero = len * 8 - bits; zb = tozero div 8;
          cleared = take (len - zb) bs @ replicate zb 0;
          place = len - 1 - zb
      in cleared[place := cleared ! place AND NOT (push_bit (tozero mod 8) 1 - 1)])"

fun ca_truncate :: "nat \<Rightarrow> ComboAddress \<Rightarrow> ComboAddress" where
  "ca_truncate bits (CA_V4 a p) = (if 32 \<le> bits then CA_V4 a p else CA_V4 (from_be32 (truncate_bytes bits (be32 a))) p)"
| "ca_truncate bits (CA_V6 bs p) = (if 128 \<le> bits then CA_V6 bs p else CA_V6 (truncate_bytes bits bs) p)"
| "ca_truncate bits CA_None = CA_None"

section \<open>Parsing addresses\<close>

text \<open>\<^verbatim>\<open>atoi\<close>, and \<^verbatim>\<open>strtol\<close> of a whole string (\<open>None\<close> when something is left over or nothing was read).\<close>

definition atoi :: "string \<Rightarrow> int" where
  "atoi s =
     (case strto_subject s of
        None \<Rightarrow> 0
      | Some (neg, n) \<Rightarrow>
          (let v = (if neg then - int n else int n)
           in sint (word_of_int (max (- (2 ^ 63)) (min (2 ^ 63 - 1) v)) :: 32 word)))"

definition strtol_all :: "string \<Rightarrow> int option" where
  "strtol_all s =
     (let t = dropWhile isspace_c (c_str s);
          u = (if t \<noteq> [] \<and> (hd t = CHR ''-'' \<or> hd t = CHR ''+'') then tl t else t)
      in if u \<noteq> [] \<and> list_all isdigit_c u then Some (atoi s) else None)"

definition find_char :: "char \<Rightarrow> string \<Rightarrow> nat option" where
  "find_char c s = (if c \<in> set s then Some (length (takeWhile (\<lambda>x. x \<noteq> c) s)) else None)"

text \<open>The result of the parsers: \<open>None\<close> is the return value -1; a port of \<open>None\<close> is left untouched.\<close>

definition makeIPv6sockaddr :: "netlib \<Rightarrow> string \<Rightarrow> (8 word list \<times> 16 word option) option" where
  "makeIPv6sockaddr N addr =
     (if addr = [] then None
      else
        let parsed =
          (if hd addr = CHR ''['' then
             (case find_char CHR '']'' addr of
                None \<Rightarrow> None
              | Some pos \<Rightarrow>
                  if length addr < pos + 2 \<or> addr ! (pos + 1) \<noteq> CHR '':'' then None
                  else Some (take (pos - 1) (drop 1 addr), atoi (drop (pos + 2) addr)))
           else Some (addr, -1))
        in case parsed of
             None \<Rightarrow> None
           | Some (ourAddr, port) \<Rightarrow>
               (case (case inet_pton6 N (c_str ourAddr) of
                        Some bs \<Rightarrow> Some bs
                      | None \<Rightarrow> getaddrinfo6 N (c_str ourAddr)) of
                  None \<Rightarrow> None
                | Some bs \<Rightarrow> Some (bs, if 0 \<le> port then Some (word_of_int port) else None)))"

text \<open>The port may be set even when the address is refused.\<close>

definition makeIPv4sockaddr :: "netlib \<Rightarrow> string \<Rightarrow> 32 word option \<times> 16 word option" where
  "makeIPv4sockaddr N str =
     (if str = [] then (None, None)
      else case find_char CHR '':'' str of
             None \<Rightarrow> (inet_aton N (c_str str), None)
           | Some pos \<Rightarrow>
               (if c_str (drop (pos + 1) str) = [] then (None, None)
                else case strtol_all (drop (pos + 1) str) of
                       None \<Rightarrow> (None, None)
                     | Some port \<Rightarrow> (inet_aton N (c_str (take pos str)), Some (word_of_int port))))"

definition new_ComboAddress :: "netlib \<Rightarrow> string \<Rightarrow> 16 word \<Rightarrow> exn + ComboAddress" where
  "new_ComboAddress N str port =
     (case makeIPv4sockaddr N str of
        (Some a, p) \<Rightarrow>
          (let q = (case p of None \<Rightarrow> 0 | Some q \<Rightarrow> q) in Inr (CA_V4 a (if q = 0 then port else q)))
      | (None, p) \<Rightarrow>
          (case makeIPv6sockaddr N str of
             None \<Rightarrow> Inl (Netmask_Exception (''Unable to convert presentation address '' @ [CHR 0x27] @ str @ [CHR 0x27]))
           | Some (bs, p6) \<Rightarrow>
               (let q = (case p6 of Some q \<Rightarrow> q | None \<Rightarrow> (case p of None \<Rightarrow> 0 | Some q \<Rightarrow> q))
                in Inr (CA_V6 bs (if q = 0 then port else q)))))"

definition makeComboAddress :: "netlib \<Rightarrow> string \<Rightarrow> exn + ComboAddress" where
  "makeComboAddress N str =
     (case inet_pton4 N (c_str str) of
        Some a \<Rightarrow> Inr (CA_V4 a 0)
      | None \<Rightarrow>
          (case makeIPv6sockaddr N str of
             None \<Rightarrow> Inl (Netmask_Exception (''Unable to convert '' @ [CHR 0x27] @ str @ [CHR 0x27] @ '' to a netmask''))
           | Some (bs, p) \<Rightarrow> Inr (CA_V6 bs (case p of None \<Rightarrow> 0 | Some q \<Rightarrow> q))))"

section \<open>Netmasks\<close>

record Netmask =
  d_network :: ComboAddress
  d_mask :: "32 word"
  d_bits :: nat

definition mask_of :: "nat \<Rightarrow> 32 word" where
  "mask_of bits = (if bits < 32 then NOT (drop_bit bits 0xFFFFFFFF) else 0xFFFFFFFF)"

definition empty_Netmask :: Netmask where
  "empty_Netmask = \<lparr>d_network = CA_None, d_mask = 0, d_bits = 0\<rparr>"

text \<open>The constructor from an address; \<open>bits\<close> is a \<^verbatim>\<open>uint8_t\<close> and 255 asks for the full width.\<close>

definition new_Netmask :: "ComboAddress \<Rightarrow> nat \<Rightarrow> Netmask" where
  "new_Netmask network bits =
     (let b1 = (if bits = 255 then if isIpv4 network then 32 else 128 else bits);
          b2 = (if isIpv4 network \<and> 32 < b1 then 32 else b1);
          b3 = (if isIpv6 network \<and> 128 < b2 then 128 else b2)
      in \<lparr>d_network = network, d_mask = mask_of b3, d_bits = b3\<rparr>)"

text \<open>The constructor from a string; the cast to \<^verbatim>\<open>uint8_t\<close> keeps the low eight bits.\<close>

definition Netmask_of_string :: "netlib \<Rightarrow> string \<Rightarrow> exn + Netmask" where
  "Netmask_of_string N msk =
     (case splitField msk CHR ''/'' of (fst_part, snd_part) \<Rightarrow>
        (case makeComboAddress N fst_part of
           Inl e \<Rightarrow> Inl e
         | Inr network \<Rightarrow>
             (if snd_part \<noteq> [] then
                (case pdns_stou snd_part of
                   Inl e \<Rightarrow> Inl e
                 | Inr n \<Rightarrow> (let b = n mod 256 in Inr \<lparr>d_network = network, d_mask = mask_of b, d_bits = b\<rparr>))
              else if isIpv4 network then Inr \<lparr>d_network = network, d_mask = 0xFFFFFFFF, d_bits = 32\<rparr>
              else Inr \<lparr>d_network = network, d_mask = 0, d_bits = 128\<rparr>)))"

text \<open>
  The byte-wise comparison of IPv6 prefixes: \<open>n\<close> full bytes, then the remaining bits of the next
  one. With 128 bits the byte after the address is read and masked to nothing.
\<close>

definition byte_mask :: "nat \<Rightarrow> 8 word" where
  "byte_mask bits = NOT (drop_bit bits 0xFF)"

definition match6 :: "nat \<Rightarrow> 8 word list \<Rightarrow> 8 word list \<Rightarrow> bool" where
  "match6 bits us them =
     (let n = bits div 8; m = byte_mask (bits mod 8)
      in list_all (\<lambda>i. us ! i = them ! i) [0..<n]
         \<and> (if n < 16 then us ! n AND m = them ! n AND m else True))"

definition match4 :: "Netmask \<Rightarrow> 32 word \<Rightarrow> bool" where
  "match4 nm ip =
     (case d_network nm of
        CA_V4 a _ \<Rightarrow> ip AND d_mask nm = a AND d_mask nm
      | _ \<Rightarrow> False)"

text \<open>\<open>None\<close>: an IPv6 mask of more than 128 bits (only the string constructor makes one) reads past the address.\<close>

definition nm_match :: "Netmask \<Rightarrow> ComboAddress \<Rightarrow> bool option" where
  "nm_match nm ip =
     (case (d_network nm, ip) of
        (CA_V4 _ _, CA_V4 b _) \<Rightarrow> Some (match4 nm b)
      | (CA_V6 us _, CA_V6 them _) \<Rightarrow> if 128 < d_bits nm then None else Some (match6 (d_bits nm) us them)
      | _ \<Rightarrow> Some False)"

definition nm_toString :: "netlib \<Rightarrow> Netmask \<Rightarrow> string" where
  "nm_toString N nm = ca_toString N (d_network nm) @ ''/'' @ nat_to_string (d_bits nm)"

definition masked_bytes :: "nat \<Rightarrow> 8 word list \<Rightarrow> 8 word list" where
  "masked_bytes bits bs =
     map (\<lambda>i. if i < bits div 8 then bs ! i
              else if i = bits div 8 then bs ! i AND byte_mask (bits mod 8) else 0) [0..<16]"

text \<open>The address with its host bits cleared: \<^verbatim>\<open>getMaskedNetwork\<close>, and the same address printed by \<^verbatim>\<open>toStringNetwork\<close>.\<close>

definition getMaskedNetwork :: "Netmask \<Rightarrow> ComboAddress" where
  "getMaskedNetwork nm =
     (case d_network nm of
        CA_V4 a p \<Rightarrow> CA_V4 (a AND d_mask nm) p
      | CA_V6 bs p \<Rightarrow> CA_V6 (masked_bytes (d_bits nm) bs) p
      | CA_None \<Rightarrow> CA_None)"

definition toStringNetwork :: "netlib \<Rightarrow> Netmask \<Rightarrow> string" where
  "toStringNetwork N nm =
     (case d_network nm of
        CA_V4 a _ \<Rightarrow> ca_toString N (CA_V4 (a AND d_mask nm) 0) @ ''/'' @ nat_to_string (d_bits nm)
      | CA_V6 bs _ \<Rightarrow> ca_toString N (CA_V6 (masked_bytes (d_bits nm) bs) 0) @ ''/'' @ nat_to_string (d_bits nm)
      | CA_None \<Rightarrow> [])"

definition nm_wf :: "Netmask \<Rightarrow> bool" where
  "nm_wf nm \<longleftrightarrow>
     (case d_network nm of
        CA_V4 _ _ \<Rightarrow> d_bits nm \<le> 32 \<and> d_mask nm = mask_of (d_bits nm)
      | CA_V6 bs _ \<Rightarrow> d_bits nm \<le> 128 \<and> length bs = 16
      | CA_None \<Rightarrow> False)"

section \<open>Prefixes\<close>

text \<open>The bits of an address, most significant first, as the bytes and words of the address hold them.\<close>

definition from_be64 :: "8 word list \<Rightarrow> 64 word" where
  "from_be64 bs = foldl (\<lambda>a b. push_bit 8 a OR ucast b) 0 bs"

fun addr_bit :: "ComboAddress \<Rightarrow> nat \<Rightarrow> bool" where
  "addr_bit (CA_V4 a _) i = bit a (31 - i)"
| "addr_bit (CA_V6 bs _) i =
     (if i < 64 then bit (from_be64 (take 8 bs)) (63 - i) else bit (from_be64 (drop 8 bs)) (127 - i))"
| "addr_bit CA_None i = False"

fun addr_width :: "ComboAddress \<Rightarrow> nat" where
  "addr_width (CA_V4 _ _) = 32"
| "addr_width (CA_V6 _ _) = 128"
| "addr_width CA_None = 0"

definition addr_bits :: "ComboAddress \<Rightarrow> bool list" where
  "addr_bits ca = map (addr_bit ca) [0..<addr_width ca]"

lemma from_be64_snoc: "from_be64 (bs @ [b]) = push_bit 8 (from_be64 bs) OR ucast b"
  by (simp add: from_be64_def)

lemma bit_be64_step:
  "bit (push_bit 8 (x :: 64 word) OR ucast (b :: 8 word)) j \<longleftrightarrow>
     j < 64 \<and> (if j < 8 then bit b j else bit x (j - 8))"
  unfolding bit_or_iff bit_push_bit_iff bit_ucast_iff
  by (auto dest: bit_imp_le_length)

lemma bit_from_be64:
  "length bs \<le> 8 \<Longrightarrow> bit (from_be64 bs) j \<longleftrightarrow> j < 8 * length bs \<and> bit (rev bs ! (j div 8)) (j mod 8)"
proof (induction bs arbitrary: j rule: rev_induct)
  case (snoc b bs)
  show ?case
  proof (cases "j < 8")
    case True
    then show ?thesis by (simp add: from_be64_snoc bit_be64_step)
  next
    case False
    define k where "k = j - 8"
    have k: "j = k + 8" using False by (simp add: k_def)
    have "bit (from_be64 (bs @ [b])) j \<longleftrightarrow> j < 64 \<and> bit (from_be64 bs) k"
      using k by (simp add: from_be64_snoc bit_be64_step)
    also have "\<dots> \<longleftrightarrow> j < 64 \<and> k < 8 * length bs \<and> bit (rev bs ! (k div 8)) (k mod 8)"
      using snoc by simp
    also have "\<dots> \<longleftrightarrow> j < 8 * length (bs @ [b]) \<and> bit (rev (bs @ [b]) ! (j div 8)) (j mod 8)"
    proof -
      have "j div 8 = Suc (k div 8)" "j mod 8 = k mod 8" using k by simp_all
      then show ?thesis using snoc.prems k by auto
    qed
    finally show ?thesis .
  qed
qed (simp add: from_be64_def)

lemma byte_index: "c < 8 \<Longrightarrow> (8 * m + c) div 8 = m \<and> (8 * m + c) mod 8 = c" for m c :: nat
  by simp

lemma addr_bit_v6:
  assumes len: "length bs = 16" and i: "i < 128"
  shows "addr_bit (CA_V6 bs p) i = bit (bs ! (i div 8)) (7 - i mod 8)"
proof -
  have half: "bit (from_be64 hs) (63 - k) = bit (hs ! (k div 8)) (7 - k mod 8)"
    if "length hs = 8" "k < 64" for hs :: "8 word list" and k
  proof -
    have "63 - k = 8 * (7 - k div 8) + (7 - k mod 8)"
      using that(2) mult_div_mod_eq[of 8 k] mod_less_divisor[of 8 k] by linarith
    moreover have "7 - k mod 8 < 8" by simp
    ultimately have "(63 - k) div 8 = 7 - k div 8" "(63 - k) mod 8 = 7 - k mod 8"
      using byte_index[of "7 - k mod 8" "7 - k div 8"] by metis+
    moreover have "k div 8 < 8" using that(2) by auto
    moreover have "rev hs ! (7 - k div 8) = hs ! (k div 8)" "63 - k < 64"
      using that calculation(3) by (simp_all add: rev_nth)
    ultimately show ?thesis using that by (simp add: bit_from_be64)
  qed
  show ?thesis
  proof (cases "i < 64")
    case True
    then have "i div 8 < 8" by auto
    then show ?thesis using half[of "take 8 bs" i] True len by simp
  next
    case False
    define k where "k = i - 64"
    have k: "i = 64 + k" "k < 64" using False i by (auto simp: k_def)
    then have "i div 8 = 8 + k div 8" "i mod 8 = k mod 8" "127 - i = 63 - k"
      using mod_mult_self4[of 8 8 k] by simp_all
    then show ?thesis using half[of "drop 8 bs" k] k len False by simp
  qed
qed

lemma bit_mask_of: "b \<le> 32 \<Longrightarrow> bit (mask_of b) j \<longleftrightarrow> j < 32 \<and> 32 \<le> j + b"
proof -
  assume b: "b \<le> 32"
  have full: "bit (0xFFFFFFFF :: 32 word) i \<longleftrightarrow> i < 32" for i
  proof -
    have "(0xFFFFFFFF :: 32 word) = - 1" by simp
    then show ?thesis by (simp only: bit_minus_1_iff) simp
  qed
  show ?thesis
  proof (cases "b < 32")
    case True
    have "bit (mask_of b) j \<longleftrightarrow> j < 32 \<and> \<not> bit (0xFFFFFFFF :: 32 word) (b + j)"
      using True by (simp only: mask_of_def bit_not_iff bit_drop_bit_eq comp_def if_True) simp
    then show ?thesis using full[of "b + j"] by auto
  next
    case False
    then have "b = 32" using b by simp
    then show ?thesis using full[of j] by (simp add: mask_of_def del: bit_numeral_simps)
  qed
qed

lemma mask_of_0: "mask_of 0 = 0"
  by (rule bit_word_eqI) (simp add: bit_mask_of)

lemma bit_byte_mask: "r < 8 \<Longrightarrow> bit (byte_mask r) j \<longleftrightarrow> j < 8 \<and> 8 \<le> j + r"
proof -
  have full: "bit (0xFF :: 8 word) i \<longleftrightarrow> i < 8" for i
  proof -
    have "(0xFF :: 8 word) = - 1" by simp
    then show ?thesis by (simp only: bit_minus_1_iff) simp
  qed
  have "bit (byte_mask r) j \<longleftrightarrow> j < 8 \<and> \<not> bit (0xFF :: 8 word) (r + j)"
    by (simp only: byte_mask_def bit_not_iff bit_drop_bit_eq comp_def) simp
  then show ?thesis using full[of "r + j"] by auto
qed

lemma masked_eq_iff: "x AND m = y AND m \<longleftrightarrow> (\<forall>j. bit m j \<longrightarrow> bit x j = bit y j)" for x y m :: "'a::len word"
  unfolding bit_eq_iff bit_and_iff using bit_imp_le_length[of m] by (auto simp: possible_bit_def)

lemma match4_prefix:
  assumes "b \<le> 32"
  shows "ip AND mask_of b = a AND mask_of b \<longleftrightarrow> (\<forall>i < b. bit ip (31 - i) = bit a (31 - i))"
  unfolding masked_eq_iff bit_mask_of[OF assms]
proof
  assume *: "\<forall>j. j < 32 \<and> 32 \<le> j + b \<longrightarrow> bit ip j = bit a j"
  show "\<forall>i < b. bit ip (31 - i) = bit a (31 - i)"
  proof (intro allI impI)
    fix i assume "i < b"
    then have "31 - i < 32 \<and> 32 \<le> 31 - i + b" using assms by linarith
    then show "bit ip (31 - i) = bit a (31 - i)" using * by blast
  qed
next
  assume *: "\<forall>i < b. bit ip (31 - i) = bit a (31 - i)"
  show "\<forall>j. j < 32 \<and> 32 \<le> j + b \<longrightarrow> bit ip j = bit a j"
  proof (intro allI impI)
    fix j assume j: "j < 32 \<and> 32 \<le> j + b"
    then have "31 - j < b" "31 - (31 - j) = j" by auto
    then show "bit ip j = bit a j" using * by metis
  qed
qed

lemma byte_prefix:
  assumes "r < 8"
  shows "x AND byte_mask r = y AND byte_mask r \<longleftrightarrow> (\<forall>i < r. bit x (7 - i) = bit y (7 - i))"
  unfolding masked_eq_iff bit_byte_mask[OF assms]
proof
  assume *: "\<forall>j. j < 8 \<and> 8 \<le> j + r \<longrightarrow> bit x j = bit y j"
  show "\<forall>i < r. bit x (7 - i) = bit y (7 - i)"
  proof (intro allI impI)
    fix i assume "i < r"
    then have "7 - i < 8 \<and> 8 \<le> 7 - i + r" using assms by linarith
    then show "bit x (7 - i) = bit y (7 - i)" using * by blast
  qed
next
  assume *: "\<forall>i < r. bit x (7 - i) = bit y (7 - i)"
  show "\<forall>j. j < 8 \<and> 8 \<le> j + r \<longrightarrow> bit x j = bit y j"
  proof (intro allI impI)
    fix j assume j: "j < 8 \<and> 8 \<le> j + r"
    then have "7 - j < r" "7 - (7 - j) = j" by auto
    then show "bit x j = bit y j" using * by metis
  qed
qed

lemma byte_eq_iff: "x = y \<longleftrightarrow> (\<forall>i < 8. bit x (7 - i) = bit y (7 - i))" for x y :: "8 word"
proof
  assume *: "\<forall>i < 8. bit x (7 - i) = bit y (7 - i)"
  show "x = y"
  proof (rule bit_word_eqI)
    fix j assume "j < LENGTH(8)"
    then have "7 - j < 8" "7 - (7 - j) = j" by auto
    then show "bit x j = bit y j" using * by metis
  qed
qed simp


lemma match6_prefix:
  assumes us: "length us = 16" and them: "length them = 16" and b: "bits \<le> 128"
  shows "match6 bits us them \<longleftrightarrow> (\<forall>i < bits. addr_bit (CA_V6 us p) i = addr_bit (CA_V6 them q) i)"
proof -
  let ?n = "bits div 8" and ?r = "bits mod 8"
  let ?same = "\<lambda>k j. bit (us ! k) (7 - j) = bit (them ! k) (7 - j)"
  have r: "?r < 8" by simp
  have "match6 bits us them \<longleftrightarrow> (\<forall>k < ?n. \<forall>j < 8. ?same k j) \<and> (\<forall>j < ?r. ?same ?n j)"
  proof -
    have full: "list_all (\<lambda>i. us ! i = them ! i) [0..<?n] \<longleftrightarrow> (\<forall>k < ?n. \<forall>j < 8. ?same k j)"
      by (auto simp: list_all_iff byte_eq_iff)
    have "?r = 0" if "\<not> ?n < 16" using that b by presburger
    then show ?thesis unfolding match6_def Let_def full using byte_prefix[OF r] by simp
  qed
  also have "\<dots> \<longleftrightarrow> (\<forall>i < bits. ?same (i div 8) (i mod 8))"
  proof
    assume L: "(\<forall>k < ?n. \<forall>j < 8. ?same k j) \<and> (\<forall>j < ?r. ?same ?n j)"
    show "\<forall>i < bits. ?same (i div 8) (i mod 8)"
    proof (intro allI impI)
      fix i assume i: "i < bits"
      have "i div 8 < ?n \<or> i div 8 = ?n \<and> i mod 8 < ?r"
        using i mult_div_mod_eq[of 8 i] mult_div_mod_eq[of 8 bits] mod_less_divisor[of 8 i]
          div_le_mono[of i bits 8] by linarith
      then show "?same (i div 8) (i mod 8)" using L by auto
    qed
  next
    assume R: "\<forall>i < bits. ?same (i div 8) (i mod 8)"
    have same: "?same k j" if "8 * k + j < bits" "j < 8" for k j
      using R[rule_format, OF that(1)] byte_index[OF that(2), of k] by simp
    have "?same ?n j" if "j < ?r" for j
      by (rule same) (use that mult_div_mod_eq[of 8 bits] r in linarith)+
    moreover have "?same k j" if "k < ?n" "j < 8" for k j
      by (rule same) (use that in auto)
    ultimately show "(\<forall>k < ?n. \<forall>j < 8. ?same k j) \<and> (\<forall>j < ?r. ?same ?n j)" by blast
  qed
  also have "\<dots> \<longleftrightarrow> (\<forall>i < bits. addr_bit (CA_V6 us p) i = addr_bit (CA_V6 them q) i)"
    using addr_bit_v6[OF us] addr_bit_v6[OF them] b by auto
  finally show ?thesis .
qed

lemma length_addr_bits [simp]: "length (addr_bits ca) = addr_width ca"
  by (simp add: addr_bits_def)

lemma take_addr_bits_eq:
  "bits \<le> addr_width a \<Longrightarrow> addr_width b = addr_width a \<Longrightarrow>
   take bits (addr_bits a) = take bits (addr_bits b) \<longleftrightarrow> (\<forall>i < bits. addr_bit a i = addr_bit b i)"
  by (auto simp: addr_bits_def list_eq_iff_nth_eq)

lemma nm_match_prefix:
  assumes nm: "nm_wf nm" and ip: "ca_wf ip"
  shows "nm_match nm ip =
    Some (addr_width ip = addr_width (d_network nm)
      \<and> take (d_bits nm) (addr_bits ip) = take (d_bits nm) (addr_bits (d_network nm)))"
proof (cases "d_network nm")
  case (CA_V4 a p)
  then have b: "d_bits nm \<le> 32" "d_mask nm = mask_of (d_bits nm)" using nm by (auto simp: nm_wf_def)
  show ?thesis
  proof (cases ip)
    case ip: (CA_V4 c q)
    then show ?thesis
      using CA_V4 b match4_prefix[OF b(1), of c a] take_addr_bits_eq[of "d_bits nm" ip "d_network nm"]
      by (simp add: nm_match_def match4_def)
  qed (use CA_V4 in \<open>simp_all add: nm_match_def\<close>)
next
  case (CA_V6 us p)
  then have b: "d_bits nm \<le> 128" "length us = 16" using nm by (auto simp: nm_wf_def)
  show ?thesis
  proof (cases ip)
    case ip6: (CA_V6 them q)
    then have "length them = 16" using ip by simp
    then have "match6 (d_bits nm) us them \<longleftrightarrow>
        take (d_bits nm) (addr_bits (d_network nm)) = take (d_bits nm) (addr_bits ip)"
      using match6_prefix[OF b(2) _ b(1), of them p q] take_addr_bits_eq[of "d_bits nm" "d_network nm" ip]
        CA_V6 ip6 b(1) by (simp del: addr_bit.simps)
    then show ?thesis using CA_V6 ip6 b(1) by (auto simp: nm_match_def)
  qed (use CA_V6 in \<open>simp_all add: nm_match_def\<close>)
qed (use nm in \<open>simp add: nm_wf_def\<close>)

section \<open>Properties of netmasks\<close>

text \<open>
  \<^verbatim>\<open>Netmask::match\<close> is prefix equality: a well-formed netmask matches an address exactly when both
  are of the same family and agree on the first \<open>d_bits\<close> bits. The IPv4 code masks a word, the IPv6
  code compares whole bytes and then the remaining bits.
\<close>

lemma netmask_match_is_prefix:
  assumes "nm_wf nm" and "ca_wf ip"
  shows "nm_match nm ip =
    Some (addr_width ip = addr_width (d_network nm)
      \<and> take (d_bits nm) (addr_bits ip) = take (d_bits nm) (addr_bits (d_network nm)))"
  using assms by (rule nm_match_prefix)

definition v6_demo :: ComboAddress where
  "v6_demo = CA_V6 [0x20, 0x01, 0x0d, 0xb8, 0, 0, 0, 0, 0, 0, 0, 0, 0, 0, 0, 1] 0"

text \<open>The masked address: every bit past the prefix is clear, the others are the address's.\<close>

lemma addr_width_masked [simp]: "addr_width (getMaskedNetwork nm) = addr_width (d_network nm)"
  by (simp add: getMaskedNetwork_def split: ComboAddress.splits)

lemma masked_wf: "nm_wf nm \<Longrightarrow> ca_wf (getMaskedNetwork nm)"
  by (auto simp: getMaskedNetwork_def nm_wf_def masked_bytes_def split: ComboAddress.splits)

lemma addr_bit_masked:
  assumes nm: "nm_wf nm" and i: "i < addr_width (d_network nm)"
  shows "addr_bit (getMaskedNetwork nm) i = (i < d_bits nm \<and> addr_bit (d_network nm) i)"
proof (cases "d_network nm")
  case (CA_V4 a p)
  then show ?thesis
    using nm i by (auto simp: getMaskedNetwork_def nm_wf_def bit_and_iff bit_mask_of)
next
  case (CA_V6 bs p)
  then have b: "d_bits nm \<le> 128" "length bs = 16" using nm by (auto simp: nm_wf_def)
  let ?k = "i div 8" and ?j = "i mod 8" and ?n = "d_bits nm div 8" and ?r = "d_bits nm mod 8"
  have i128: "i < 128" using i CA_V6 by simp
  then have k: "?k < 16" by auto
  have len: "length (masked_bytes (d_bits nm) bs) = 16" by (simp add: masked_bytes_def)
  have nth: "masked_bytes (d_bits nm) bs ! ?k = (if ?k < ?n then bs ! ?k else if ?k = ?n then bs ! ?k AND byte_mask ?r else 0)"
    using k by (simp add: masked_bytes_def)
  have "(?k < ?n \<or> ?k = ?n \<and> ?j < ?r) \<longleftrightarrow> i < d_bits nm"
    using mult_div_mod_eq[of 8 i] mult_div_mod_eq[of 8 "d_bits nm"] mod_less_divisor[of 8 i]
      div_le_mono[of i "d_bits nm" 8] by linarith
  moreover have "bit (bs ! ?k AND byte_mask ?r) (7 - ?j) \<longleftrightarrow> ?j < ?r \<and> bit (bs ! ?k) (7 - ?j)"
    unfolding bit_and_iff using bit_byte_mask[of ?r "7 - ?j"] by auto
  ultimately show ?thesis
    using CA_V6 nth addr_bit_v6[OF len i128] addr_bit_v6[OF b(2) i128]
    by (auto simp: getMaskedNetwork_def simp del: addr_bit.simps)
qed (use nm in \<open>simp add: nm_wf_def\<close>)

lemma addr_bits_inj:
  assumes "ca_wf a" "ca_wf b" "addr_width a = addr_width b" "addr_bits a = addr_bits b"
  shows "set_port 0 a = set_port 0 b"
proof (cases a)
  case (CA_V4 x p)
  then obtain y q where b: "b = CA_V4 y q" using assms(3) by (cases b) auto
  have "addr_bit a i = addr_bit b i" if "i < 32" for i
    using assms(4) that CA_V4 b arg_cong[OF assms(4), of "\<lambda>l. l ! i"] by (simp add: addr_bits_def)
  then have "bit x j = bit y j" if "j < 32" for j
    using that CA_V4 b spec[of "\<lambda>i. i < 32 \<longrightarrow> addr_bit a i = addr_bit b i" "31 - j"] by simp
  then have "x = y" by (intro bit_word_eqI) simp
  then show ?thesis using CA_V4 b by simp
next
  case (CA_V6 xs p)
  then obtain ys q where b: "b = CA_V6 ys q" using assms(3) by (cases b) auto
  have len: "length xs = 16" "length ys = 16" using assms(1,2) CA_V6 b by auto
  have bits: "bit (xs ! (i div 8)) (7 - i mod 8) = bit (ys ! (i div 8)) (7 - i mod 8)" if "i < 128" for i
    using arg_cong[OF assms(4), of "\<lambda>l. l ! i"] that CA_V6 b addr_bit_v6[OF len(1) that] addr_bit_v6[OF len(2) that]
    by (simp add: addr_bits_def del: addr_bit.simps)
  have "xs ! k = ys ! k" if "k < 16" for k
    unfolding byte_eq_iff
  proof (intro allI impI)
    fix j :: nat assume j: "j < 8"
    have "8 * k + j < 128" using that j by linarith
    from bits[OF this] show "bit (xs ! k) (7 - j) = bit (ys ! k) (7 - j)" using byte_index[OF j, of k] by simp
  qed
  then have "xs = ys" using len by (auto intro: nth_equalityI)
  then show ?thesis using CA_V6 b by simp
qed (use assms(3) in \<open>cases b; simp\<close>)

lemma masked_eq_iff_prefix:
  assumes a: "nm_wf a" and b: "nm_wf b" and w: "addr_width (d_network a) = addr_width (d_network b)"
    and bits: "d_bits a = d_bits b"
  shows "set_port 0 (getMaskedNetwork a) = set_port 0 (getMaskedNetwork b) \<longleftrightarrow>
    take (d_bits a) (addr_bits (d_network a)) = take (d_bits a) (addr_bits (d_network b))"
proof -
  have le: "d_bits a \<le> addr_width (d_network a)"
    using a by (auto simp: nm_wf_def split: ComboAddress.splits)
  have "addr_bits (getMaskedNetwork a) = addr_bits (getMaskedNetwork b) \<longleftrightarrow>
      (\<forall>i < d_bits a. addr_bit (d_network a) i = addr_bit (d_network b) i)"
  proof -
    have "addr_bits (getMaskedNetwork a) = addr_bits (getMaskedNetwork b) \<longleftrightarrow>
      (\<forall>i < addr_width (d_network a). addr_bit (getMaskedNetwork a) i = addr_bit (getMaskedNetwork b) i)"
      using w by (auto simp: addr_bits_def list_eq_iff_nth_eq)
    also have "\<dots> \<longleftrightarrow> (\<forall>i < addr_width (d_network a).
        (i < d_bits a \<and> addr_bit (d_network a) i) = (i < d_bits a \<and> addr_bit (d_network b) i))"
      using addr_bit_masked[OF a] addr_bit_masked[OF b] w bits by simp
    finally show ?thesis using le by (meson order.strict_trans2)
  qed
  moreover have "addr_bits (set_port 0 c) = addr_bits c" for c
    by (cases c) (auto simp: addr_bits_def)
  moreover have "set_port 0 (getMaskedNetwork a) = set_port 0 (getMaskedNetwork b) \<longleftrightarrow>
      addr_bits (getMaskedNetwork a) = addr_bits (getMaskedNetwork b)"
    using addr_bits_inj[OF masked_wf[OF a] masked_wf[OF b]] w calculation(2) by (metis addr_width_masked)
  ultimately show ?thesis using take_addr_bits_eq[OF le] w by simp
qed


text \<open>
  Two addresses of a family have the same masked network exactly when they share the prefix: what
  \<^verbatim>\<open>getMaskedNetwork\<close> (and with it \<^verbatim>\<open>toStringNetwork\<close>) clears is precisely the host part. The
  network of a netmask is matched by it, for both families and every prefix length.
\<close>

lemma masked_network_is_prefix:
  assumes "nm_wf a" and "nm_wf b" and "addr_width (d_network a) = addr_width (d_network b)"
    and "d_bits a = d_bits b"
  shows "(set_port 0 (getMaskedNetwork a) = set_port 0 (getMaskedNetwork b) \<longleftrightarrow>
      nm_match a (d_network b) = Some True)
    \<and> nm_match a (getMaskedNetwork a) = Some True"
proof -
  have wf: "ca_wf (d_network b)" using assms(2) by (auto simp: nm_wf_def split: ComboAddress.splits)
  have "take (d_bits a) (addr_bits (getMaskedNetwork a)) = take (d_bits a) (addr_bits (d_network a))"
    using assms(1) by (auto simp: addr_bits_def list_eq_iff_nth_eq addr_bit_masked)
  then show ?thesis
    using nm_match_prefix[OF assms(1) wf] nm_match_prefix[OF assms(1) masked_wf[OF assms(1)]]
      masked_eq_iff_prefix[OF assms] assms(3) by auto
qed

text \<open>The printed form of an address is read back as that address and has no slash in it.\<close>

definition prints_back :: "netlib \<Rightarrow> ComboAddress \<Rightarrow> bool" where
  "prints_back N ca \<longleftrightarrow>
     (case getnameinfo N ca of
        None \<Rightarrow> False
      | Some s \<Rightarrow> CHR ''/'' \<notin> set s \<and> makeComboAddress N s = Inr ca)"

lemma toStringNetwork_eq:
  "nm_wf nm \<Longrightarrow> toStringNetwork N nm = ca_toString N (set_port 0 (getMaskedNetwork nm)) @ ''/'' @ nat_to_string (d_bits nm)"
  by (auto simp: toStringNetwork_def getMaskedNetwork_def nm_wf_def split: ComboAddress.splits)

lemma print_parse:
  assumes wf: "nm_wf nm" and pb: "prints_back N (set_port 0 (getMaskedNetwork nm))"
  shows "Netmask_of_string N (toStringNetwork N nm) =
    Inr \<lparr>d_network = set_port 0 (getMaskedNetwork nm), d_mask = mask_of (d_bits nm), d_bits = d_bits nm\<rparr>"
proof -
  let ?ca = "set_port 0 (getMaskedNetwork nm)"
  obtain s where s: "getnameinfo N ?ca = Some s" "CHR ''/'' \<notin> set s" "makeComboAddress N s = Inr ?ca"
    using pb by (auto simp: prints_back_def split: option.splits)
  have bits: "d_bits nm < 256" using wf by (auto simp: nm_wf_def split: ComboAddress.splits)
  have "?ca \<noteq> CA_None" using wf by (cases "d_network nm") (auto simp: nm_wf_def getMaskedNetwork_def)
  then have "toStringNetwork N nm = s @ CHR ''/'' # nat_to_string (d_bits nm)"
    using s(1) by (simp add: toStringNetwork_eq[OF wf] ca_toString_def)
  then show ?thesis
    using splitField_append[OF s(2)] s(3) bits
    by (simp add: Netmask_of_string_def pdns_stou_nat_to_string Let_def)
qed

text \<open>
  Printing and parsing: where the C library parses the printed form of the masked address back to
  it, \<^verbatim>\<open>Netmask(nm.toStringNetwork())\<close> is the netmask with its host bits cleared.
\<close>

lemma netmask_print_parse:
  assumes wf: "nm_wf nm" and pb: "prints_back N (set_port 0 (getMaskedNetwork nm))"
  shows "Netmask_of_string N (toStringNetwork N nm) =
    Inr \<lparr>d_network = set_port 0 (getMaskedNetwork nm), d_mask = mask_of (d_bits nm), d_bits = d_bits nm\<rparr>"
  using assms by (rule print_parse)

definition demo_net :: netlib where
  "demo_net = \<lparr>inet_pton4 = (\<lambda>s. if s = ''10.0.0.0'' then Some 0x0A000000 else None),
     inet_aton = (\<lambda>s. if s = ''10.0.0.0'' then Some 0x0A000000 else None),
     inet_pton6 = (\<lambda>_. None), getaddrinfo6 = (\<lambda>_. None),
     getnameinfo = (\<lambda>ca. if ca = CA_V4 0x0A000000 0 then Some ''10.0.0.0'' else None)\<rparr>"

text \<open>
  The string constructor does not check the prefix length: the number is cut to eight bits, so a
  suffix of 256 means a mask of length 0, which matches every address of the family, and an IPv4
  prefix length from 33 to 255 is kept as it is (the constructor from an address caps it at 32).
\<close>

lemma netmask_string_length_unchecked:
  assumes "inet_pton4 N addr = Some a" and "CHR ''/'' \<notin> set addr" and "c_str addr = addr"
  shows "(\<exists>nm. Netmask_of_string N (addr @ ''/256'') = Inr nm \<and> d_bits nm = 0 \<and> (\<forall>b p. nm_match nm (CA_V4 b p) = Some True))
    \<and> (\<exists>nm. Netmask_of_string N (addr @ ''/33'') = Inr nm \<and> d_bits nm = 33 \<and> \<not> nm_wf nm)
    \<and> d_bits (new_Netmask (CA_V4 a 0) 33) = 32"
proof -
  have n: "pdns_stou ''256'' = Inr 256" "pdns_stou ''33'' = Inr 33"
    by (simp_all add: pdns_stou_def stoul_def strto_subject_def c_str_def isspace_c_def isdigit_c_def
        digits_value_def digit_value_def Let_def)
  show ?thesis
    using assms splitField_append[OF assms(2), of "''256''"] splitField_append[OF assms(2), of "''33''"]
    by (simp add: Netmask_of_string_def makeComboAddress_def n Let_def nm_match_def match4_def mask_of_0
        nm_wf_def new_Netmask_def)
qed

section \<open>The order of addresses\<close>

lemma be32_from_be32: "length bs = 4 \<Longrightarrow> be32 (from_be32 bs) = bs"
proof -
  assume "length bs = 4"
  then obtain a b c d where bs: "bs = [a, b, c, d]" by (auto simp: length_Suc_conv numeral_eq_Suc)
  have "ucast (drop_bit 24 (from_be32 bs)) = a" "ucast (drop_bit 16 (from_be32 bs)) = b"
    "ucast (drop_bit 8 (from_be32 bs)) = c" "ucast (from_be32 bs) = d"
    by (rule bit_word_eqI; auto simp: bs from_be32_def bit_simps dest: bit_imp_le_length)+
  then show ?thesis by (simp add: be32_def bs)
qed

lemma swap32_inj: "from_le32 (be32 a) = from_le32 (be32 b) \<Longrightarrow> a = b"
proof -
  assume "from_le32 (be32 a) = from_le32 (be32 b)"
  then have "be32 (from_be32 (rev (be32 a))) = be32 (from_be32 (rev (be32 b)))" by (simp add: from_le32_def)
  then have "be32 a = be32 b" by (simp add: be32_from_be32)
  then show ?thesis by (metis from_be32_be32)
qed

lemma sin_port_inj: "sin_port a = sin_port b \<Longrightarrow> getPort a = getPort b"
proof -
  assume eq: "sin_port a = sin_port b"
  have "unat x < 2 ^ LENGTH(16)" for x :: "16 word" by (rule unsigned_less)
  then have lt: "unat (getPort a) < 65536" "unat (getPort b) < 65536" by simp_all
  have dm: "x div 256 = (y * 256 + x div 256) mod 256" "y = (y * 256 + x div 256) div 256" if "x < 65536" for x y :: nat
    using that by auto
  have "unat (getPort a) div 256 = unat (getPort b) div 256" "unat (getPort a) mod 256 = unat (getPort b) mod 256"
    using eq dm(1)[OF lt(1), of "unat (getPort a) mod 256"] dm(1)[OF lt(2), of "unat (getPort b) mod 256"]
      dm(2)[OF lt(1), of "unat (getPort a) mod 256"] dm(2)[OF lt(2), of "unat (getPort b) mod 256"]
    unfolding sin_port_def Let_def by metis+
  then have "unat (getPort a) = unat (getPort b)" by (metis mult_div_mod_eq)
  then show ?thesis by (rule word_unat_eq_iff[THEN iffD2])
qed

lemma ca_key_inj:
  assumes "sin_family a = sin_family b" "sin_port a = sin_port b" "addr_key a = addr_key b"
  shows "a = b"
proof -
  have inj: "inj (unat :: 8 word \<Rightarrow> nat)" by (rule injI) (rule word_unat_eq_iff[THEN iffD2])
  note port = sin_port_inj[OF assms(2)]
  show ?thesis
  proof (cases a)
    case (CA_V4 x p)
    then obtain y q where b: "b = CA_V4 y q" using assms(1) by (cases b) auto
    have "from_le32 (be32 x) = from_le32 (be32 y)"
      using assms(3) CA_V4 b by (intro word_unat_eq_iff[THEN iffD2]) simp
    then show ?thesis using swap32_inj port CA_V4 b by simp
  next
    case (CA_V6 xs p)
    then obtain ys q where b: "b = CA_V6 ys q" using assms(1) by (cases b) auto
    have "map unat xs = map unat ys" using assms(3) CA_V6 b by simp
    then have "xs = ys" using inj by (rule map_injective)
    then show ?thesis using port CA_V6 b by simp
  next
    case CA_None
    then show ?thesis using assms(1) by (cases b) auto
  qed
qed

lemma ca_less_eq:
  "ca_less a b \<longleftrightarrow> sin_family a \<noteq> 0 \<and>
     (sin_family a < sin_family b \<or> sin_family a = sin_family b \<and>
       (sin_port a < sin_port b \<or> sin_port a = sin_port b \<and> addr_key a < addr_key b))"
  by (auto simp: ca_less_def)

text \<open>
  The order of addresses is a strict total order on valid addresses (irreflexive, transitive, and
  two addresses of which neither is smaller are equal), as the ordered containers that are keyed by
  addresses need it.
\<close>

lemma address_order_total:
  "\<not> ca_less a a \<and> (ca_less a b \<longrightarrow> ca_less b c \<longrightarrow> ca_less a c)
   \<and> (a \<noteq> CA_None \<longrightarrow> b \<noteq> CA_None \<longrightarrow> \<not> ca_less a b \<longrightarrow> \<not> ca_less b a \<longrightarrow> a = b)"
proof (intro conjI impI)
  show "\<not> ca_less a a" by (simp add: ca_less_eq)
  show "ca_less a c" if "ca_less a b" "ca_less b c" using that by (auto simp: ca_less_eq)
  show "a = b" if "a \<noteq> CA_None" "b \<noteq> CA_None" "\<not> ca_less a b" "\<not> ca_less b a"
  proof (rule ca_key_inj)
    have "sin_family a \<noteq> 0" "sin_family b \<noteq> 0" using that(1,2) by (cases a; cases b; simp)+
    then show "sin_family a = sin_family b" "sin_port a = sin_port b" "addr_key a = addr_key b"
      using that(3,4) by (auto simp: ca_less_eq not_less)
  qed
qed

end
