(* ===== verification/Netmask_Tree.thy ===== *)
theory Netmask_Tree
  imports Netmask
begin

text \<open>
  \<^verbatim>\<open>NetmaskTree\<close> and \<^verbatim>\<open>NetmaskGroup\<close> of \<^verbatim>\<open>common/iputils.hh\<close>: a binary tree with one level per prefix
  bit, in which every node may hold an IPv4 and an IPv6 value. A null pointer is \<open>TNil\<close>. The set
  \<^verbatim>\<open>_nodes\<close> of pointers to the stored values is a list of the positions (family and path) of these
  values. A key with more bits than its family has indexes a \<^verbatim>\<open>bitset\<close> out of range (\<open>Undef\<close>).
\<close>

section \<open>The tree\<close>

datatype 'v tree_node =
    TNil
  | TNode (left_c: "'v tree_node") (right_c: "'v tree_node") (node4: "'v option") (node6: "'v option")

type_synonym position = "bool \<times> bool list"

record 'v NetmaskTree =
  root :: "(Netmask \<times> 'v) tree_node"
  nodes :: "position list"
  d_cleanup_tree :: bool

definition new_NetmaskTree :: "bool \<Rightarrow> 'v NetmaskTree" where
  "new_NetmaskTree cleanup = \<lparr>root = TNil, nodes = [], d_cleanup_tree = cleanup\<rparr>"

definition new_TreeNode :: "'v tree_node" where
  "new_TreeNode = TNode TNil TNil None None"

text \<open>The value of a node for a family (\<open>True\<close> is IPv4), and setting it.\<close>

definition node_val :: "bool \<Rightarrow> 'v tree_node \<Rightarrow> 'v option" where
  "node_val v4 t = (case t of TNil \<Rightarrow> None | TNode _ _ n4 n6 \<Rightarrow> if v4 then n4 else n6)"

definition set_val :: "bool \<Rightarrow> 'v option \<Rightarrow> 'v tree_node \<Rightarrow> 'v tree_node" where
  "set_val v4 v t =
     (case t of
        TNil \<Rightarrow> TNil
      | TNode l r n4 n6 \<Rightarrow> if v4 then TNode l r v n6 else TNode l r n4 v)"

definition key_family :: "ComboAddress \<Rightarrow> bool" where
  "key_family ca = isIpv4 ca"

definition key_path :: "Netmask \<Rightarrow> bool list option" where
  "key_path key =
     (if addr_width (d_network key) < d_bits key then None
      else Some (take (d_bits key) (addr_bits (d_network key))))"

text \<open>The descent of \<^verbatim>\<open>insert\<close>, which makes the nodes that are missing; \<open>f\<close> makes the value of the last node.\<close>

definition make_node :: "'v tree_node \<Rightarrow> 'v tree_node" where
  "make_node t = (if t = TNil then new_TreeNode else t)"

fun insert_at :: "bool \<Rightarrow> ('v option \<Rightarrow> 'v) \<Rightarrow> bool list \<Rightarrow> 'v tree_node \<Rightarrow> 'v tree_node" where
  "insert_at v4 f [] t = set_val v4 (Some (f (node_val v4 (make_node t)))) (make_node t)"
| "insert_at v4 f (val # path) t =
     (case make_node t of
        TNil \<Rightarrow> TNil
      | TNode l r n4 n6 \<Rightarrow>
          if val then TNode l (insert_at v4 f path r) n4 n6 else TNode (insert_at v4 f path l) r n4 n6)"

definition nt_insert ::
    "Netmask \<Rightarrow> ('v option \<Rightarrow> 'v) \<Rightarrow> 'v NetmaskTree \<Rightarrow> ('v NetmaskTree, unit) outcome" where
  "nt_insert key second t =
     (case key_path key of
        None \<Rightarrow> Undef
      | Some path \<Rightarrow>
          (let v4 = key_family (d_network key)
           in Ret (t\<lparr>root := insert_at v4 (\<lambda>old. (key, second (map_option snd old))) path (root t),
                     nodes := List.insert (v4, path) (nodes t)\<rparr>) ()))"

definition insert_or_assign :: "Netmask \<Rightarrow> 'v \<Rightarrow> 'v NetmaskTree \<Rightarrow> ('v NetmaskTree, unit) outcome" where
  "insert_or_assign msk value t = nt_insert msk (\<lambda>_. value) t"

text \<open>The descent of \<^verbatim>\<open>lookup\<close>: the last value seen so far is \<open>ret\<close>.\<close>

fun lookup_loop :: "bool \<Rightarrow> bool list \<Rightarrow> 'v tree_node \<Rightarrow> 'v option \<Rightarrow> 'v option" where
  "lookup_loop v4 path TNil ret = ret"
| "lookup_loop v4 [] (TNode l r n4 n6) ret =
     (case (if v4 then n4 else n6) of None \<Rightarrow> ret | Some v \<Rightarrow> Some v)"
| "lookup_loop v4 (val # path) (TNode l r n4 n6) ret =
     (let ret' = (case (if v4 then n4 else n6) of None \<Rightarrow> ret | Some v \<Rightarrow> Some v)
      in if val then (if r = TNil then ret' else lookup_loop v4 path r ret')
         else (if l = TNil then ret' else lookup_loop v4 path l ret'))"

definition nt_lookup :: "ComboAddress \<Rightarrow> int \<Rightarrow> 'v NetmaskTree \<Rightarrow> (Netmask \<times> 'v) option" where
  "nt_lookup value max_bits t =
     (let mb = nat (max 0 (min max_bits (if isIpv4 value then 32 else 128)))
      in lookup_loop (key_family value) (take mb (addr_bits value)) (root t) None)"

definition nt_lookup_key :: "Netmask \<Rightarrow> 'v NetmaskTree \<Rightarrow> (Netmask \<times> 'v) option" where
  "nt_lookup_key key t = nt_lookup (d_network key) (int (d_bits key)) t"

definition nm_eq :: "Netmask \<Rightarrow> Netmask \<Rightarrow> bool" where
  "nm_eq a b \<longleftrightarrow> d_network a = d_network b \<and> d_bits a = d_bits b"

definition has_key :: "Netmask \<Rightarrow> 'v NetmaskTree \<Rightarrow> bool" where
  "has_key key t = (case nt_lookup_key key t of None \<Rightarrow> False | Some node \<Rightarrow> nm_eq (fst node) key)"

text \<open>
  The descent of \<^verbatim>\<open>erase\<close>: \<open>None\<close> when the path ends before the key does. On the way back
  \<^verbatim>\<open>cleanup_tree\<close> cuts the nodes that have become useless; it stops at the first node that is still
  in use, and never removes the root.
\<close>

definition useless :: "'v tree_node \<Rightarrow> bool" where
  "useless t = (case t of TNil \<Rightarrow> False | TNode l r n4 n6 \<Rightarrow> l = TNil \<and> r = TNil \<and> n6 = None \<and> n4 = None)"

definition prune :: "bool \<Rightarrow> 'v tree_node \<Rightarrow> 'v tree_node" where
  "prune cleanup t = (if cleanup \<and> useless t then TNil else t)"

fun erase_at :: "bool \<Rightarrow> bool \<Rightarrow> bool list \<Rightarrow> 'v tree_node \<Rightarrow> 'v tree_node option" where
  "erase_at cleanup v4 path TNil = None"
| "erase_at cleanup v4 [] (TNode l r n4 n6) = Some (set_val v4 None (TNode l r n4 n6))"
| "erase_at cleanup v4 (val # path) (TNode l r n4 n6) =
     (if val then map_option (\<lambda>r'. TNode l (prune cleanup r') n4 n6) (erase_at cleanup v4 path r)
      else map_option (\<lambda>l'. TNode (prune cleanup l') r n4 n6) (erase_at cleanup v4 path l))"

definition nt_erase :: "Netmask \<Rightarrow> 'v NetmaskTree \<Rightarrow> ('v NetmaskTree, unit) outcome" where
  "nt_erase key t =
     (if root t = TNil then Ret t ()
      else case key_path key of
             None \<Rightarrow> Undef
           | Some path \<Rightarrow>
               (let v4 = key_family (d_network key)
                in case erase_at (d_cleanup_tree t) v4 path (root t) of
                     None \<Rightarrow> Ret t ()
                   | Some root' \<Rightarrow> Ret (t\<lparr>root := root', nodes := remove1 (v4, path) (nodes t)\<rparr>) ()))"

definition nt_empty :: "'v NetmaskTree \<Rightarrow> bool" where
  "nt_empty t \<longleftrightarrow> nodes t = []"

definition nt_size :: "'v NetmaskTree \<Rightarrow> nat" where
  "nt_size t = length (nodes t)"

definition nt_match :: "ComboAddress \<Rightarrow> 'v NetmaskTree \<Rightarrow> bool" where
  "nt_match value t \<longleftrightarrow> nt_lookup value 128 t \<noteq> None"

definition nt_clear :: "'v NetmaskTree \<Rightarrow> 'v NetmaskTree" where
  "nt_clear t = t\<lparr>nodes := [], root := TNil\<rparr>"

definition nt_swap :: "'v NetmaskTree \<Rightarrow> 'v NetmaskTree \<Rightarrow> 'v NetmaskTree \<times> 'v NetmaskTree" where
  "nt_swap a b =
     (a\<lparr>root := root b, nodes := nodes b\<rparr>, b\<lparr>root := root a, nodes := nodes a\<rparr>)"

section \<open>The tree as a map from prefixes\<close>

fun val_at :: "bool \<Rightarrow> bool list \<Rightarrow> 'v tree_node \<Rightarrow> 'v option" where
  "val_at v4 path TNil = None"
| "val_at v4 [] (TNode l r n4 n6) = (if v4 then n4 else n6)"
| "val_at v4 (val # path) (TNode l r n4 n6) = val_at v4 path (if val then r else l)"

lemma val_at_new [simp]: "val_at v4 p (TNode TNil TNil None None) = None"
  by (cases p) auto

lemma make_node_TNode: "\<exists>l r n4 n6. make_node t = TNode l r n4 n6"
  by (cases t) (auto simp: make_node_def new_TreeNode_def)

lemma val_at_make [simp]: "val_at v4 p (make_node t) = val_at v4 p t"
  by (simp add: make_node_def new_TreeNode_def)

lemma val_at_insert:
  "val_at v4' p' (insert_at v4 f p t) =
     (if v4' = v4 \<and> p' = p then Some (f (val_at v4 p t)) else val_at v4' p' t)"
proof (induction p arbitrary: p' t)
  case Nil
  obtain l r n4 n6 where m: "make_node t = TNode l r n4 n6" using make_node_TNode by blast
  show ?case
    using val_at_make[of v4' p' t] val_at_make[of v4 "[]" t]
    by (cases p') (auto simp: m set_val_def node_val_def)
next
  case (Cons b p)
  obtain l r n4 n6 where m: "make_node t = TNode l r n4 n6" using make_node_TNode by blast
  show ?case
    using val_at_make[of v4' p' t] val_at_make[of v4 "b # p" t] Cons.IH
    by (cases p') (auto simp: m)
qed

lemma useless_val: "useless t \<Longrightarrow> val_at v4 p t = None"
  by (cases t; cases p) (auto simp: useless_def)

lemma val_at_prune [simp]: "val_at v4 p (prune c t) = val_at v4 p t"
  by (auto simp: prune_def useless_val)

lemma val_at_erase:
  "erase_at c v4 p t = Some t' \<Longrightarrow>
   val_at v4' p' t' = (if v4' = v4 \<and> p' = p then None else val_at v4' p' t)"
proof (induction c v4 p t arbitrary: p' t' rule: erase_at.induct)
  case (2 c v4 l r n4 n6)
  then show ?case by (cases p') (auto simp: set_val_def)
next
  case (3 c v4 val path l r n4 n6)
  then show ?case by (cases p') (auto split: if_splits)
qed simp

lemma erase_at_None: "erase_at c v4 p t = None \<Longrightarrow> val_at v4 p t = None"
  by (induction c v4 p t rule: erase_at.induct) (auto split: if_splits)

text \<open>The longest prefix of \<open>path\<close> at which the tree has a value.\<close>

definition best_prefix :: "(bool list \<Rightarrow> 'v option) \<Rightarrow> bool list \<Rightarrow> 'v option" where
  "best_prefix m path =
     (case filter (\<lambda>p. m p \<noteq> None) (rev (prefixes path)) of [] \<Rightarrow> None | p # _ \<Rightarrow> m p)"

lemma best_prefix_Nil: "best_prefix m [] = m []"
  by (simp add: best_prefix_def)

lemma best_prefix_Cons:
  "best_prefix m (b # path) =
     (case best_prefix (\<lambda>p. m (b # p)) path of None \<Rightarrow> m [] | Some v \<Rightarrow> Some v)"
proof -
  have "filter (\<lambda>p. m p \<noteq> None) (rev (prefixes (b # path))) =
     map (Cons b) (filter (\<lambda>p. m (b # p) \<noteq> None) (rev (prefixes path))) @ (if m [] = None then [] else [[]])"
    by (simp add: rev_map filter_map comp_def)
  then show ?thesis
    by (auto simp: best_prefix_def split: list.splits option.splits dest: filter_eq_ConsD)
qed

lemma best_prefix_None: "best_prefix (\<lambda>p. None) path = None"
  by (simp add: best_prefix_def)

lemma lookup_loop_best:
  "lookup_loop v4 path t ret =
     (case best_prefix (\<lambda>p. val_at v4 p t) path of None \<Rightarrow> ret | Some v \<Rightarrow> Some v)"
proof (induction v4 path t ret rule: lookup_loop.induct)
  case (2 v4 l r n4 n6 ret)
  then show ?case by (auto simp: best_prefix_Nil split: option.splits)
next
  case (3 v4 val path l r n4 n6 ret)
  then show ?case
    by (auto simp: best_prefix_Cons best_prefix_None Let_def split: option.splits)
qed (simp add: best_prefix_None)

lemma best_prefix_Some:
  "best_prefix m path = Some v \<longleftrightarrow>
     (\<exists>p. prefix p path \<and> m p = Some v \<and> (\<forall>q. prefix q path \<and> length p < length q \<longrightarrow> m q = None))"
proof (induction path arbitrary: m v)
  case Nil
  then show ?case by (auto simp: best_prefix_Nil)
next
  case (Cons b path)
  show ?case
  proof (cases "best_prefix (\<lambda>p. m (b # p)) path")
    case None
    have none: "m (b # p) = None" if "prefix p path" for p
    proof -
      have "\<not> (\<exists>p \<in> set (prefixes path). m (b # p) \<noteq> None)"
        using None by (auto simp: best_prefix_def filter_empty_conv split: list.splits dest: filter_eq_ConsD)
      then show ?thesis using that by auto
    qed
    then show ?thesis using None by (auto simp: best_prefix_Cons prefix_Cons)
  next
    case (Some w)
    then obtain p where p: "prefix p path" "m (b # p) = Some w"
      "\<forall>q. prefix q path \<and> length p < length q \<longrightarrow> m (b # q) = None"
      using Cons.IH[of "\<lambda>p. m (b # p)" w] by blast
    show ?thesis
    proof
      assume "best_prefix m (b # path) = Some v"
      then have "w = v" using Some by (simp add: best_prefix_Cons)
      then show "\<exists>p. prefix p (b # path) \<and> m p = Some v \<and> (\<forall>q. prefix q (b # path) \<and> length p < length q \<longrightarrow> m q = None)"
        using p by (intro exI[of _ "b # p"]) (auto simp: prefix_Cons)
    next
      assume "\<exists>p. prefix p (b # path) \<and> m p = Some v \<and> (\<forall>q. prefix q (b # path) \<and> length p < length q \<longrightarrow> m q = None)"
      then obtain p' where p': "prefix p' (b # path)" "m p' = Some v"
        "\<forall>q. prefix q (b # path) \<and> length p' < length q \<longrightarrow> m q = None" by blast
      have "length p' = length (b # p)"
      proof (rule ccontr)
        assume "length p' \<noteq> length (b # p)"
        then consider "length p' < length (b # p)" | "length (b # p) < length p'" by linarith
        then show False
        proof cases
          case 1
          then have "m (b # p) = None" using p' p(1) by auto
          then show False using p(2) by simp
        next
          case 2
          then obtain q where "p' = b # q" "prefix q path" using p'(1) by (cases p') auto
          then show False using p(3) p'(2) 2 by auto
        qed
      qed
      moreover have "p' = take (length p') (b # path)" "b # p = take (length (b # p)) (b # path)"
        using p'(1) p(1) by (auto simp: prefix_def)
      ultimately have "p' = b # p" by simp
      then show "best_prefix m (b # path) = Some v" using Some p(2) p'(2) by (simp add: best_prefix_Cons)
    qed
  qed
qed


text \<open>The tree is a store of values by position, with and without the cleanup of useless nodes.\<close>

interpretation tree_store: keyed_store "\<lambda>_. True" "\<lambda>t (v4, p). val_at v4 p t"
  "\<lambda>(v4, p) v t. insert_at v4 (\<lambda>_. v) p t"
  "\<lambda>(v4, p) t. case erase_at c v4 p t of None \<Rightarrow> t | Some t' \<Rightarrow> t'"
  for c :: bool
  by unfold_locales (auto simp: val_at_insert val_at_erase erase_at_None split: option.splits if_splits)

section \<open>Cleanup\<close>

fun compact :: "'v tree_node \<Rightarrow> bool" where
  "compact TNil = True"
| "compact (TNode l r n4 n6) = (compact l \<and> compact r \<and> \<not> useless l \<and> \<not> useless r)"

lemma compact_make_node: "compact t \<Longrightarrow> compact (make_node t)"
  by (simp add: make_node_def new_TreeNode_def useless_def)

lemma insert_at_not_TNil [simp]: "insert_at v4 f p t \<noteq> TNil"
  using make_node_TNode[of t] by (cases p) (auto simp: set_val_def split: if_splits)

lemma insert_at_used [simp]: "\<not> useless (insert_at v4 f p t)"
  using make_node_TNode[of t]
  by (cases p) (auto simp: set_val_def useless_def split: tree_node.splits)

lemma compact_insert: "compact t \<Longrightarrow> compact (insert_at v4 f p t)"
proof (induction p arbitrary: t)
  case Nil
  then show ?case using compact_make_node[OF Nil] make_node_TNode[of t] by (auto simp: set_val_def)
next
  case (Cons b p)
  obtain l r n4 n6 where m: "make_node t = TNode l r n4 n6" using make_node_TNode by blast
  then show ?case using compact_make_node[OF Cons.prems] Cons.IH by auto
qed

lemma compact_prune: "compact t \<Longrightarrow> compact (prune True t) \<and> \<not> useless (prune True t)"
  by (simp add: prune_def useless_def)

lemma compact_erase: "compact t \<Longrightarrow> erase_at True v4 p t = Some t' \<Longrightarrow> compact t'"
proof (induction "True" v4 p t arbitrary: t' rule: erase_at.induct)
  case (2 v4 l r n4 n6)
  then show ?case by (auto simp: set_val_def)
next
  case (3 v4 val path l r n4 n6)
  then show ?case by (auto split: if_splits simp: compact_prune)
qed simp

lemma prune_make_node: "\<not> useless t \<Longrightarrow> prune True (make_node t) = t"
  by (simp add: prune_def make_node_def new_TreeNode_def useless_def)

lemma erase_insert:
  "compact t \<Longrightarrow> val_at v4 p t = None \<Longrightarrow> erase_at True v4 p (insert_at v4 f p t) = Some (make_node t)"
proof (induction p arbitrary: t)
  case Nil
  obtain l r n4 n6 where m: "make_node t = TNode l r n4 n6" using make_node_TNode by blast
  then show ?case using Nil.prems(2) val_at_make[of v4 "[]" t] by (auto simp: set_val_def)
next
  case (Cons b p)
  obtain l r n4 n6 where m: "make_node t = TNode l r n4 n6" using make_node_TNode by blast
  have c: "compact l" "compact r" "\<not> useless l" "\<not> useless r"
    using compact_make_node[OF Cons.prems(1)] m by auto
  have "val_at v4 p (if b then r else l) = None" using Cons.prems(2) val_at_make[of v4 "b # p" t] m by simp
  then show ?case using Cons.IH c prune_make_node m by (cases b) auto
qed

section \<open>The invariant of a netmask tree\<close>

definition stored :: "'v NetmaskTree \<Rightarrow> Netmask \<times> 'v \<Rightarrow> bool" where
  "stored t x \<longleftrightarrow> (\<exists>v4 p. val_at v4 p (root t) = Some x)"

definition nt_ok :: "'v NetmaskTree \<Rightarrow> bool" where
  "nt_ok t \<longleftrightarrow>
     distinct (nodes t) \<and> set (nodes t) = {(v4, p). val_at v4 p (root t) \<noteq> None}
     \<and> (\<forall>v4 p k v. val_at v4 p (root t) = Some (k, v) \<longrightarrow>
          nm_wf k \<and> key_path k = Some p \<and> key_family (d_network k) = v4)
     \<and> (d_cleanup_tree t \<longrightarrow> compact (root t))"

lemma nm_wf_path: "nm_wf k \<Longrightarrow> key_path k = Some (take (d_bits k) (addr_bits (d_network k)))"
  by (auto simp: nm_wf_def key_path_def split: ComboAddress.splits)

lemma new_NetmaskTree_ok: "nt_ok (new_NetmaskTree c)"
  by (simp add: nt_ok_def new_NetmaskTree_def)

lemma nt_clear_ok: "nt_ok (nt_clear t)"
  by (simp add: nt_ok_def nt_clear_def)

lemma nt_insert_spec:
  assumes ok: "nt_ok t" and k: "nm_wf key"
  obtains t' where "nt_insert key g t = Ret t' ()" "nt_ok t'"
    "\<And>v4 p. val_at v4 p (root t') =
      (if v4 = key_family (d_network key) \<and> key_path key = Some p
       then Some (key, g (map_option snd (val_at v4 p (root t)))) else val_at v4 p (root t))"
    "d_cleanup_tree t' = d_cleanup_tree t"
proof -
  let ?p = "take (d_bits key) (addr_bits (d_network key))" and ?v = "key_family (d_network key)"
  let ?t = "t\<lparr>root := insert_at ?v (\<lambda>old. (key, g (map_option snd old))) ?p (root t),
              nodes := List.insert (?v, ?p) (nodes t)\<rparr>"
  note path = nm_wf_path[OF k]
  have "nt_insert key g t = Ret ?t ()" by (simp add: nt_insert_def path Let_def)
  moreover have "nt_ok ?t"
    using ok k path by (auto simp: nt_ok_def val_at_insert compact_insert split: if_splits)
  ultimately show ?thesis using that[of ?t] path by (auto simp: val_at_insert)
qed

lemma nt_erase_spec:
  assumes ok: "nt_ok t" and k: "nm_wf key"
  obtains t' where "nt_erase key t = Ret t' ()" "nt_ok t'"
    "\<And>v4 p. val_at v4 p (root t') =
      (if v4 = key_family (d_network key) \<and> key_path key = Some p then None else val_at v4 p (root t))"
    "d_cleanup_tree t' = d_cleanup_tree t"
proof -
  let ?p = "take (d_bits key) (addr_bits (d_network key))" and ?v = "key_family (d_network key)"
  note path = nm_wf_path[OF k]
  show ?thesis
  proof (cases "erase_at (d_cleanup_tree t) ?v ?p (root t)")
    case None
    then have "nt_erase key t = Ret t ()" by (simp add: nt_erase_def path)
    moreover have "val_at v4 p (root t) = (if v4 = ?v \<and> key_path key = Some p then None else val_at v4 p (root t))" for v4 p
      using erase_at_None[OF None] path by auto
    ultimately show ?thesis using that[of t] ok by blast
  next
    case (Some r)
    let ?t = "t\<lparr>root := r, nodes := remove1 (?v, ?p) (nodes t)\<rparr>"
    have "root t \<noteq> TNil" using Some by auto
    then have run: "nt_erase key t = Ret ?t ()" using Some by (simp add: nt_erase_def path)
    have val: "val_at v4 p r = (if v4 = ?v \<and> p = ?p then None else val_at v4 p (root t))" for v4 p
      using val_at_erase[OF Some] by simp
    have "d_cleanup_tree t \<longrightarrow> compact r"
      using compact_erase[of "root t" ?v ?p r] Some ok by (auto simp: nt_ok_def)
    then have "nt_ok ?t" using ok by (auto simp: nt_ok_def val split: if_splits)
    then show ?thesis using that[OF run] val path by auto
  qed
qed

lemma nt_size_card: "nt_ok t \<Longrightarrow> nt_size t = card {(v4, p). val_at v4 p (root t) \<noteq> None}"
  unfolding nt_ok_def nt_size_def by (metis distinct_card)


section \<open>Longest prefix match\<close>

lemma nt_ok_at:
  "nt_ok t \<Longrightarrow> val_at v4 p (root t) = Some (k, v) \<Longrightarrow>
   nm_wf k \<and> key_path k = Some p \<and> key_family (d_network k) = v4"
  unfolding nt_ok_def by blast

lemma best_prefix_eq_None: "best_prefix m path = None \<longleftrightarrow> (\<forall>p. prefix p path \<longrightarrow> m p = None)"
  by (auto simp: best_prefix_def filter_empty_conv split: list.splits dest: filter_eq_ConsD)

lemma stored_match_iff:
  assumes ok: "nt_ok t" and at: "val_at v4 p (root t) = Some (k, v)" and ip: "ca_wf ip"
  shows "nm_match k ip = Some True \<longleftrightarrow> v4 = key_family ip \<and> ip \<noteq> CA_None \<and> prefix p (addr_bits ip)"
proof -
  have k: "nm_wf k" "key_path k = Some p" "key_family (d_network k) = v4" using nt_ok_at[OF ok at] by auto
  have p: "p = take (d_bits k) (addr_bits (d_network k))" using k(2) nm_wf_path[OF k(1)] by simp
  have le: "d_bits k \<le> addr_width (d_network k)" using k(1) by (auto simp: nm_wf_def split: ComboAddress.splits)
  have w: "addr_width ip = addr_width (d_network k) \<longleftrightarrow> v4 = key_family ip \<and> ip \<noteq> CA_None"
    using k by (cases ip; cases "d_network k") (auto simp: key_family_def nm_wf_def)
  have "prefix p (addr_bits ip) \<longleftrightarrow> take (d_bits k) (addr_bits ip) = p" if "addr_width ip = addr_width (d_network k)"
    using that le by (auto simp: p prefix_def append_eq_conv_conj) (metis take_is_prefix prefix_def)
  then show ?thesis using nm_match_prefix[OF k(1) ip] w p by auto
qed

lemma stored_bits: "nt_ok t \<Longrightarrow> val_at v4 p (root t) = Some (k, v) \<Longrightarrow> d_bits k = length p"
proof -
  assume ok: "nt_ok t" and at: "val_at v4 p (root t) = Some (k, v)"
  then have k: "nm_wf k" "key_path k = Some p" using nt_ok_at[OF ok at] by auto
  have "d_bits k \<le> addr_width (d_network k)" using k(1) by (auto simp: nm_wf_def split: ComboAddress.splits)
  then show ?thesis using k(2) nm_wf_path[OF k(1)] by auto
qed

lemma nt_lookup_best:
  "ip \<noteq> CA_None \<Longrightarrow> nt_lookup ip 128 t = best_prefix (\<lambda>p. val_at (key_family ip) p (root t)) (addr_bits ip)"
  by (cases ip) (auto simp: nt_lookup_def lookup_loop_best Let_def split: option.splits)

lemma nt_lookup_Some:
  assumes ok: "nt_ok t" and ip: "ca_wf ip" "ip \<noteq> CA_None"
  shows "nt_lookup ip 128 t = Some (k, v) \<longleftrightarrow>
    stored t (k, v) \<and> nm_match k ip = Some True
    \<and> (\<forall>k' v'. stored t (k', v') \<and> nm_match k' ip = Some True \<longrightarrow> d_bits k' \<le> d_bits k)"
    (is "?L \<longleftrightarrow> ?R")
proof
  let ?m = "\<lambda>p. val_at (key_family ip) p (root t)"
  assume ?L
  then obtain p where p: "prefix p (addr_bits ip)" "?m p = Some (k, v)"
    "\<forall>q. prefix q (addr_bits ip) \<and> length p < length q \<longrightarrow> ?m q = None"
    unfolding nt_lookup_best[OF ip(2)] best_prefix_Some by blast
  have "d_bits k' \<le> d_bits k" if s: "stored t (k', v')" and m: "nm_match k' ip = Some True" for k' v'
  proof -
    obtain v4 q where q: "val_at v4 q (root t) = Some (k', v')" using s by (auto simp: stored_def)
    then have "prefix q (addr_bits ip)" "?m q = Some (k', v')" using stored_match_iff[OF ok q ip(1)] m by auto
    then have "length q \<le> length p" using p(3) by (metis not_less option.distinct(1))
    then show ?thesis using stored_bits[OF ok q] stored_bits[OF ok p(2)] by simp
  qed
  then show ?R using p stored_match_iff[OF ok p(2) ip(1)] ip(2) by (auto simp: stored_def)
next
  let ?m = "\<lambda>p. val_at (key_family ip) p (root t)"
  assume R: ?R
  then obtain v4 p where at: "val_at v4 p (root t) = Some (k, v)" by (auto simp: stored_def)
  then have p: "v4 = key_family ip" "prefix p (addr_bits ip)" using R stored_match_iff[OF ok at ip(1)] by auto
  have "?m q = None" if q: "prefix q (addr_bits ip)" "length p < length q" for q
  proof (rule ccontr)
    assume "?m q \<noteq> None"
    then obtain k' v' where kv: "?m q = Some (k', v')" by auto
    then have "nm_match k' ip = Some True" using stored_match_iff[OF ok kv ip(1)] q ip(2) by simp
    then have "d_bits k' \<le> d_bits k" using R kv by (auto simp: stored_def)
    then show False using stored_bits[OF ok kv] stored_bits[OF ok at] q(2) by simp
  qed
  then show ?L unfolding nt_lookup_best[OF ip(2)] best_prefix_Some using at p by blast
qed

lemma nt_lookup_None:
  assumes ok: "nt_ok t" and ip: "ca_wf ip" "ip \<noteq> CA_None"
  shows "nt_lookup ip 128 t = None \<longleftrightarrow> (\<forall>k v. stored t (k, v) \<longrightarrow> nm_match k ip \<noteq> Some True)"
proof -
  let ?m = "\<lambda>p. val_at (key_family ip) p (root t)"
  have "nt_lookup ip 128 t = None \<longleftrightarrow> (\<forall>p. prefix p (addr_bits ip) \<longrightarrow> ?m p = None)"
    unfolding nt_lookup_best[OF ip(2)] best_prefix_eq_None ..
  also have "\<dots> \<longleftrightarrow> (\<forall>k v. stored t (k, v) \<longrightarrow> nm_match k ip \<noteq> Some True)"
  proof
    assume *: "\<forall>p. prefix p (addr_bits ip) \<longrightarrow> ?m p = None"
    show "\<forall>k v. stored t (k, v) \<longrightarrow> nm_match k ip \<noteq> Some True"
    proof (intro allI impI notI)
      fix k v assume "stored t (k, v)" and m: "nm_match k ip = Some True"
      then obtain v4 p where at: "val_at v4 p (root t) = Some (k, v)" by (auto simp: stored_def)
      then show False using stored_match_iff[OF ok at ip(1)] m * by auto
    qed
  next
    assume *: "\<forall>k v. stored t (k, v) \<longrightarrow> nm_match k ip \<noteq> Some True"
    show "\<forall>p. prefix p (addr_bits ip) \<longrightarrow> ?m p = None"
    proof (intro allI impI)
      fix p assume p: "prefix p (addr_bits ip)"
      show "?m p = None"
      proof (cases "?m p")
        case (Some kv)
        then obtain k v where at: "?m p = Some (k, v)" by (cases kv) auto
        then show ?thesis using * stored_match_iff[OF ok at ip(1)] p ip(2) by (auto simp: stored_def)
      qed simp
    qed
  qed
  finally show ?thesis .
qed


section \<open>NetmaskGroup\<close>

type_synonym NetmaskGroup = "bool NetmaskTree"

definition new_NetmaskGroup :: NetmaskGroup where
  "new_NetmaskGroup = new_NetmaskTree True"

definition ng_match :: "ComboAddress \<Rightarrow> NetmaskGroup \<Rightarrow> bool" where
  "ng_match ip g = (case nt_lookup ip 128 g of None \<Rightarrow> False | Some ret \<Rightarrow> snd ret)"

definition ng_lookup :: "ComboAddress \<Rightarrow> NetmaskGroup \<Rightarrow> bool \<times> Netmask option" where
  "ng_lookup ip g =
     (case nt_lookup ip 128 g of None \<Rightarrow> (False, None) | Some ret \<Rightarrow> (snd ret, Some (fst ret)))"

definition addMask :: "Netmask \<Rightarrow> bool \<Rightarrow> NetmaskGroup \<Rightarrow> (NetmaskGroup, unit) outcome" where
  "addMask nm positive g = nt_insert nm (\<lambda>_. positive) g"

definition addMask_str :: "netlib \<Rightarrow> string \<Rightarrow> bool \<Rightarrow> NetmaskGroup \<Rightarrow> (NetmaskGroup, unit) outcome" where
  "addMask_str N ip positive g =
     (if ip \<noteq> [] \<and> hd ip = CHR ''!'' then
        (case Netmask_of_string N (tl ip) of Inl e \<Rightarrow> Exn e g | Inr nm \<Rightarrow> addMask nm False g)
      else
        (case Netmask_of_string N ip of Inl e \<Rightarrow> Exn e g | Inr nm \<Rightarrow> addMask nm positive g))"

definition deleteMask :: "Netmask \<Rightarrow> NetmaskGroup \<Rightarrow> (NetmaskGroup, unit) outcome" where
  "deleteMask nm g = nt_erase nm g"

definition deleteMask_str :: "netlib \<Rightarrow> string \<Rightarrow> NetmaskGroup \<Rightarrow> (NetmaskGroup, unit) outcome" where
  "deleteMask_str N ip g =
     (if ip = [] then Ret g ()
      else case Netmask_of_string N ip of Inl e \<Rightarrow> Exn e g | Inr nm \<Rightarrow> deleteMask nm g)"

section \<open>Properties of the tree\<close>

text \<open>
  C5. \<^verbatim>\<open>lookup\<close> is the longest prefix match: it returns a stored pair exactly when its netmask matches
  the address and no stored netmask that matches has more bits; it returns nothing exactly when no
  stored netmask matches. Matching is the netmask's own \<^verbatim>\<open>match\<close>, not the walk of the tree.
\<close>

theorem lookup_is_longest_prefix_match:
  assumes "nt_ok t" and "ca_wf ip" and "ip \<noteq> CA_None"
  shows "(\<forall>k v. nt_lookup ip 128 t = Some (k, v) \<longleftrightarrow>
      stored t (k, v) \<and> nm_match k ip = Some True
      \<and> (\<forall>k' v'. stored t (k', v') \<and> nm_match k' ip = Some True \<longrightarrow> d_bits k' \<le> d_bits k))
    \<and> (nt_lookup ip 128 t = None \<longleftrightarrow> (\<forall>k v. stored t (k, v) \<longrightarrow> nm_match k ip \<noteq> Some True))"
  using nt_lookup_Some[OF assms] nt_lookup_None[OF assms] by blast

definition demo_nm :: Netmask where "demo_nm = new_Netmask (CA_V4 0x0A000000 0) 8"

definition demo_tree :: "bool NetmaskTree" where
  "demo_tree = (case addMask demo_nm True new_NetmaskGroup of Ret g _ \<Rightarrow> g | _ \<Rightarrow> new_NetmaskGroup)"

lemma demo_nm_wf: "nm_wf demo_nm"
  by (simp add: demo_nm_def new_Netmask_def nm_wf_def)

lemma demo_tree_ok: "nt_ok demo_tree" "stored demo_tree (demo_nm, True)"
proof -
  have ok: "nt_ok (new_NetmaskTree True :: bool NetmaskTree)" by (rule new_NetmaskTree_ok)
  obtain t where t: "nt_insert demo_nm (\<lambda>_. True) (new_NetmaskTree True) = Ret t ()" "nt_ok t"
    "\<And>v4 p. val_at v4 p (root t) =
      (if v4 = key_family (d_network demo_nm) \<and> key_path demo_nm = Some p
       then Some (demo_nm, True) else val_at v4 p (root (new_NetmaskTree True :: bool NetmaskTree)))"
    using nt_insert_spec[OF ok demo_nm_wf, of "\<lambda>_. True"] by metis
  have tree: "demo_tree = t" by (simp add: demo_tree_def addMask_def new_NetmaskGroup_def t(1))
  show "nt_ok demo_tree" using t(2) tree by simp
  have "val_at (key_family (d_network demo_nm)) (take (d_bits demo_nm) (addr_bits (d_network demo_nm))) (root t) = Some (demo_nm, True)"
    unfolding t(3) using nm_wf_path[OF demo_nm_wf] by simp
  then show "stored demo_tree (demo_nm, True)" using tree unfolding stored_def by blast
qed

theorem lookup_is_longest_prefix_match_witness: "nt_lookup (CA_V4 0x0A010203 0) 128 demo_tree \<noteq> None"
proof -
  have "nm_match demo_nm (CA_V4 0x0A010203 0) = Some True"
    by (simp add: demo_nm_def new_Netmask_def nm_match_def match4_def mask_of_def)
  then show ?thesis
    using lookup_is_longest_prefix_match[OF demo_tree_ok(1), of "CA_V4 0x0A010203 0"] demo_tree_ok(2) by auto
qed

text \<open>
  C6. Insertion and erasure refine the update of a map from (family, prefix): both keep the invariant
  (the node set is the set of stored values, so \<^verbatim>\<open>size\<close> counts them), change the value of the key's
  prefix only, and whether useless nodes are cleaned up makes no difference to the values.
\<close>

theorem tree_refines_prefix_map:
  assumes ok: "nt_ok t" and key: "nm_wf key"
  shows "(\<exists>t'. nt_insert key g t = Ret t' () \<and> nt_ok t' \<and>
      (\<forall>v4 p. val_at v4 p (root t') =
        (if v4 = key_family (d_network key) \<and> key_path key = Some p
         then Some (key, g (map_option snd (val_at v4 p (root t)))) else val_at v4 p (root t))))
    \<and> (\<exists>t'. nt_erase key t = Ret t' () \<and> nt_ok t' \<and>
      (\<forall>v4 p. val_at v4 p (root t') =
        (if v4 = key_family (d_network key) \<and> key_path key = Some p then None else val_at v4 p (root t))))
    \<and> nt_size t = card {(v4, p). val_at v4 p (root t) \<noteq> None}"
proof (intro conjI)
  obtain t' where "nt_insert key g t = Ret t' ()" "nt_ok t'"
    "\<And>v4 p. val_at v4 p (root t') =
      (if v4 = key_family (d_network key) \<and> key_path key = Some p
       then Some (key, g (map_option snd (val_at v4 p (root t)))) else val_at v4 p (root t))"
    by (rule nt_insert_spec[OF ok key, of g]) blast
  then show "\<exists>t'. nt_insert key g t = Ret t' () \<and> nt_ok t' \<and>
      (\<forall>v4 p. val_at v4 p (root t') =
        (if v4 = key_family (d_network key) \<and> key_path key = Some p
         then Some (key, g (map_option snd (val_at v4 p (root t)))) else val_at v4 p (root t)))" by blast
  obtain t' where "nt_erase key t = Ret t' ()" "nt_ok t'"
    "\<And>v4 p. val_at v4 p (root t') =
      (if v4 = key_family (d_network key) \<and> key_path key = Some p then None else val_at v4 p (root t))"
    by (rule nt_erase_spec[OF ok key]) blast
  then show "\<exists>t'. nt_erase key t = Ret t' () \<and> nt_ok t' \<and>
      (\<forall>v4 p. val_at v4 p (root t') =
        (if v4 = key_family (d_network key) \<and> key_path key = Some p then None else val_at v4 p (root t)))" by blast
qed (rule nt_size_card[OF ok])

theorem tree_refines_prefix_map_witness: "\<exists>t'. nt_erase demo_nm demo_tree = Ret t' () \<and> nt_ok t'"
  using tree_refines_prefix_map[OF demo_tree_ok(1) demo_nm_wf] by blast

text \<open>
  The cleanup leaves no garbage: erasing a key that was inserted into a tree without it gives back
  the very same tree (nodes included), and after any insertion or erasure every node of a tree that
  cleans up, apart from the root, holds a value or has a child.
\<close>

lemma cleanup_leaves_no_garbage:
  assumes ok: "nt_ok t" and cl: "d_cleanup_tree t" and key: "nm_wf key"
    and path: "key_path key = Some p" and absent: "val_at (key_family (d_network key)) p (root t) = None"
    and root: "root t \<noteq> TNil"
  shows "\<exists>t'. nt_insert key g t = Ret t' () \<and> compact (root t') \<and> nt_erase key t' = Ret t ()"
proof -
  let ?v = "key_family (d_network key)"
  let ?t' = "t\<lparr>root := insert_at ?v (\<lambda>old. (key, g (map_option snd old))) p (root t),
              nodes := List.insert (?v, p) (nodes t)\<rparr>"
  have c: "compact (root t)" using ok cl by (simp add: nt_ok_def)
  have new: "(?v, p) \<notin> set (nodes t)" using ok absent by (simp add: nt_ok_def)
  have er: "erase_at True ?v p (root ?t') = Some (root t)"
    using erase_insert[OF c absent] root by (simp add: make_node_def)
  have "remove1 (?v, p) (nodes ?t') = nodes t" using new by simp
  then have "nt_erase key ?t' = Ret t ()" using er cl by (simp add: nt_erase_def path Let_def)
  moreover have "nt_insert key g t = Ret ?t' ()" by (simp add: nt_insert_def path Let_def)
  ultimately show ?thesis using compact_insert[OF c] by auto
qed

end
