(* ===== verification/Repl_Msgs.thy ===== *)
theory Repl_Msgs
  imports TW_DB
begin

text \<open>
  The replicated operations: the messages of \<^verbatim>\<open>replication.proto\<close> as \<^verbatim>\<open>replication.hh\<close>,
  \<^verbatim>\<open>replication_sdb.cc\<close> and \<^verbatim>\<open>replication_bl.cc\<close> build them. An optional field is an \<open>option\<close>;
  its getter returns the default of its type when the field is absent. Integers have the width of
  the field they are stored in.
\<close>

datatype SDBOpType = SDBOpAdd | SDBOpSub | SDBOpReset | SDBOpResetField | SDBOpSyncKey | SDBOpNone

type_synonym SDBTimeWindow = "64 word \<times> 8 word list"
type_synonym SDBSyncField = "string \<times> 64 word \<times> SDBTimeWindow list"

record SDBOperation =
  sdb_db_name :: string
  sdb_op_type :: SDBOpType
  sdb_key :: string
  sdb_field_name :: "string option"
  sdb_str_param :: "string option"
  sdb_int_param :: "32 word option"
  sdb_sync_fields :: "SDBSyncField list"

definition sdb_none :: SDBOperation where
  "sdb_none = \<lparr>sdb_db_name = [], sdb_op_type = SDBOpNone, sdb_key = [], sdb_field_name = None,
     sdb_str_param = None, sdb_int_param = None, sdb_sync_fields = []\<rparr>"

definition sdb_op :: "string \<Rightarrow> SDBOpType \<Rightarrow> string \<Rightarrow> SDBOperation" where
  "sdb_op my_db_name my_op my_key =
     sdb_none\<lparr>sdb_db_name := my_db_name, sdb_op_type := my_op, sdb_key := my_key\<rparr>"

definition sdb_op_str :: "string \<Rightarrow> SDBOpType \<Rightarrow> string \<Rightarrow> string \<Rightarrow> string \<Rightarrow> SDBOperation" where
  "sdb_op_str my_db_name my_op my_key my_field_name my_s =
     (sdb_op my_db_name my_op my_key)\<lparr>sdb_field_name := Some my_field_name, sdb_str_param := Some my_s\<rparr>"

definition sdb_op_int :: "string \<Rightarrow> SDBOpType \<Rightarrow> string \<Rightarrow> string \<Rightarrow> 32 word \<Rightarrow> SDBOperation" where
  "sdb_op_int my_db_name my_op my_key my_field_name my_a =
     (sdb_op my_db_name my_op my_key)\<lparr>sdb_field_name := Some my_field_name, sdb_int_param := Some my_a\<rparr>"

definition sdb_op_str_int ::
    "string \<Rightarrow> SDBOpType \<Rightarrow> string \<Rightarrow> string \<Rightarrow> string \<Rightarrow> 32 word \<Rightarrow> SDBOperation" where
  "sdb_op_str_int my_db_name my_op my_key my_field_name my_s my_a =
     (sdb_op my_db_name my_op my_key)\<lparr>sdb_field_name := Some my_field_name, sdb_str_param := Some my_s,
        sdb_int_param := Some my_a\<rparr>"

definition sdb_op_field :: "string \<Rightarrow> SDBOpType \<Rightarrow> string \<Rightarrow> string \<Rightarrow> SDBOperation" where
  "sdb_op_field my_db_name my_op my_key my_field_name =
     (sdb_op my_db_name my_op my_key)\<lparr>sdb_field_name := Some my_field_name\<rparr>"

text \<open>A dumped entry as sync fields: a \<^verbatim>\<open>time_t\<close> is stored in a 64-bit unsigned field.\<close>

definition sync_field_of :: "string \<times> (int \<times> TWStatsBufSerial) \<Rightarrow> SDBSyncField" where
  "sync_field_of f =
     (case f of (fld, (stime, sbs)) \<Rightarrow> (fld, (word_of_int stime, map (\<lambda>(t, bs). (word_of_int t, bs)) sbs)))"

definition sdb_op_entry :: "string \<Rightarrow> SDBOpType \<Rightarrow> string \<Rightarrow> dump_entry \<Rightarrow> SDBOperation" where
  "sdb_op_entry my_db_name my_op my_key my_entry =
     (sdb_op my_db_name my_op my_key)\<lparr>sdb_sync_fields := map sync_field_of my_entry\<rparr>"

text \<open>
  Reading the sync fields back into a dump entry (a \<^verbatim>\<open>std::map\<close>, so \<^verbatim>\<open>emplace\<close> keeps the first of
  several fields with the same name).
\<close>

definition sync_entry :: "SDBSyncField \<Rightarrow> string \<times> (int \<times> TWStatsBufSerial)" where
  "sync_entry sf = (case sf of (fld, (stime, tws)) \<Rightarrow> (fld, (sint stime, map (\<lambda>(t, bs). (sint t, bs)) tws)))"

definition entry_of_sync :: "SDBSyncField list \<Rightarrow> dump_entry" where
  "entry_of_sync sfs = foldl (\<lambda>m sf. sm_insert (fst (sync_entry sf)) (snd (sync_entry sf)) m) [] sfs"

datatype BLOpType = BLAdd | BLDelete | BLNone

record BLOperation =
  bl_op_type :: BLOpType
  bl_type :: "32 word"
  bl_key :: string
  bl_ttl :: "32 word option"
  bl_reason :: "string option"

definition bl_none :: BLOperation where
  "bl_none = \<lparr>bl_op_type = BLNone, bl_type = 0, bl_key = [], bl_ttl = None, bl_reason = None\<rparr>"

definition bl_op :: "BLOpType \<Rightarrow> 32 word \<Rightarrow> string \<Rightarrow> int \<Rightarrow> string \<Rightarrow> BLOperation" where
  "bl_op my_op_type my_bl_type my_key my_ttl my_reason =
     \<lparr>bl_op_type = my_op_type, bl_type = my_bl_type, bl_key = my_key,
      bl_ttl = Some (word_of_int my_ttl), bl_reason = Some my_reason\<rparr>"

definition get_ttl :: "BLOperation \<Rightarrow> int" where
  "get_ttl m = (case bl_ttl m of None \<Rightarrow> 0 | Some t \<Rightarrow> uint t)"

definition get_reason :: "BLOperation \<Rightarrow> string" where
  "get_reason m = (case bl_reason m of None \<Rightarrow> [] | Some r \<Rightarrow> r)"

datatype RepType = SDBType | BlacklistType | WhitelistType | NoneType

datatype AnyReplicationOperation = SDB_Rep SDBOperation | BL_Rep BLOperation | WL_Rep BLOperation

record ReplicationOperation =
  rep_op :: "AnyReplicationOperation option"
  obj_type :: RepType
  forwarded :: bool

definition new_ReplicationOperation :: "AnyReplicationOperation option \<Rightarrow> RepType \<Rightarrow> ReplicationOperation" where
  "new_ReplicationOperation op ty = \<lparr>rep_op = op, obj_type = ty, forwarded = False\<rparr>"

section \<open>A dumped entry survives the message\<close>

definition time64 :: "int \<Rightarrow> bool" where
  "time64 t \<longleftrightarrow> - (2 ^ 63) \<le> t \<and> t < 2 ^ 63"

definition dump_times_ok :: "dump_entry \<Rightarrow> bool" where
  "dump_times_ok d = list_all (\<lambda>(fld, (stime, sbs)). time64 stime \<and> list_all (\<lambda>w. time64 (fst w)) sbs) d"

lemma sint_time64: "time64 t \<Longrightarrow> sint (word_of_int t :: 64 word) = t"
  by (simp add: time64_def sint_word_ariths signed_take_bit_int_eq_self_iff sint_sbintrunc')

lemma sync_entry_field: "dump_times_ok [f] \<Longrightarrow> sync_entry (sync_field_of f) = f"
proof (cases f)
  case (fields fld stime sbs)
  assume "dump_times_ok [f]"
  then have t: "time64 stime" "\<forall>w \<in> set sbs. time64 (fst w)"
    using fields by (auto simp: dump_times_ok_def list_all_iff)
  have "map (\<lambda>w. (sint (word_of_int (fst w) :: 64 word), snd w)) sbs = sbs"
    using t(2) by (intro map_idI) (simp add: sint_time64)
  then show ?thesis
    using t(1) by (simp add: fields sync_entry_def sync_field_of_def sint_time64 comp_def case_prod_beta)
qed

lemma sm_insert_above:
  "\<forall>x \<in> set m. fst x < k \<Longrightarrow> sm_insert k v m = m @ [(k, v)]"
  by (induction k v m rule: sm_insert.induct) auto

lemma foldl_sm_insert_sorted:
  "sm_ok (m @ d) \<Longrightarrow> foldl (\<lambda>m kv. sm_insert (fst kv) (snd kv) m) m d = m @ d"
proof (induction d arbitrary: m)
  case (Cons kv d)
  have "\<forall>x \<in> set m. fst x < fst kv" using Cons.prems by (auto simp: sm_ok_def sorted_wrt_append)
  then have "sm_insert (fst kv) (snd kv) m = m @ [kv]" by (simp add: sm_insert_above)
  then show ?case using Cons.IH[of "m @ [kv]"] Cons.prems by simp
qed simp

lemma entry_of_sync_roundtrip:
  assumes "sm_ok d" and "dump_times_ok d"
  shows "entry_of_sync (map sync_field_of d) = d"
proof -
  have id: "map (sync_entry \<circ> sync_field_of) d = d"
    using assms(2) by (intro map_idI) (auto simp: dump_times_ok_def list_all_iff intro!: sync_entry_field)
  have "entry_of_sync (map sync_field_of d) =
      foldl (\<lambda>m kv. sm_insert (fst kv) (snd kv) m) [] (map (sync_entry \<circ> sync_field_of) d)"
    by (simp add: entry_of_sync_def foldl_map)
  then show ?thesis using foldl_sm_insert_sorted[of "[]" d] assms(1) by (simp add: id)
qed

end
