(* ===== verification/TW_Wrapper.thy ===== *)
theory TW_Wrapper
  imports Repl_Msgs Netmask
begin

text \<open>
  \<^verbatim>\<open>TWStringStatsDBWrapper\<close> of \<^verbatim>\<open>wforce/twmap-wrapper.cc\<close>: a statistics database split into
  shards by the hash of the key, with keys that are strings, integers or addresses cut to a prefix,
  and the replication of its updates. A call that hands an operation to \<^verbatim>\<open>replicateOperation\<close>
  returns it.
\<close>

datatype TWKeyType = TWStr string | TWInt "32 word" | TWAddr ComboAddress
datatype TWStrParam = PStr string | PAddr ComboAddress
datatype TWSubParam = SStr string | SInt "32 word"

record TWStringStatsDBWrapper =
  sdbvp :: "TWStatsDB list"
  replicated :: bool
  wr_window_size :: int
  wr_num_windows :: int
  num_shards :: int
  wr_db_name :: string

definition ctwstats_map_size_soft :: "32 word" where
  "ctwstats_map_size_soft = 524288"

definition new_Wrapper :: "int \<Rightarrow> string \<Rightarrow> int \<Rightarrow> int \<Rightarrow> int \<Rightarrow> TWStringStatsDBWrapper" where
  "new_Wrapper now name w_size n_windows n_shards =
     \<lparr>sdbvp = replicate (nat n_shards)
        (set_map_size_soft (ctwstats_map_size_soft div word_of_int n_shards) (new_TWStatsDB now name w_size n_windows)),
      replicated = False, wr_window_size = w_size, wr_num_windows = n_windows, num_shards = n_shards,
      wr_db_name = name\<rparr>"

definition on_all :: "(TWStatsDB \<Rightarrow> TWStatsDB) \<Rightarrow> TWStringStatsDBWrapper \<Rightarrow> TWStringStatsDBWrapper" where
  "on_all f w = w\<lparr>sdbvp := map f (sdbvp w)\<rparr>"

definition enableReplication :: "TWStringStatsDBWrapper \<Rightarrow> TWStringStatsDBWrapper" where
  "enableReplication w = w\<lparr>replicated := True\<rparr>"

definition disableReplication :: "TWStringStatsDBWrapper \<Rightarrow> TWStringStatsDBWrapper" where
  "disableReplication w = w\<lparr>replicated := False\<rparr>"

definition fields_of_vec :: "(string \<times> string) list \<Rightarrow> (string \<times> string) list" where
  "fields_of_vec fmvec = foldl (\<lambda>fm f. sm_insert (fst f) (snd f) fm) [] fmvec"

definition setFields_map ::
    "(string \<times> string) list \<Rightarrow> TWStringStatsDBWrapper \<Rightarrow> TWStringStatsDBWrapper \<times> bool" where
  "setFields_map fm w = (on_all (\<lambda>db. fst (db_setFields fm db)) w, True)"

definition setFields ::
    "(string \<times> string) list \<Rightarrow> TWStringStatsDBWrapper \<Rightarrow> TWStringStatsDBWrapper \<times> bool" where
  "setFields fmvec w = (on_all (\<lambda>db. fst (db_setFields (fields_of_vec fmvec) db)) w, True)"

definition new_Wrapper_fields ::
    "int \<Rightarrow> string \<Rightarrow> int \<Rightarrow> int \<Rightarrow> (string \<times> string) list \<Rightarrow> int \<Rightarrow> TWStringStatsDBWrapper" where
  "new_Wrapper_fields now name w_size n_windows fmvec n_shards =
     fst (setFields fmvec (new_Wrapper now name w_size n_windows n_shards))"

definition getFields :: "TWStringStatsDBWrapper \<Rightarrow> exn + (string \<times> string) list" where
  "getFields w = (case sdbvp w of [] \<Rightarrow> Inl Out_Of_Range | db # _ \<Rightarrow> Inr (field_map db))"

definition setv4Prefix :: "8 word \<Rightarrow> TWStringStatsDBWrapper \<Rightarrow> TWStringStatsDBWrapper" where
  "setv4Prefix bits w = on_all (\<lambda>db. db\<lparr>v4_prefix := (if 32 < bits then 32 else bits)\<rparr>) w"

definition setv6Prefix :: "8 word \<Rightarrow> TWStringStatsDBWrapper \<Rightarrow> TWStringStatsDBWrapper" where
  "setv6Prefix bits w = on_all (\<lambda>db. db\<lparr>v6_prefix := (if 128 < bits then 128 else bits)\<rparr>) w"

definition getv4Prefix :: "TWStringStatsDBWrapper \<Rightarrow> exn + 8 word" where
  "getv4Prefix w = (case sdbvp w of [] \<Rightarrow> Inl Out_Of_Range | db # _ \<Rightarrow> Inr (v4_prefix db))"

definition getv6Prefix :: "TWStringStatsDBWrapper \<Rightarrow> exn + 8 word" where
  "getv6Prefix w = (case sdbvp w of [] \<Rightarrow> Inl Out_Of_Range | db # _ \<Rightarrow> Inr (v6_prefix db))"

definition getStringKey :: "netlib \<Rightarrow> TWKeyType \<Rightarrow> TWStringStatsDBWrapper \<Rightarrow> exn + string" where
  "getStringKey N vkey w =
     (case vkey of
        TWStr s \<Rightarrow> Inr s
      | TWInt i \<Rightarrow> Inr (int_to_string (sint i))
      | TWAddr ca \<Rightarrow>
          (if isIpv4 ca then
             (case getv4Prefix w of Inl e \<Rightarrow> Inl e | Inr p \<Rightarrow> Inr (toStringNetwork N (new_Netmask ca (unat p))))
           else if isIpv6 ca then
             (case getv6Prefix w of Inl e \<Rightarrow> Inl e | Inr p \<Rightarrow> Inr (toStringNetwork N (new_Netmask ca (unat p))))
           else Inr []))"

definition tw_hash_seed :: "32 word" where
  "tw_hash_seed = 623"

text \<open>\<^verbatim>\<open>hash % num_shards\<close>: the signed divisor is converted to unsigned; a remainder by zero is undefined.\<close>

definition getShardIndex :: "string \<Rightarrow> TWStringStatsDBWrapper \<Rightarrow> nat option" where
  "getShardIndex key w =
     (let n = word_of_int (num_shards w) :: 32 word
      in if n = 0 then None else Some (unat (MurmurHash3_x86_32 key tw_hash_seed mod n)))"

text \<open>\<^verbatim>\<open>sdbvp->at(getShardIndex(key))\<close> and a call on the shard it returns.\<close>

definition on_shard ::
    "string \<Rightarrow> (TWStatsDB \<Rightarrow> (TWStatsDB, 'v) outcome) \<Rightarrow> TWStringStatsDBWrapper
     \<Rightarrow> (TWStringStatsDBWrapper, 'v) outcome" where
  "on_shard key f w =
     (case getShardIndex key w of
        None \<Rightarrow> Undef
      | Some i \<Rightarrow>
          (if length (sdbvp w) \<le> i then Exn Out_Of_Range w
           else map_state (\<lambda>db. w\<lparr>sdbvp := (sdbvp w)[i := db]\<rparr>) (f (sdbvp w ! i))))"

definition with_key ::
    "netlib \<Rightarrow> TWKeyType \<Rightarrow> (string \<Rightarrow> TWStatsDB \<Rightarrow> (TWStatsDB, 'v) outcome) \<Rightarrow> TWStringStatsDBWrapper
     \<Rightarrow> (TWStringStatsDBWrapper, 'v) outcome" where
  "with_key N vkey f w =
     (case getStringKey N vkey w of Inl e \<Rightarrow> Exn e w | Inr key \<Rightarrow> on_shard key (f key) w)"

text \<open>The operation handed to \<^verbatim>\<open>replicateOperation\<close>, if the database is replicated.\<close>

definition send_op ::
    "bool \<Rightarrow> TWStringStatsDBWrapper \<Rightarrow> SDBOperation \<Rightarrow> ReplicationOperation option" where
  "send_op repl w op =
     (if repl \<and> replicated w then Some (new_ReplicationOperation (Some (SDB_Rep op)) SDBType) else None)"

definition update_key ::
    "netlib \<Rightarrow> TWKeyType \<Rightarrow> (string \<Rightarrow> TWStatsDB \<Rightarrow> (TWStatsDB, 'v) outcome) \<Rightarrow> (string \<Rightarrow> SDBOperation) \<Rightarrow> bool
     \<Rightarrow> TWStringStatsDBWrapper \<Rightarrow> (TWStringStatsDBWrapper, ReplicationOperation option) outcome" where
  "update_key N vkey f op repl w =
     (case getStringKey N vkey w of
        Inl e \<Rightarrow> Exn e w
      | Inr key \<Rightarrow> obind (on_shard key (f key) w) (\<lambda>w' _. Ret w' (send_op repl w' (op key))))"

definition addInternal ::
    "sk_env \<Rightarrow> netlib \<Rightarrow> int \<times> int \<times> int \<Rightarrow> TWKeyType \<Rightarrow> string \<Rightarrow> TWKeyType \<Rightarrow> 32 word option \<Rightarrow> bool
     \<Rightarrow> TWStringStatsDBWrapper \<Rightarrow> (TWStringStatsDBWrapper, ReplicationOperation option) outcome" where
  "addInternal E N ts vkey field_name param1 param2 repl w =
     (case param2 of
        Some a \<Rightarrow>
          (case param1 of
             TWInt _ \<Rightarrow> with_key N vkey (\<lambda>_ db. Ret db None) w
           | TWStr mystr \<Rightarrow>
               update_key N vkey (\<lambda>key. db_add_str_int E ts key field_name mystr a)
                 (\<lambda>key. sdb_op_str_int (wr_db_name w) SDBOpAdd key field_name mystr a) repl w
           | TWAddr ca \<Rightarrow>
               update_key N vkey (\<lambda>key. db_add_str_int E ts key field_name (ca_toString N ca) a)
                 (\<lambda>key. sdb_op_str_int (wr_db_name w) SDBOpAdd key field_name (ca_toString N ca) a) repl w)
      | None \<Rightarrow>
          (case param1 of
             TWStr mystr \<Rightarrow>
               update_key N vkey (\<lambda>key. db_add_str E ts key field_name mystr)
                 (\<lambda>key. sdb_op_str (wr_db_name w) SDBOpAdd key field_name mystr) repl w
           | TWInt myint \<Rightarrow>
               update_key N vkey (\<lambda>key. db_add_int E ts key field_name myint)
                 (\<lambda>key. sdb_op_int (wr_db_name w) SDBOpAdd key field_name myint) repl w
           | TWAddr ca \<Rightarrow>
               update_key N vkey (\<lambda>key. db_add_str E ts key field_name (ca_toString N ca))
                 (\<lambda>key. sdb_op_str (wr_db_name w) SDBOpAdd key field_name (ca_toString N ca)) repl w))"

definition wr_add where
  "wr_add E N ts vkey field_name param1 param2 w = addInternal E N ts vkey field_name param1 param2 True w"

definition subInternal ::
    "sk_env \<Rightarrow> netlib \<Rightarrow> int \<times> int \<times> int \<Rightarrow> TWKeyType \<Rightarrow> string \<Rightarrow> TWSubParam \<Rightarrow> bool
     \<Rightarrow> TWStringStatsDBWrapper \<Rightarrow> (TWStringStatsDBWrapper, ReplicationOperation option) outcome" where
  "subInternal E N ts vkey field_name val repl w =
     (case val of
        SStr mystr \<Rightarrow>
          update_key N vkey (\<lambda>key. db_sub_str E ts key field_name mystr)
            (\<lambda>key. sdb_op_str (wr_db_name w) SDBOpSub key field_name mystr) repl w
      | SInt myint \<Rightarrow>
          update_key N vkey (\<lambda>key. db_sub_int E ts key field_name myint)
            (\<lambda>key. sdb_op_int (wr_db_name w) SDBOpSub key field_name myint) repl w)"

definition wr_sub where
  "wr_sub E N ts vkey field_name val w = subInternal E N ts vkey field_name val True w"

definition str_param :: "netlib \<Rightarrow> TWStrParam \<Rightarrow> string" where
  "str_param N p = (case p of PStr s \<Rightarrow> s | PAddr ca \<Rightarrow> ca_toString N ca)"

definition wr_get ::
    "sk_env \<Rightarrow> netlib \<Rightarrow> int \<times> int \<Rightarrow> TWKeyType \<Rightarrow> string \<Rightarrow> TWStrParam option \<Rightarrow> TWStringStatsDBWrapper
     \<Rightarrow> (TWStringStatsDBWrapper, 32 word) outcome" where
  "wr_get E N ts vkey field_name param1 w =
     with_key N vkey (\<lambda>key. case param1 of
         Some p \<Rightarrow> db_get_str E ts key field_name (str_param N p)
       | None \<Rightarrow> db_get E ts key field_name) w"

definition wr_get_current ::
    "sk_env \<Rightarrow> netlib \<Rightarrow> int \<times> int \<Rightarrow> TWKeyType \<Rightarrow> string \<Rightarrow> TWStrParam option \<Rightarrow> TWStringStatsDBWrapper
     \<Rightarrow> (TWStringStatsDBWrapper, 32 word) outcome" where
  "wr_get_current E N ts vkey field_name param1 w =
     with_key N vkey (\<lambda>key. case param1 of
         Some p \<Rightarrow> db_get_current_str E ts key field_name (str_param N p)
       | None \<Rightarrow> db_get_current E ts key field_name) w"

definition wr_get_windows ::
    "sk_env \<Rightarrow> netlib \<Rightarrow> int \<times> int \<Rightarrow> TWKeyType \<Rightarrow> string \<Rightarrow> TWStrParam option \<Rightarrow> TWStringStatsDBWrapper
     \<Rightarrow> (TWStringStatsDBWrapper, 32 word list) outcome" where
  "wr_get_windows E N ts vkey field_name param1 w =
     obind (with_key N vkey (\<lambda>key. case param1 of
         Some p \<Rightarrow> db_get_windows_str E ts key field_name (str_param N p)
       | None \<Rightarrow> db_get_windows E ts key field_name) w)
       (\<lambda>w' r. Ret w' (case r of None \<Rightarrow> [] | Some retvec \<Rightarrow> retvec))"

definition wr_get_all_fields ::
    "sk_env \<Rightarrow> netlib \<Rightarrow> (nat \<Rightarrow> int \<times> int) \<Rightarrow> TWKeyType \<Rightarrow> TWStringStatsDBWrapper
     \<Rightarrow> (TWStringStatsDBWrapper, (string \<times> 32 word) list option) outcome" where
  "wr_get_all_fields E N clk vkey w = with_key N vkey (db_get_all_fields E clk) w"

definition resetInternal ::
    "netlib \<Rightarrow> TWKeyType \<Rightarrow> bool \<Rightarrow> TWStringStatsDBWrapper
     \<Rightarrow> (TWStringStatsDBWrapper, ReplicationOperation option) outcome" where
  "resetInternal N vkey repl w =
     update_key N vkey (\<lambda>key db. Ret (db_reset key db) ()) (sdb_op (wr_db_name w) SDBOpReset) repl w"

definition resetFieldInternal ::
    "netlib \<Rightarrow> TWKeyType \<Rightarrow> string \<Rightarrow> bool \<Rightarrow> TWStringStatsDBWrapper
     \<Rightarrow> (TWStringStatsDBWrapper, ReplicationOperation option) outcome" where
  "resetFieldInternal N vkey field_name repl w =
     update_key N vkey (\<lambda>key db. Ret (db_reset_field key field_name db) ())
       (\<lambda>key. sdb_op_field (wr_db_name w) SDBOpResetField key field_name) repl w"

definition wr_reset where "wr_reset N vkey w = resetInternal N vkey True w"

definition wr_resetField where "wr_resetField N vkey field_name w = resetFieldInternal N vkey field_name True w"

definition wr_get_size :: "TWStringStatsDBWrapper \<Rightarrow> 32 word" where
  "wr_get_size w = foldl (\<lambda>sz db. sz + db_get_size db) 0 (sdbvp w)"

definition set_size_soft :: "32 word \<Rightarrow> TWStringStatsDBWrapper \<Rightarrow> TWStringStatsDBWrapper" where
  "set_size_soft sz w = on_all (set_map_size_soft (sz div word_of_int (num_shards w))) w"

definition set_expire_sleep :: "32 word \<Rightarrow> TWStringStatsDBWrapper \<Rightarrow> TWStringStatsDBWrapper" where
  "set_expire_sleep ms w = on_all (\<lambda>db. db\<lparr>expire_ms := ms\<rparr>) w"

definition wr_get_max_size :: "TWStringStatsDBWrapper \<Rightarrow> 32 word" where
  "wr_get_max_size w = foldl (\<lambda>sz db. sz + db_get_max_size db) 0 (sdbvp w)"

definition wr_restoreEntry ::
    "sk_env \<Rightarrow> int \<Rightarrow> string \<Rightarrow> dump_entry \<Rightarrow> TWStringStatsDBWrapper
     \<Rightarrow> (TWStringStatsDBWrapper, unit) outcome" where
  "wr_restoreEntry E t key entry w = on_shard key (restoreEntry E t key entry) w"

section \<open>Placement: every key is in the shard its hash selects\<close>

text \<open>
  The invariant of a wrapper at time \<open>t\<close>: as many shards as \<^verbatim>\<open>num_shards\<close> says, every shard a
  sound database, every key of shard \<open>i\<close> with the hash \<open>i\<close>, and the same settings in all shards.
\<close>

definition wr_ok :: "int \<Rightarrow> TWStringStatsDBWrapper \<Rightarrow> bool" where
  "wr_ok t w \<longleftrightarrow>
     0 < num_shards w \<and> num_shards w < 2 ^ 31 \<and> length (sdbvp w) = nat (num_shards w)
     \<and> (\<forall>i < length (sdbvp w).
          db_inv (good_entry t) (sdbvp w ! i) \<and> db_start_time (sdbvp w ! i) \<le> t
          \<and> settings (sdbvp w ! i) = settings (sdbvp w ! 0)
          \<and> (\<forall>k \<in> fst ` set (stats_db (sdbvp w ! i)). getShardIndex k w = Some i))"

lemma wr_ok_shard:
  assumes "wr_ok t w" and "i < length (sdbvp w)"
  shows "db_inv (good_entry t) (sdbvp w ! i)" "db_start_time (sdbvp w ! i) \<le> t"
    "settings (sdbvp w ! i) = settings (sdbvp w ! 0)"
    "\<forall>k \<in> fst ` set (stats_db (sdbvp w ! i)). getShardIndex k w = Some i"
  using assms unfolding wr_ok_def by blast+

lemma wr_ok_size:
  assumes "wr_ok t w"
  shows "0 < num_shards w" "num_shards w < 2 ^ 31" "length (sdbvp w) = nat (num_shards w)"
  using assms unfolding wr_ok_def by blast+

lemma shard_divisor:
  assumes "0 < n" "n < 2 ^ 31"
  shows "unat (word_of_int n :: 32 word) = nat n"
  using assms by (simp add: unat_eq_nat_uint uint_word_of_int_eq take_bit_int_eq_self)

lemma shard_in_range:
  assumes "wr_ok t w"
  obtains i where "getShardIndex key w = Some i" "i < length (sdbvp w)"
proof -
  let ?n = "word_of_int (num_shards w) :: 32 word"
  have n: "unat ?n = nat (num_shards w)" "0 < num_shards w" "length (sdbvp w) = nat (num_shards w)"
    using wr_ok_size[OF assms] shard_divisor[of "num_shards w"] by simp_all
  then have nz: "?n \<noteq> 0" by (metis nat_0_iff not_le unat_0)
  have "unat (MurmurHash3_x86_32 key tw_hash_seed mod ?n) < nat (num_shards w)"
    using n(1,2) by (simp add: unat_mod)
  then show ?thesis using that n(3) nz by (simp add: getShardIndex_def Let_def)
qed

lemma getShardIndex_cong: "num_shards w' = num_shards w \<Longrightarrow> getShardIndex key w' = getShardIndex key w"
  by (simp add: getShardIndex_def)

lemma shard_update_ok:
  assumes ok: "wr_ok t w" and i: "getShardIndex key w = Some i" "i < length (sdbvp w)"
    and db: "db_inv (good_entry t') db'" "frame {key} (sdbvp w ! i) db'" and t: "t \<le> t'"
  shows "wr_ok t' (w\<lparr>sdbvp := (sdbvp w)[i := db']\<rparr>)"
proof -
  let ?w = "w\<lparr>sdbvp := (sdbvp w)[i := db']\<rparr>"
  have idx: "getShardIndex k ?w = getShardIndex k w" for k by (rule getShardIndex_cong) simp
  have set1: "settings db' = settings (sdbvp w ! i)" using db(2) by (simp add: frame_def)
  note set' = set1 settings_eq[OF set1]
  have keys: "\<forall>k \<in> fst ` set (stats_db db'). getShardIndex k w = Some i"
    using wr_ok_shard(4)[OF ok i(2)] i(1) db(2) unfolding frame_def by blast
  have old: "db_inv (good_entry t') (sdbvp w ! j)" "db_start_time (sdbvp w ! j) \<le> t'" if "j < length (sdbvp w)" for j
    using wr_ok_shard(1,2)[OF ok that] db_inv_mono[of t "sdbvp w ! j" t'] t by simp_all
  have sets: "settings ((sdbvp w)[i := db'] ! j) = settings (sdbvp w ! 0)" if "j < length (sdbvp w)" for j
    using wr_ok_shard(3)[OF ok that] wr_ok_shard(3)[OF ok i(2)] set1 by (cases "j = i") (simp_all add: i(2))
  show ?thesis
    unfolding wr_ok_def
  proof (intro conjI allI impI)
    show "0 < num_shards ?w" "num_shards ?w < 2 ^ 31" "length (sdbvp ?w) = nat (num_shards ?w)"
      using wr_ok_size[OF ok] by simp_all
    fix j assume "j < length (sdbvp ?w)"
    then have j: "j < length (sdbvp w)" "0 < length (sdbvp w)" by auto
    show "db_inv (good_entry t') (sdbvp ?w ! j)" "db_start_time (sdbvp ?w ! j) \<le> t'"
      using old[OF j(1)] old[OF i(2)] db(1) set'(2) by (cases "j = i"; simp add: i(2))+
    show "settings (sdbvp ?w ! j) = settings (sdbvp ?w ! 0)" using sets[OF j(1)] sets[OF j(2)] by simp
    show "\<forall>k \<in> fst ` set (stats_db (sdbvp ?w ! j)). getShardIndex k ?w = Some j"
      using keys wr_ok_shard(4)[OF ok j(1)] unfolding idx by (cases "j = i") (simp_all add: i(2))
  qed
qed

text \<open>
  The contract of a call the wrapper makes on a shard: with usable sketch parameters it is defined on
  a sound database, keeps it sound and adds no key but its own.
\<close>

locale shard_call =
  fixes E :: sk_env and t :: int and key :: string and f :: "TWStatsDB \<Rightarrow> (TWStatsDB, 'v) outcome"
  assumes call_keeps: "env_ok E \<Longrightarrow> db_inv (good_entry t) db \<Longrightarrow> db_start_time db \<le> t \<Longrightarrow>
    \<exists>db'. final_state (f db) = Some db' \<and> db_inv (good_entry t) db' \<and> frame {key} db db'"
begin

lemma on_shard_ok:
  assumes E: "env_ok E" and ok: "wr_ok t0 w" and t0: "t0 \<le> t"
  shows "\<exists>w'. final_state (on_shard key f w) = Some w' \<and> wr_ok t w'"
proof -
  obtain i where i: "getShardIndex key w = Some i" "i < length (sdbvp w)" using shard_in_range[OF ok] .
  have "db_inv (good_entry t) (sdbvp w ! i)" "db_start_time (sdbvp w ! i) \<le> t"
    using wr_ok_shard(1,2)[OF ok i(2)] t0 db_inv_mono[of t0 "sdbvp w ! i" t] by simp_all
  then obtain db' where db': "final_state (f (sdbvp w ! i)) = Some db'" "db_inv (good_entry t) db'"
      "frame {key} (sdbvp w ! i) db'"
    using call_keeps[OF E] by blast
  show ?thesis
    using shard_update_ok[OF ok i db'(2,3) t0] db'(1) i by (simp add: on_shard_def)
qed

end

lemma shard_callI:
  assumes "\<And>db. final_state (f db) = db_exec E c (t1, t, t3) db" and "call_keys c = {key}"
  shows "shard_call E t key f"
proof
  fix db
  assume "env_ok E" "db_inv (good_entry t) db" "db_start_time db \<le> t"
  moreover have "c \<noteq> DbExpire" "\<not> is_setting c" using assms(2) by (cases c; simp)+
  ultimately show "\<exists>db'. final_state (f db) = Some db' \<and> db_inv (good_entry t) db' \<and> frame {key} db db'"
    using db_exec_inv[of E t db c t1 t3] db_exec_frame[of E c "(t1, t, t3)" db] assms by fastforce
qed

interpretation sh_add_int: shard_call E t key "db_add_int E (t1, t, t3) key f a"
  by (rule shard_callI[where c = "DbAddInt key f a" and ?t1.0 = t1 and ?t3.0 = t3]) simp_all

interpretation sh_add_str: shard_call E t key "db_add_str E (t1, t, t3) key f s"
  by (rule shard_callI[where c = "DbAddStr key f s" and ?t1.0 = t1 and ?t3.0 = t3]) simp_all

interpretation sh_add_str_int: shard_call E t key "db_add_str_int E (t1, t, t3) key f s a"
  by (rule shard_callI[where c = "DbAddStrInt key f s a" and ?t1.0 = t1 and ?t3.0 = t3]) simp_all

interpretation sh_sub_int: shard_call E t key "db_sub_int E (t1, t, t3) key f a"
  by (rule shard_callI[where c = "DbSubInt key f a" and ?t1.0 = t1 and ?t3.0 = t3]) simp_all

interpretation sh_sub_str: shard_call E t key "db_sub_str E (t1, t, t3) key f s"
  by (rule shard_callI[where c = "DbSubStr key f s" and ?t1.0 = t1 and ?t3.0 = t3]) simp_all

interpretation sh_get: shard_call E t key "db_get E (t1, t) key f"
  by (rule shard_callI[where c = "DbGet key f" and ?t1.0 = t1 and ?t3.0 = t1]) simp_all

interpretation sh_get_str: shard_call E t key "db_get_str E (t1, t) key f s"
  by (rule shard_callI[where c = "DbGetStr key f s" and ?t1.0 = t1 and ?t3.0 = t1]) simp_all

interpretation sh_get_current: shard_call E t key "db_get_current E (t1, t) key f"
  by (rule shard_callI[where c = "DbGetCurrent key f" and ?t1.0 = t1 and ?t3.0 = t1]) simp_all

interpretation sh_get_current_str: shard_call E t key "db_get_current_str E (t1, t) key f s"
  by (rule shard_callI[where c = "DbGetCurrentStr key f s" and ?t1.0 = t1 and ?t3.0 = t1]) simp_all

interpretation sh_get_windows: shard_call E t key "db_get_windows E (t1, t) key f"
  by (rule shard_callI[where c = "DbGetWindows key f" and ?t1.0 = t1 and ?t3.0 = t1]) simp_all

interpretation sh_get_windows_str: shard_call E t key "db_get_windows_str E (t1, t) key f s"
  by (rule shard_callI[where c = "DbGetWindowsStr key f s" and ?t1.0 = t1 and ?t3.0 = t1]) simp_all

interpretation sh_get_all: shard_call E t key "db_get_all_fields E (\<lambda>_. (t1, t)) key"
  by (rule shard_callI[where c = "DbGetAllFields key" and ?t1.0 = t1 and ?t3.0 = t1]) simp_all

interpretation sh_reset: shard_call E t key "\<lambda>db. Ret (db_reset key db) ()"
  by (rule shard_callI[where c = "DbReset key" and ?t1.0 = t and ?t3.0 = t]) simp_all

interpretation sh_reset_field: shard_call E t key "\<lambda>db. Ret (db_reset_field key f db) ()"
  by (rule shard_callI[where c = "DbResetField key f" and ?t1.0 = t and ?t3.0 = t]) simp_all

interpretation sh_nothing: shard_call E t key "\<lambda>db. Ret db None"
  by unfold_locales simp

lemma getStringKey_ok: "wr_ok t w \<Longrightarrow> \<exists>key. getStringKey N vkey w = Inr key"
proof -
  assume ok: "wr_ok t w"
  have "0 < length (sdbvp w)" using wr_ok_size(1,3)[OF ok] by simp
  then show ?thesis
    by (cases vkey) (auto simp: getStringKey_def getv4Prefix_def getv6Prefix_def split: list.splits)
qed

lemma final_state_obind_Ret: "final_state (obind m (\<lambda>s v. Ret s (g s v))) = final_state m"
  by (cases m) auto

lemma final_update_key: "final_state (update_key N vkey f op repl w) = final_state (with_key N vkey f w)"
  by (simp add: update_key_def with_key_def final_state_obind_Ret split: sum.splits)

lemma with_key_ok:
  assumes "\<And>key. shard_call E t key (f key)" and "env_ok E" "wr_ok t0 w" "t0 \<le> t"
  shows "\<exists>w'. final_state (with_key N vkey f w) = Some w' \<and> wr_ok t w'"
  using getStringKey_ok[OF assms(3), of N vkey] shard_call.on_shard_ok[OF assms] by (auto simp: with_key_def)

datatype wr_call =
    WrAdd TWKeyType string TWKeyType "32 word option" bool | WrSub TWKeyType string TWSubParam bool
  | WrGet TWKeyType string "TWStrParam option" | WrGetCurrent TWKeyType string "TWStrParam option"
  | WrGetWindows TWKeyType string "TWStrParam option" | WrGetAllFields TWKeyType
  | WrReset TWKeyType bool | WrResetField TWKeyType string bool

fun wr_exec ::
    "sk_env \<Rightarrow> netlib \<Rightarrow> wr_call \<Rightarrow> int \<times> int \<times> int \<Rightarrow> TWStringStatsDBWrapper \<Rightarrow> TWStringStatsDBWrapper option" where
  "wr_exec E N (WrAdd k f p1 p2 r) ts w = final_state (addInternal E N ts k f p1 p2 r w)"
| "wr_exec E N (WrSub k f v r) ts w = final_state (subInternal E N ts k f v r w)"
| "wr_exec E N (WrGet k f p) (t1, t2, t3) w = final_state (wr_get E N (t1, t2) k f p w)"
| "wr_exec E N (WrGetCurrent k f p) (t1, t2, t3) w = final_state (wr_get_current E N (t1, t2) k f p w)"
| "wr_exec E N (WrGetWindows k f p) (t1, t2, t3) w = final_state (wr_get_windows E N (t1, t2) k f p w)"
| "wr_exec E N (WrGetAllFields k) (t1, t2, t3) w = final_state (wr_get_all_fields E N (\<lambda>_. (t1, t2)) k w)"
| "wr_exec E N (WrReset k r) ts w = final_state (resetInternal N k r w)"
| "wr_exec E N (WrResetField k f r) ts w = final_state (resetFieldInternal N k f r w)"

lemmas shard_calls =
  sh_add_int.shard_call_axioms sh_add_str.shard_call_axioms sh_add_str_int.shard_call_axioms
  sh_sub_int.shard_call_axioms sh_sub_str.shard_call_axioms sh_get.shard_call_axioms
  sh_get_str.shard_call_axioms sh_get_current.shard_call_axioms sh_get_current_str.shard_call_axioms
  sh_get_windows.shard_call_axioms sh_get_windows_str.shard_call_axioms sh_get_all.shard_call_axioms
  sh_reset.shard_call_axioms sh_reset_field.shard_call_axioms sh_nothing.shard_call_axioms

lemma wr_exec_ok:
  assumes "env_ok E" and "wr_ok t0 w" and "t0 \<le> t"
  shows "\<exists>w'. wr_exec E N call (t1, t, t3) w = Some w' \<and> wr_ok t w'"
proof -
  note ok = with_key_ok[OF _ assms]
  show ?thesis
  proof (cases call)
    case (WrAdd k f p1 p2 r)
    then show ?thesis
      by (cases p1; cases p2) (simp_all add: addInternal_def final_update_key ok shard_calls)
  next
    case (WrSub k f v r)
    then show ?thesis by (cases v) (simp_all add: subInternal_def final_update_key ok shard_calls)
  next
    case (WrGet k f p)
    then show ?thesis by (cases p) (simp_all add: wr_get_def ok shard_calls)
  next
    case (WrGetCurrent k f p)
    then show ?thesis by (cases p) (simp_all add: wr_get_current_def ok shard_calls)
  next
    case (WrGetWindows k f p)
    then show ?thesis
      by (cases p) (simp_all add: wr_get_windows_def final_state_obind_Ret ok shard_calls)
  qed (simp_all add: wr_get_all_fields_def resetInternal_def resetFieldInternal_def final_update_key ok shard_calls)
qed

section \<open>Keys, sizes and reads\<close>

definition wr_entry :: "TWStringStatsDBWrapper \<Rightarrow> string \<times> string \<Rightarrow> TWStatsEntry option" where
  "wr_entry w kf = Option.bind (getShardIndex (fst kf) w) (\<lambda>i. db_entry (sdbvp w ! i) kf)"

lemma on_shard_Ret:
  assumes "getShardIndex key w = Some i" "i < length (sdbvp w)" "f (sdbvp w ! i) = Ret db v"
  shows "on_shard key f w = Ret (w\<lparr>sdbvp := (sdbvp w)[i := db]\<rparr>) v"
  using assms by (simp add: on_shard_def)

lemma getStringKey_frame:
  assumes "getShardIndex key w = Some i" "i < length (sdbvp w)" "settings db = settings (sdbvp w ! i)"
  shows "getStringKey N vkey (w\<lparr>sdbvp := (sdbvp w)[i := db]\<rparr>) = getStringKey N vkey w"
proof -
  let ?w = "w\<lparr>sdbvp := (sdbvp w)[i := db]\<rparr>"
  have ne: "sdbvp w \<noteq> []" using assms(2) by auto
  then have hds: "hd ((sdbvp w)[i := db]) = (if i = 0 then db else sdbvp w ! 0)"
    by (simp add: hd_conv_nth nth_list_update)
  have "getv4Prefix ?w = getv4Prefix w" "getv6Prefix ?w = getv6Prefix w"
    using ne hds settings_eq[OF assms(3)] hd_conv_nth[OF ne]
    by (auto simp: getv4Prefix_def getv6Prefix_def split: list.splits nat.splits)
  then show ?thesis by (simp add: getStringKey_def split: TWKeyType.splits)
qed

lemma wr_add_get:
  assumes E: "env_ok E" and ok: "wr_ok t w"
    and ka: "getStringKey N a w = Inr k" and kb: "getStringKey N b w = Inr k"
    and ty: "map_of (field_map (sdbvp w ! 0)) f = Some ''int''" and st: "0 < db_start_time (sdbvp w ! 0)"
    and e: "case wr_entry w (k, f) of None \<Rightarrow> True | Some e \<Rightarrow> timed_int t e"
  shows "\<exists>w1 v w2 m w3. wr_get E N (t, t) a f None w = Ret w1 v
    \<and> addInternal E N (t, t, t) b f (TWInt x) None repl w = Ret w2 m
    \<and> wr_get E N (t, t) a f None w2 = Ret w3 (v + x)
    \<and> (\<forall>kf. kf \<noteq> (k, f) \<longrightarrow> wr_entry w2 kf = wr_entry w kf)
    \<and> m = send_op repl w (sdb_op_int (wr_db_name w) SDBOpAdd k f x)"
proof -
  obtain i where i: "getShardIndex k w = Some i" "i < length (sdbvp w)" using shard_in_range[OF ok] .
  let ?db = "sdbvp w ! i"
  note s = settings_eq[OF wr_ok_shard(3)[OF ok i(2)]]
  obtain db1 v db2 db3 where r: "db_get E (t, t) k f ?db = Ret db1 v" "db_add_int E (t, t, t) k f x ?db = Ret db2 (Some ())"
    "db_get E (t, t) k f db2 = Ret db3 (v + x)" "\<forall>kf. kf \<noteq> (k, f) \<longrightarrow> db_entry db2 kf = db_entry ?db kf"
    using add_get[OF E wr_ok_shard(1)[OF ok i(2)], of f t k x] wr_ok_shard(2)[OF ok i(2)] ty st e s i(1)
    by (auto simp: wr_entry_def)
  let ?w2 = "w\<lparr>sdbvp := (sdbvp w)[i := db2]\<rparr>"
  have fr: "settings db2 = settings ?db"
    using db_exec_frame[of E "DbAddInt k f x" "(t, t, t)" ?db db2] r(2) by (simp add: frame_def)
  have i2: "getShardIndex k ?w2 = Some i" using i(1) by (simp add: getShardIndex_def)
  have "wr_get E N (t, t) a f None ?w2 = Ret (?w2\<lparr>sdbvp := (sdbvp ?w2)[i := db3]\<rparr>) (v + x)"
    using on_shard_Ret[where f = "db_get E (t, t) k f", OF i2] r(3) i(2) getStringKey_frame[OF i fr] ka
    by (simp add: wr_get_def with_key_def)
  moreover have "addInternal E N (t, t, t) b f (TWInt x) None repl w =
      Ret ?w2 (send_op repl w (sdb_op_int (wr_db_name w) SDBOpAdd k f x))"
    using on_shard_Ret[where f = "db_add_int E (t, t, t) k f x", OF i r(2)] kb by (simp add: addInternal_def update_key_def send_op_def)
  moreover have "wr_get E N (t, t) a f None w = Ret (w\<lparr>sdbvp := (sdbvp w)[i := db1]\<rparr>) v"
    using on_shard_Ret[where f = "db_get E (t, t) k f", OF i r(1)] ka by (simp add: wr_get_def with_key_def)
  moreover have "wr_entry ?w2 kf = wr_entry w kf" if "kf \<noteq> (k, f)" for kf
    using r(4)[rule_format, OF that] i(2) getShardIndex_cong[of ?w2 w "fst kf"]
    by (cases "getShardIndex (fst kf) w") (auto simp: wr_entry_def nth_list_update)
  ultimately show ?thesis by blast
qed

lemma foldl_max_size:
  "foldl (\<lambda>sz db. sz + db_get_max_size db) x (map (set_map_size_soft c) dbs) = x + of_nat (length dbs) * c"
  by (induction dbs arbitrary: x) (simp_all add: db_get_max_size_def set_map_size_soft_def algebra_simps)

definition demo_wrapper :: TWStringStatsDBWrapper where
  "demo_wrapper = enableReplication (new_Wrapper_fields 1000 ''db'' 10 2 [(''cnt'', ''int'')] 2)"

lemma demo_wrapper_simps:
  "num_shards demo_wrapper = 2" "replicated demo_wrapper" "wr_db_name demo_wrapper = ''db''"
  "sdbvp demo_wrapper = replicate 2 ((new_TWStatsDB 1000 ''db'' 10 2)\<lparr>map_size_soft := 262144, field_map := [(''cnt'', ''int'')]\<rparr>)"
  by (simp_all add: demo_wrapper_def enableReplication_def new_Wrapper_fields_def setFields_def on_all_def
      new_Wrapper_def fields_of_vec_def db_setFields_def type_map_has_def set_map_size_soft_def
      ctwstats_map_size_soft_def)

lemma demo_wrapper_ok: "wr_ok 1000 demo_wrapper"
  unfolding wr_ok_def
  by (auto simp: demo_wrapper_simps new_TWStatsDB_def db_inv_def dims_ok_def type_map_has_def nth_replicate)

section \<open>Properties of the sharded database\<close>



text \<open>
  C16. Reading your own write, through any key with the same string form, in a sound wrapper with usable parameters
  of the sketches and a start time after 0, when the field has no entry yet for the key or its entry is a settled integer ring
  (stamps as the code sets them, no window expired but not yet cleaned): after adding \<open>x\<close> to an integer
  field with one key, reading the field with another key of the same string form (for addresses, any
  address of the same prefix) returns the old value plus \<open>x\<close>; no other key or field changes in any
  shard, and the operation handed to replication is the same addition under the string key.
\<close>

theorem sharded_add_then_get:
  assumes "env_ok E" and "wr_ok t w" and "getStringKey N a w = Inr k" and "getStringKey N b w = Inr k"
    and "map_of (field_map (sdbvp w ! 0)) f = Some ''int''" and "0 < db_start_time (sdbvp w ! 0)"
    and "case wr_entry w (k, f) of None \<Rightarrow> True | Some e \<Rightarrow> timed_int t e"
  shows "\<exists>w1 v w2 m w3. wr_get E N (t, t) a f None w = Ret w1 v
    \<and> addInternal E N (t, t, t) b f (TWInt x) None repl w = Ret w2 m
    \<and> wr_get E N (t, t) a f None w2 = Ret w3 (v + x)
    \<and> (\<forall>kf. kf \<noteq> (k, f) \<longrightarrow> wr_entry w2 kf = wr_entry w kf)
    \<and> m = send_op repl w (sdb_op_int (wr_db_name w) SDBOpAdd k f x)"
  using assms by (rule wr_add_get)

theorem sharded_add_then_get_witness:
  "\<exists>w1 v w2 m w3. wr_get demo_env demo_net (1000, 1000) (TWStr ''7'') ''cnt'' None demo_wrapper = Ret w1 v
    \<and> addInternal demo_env demo_net (1000, 1000, 1000) (TWInt 7) ''cnt'' (TWInt 3) None True demo_wrapper = Ret w2 m
    \<and> wr_get demo_env demo_net (1000, 1000) (TWStr ''7'') ''cnt'' None w2 = Ret w3 (v + 3)
    \<and> (\<forall>kf. kf \<noteq> (''7'', ''cnt'') \<longrightarrow> wr_entry w2 kf = wr_entry demo_wrapper kf)
    \<and> m = send_op True demo_wrapper (sdb_op_int (wr_db_name demo_wrapper) SDBOpAdd ''7'' ''cnt'' 3)"
proof -
  have d: "int_to_string 7 = ''7''" by (simp add: int_to_string_def nat_to_string.simps digit_char_def char_of_def bit_iff_odd)
  obtain i where i: "getShardIndex ''7'' demo_wrapper = Some i" "i < length (sdbvp demo_wrapper)"
    using shard_in_range[OF demo_wrapper_ok] .
  then have n: "wr_entry demo_wrapper (''7'', ''cnt'') = None"
    by (simp add: wr_entry_def demo_wrapper_simps new_TWStatsDB_def db_entry_def)
  show ?thesis
    by (rule sharded_add_then_get[OF demo_db_inv(2) demo_wrapper_ok])
      (simp_all add: getStringKey_def d n demo_wrapper_simps new_TWStatsDB_def)
qed

text \<open>
  Address keys are prefixes: two addresses of the same family get the same string key exactly when
  they agree on the configured number of leading bits. The hypotheses are that the printed form of
  the two masked networks can be read back, which the C library's functions provide.
\<close>

lemma address_keys_are_prefixes:
  assumes wf: "ca_wf a" "ca_wf b" and ne: "sdbvp w \<noteq> []"
    and fam: "isIpv4 a \<and> isIpv4 b \<and> p = unat (v4_prefix (sdbvp w ! 0)) \<and> p \<le> 32
      \<or> isIpv6 a \<and> isIpv6 b \<and> p = unat (v6_prefix (sdbvp w ! 0)) \<and> p \<le> 128"
    and pb: "prints_back N (set_port 0 (getMaskedNetwork (new_Netmask a p)))"
      "prints_back N (set_port 0 (getMaskedNetwork (new_Netmask b p)))"
  shows "getStringKey N (TWAddr a) w = getStringKey N (TWAddr b) w \<longleftrightarrow>
    take p (addr_bits a) = take p (addr_bits b)"
proof -
  let ?na = "new_Netmask a p" and ?nb = "new_Netmask b p"
  have nm: "nm_wf ?na" "nm_wf ?nb" "d_network ?na = a" "d_network ?nb = b" "d_bits ?na = p" "d_bits ?nb = p"
    using fam wf by (cases a; cases b; auto simp: new_Netmask_def nm_wf_def Let_def)+
  have wid: "addr_width a = addr_width b" using fam by (cases a; cases b) auto
  have key: "getStringKey N (TWAddr a) w = Inr (toStringNetwork N ?na)"
    "getStringKey N (TWAddr b) w = Inr (toStringNetwork N ?nb)"
    using fam ne by (cases "sdbvp w"; cases a; cases b; auto simp: getStringKey_def getv4Prefix_def getv6Prefix_def)+
  have inj: "x = y" if "prints_back N x" "prints_back N y" "ca_toString N x = ca_toString N y" "x \<noteq> CA_None" "y \<noteq> CA_None" for x y
    using that by (auto simp: prints_back_def ca_toString_def split: option.splits)
  have nn: "set_port 0 (getMaskedNetwork ?na) \<noteq> CA_None" "set_port 0 (getMaskedNetwork ?nb) \<noteq> CA_None"
    using fam by (cases a; cases b; auto simp: getMaskedNetwork_def new_Netmask_def Let_def)+
  have "toStringNetwork N ?na = toStringNetwork N ?nb \<longleftrightarrow>
      set_port 0 (getMaskedNetwork ?na) = set_port 0 (getMaskedNetwork ?nb)"
    using inj[OF pb _ nn] nm(5,6) by (auto simp: toStringNetwork_eq[OF nm(1)] toStringNetwork_eq[OF nm(2)])
  then show ?thesis
    using masked_eq_iff_prefix[OF nm(1,2)] nm(3-6) wid by (simp add: key)
qed

text \<open>
  The soft limit is divided between the shards without exceeding it: after \<^verbatim>\<open>set_size_soft(n)\<close> the
  limits of the shards add up to at most \<open>n\<close> and to more than \<open>n\<close> less the number of shards, so the
  32-bit sum of \<^verbatim>\<open>get_max_size\<close> does not wrap.
\<close>

lemma soft_limit_divided:
  assumes ok: "wr_ok t w"
  shows "unat (wr_get_max_size (set_size_soft n w)) \<le> unat n
    \<and> unat n < unat (wr_get_max_size (set_size_soft n w)) + nat (num_shards w)"
proof -
  let ?s = "word_of_int (num_shards w) :: 32 word"
  have s: "unat ?s = nat (num_shards w)" "length (sdbvp w) = nat (num_shards w)" "0 < nat (num_shards w)"
    using wr_ok_size[OF ok] shard_divisor[of "num_shards w"] by simp_all
  have sum: "wr_get_max_size (set_size_soft n w) = of_nat (nat (num_shards w)) * (n div ?s)"
    by (simp add: wr_get_max_size_def set_size_soft_def on_all_def foldl_max_size s(2))
  let ?N = "nat (num_shards w)"
  have w: "of_nat ?N = ?s" using wr_ok_size(1)[OF ok] by simp
  have "unat (?s * (n div ?s)) = (?N * (unat n div ?N)) mod 2 ^ 32"
    by (simp only: unat_word_ariths unat_div_distrib s(1)) (simp add: mod_mult_right_eq)
  also have "\<dots> = ?N * (unat n div ?N)"
    using unsigned_less[of n] by (intro mod_less le_less_trans[OF times_div_less_eq_dividend]) simp
  finally have eq: "unat (wr_get_max_size (set_size_soft n w)) = ?N * (unat n div ?N)" unfolding sum w .
  show ?thesis
    unfolding eq using mod_less_divisor[OF s(3), of "unat n"] mult_div_mod_eq[of ?N "unat n"] by linarith
qed

text \<open>
  \<^verbatim>\<open>setFields\<close> reports success even when it does nothing: with a field of an unregistered type it
  returns true and leaves every shard as it was, although each shard refused the fields.
\<close>

lemma setFields_hides_refusal:
  assumes "f \<in> set fm" and "\<not> type_map_has (snd f)"
  shows "setFields_map fm w = (w, True) \<and> (\<forall>db \<in> set (sdbvp w). db_setFields fm db = (db, False))"
proof -
  have "\<not> list_all (\<lambda>f. type_map_has (snd f)) fm" using assms by (auto simp: list_all_iff)
  then show ?thesis by (simp add: setFields_map_def on_all_def db_setFields_def)
qed

end
