(* ===== verification/BlackWhiteList.thy ===== *)
theory BlackWhiteList
  imports Repl_Msgs Netmask_Tree "HOL-Library.Multiset"
begin

text \<open>
  \<^verbatim>\<open>BlackWhiteListDB\<close> of \<^verbatim>\<open>wforce/blackwhitelist.cc\<close>: the black list and the white list, each with
  five tables of entries that expire, the netmask group that decides about addresses, persistence in
  Redis and replication. The log lines, Redis commands, replicated operations and webhook events of
  a call are appended to a trace, so that a call that throws keeps what it had already sent.
\<close>

section \<open>Entries and tables\<close>

record BlackWhiteListEntry =
  ble_key :: string
  ble_reason :: string
  ble_expiration :: int

text \<open>
  A \<^verbatim>\<open>blackwhitelist_t\<close> is the list of its entries in the order of the sequenced index. The key index
  is unique; the time index is the stable order by expiration. Expirations are whole seconds.
\<close>

type_synonym blackwhitelist_t = "BlackWhiteListEntry list"

definition bl_find :: "string \<Rightarrow> blackwhitelist_t \<Rightarrow> BlackWhiteListEntry option" where
  "bl_find key l = List.find (\<lambda>e. ble_key e = key) l"

definition bl_erase :: "string \<Rightarrow> blackwhitelist_t \<Rightarrow> blackwhitelist_t" where
  "bl_erase key l = filter (\<lambda>e. ble_key e \<noteq> key) l"

definition add_entry :: "int \<Rightarrow> string \<Rightarrow> int \<Rightarrow> string \<Rightarrow> blackwhitelist_t \<Rightarrow> blackwhitelist_t" where
  "add_entry now key seconds reason l =
     bl_erase key l @ [\<lparr>ble_key = key, ble_reason = reason, ble_expiration = now + seconds\<rparr>]"

definition check_entry :: "string \<Rightarrow> blackwhitelist_t \<Rightarrow> bool" where
  "check_entry key l \<longleftrightarrow> bl_find key l \<noteq> None"

definition get_entry :: "string \<Rightarrow> blackwhitelist_t \<Rightarrow> BlackWhiteListEntry option" where
  "get_entry key l = bl_find key l"

definition delete_entry :: "string \<Rightarrow> blackwhitelist_t \<Rightarrow> blackwhitelist_t \<times> bool" where
  "delete_entry key l = (if bl_find key l \<noteq> None then (bl_erase key l, True) else (l, False))"

definition get_expiration :: "int \<Rightarrow> string \<Rightarrow> blackwhitelist_t \<Rightarrow> int" where
  "get_expiration now key l =
     (case bl_find key l of
        None \<Rightarrow> - 1
      | Some e \<Rightarrow> (let expiration_secs = ble_expiration e - now in if 0 \<le> expiration_secs then expiration_secs else - 1))"

definition time_index :: "blackwhitelist_t \<Rightarrow> blackwhitelist_t" where
  "time_index l = sort_key ble_expiration l"

section \<open>The database\<close>

datatype BLWLType = IP_BLWL | LOGIN_BLWL | IP_LOGIN_BLWL | JA3_BLWL | IP_JA3_BLWL | NONE_BLWL
datatype BLWLDBType = BLACKLIST | WHITELIST

datatype hook_value = HStr string | HInt int

datatype redis_cmd = R_SET string string int | R_DEL string | R_AUTH "string list"

datatype bl_effect =
    Log string
  | Redis redis_cmd
  | Replicate ReplicationOperation
  | Hook string "(string \<times> hook_value) list"

text \<open>The pointer \<^verbatim>\<open>redis_context\<close>: null, a live context, or one that has been freed.\<close>

datatype redis_ptr = Ctx_Null | Ctx_Live | Ctx_Freed

record BlackWhiteListDB =
  db_type :: BLWLDBType
  iplist_netmask :: NetmaskGroup
  ip_list :: blackwhitelist_t
  login_list :: blackwhitelist_t
  ip_login_list :: blackwhitelist_t
  ja3_list :: blackwhitelist_t
  ip_ja3_list :: blackwhitelist_t
  persist :: bool
  persist_replicated :: bool
  redis_server :: string
  redis_port :: "32 word"
  redis_username :: string
  redis_password :: string
  redis_context :: redis_ptr
  trace :: "bl_effect list"

definition new_BlackWhiteListDB :: "BLWLDBType \<Rightarrow> BlackWhiteListDB" where
  "new_BlackWhiteListDB ty =
     \<lparr>db_type = ty, iplist_netmask = new_NetmaskGroup, ip_list = [], login_list = [], ip_login_list = [],
      ja3_list = [], ip_ja3_list = [], persist = False, persist_replicated = False, redis_server = [],
      redis_port = 6379, redis_username = [], redis_password = [], redis_context = Ctx_Null, trace = []\<rparr>"

definition list_names :: "BLWLDBType \<Rightarrow> string list" where
  "list_names ty =
     (if ty = BLACKLIST then [''ip_bl'', ''login_bl'', ''ip_login_bl'', ''ja3_bl'', ''ip_ja3_bl'']
      else [''ip_wl'', ''login_wl'', ''ip_login_wl'', ''ja3_wl'', ''ip_ja3_wl''])"

definition redis_prefix :: "BLWLDBType \<Rightarrow> string" where
  "redis_prefix ty = (if ty = BLACKLIST then ''wfbl'' else ''wfwl'')"

definition key_names :: "string list" where
  "key_names = [''ip'', ''login'', ''ip_login'', ''ja3'', ''ip_ja3'']"

fun type_num :: "BLWLType \<Rightarrow> nat" where
  "type_num IP_BLWL = 0"
| "type_num LOGIN_BLWL = 1"
| "type_num IP_LOGIN_BLWL = 2"
| "type_num JA3_BLWL = 3"
| "type_num IP_JA3_BLWL = 4"
| "type_num NONE_BLWL = 999"

text \<open>\<^verbatim>\<open>static_cast<BLWLType>\<close>; every number without an enumerator takes the default branch of the switches.\<close>

definition type_of_num :: "nat \<Rightarrow> BLWLType" where
  "type_of_num n =
     (if n = 0 then IP_BLWL else if n = 1 then LOGIN_BLWL else if n = 2 then IP_LOGIN_BLWL
      else if n = 3 then JA3_BLWL else if n = 4 then IP_JA3_BLWL else NONE_BLWL)"

definition BLWLTypeToName :: "BLWLType \<Rightarrow> string" where
  "BLWLTypeToName ty = (if type_num ty < length key_names then key_names ! type_num ty else [])"

fun name_index :: "string \<Rightarrow> string list \<Rightarrow> nat \<Rightarrow> nat option" where
  "name_index nm [] i = None"
| "name_index nm (key_name # names) i = (if nm = key_name then Some i else name_index nm names (Suc i))"

definition BLWLNameToType :: "string \<Rightarrow> BLWLType" where
  "BLWLNameToType blwl_name =
     (case name_index blwl_name key_names 0 of None \<Rightarrow> NONE_BLWL | Some i \<Rightarrow> type_of_num i)"

fun get_list :: "BLWLType \<Rightarrow> BlackWhiteListDB \<Rightarrow> blackwhitelist_t" where
  "get_list IP_BLWL db = ip_list db"
| "get_list LOGIN_BLWL db = login_list db"
| "get_list IP_LOGIN_BLWL db = ip_login_list db"
| "get_list JA3_BLWL db = ja3_list db"
| "get_list IP_JA3_BLWL db = ip_ja3_list db"
| "get_list NONE_BLWL db = []"

fun upd_list :: "BLWLType \<Rightarrow> (blackwhitelist_t \<Rightarrow> blackwhitelist_t) \<Rightarrow> BlackWhiteListDB \<Rightarrow> BlackWhiteListDB" where
  "upd_list IP_BLWL f db = db\<lparr>ip_list := f (ip_list db)\<rparr>"
| "upd_list LOGIN_BLWL f db = db\<lparr>login_list := f (login_list db)\<rparr>"
| "upd_list IP_LOGIN_BLWL f db = db\<lparr>ip_login_list := f (ip_login_list db)\<rparr>"
| "upd_list JA3_BLWL f db = db\<lparr>ja3_list := f (ja3_list db)\<rparr>"
| "upd_list IP_JA3_BLWL f db = db\<lparr>ip_ja3_list := f (ip_ja3_list db)\<rparr>"
| "upd_list NONE_BLWL f db = db"

definition emit :: "bl_effect \<Rightarrow> BlackWhiteListDB \<Rightarrow> BlackWhiteListDB" where
  "emit x db = db\<lparr>trace := trace db @ [x]\<rparr>"

section \<open>Logging\<close>

definition entry_log :: "string \<Rightarrow> string \<Rightarrow> BLWLType \<Rightarrow> string \<Rightarrow> BLWLDBType \<Rightarrow> string" where
  "entry_log bl_event wl_event blt key ty =
     (if ty = BLACKLIST then bl_event else wl_event) @ '' '' @ list_names ty ! type_num blt @ '': ''
       @ BLWLTypeToName blt @ ''='' @ key"

definition addEntryLog :: "BLWLType \<Rightarrow> string \<Rightarrow> int \<Rightarrow> string \<Rightarrow> BlackWhiteListDB \<Rightarrow> BlackWhiteListDB" where
  "addEntryLog blt key seconds reason db =
     emit (Log (entry_log ''addBLEntry'' ''addWLEntry'' blt key (db_type db) @ '' expire_secs='' @ int_to_string seconds
       @ '' reason='' @ [CHR 0x22] @ reason @ [CHR 0x22])) db"

definition deleteEntryLog :: "BLWLType \<Rightarrow> string \<Rightarrow> BlackWhiteListDB \<Rightarrow> BlackWhiteListDB" where
  "deleteEntryLog blt key db = emit (Log (entry_log ''deleteBLEntry'' ''deleteWLEntry'' blt key (db_type db))) db"

definition expireEntryLog :: "BLWLType \<Rightarrow> string \<Rightarrow> BlackWhiteListDB \<Rightarrow> BlackWhiteListDB" where
  "expireEntryLog blt key db = emit (Log (entry_log ''deleteBLEntry'' ''deleteWLEntry'' blt key (db_type db))) db"

section \<open>Redis\<close>

text \<open>
  What the Redis client and the resolver answer: whether the current context has an error, the
  addresses of the server, whether an address accepts a connection, whether the socket options can
  be set, and the reply to a command (\<open>None\<close> is a null reply).
\<close>

datatype redis_reply = Reply_Error | Reply_Other

record redis_env =
  ctx_err :: bool
  resolve :: "string \<Rightarrow> 32 word \<Rightarrow> string list option"
  connect :: "string \<Rightarrow> bool"
  set_timeout :: bool
  keep_alive :: bool
  reply_to :: "redis_cmd \<Rightarrow> redis_reply option"

definition redis_auth :: "redis_env \<Rightarrow> BlackWhiteListDB \<Rightarrow> (BlackWhiteListDB, bool) outcome" where
  "redis_auth R db =
     (if redis_password db \<noteq> [] then
        (let cmd = R_AUTH (if redis_username db \<noteq> [] then [redis_username db, redis_password db] else [redis_password db]);
             db1 = emit (Redis cmd) db
         in if reply_to R cmd = Some Reply_Error
            then Exn (Wforce_Exception ''Error: Error in AUTH to persistent redis BlackWhiteListDB'') db1
            else Ret db1 True)
      else Ret db True)"

definition set_options :: "redis_env \<Rightarrow> BlackWhiteListDB \<Rightarrow> (BlackWhiteListDB, bool) outcome" where
  "set_options R db =
     (if \<not> set_timeout R then Exn (Wforce_Exception ''Error: could not set Redis Timeout in BlackWhitelist'') db
      else if \<not> keep_alive R then Exn (Wforce_Exception ''Error: Could not enable Redis KeepAlive in BlackWhitelist'') db
      else redis_auth R db)"

text \<open>
  A context with an error is freed before the server is resolved; each failed connection sets the
  pointer to null. Reading \<^verbatim>\<open>redis_context->err\<close> of a freed context is undefined.
\<close>

definition checkSetupContext :: "redis_env \<Rightarrow> BlackWhiteListDB \<Rightarrow> (BlackWhiteListDB, bool) outcome" where
  "checkSetupContext R db =
     (if redis_context db = Ctx_Freed then Undef
      else if redis_context db = Ctx_Null \<or> ctx_err R then
        (let freed = (if redis_context db = Ctx_Live then Ctx_Freed else Ctx_Null)
         in case resolve R (redis_server db) (redis_port db) of
              None \<Rightarrow> Ret (db\<lparr>redis_context := freed\<rparr>) False
            | Some addrs \<Rightarrow>
                (if list_ex (connect R) addrs then set_options R (db\<lparr>redis_context := Ctx_Live\<rparr>)
                 else if addrs = [] \<and> freed = Ctx_Freed then Undef
                 else Ret (db\<lparr>redis_context := Ctx_Null\<rparr>) False))
      else redis_auth R db)"

definition makePersistent :: "string \<Rightarrow> 32 word \<Rightarrow> BlackWhiteListDB \<Rightarrow> BlackWhiteListDB" where
  "makePersistent host port db = db\<lparr>persist := True, redis_server := host, redis_port := port\<rparr>"

definition persistReplicated :: "BlackWhiteListDB \<Rightarrow> BlackWhiteListDB" where
  "persistReplicated db = db\<lparr>persist_replicated := True\<rparr>"

definition redis_key :: "BLWLDBType \<Rightarrow> BLWLType \<Rightarrow> string \<Rightarrow> string" where
  "redis_key ty blwl_type key = redis_prefix ty @ '':'' @ BLWLTypeToName blwl_type @ '':'' @ key"

definition redis_value :: "int \<Rightarrow> string \<Rightarrow> string" where
  "redis_value expiration_time reason = int_to_string expiration_time @ '':'' @ reason"

definition redis_command :: "redis_env \<Rightarrow> redis_cmd \<Rightarrow> BlackWhiteListDB \<Rightarrow> (BlackWhiteListDB, bool) outcome" where
  "redis_command R cmd db = Ret (emit (Redis cmd) db) (reply_to R cmd = Some Reply_Other)"

text \<open>The conversion \<^verbatim>\<open>%d\<close> takes the low 32 bits of the seconds.\<close>

definition as_int :: "int \<Rightarrow> int" where
  "as_int x = sint (word_of_int x :: 32 word)"

definition addPersistEntry ::
    "redis_env \<Rightarrow> int \<Rightarrow> string \<Rightarrow> int \<Rightarrow> BLWLType \<Rightarrow> string \<Rightarrow> BlackWhiteListDB \<Rightarrow> (BlackWhiteListDB, bool) outcome" where
  "addPersistEntry R now key seconds blwl_type reason db =
     obind (checkSetupContext R db) (\<lambda>db1 up.
       if \<not> up then Ret db1 False
       else redis_command R (R_SET (c_str (redis_key (db_type db) blwl_type key)) (redis_value (now + seconds) reason) (as_int seconds)) db1)"

definition deletePersistEntry ::
    "redis_env \<Rightarrow> string \<Rightarrow> BLWLType \<Rightarrow> BlackWhiteListDB \<Rightarrow> (BlackWhiteListDB, bool) outcome" where
  "deletePersistEntry R key blwl_type db =
     obind (checkSetupContext R db) (\<lambda>db1 up.
       if \<not> up then Ret db1 False
       else redis_command R (R_DEL (c_str (redis_key (db_type db) blwl_type key))) db1)"

section \<open>Adding\<close>

definition replicate_bl :: "BLOpType \<Rightarrow> BLWLType \<Rightarrow> string \<Rightarrow> int \<Rightarrow> string \<Rightarrow> BlackWhiteListDB \<Rightarrow> BlackWhiteListDB" where
  "replicate_bl op blwl_type key seconds reason db =
     (let m = bl_op op (of_nat (type_num blwl_type)) key seconds reason
      in emit (Replicate (if db_type db = BLACKLIST then new_ReplicationOperation (Some (BL_Rep m)) BlacklistType
                          else new_ReplicationOperation (Some (WL_Rep m)) WhitelistType)) db)"

text \<open>The lambda \<^verbatim>\<open>add\<close> of \<^verbatim>\<open>addEntryInternal\<close>; \<open>t2\<close> is the second reading of the clock.\<close>

definition after_add ::
    "redis_env \<Rightarrow> int \<Rightarrow> string \<Rightarrow> int \<Rightarrow> BLWLType \<Rightarrow> string \<Rightarrow> bool \<Rightarrow> BlackWhiteListDB \<Rightarrow> (BlackWhiteListDB, unit) outcome" where
  "after_add R t2 key seconds blwl_type reason repl db =
     (let db1 = addEntryLog blwl_type key seconds reason db
      in obind (if persist db1 \<and> (repl \<or> \<not> repl \<and> persist_replicated db1)
                then obind (addPersistEntry R t2 key seconds blwl_type reason db1) (\<lambda>db2 _. Ret db2 ())
                else Ret db1 ())
           (\<lambda>db2 _. Ret (if repl then replicate_bl BLAdd blwl_type key seconds reason db2 else db2) ()))"

definition event :: "string \<Rightarrow> string \<Rightarrow> BlackWhiteListDB \<Rightarrow> string" where
  "event bl wl db = (if db_type db = BLACKLIST then bl else wl)"

definition hook_add :: "string \<Rightarrow> int \<Rightarrow> BLWLType \<Rightarrow> string \<Rightarrow> BlackWhiteListDB \<Rightarrow> BlackWhiteListDB" where
  "hook_add key seconds blwl_type reason db =
     emit (Hook (event ''addbl'' ''addwl'' db)
       [(''key'', HStr key), (event ''bl_type'' ''wl_type'' db, HStr (BLWLTypeToName blwl_type)), (''reason'', HStr reason),
        (''expire_secs'', HInt (signed_take_bit 31 seconds)), (''type'', HStr ''wforce_addblwl'')]) db"

text \<open>A call on the netmask group, lifted to the database.\<close>

definition on_netmask ::
    "(NetmaskGroup \<Rightarrow> (NetmaskGroup, unit) outcome) \<Rightarrow> BlackWhiteListDB \<Rightarrow> (BlackWhiteListDB, unit) outcome" where
  "on_netmask f db = map_state (\<lambda>g. db\<lparr>iplist_netmask := g\<rparr>) (f (iplist_netmask db))"

definition addEntryInternal ::
    "redis_env \<Rightarrow> netlib \<Rightarrow> int \<times> int \<Rightarrow> string \<Rightarrow> int \<Rightarrow> BLWLType \<Rightarrow> string \<Rightarrow> bool \<Rightarrow> BlackWhiteListDB
     \<Rightarrow> (BlackWhiteListDB, unit) outcome" where
  "addEntryInternal R N ts key seconds blwl_type reason repl db =
     obind
       (let db1 = upd_list blwl_type (add_entry (fst ts) key seconds reason) db
        in case blwl_type of
             NONE_BLWL \<Rightarrow> Ret db ()
           | IP_BLWL \<Rightarrow>
               obind (on_netmask (addMask_str N key True) db1)
                 (\<lambda>db2 _. after_add R (snd ts) key seconds blwl_type reason repl db2)
           | _ \<Rightarrow> after_add R (snd ts) key seconds blwl_type reason repl db1)
       (\<lambda>db3 _. Ret (if repl then hook_add key seconds blwl_type reason db3 else db3) ())"

definition ipStringStr :: "netlib \<Rightarrow> ComboAddress \<Rightarrow> string \<Rightarrow> string" where
  "ipStringStr N ca str = ca_toString N ca @ '':'' @ str"

definition add_logged ::
    "redis_env \<Rightarrow> netlib \<Rightarrow> int \<times> int \<Rightarrow> string \<Rightarrow> int \<Rightarrow> BLWLType \<Rightarrow> string \<Rightarrow> BlackWhiteListDB
     \<Rightarrow> (BlackWhiteListDB, unit) outcome" where
  "add_logged R N ts key seconds blwl_type reason db =
     obind (addEntryInternal R N ts key seconds blwl_type reason True db)
       (\<lambda>db' _. Ret (addEntryLog blwl_type key seconds reason db') ())"

definition addEntry_netmask where
  "addEntry_netmask R N ts nm seconds reason = add_logged R N ts (toStringNetwork N nm) seconds IP_BLWL reason"

definition addEntry_ip where
  "addEntry_ip R N ts ca seconds reason =
     add_logged R N ts (toStringNetwork N (new_Netmask ca 255)) seconds IP_BLWL reason"

definition addEntry_login where
  "addEntry_login R N ts login seconds reason = add_logged R N ts login seconds LOGIN_BLWL reason"

definition addEntry_ip_login where
  "addEntry_ip_login R N ts ca login seconds reason =
     add_logged R N ts (ipStringStr N ca login) seconds IP_LOGIN_BLWL reason"

definition addJA3Entry where
  "addJA3Entry R N ts ja3 seconds reason = add_logged R N ts ja3 seconds JA3_BLWL reason"

definition addIPJA3Entry where
  "addIPJA3Entry R N ts ca ja3 seconds reason =
     add_logged R N ts (ipStringStr N ca ja3) seconds IP_JA3_BLWL reason"

section \<open>Checking and reading\<close>

definition checkEntry_ip :: "ComboAddress \<Rightarrow> BlackWhiteListDB \<Rightarrow> bool" where
  "checkEntry_ip ca db = ng_match ca (iplist_netmask db)"

definition checkEntry_login where "checkEntry_login login db = check_entry login (login_list db)"

definition checkEntry_ip_login where
  "checkEntry_ip_login N ca login db = check_entry (ipStringStr N ca login) (ip_login_list db)"

definition checkJA3Entry where "checkJA3Entry ja3 db = check_entry ja3 (ja3_list db)"

definition checkIPJA3Entry where
  "checkIPJA3Entry N ca ja3 db = check_entry (ipStringStr N ca ja3) (ip_ja3_list db)"

text \<open>The netmask variable keeps its default value when the lookup finds nothing.\<close>

definition looked_up :: "ComboAddress \<Rightarrow> BlackWhiteListDB \<Rightarrow> Netmask" where
  "looked_up ca db = (case snd (ng_lookup ca (iplist_netmask db)) of None \<Rightarrow> empty_Netmask | Some nm \<Rightarrow> nm)"

definition getEntry_ip :: "netlib \<Rightarrow> ComboAddress \<Rightarrow> BlackWhiteListDB \<Rightarrow> BlackWhiteListEntry option" where
  "getEntry_ip N ca db = get_entry (nm_toString N (looked_up ca db)) (ip_list db)"

definition getEntry_login where "getEntry_login login db = get_entry login (login_list db)"

definition getEntry_ip_login where
  "getEntry_ip_login N ca login db = get_entry (ipStringStr N ca login) (ip_login_list db)"

definition getJA3Entry where "getJA3Entry ja3 db = get_entry ja3 (ja3_list db)"

definition getIPJA3Entry where
  "getIPJA3Entry N ca ja3 db = get_entry (ipStringStr N ca ja3) (ip_ja3_list db)"

definition getExpiration_ip :: "netlib \<Rightarrow> int \<Rightarrow> ComboAddress \<Rightarrow> BlackWhiteListDB \<Rightarrow> int" where
  "getExpiration_ip N now ca db = get_expiration now (nm_toString N (looked_up ca db)) (ip_list db)"

definition getExpiration_login where "getExpiration_login now login db = get_expiration now login (login_list db)"

definition getExpiration_ip_login where
  "getExpiration_ip_login N now ca login db = get_expiration now (ipStringStr N ca login) (ip_login_list db)"

definition getJA3Expiration where "getJA3Expiration now ja3 db = get_expiration now ja3 (ja3_list db)"

definition getIPJA3Expiration where
  "getIPJA3Expiration N now ca ja3 db = get_expiration now (ipStringStr N ca ja3) (ip_ja3_list db)"

section \<open>Deleting\<close>

definition after_delete ::
    "redis_env \<Rightarrow> string \<Rightarrow> BLWLType \<Rightarrow> bool \<Rightarrow> BlackWhiteListDB \<Rightarrow> (BlackWhiteListDB, unit) outcome" where
  "after_delete R key blwl_type repl db =
     (let db1 = deleteEntryLog blwl_type key db
      in obind (if persist db1 \<and> (repl \<or> \<not> repl \<and> persist_replicated db1)
                then obind (deletePersistEntry R key blwl_type db1) (\<lambda>db2 _. Ret db2 ())
                else Ret db1 ())
           (\<lambda>db2 _. Ret (if repl then replicate_bl BLDelete blwl_type key 0 [] db2 else db2) ()))"

definition hook_delete :: "string \<Rightarrow> BLWLType \<Rightarrow> BlackWhiteListDB \<Rightarrow> BlackWhiteListDB" where
  "hook_delete key blwl_type db =
     emit (Hook (event ''delbl'' ''delwl'' db)
       [(''key'', HStr key), (event ''bl_type'' ''wl_type'' db, HStr (BLWLTypeToName blwl_type)),
        (''type'', HStr ''wforce_delblwl'')]) db"

definition deleteEntryInternal ::
    "redis_env \<Rightarrow> netlib \<Rightarrow> string \<Rightarrow> BLWLType \<Rightarrow> bool \<Rightarrow> BlackWhiteListDB \<Rightarrow> (BlackWhiteListDB, unit) outcome" where
  "deleteEntryInternal R N key blwl_type repl db =
     obind
       (let db1 = upd_list blwl_type (\<lambda>l. fst (delete_entry key l)) db
        in case blwl_type of
             NONE_BLWL \<Rightarrow> Ret db ()
           | IP_BLWL \<Rightarrow>
               obind (on_netmask (deleteMask_str N key) db1) (\<lambda>db2 _. after_delete R key blwl_type repl db2)
           | _ \<Rightarrow> after_delete R key blwl_type repl db1)
       (\<lambda>db3 _. Ret (if repl then hook_delete key blwl_type db3 else db3) ())"

definition deleteEntry_netmask where
  "deleteEntry_netmask R N nm = deleteEntryInternal R N (toStringNetwork N nm) IP_BLWL True"

definition deleteEntry_ip where
  "deleteEntry_ip R N ca = deleteEntryInternal R N (toStringNetwork N (new_Netmask ca 255)) IP_BLWL True"

definition deleteEntry_login where "deleteEntry_login R N login = deleteEntryInternal R N login LOGIN_BLWL True"

definition deleteEntry_ip_login where
  "deleteEntry_ip_login R N ca login = deleteEntryInternal R N (ipStringStr N ca login) IP_LOGIN_BLWL True"

definition deleteJA3Entry where "deleteJA3Entry R N ja3 = deleteEntryInternal R N ja3 JA3_BLWL True"

definition deleteIPJA3Entry where
  "deleteIPJA3Entry R N ca ja3 = deleteEntryInternal R N (ipStringStr N ca ja3) IP_JA3_BLWL True"

section \<open>Expiry\<close>

definition hook_expire :: "string \<Rightarrow> BLWLType \<Rightarrow> BlackWhiteListDB \<Rightarrow> BlackWhiteListDB" where
  "hook_expire key blwl_type db =
     emit (Hook (event ''expirebl'' ''expirewl'' db)
       [(''key'', HStr key), (event ''bl_type'' ''wl_type'' db, HStr (BLWLTypeToName blwl_type)),
        (''type'', HStr ''wforce_expireblwl'')]) db"

text \<open>The loop over the time index; its first argument is what the iterator has still ahead of it.\<close>

fun purge_loop ::
    "netlib \<Rightarrow> int \<Rightarrow> BLWLType \<Rightarrow> blackwhitelist_t \<Rightarrow> BlackWhiteListDB \<Rightarrow> (BlackWhiteListDB, unit) outcome" where
  "purge_loop N now ty [] db = Ret db ()"
| "purge_loop N now ty (e # es) db =
     (if ble_expiration e \<le> now then
        (let db1 = expireEntryLog ty (ble_key e) (hook_expire (ble_key e) ty db)
         in obind (if ty = IP_BLWL then on_netmask (deleteMask_str N (ble_key e)) db1 else Ret db1 ())
              (\<lambda>db2 _. purge_loop N now ty es (upd_list ty (bl_erase (ble_key e)) db2)))
      else Ret db ())"

definition purge_list :: "netlib \<Rightarrow> int \<Rightarrow> BLWLType \<Rightarrow> BlackWhiteListDB \<Rightarrow> (BlackWhiteListDB, unit) outcome" where
  "purge_list N now ty db = purge_loop N now ty (time_index (get_list ty db)) db"

text \<open>One round of the purge thread; \<open>now i\<close> is the time of the \<open>i\<close>-th table.\<close>

definition purgeEntries :: "netlib \<Rightarrow> (nat \<Rightarrow> int) \<Rightarrow> BlackWhiteListDB \<Rightarrow> (BlackWhiteListDB, unit) outcome" where
  "purgeEntries N now db =
     obind (purge_list N (now 0) IP_BLWL db) (\<lambda>db1 _.
     obind (purge_list N (now 1) LOGIN_BLWL db1) (\<lambda>db2 _.
     obind (purge_list N (now 2) IP_LOGIN_BLWL db2) (\<lambda>db3 _.
     obind (purge_list N (now 3) JA3_BLWL db3) (\<lambda>db4 _.
     purge_list N (now 4) IP_JA3_BLWL db4))))"

section \<open>Loading from Redis\<close>

datatype get_reply = Get_Null | Get_Error | Get_Str string | Get_Other
datatype scan_reply = Scan_Null | Scan_Error | Scan_Array string "(string \<times> get_reply) list" | Scan_Other

text \<open>One key of a scan and the reply to its \<^verbatim>\<open>GET\<close>; the value returned is \<^verbatim>\<open>retval\<close> and the number of entries added.\<close>

definition load_key ::
    "netlib \<Rightarrow> int \<times> int \<Rightarrow> string \<Rightarrow> get_reply \<Rightarrow> BlackWhiteListDB \<Rightarrow> (BlackWhiteListDB, bool \<times> nat) outcome" where
  "load_key N ts keystr reply db =
     (case reply of
        Get_Null \<Rightarrow> Ret db (False, 0)
      | Get_Error \<Rightarrow> Ret db (False, 0)
      | Get_Other \<Rightarrow> Ret db (True, 0)
      | Get_Str valstr \<Rightarrow>
          (let keysplit = splitField (snd (splitField keystr CHR '':'')) CHR '':'';
               valsplit = splitField valstr CHR '':''
           in case stoi (fst valsplit) of
                Inl e \<Rightarrow> Exn e db
              | Inr ex \<Rightarrow>
                  (let blwl_key = snd keysplit; blwl_reason = snd valsplit; blwl_seconds = ex - fst ts;
                       ty = BLWLNameToType (fst keysplit);
                       db1 = upd_list ty (add_entry (snd ts) blwl_key blwl_seconds blwl_reason) db
                   in case ty of
                        IP_BLWL \<Rightarrow> obind (on_netmask (addMask_str N blwl_key True) db1) (\<lambda>db2 _. Ret db2 (True, 1))
                      | LOGIN_BLWL \<Rightarrow> Ret db1 (True, 1)
                      | IP_LOGIN_BLWL \<Rightarrow> Ret db1 (True, 1)
                      | _ \<Rightarrow> Ret db (False, 0))))"

fun load_keys ::
    "netlib \<Rightarrow> int \<times> int \<Rightarrow> (string \<times> get_reply) list \<Rightarrow> BlackWhiteListDB \<Rightarrow> (BlackWhiteListDB, bool \<times> nat) outcome" where
  "load_keys N ts [] db = Ret db (True, 0)"
| "load_keys N ts ((k, r) # krs) db =
     obind (load_key N ts k r db) (\<lambda>db1 x.
       if \<not> fst x then Ret db1 x
       else obind (load_keys N ts krs db1) (\<lambda>db2 y. Ret db2 (fst y, snd x + snd y)))"

text \<open>
  The scan loop on the replies the server gives: \<open>None\<close> while the loop is still asking for more after
  the last of them.
\<close>

fun scan_loop ::
    "netlib \<Rightarrow> int \<times> int \<Rightarrow> scan_reply list \<Rightarrow> BlackWhiteListDB \<Rightarrow> (BlackWhiteListDB, bool \<times> nat) outcome option" where
  "scan_loop N ts [] db = None"
| "scan_loop N ts (r # rs) db =
     (case r of
        Scan_Null \<Rightarrow> Some (Ret db (False, 0))
      | Scan_Error \<Rightarrow> Some (Ret db (False, 0))
      | Scan_Other \<Rightarrow> scan_loop N ts rs db
      | Scan_Array counter krs \<Rightarrow>
          (case stoi counter of
             Inl e \<Rightarrow> Some (Exn e db)
           | Inr count_it \<Rightarrow>
               (case load_keys N ts krs db of
                  Undef \<Rightarrow> Some Undef
                | Exn e db1 \<Rightarrow> Some (Exn e db1)
                | Ret db1 x \<Rightarrow>
                    (if \<not> fst x \<or> count_it = 0 then Some (Ret db1 x)
                     else map_option (\<lambda>o'. obind o' (\<lambda>db2 y. Ret db2 (fst y, snd x + snd y))) (scan_loop N ts rs db1)))))"

definition loadPersistEntries ::
    "redis_env \<Rightarrow> netlib \<Rightarrow> int \<times> int \<Rightarrow> scan_reply list \<Rightarrow> BlackWhiteListDB
     \<Rightarrow> (BlackWhiteListDB, bool \<times> nat) outcome option" where
  "loadPersistEntries R N ts replies db =
     (if \<not> persist db then Some (Ret db (True, 0))
      else case checkSetupContext R db of
             Undef \<Rightarrow> Some Undef
           | Exn e db1 \<Rightarrow> Some (Exn e db1)
           | Ret db1 up \<Rightarrow>
               (if up then scan_loop N ts replies db1
                else Some (Exn (Wforce_Exception (''Error - could not connect to configured persistent redis DB (''
                       @ redis_server db @ '':'' @ nat_to_string (unat (redis_port db)) @ '')'')) db1)))"

section \<open>A table is a store of entries by key\<close>

definition bl_ok :: "blackwhitelist_t \<Rightarrow> bool" where
  "bl_ok l \<longleftrightarrow> distinct (map ble_key l)"

definition bl_get :: "blackwhitelist_t \<Rightarrow> string \<Rightarrow> (string \<times> int) option" where
  "bl_get l key = map_option (\<lambda>e. (ble_reason e, ble_expiration e)) (bl_find key l)"

definition bl_put :: "string \<Rightarrow> string \<times> int \<Rightarrow> blackwhitelist_t \<Rightarrow> blackwhitelist_t" where
  "bl_put key re l = bl_erase key l @ [\<lparr>ble_key = key, ble_reason = fst re, ble_expiration = snd re\<rparr>]"

lemma add_entry_put: "add_entry now key seconds reason l = bl_put key (reason, now + seconds) l"
  by (simp add: add_entry_def bl_put_def)

lemma bl_find_Some_iff: "bl_ok l \<Longrightarrow> bl_find key l = Some e \<longleftrightarrow> e \<in> set l \<and> ble_key e = key"
  unfolding bl_find_def bl_ok_def by (induction l) auto

lemma bl_find_None_iff: "bl_find key l = None \<longleftrightarrow> key \<notin> ble_key ` set l"
  unfolding bl_find_def by (induction l) auto

lemma bl_erase_absent: "bl_find key l = None \<Longrightarrow> bl_erase key l = l"
  by (auto simp: bl_find_None_iff bl_erase_def filter_id_conv)

lemma delete_entry_erase: "fst (delete_entry key l) = bl_erase key l"
  by (simp add: delete_entry_def bl_erase_absent)

lemma bl_ok_erase: "bl_ok l \<Longrightarrow> bl_ok (bl_erase key l)"
  by (simp add: bl_ok_def bl_erase_def distinct_map_filter)

lemma bl_ok_put: "bl_ok l \<Longrightarrow> bl_ok (bl_put key re l)"
  using bl_ok_erase[of l key] by (auto simp: bl_ok_def bl_put_def bl_erase_def)

lemma bl_find_erase: "bl_find j (bl_erase k l) = (if j = k then None else bl_find j l)"
  unfolding bl_find_def bl_erase_def by (induction l) auto

lemma bl_find_append: "bl_find j (xs @ ys) = (case bl_find j xs of None \<Rightarrow> bl_find j ys | Some e \<Rightarrow> Some e)"
  unfolding bl_find_def by (induction xs) auto

lemma bl_find_put:
  "bl_find j (bl_put k re l) =
     (if j = k then Some \<lparr>ble_key = k, ble_reason = fst re, ble_expiration = snd re\<rparr> else bl_find j l)"
  by (simp add: bl_put_def bl_find_append bl_find_erase split: option.splits) (simp add: bl_find_def)

interpretation table: keyed_store bl_ok bl_get bl_put "\<lambda>key l. fst (delete_entry key l)"
  by unfold_locales
    (auto simp: bl_ok_put bl_ok_erase delete_entry_erase bl_get_def bl_find_put bl_find_erase)

section \<open>The lists and the netmask group agree\<close>

text \<open>
  The string of a netmask is canonical when it is what \<^verbatim>\<open>toStringNetwork\<close> prints for it: it parses
  back to the netmask, which has no host bits. These are the keys that the calls with an address or a
  netmask generate.
\<close>

definition canon :: "netlib \<Rightarrow> string \<Rightarrow> Netmask \<Rightarrow> bool" where
  "canon N k nm \<longleftrightarrow>
     Netmask_of_string N k = Inr nm \<and> nm_wf nm \<and> d_mask nm = mask_of (d_bits nm)
     \<and> d_network nm = set_port 0 (getMaskedNetwork nm)
     \<and> toStringNetwork N nm = k \<and> hd k \<noteq> CHR ''!'' \<and> k \<noteq> ''invalid/0''"

definition prints_plain :: "netlib \<Rightarrow> ComboAddress \<Rightarrow> bool" where
  "prints_plain N ca \<longleftrightarrow>
     prints_back N ca \<and> (\<forall>s. getnameinfo N ca = Some s \<longrightarrow> s \<noteq> [] \<and> hd s \<noteq> CHR ''!'' \<and> s \<noteq> ''invalid'')"

lemma canon_not_Nil: "canon N k nm \<Longrightarrow> k \<noteq> []"
  by (auto simp: canon_def toStringNetwork_eq)

lemma canon_toString: "canon N k nm \<Longrightarrow> nm_toString N nm = k"
  unfolding canon_def nm_toString_def using toStringNetwork_eq by metis

lemma canon_fun: "canon N k nm \<Longrightarrow> canon N k nm' \<Longrightarrow> nm = nm'"
  by (simp add: canon_def)

lemma canon_inj: "canon N k nm \<Longrightarrow> canon N k' nm \<Longrightarrow> k = k'"
  by (simp add: canon_def)

lemma canon_path_unique:
  assumes c: "canon N k nm" "canon N k' nm'"
    and fam: "key_family (d_network nm) = key_family (d_network nm')" and path: "key_path nm = key_path nm'"
  shows "nm = nm'"
proof -
  have wf: "nm_wf nm" "nm_wf nm'" using c by (simp_all add: canon_def)
  have w: "addr_width (d_network nm) = addr_width (d_network nm')"
    using wf fam by (cases "d_network nm"; cases "d_network nm'") (auto simp: nm_wf_def key_family_def)
  have le: "d_bits nm \<le> addr_width (d_network nm)" "d_bits nm' \<le> addr_width (d_network nm')"
    using wf by (auto simp: nm_wf_def split: ComboAddress.splits)
  have p: "take (d_bits nm) (addr_bits (d_network nm)) = take (d_bits nm') (addr_bits (d_network nm'))"
    using path nm_wf_path[OF wf(1)] nm_wf_path[OF wf(2)] by simp
  have bits: "d_bits nm = d_bits nm'"
    using arg_cong[OF p, of length] le by (simp add: addr_bits_def)
  have "d_network nm = d_network nm'"
    using masked_eq_iff_prefix[OF wf w bits] p bits c unfolding canon_def by metis
  then show ?thesis using bits c by (simp add: canon_def)
qed

lemma take_masked_bits:
  "nm_wf nm \<Longrightarrow> take (d_bits nm) (addr_bits (getMaskedNetwork nm)) = take (d_bits nm) (addr_bits (d_network nm))"
  by (auto simp: addr_bits_def list_eq_iff_nth_eq addr_bit_masked addr_width_masked)

lemma addr_bits_set_port: "addr_bits (set_port p c) = addr_bits c" "addr_width (set_port p c) = addr_width c"
  by (cases c; auto simp: addr_bits_def)+

lemma canon_print:
  assumes wf: "nm_wf nm" and pp: "prints_plain N (set_port 0 (getMaskedNetwork nm))"
  shows "canon N (toStringNetwork N nm)
    \<lparr>d_network = set_port 0 (getMaskedNetwork nm), d_mask = mask_of (d_bits nm), d_bits = d_bits nm\<rparr>"
    (is "canon N ?k ?m")
proof -
  let ?ca = "set_port 0 (getMaskedNetwork nm)"
  have pb: "prints_back N ?ca" using pp by (simp add: prints_plain_def)
  obtain s where s: "getnameinfo N ?ca = Some s" "s \<noteq> []" "hd s \<noteq> CHR ''!''" "s \<noteq> ''invalid''" "CHR ''/'' \<notin> set s"
    using pp by (auto simp: prints_plain_def prints_back_def split: option.splits)
  have wf': "nm_wf ?m"
    using wf masked_wf[OF wf] by (cases "d_network nm") (auto simp: nm_wf_def getMaskedNetwork_def)
  have "set_port 0 (getMaskedNetwork ?m) = ?ca"
    using masked_eq_iff_prefix[OF wf' wf] take_masked_bits[OF wf] by (simp add: addr_bits_set_port)
  moreover have nn: "?ca \<noteq> CA_None" using wf by (cases "d_network nm") (auto simp: nm_wf_def getMaskedNetwork_def)
  ultimately have str: "toStringNetwork N ?m = ?k" "?k = s @ ''/'' @ nat_to_string (d_bits nm)"
    using s(1) by (simp_all add: toStringNetwork_eq[OF wf] toStringNetwork_eq[OF wf'] ca_toString_def)
  have "?k \<noteq> ''invalid/0''"
  proof
    assume "?k = ''invalid/0''"
    then have "splitField (s @ CHR ''/'' # nat_to_string (d_bits nm)) CHR ''/'' = splitField ''invalid/0'' CHR ''/''"
      using str(2) by simp
    then show False using splitField_append[OF s(5)] s(4) by (simp add: splitField_def)
  qed
  then show ?thesis
    using print_parse[OF wf pb] wf' str s(2,3) \<open>set_port 0 (getMaskedNetwork ?m) = ?ca\<close>
    by (simp add: canon_def)
qed

definition known :: "netlib \<Rightarrow> NetmaskGroup \<Rightarrow> bool" where
  "known N g \<longleftrightarrow> nt_ok g \<and> (\<forall>nm v. stored g (nm, v) \<longrightarrow> v \<and> (\<exists>k. canon N k nm))"

lemma stored_at:
  assumes ok: "nt_ok g" and st: "stored g (nm, v)"
  shows "val_at (key_family (d_network nm)) (the (key_path nm)) (root g) = Some (nm, v)"
proof -
  obtain v4 p where at: "val_at v4 p (root g) = Some (nm, v)" using st by (auto simp: stored_def)
  then show ?thesis using nt_ok_at[OF ok at] by simp
qed

lemma known_stored_path:
  assumes kn: "known N g" and c: "canon N k nm"
    and at: "val_at (key_family (d_network nm)) p (root g) = Some (nm', v)" "key_path nm = Some p"
  shows "nm' = nm \<and> v"
proof -
  have st: "stored g (nm', v)" using at(1) by (auto simp: stored_def)
  then obtain k' where k': "canon N k' nm'" "v" using kn by (auto simp: known_def)
  have "key_path nm' = key_path nm" "key_family (d_network nm') = key_family (d_network nm)"
    using nt_ok_at[OF _ at(1)] kn at(2) by (auto simp: known_def)
  then show ?thesis using canon_path_unique[OF k'(1) c] k'(2) by simp
qed

lemma addMask_canon:
  assumes kn: "known N g" and c: "canon N k nm"
  obtains g' where "addMask_str N k True g = Ret g' ()" "known N g'"
    "\<And>nm' v. stored g' (nm', v) \<longleftrightarrow> nm' = nm \<and> v \<or> stored g (nm', v)"
proof -
  have wf: "nm_wf nm" and ok: "nt_ok g" using c kn by (simp_all add: canon_def known_def)
  obtain g' where g': "nt_insert nm (\<lambda>_. True) g = Ret g' ()" "nt_ok g'"
    "\<And>v4 p. val_at v4 p (root g') =
      (if v4 = key_family (d_network nm) \<and> key_path nm = Some p then Some (nm, True) else val_at v4 p (root g))"
    using nt_insert_spec[OF ok wf, of "\<lambda>_. True"] by metis
  note path = nm_wf_path[OF wf]
  have st: "stored g' (nm', v) \<longleftrightarrow> nm' = nm \<and> v \<or> stored g (nm', v)" for nm' v
  proof
    assume "stored g' (nm', v)"
    then show "nm' = nm \<and> v \<or> stored g (nm', v)" by (auto simp: stored_def g'(3) split: if_splits)
  next
    assume "nm' = nm \<and> v \<or> stored g (nm', v)"
    then show "stored g' (nm', v)"
    proof
      assume "nm' = nm \<and> v"
      then have "val_at (key_family (d_network nm)) (the (key_path nm)) (root g') = Some (nm', v)" using path by (simp add: g'(3))
      then show ?thesis by (auto simp: stored_def)
    next
      assume "stored g (nm', v)"
      then obtain v4 p where at: "val_at v4 p (root g) = Some (nm', v)" by (auto simp: stored_def)
      then have "val_at v4 p (root g') = Some (nm', v)"
        using known_stored_path[OF kn c, of p nm' v] by (auto simp: g'(3))
      then show ?thesis by (auto simp: stored_def)
    qed
  qed
  have "addMask_str N k True g = Ret g' ()"
    using c g'(1) canon_not_Nil[OF c] by (simp add: addMask_str_def canon_def addMask_def)
  moreover have "known N g'"
    unfolding known_def using g'(2) kn c by (auto simp: st known_def)
  ultimately show ?thesis using that st by blast
qed

lemma deleteMask_canon:
  assumes kn: "known N g" and c: "canon N k nm"
  obtains g' where "deleteMask_str N k g = Ret g' ()" "known N g'"
    "\<And>nm' v. stored g' (nm', v) \<longleftrightarrow> nm' \<noteq> nm \<and> stored g (nm', v)"
proof -
  have wf: "nm_wf nm" and ok: "nt_ok g" using c kn by (simp_all add: canon_def known_def)
  obtain g' where g': "nt_erase nm g = Ret g' ()" "nt_ok g'"
    "\<And>v4 p. val_at v4 p (root g') =
      (if v4 = key_family (d_network nm) \<and> key_path nm = Some p then None else val_at v4 p (root g))"
    using nt_erase_spec[OF ok wf] by metis
  have st: "stored g' (nm', v) \<longleftrightarrow> nm' \<noteq> nm \<and> stored g (nm', v)" for nm' v
  proof
    assume "stored g' (nm', v)"
    then obtain v4 p where at: "val_at v4 p (root g') = Some (nm', v)" by (auto simp: stored_def)
    then have "val_at v4 p (root g) = Some (nm', v)" by (auto simp: g'(3) split: if_splits)
    moreover have "nm' \<noteq> nm" using at nt_ok_at[OF g'(2) at] by (auto simp: g'(3))
    ultimately show "nm' \<noteq> nm \<and> stored g (nm', v)" by (auto simp: stored_def)
  next
    assume a: "nm' \<noteq> nm \<and> stored g (nm', v)"
    then obtain v4 p where at: "val_at v4 p (root g) = Some (nm', v)" by (auto simp: stored_def)
    moreover have "\<not> (v4 = key_family (d_network nm) \<and> key_path nm = Some p)"
      using known_stored_path[OF kn c, of p nm' v] a at by blast
    ultimately have "val_at v4 p (root g') = Some (nm', v)" unfolding g'(3) by simp
    then show "stored g' (nm', v)" by (auto simp: stored_def)
  qed
  have "deleteMask_str N k g = Ret g' ()"
    using c g'(1) canon_not_Nil[OF c] by (simp add: deleteMask_str_def canon_def deleteMask_def)
  moreover have "known N g'"
    unfolding known_def using g'(2) kn by (auto simp: st known_def)
  ultimately show ?thesis using that st by blast
qed

text \<open>
  The invariant: keys are unique in every table, and the netmask group stores exactly the netmasks of
  the keys of the address table.
\<close>

definition bw_ok :: "netlib \<Rightarrow> BlackWhiteListDB \<Rightarrow> bool" where
  "bw_ok N db \<longleftrightarrow>
     (\<forall>ty. bl_ok (get_list ty db)) \<and> known N (iplist_netmask db)
     \<and> (\<forall>e \<in> set (ip_list db). \<exists>nm. canon N (ble_key e) nm)
     \<and> (\<forall>nm. stored (iplist_netmask db) (nm, True) \<longleftrightarrow> (\<exists>e \<in> set (ip_list db). canon N (ble_key e) nm))"

lemma bw_okD:
  assumes "bw_ok N db"
  shows "bl_ok (get_list ty db)" "known N (iplist_netmask db)" "e \<in> set (ip_list db) \<Longrightarrow> \<exists>nm. canon N (ble_key e) nm"
    "stored (iplist_netmask db) (nm, True) \<longleftrightarrow> (\<exists>e \<in> set (ip_list db). canon N (ble_key e) nm)"
  using assms unfolding bw_ok_def by blast+

text \<open>What the effects of a call leave alone.\<close>

definition tables :: "BlackWhiteListDB \<Rightarrow> (BLWLType \<Rightarrow> blackwhitelist_t) \<times> NetmaskGroup \<times> BLWLDBType \<times> bool" where
  "tables db = (\<lambda>ty. get_list ty db, iplist_netmask db, db_type db, persist db)"

lemma tables_simps:
  assumes "tables db' = tables db"
  shows "get_list ty db' = get_list ty db" "ip_list db' = ip_list db" "iplist_netmask db' = iplist_netmask db"
proof -
  have *: "(\<lambda>ty. get_list ty db') = (\<lambda>ty. get_list ty db)" and g: "iplist_netmask db' = iplist_netmask db"
    using assms by (simp_all add: tables_def)
  show "get_list ty db' = get_list ty db" using fun_cong[OF *, of ty] .
  show "ip_list db' = ip_list db" using fun_cong[OF *, of IP_BLWL] by simp
  show "iplist_netmask db' = iplist_netmask db" by (rule g)
qed

lemma get_list_cong [simp]:
  "get_list ty (db\<lparr>trace := x\<rparr>) = get_list ty db" "get_list ty (db\<lparr>redis_context := c\<rparr>) = get_list ty db"
  "get_list ty (db\<lparr>iplist_netmask := g\<rparr>) = get_list ty db"
  by (cases ty; simp)+

lemma tables_emit [simp]: "tables (emit x db) = tables db"
  by (simp add: tables_def emit_def)

lemma tables_ctx [simp]: "tables (db\<lparr>redis_context := c\<rparr>) = tables db"
  by (simp add: tables_def)

lemma checkSetupContext_tables:
  "final_state (checkSetupContext R db) = Some db' \<Longrightarrow> tables db' = tables db"
  by (auto simp: checkSetupContext_def set_options_def redis_auth_def Let_def split: if_splits option.splits)

lemma obind_tables:
  assumes "\<And>x. final_state m = Some x \<Longrightarrow> tables x = T"
    and "\<And>s v x. tables s = T \<Longrightarrow> final_state (f s v) = Some x \<Longrightarrow> tables x = T"
    and "final_state (obind m f) = Some db'"
  shows "tables db' = T"
  using assms by (cases m) auto

lemma persist_tables:
  "final_state (addPersistEntry R now key secs ty reason db) = Some db' \<Longrightarrow> tables db' = tables db"
  "final_state (deletePersistEntry R key ty db) = Some db' \<Longrightarrow> tables db' = tables db"
  unfolding addPersistEntry_def deletePersistEntry_def
  by (erule obind_tables[rotated 2]; auto simp: redis_command_def checkSetupContext_tables split: if_splits)+

lemma replicate_bl_tables [simp]: "tables (replicate_bl op ty key secs reason db) = tables db"
  by (simp add: replicate_bl_def Let_def)

lemma after_add_tables:
  assumes "final_state (after_add R t key secs ty reason repl db) = Some db'"
  shows "tables db' = tables db"
proof -
  let ?db = "addEntryLog ty key secs reason db"
  have t: "tables ?db = tables db" by (simp add: addEntryLog_def)
  have "tables x = tables db"
    if "final_state (obind (addPersistEntry R t key secs ty reason ?db) (\<lambda>db2 _. Ret db2 ())) = Some x" for x
    using that persist_tables(1) t by (intro obind_tables[OF _ _ that]) auto
  then show ?thesis
    using assms t unfolding after_add_def Let_def
    by (elim obind_tables[rotated 2]) (auto split: if_splits)
qed

lemma after_delete_tables:
  assumes "final_state (after_delete R key ty repl db) = Some db'"
  shows "tables db' = tables db"
proof -
  let ?db = "deleteEntryLog ty key db"
  have t: "tables ?db = tables db" by (simp add: deleteEntryLog_def)
  have "tables x = tables db"
    if "final_state (obind (deletePersistEntry R key ty ?db) (\<lambda>db2 _. Ret db2 ())) = Some x" for x
    using that persist_tables(2) t by (intro obind_tables[OF _ _ that]) auto
  then show ?thesis
    using assms t unfolding after_delete_def Let_def
    by (elim obind_tables[rotated 2]) (auto split: if_splits)
qed

lemma after_add_returns: "\<not> persist db \<Longrightarrow> \<exists>db'. after_add R t key secs ty reason repl db = Ret db' ()"
  by (simp add: after_add_def Let_def addEntryLog_def emit_def)

lemma after_delete_returns: "\<not> persist db \<Longrightarrow> \<exists>db'. after_delete R key ty repl db = Ret db' ()"
  by (simp add: after_delete_def Let_def deleteEntryLog_def emit_def)

lemma get_upd_list:
  "get_list ty' (upd_list ty f db) = (if ty' = ty \<and> ty \<noteq> NONE_BLWL then f (get_list ty db) else get_list ty' db)"
  by (cases ty; cases ty') simp_all

lemma upd_list_other [simp]:
  "iplist_netmask (upd_list ty f db) = iplist_netmask db" "db_type (upd_list ty f db) = db_type db"
  "persist (upd_list ty f db) = persist db" "trace (upd_list ty f db) = trace db"
  by (cases ty; simp)+

lemma tables_eq_iff:
  "tables db' = tables db \<longleftrightarrow> (\<forall>ty. get_list ty db' = get_list ty db) \<and> iplist_netmask db' = iplist_netmask db
     \<and> db_type db' = db_type db \<and> persist db' = persist db"
  by (auto simp: tables_def fun_eq_iff)

lemma hook_tables [simp]:
  "tables (hook_add key secs ty reason db) = tables db" "tables (hook_delete key ty db) = tables db"
  "tables (hook_expire key ty db) = tables db" "tables (expireEntryLog ty key db) = tables db"
  "tables (addEntryLog ty key secs reason db) = tables db"
  by (simp_all add: hook_add_def hook_delete_def hook_expire_def expireEntryLog_def addEntryLog_def)

text \<open>The state a call leaves, whether it returned or threw, given what the netmask group did.\<close>

lemma add_tables:
  assumes fin: "final_state (addEntryInternal R N ts key secs ty reason repl db) = Some db'" and ty: "ty \<noteq> NONE_BLWL"
  obtains g where
    "tables db' = tables ((upd_list ty (add_entry (fst ts) key secs reason) db)\<lparr>iplist_netmask := g\<rparr>)"
    "if ty = IP_BLWL then final_state (addMask_str N key True (iplist_netmask db)) = Some g else g = iplist_netmask db"
proof -
  let ?db1 = "upd_list ty (add_entry (fst ts) key secs reason) db"
  show ?thesis
  proof (cases "ty = IP_BLWL")
    case False
    have same: "?db1\<lparr>iplist_netmask := iplist_netmask db\<rparr> = ?db1" by (cases ty) simp_all
    have "tables db' = tables ?db1"
      using fin ty False unfolding addEntryInternal_def Let_def
      by (cases ty) (auto elim!: obind_tables[rotated 2] simp: after_add_tables split: if_splits)
    then show ?thesis using that[of "iplist_netmask db"] False same by simp
  next
    case True
    obtain g where g: "final_state (addMask_str N key True (iplist_netmask db)) = Some g"
      using fin True by (cases "addMask_str N key True (iplist_netmask db)")
        (auto simp: addEntryInternal_def on_netmask_def)
    have "final_state (on_netmask (addMask_str N key True) ?db1) = Some (?db1\<lparr>iplist_netmask := g\<rparr>)"
      using g by (simp add: on_netmask_def)
    then have "tables db' = tables (?db1\<lparr>iplist_netmask := g\<rparr>)"
      using fin True unfolding addEntryInternal_def Let_def
      by (auto elim!: obind_tables[rotated 2] simp: after_add_tables split: if_splits)
    then show ?thesis using that[of g] True g by simp
  qed
qed

lemma delete_tables:
  assumes fin: "final_state (deleteEntryInternal R N key ty repl db) = Some db'" and ty: "ty \<noteq> NONE_BLWL"
  obtains g where
    "tables db' = tables ((upd_list ty (bl_erase key) db)\<lparr>iplist_netmask := g\<rparr>)"
    "if ty = IP_BLWL then final_state (deleteMask_str N key (iplist_netmask db)) = Some g else g = iplist_netmask db"
proof -
  have eq: "(\<lambda>l. fst (delete_entry key l)) = bl_erase key" by (simp add: fun_eq_iff delete_entry_erase)
  let ?db1 = "upd_list ty (bl_erase key) db"
  show ?thesis
  proof (cases "ty = IP_BLWL")
    case False
    have same: "?db1\<lparr>iplist_netmask := iplist_netmask db\<rparr> = ?db1" by (cases ty) simp_all
    have "tables db' = tables ?db1"
      using fin ty False unfolding deleteEntryInternal_def Let_def eq
      by (cases ty) (auto elim!: obind_tables[rotated 2] simp: after_delete_tables split: if_splits)
    then show ?thesis using that[of "iplist_netmask db"] False same by simp
  next
    case True
    obtain g where g: "final_state (deleteMask_str N key (iplist_netmask db)) = Some g"
      using fin True by (cases "deleteMask_str N key (iplist_netmask db)")
        (auto simp: deleteEntryInternal_def on_netmask_def)
    have "final_state (on_netmask (deleteMask_str N key) ?db1) = Some (?db1\<lparr>iplist_netmask := g\<rparr>)"
      using g by (simp add: on_netmask_def)
    then have "tables db' = tables (?db1\<lparr>iplist_netmask := g\<rparr>)"
      using fin True unfolding deleteEntryInternal_def Let_def eq
      by (auto elim!: obind_tables[rotated 2] simp: after_delete_tables split: if_splits)
    then show ?thesis using that[of g] True g by simp
  qed
qed

lemma bw_ok_tables: "bw_ok N db \<Longrightarrow> tables db' = tables db \<Longrightarrow> bw_ok N db'"
  using tables_simps[of db' db] by (simp add: bw_ok_def)

lemma set_bl_put: "e \<in> set (bl_put k re l) \<longleftrightarrow>
    e = \<lparr>ble_key = k, ble_reason = fst re, ble_expiration = snd re\<rparr> \<or> e \<in> set l \<and> ble_key e \<noteq> k"
  by (auto simp: bl_put_def bl_erase_def)

text \<open>An update of one table keeps the invariant, provided the netmask group is updated with the address table.\<close>

lemma bw_ok_upd:
  assumes ok: "bw_ok N db" and f: "\<And>l. bl_ok l \<Longrightarrow> bl_ok (f l)" and kn: "known N g"
    and other: "ty \<noteq> IP_BLWL \<Longrightarrow> g = iplist_netmask db"
    and ip: "ty = IP_BLWL \<Longrightarrow> (\<forall>e \<in> set (f (ip_list db)). \<exists>nm. canon N (ble_key e) nm)
      \<and> (\<forall>nm. stored g (nm, True) \<longleftrightarrow> (\<exists>e \<in> set (f (ip_list db)). canon N (ble_key e) nm))"
  shows "bw_ok N ((upd_list ty f db)\<lparr>iplist_netmask := g\<rparr>)"
proof -
  have l: "bl_ok (get_list ty' (upd_list ty f db))" for ty'
    using bw_okD(1)[OF ok] f by (simp add: get_upd_list)
  have "ip_list (upd_list ty f db) = (if ty = IP_BLWL then f (ip_list db) else ip_list db)" by (cases ty) simp_all
  then show ?thesis
    using l kn other ip bw_okD(3,4)[OF ok] unfolding bw_ok_def by simp
qed

lemma bw_ok_add:
  assumes ok: "bw_ok N db" and c: "ty = IP_BLWL \<Longrightarrow> canon N key nm"
    and g: "if ty = IP_BLWL then final_state (addMask_str N key True (iplist_netmask db)) = Some g else g = iplist_netmask db"
  shows "bw_ok N ((upd_list ty (bl_put key re) db)\<lparr>iplist_netmask := g\<rparr>)"
proof (cases "ty = IP_BLWL")
  case True
  note c = c[OF True]
  obtain g' where "addMask_str N key True (iplist_netmask db) = Ret g' ()" and kn: "known N g'"
    and st: "\<And>nm' v. stored g' (nm', v) \<longleftrightarrow> nm' = nm \<and> v \<or> stored (iplist_netmask db) (nm', v)"
    using addMask_canon[OF bw_okD(2)[OF ok] c] by metis
  then have gg: "g = g'" using g True by simp
  have "(\<exists>e \<in> set (bl_put key re (ip_list db)). canon N (ble_key e) nm') \<longleftrightarrow>
      nm' = nm \<or> (\<exists>e \<in> set (ip_list db). canon N (ble_key e) nm')" for nm'
    unfolding set_bl_put Bex_def using c canon_fun[OF c] by (metis BlackWhiteListEntry.select_convs(1))
  moreover have "\<forall>e \<in> set (bl_put key re (ip_list db)). \<exists>nm. canon N (ble_key e) nm"
    unfolding Ball_def set_bl_put using bw_okD(3)[OF ok] c by (metis BlackWhiteListEntry.select_convs(1))
  ultimately show ?thesis
    using kn st bw_okD(4)[OF ok] gg True by (intro bw_ok_upd[OF ok bl_ok_put]) auto
qed (use bw_ok_upd[where f = "bl_put key re" and ty = ty, OF ok bl_ok_put bw_okD(2)[OF ok]] g in simp)

lemma bw_ok_del:
  assumes ok: "bw_ok N db" and c: "ty = IP_BLWL \<Longrightarrow> canon N key nm"
    and g: "if ty = IP_BLWL then final_state (deleteMask_str N key (iplist_netmask db)) = Some g else g = iplist_netmask db"
  shows "bw_ok N ((upd_list ty (bl_erase key) db)\<lparr>iplist_netmask := g\<rparr>)"
proof (cases "ty = IP_BLWL")
  case True
  note c = c[OF True]
  obtain g' where "deleteMask_str N key (iplist_netmask db) = Ret g' ()" and kn: "known N g'"
    and st: "\<And>nm' v. stored g' (nm', v) \<longleftrightarrow> nm' \<noteq> nm \<and> stored (iplist_netmask db) (nm', v)"
    using deleteMask_canon[OF bw_okD(2)[OF ok] c] by metis
  then have gg: "g = g'" using g True by simp
  have "(\<exists>e \<in> set (bl_erase key (ip_list db)). canon N (ble_key e) nm') \<longleftrightarrow>
      nm' \<noteq> nm \<and> (\<exists>e \<in> set (ip_list db). canon N (ble_key e) nm')" for nm'
    unfolding bl_erase_def Bex_def set_filter mem_Collect_eq using c canon_fun[OF c] canon_inj[OF c] by metis
  moreover have "\<forall>e \<in> set (bl_erase key (ip_list db)). \<exists>nm. canon N (ble_key e) nm"
    using bw_okD(3)[OF ok] by (auto simp: bl_erase_def)
  ultimately show ?thesis
    using kn st bw_okD(4)[OF ok] gg True by (intro bw_ok_upd[OF ok bl_ok_erase]) auto
qed (use bw_ok_upd[where f = "bl_erase key" and ty = ty, OF ok bl_ok_erase bw_okD(2)[OF ok]] g in simp)

section \<open>Expiry removes what has expired\<close>

lemma tables_upd_list: "tables a = tables b \<Longrightarrow> tables (upd_list ty f a) = tables (upd_list ty f b)"
  by (simp add: tables_eq_iff get_upd_list)

lemma purge_step:
  assumes ok: "bw_ok N db" and e: "e \<in> set (get_list ty db)" and db1: "tables db1 = tables db"
  obtains db2 where
    "(if ty = IP_BLWL then on_netmask (deleteMask_str N (ble_key e)) db1 else Ret db1 ()) = Ret db2 ()"
    "bw_ok N (upd_list ty (bl_erase (ble_key e)) db2)" "\<And>ty'. get_list ty' db2 = get_list ty' db"
proof (cases "ty = IP_BLWL")
  case True
  then obtain nm where c: "canon N (ble_key e) nm" using bw_okD(3)[OF ok, of e] e by auto
  obtain g where g: "deleteMask_str N (ble_key e) (iplist_netmask db) = Ret g ()"
    using deleteMask_canon[OF bw_okD(2)[OF ok] c] by metis
  let ?db2 = "db1\<lparr>iplist_netmask := g\<rparr>"
  have "bw_ok N ((upd_list ty (bl_erase (ble_key e)) db)\<lparr>iplist_netmask := g\<rparr>)"
    using bw_ok_del[OF ok, of ty "ble_key e" nm g] c g True by simp
  moreover have "tables (upd_list ty (bl_erase (ble_key e)) ?db2) = tables ((upd_list ty (bl_erase (ble_key e)) db)\<lparr>iplist_netmask := g\<rparr>)"
    using db1 by (simp add: tables_eq_iff get_upd_list)
  ultimately have "bw_ok N (upd_list ty (bl_erase (ble_key e)) ?db2)" by (rule bw_ok_tables)
  then show ?thesis
    using that[of ?db2] True g tables_simps[OF db1] by (simp add: on_netmask_def)
next
  case False
  have "bw_ok N ((upd_list ty (bl_erase (ble_key e)) db)\<lparr>iplist_netmask := iplist_netmask db\<rparr>)"
    using bw_ok_del[OF ok, of ty "ble_key e" _ "iplist_netmask db"] False by simp
  moreover have "tables (upd_list ty (bl_erase (ble_key e)) db1) = tables ((upd_list ty (bl_erase (ble_key e)) db)\<lparr>iplist_netmask := iplist_netmask db\<rparr>)"
    using db1 by (simp add: tables_eq_iff get_upd_list)
  ultimately have "bw_ok N (upd_list ty (bl_erase (ble_key e)) db1)" by (rule bw_ok_tables)
  then show ?thesis using that[of db1] False tables_simps(1)[OF db1] by simp
qed

definition expired :: "int \<Rightarrow> BlackWhiteListEntry \<Rightarrow> bool" where
  "expired now e \<longleftrightarrow> ble_expiration e \<le> now"

lemma purge_loop_spec:
  assumes "bw_ok N db" "set es \<subseteq> set (get_list ty db)" "distinct (map ble_key es)" "ty \<noteq> NONE_BLWL"
  shows "\<exists>db'. purge_loop N now ty es db = Ret db' () \<and> bw_ok N db'
    \<and> get_list ty db' = filter (\<lambda>e. ble_key e \<notin> ble_key ` set (takeWhile (expired now) es)) (get_list ty db)
    \<and> (\<forall>ty'. ty' \<noteq> ty \<longrightarrow> get_list ty' db' = get_list ty' db)"
  using assms
proof (induction es arbitrary: db)
  case (Cons e es)
  show ?case
  proof (cases "ble_expiration e \<le> now")
    case True
    let ?db1 = "expireEntryLog ty (ble_key e) (hook_expire (ble_key e) ty db)"
    have e: "e \<in> set (get_list ty db)" using Cons.prems(2) by simp
    obtain db2 where db2: "(if ty = IP_BLWL then on_netmask (deleteMask_str N (ble_key e)) ?db1 else Ret ?db1 ()) = Ret db2 ()"
      "bw_ok N (upd_list ty (bl_erase (ble_key e)) db2)" "\<And>ty'. get_list ty' db2 = get_list ty' db"
      using purge_step[OF Cons.prems(1) e, of ?db1] by auto
    let ?db3 = "upd_list ty (bl_erase (ble_key e)) db2"
    have l3: "get_list ty' ?db3 = (if ty' = ty then bl_erase (ble_key e) (get_list ty db) else get_list ty' db)" for ty'
      using Cons.prems(4) by (simp add: get_upd_list db2(3))
    have "ble_key x \<noteq> ble_key e" if "x \<in> set es" for x
      using Cons.prems(3) imageI[OF that, of ble_key] by auto
    then have "set es \<subseteq> set (get_list ty ?db3)"
      using Cons.prems(2) by (auto simp: l3 bl_erase_def)
    then obtain db' where "purge_loop N now ty es ?db3 = Ret db' ()" "bw_ok N db'"
      "get_list ty db' = filter (\<lambda>e. ble_key e \<notin> ble_key ` set (takeWhile (expired now) es)) (get_list ty ?db3)"
      "\<forall>ty'. ty' \<noteq> ty \<longrightarrow> get_list ty' db' = get_list ty' ?db3"
      using Cons.IH[OF db2(2)] Cons.prems(3,4) by auto
    moreover have "expired now e" using True by (simp add: expired_def)
    ultimately show ?thesis
      using True db2(1) by (auto simp: l3 bl_erase_def Let_def intro!: filter_cong)
  qed (use Cons.prems(1) in \<open>simp add: expired_def\<close>)
qed simp

lemma sorted_takeWhile_filter:
  "sorted (map f xs) \<Longrightarrow> takeWhile (\<lambda>x. f x \<le> (n :: int)) xs = filter (\<lambda>x. f x \<le> n) xs"
proof (induction xs)
  case (Cons x xs)
  have "filter (\<lambda>y. f y \<le> n) xs = []" if "\<not> f x \<le> n"
    using Cons.prems that by (intro filter_False) force
  then show ?case using Cons by (cases "f x \<le> n") simp_all
qed simp

lemma purge_list_spec:
  assumes ok: "bw_ok N db" and ty: "ty \<noteq> NONE_BLWL"
  shows "\<exists>db'. purge_list N now ty db = Ret db' () \<and> bw_ok N db'
    \<and> get_list ty db' = filter (\<lambda>e. \<not> expired now e) (get_list ty db)
    \<and> (\<forall>ty'. ty' \<noteq> ty \<longrightarrow> get_list ty' db' = get_list ty' db)"
proof -
  let ?l = "get_list ty db"
  let ?t = "time_index ?l"
  have d: "distinct (map ble_key ?l)" using bw_okD(1)[OF ok, of ty] by (simp add: bl_ok_def)
  have inj: "inj_on ble_key (set ?l)" using d by (simp add: distinct_map)
  have "mset (map ble_key ?t) = mset (map ble_key ?l)" by (simp add: time_index_def)
  then have dt: "distinct (map ble_key ?t)" using d by (metis mset_eq_imp_distinct_iff)
  have sub: "set ?t \<subseteq> set ?l" by (simp add: time_index_def)
  have "takeWhile (expired now) ?t = filter (expired now) ?t"
    using sorted_takeWhile_filter[of ble_expiration ?t now] by (simp add: time_index_def expired_def[abs_def])
  then have "filter (\<lambda>e. ble_key e \<notin> ble_key ` set (takeWhile (expired now) ?t)) ?l = filter (\<lambda>e. \<not> expired now e) ?l"
    using inj by (auto simp: time_index_def inj_on_def intro!: filter_cong)
  then show ?thesis
    using purge_loop_spec[OF ok sub dt ty, of now] by (simp add: purge_list_def)
qed

lemma purgeEntries_spec:
  assumes ok: "bw_ok N db"
  shows "\<exists>db'. purgeEntries N now db = Ret db' () \<and> bw_ok N db'
    \<and> (\<forall>ty. get_list ty db' = filter (\<lambda>e. \<not> expired (now (type_num ty)) e) (get_list ty db))"
proof -
  obtain db1 where 1: "purge_list N (now 0) IP_BLWL db = Ret db1 ()" "bw_ok N db1"
    "get_list IP_BLWL db1 = filter (\<lambda>e. \<not> expired (now 0) e) (get_list IP_BLWL db)"
    "\<forall>ty'. ty' \<noteq> IP_BLWL \<longrightarrow> get_list ty' db1 = get_list ty' db"
    using purge_list_spec[OF ok, of IP_BLWL "now 0"] by auto
  obtain db2 where 2: "purge_list N (now 1) LOGIN_BLWL db1 = Ret db2 ()" "bw_ok N db2"
    "get_list LOGIN_BLWL db2 = filter (\<lambda>e. \<not> expired (now 1) e) (get_list LOGIN_BLWL db1)"
    "\<forall>ty'. ty' \<noteq> LOGIN_BLWL \<longrightarrow> get_list ty' db2 = get_list ty' db1"
    using purge_list_spec[OF 1(2), of LOGIN_BLWL "now 1"] by auto
  obtain db3 where 3: "purge_list N (now 2) IP_LOGIN_BLWL db2 = Ret db3 ()" "bw_ok N db3"
    "get_list IP_LOGIN_BLWL db3 = filter (\<lambda>e. \<not> expired (now 2) e) (get_list IP_LOGIN_BLWL db2)"
    "\<forall>ty'. ty' \<noteq> IP_LOGIN_BLWL \<longrightarrow> get_list ty' db3 = get_list ty' db2"
    using purge_list_spec[OF 2(2), of IP_LOGIN_BLWL "now 2"] by auto
  obtain db4 where 4: "purge_list N (now 3) JA3_BLWL db3 = Ret db4 ()" "bw_ok N db4"
    "get_list JA3_BLWL db4 = filter (\<lambda>e. \<not> expired (now 3) e) (get_list JA3_BLWL db3)"
    "\<forall>ty'. ty' \<noteq> JA3_BLWL \<longrightarrow> get_list ty' db4 = get_list ty' db3"
    using purge_list_spec[OF 3(2), of JA3_BLWL "now 3"] by auto
  obtain db5 where 5: "purge_list N (now 4) IP_JA3_BLWL db4 = Ret db5 ()" "bw_ok N db5"
    "get_list IP_JA3_BLWL db5 = filter (\<lambda>e. \<not> expired (now 4) e) (get_list IP_JA3_BLWL db4)"
    "\<forall>ty'. ty' \<noteq> IP_JA3_BLWL \<longrightarrow> get_list ty' db5 = get_list ty' db4"
    using purge_list_spec[OF 4(2), of IP_JA3_BLWL "now 4"] by auto
  have "get_list ty db5 = filter (\<lambda>e. \<not> expired (now (type_num ty)) e) (get_list ty db)" for ty
  proof (cases ty)
    case IP_BLWL then show ?thesis
      using 1(3) 2(4)[rule_format, of IP_BLWL] 3(4)[rule_format, of IP_BLWL] 4(4)[rule_format, of IP_BLWL] 5(4)[rule_format, of IP_BLWL] by simp
  next
    case LOGIN_BLWL then show ?thesis
      using 1(4)[rule_format, of LOGIN_BLWL] 2(3) 3(4)[rule_format, of LOGIN_BLWL] 4(4)[rule_format, of LOGIN_BLWL] 5(4)[rule_format, of LOGIN_BLWL] by simp
  next
    case IP_LOGIN_BLWL then show ?thesis
      using 1(4)[rule_format, of IP_LOGIN_BLWL] 2(4)[rule_format, of IP_LOGIN_BLWL] 3(3) 4(4)[rule_format, of IP_LOGIN_BLWL] 5(4)[rule_format, of IP_LOGIN_BLWL] by simp
  next
    case JA3_BLWL then show ?thesis
      using 1(4)[rule_format, of JA3_BLWL] 2(4)[rule_format, of JA3_BLWL] 3(4)[rule_format, of JA3_BLWL] 4(3) 5(4)[rule_format, of JA3_BLWL] by simp
  next
    case IP_JA3_BLWL then show ?thesis
      using 1(4)[rule_format, of IP_JA3_BLWL] 2(4)[rule_format, of IP_JA3_BLWL] 3(4)[rule_format, of IP_JA3_BLWL] 4(4)[rule_format, of IP_JA3_BLWL] 5(3) by simp
  qed simp
  then show ?thesis using 1(1) 2(1) 3(1) 4(1) 5(1,2) by (simp add: purgeEntries_def)
qed

section \<open>The address table decides\<close>

lemma ng_match_stored:
  assumes kn: "known N g" and ip: "ca_wf ip" "ip \<noteq> CA_None"
  shows "ng_match ip g \<longleftrightarrow> (\<exists>nm. stored g (nm, True) \<and> nm_match nm ip = Some True)"
proof -
  have ok: "nt_ok g" using kn by (simp add: known_def)
  show ?thesis
  proof (cases "nt_lookup ip 128 g")
    case None
    then show ?thesis using nt_lookup_None[OF ok ip] by (auto simp: ng_match_def)
  next
    case (Some kv)
    obtain k v where kv: "kv = (k, v)" by (cases kv)
    have "stored g (k, v) \<and> nm_match k ip = Some True" using nt_lookup_Some[OF ok ip, of k v] Some kv by simp
    moreover from this have v using kn unfolding known_def by blast
    ultimately show ?thesis using Some kv by (auto simp: ng_match_def)
  qed
qed

lemma check_ip_spec:
  assumes ok: "bw_ok N db" and ip: "ca_wf ip" "ip \<noteq> CA_None"
  shows "checkEntry_ip ip db \<longleftrightarrow> (\<exists>e \<in> set (ip_list db). \<exists>nm. canon N (ble_key e) nm \<and> nm_match nm ip = Some True)"
  using ng_match_stored[OF bw_okD(2)[OF ok] ip] bw_okD(4)[OF ok] unfolding checkEntry_ip_def by blast

text \<open>The entry whose netmask matches the address with the longest prefix.\<close>

definition best_match :: "netlib \<Rightarrow> ComboAddress \<Rightarrow> BlackWhiteListDB \<Rightarrow> BlackWhiteListEntry \<Rightarrow> bool" where
  "best_match N ip db e \<longleftrightarrow>
     e \<in> set (ip_list db) \<and> (\<exists>nm. canon N (ble_key e) nm \<and> nm_match nm ip = Some True
       \<and> (\<forall>e' \<in> set (ip_list db). \<forall>nm'. canon N (ble_key e') nm' \<and> nm_match nm' ip = Some True \<longrightarrow> d_bits nm' \<le> d_bits nm))"

lemma get_ip_spec:
  assumes ok: "bw_ok N db" and ip: "ca_wf ip" "ip \<noteq> CA_None"
  shows "getEntry_ip N ip db = Some e \<longleftrightarrow> best_match N ip db e"
proof -
  let ?g = "iplist_netmask db"
  have nt: "nt_ok ?g" using bw_okD(2)[OF ok] by (simp add: known_def)
  have ipl: "bl_ok (ip_list db)" using bw_okD(1)[OF ok, of IP_BLWL] by simp
  show ?thesis
  proof (cases "nt_lookup ip 128 ?g")
    case None
    have "nm_toString N empty_Netmask = ''invalid/0''"
      by (simp add: nm_toString_def empty_Netmask_def ca_toString_def nat_to_string.simps digit_char_def char_of_def bit_iff_odd)
    moreover have "bl_find ''invalid/0'' (ip_list db) = None"
      unfolding bl_find_None_iff
    proof
      assume "''invalid/0'' \<in> ble_key ` set (ip_list db)"
      then obtain x where x: "x \<in> set (ip_list db)" "ble_key x = ''invalid/0''" by (rule imageE) simp
      then show False using bw_okD(3)[OF ok x(1)] by (simp add: canon_def)
    qed
    ultimately have "getEntry_ip N ip db = None"
      using None by (simp add: getEntry_ip_def looked_up_def ng_lookup_def get_entry_def)
    moreover have "nm_match nm ip \<noteq> Some True" if "e \<in> set (ip_list db)" "canon N (ble_key e) nm" for e nm
      using None nt_lookup_None[OF nt ip] bw_okD(4)[OF ok, of nm] that by blast
    ultimately show ?thesis unfolding best_match_def by (metis option.distinct(1))
  next
    case (Some kv)
    obtain nm v where kv: "kv = (nm, v)" by (cases kv)
    then have nm: "stored ?g (nm, v)" "nm_match nm ip = Some True"
      "\<And>k' v'. stored ?g (k', v') \<Longrightarrow> nm_match k' ip = Some True \<Longrightarrow> d_bits k' \<le> d_bits nm"
      using Some nt_lookup_Some[OF nt ip, of nm v] by auto
    have v: v using nm(1) bw_okD(2)[OF ok] unfolding known_def by blast
    obtain e0 where e0: "e0 \<in> set (ip_list db)" "canon N (ble_key e0) nm"
      using nm(1) v bw_okD(4)[OF ok] by auto
    have get: "getEntry_ip N ip db = Some e0"
      using Some kv canon_toString[OF e0(2)] e0(1) bl_find_Some_iff[OF ipl]
      by (simp add: getEntry_ip_def looked_up_def ng_lookup_def get_entry_def)
    have only: "nm' = nm" if "e' \<in> set (ip_list db)" "canon N (ble_key e') nm'" "nm_match nm' ip = Some True" "d_bits nm \<le> d_bits nm'" for e' nm'
    proof -
      have st: "stored ?g (nm', True)" using that bw_okD(4)[OF ok] by blast
      have "nt_lookup ip 128 ?g = Some (nm', True)"
        using nt_lookup_Some[OF nt ip, of nm' True] st that(3,4) nm(3) by (meson order_trans)
      then show ?thesis using Some kv by simp
    qed
    have max: "d_bits nm' \<le> d_bits nm" if "e' \<in> set (ip_list db)" "canon N (ble_key e') nm'" "nm_match nm' ip = Some True" for e' nm'
      using nm(3)[of nm' True] bw_okD(4)[OF ok, of nm'] that by blast
    show ?thesis
    proof
      assume "getEntry_ip N ip db = Some e"
      then have "e = e0" using get by simp
      then show "best_match N ip db e" unfolding best_match_def using e0 nm(2) max by blast
    next
      assume "best_match N ip db e"
      then obtain m where m: "e \<in> set (ip_list db)" "canon N (ble_key e) m" "nm_match m ip = Some True" "d_bits nm \<le> d_bits m"
        using e0 nm(2) unfolding best_match_def by blast
      then have "m = nm" using only by blast
      then have "ble_key e = ble_key e0" using m(2) e0(2) canon_inj by blast
      then show "getEntry_ip N ip db = Some e"
        using get m(1) e0(1) bl_find_Some_iff[OF ipl, of "ble_key e"] by (metis option.inject)
    qed
  qed
qed

section \<open>Calls\<close>

datatype bw_call =
    BwAdd string int BLWLType string bool | BwDelete string BLWLType bool | BwPurge int

fun bw_outcome :: "redis_env \<Rightarrow> netlib \<Rightarrow> int \<times> int \<Rightarrow> bw_call \<Rightarrow> BlackWhiteListDB \<Rightarrow> (BlackWhiteListDB, unit) outcome" where
  "bw_outcome R N ts (BwAdd key secs ty reason repl) db = addEntryInternal R N ts key secs ty reason repl db"
| "bw_outcome R N ts (BwDelete key ty repl) db = deleteEntryInternal R N key ty repl db"
| "bw_outcome R N ts (BwPurge now) db = purgeEntries N (\<lambda>_. now) db"

fun call_canon :: "netlib \<Rightarrow> bw_call \<Rightarrow> bool" where
  "call_canon N (BwAdd key secs IP_BLWL reason repl) \<longleftrightarrow> (\<exists>nm. canon N key nm)"
| "call_canon N (BwDelete key IP_BLWL repl) \<longleftrightarrow> (\<exists>nm. canon N key nm)"
| "call_canon N _ \<longleftrightarrow> True"

lemma add_entry_bl_put: "add_entry now key secs reason = bl_put key (reason, now + secs)"
  by (simp add: fun_eq_iff add_entry_put)

lemma add_none: "final_state (addEntryInternal R N ts key secs NONE_BLWL reason repl db) = Some db' \<Longrightarrow> tables db' = tables db"
  by (auto simp: addEntryInternal_def)

lemma delete_none: "final_state (deleteEntryInternal R N key NONE_BLWL repl db) = Some db' \<Longrightarrow> tables db' = tables db"
  by (auto simp: deleteEntryInternal_def)

lemma add_keeps:
  assumes ok: "bw_ok N db" and c: "ty = IP_BLWL \<Longrightarrow> \<exists>nm. canon N key nm"
    and fin: "final_state (addEntryInternal R N ts key secs ty reason repl db) = Some db'"
  shows "bw_ok N db'"
proof (cases "ty = NONE_BLWL")
  case False
  obtain nm where nm: "ty = IP_BLWL \<Longrightarrow> canon N key nm" using c by blast
  obtain g where g: "tables db' = tables ((upd_list ty (bl_put key (reason, fst ts + secs)) db)\<lparr>iplist_netmask := g\<rparr>)"
    "if ty = IP_BLWL then final_state (addMask_str N key True (iplist_netmask db)) = Some g else g = iplist_netmask db"
    using add_tables[OF fin False] unfolding add_entry_bl_put by blast
  show ?thesis using bw_ok_tables[OF bw_ok_add[OF ok nm g(2)] g(1)] .
qed (use bw_ok_tables[OF ok] add_none fin in blast)

lemma delete_keeps:
  assumes ok: "bw_ok N db" and c: "ty = IP_BLWL \<Longrightarrow> \<exists>nm. canon N key nm"
    and fin: "final_state (deleteEntryInternal R N key ty repl db) = Some db'"
  shows "bw_ok N db'"
proof (cases "ty = NONE_BLWL")
  case False
  obtain nm where nm: "ty = IP_BLWL \<Longrightarrow> canon N key nm" using c by blast
  obtain g where g: "tables db' = tables ((upd_list ty (bl_erase key) db)\<lparr>iplist_netmask := g\<rparr>)"
    "if ty = IP_BLWL then final_state (deleteMask_str N key (iplist_netmask db)) = Some g else g = iplist_netmask db"
    using delete_tables[OF fin False] by blast
  show ?thesis using bw_ok_tables[OF bw_ok_del[OF ok nm g(2)] g(1)] .
qed (use bw_ok_tables[OF ok] delete_none fin in blast)

lemma add_returns:
  assumes ok: "bw_ok N db" and c: "ty = IP_BLWL \<Longrightarrow> \<exists>nm. canon N key nm" and np: "\<not> persist db"
  shows "\<exists>db'. addEntryInternal R N ts key secs ty reason repl db = Ret db' ()"
proof (cases "ty = IP_BLWL")
  case True
  then obtain nm where "canon N key nm" using c by blast
  then obtain g where g: "addMask_str N key True (iplist_netmask db) = Ret g ()"
    using addMask_canon[OF bw_okD(2)[OF ok]] by metis
  let ?db = "(upd_list ty (add_entry (fst ts) key secs reason) db)\<lparr>iplist_netmask := g\<rparr>"
  have "\<not> persist ?db" using np by simp
  then obtain db2 where "after_add R (snd ts) key secs ty reason repl ?db = Ret db2 ()"
    using after_add_returns by blast
  then show ?thesis using g True by (simp add: addEntryInternal_def on_netmask_def)
next
  case False
  have "\<not> persist (upd_list ty (add_entry (fst ts) key secs reason) db)" using np by simp
  then obtain db2 where "after_add R (snd ts) key secs ty reason repl (upd_list ty (add_entry (fst ts) key secs reason) db) = Ret db2 ()"
    using after_add_returns by blast
  then show ?thesis using False by (cases ty) (simp_all add: addEntryInternal_def)
qed

lemma delete_returns:
  assumes ok: "bw_ok N db" and c: "ty = IP_BLWL \<Longrightarrow> \<exists>nm. canon N key nm" and np: "\<not> persist db"
  shows "\<exists>db'. deleteEntryInternal R N key ty repl db = Ret db' ()"
proof (cases "ty = IP_BLWL")
  case True
  then obtain nm where "canon N key nm" using c by blast
  then obtain g where g: "deleteMask_str N key (iplist_netmask db) = Ret g ()"
    using deleteMask_canon[OF bw_okD(2)[OF ok]] by metis
  let ?db = "(upd_list ty (\<lambda>l. fst (delete_entry key l)) db)\<lparr>iplist_netmask := g\<rparr>"
  have "\<not> persist ?db" using np by simp
  then obtain db2 where "after_delete R key ty repl ?db = Ret db2 ()" using after_delete_returns by blast
  then show ?thesis using g True by (simp add: deleteEntryInternal_def on_netmask_def)
next
  case False
  have "\<not> persist (upd_list ty (\<lambda>l. fst (delete_entry key l)) db)" using np by simp
  then obtain db2 where "after_delete R key ty repl (upd_list ty (\<lambda>l. fst (delete_entry key l)) db) = Ret db2 ()"
    using after_delete_returns by blast
  then show ?thesis using False by (cases ty) (simp_all add: deleteEntryInternal_def)
qed

lemma new_db_ok: "bw_ok N (new_BlackWhiteListDB ty)"
proof -
  have l: "get_list t (new_BlackWhiteListDB ty) = []" for t by (cases t) (simp_all add: new_BlackWhiteListDB_def)
  have g: "iplist_netmask (new_BlackWhiteListDB ty) = new_NetmaskTree True" "ip_list (new_BlackWhiteListDB ty) = []"
    by (simp_all add: new_BlackWhiteListDB_def new_NetmaskGroup_def)
  have "\<not> stored (new_NetmaskTree True) x" for x :: "Netmask \<times> bool"
    by (simp add: stored_def new_NetmaskTree_def)
  then show ?thesis using new_NetmaskTree_ok by (simp add: bw_ok_def l g known_def bl_ok_def)
qed

section \<open>What is persisted and what is loaded\<close>

lemma name_of_type: "ty \<noteq> NONE_BLWL \<Longrightarrow> BLWLNameToType (BLWLTypeToName ty) = ty"
  by (cases ty) (simp_all add: BLWLNameToType_def BLWLTypeToName_def key_names_def type_of_num_def)

lemma no_colon: "CHR '':'' \<notin> set (redis_prefix t)" "CHR '':'' \<notin> set (BLWLTypeToName ty)" "CHR '':'' \<notin> set (int_to_string i)"
proof -
  show "CHR '':'' \<notin> set (redis_prefix t)" by (simp add: redis_prefix_def)
  show "CHR '':'' \<notin> set (BLWLTypeToName ty)" by (cases ty) (simp_all add: BLWLTypeToName_def key_names_def)
  show "CHR '':'' \<notin> set (int_to_string i)"
  proof -
    have "CHR '':'' \<notin> set (nat_to_string n)" for n using isdigit_nat_to_string[of n] isdigit_plain by blast
    then show ?thesis by (simp add: int_to_string_def)
  qed
qed

lemma split_redis_key:
  "splitField (snd (splitField (redis_key t ty key) CHR '':'')) CHR '':'' = (BLWLTypeToName ty, key)"
  using splitField_append[OF no_colon(1)[of t], of "BLWLTypeToName ty @ CHR '':'' # key"]
    splitField_append[OF no_colon(2)[of ty], of key]
  by (simp add: redis_key_def)

lemma split_redis_value: "splitField (redis_value ex reason) CHR '':'' = (int_to_string ex, reason)"
  using splitField_append[OF no_colon(3)[of ex], of reason] by (simp add: redis_value_def)

lemma c_str_redis_key: "c_str key = key \<Longrightarrow> c_str (redis_key t ty key) = redis_key t ty key"
  by (cases ty) (auto simp: redis_key_def c_str_def redis_prefix_def BLWLTypeToName_def key_names_def)

lemma addPersistEntry_sends:
  assumes "addPersistEntry R now key secs ty reason db = Ret db1 True" and "c_str key = key"
  shows "last (trace db1) = Redis (R_SET (redis_key (db_type db) ty key) (redis_value (now + secs) reason) (as_int secs))"
proof -
  obtain db0 u where "checkSetupContext R db = Ret db0 u" "u" "redis_command R (R_SET (c_str (redis_key (db_type db) ty key)) (redis_value (now + secs) reason) (as_int secs)) db0 = Ret db1 True"
    using assms(1) by (auto simp: addPersistEntry_def split: if_splits)
  then show ?thesis by (auto simp: redis_command_def emit_def c_str_redis_key[OF assms(2)])
qed

lemma stoi_far: "int_max < i \<Longrightarrow> stoi (int_to_string i) = Inl Out_Of_Range"
  by (auto simp: stoi_def int_to_string_def int_max_def)

section \<open>Properties of the black and white lists\<close>

text \<open>
  C8. The tables and the netmask group never come to disagree: adding, deleting and expiring keep the keys of
  each table unique and the netmask group equal to the set of netmasks of the address table. This
  holds for every outcome, also when persisting to Redis throws; without persistence every call
  returns. Address keys have to be the strings that the calls with an address or a netmask build.
\<close>

theorem lists_and_netmasks_agree:
  assumes ok: "bw_ok N db" and c: "call_canon N call"
  shows "(\<forall>db'. final_state (bw_outcome R N ts call db) = Some db' \<longrightarrow> bw_ok N db')
    \<and> (\<not> persist db \<longrightarrow> (\<exists>db'. bw_outcome R N ts call db = Ret db' ()))"
proof (cases call)
  case (BwAdd key secs ty reason repl)
  then have k: "ty = IP_BLWL \<Longrightarrow> \<exists>nm. canon N key nm" using c by simp
  show ?thesis
    using add_keeps[where ty = ty, OF ok k] add_returns[where ty = ty, OF ok k] unfolding BwAdd bw_outcome.simps by blast
next
  case (BwDelete key ty repl)
  then have k: "ty = IP_BLWL \<Longrightarrow> \<exists>nm. canon N key nm" using c by simp
  show ?thesis
    using delete_keeps[where ty = ty, OF ok k] delete_returns[where ty = ty, OF ok k] unfolding BwDelete bw_outcome.simps by blast
next
  case (BwPurge now)
  then show ?thesis using purgeEntries_spec[OF ok, of "\<lambda>_. now"] by auto
qed

definition demo_redis :: redis_env where
  "demo_redis = \<lparr>ctx_err = False, resolve = (\<lambda>_ _. None), connect = (\<lambda>_. False), set_timeout = True,
     keep_alive = True, reply_to = (\<lambda>_. None)\<rparr>"

lemma demo_canon:
  "prints_plain demo_net (set_port 0 (getMaskedNetwork demo_nm))"
  "\<exists>nm. canon demo_net (toStringNetwork demo_net demo_nm) nm"
proof -
  show p: "prints_plain demo_net (set_port 0 (getMaskedNetwork demo_nm))"
    by (simp add: prints_plain_def prints_back_def demo_nm_def new_Netmask_def getMaskedNetwork_def mask_of_def
        demo_net_def makeComboAddress_def c_str_def)
  show "\<exists>nm. canon demo_net (toStringNetwork demo_net demo_nm) nm" using canon_print[OF demo_nm_wf p] by blast
qed

lemma demo_canon_nm: "canon demo_net (toStringNetwork demo_net demo_nm) demo_nm"
  using canon_print[OF demo_nm_wf demo_canon(1)] by (simp add: demo_nm_def new_Netmask_def getMaskedNetwork_def mask_of_def)

theorem lists_and_netmasks_agree_witness:
  "\<exists>db'. bw_outcome demo_redis demo_net (1000, 1000) (BwAdd (toStringNetwork demo_net demo_nm) 60 IP_BLWL ''abuse'' True)
     (new_BlackWhiteListDB BLACKLIST) = Ret db' () \<and> bw_ok demo_net db'"
proof -
  let ?c = "BwAdd (toStringNetwork demo_net demo_nm) 60 IP_BLWL ''abuse'' True" and ?db = "new_BlackWhiteListDB BLACKLIST"
  have c: "call_canon demo_net ?c" using demo_canon(2) by simp
  have "\<not> persist ?db" by (simp add: new_BlackWhiteListDB_def)
  with lists_and_netmasks_agree[OF new_db_ok c, of demo_redis "(1000, 1000)" BLACKLIST]
  obtain db' where "bw_outcome demo_redis demo_net (1000, 1000) ?c ?db = Ret db' ()" by blast
  then show ?thesis using lists_and_netmasks_agree[OF new_db_ok c, of demo_redis "(1000, 1000)" BLACKLIST] by fastforce
qed

text \<open>A black list with the network 10.0.0.0/8 until 1060 and a login until 5000.\<close>

lemma demo_listed:
  obtains db where "bw_ok demo_net db"
    "ip_list db = [\<lparr>ble_key = toStringNetwork demo_net demo_nm, ble_reason = ''abuse'', ble_expiration = 1060\<rparr>]"
    "login_list db = [\<lparr>ble_key = ''joe'', ble_reason = ''guessing'', ble_expiration = 5000\<rparr>]"
proof -
  let ?k = "toStringNetwork demo_net demo_nm" and ?db0 = "new_BlackWhiteListDB BLACKLIST"
  have c: "\<exists>nm. canon demo_net ?k nm" by (rule demo_canon(2))
  have np: "\<not> persist ?db0" by (simp add: new_BlackWhiteListDB_def)
  obtain db1 where db1: "addEntryInternal demo_redis demo_net (1000, 1000) ?k 60 IP_BLWL ''abuse'' True ?db0 = Ret db1 ()"
    using add_returns[where ty = IP_BLWL and N = demo_net and key = ?k and R = demo_redis, OF new_db_ok _ np] c by blast
  then have fin: "final_state (addEntryInternal demo_redis demo_net (1000, 1000) ?k 60 IP_BLWL ''abuse'' True ?db0) = Some db1" by simp
  have ok1: "bw_ok demo_net db1" using add_keeps[OF new_db_ok _ fin] c by blast
  obtain g where t: "tables db1 = tables ((upd_list IP_BLWL (add_entry 1000 ?k 60 ''abuse'') ?db0)\<lparr>iplist_netmask := g\<rparr>)"
    using add_tables[OF fin] by auto
  have "bw_ok demo_net ((upd_list LOGIN_BLWL (bl_put ''joe'' (''guessing'', 5000)) db1)\<lparr>iplist_netmask := iplist_netmask db1\<rparr>)"
    by (rule bw_ok_add[OF ok1]) simp_all
  then show ?thesis using that tables_simps(1)[OF t, of LOGIN_BLWL] tables_simps(2)[OF t]
    by (simp add: add_entry_put bl_put_def bl_erase_def new_BlackWhiteListDB_def)
qed

text \<open>
  C7. The decision about an address is the longest prefix match over the address table. In a list whose
  tables and netmask group agree, an IPv4 or IPv6 address is listed exactly when the netmask of some entry matches it, and the entry returned for it is the one
  with the longest matching prefix.
\<close>

theorem ip_decision_is_longest_match:
  assumes "bw_ok N db" and "ca_wf ip" and "ip \<noteq> CA_None"
  shows "(checkEntry_ip ip db \<longleftrightarrow> (\<exists>e \<in> set (ip_list db). \<exists>nm. canon N (ble_key e) nm \<and> nm_match nm ip = Some True))
    \<and> (\<forall>e. getEntry_ip N ip db = Some e \<longleftrightarrow> best_match N ip db e)"
  using check_ip_spec[OF assms] get_ip_spec[OF assms] by blast

theorem ip_decision_is_longest_match_witness:
  "\<exists>db e. ip_list db = [e] \<and> ble_key e = toStringNetwork demo_net demo_nm \<and> checkEntry_ip (CA_V4 0x0A010203 0) db
     \<and> getEntry_ip demo_net (CA_V4 0x0A010203 0) db = Some e \<and> \<not> checkEntry_ip (CA_V4 0x0B010203 0) db"
proof -
  obtain db where db: "bw_ok demo_net db"
      "ip_list db = [\<lparr>ble_key = toStringNetwork demo_net demo_nm, ble_reason = ''abuse'', ble_expiration = 1060\<rparr>]"
    by (rule demo_listed) blast
  let ?e = "\<lparr>ble_key = toStringNetwork demo_net demo_nm, ble_reason = ''abuse'', ble_expiration = 1060\<rparr>"
  have nm: "canon demo_net (ble_key ?e) nm \<longleftrightarrow> nm = demo_nm" for nm using demo_canon_nm canon_fun by auto
  have m: "nm_match demo_nm (CA_V4 0x0A010203 0) = Some True" "nm_match demo_nm (CA_V4 0x0B010203 0) = Some False"
    by (simp_all add: demo_nm_def new_Netmask_def nm_match_def mask_of_def match4_def)
  have best: "best_match demo_net (CA_V4 0x0A010203 0) db ?e" using m(1) by (simp add: best_match_def db(2) nm del: BlackWhiteListEntry.simps)
  have "checkEntry_ip (CA_V4 0x0A010203 0) db" "getEntry_ip demo_net (CA_V4 0x0A010203 0) db = Some ?e" "\<not> checkEntry_ip (CA_V4 0x0B010203 0) db"
    using ip_decision_is_longest_match[OF db(1), of "CA_V4 0x0A010203 0"] ip_decision_is_longest_match[OF db(1), of "CA_V4 0x0B010203 0"] best
    by (simp_all add: db(2) nm m del: BlackWhiteListEntry.simps)
  then show ?thesis using db(2) by (intro exI[of _ db] exI[of _ ?e]) simp
qed

text \<open>
  An entry is found with its reason until it expires, in each of the five tables: whatever the
  outcome of \<^verbatim>\<open>addEntryInternal\<close> (it may throw after the table has changed), the table holds the new
  entry under its key and every other entry as before, no other table changes, and the expiration
  reported \<open>d\<close> seconds later is what is left of the time given, or -1 once it has passed.
\<close>

lemma added_entry_is_found:
  assumes "final_state (addEntryInternal R N ts key secs ty reason repl db) = Some db'" and "ty \<noteq> NONE_BLWL"
    and "bl_ok (get_list ty db)"
  shows "bl_get (get_list ty db') key = Some (reason, fst ts + secs)
    \<and> (\<forall>k. k \<noteq> key \<longrightarrow> bl_get (get_list ty db') k = bl_get (get_list ty db) k)
    \<and> (\<forall>ty'. ty' \<noteq> ty \<longrightarrow> get_list ty' db' = get_list ty' db)
    \<and> get_expiration (fst ts + d) key (get_list ty db') = (if d \<le> secs then secs - d else - 1)"
proof -
  obtain g where g: "tables db' = tables ((upd_list ty (bl_put key (reason, fst ts + secs)) db)\<lparr>iplist_netmask := g\<rparr>)"
    using add_tables[OF assms(1,2)] unfolding add_entry_bl_put by blast
  have l: "get_list ty' db' = (if ty' = ty then bl_put key (reason, fst ts + secs) (get_list ty db) else get_list ty' db)" for ty'
    using assms(2) tables_simps(1)[OF g, of ty'] by (simp add: get_upd_list)
  show ?thesis
    using table.lookup_put[OF assms(3)] by (simp add: l) (simp add: get_expiration_def bl_find_put)
qed

lemma match_canonical:
  assumes "nm_wf nm" and "ca_wf ip" and "canon N k m" and "d_network m = set_port 0 (getMaskedNetwork nm)" and "d_bits m = d_bits nm"
  shows "nm_match m ip = nm_match nm ip"
proof -
  have "nm_wf m" using assms(3) by (simp add: canon_def)
  then show ?thesis
    using nm_match_prefix[OF _ assms(2)] assms(1,4,5) take_masked_bits[OF assms(1)]
    by (simp add: addr_bits_set_port)
qed

lemma netmask_listed_after_add:
  assumes ok: "bw_ok N db" and np: "\<not> persist db" and nm: "nm_wf nm"
    and pp: "prints_plain N (set_port 0 (getMaskedNetwork nm))" and ip: "ca_wf ip" "ip \<noteq> CA_None"
  shows "\<exists>db1. addEntry_netmask R N ts nm secs reason db = Ret db1 () \<and> bw_ok N db1 \<and> \<not> persist db1
    \<and> ip_list db1 = bl_put (toStringNetwork N nm) (reason, fst ts + secs) (ip_list db)
    \<and> (checkEntry_ip ip db1 \<longleftrightarrow> nm_match nm ip = Some True \<or> checkEntry_ip ip db)"
proof -
  let ?k = "toStringNetwork N nm"
  obtain m where m: "canon N ?k m" and mm: "nm_match m ip = nm_match nm ip"
    using canon_print[OF nm pp] match_canonical[OF nm ip(1)] by fastforce
  have ex: "IP_BLWL = IP_BLWL \<Longrightarrow> \<exists>nm. canon N ?k nm" using m by blast
  obtain db0 where db0: "addEntryInternal R N ts ?k secs IP_BLWL reason True db = Ret db0 ()"
    using add_returns[OF ok ex np] by blast
  define db1 where "db1 = addEntryLog IP_BLWL ?k secs reason db0"
  have t1: "tables db1 = tables db0" by (simp add: db1_def)
  have fin: "final_state (addEntryInternal R N ts ?k secs IP_BLWL reason True db) = Some db0" using db0 by simp
  have ok1: "bw_ok N db1" using bw_ok_tables[OF add_keeps[OF ok ex fin] t1] .
  obtain g where g: "tables db0 = tables ((upd_list IP_BLWL (bl_put ?k (reason, fst ts + secs)) db)\<lparr>iplist_netmask := g\<rparr>)"
    using add_tables[OF fin] unfolding add_entry_bl_put by auto
  have np1: "\<not> persist db1" using g t1 np by (simp add: tables_eq_iff)
  have l1: "ip_list db1 = bl_put ?k (reason, fst ts + secs) (ip_list db)"
    using tables_simps(2)[OF t1] tables_simps(2)[OF g] by simp
  have "checkEntry_ip ip db1 \<longleftrightarrow> nm_match nm ip = Some True \<or> checkEntry_ip ip db"
    unfolding check_ip_spec[OF ok1 ip] check_ip_spec[OF ok ip] l1 Bex_def set_bl_put
    using m mm canon_fun[OF m] by (metis BlackWhiteListEntry.select_convs(1))
  moreover have "addEntry_netmask R N ts nm secs reason db = Ret db1 ()"
    using db0 by (simp add: addEntry_netmask_def add_logged_def db1_def)
  ultimately show ?thesis using ok1 np1 l1 by blast
qed

text \<open>An address is listed exactly when an entry is found for it.\<close>

lemma check_iff_get:
  assumes ok: "bw_ok N db" and ip: "ca_wf ip" "ip \<noteq> CA_None"
  shows "checkEntry_ip ip db \<longleftrightarrow> getEntry_ip N ip db \<noteq> None"
proof
  let ?P = "\<lambda>(e, nm). e \<in> set (ip_list db) \<and> canon N (ble_key e) nm \<and> nm_match nm ip = Some True"
  assume "checkEntry_ip ip db"
  then obtain e nm where "?P (e, nm)" unfolding check_ip_spec[OF assms] by blast
  moreover have "\<forall>x. ?P x \<longrightarrow> d_bits (snd x) < 129" by (auto simp: canon_def nm_wf_def split: ComboAddress.splits)
  ultimately obtain x where "?P x" "\<forall>y. ?P y \<longrightarrow> d_bits (snd y) \<le> d_bits (snd x)"
    using ex_has_greatest_nat[of ?P "(e, nm)" "\<lambda>x. d_bits (snd x)" 129] by blast
  then have "best_match N ip db (fst x)" unfolding best_match_def by (auto simp: case_prod_beta)
  then show "getEntry_ip N ip db \<noteq> None" using get_ip_spec[OF assms] by (metis option.distinct(1))
next
  assume "getEntry_ip N ip db \<noteq> None"
  then obtain e where "best_match N ip db e" using get_ip_spec[OF assms] by blast
  then show "checkEntry_ip ip db" unfolding check_ip_spec[OF assms] best_match_def by blast
qed

text \<open>
  Blocking a network and lifting the block: with persistence off, \<^verbatim>\<open>addEntry(nm)\<close> returns and
  afterwards an address is listed exactly when \<open>nm\<close> matches it or it was listed before; then
  \<^verbatim>\<open>deleteEntry(nm)\<close> returns, and an address is listed exactly when the netmask of an entry with
  another key matches it.
\<close>

lemma block_and_unblock_network:
  assumes ok: "bw_ok N db" and np: "\<not> persist db" and nm: "nm_wf nm"
    and pp: "prints_plain N (set_port 0 (getMaskedNetwork nm))" and ip: "ca_wf ip" "ip \<noteq> CA_None"
  shows "\<exists>db1 db2. addEntry_netmask R N ts nm secs reason db = Ret db1 () \<and> deleteEntry_netmask R N nm db1 = Ret db2 ()
    \<and> bw_ok N db1 \<and> bw_ok N db2
    \<and> (checkEntry_ip ip db1 \<longleftrightarrow> nm_match nm ip = Some True \<or> checkEntry_ip ip db)
    \<and> (checkEntry_ip ip db2 \<longleftrightarrow> (\<exists>e \<in> set (ip_list db). ble_key e \<noteq> toStringNetwork N nm
         \<and> (\<exists>m. canon N (ble_key e) m \<and> nm_match m ip = Some True)))"
proof -
  let ?k = "toStringNetwork N nm"
  obtain db1 where db1: "addEntry_netmask R N ts nm secs reason db = Ret db1 ()" "bw_ok N db1" "\<not> persist db1"
      "ip_list db1 = bl_put ?k (reason, fst ts + secs) (ip_list db)"
      "checkEntry_ip ip db1 \<longleftrightarrow> nm_match nm ip = Some True \<or> checkEntry_ip ip db"
    using netmask_listed_after_add[OF assms] by blast
  have ex: "IP_BLWL = IP_BLWL \<Longrightarrow> \<exists>nm. canon N ?k nm" using canon_print[OF nm pp] by blast
  obtain db2 where db2: "deleteEntryInternal R N ?k IP_BLWL True db1 = Ret db2 ()"
    using delete_returns[OF db1(2) ex db1(3)] by blast
  have fin2: "final_state (deleteEntryInternal R N ?k IP_BLWL True db1) = Some db2" using db2 by simp
  have ok2: "bw_ok N db2" using delete_keeps[OF db1(2) ex fin2] .
  obtain g2 where g2: "tables db2 = tables ((upd_list IP_BLWL (bl_erase ?k) db1)\<lparr>iplist_netmask := g2\<rparr>)"
    using delete_tables[OF fin2] by auto
  have l2: "ip_list db2 = bl_erase ?k (ip_list db1)" using tables_simps(2)[OF g2] by simp
  have in2: "e \<in> set (ip_list db2) \<longleftrightarrow> e \<in> set (ip_list db) \<and> ble_key e \<noteq> ?k" for e
    unfolding l2 db1(4) by (auto simp: bl_erase_def bl_put_def)
  have "checkEntry_ip ip db2 \<longleftrightarrow> (\<exists>e \<in> set (ip_list db). ble_key e \<noteq> ?k
         \<and> (\<exists>m. canon N (ble_key e) m \<and> nm_match m ip = Some True))"
    unfolding check_ip_spec[OF ok2 ip] Bex_def in2 by blast
  moreover have "deleteEntry_netmask R N nm db1 = Ret db2 ()" using db2 by (simp add: deleteEntry_netmask_def)
  ultimately show ?thesis using db1 ok2 by blast
qed

text \<open>
  C31. On a list whose tables and netmask group agree, a round of the purge thread returns and removes exactly the entries that have expired, from all
  five tables, keeping the order of the rest; the netmask group follows.
\<close>

theorem purge_removes_exactly_expired:
  assumes "bw_ok N db"
  shows "\<exists>db'. purgeEntries N now db = Ret db' () \<and> bw_ok N db'
    \<and> (\<forall>ty. get_list ty db' = filter (\<lambda>e. \<not> expired (now (type_num ty)) e) (get_list ty db))"
  using assms by (rule purgeEntries_spec)

theorem purge_removes_exactly_expired_witness:
  "\<exists>db db'. map ble_expiration (ip_list db) = [1060] \<and> map ble_expiration (login_list db) = [5000]
     \<and> purgeEntries demo_net (\<lambda>_. 2000) db = Ret db' () \<and> ip_list db' = [] \<and> login_list db' = login_list db"
proof -
  obtain db where db: "bw_ok demo_net db"
      "ip_list db = [\<lparr>ble_key = toStringNetwork demo_net demo_nm, ble_reason = ''abuse'', ble_expiration = 1060\<rparr>]"
      "login_list db = [\<lparr>ble_key = ''joe'', ble_reason = ''guessing'', ble_expiration = 5000\<rparr>]"
    by (rule demo_listed) blast
  obtain db' where p: "purgeEntries demo_net (\<lambda>_. 2000) db = Ret db' ()"
      "\<forall>ty. get_list ty db' = filter (\<lambda>e. \<not> expired 2000 e) (get_list ty db)"
    using purge_removes_exactly_expired[OF db(1), of "\<lambda>_. 2000"] by blast
  have "ip_list db' = []" "login_list db' = login_list db"
    using p(2)[rule_format, of IP_BLWL] p(2)[rule_format, of LOGIN_BLWL] db(2,3) by (simp_all add: expired_def)
  then show ?thesis using p(1) db(2,3) by (intro exI[of _ db] exI[of _ db']) simp
qed

section \<open>What is saved is restored\<close>

text \<open>Entries given to \<^verbatim>\<open>addPersistEntry\<close> one after the other, each stored; and what the server has been told to store.\<close>

record saved =
  sv_key :: string
  sv_type :: BLWLType
  sv_reason :: string
  sv_now :: int
  sv_secs :: int

fun save_all :: "redis_env \<Rightarrow> saved list \<Rightarrow> BlackWhiteListDB \<Rightarrow> BlackWhiteListDB option" where
  "save_all R [] db = Some db"
| "save_all R (x # xs) db =
     (case addPersistEntry R (sv_now x) (sv_key x) (sv_secs x) (sv_type x) (sv_reason x) db of Ret db1 True \<Rightarrow> save_all R xs db1 | _ \<Rightarrow> None)"

fun set_pair :: "bl_effect \<Rightarrow> (string \<times> get_reply) option" where
  "set_pair (Redis (R_SET k v secs)) = Some (k, Get_Str v)"
| "set_pair _ = None"

definition redis_sets :: "bl_effect list \<Rightarrow> (string \<times> get_reply) list" where
  "redis_sets tr = List.map_filter set_pair tr"

lemma redis_sets_append [simp]: "redis_sets (xs @ ys) = redis_sets xs @ redis_sets ys"
  by (simp add: redis_sets_def List.map_filter_def)

definition saved_pair :: "BLWLDBType \<Rightarrow> saved \<Rightarrow> string \<times> get_reply" where
  "saved_pair t x = (redis_key t (sv_type x) (sv_key x), Get_Str (redis_value (sv_now x + sv_secs x) (sv_reason x)))"

lemma checkSetupContext_sets: "final_state (checkSetupContext R db) = Some db' \<Longrightarrow> redis_sets (trace db') = redis_sets (trace db) \<and> db_type db' = db_type db"
  by (auto simp: checkSetupContext_def set_options_def redis_auth_def emit_def Let_def redis_sets_def List.map_filter_def
      split: if_splits option.splits)

lemma addPersistEntry_sets:
  assumes "addPersistEntry R now key secs ty reason db = Ret db1 True" and "c_str key = key"
  shows "redis_sets (trace db1) = redis_sets (trace db) @ [(redis_key (db_type db) ty key, Get_Str (redis_value (now + secs) reason))]
    \<and> db_type db1 = db_type db"
proof -
  obtain db0 where "checkSetupContext R db = Ret db0 True"
      "db1 = emit (Redis (R_SET (c_str (redis_key (db_type db) ty key)) (redis_value (now + secs) reason) (as_int secs))) db0"
    using assms(1) by (auto simp: addPersistEntry_def redis_command_def split: if_splits)
  then show ?thesis using checkSetupContext_sets[of R db db0]
    by (simp add: emit_def c_str_redis_key[OF assms(2)] redis_sets_def List.map_filter_def)
qed

lemma save_all_sets:
  "save_all R xs db = Some db1 \<Longrightarrow> \<forall>x \<in> set xs. c_str (sv_key x) = sv_key x \<Longrightarrow>
     redis_sets (trace db1) = redis_sets (trace db) @ map (saved_pair (db_type db)) xs"
proof (induction xs arbitrary: db)
  case (Cons x xs)
  obtain db2 where db2: "addPersistEntry R (sv_now x) (sv_key x) (sv_secs x) (sv_type x) (sv_reason x) db = Ret db2 True"
      "save_all R xs db2 = Some db1"
    using Cons.prems(1) by (auto split: outcome.splits bool.splits)
  show ?case using addPersistEntry_sets[OF db2(1)] Cons.IH[OF db2(2)] Cons.prems(2) by (simp add: saved_pair_def)
qed simp

text \<open>Entries that can be read back: not of the JA3 tables, expiring within an \<^verbatim>\<open>int\<close>, with the key of a netmask in the address table.\<close>

definition loadable :: "netlib \<Rightarrow> saved \<Rightarrow> bool" where
  "loadable N x \<longleftrightarrow>
     sv_type x \<in> {IP_BLWL, LOGIN_BLWL, IP_LOGIN_BLWL} \<and> c_str (sv_key x) = sv_key x
     \<and> int_min \<le> sv_now x + sv_secs x \<and> sv_now x + sv_secs x \<le> int_max
     \<and> (sv_type x = IP_BLWL \<longrightarrow> (\<exists>nm. canon N (sv_key x) nm))"

lemma load_saved_key:
  assumes x: "loadable N x" and ok: "bw_ok N db0" and pair: "saved_pair t x = (k, r)"
  shows "\<exists>db'. load_key N ts k r db0 = Ret db' (True, 1) \<and> bw_ok N db'
    \<and> (\<forall>ty key. bl_get (get_list ty db') key =
          (if ty = sv_type x \<and> key = sv_key x then Some (sv_reason x, sv_now x + sv_secs x + (snd ts - fst ts)) else bl_get (get_list ty db0) key))"
proof -
  let ?ty = "sv_type x" and ?key = "sv_key x" and ?re = "(sv_reason x, sv_now x + sv_secs x + (snd ts - fst ts))"
  let ?db1 = "upd_list ?ty (bl_put ?key ?re) db0"
  have ty: "?ty \<in> {IP_BLWL, LOGIN_BLWL, IP_LOGIN_BLWL}" and range: "int_min \<le> sv_now x + sv_secs x" "sv_now x + sv_secs x \<le> int_max"
    using x by (auto simp: loadable_def)
  obtain nm where c: "?ty = IP_BLWL \<Longrightarrow> canon N ?key nm" using x by (auto simp: loadable_def)
  have add: "add_entry (snd ts) ?key (sv_now x + sv_secs x - fst ts) (sv_reason x) = bl_put ?key ?re"
    by (simp add: add_entry_bl_put algebra_simps)
  obtain g where g: "if ?ty = IP_BLWL then addMask_str N ?key True (iplist_netmask db0) = Ret g () else g = iplist_netmask db0"
  proof (cases "?ty = IP_BLWL")
    case True
    then show ?thesis using addMask_canon[OF bw_okD(2)[OF ok] c[OF True]] that by (metis (full_types))
  qed (use that in simp)
  then have "if ?ty = IP_BLWL then final_state (addMask_str N ?key True (iplist_netmask db0)) = Some g else g = iplist_netmask db0"
    by auto
  note ok' = bw_ok_add[where re = ?re, OF ok c this]
  have "?db1 = ?db1\<lparr>iplist_netmask := g\<rparr>" if "?ty \<noteq> IP_BLWL" using g that by (cases ?ty) auto
  then have "load_key N ts (redis_key t ?ty ?key) (Get_Str (redis_value (sv_now x + sv_secs x) (sv_reason x))) db0
      = Ret (?db1\<lparr>iplist_netmask := g\<rparr>) (True, 1)"
    using ty g unfolding load_key_def get_reply.case split_redis_key split_redis_value
    by (auto simp: Let_def stoi_int_to_string[OF range] name_of_type add on_netmask_def)
  moreover have "bl_get (get_list ty' (?db1\<lparr>iplist_netmask := g\<rparr>)) key' =
      (if ty' = ?ty \<and> key' = ?key then Some ?re else bl_get (get_list ty' db0) key')" for ty' key'
    using ty by (auto simp: get_upd_list bl_get_def bl_find_put)
  ultimately show ?thesis using ok' pair by (auto simp: saved_pair_def)
qed

definition restored :: "saved list \<Rightarrow> int \<Rightarrow> BlackWhiteListDB \<Rightarrow> BlackWhiteListDB \<Rightarrow> bool" where
  "restored xs shift db0 db' \<longleftrightarrow>
     (\<forall>x \<in> set xs. bl_get (get_list (sv_type x) db') (sv_key x) = Some (sv_reason x, sv_now x + sv_secs x + shift))
     \<and> (\<forall>ty key. (ty, key) \<notin> (\<lambda>x. (sv_type x, sv_key x)) ` set xs \<longrightarrow> bl_get (get_list ty db') key = bl_get (get_list ty db0) key)"

lemma load_saved_keys:
  assumes "\<forall>x \<in> set xs. loadable N x" and "distinct (map (\<lambda>x. (sv_type x, sv_key x)) xs)" and "bw_ok N db0"
  shows "\<exists>db'. load_keys N ts (map (saved_pair t) xs) db0 = Ret db' (True, length xs) \<and> bw_ok N db' \<and> restored xs (snd ts - fst ts) db0 db'"
  using assms
proof (induction xs arbitrary: db0)
  case (Cons x xs)
  obtain k r where p: "saved_pair t x = (k, r)" by fastforce
  obtain db1 where 1: "load_key N ts k r db0 = Ret db1 (True, 1)" "bw_ok N db1"
      "\<And>ty key. bl_get (get_list ty db1) key =
          (if ty = sv_type x \<and> key = sv_key x then Some (sv_reason x, sv_now x + sv_secs x + (snd ts - fst ts)) else bl_get (get_list ty db0) key)"
    using load_saved_key[OF _ Cons.prems(3) p, of ts] Cons.prems(1) by auto
  obtain db' where 2: "load_keys N ts (map (saved_pair t) xs) db1 = Ret db' (True, length xs)" "bw_ok N db'" "restored xs (snd ts - fst ts) db1 db'"
    using Cons.IH[OF _ _ 1(2)] Cons.prems(1,2) by auto
  have "restored (x # xs) (snd ts - fst ts) db0 db'"
    using 2(3) 1(3) Cons.prems(2) by (auto simp: restored_def)
  then show ?case using 1(1) 2(1,2) p by auto
qed (auto simp: restored_def)

lemma mset_eq_map: "mset zs = image_mset f (mset xs) \<Longrightarrow> \<exists>ys. mset ys = mset xs \<and> zs = map f ys"
proof (induction zs arbitrary: xs)
  case (Cons z zs)
  then have "z \<in># image_mset f (mset xs)" by (metis list.set_intros(1) set_mset_mset)
  then obtain x where x: "x \<in> set xs" "f x = z" by auto
  define ws where "ws = remove1 x xs"
  have m: "add_mset x (mset ws) = mset xs" using x(1) by (simp add: ws_def)
  have "add_mset z (mset zs) = add_mset z (image_mset f (mset ws))"
    using Cons.prems unfolding m[symmetric] by (simp add: x(2))
  then have "mset zs = image_mset f (mset ws)" by simp
  from Cons.IH[OF this] obtain ys where ys: "mset ys = mset ws" "zs = map f ys" by blast
  have "mset (x # ys) = mset xs" unfolding m[symmetric] by (simp add: ys(1))
  then show ?case using ys(2) x(2) by (intro exI[of _ "x # ys"]) simp
qed simp

text \<open>The pages of a scan: the counter is 0 on the last one only.\<close>

fun scan_pages :: "(string \<times> (string \<times> get_reply) list) list \<Rightarrow> bool" where
  "scan_pages [] \<longleftrightarrow> False"
| "scan_pages [(counter, krs)] \<longleftrightarrow> stoi counter = Inr 0"
| "scan_pages ((counter, krs) # ps) \<longleftrightarrow> (\<exists>n. n \<noteq> 0 \<and> stoi counter = Inr n) \<and> scan_pages ps"

lemma load_keys_append:
  "load_keys N ts (xs @ ys) db = Ret db' (True, n) \<Longrightarrow>
     \<exists>db1 m. load_keys N ts xs db = Ret db1 (True, m) \<and> (\<exists>l. load_keys N ts ys db1 = Ret db' (True, l) \<and> n = m + l)"
proof (induction xs arbitrary: db n)
  case (Cons p xs)
  obtain k r where p: "p = (k, r)" by fastforce
  obtain db1 m where 1: "load_key N ts k r db = Ret db1 (True, m)"
    using Cons.prems p by (cases "load_key N ts k r db") (auto split: if_splits)
  then obtain l where "load_keys N ts (xs @ ys) db1 = Ret db' (True, l)" "n = m + l"
    using Cons.prems p by (cases "load_keys N ts (xs @ ys) db1") auto
  from Cons.IH[OF this(1)] this(2) show ?case using 1 p by fastforce
qed simp

lemma scan_loop_pages:
  "scan_pages ps \<Longrightarrow> load_keys N ts (concat (map snd ps)) db = Ret db' (True, n) \<Longrightarrow>
     scan_loop N ts (map (\<lambda>(counter, krs). Scan_Array counter krs) ps) db = Some (Ret db' (True, n))"
proof (induction ps arbitrary: db n rule: scan_pages.induct)
  case (3 counter krs p ps)
  obtain db1 m l where "load_keys N ts krs db = Ret db1 (True, m)" "load_keys N ts (concat (map snd (p # ps))) db1 = Ret db' (True, l)" "n = m + l"
    using load_keys_append[of N ts krs "concat (map snd (p # ps))" db db' n] "3.prems"(2) by auto
  then show ?case using "3.IH"[of db1 l] "3.prems"(1) by (auto simp del: scan_loop.simps(2) simp: scan_loop.simps(2)[of _ _ "Scan_Array counter krs"])
qed auto

text \<open>
  C32. What \<^verbatim>\<open>addPersistEntry\<close> has stored, \<^verbatim>\<open>loadPersistEntries\<close> restores. The entries, none of them twice, are of the address, login or
  address-and-login table, have keys without a zero byte, which for addresses are the strings of netmasks that the list commands
  build, and expire within an \<^verbatim>\<open>int\<close>. When the connection to Redis is up and the pages of the scan list exactly what was stored, in any
  order, loading into a list whose tables and netmasks agree succeeds, counts the entries, and leaves each in its table with its key,
  its reason and its absolute expiration, shifted only by what the clock moves on between its two readings; all other
  entries of the list stay, and tables and netmasks still agree.
\<close>

theorem persisted_entry_is_restored:
  assumes saved: "save_all R xs db = Some db1" and xs: "\<forall>x \<in> set xs. loadable N x" "distinct (map (\<lambda>x. (sv_type x, sv_key x)) xs)"
    and up: "persist db0" "checkSetupContext R' db0 = Ret db0' True" and ok: "bw_ok N db0"
    and pages: "scan_pages ps" "redis_sets (trace db1) = redis_sets (trace db) @ sent" "mset (concat (map snd ps)) = mset sent"
  shows "\<exists>db'. loadPersistEntries R' N (t1, t2) (map (\<lambda>(counter, krs). Scan_Array counter krs) ps) db0 = Some (Ret db' (True, length xs))
    \<and> bw_ok N db' \<and> restored xs (t2 - t1) db0 db'"
proof -
  have sent: "sent = map (saved_pair (db_type db)) xs"
    using save_all_sets[OF saved] xs(1) pages(2) by (simp add: loadable_def)
  obtain ys where ys: "mset ys = mset xs" "concat (map snd ps) = map (saved_pair (db_type db)) ys"
    using mset_eq_map[of "concat (map snd ps)" "saved_pair (db_type db)" xs] pages(3) sent by auto
  have len: "length ys = length xs" and set: "set ys = set xs" using ys(1) by (auto dest: mset_eq_length mset_eq_setD)
  have dist: "distinct (map (\<lambda>x. (sv_type x, sv_key x)) ys)"
    using xs(2) ys(1) by (metis mset_eq_imp_distinct_iff mset_map)
  have t0: "tables db0' = tables db0" using checkSetupContext_tables[of R' db0 db0'] up(2) by simp
  have "bw_ok N db0'" using ok t0 by (rule bw_ok_tables)
  then obtain db' where db': "load_keys N (t1, t2) (map (saved_pair (db_type db)) ys) db0' = Ret db' (True, length ys)" "bw_ok N db'"
      "restored ys (t2 - t1) db0' db'"
    using load_saved_keys[OF _ dist, of N db0' "(t1, t2)" "db_type db"] xs(1) set by auto
  have "restored xs (t2 - t1) db0 db'" using db'(3) set tables_simps(1)[OF t0] by (simp add: restored_def)
  moreover have "loadPersistEntries R' N (t1, t2) (map (\<lambda>(counter, krs). Scan_Array counter krs) ps) db0 = Some (Ret db' (True, length xs))"
    using scan_loop_pages[OF pages(1), of N "(t1, t2)" db0' db' "length ys"] db'(1) up by (simp add: loadPersistEntries_def ys(2) len)
  ultimately show ?thesis using db'(2) by blast
qed

definition demo_redis_up :: redis_env where
  "demo_redis_up = demo_redis\<lparr>resolve := (\<lambda>_ _. Some [''10.0.0.0'']), connect := (\<lambda>_. True), reply_to := (\<lambda>_. Some Reply_Other)\<rparr>"

theorem persisted_entry_is_restored_witness:
  "\<exists>db1 db'. addPersistEntry demo_redis_up 1000 ''bob'' 60 LOGIN_BLWL ''vip'' (new_BlackWhiteListDB WHITELIST) = Ret db1 True
     \<and> trace db1 = [Redis (R_SET ''wfwl:login:bob'' ''1060:vip'' 60)]
     \<and> loadPersistEntries demo_redis_up demo_net (1500, 1501) [Scan_Array ''0'' [(''wfwl:login:bob'', Get_Str ''1060:vip'')]]
         ((new_BlackWhiteListDB WHITELIST)\<lparr>persist := True\<rparr>) = Some (Ret db' (True, 1))
     \<and> bl_get (get_list LOGIN_BLWL db') ''bob'' = Some (''vip'', 1061)"
proof -
  let ?new = "new_BlackWhiteListDB WHITELIST" and ?x = "\<lparr>sv_key = ''bob'', sv_type = LOGIN_BLWL, sv_reason = ''vip'', sv_now = 1000, sv_secs = 60\<rparr>"
  let ?db1 = "?new\<lparr>redis_context := Ctx_Live, trace := [Redis (R_SET ''wfwl:login:bob'' ''1060:vip'' 60)]\<rparr>"
  let ?ps = "[(''0'', [(''wfwl:login:bob'', Get_Str ''1060:vip'')])]"
  have i: "int_to_string 1060 = ''1060''"
    by (simp add: int_to_string_def nat_to_string.simps digit_char_def char_of_def bit_iff_odd)
  have add: "addPersistEntry demo_redis_up 1000 ''bob'' 60 LOGIN_BLWL ''vip'' ?new = Ret ?db1 True"
    by (simp add: addPersistEntry_def checkSetupContext_def new_BlackWhiteListDB_def demo_redis_up_def demo_redis_def redis_value_def i
        set_options_def redis_auth_def redis_command_def emit_def redis_key_def redis_prefix_def BLWLTypeToName_def
        key_names_def c_str_def Let_def as_int_def)
  have saved: "save_all demo_redis_up [?x] ?new = Some ?db1" by (simp add: add)
  have x: "\<forall>x \<in> set [?x]. loadable demo_net x" by (simp add: loadable_def c_str_def int_min_def int_max_def)
  have up: "persist (?new\<lparr>persist := True\<rparr>)" "checkSetupContext demo_redis_up (?new\<lparr>persist := True\<rparr>)
      = Ret (?new\<lparr>persist := True, redis_context := Ctx_Live\<rparr>) True"
    by (simp_all add: checkSetupContext_def new_BlackWhiteListDB_def demo_redis_up_def demo_redis_def set_options_def redis_auth_def Let_def)
  have ok: "bw_ok demo_net (?new\<lparr>persist := True\<rparr>)" 
  proof -
    have "get_list ty (?new\<lparr>persist := True\<rparr>) = get_list ty ?new" for ty by (cases ty) simp_all
    then show ?thesis using new_db_ok[of demo_net WHITELIST] by (simp add: bw_ok_def)
  qed
  have pages: "scan_pages ?ps" by (simp add: stoi_def strto_subject_def Let_def isspace_c_def isdigit_c_def digits_value_def digit_value_def c_str_def int_min_def int_max_def)
  have sets: "redis_sets (trace ?db1) = redis_sets (trace ?new) @ [(''wfwl:login:bob'', Get_Str ''1060:vip'')]"
    by (simp add: redis_sets_def List.map_filter_def new_BlackWhiteListDB_def)
  have "\<exists>db'. loadPersistEntries demo_redis_up demo_net (1500, 1501) (map (\<lambda>(counter, krs). Scan_Array counter krs) ?ps)
      (?new\<lparr>persist := True\<rparr>) = Some (Ret db' (True, length [?x])) \<and> bw_ok demo_net db' \<and> restored [?x] (1501 - 1500) (?new\<lparr>persist := True\<rparr>) db'"
    by (rule persisted_entry_is_restored[OF saved x _ up ok pages sets]) simp_all
  then show ?thesis using add by (auto simp: restored_def)
qed

text \<open>
  What is persisted and cannot be loaded: an entry of the two JA3 tables makes the load stop with
  failure, and everything after it is not loaded; an entry whose expiration does not fit an
  \<^verbatim>\<open>int\<close> (a time after January 2038) makes it throw \<^verbatim>\<open>std::out_of_range\<close>.
\<close>

lemma persisted_entries_that_break_the_load:
  assumes "c_str key = key"
  shows "(ty \<in> {JA3_BLWL, IP_JA3_BLWL} \<longrightarrow> int_min \<le> ex \<longrightarrow> ex \<le> int_max \<longrightarrow>
      load_keys N ts ((c_str (redis_key t ty key), Get_Str (redis_value ex reason)) # krs) db = Ret db (False, 0))
    \<and> (int_max < ex \<longrightarrow>
      load_keys N ts ((c_str (redis_key t ty key), Get_Str (redis_value ex reason)) # krs) db = Exn Out_Of_Range db)"
  unfolding c_str_redis_key[OF assms] load_keys.simps load_key_def get_reply.case split_redis_key split_redis_value
  by (auto simp: Let_def stoi_int_to_string stoi_far name_of_type)

text \<open>
  A malformed address key (a replicated one is not checked) is added to the address table before
  the netmask constructor throws: the entry stays, no netmask is added for it, and from its expiry on
  every pass of the purge thread over the table throws at it without removing anything.
\<close>

lemma malformed_ip_key_stays:
  assumes bad: "Netmask_of_string N key = Inl x" and key: "key \<noteq> []" "hd key \<noteq> CHR ''!''" and first: "ip_list db = []"
  shows "\<exists>db1. addEntryInternal R N ts key secs IP_BLWL reason repl db = Exn x db1
    \<and> iplist_netmask db1 = iplist_netmask db
    \<and> bl_get (ip_list db1) key = Some (reason, fst ts + secs)
    \<and> (\<forall>now \<ge> fst ts + secs. \<exists>db2. purge_list N now IP_BLWL db1 = Exn x db2 \<and> ip_list db2 = ip_list db1)"
proof -
  let ?db1 = "db\<lparr>ip_list := [\<lparr>ble_key = key, ble_reason = reason, ble_expiration = fst ts + secs\<rparr>]\<rparr>"
  have "addEntryInternal R N ts key secs IP_BLWL reason repl db = Exn x ?db1"
    using bad key first by (simp add: addEntryInternal_def on_netmask_def addMask_str_def add_entry_def bl_erase_def)
  moreover have "bl_get (ip_list ?db1) key = Some (reason, fst ts + secs)" by (simp add: bl_get_def bl_find_def)
  moreover have "\<exists>db2. purge_list N now IP_BLWL ?db1 = Exn x db2 \<and> ip_list db2 = ip_list ?db1" if "fst ts + secs \<le> now" for now
    using bad key that
    by (simp add: purge_list_def time_index_def on_netmask_def deleteMask_str_def Let_def expireEntryLog_def hook_expire_def emit_def)
  ultimately show ?thesis by auto
qed

text \<open>
  A freed Redis context is used again: when the connection has an error and the server's name does
  not resolve, the context is freed and the pointer keeps its value; the next use of the connection
  reads the freed context.
\<close>

lemma redis_context_used_after_free:
  assumes "redis_context db = Ctx_Live" and "ctx_err R" and "resolve R (redis_server db) (redis_port db) = None"
  shows "\<exists>db1. checkSetupContext R db = Ret db1 False \<and> checkSetupContext R' db1 = Undef"
  using assms by (simp add: checkSetupContext_def)

end
