(* ===== verification/Base64.thy ===== *)
theory Base64
  imports Wf_Prelude
begin

text \<open>
  Base 64 (\<^verbatim>\<open>sodcrypto.cc\<close>): the encoder and the decoder of keys and credentials. A character is
  its byte; \<^verbatim>\<open>unsigned char\<close> arithmetic is arithmetic on 8-bit words. The decoder appends to the
  output string, returns 1 or -1, and may throw: \<^verbatim>\<open>strInput.at\<close> when white space ends the input,
  \<^verbatim>\<open>strOutput.resize\<close> when there is more padding than output. Lengths are below the largest
  \<^verbatim>\<open>int\<close>. The development shows that decoding inverts encoding and which strings the decoder
  accepts by mistake.
\<close>

section \<open>One character\<close>

definition B64Decode1 :: "8 word \<Rightarrow> 8 word" where
  "B64Decode1 cInChar =
     (if cInChar = 43 then 62
      else if cInChar = 47 then 63
      else if cInChar = 61 then 0
      else let i9 = 57 - cInChar in
           if 0x3F < i9 then
             (let iZ = 90 - cInChar in
              if 0x3F < iZ then
                (let iz = 122 - cInChar in
                 if 0x3F < iz then 0x80 else ((122 - iz) - 97) + 26)
              else (90 - iZ) - 65)
           else ((57 - i9) - 48) + 52)"

definition B64Encode1 :: "8 word \<Rightarrow> 8 word" where
  "B64Encode1 uc =
     (if uc < 26 then 65 + uc
      else if uc < 52 then 97 + (uc - 26)
      else if uc < 62 then 48 + (uc - 52)
      else if uc = 62 then 43
      else 47)"

section \<open>Decoding\<close>

text \<open>\<^verbatim>\<open>while (isspace(strInput.at(iInNum))) iInNum++\<close>, then the character read; \<open>None\<close> when \<^verbatim>\<open>at\<close> throws.\<close>

fun skip_spaces :: "string \<Rightarrow> (char \<times> string) option" where
  "skip_spaces [] = None"
| "skip_spaces (c # cs) = (if isspace_c c then skip_spaces cs else Some (c, cs))"

text \<open>
  The \<^verbatim>\<open>for\<close> loop that fills the buffer with \<open>n\<close> more groups of six bits: the rest of the input,
  the buffer and the padding seen. The first group is or-ed into an empty buffer, so the shift of
  the other groups may be applied to it too.
\<close>

datatype b64_group_result = Group string "64 word" nat | Group_Invalid | Group_Throws

fun b64_group :: "nat \<Rightarrow> string \<Rightarrow> 64 word \<Rightarrow> nat \<Rightarrow> b64_group_result" where
  "b64_group 0 inp cBuf pad = Group inp cBuf pad"
| "b64_group (Suc n) [] cBuf pad = b64_group n [] (push_bit 6 cBuf) pad"
| "b64_group (Suc n) (c # cs) cBuf pad =
     (let pad' = (if c = CHR ''='' then pad + 1 else pad)
      in case skip_spaces (c # cs) of
           None \<Rightarrow> Group_Throws
         | Some (d, ds) \<Rightarrow>
             (let cChar = B64Decode1 (byte_of_char d)
              in if 0x7F < cChar then Group_Invalid
                 else b64_group n ds (push_bit 6 cBuf OR ucast cChar) pad'))"

definition buf_bytes :: "64 word \<Rightarrow> string" where
  "buf_bytes cBuf = map char_of_byte [ucast (drop_bit 16 cBuf), ucast (drop_bit 8 cBuf), ucast cBuf]"

lemma skip_spaces_length: "skip_spaces s = Some (d, ds) \<Longrightarrow> length ds < length s"
  by (induction s) (auto split: if_splits)

lemma b64_group_length_le: "b64_group n inp b p = Group inp' b' p' \<Longrightarrow> length inp' \<le> length inp"
proof (induction n inp b p rule: b64_group.induct)
  case (3 n c cs cBuf pad)
  then obtain d ds where d: "skip_spaces (c # cs) = Some (d, ds)" "\<not> 0x7F < B64Decode1 (byte_of_char d)"
    by (auto simp: Let_def simp del: skip_spaces.simps split: option.splits if_splits)
  then have "length inp' \<le> length ds"
    using 3 by (auto simp: Let_def simp del: skip_spaces.simps)
  then show ?case using skip_spaces_length[OF d(1)] by simp
qed auto

lemma b64_group_length:
  assumes "b64_group (Suc n) (c # cs) b p = Group inp' b' p'"
  shows "length inp' < Suc (length cs)"
  using assms skip_spaces_length b64_group_length_le
  by (force simp: Let_def simp del: skip_spaces.simps split: option.splits if_splits)

function b64_loop :: "string \<Rightarrow> string \<Rightarrow> nat \<Rightarrow> (string, int \<times> nat) outcome" where
  "b64_loop inp out pad =
     (if inp = [] then Ret out (1, pad)
      else case b64_group 4 inp 0 0 of
             Group_Throws \<Rightarrow> Exn Out_Of_Range out
           | Group_Invalid \<Rightarrow> Ret out (-1, pad)
           | Group rest cBuf pad' \<Rightarrow> b64_loop rest (out @ buf_bytes cBuf) pad')"
  by pat_completeness auto
termination
proof (relation "measure (\<lambda>(inp, out, pad). length inp)")
  fix inp out :: string and pad rest cBuf pad'
  assume "inp \<noteq> []" "b64_group 4 inp 0 0 = Group rest cBuf pad'"
  then show "((rest, out @ buf_bytes cBuf, pad'), (inp, out, pad)) \<in> measure (\<lambda>(inp, out, pad). length inp)"
    using b64_group_length[of 3] by (cases inp) (auto simp: eval_nat_numeral)
qed simp

definition B64Decode :: "string \<Rightarrow> string \<Rightarrow> (string, int) outcome" where
  "B64Decode strInput strOutput =
     obind (b64_loop strInput strOutput 0) (\<lambda>out (ret, pad).
       if ret < 0 then Ret out (-1)
       else if length out < pad then Exn Length_Error out
       else Ret (take (length out - pad) out) 1)"

section \<open>Encoding\<close>

definition b64_char :: "8 word \<Rightarrow> char" where
  "b64_char v = char_of_byte (B64Encode1 v)"

definition b64_quad :: "8 word \<Rightarrow> 8 word \<Rightarrow> 8 word \<Rightarrow> 8 word \<times> 8 word \<times> 8 word \<times> 8 word" where
  "b64_quad by1 by2 by3 =
     (drop_bit 2 by1, push_bit 4 (by1 AND 0x3) OR drop_bit 4 by2,
      push_bit 2 (by2 AND 0xF) OR drop_bit 6 by3, by3 AND 0x3F)"

fun Base64Encode :: "string \<Rightarrow> string" where
  "Base64Encode [] = []"
| "Base64Encode [a] =
     (case b64_quad (byte_of_char a) 0 0 of (by4, by5, by6, by7) \<Rightarrow> [b64_char by4, b64_char by5] @ ''=='')"
| "Base64Encode [a, b] =
     (case b64_quad (byte_of_char a) (byte_of_char b) 0 of
        (by4, by5, by6, by7) \<Rightarrow> [b64_char by4, b64_char by5, b64_char by6] @ ''='')"
| "Base64Encode (a # b # c # rest) =
     (case b64_quad (byte_of_char a) (byte_of_char b) (byte_of_char c) of
        (by4, by5, by6, by7) \<Rightarrow> [b64_char by4, b64_char by5, b64_char by6, b64_char by7] @ Base64Encode rest)"

section \<open>Decoding inverts encoding\<close>

lemma sextet_cases: "v < 64 \<Longrightarrow> v \<in> set (map word_of_nat [0..<64])" for v :: "8 word"
proof -
  assume "v < 64"
  then have "unat v < 64" by (simp add: word_less_nat_alt)
  then have "v = word_of_nat (unat v)" "unat v \<in> set [0..<64]" by auto
  then show ?thesis by (metis image_eqI set_map)
qed

lemma sextet_table:
  "list_all (\<lambda>v. B64Decode1 (B64Encode1 v) = v \<and> B64Encode1 v \<noteq> 61 \<and> \<not> isspace_c (b64_char v))
     (map word_of_nat [0..<64])"
  by code_simp

lemma decode1_encode1:
  assumes "v < 64"
  shows "B64Decode1 (B64Encode1 v) = v" and "B64Encode1 v \<noteq> 61" and "\<not> isspace_c (b64_char v)"
  using sextet_table sextet_cases[OF assms] by (auto simp: list_all_iff)

lemma byte_of_eq: "byte_of_char CHR ''='' = 61"
  by (simp add: byte_of_char_def)

lemma b64_group_sextet:
  assumes "v < 64"
  shows "b64_group (Suc n) (b64_char v # cs) b p = b64_group n cs (push_bit 6 b OR ucast v) p"
proof -
  have "b64_char v \<noteq> CHR ''=''"
    using decode1_encode1(2)[OF assms] by (metis b64_char_def byte_of_char_of_byte byte_of_eq)
  moreover have "\<not> 0x7F < v" using assms by (simp add: word_less_nat_alt)
  ultimately show ?thesis
    using decode1_encode1[OF assms] by (simp add: b64_char_def)
qed

lemma b64_group_pad: "b64_group (Suc n) (CHR ''='' # cs) b p = b64_group n cs (push_bit 6 b) (p + 1)"
  by (simp add: isspace_c_def byte_of_char_def B64Decode1_def)

lemma sextetI: "(\<And>n. 6 \<le> n \<Longrightarrow> n < 8 \<Longrightarrow> \<not> bit v n) \<Longrightarrow> v < 64" for v :: "8 word"
proof -
  assume *: "\<And>n. 6 \<le> n \<Longrightarrow> n < 8 \<Longrightarrow> \<not> bit v n"
  have "take_bit 6 v = v"
    by (rule bit_word_eqI) (use * not_less in \<open>auto simp: bit_simps\<close>)
  then have "unat v = take_bit 6 (unat v)" by (metis unsigned_take_bit_eq)
  then have "unat v < 64" using take_bit_nat_less_exp[of 6 "unat v"] by simp
  then show "v < 64" by (simp add: word_less_nat_alt)
qed

lemma b64_quad_bits:
  "b64_quad a b c =
     (drop_bit 2 a, push_bit 4 (take_bit 2 a) OR drop_bit 4 b,
      push_bit 2 (take_bit 4 b) OR drop_bit 6 c, take_bit 6 c)"
  by (simp add: b64_quad_def take_bit_eq_mask mask_numeral)

lemma byte_bit_above [simp]: "8 \<le> n \<Longrightarrow> \<not> bit b n" for b :: "8 word"
  using bit_imp_le_length[of b n] by auto

lemma below_8: "n < 8 \<Longrightarrow> n \<in> {0, 1, 2, 3, 4, 5, 6, 7}" for n :: nat
  by auto

lemma b64_quad_sextets:
  "b64_quad a b c = (q1, q2, q3, q4) \<Longrightarrow> q1 < 64 \<and> q2 < 64 \<and> q3 < 64 \<and> q4 < 64"
  by (auto simp: b64_quad_bits bit_simps intro!: sextetI dest!: below_8)

definition quad_buf :: "8 word \<times> 8 word \<times> 8 word \<times> 8 word \<Rightarrow> 64 word" where
  "quad_buf q = (case q of (q1, q2, q3, q4) \<Rightarrow>
     push_bit 6 (push_bit 6 (push_bit 6 (ucast q1) OR ucast q2) OR ucast q3) OR ucast q4)"

lemma quad_buf_bytes:
  "ucast (drop_bit 16 (quad_buf (b64_quad a b c))) = a"
  "ucast (drop_bit 8 (quad_buf (b64_quad a b c))) = b"
  "ucast (quad_buf (b64_quad a b c)) = c"
  by (rule bit_word_eqI; auto simp: quad_buf_def b64_quad_bits bit_simps simp flip: numeral_2_eq_2 numeral_3_eq_3 dest!: below_8)+

lemma quad_buf_string: "buf_bytes (quad_buf (b64_quad a b c)) = map char_of_byte [a, b, c]"
  by (simp add: buf_bytes_def quad_buf_bytes)

lemma four_groups: "b64_group 4 = b64_group (Suc (Suc (Suc (Suc 0))))"
  by (simp add: numeral_eq_Suc)

lemma group_full:
  assumes "b64_quad a b c = (q1, q2, q3, q4)"
  shows "b64_group 4 (b64_char q1 # b64_char q2 # b64_char q3 # b64_char q4 # rest) 0 0
           = Group rest (quad_buf (b64_quad a b c)) 0"
  using b64_quad_sextets[OF assms] by (simp add: four_groups b64_group_sextet assms quad_buf_def del: b64_group.simps(3))

lemma group_padded:
  assumes "b64_quad a b 0 = (q1, q2, q3, q4)"
  shows "b64_group 4 (b64_char q1 # b64_char q2 # b64_char q3 # CHR ''='' # rest) 0 0
           = Group rest (quad_buf (b64_quad a b 0)) 1"
proof -
  have "q4 = 0" using assms by (simp add: b64_quad_def)
  then show ?thesis
    using b64_quad_sextets[OF assms]
    by (simp add: four_groups b64_group_sextet b64_group_pad assms quad_buf_def del: b64_group.simps(3))
qed

lemma group_padded2:
  assumes "b64_quad a 0 0 = (q1, q2, q3, q4)"
  shows "b64_group 4 (b64_char q1 # b64_char q2 # CHR ''='' # CHR ''='' # rest) 0 0
           = Group rest (quad_buf (b64_quad a 0 0)) 2"
proof -
  have "q3 = 0" "q4 = 0" using assms by (auto simp: b64_quad_def)
  then show ?thesis
    using b64_quad_sextets[OF assms]
    by (simp add: four_groups b64_group_sextet b64_group_pad assms quad_buf_def del: b64_group.simps(3))
qed

declare b64_loop.simps [simp del]

lemma b64_loop_Nil [simp]: "b64_loop [] out p = Ret out (1, p)"
  by (simp add: b64_loop.simps)

lemma b64_loop_group: "b64_group 4 (c # cs) 0 0 = Group rest b p' \<Longrightarrow> b64_loop (c # cs) out p = b64_loop rest (out @ buf_bytes b) p'"
  by (simp add: b64_loop.simps)

definition pad_len :: "string \<Rightarrow> nat" where
  "pad_len s = (3 - length s mod 3) mod 3"

lemma b64_loop_encoded:
  "s \<noteq> [] \<Longrightarrow> b64_loop (Base64Encode s @ r) out p
     = b64_loop r (out @ s @ replicate (pad_len s) (char_of_byte 0)) (pad_len s)"
proof (induction s arbitrary: out p rule: Base64Encode.induct)
  case (2 a)
  obtain q1 q2 q3 q4 where q: "b64_quad (byte_of_char a) 0 0 = (q1, q2, q3, q4)" by (metis prod_cases4)
  show ?case
    using b64_loop_group[OF group_padded2[OF q], of r] quad_buf_string[of "byte_of_char a" 0 0]
    by (simp add: q pad_len_def numeral_2_eq_2)
next
  case (3 a b)
  obtain q1 q2 q3 q4 where q: "b64_quad (byte_of_char a) (byte_of_char b) 0 = (q1, q2, q3, q4)" by (metis prod_cases4)
  show ?case
    using b64_loop_group[OF group_padded[OF q], of r] quad_buf_string[of "byte_of_char a" "byte_of_char b" 0]
    by (simp add: q pad_len_def)
next
  case (4 a b c rest)
  let ?q = "b64_quad (byte_of_char a) (byte_of_char b) (byte_of_char c)"
  obtain q1 q2 q3 q4 where q: "?q = (q1, q2, q3, q4)" by (metis prod_cases4)
  have step: "b64_loop (Base64Encode (a # b # c # rest) @ r) out p = b64_loop (Base64Encode rest @ r) (out @ [a, b, c]) 0"
    using b64_loop_group[OF group_full[OF q]] quad_buf_string[of "byte_of_char a" "byte_of_char b" "byte_of_char c"]
    by (simp add: q)
  have len: "pad_len (a # b # c # rest) = pad_len rest" by (simp add: pad_len_def)
  show ?case
  proof (cases "rest = []")
    case True
    then show ?thesis using step by (simp add: pad_len_def)
  next
    case False
    then show ?thesis using 4(1)[OF q[symmetric] refl refl False, of "out @ [a, b, c]" 0] step len by simp
  qed
qed simp

section \<open>Properties\<close>

lemma b64_decode_encode: "B64Decode (Base64Encode s) [] = Ret s 1"
proof (cases "s = []")
  case False
  then show ?thesis using b64_loop_encoded[OF False, of "[]" "[]" 0] by (simp add: B64Decode_def)
qed (simp add: B64Decode_def)

text \<open>
  C21. Decoding inverts encoding: for every string, \<^verbatim>\<open>B64Decode\<close> of \<^verbatim>\<open>Base64Encode\<close> succeeds and gives the
  string back, whatever its length modulo three.
\<close>

theorem base64_roundtrip: "B64Decode (Base64Encode s) [] = Ret s 1"
  by (rule b64_decode_encode)

text \<open>
  White space after a key is not skipped: decoding any encoded string followed by a white-space
  character throws \<^verbatim>\<open>std::out_of_range\<close> (the loop that skips white space reads past the end of the
  input) instead of returning -1.
\<close>

lemma base64_trailing_space_throws:
  assumes "isspace_c c"
  shows "\<exists>out. B64Decode (Base64Encode s @ [c]) [] = Exn Out_Of_Range out"
proof -
  have c: "c \<noteq> CHR ''=''" using assms by (auto simp: isspace_c_def)
  have "b64_group 4 [c] 0 0 = Group_Throws" using assms c by (simp add: four_groups)
  then have "b64_loop [c] out p = Exn Out_Of_Range out" for out p by (simp add: b64_loop.simps)
  then show ?thesis
    using b64_loop_encoded[of s "[c]" "[]" 0] by (cases "s = []") (simp_all add: B64Decode_def)
qed

end
