(* ===== verification/Sod_Crypto.thy ===== *)
theory Sod_Crypto
  imports Base64
begin

text \<open>
  Encrypted packets: \<^verbatim>\<open>SodiumNonce\<close>, \<^verbatim>\<open>sodEncryptSym\<close> and \<^verbatim>\<open>sodDecryptSym\<close> (\<^verbatim>\<open>sodcrypto.hh\<close>,
  \<^verbatim>\<open>sodcrypto.cc\<close>, the libsodium build), and \<^verbatim>\<open>encryptMsg\<close> and \<^verbatim>\<open>decryptMsg\<close> of
  \<^verbatim>\<open>wforce-replication.cc\<close> on top of them. \<^verbatim>\<open>crypto_secretbox_easy\<close> and its inverse are the
  parameter \<open>B\<close>; what the library promises about them is \<open>secretbox_ok\<close>. The nonce is the list of its
  bytes; \<^verbatim>\<open>increment\<close> treats the first four as a big-endian counter.
\<close>

record secretbox =
  crypto_secretbox_easy :: "8 word list \<Rightarrow> string \<Rightarrow> string \<Rightarrow> string"
  crypto_secretbox_open_easy :: "8 word list \<Rightarrow> string \<Rightarrow> string \<Rightarrow> string option"

definition crypto_secretbox_NONCEBYTES :: nat where "crypto_secretbox_NONCEBYTES = 24"
definition crypto_secretbox_MACBYTES :: nat where "crypto_secretbox_MACBYTES = 16"

definition secretbox_ok :: "secretbox \<Rightarrow> bool" where
  "secretbox_ok B \<longleftrightarrow>
     (\<forall>n k m. length (crypto_secretbox_easy B n k m) = length m + crypto_secretbox_MACBYTES
        \<and> crypto_secretbox_open_easy B n k (crypto_secretbox_easy B n k m) = Some m)"

type_synonym SodiumNonce = "8 word list"

definition nonce_increment :: "SodiumNonce \<Rightarrow> SodiumNonce" where
  "nonce_increment value = be32 (from_be32 (take 4 value) + 1) @ drop 4 value"

definition nonce_merge :: "SodiumNonce \<Rightarrow> SodiumNonce \<Rightarrow> SodiumNonce" where
  "nonce_merge lower higher =
     (let halfSize = crypto_secretbox_NONCEBYTES div 2 in take halfSize lower @ take halfSize (drop halfSize higher))"

definition nonce_toString :: "SodiumNonce \<Rightarrow> string" where
  "nonce_toString value = map char_of_byte value"

definition sodEncryptSym :: "secretbox \<Rightarrow> string \<Rightarrow> string \<Rightarrow> SodiumNonce \<Rightarrow> SodiumNonce \<times> string" where
  "sodEncryptSym B msg key nonce = (nonce_increment nonce, crypto_secretbox_easy B nonce key msg)"

text \<open>
  \<^verbatim>\<open>msg.length() - crypto_secretbox_MACBYTES > 0\<close> is a comparison of unsigned numbers: for a shorter
  message the difference wraps and the string cannot be resized to it.
\<close>

definition sodDecryptSym :: "secretbox \<Rightarrow> string \<Rightarrow> string \<Rightarrow> SodiumNonce \<Rightarrow> (SodiumNonce, string) outcome" where
  "sodDecryptSym B msg key nonce =
     (if length msg < crypto_secretbox_MACBYTES then Exn Length_Error nonce
      else if 0 < length msg - crypto_secretbox_MACBYTES then
        (case crypto_secretbox_open_easy B nonce key msg of
           None \<Rightarrow> Exn (Runtime_Error ''Could not decrypt message'') nonce
         | Some decrypted \<Rightarrow> Ret (nonce_increment nonce) decrypted)
      else Ret (nonce_increment nonce) [])"

text \<open>\<^verbatim>\<open>encryptMsg\<close> and \<^verbatim>\<open>encryptMsgWithKey\<close>: the packet is the nonce followed by the sealed message.\<close>

definition encryptMsgWithKey :: "secretbox \<Rightarrow> string \<Rightarrow> string \<Rightarrow> SodiumNonce \<Rightarrow> SodiumNonce \<times> string" where
  "encryptMsgWithKey B msg key nonce =
     (case sodEncryptSym B msg key nonce of (nonce', c) \<Rightarrow> (nonce', nonce_toString nonce @ c))"

text \<open>
  \<^verbatim>\<open>decryptMsg\<close>: \<open>Inr (Some msg)\<close> is the return value true with the message, \<open>Inr None\<close> is false, and
  \<open>Inl\<close> an exception that is not a \<^verbatim>\<open>std::runtime_error\<close> and leaves the function.
\<close>

definition decryptMsg :: "secretbox \<Rightarrow> string \<Rightarrow> string \<Rightarrow> exn + string option" where
  "decryptMsg B d_key buf =
     (if length buf < crypto_secretbox_NONCEBYTES then Inr None
      else
        (let nonce = map byte_of_char (take crypto_secretbox_NONCEBYTES buf);
             packet = drop crypto_secretbox_NONCEBYTES buf
         in case sodDecryptSym B packet d_key nonce of
              Ret _ msg \<Rightarrow> Inr (Some msg)
            | Exn (Runtime_Error _) _ \<Rightarrow> Inr None
            | Exn e _ \<Rightarrow> Inl e
            | Undef \<Rightarrow> Inr None))"

section \<open>Nonces\<close>

definition nonce_wf :: "SodiumNonce \<Rightarrow> bool" where
  "nonce_wf n \<longleftrightarrow> length n = crypto_secretbox_NONCEBYTES"

lemma nonce_wf_increment [simp]: "nonce_wf n \<Longrightarrow> nonce_wf (nonce_increment n)"
  by (simp add: nonce_wf_def nonce_increment_def crypto_secretbox_NONCEBYTES_def)

lemma nonce_wf_iterate: "nonce_wf n \<Longrightarrow> nonce_wf ((nonce_increment ^^ i) n)"
  by (induction i) auto

lemma nonce_counter:
  "nonce_wf n \<Longrightarrow> from_be32 (take 4 ((nonce_increment ^^ i) n)) = from_be32 (take 4 n) + word_of_nat i"
proof (induction i)
  case (Suc i)
  then show ?case by (simp add: nonce_increment_def[of "(nonce_increment ^^ i) n"])
qed simp

lemma nonce_tail: "nonce_wf n \<Longrightarrow> drop 4 ((nonce_increment ^^ i) n) = drop 4 n"
proof (induction i)
  case (Suc i)
  then show ?case by (simp add: nonce_increment_def[of "(nonce_increment ^^ i) n"])
qed simp

text \<open>The packets of successive calls with one nonce object.\<close>

fun encrypt_all :: "secretbox \<Rightarrow> string \<Rightarrow> string list \<Rightarrow> SodiumNonce \<Rightarrow> SodiumNonce \<times> string list" where
  "encrypt_all B key [] n = (n, [])"
| "encrypt_all B key (m # ms) n =
     (case encryptMsgWithKey B m key n of (n1, p) \<Rightarrow>
      case encrypt_all B key ms n1 of (n2, ps) \<Rightarrow> (n2, p # ps))"

definition packet_nonce :: "string \<Rightarrow> string" where
  "packet_nonce p = take crypto_secretbox_NONCEBYTES p"

lemma encrypt_all_length [simp]: "length (snd (encrypt_all B key ms n)) = length ms"
  by (induction ms arbitrary: n) (auto simp: case_prod_beta)

lemma encrypt_all_nth:
  "nonce_wf n \<Longrightarrow> i < length ms \<Longrightarrow>
   snd (encrypt_all B key ms n) ! i = snd (encryptMsgWithKey B (ms ! i) key ((nonce_increment ^^ i) n))"
proof (induction ms arbitrary: n i)
  case (Cons m ms)
  have fst: "fst (encryptMsgWithKey B m key n) = nonce_increment n"
    by (simp add: encryptMsgWithKey_def sodEncryptSym_def)
  show ?case
  proof (cases i)
    case (Suc j)
    then show ?thesis
      using Cons.IH[of "nonce_increment n" j] Cons.prems fst
      by (simp add: case_prod_beta funpow_swap1)
  qed (simp add: case_prod_beta)
qed simp

lemma packet_nonce_encrypt: "nonce_wf n \<Longrightarrow> packet_nonce (snd (encryptMsgWithKey B m key n)) = nonce_toString n"
  by (simp add: encryptMsgWithKey_def sodEncryptSym_def packet_nonce_def nonce_toString_def nonce_wf_def)

lemma nonce_toString_inj: "nonce_toString a = nonce_toString b \<longleftrightarrow> a = b"
  unfolding nonce_toString_def by (rule inj_map_eq_map) (metis byte_of_char_of_byte injI)

lemma packet_decrypts:
  assumes "secretbox_ok B" and "nonce_wf n"
  shows "decryptMsg B key (snd (encryptMsgWithKey B msg key n)) = Inr (Some msg)"
proof -
  let ?c = "crypto_secretbox_easy B n key msg"
  have law: "length ?c = length msg + crypto_secretbox_MACBYTES" "crypto_secretbox_open_easy B n key ?c = Some msg"
    using assms(1) by (auto simp: secretbox_ok_def)
  have n: "map byte_of_char (map char_of_byte n) = n" by (simp add: comp_def)
  show ?thesis
    using assms(2) law n
    by (simp add: decryptMsg_def encryptMsgWithKey_def sodEncryptSym_def sodDecryptSym_def nonce_toString_def
        nonce_wf_def)
qed

text \<open>
  What needs no key: with less than the 16 bytes of the authenticator after the nonce \<^verbatim>\<open>decryptMsg\<close> throws an
  exception it does not catch, and exactly 16 arbitrary bytes are the empty message.
\<close>

lemma decrypt_short_packet:
  assumes "24 \<le> length buf"
  shows "length buf < 40 \<Longrightarrow> decryptMsg B key buf = Inl Length_Error"
    and "length buf = 40 \<Longrightarrow> decryptMsg B key buf = Inr (Some [])"
  using assms
  by (auto simp: decryptMsg_def sodDecryptSym_def crypto_secretbox_NONCEBYTES_def crypto_secretbox_MACBYTES_def
      less_diff_conv2 Let_def)

section \<open>Properties\<close>

text \<open>
  C22. No nonce is used twice: of the packets encrypted one after the other with one nonce object, no
  two among fewer than \<open>2 ^ 32\<close> carry the same nonce.
\<close>

theorem nonces_do_not_repeat:
  assumes "nonce_wf n" and "length ms \<le> 2 ^ 32" and "i < j" and "j < length ms"
  shows "packet_nonce (snd (encrypt_all B key ms n) ! i) \<noteq> packet_nonce (snd (encrypt_all B key ms n) ! j)"
proof
  assume "packet_nonce (snd (encrypt_all B key ms n) ! i) = packet_nonce (snd (encrypt_all B key ms n) ! j)"
  then have "(nonce_increment ^^ i) n = (nonce_increment ^^ j) n"
    using assms by (simp add: encrypt_all_nth packet_nonce_encrypt nonce_wf_iterate nonce_toString_inj)
  then have "(word_of_nat i :: 32 word) = word_of_nat j"
    using nonce_counter[OF assms(1), of i] nonce_counter[OF assms(1), of j] by simp
  then have "unat (word_of_nat i :: 32 word) = unat (word_of_nat j :: 32 word)" by simp
  then show False using assms by (simp add: unat_of_nat take_bit_nat_eq_self)
qed

definition demo_box :: secretbox where
  "demo_box = \<lparr>crypto_secretbox_easy = (\<lambda>n k m. replicate 16 CHR ''t'' @ m),
     crypto_secretbox_open_easy = (\<lambda>n k c. Some (drop 16 c))\<rparr>"

theorem nonces_do_not_repeat_witness:
  "packet_nonce (snd (encrypt_all demo_box ''k'' [''a'', ''b''] (replicate 24 255)) ! 0)
     \<noteq> packet_nonce (snd (encrypt_all demo_box ''k'' [''a'', ''b''] (replicate 24 255)) ! 1)"
  by (rule nonces_do_not_repeat) (simp_all add: nonce_wf_def crypto_secretbox_NONCEBYTES_def)

end
