(* ===== verification/Siblings.thy ===== *)
theory Siblings
  imports Netmask Sod_Crypto
begin

text \<open>
  Replication peers (\<^verbatim>\<open>wforce-sibling.cc\<close>, \<^verbatim>\<open>wforce-sibling.hh\<close>): the \<^verbatim>\<open>Sibling\<close> object with its bounded
  send queue and its socket, the textual form of a sibling's address, and the vector of siblings
  with the operations that add, remove and replace its elements. What the operating system answers
  (name resolution, \<^verbatim>\<open>socket\<close>, \<^verbatim>\<open>connect\<close>, \<^verbatim>\<open>getsockname\<close>, the results of writes, random bytes) is the
  parameter \<open>S\<close> of type \<open>sib_env\<close> or a result passed to the call. The bytes written are kept in
  \<open>conns\<close>: one element for each TCP connection or UDP datagram, the newest first.
\<close>

section \<open>The sibling\<close>

datatype Protocol = UDP | TCP | NONE

definition defaultPort :: "16 word" where "defaultPort = 4001"

record Sibling =
  d_name :: string
  rem :: ComboAddress
  sockp :: bool
  conns :: "string list"
  proto :: Protocol
  connect_timeout :: int
  queue :: "string list"
  max_queue_size :: nat
  queue_thread_run :: bool
  sdb_send :: bool
  wlbl_send :: bool
  success :: "32 word"
  failures :: "32 word"
  rcvd_fail :: "32 word"
  rcvd_success :: "32 word"
  d_ignoreself :: bool
  d_has_key :: bool
  d_key :: string
  d_nonce :: SodiumNonce

record sib_env =
  getaddrinfo_host :: "string \<Rightarrow> string + ComboAddress list"
  socket_ok :: "ComboAddress \<Rightarrow> bool"
  connect_ok :: "ComboAddress \<Rightarrow> bool"
  local_name :: "ComboAddress \<Rightarrow> ComboAddress option"
  g_sibling_listen_addr :: ComboAddress
  random_nonce :: SodiumNonce
  sibling_connect_timeout :: int
  sibling_queue_size :: nat

definition setMaxSiblingSendQueueSize :: "nat \<Rightarrow> sib_env \<Rightarrow> sib_env" where
  "setMaxSiblingSendQueueSize queue_size S = S\<lparr>sibling_queue_size := queue_size\<rparr>"

definition setSiblingConnectTimeout :: "int \<Rightarrow> sib_env \<Rightarrow> sib_env" where
  "setSiblingConnectTimeout timeout S = S\<lparr>sibling_connect_timeout := timeout\<rparr>"

definition stringToProtocol :: "string \<Rightarrow> exn + Protocol" where
  "stringToProtocol s =
     (if s = ''tcp'' then Inr TCP
      else if s = ''udp'' then Inr UDP
      else if s = ''none'' then Inr NONE
      else if s = [] then Inr UDP
      else Inl (Wforce_Exception (''Sibling::stringToProtocol(): Unknown protocol '' @ s)))"

definition protocolToString :: "Protocol \<Rightarrow> string" where
  "protocolToString p = (case p of TCP \<Rightarrow> ''tcp'' | UDP \<Rightarrow> ''udp'' | NONE \<Rightarrow> ''none'')"

text \<open>A failing TCP connect (or keep-alive option) is caught and logged; the other errors leave the function.\<close>

definition connectSibling :: "sib_env \<Rightarrow> Sibling \<Rightarrow> (Sibling, unit) outcome" where
  "connectSibling S s =
     (if \<not> socket_ok S (rem s) then Exn Network_Error s
      else
        (let s1 = s\<lparr>sockp := True, conns := [] # conns s\<rparr>
         in if proto s = UDP \<and> \<not> connect_ok S (rem s) then Exn Network_Error s1 else Ret s1 ()))"

definition new_Sibling ::
    "sib_env \<Rightarrow> netlib \<Rightarrow> ComboAddress \<Rightarrow> Protocol \<Rightarrow> string \<Rightarrow> int \<Rightarrow> nat \<Rightarrow> bool \<Rightarrow> bool \<Rightarrow> exn + Sibling" where
  "new_Sibling S N ca p key timeout queue_size send_sdb send_wlbl =
     (let s = \<lparr>d_name = toStringWithPort N ca, rem = ca, sockp = False, conns = [], proto = p, connect_timeout = timeout,
               queue = [], max_queue_size = queue_size, queue_thread_run = True, sdb_send = send_sdb,
               wlbl_send = send_wlbl, success = 0, failures = 0, rcvd_fail = 0, rcvd_success = 0,
               d_ignoreself = False, d_has_key = (key \<noteq> []), d_key = key, d_nonce = random_nonce S\<rparr>
      in if p = NONE then Inr s
         else case connectSibling S s of
                Ret s1 _ \<Rightarrow> Inr s1
              | Exn e _ \<Rightarrow> Inl e
              | Undef \<Rightarrow> Inr s)"

definition checkIgnoreSelf :: "sib_env \<Rightarrow> ComboAddress \<Rightarrow> Sibling \<Rightarrow> Sibling" where
  "checkIgnoreSelf S ca s =
     (if proto s = NONE then s
      else case local_name S (rem s) of
             None \<Rightarrow> s
           | Some actualLocal \<Rightarrow>
               (if set_port (getPort ca) actualLocal = rem s then s\<lparr>d_ignoreself := True\<rparr> else s))"

section \<open>Sending\<close>

datatype write_result = Written | Write_Fails nat

definition put_wire :: "string \<Rightarrow> Sibling \<Rightarrow> Sibling" where
  "put_wire bs s = s\<lparr>conns := (case conns s of [] \<Rightarrow> [bs] | c # cs \<Rightarrow> (c @ bs) # cs)\<rparr>"

definition writen :: "write_result \<Rightarrow> string \<Rightarrow> Sibling \<Rightarrow> (Sibling, unit) outcome" where
  "writen r bytes s =
     (if bytes = [] then Ret s ()
      else case r of
             Written \<Rightarrow> Ret (put_wire bytes s) ()
           | Write_Fails n \<Rightarrow> Exn Network_Error (put_wire (take n bytes) s))"

text \<open>\<^verbatim>\<open>uint16_t nsize = htons(msg.length())\<close>, the two bytes sent before a message.\<close>

definition size_bytes :: "string \<Rightarrow> string" where
  "size_bytes msg =
     (let n = word_of_nat (length msg) :: 16 word in [char_of_byte (ucast (drop_bit 8 n)), char_of_byte (ucast n)])"

definition tcp_attempt :: "write_result \<times> write_result \<Rightarrow> string \<Rightarrow> Sibling \<Rightarrow> (Sibling, unit) outcome" where
  "tcp_attempt r msg s =
     obind (writen (fst r) (size_bytes msg) s) (\<lambda>s1 _.
     obind (writen (snd r) msg s1) (\<lambda>s2 _. Ret (s2\<lparr>success := success s2 + 1\<rparr>) ()))"

text \<open>The loop with \<open>k\<close> iterations left, in its iteration \<open>i\<close>; \<open>V i\<close> are the results of its two writes.\<close>

fun send_loop ::
    "sib_env \<Rightarrow> (nat \<Rightarrow> write_result \<times> write_result) \<Rightarrow> string \<Rightarrow> nat \<Rightarrow> nat \<Rightarrow> Sibling \<Rightarrow> (Sibling, unit) outcome" where
  "send_loop S V msg 0 i s = Ret s ()"
| "send_loop S V msg (Suc k) i s =
     (case tcp_attempt (V i) msg s of
        Ret s1 _ \<Rightarrow> Ret s1 ()
      | Exn e s1 \<Rightarrow>
          (if i = 0
           then obind (connectSibling S (s1\<lparr>failures := failures s1 + 1\<rparr>)) (\<lambda>s2 _. send_loop S V msg k (i + 1) s2)
           else send_loop S V msg k (i + 1) s1)
      | Undef \<Rightarrow> Undef)"

definition sib_send ::
    "sib_env \<Rightarrow> bool \<Rightarrow> (nat \<Rightarrow> write_result \<times> write_result) \<Rightarrow> string \<Rightarrow> Sibling \<Rightarrow> (Sibling, unit) outcome" where
  "sib_send S udp_sent V msg s =
     (if d_ignoreself s then Ret s ()
      else case proto s of
             UDP \<Rightarrow>
               (if udp_sent then Ret (s\<lparr>conns := msg # conns s, success := success s + 1\<rparr>) ()
                else Ret (s\<lparr>failures := failures s + 1\<rparr>) ())
           | TCP \<Rightarrow> send_loop S V msg 2 0 s
           | NONE \<Rightarrow> Ret s ())"

definition queueMsg :: "string \<Rightarrow> Sibling \<Rightarrow> Sibling" where
  "queueMsg msg s = (if max_queue_size s \<le> length (queue s) then s else s\<lparr>queue := queue s @ [msg]\<rparr>)"

text \<open>One iteration of the queue thread; \<open>None\<close> while it waits or when it has been told to stop.\<close>

definition queue_thread ::
    "sib_env \<Rightarrow> bool \<Rightarrow> (nat \<Rightarrow> write_result \<times> write_result) \<Rightarrow> Sibling \<Rightarrow> (Sibling, unit) outcome option" where
  "queue_thread S udp_sent V s =
     (if \<not> queue_thread_run s then None
      else case queue s of
             [] \<Rightarrow> None
           | msg # rest \<Rightarrow> Some (sib_send S udp_sent V msg (s\<lparr>queue := rest\<rparr>)))"

section \<open>Addresses of siblings\<close>

text \<open>\<^verbatim>\<open>boost::split\<close> and \<^verbatim>\<open>boost::join\<close> with a single separator.\<close>

fun split_on :: "char \<Rightarrow> string \<Rightarrow> string list" where
  "split_on c [] = [[]]"
| "split_on c (x # xs) =
     (if x = c then [] # split_on c xs
      else case split_on c xs of [] \<Rightarrow> [[x]] | w # ws \<Rightarrow> (x # w) # ws)"

fun join_with :: "char \<Rightarrow> string list \<Rightarrow> string" where
  "join_with c [] = []"
| "join_with c [w] = w"
| "join_with c (w # v # ws) = w @ c # join_with c (v # ws)"

definition siblingHostToAddress :: "sib_env \<Rightarrow> netlib \<Rightarrow> string \<Rightarrow> exn + string" where
  "siblingHostToAddress S N host =
     (case getaddrinfo_host S (c_str host) of
        Inl err \<Rightarrow> Inl (Wforce_Exception (''Error calling getaddrinfo() for sibling host: '' @ err))
      | Inr [] \<Rightarrow> Inl (Wforce_Exception (''Could not determine IP address for sibling host: '' @ host))
      | Inr (a # _) \<Rightarrow> Inr (ca_toString N a))"

definition createSiblingAddress :: "netlib \<Rightarrow> string \<Rightarrow> int \<Rightarrow> Protocol \<Rightarrow> exn + string" where
  "createSiblingAddress N host port p =
     (if CHR '':'' \<in> set host then
        (case new_ComboAddress N host (word_of_int port) of
           Inl e \<Rightarrow> Inl e
         | Inr ca \<Rightarrow> Inr (toStringWithPort N ca @ '':'' @ protocolToString p))
      else Inr (host @ '':'' @ int_to_string port @ '':'' @ protocolToString p))"

definition protocol_part :: "string \<Rightarrow> Protocol \<times> string" where
  "protocol_part str =
     (let sres = split_on CHR '':'' str
      in case stringToProtocol (last sres) of
           Inr p \<Rightarrow> (p, join_with CHR '':'' (butlast sres))
         | Inl _ \<Rightarrow> (UDP, str))"

definition parseSiblingString :: "sib_env \<Rightarrow> netlib \<Rightarrow> string \<Rightarrow> exn + (ComboAddress \<times> Protocol)" where
  "parseSiblingString S N str =
     (case protocol_part str of (p, host_port) \<Rightarrow>
       (let sres = split_on CHR '':'' host_port;
            address =
              (if length sres = 1 then siblingHostToAddress S N (sres ! 0)
               else if length sres = 2 then
                 (case siblingHostToAddress S N (sres ! 0) of
                    Inl e \<Rightarrow> Inl e
                  | Inr a \<Rightarrow> Inr (a @ '':'' @ sres ! 1))
               else Inr host_port)
        in case address of
             Inl e \<Rightarrow> Inl e
           | Inr a \<Rightarrow>
               (case new_ComboAddress N a defaultPort of Inl e \<Rightarrow> Inl e | Inr ca \<Rightarrow> Inr (ca, p))))"

section \<open>The vector of siblings\<close>

text \<open>
  The operations return whether they succeeded and what they append to the output buffer. Only
  \<^verbatim>\<open>WforceException\<close> (of which \<^verbatim>\<open>NetmaskException\<close> is a subclass) is caught.
\<close>

definition siblingAddressPortExists :: "ComboAddress \<Rightarrow> Sibling list \<Rightarrow> bool" where
  "siblingAddressPortExists address v = list_ex (\<lambda>s. rem s = address) v"

fun exn_reason :: "exn \<Rightarrow> string" where
  "exn_reason (Wforce_Exception r) = r"
| "exn_reason (Netmask_Exception r) = r"
| "exn_reason _ = []"

definition parse_error :: "string \<Rightarrow> string \<Rightarrow> exn \<Rightarrow> string" where
  "parse_error what address e =
     what @ '' error parsing address/port ['' @ address @ '']. Make sure to use IP addresses not hostnames ('' @ exn_reason e @ '')''"

fun remove_first :: "ComboAddress \<Rightarrow> Sibling list \<Rightarrow> Sibling list \<times> bool" where
  "remove_first ca [] = ([], False)"
| "remove_first ca (s # v) =
     (if rem s = ca then (v, True) else (case remove_first ca v of (v', r) \<Rightarrow> (s # v', r)))"

definition removeSibling :: "sib_env \<Rightarrow> netlib \<Rightarrow> string \<Rightarrow> Sibling list \<Rightarrow> Sibling list \<times> bool \<times> string" where
  "removeSibling S N address v =
     (case parseSiblingString S N address of
        Inl e \<Rightarrow> (v, False, parse_error ''removeSibling()'' address e)
      | Inr (ca, p) \<Rightarrow> (case remove_first ca v of (v', r) \<Rightarrow> (v', r, [])))"

definition removeSibling_host ::
    "sib_env \<Rightarrow> netlib \<Rightarrow> string \<Rightarrow> int \<Rightarrow> Sibling list \<Rightarrow> (Sibling list, bool \<times> string) outcome" where
  "removeSibling_host S N host port v =
     (case createSiblingAddress N host port UDP of
        Inl e \<Rightarrow> Exn e v
      | Inr address \<Rightarrow> (case removeSibling S N address v of (v', r) \<Rightarrow> Ret v' r))"

definition addSibling_ptr :: "netlib \<Rightarrow> Sibling \<Rightarrow> Sibling list \<Rightarrow> Sibling list \<times> bool \<times> string" where
  "addSibling_ptr N sibling v =
     (if siblingAddressPortExists (rem sibling) v
      then (v, False, ''addSibling() cannot add duplicate sibling ['' @ toStringWithPort N (rem sibling) @ '']'')
      else (v @ [sibling], True, []))"

definition addSiblingWithKey ::
    "sib_env \<Rightarrow> netlib \<Rightarrow> string \<Rightarrow> string \<Rightarrow> bool \<Rightarrow> bool \<Rightarrow> Sibling list \<Rightarrow> (Sibling list, bool \<times> string) outcome" where
  "addSiblingWithKey S N address key send_sdb send_wlbl v =
     (case B64Decode key [] of
        Undef \<Rightarrow> Undef
      | Exn e _ \<Rightarrow> Exn e v
      | Ret raw_key ret \<Rightarrow>
          (if ret < 0 then Ret v (False, ''Unable to decode '' @ key @ '' as Base64'')
           else case parseSiblingString S N address of
                  Inl e \<Rightarrow> Ret v (False, parse_error ''addSiblingWithKey()'' address e)
                | Inr (ca, p) \<Rightarrow>
                    (case new_Sibling S N ca p raw_key (sibling_connect_timeout S) (sibling_queue_size S)
                            send_sdb send_wlbl of
                       Inl e \<Rightarrow> Exn e v
                     | Inr sibling \<Rightarrow>
                         (case addSibling_ptr N (checkIgnoreSelf S (g_sibling_listen_addr S) sibling) v of
                            (v', r) \<Rightarrow> Ret v' r))))"

definition addSiblingWithKey_host where
  "addSiblingWithKey_host S N host port p key send_sdb send_wlbl v =
     (case createSiblingAddress N host port p of
        Inl e \<Rightarrow> Exn e v
      | Inr address \<Rightarrow> addSiblingWithKey S N address key send_sdb send_wlbl v)"

definition addSibling where
  "addSibling S N address send_sdb send_wlbl v = addSiblingWithKey S N address [] send_sdb send_wlbl v"

definition addSibling_host where
  "addSibling_host S N host port p send_sdb send_wlbl v =
     (case createSiblingAddress N host port p of
        Inl e \<Rightarrow> Exn e v
      | Inr address \<Rightarrow> addSibling S N address send_sdb send_wlbl v)"

definition tolower_c :: "char \<Rightarrow> char" where
  "tolower_c c = (let n = of_char c :: nat in if 65 \<le> n \<and> n \<le> 90 then char_of (n + 32) else c)"

definition toBool :: "string \<Rightarrow> bool" where
  "toBool bool_str = (take 4 (dropWhile isspace_c (map tolower_c bool_str)) = ''true'')"

text \<open>
  The first loop of \<^verbatim>\<open>setSiblingsWithKey\<close>: \<open>Some\<close> is the text of the error it returns with. An element
  without an address is read out of range.
\<close>

fun check_parts :: "sib_env \<Rightarrow> netlib \<Rightarrow> string list list \<Rightarrow> (unit, string option) outcome" where
  "check_parts S N [] = Ret () None"
| "check_parts S N (p # ps) =
     (if p = [] then Undef
      else case parseSiblingString S N (p ! 0) of
             Inl e \<Rightarrow>
               Ret () (Some (''setSiblings() error parsing address/port ['' @ p ! 0 @ '']. Reason:  ('' @ exn_reason e @ '')''))
           | Inr _ \<Rightarrow>
               (if length p \<noteq> 2 \<and> length p \<noteq> 4 then
                  Ret () (Some ''Invalid number of args - was expecting 2 args (sibling address & key) or 4 (sibling address, key, replicate sdb, replicate wlbl)'')
                else case B64Decode (p ! 1) [] of
                       Undef \<Rightarrow> Undef
                     | Exn e _ \<Rightarrow> Exn e ()
                     | Ret _ ret \<Rightarrow>
                         (if ret < 0 then Ret () (Some (''Unable to decode '' @ p ! 1 @ '' as Base64''))
                          else check_parts S N ps)))"

text \<open>The second loop; \<open>v\<close> is the vector built so far.\<close>

fun build_siblings :: "sib_env \<Rightarrow> netlib \<Rightarrow> string list list \<Rightarrow> Sibling list \<Rightarrow> exn + Sibling list" where
  "build_siblings S N [] v = Inr v"
| "build_siblings S N (p # ps) v =
     (let raw_key = (case B64Decode (p ! 1) [] of Ret k _ \<Rightarrow> k | Exn _ k \<Rightarrow> k | Undef \<Rightarrow> []);
          send_sdb = (if length p = 4 then toBool (p ! 2) else True);
          send_wlbl = (if length p = 4 then toBool (p ! 3) else True)
      in case parseSiblingString S N (p ! 0) of
           Inl e \<Rightarrow> Inl e
         | Inr (ca, pr) \<Rightarrow>
             (if list_ex (\<lambda>s. rem s = ca) v then build_siblings S N ps v
              else case new_Sibling S N ca pr raw_key (sibling_connect_timeout S) (sibling_queue_size S)
                          send_sdb send_wlbl of
                     Inl e \<Rightarrow> Inl e
                   | Inr sibling \<Rightarrow>
                       build_siblings S N ps (v @ [checkIgnoreSelf S (g_sibling_listen_addr S) sibling])))"

definition setSiblingsWithKey ::
    "sib_env \<Rightarrow> netlib \<Rightarrow> string list list \<Rightarrow> Sibling list \<Rightarrow> (Sibling list, bool \<times> string) outcome" where
  "setSiblingsWithKey S N parts siblings =
     (case check_parts S N parts of
        Undef \<Rightarrow> Undef
      | Exn e _ \<Rightarrow> Exn e siblings
      | Ret _ (Some err) \<Rightarrow> Ret siblings (False, err)
      | Ret _ None \<Rightarrow>
          (case build_siblings S N parts [] of
             Inl e \<Rightarrow> Exn e siblings
           | Inr v \<Rightarrow> Ret v (True, [])))"

definition setSiblings ::
    "sib_env \<Rightarrow> netlib \<Rightarrow> string list \<Rightarrow> Sibling list \<Rightarrow> (Sibling list, bool \<times> string) outcome" where
  "setSiblings S N parts siblings = setSiblingsWithKey S N (map (\<lambda>a. [a, []]) parts) siblings"

section \<open>The send queue\<close>

interpretation send_queue: bounded_queue queue max_queue_size queueMsg
  by unfold_locales (auto simp: queueMsg_def)

lemma fold_queueMsg_other: "fold queueMsg xs s = s\<lparr>queue := queue (fold queueMsg xs s)\<rparr>"
proof (induction xs arbitrary: s)
  case (Cons x xs)
  have "fold queueMsg xs (queueMsg x s) = (queueMsg x s)\<lparr>queue := queue (fold queueMsg xs (queueMsg x s))\<rparr>"
    by (rule Cons.IH)
  then show ?case by (simp add: queueMsg_def[of x s] split: if_splits)
qed simp

section \<open>Sending over TCP\<close>

lemma size_bytes_length [simp]: "length (size_bytes msg) = 2"
  by (simp add: size_bytes_def Let_def)

lemma size_bytes_not_Nil [simp]: "size_bytes msg \<noteq> []"
  by (simp add: size_bytes_def Let_def)

definition frame_of :: "string \<Rightarrow> string" where
  "frame_of msg = size_bytes msg @ msg"

lemma tcp_attempt_ok:
  "conns s = c # cs \<Longrightarrow>
   tcp_attempt (Written, Written) msg s = Ret (s\<lparr>conns := (c @ frame_of msg) # cs, success := success s + 1\<rparr>) ()"
  by (cases "msg = []") (simp_all add: tcp_attempt_def writen_def put_wire_def frame_of_def)

lemma send_ok:
  assumes "proto s = TCP" and "\<not> d_ignoreself s" and "conns s = c # cs" and "V 0 = (Written, Written)"
  shows "sib_send S u V msg s = Ret (s\<lparr>conns := (c @ frame_of msg) # cs, success := success s + 1\<rparr>) ()"
  using assms tcp_attempt_ok[OF assms(3)] by (simp add: sib_send_def numeral_2_eq_2)

text \<open>The queue thread run until the queue is empty, with every write succeeding.\<close>

fun drain :: "sib_env \<Rightarrow> nat \<Rightarrow> Sibling \<Rightarrow> Sibling option" where
  "drain S 0 s = (if queue s = [] then Some s else None)"
| "drain S (Suc n) s =
     (case queue_thread S True (\<lambda>_. (Written, Written)) s of
        Some (Ret s1 _) \<Rightarrow> drain S n s1
      | None \<Rightarrow> Some s
      | _ \<Rightarrow> None)"

lemma drain_tcp:
  assumes "proto s = TCP" "\<not> d_ignoreself s" "queue_thread_run s" "conns s = c # cs" "length (queue s) \<le> n"
  shows "drain S n s = Some (s\<lparr>queue := [], conns := (c @ concat (map frame_of (queue s))) # cs,
    success := success s + word_of_nat (length (queue s))\<rparr>)"
  using assms
proof (induction n arbitrary: s c)
  case (Suc n)
  show ?case
  proof (cases "queue s")
    case Nil
    then show ?thesis using Suc.prems by (simp add: queue_thread_def)
  next
    case (Cons m q)
    let ?s = "s\<lparr>queue := q, conns := (c @ frame_of m) # cs, success := success s + 1\<rparr>"
    have "queue_thread S True (\<lambda>_. (Written, Written)) s = Some (Ret ?s ())"
      using Suc.prems Cons send_ok[of "s\<lparr>queue := q\<rparr>" c cs] by (simp add: queue_thread_def)
    then show ?thesis
      using Suc.IH[of ?s "c @ frame_of m"] Suc.prems Cons by (simp add: add_ac)
  qed
qed simp

section \<open>The vector\<close>

definition distinct_rems :: "Sibling list \<Rightarrow> bool" where
  "distinct_rems v = distinct (map rem v)"

lemma exists_iff: "siblingAddressPortExists ca v \<longleftrightarrow> ca \<in> set (map rem v)"
  by (auto simp: siblingAddressPortExists_def list_ex_iff)

lemma connectSibling_rem: "connectSibling S s = Ret s' u \<Longrightarrow> rem s' = rem s"
  by (auto simp: connectSibling_def Let_def split: if_splits)

lemma new_Sibling_rem: "new_Sibling S N ca p key t q a b = Inr s \<Longrightarrow> rem s = ca"
  by (auto simp: new_Sibling_def Let_def split: if_splits outcome.splits dest: connectSibling_rem)

lemma checkIgnoreSelf_rem [simp]: "rem (checkIgnoreSelf S ca s) = rem s"
  by (auto simp: checkIgnoreSelf_def split: option.splits)

lemma remove_first_spec:
  "remove_first ca v = (v', r) \<Longrightarrow> distinct_rems v \<Longrightarrow>
   map rem v' = filter (\<lambda>a. a \<noteq> ca) (map rem v) \<and> (r \<longleftrightarrow> ca \<in> set (map rem v))"
proof (induction v arbitrary: v' r)
  case (Cons s v)
  show ?case
  proof (cases "rem s = ca")
    case True
    have "filter (\<lambda>a. a \<noteq> ca) (map rem v) = map rem v"
      using Cons.prems True by (intro filter_True) (force simp: distinct_rems_def)
    then show ?thesis using Cons.prems True by simp
  next
    case False
    obtain v1 r1 where "remove_first ca v = (v1, r1)" by fastforce
    then show ?thesis using Cons False by (auto simp: distinct_rems_def)
  qed
qed simp

lemma addSiblingWithKey_spec:
  assumes "addSiblingWithKey S N address key a b v = Ret v' (ok, out)"
  shows "(ok \<longrightarrow> (\<exists>ca p s. parseSiblingString S N address = Inr (ca, p) \<and> ca \<notin> set (map rem v) \<and> rem s = ca \<and> v' = v @ [s]))
    \<and> (\<not> ok \<longrightarrow> v' = v)"
  using assms
  by (auto simp: addSiblingWithKey_def addSibling_ptr_def exists_iff dest: new_Sibling_rem
      split: outcome.splits sum.splits if_splits prod.splits)

text \<open>The addresses of the parts, in order and without repetition.\<close>

definition part_address :: "sib_env \<Rightarrow> netlib \<Rightarrow> string list \<Rightarrow> ComboAddress" where
  "part_address S N p = (case parseSiblingString S N (p ! 0) of Inl _ \<Rightarrow> CA_None | Inr (ca, _) \<Rightarrow> ca)"

lemma build_siblings_spec:
  "build_siblings S N ps v = Inr v' \<Longrightarrow> distinct_rems v \<Longrightarrow>
   distinct_rems v' \<and> set (map rem v') = set (map rem v) \<union> part_address S N ` set ps"
proof (induction ps arbitrary: v)
  case (Cons p ps)
  then obtain ca pr where p: "parseSiblingString S N (p ! 0) = Inr (ca, pr)"
    by (auto simp: Let_def split: sum.splits)
  have pa: "part_address S N p = ca" by (simp add: part_address_def p)
  show ?case
  proof (cases "list_ex (\<lambda>s. rem s = ca) v")
    case True
    then have "ca \<in> rem ` set v" by (auto simp: list_ex_iff)
    then show ?thesis using Cons pa p True by auto
  next
    case False
    then obtain s0 k a b where s0: "new_Sibling S N ca pr k (sibling_connect_timeout S) (sibling_queue_size S) a b = Inr s0"
      and rest: "build_siblings S N ps (v @ [checkIgnoreSelf S (g_sibling_listen_addr S) s0]) = Inr v'"
      using Cons.prems p by (auto simp: Let_def split: sum.splits)
    let ?s = "checkIgnoreSelf S (g_sibling_listen_addr S) s0"
    have s: "rem ?s = ca" using new_Sibling_rem[OF s0] by simp
    have "distinct_rems (v @ [?s])" using False Cons.prems s by (auto simp: distinct_rems_def list_ex_iff)
    then show ?thesis using Cons.IH[OF rest] s pa by auto
  qed
qed simp

section \<open>Addresses as strings\<close>

lemma split_on_not_Nil [simp]: "split_on c s \<noteq> []"
  by (induction s) (auto split: list.splits)

lemma split_on_none: "c \<notin> set s \<Longrightarrow> split_on c s = [s]"
  by (induction s) auto

lemma split_on_append: "split_on c (a @ c # b) = split_on c a @ split_on c b"
proof (induction a)
  case (Cons x a)
  then show ?case by (cases "split_on c a") (auto split: list.splits)
qed simp

lemma join_split_on: "join_with c (split_on c s) = s"
proof (induction s)
  case (Cons x s)
  obtain w ws where w: "split_on c s = w # ws" by (cases "split_on c s") auto
  then show ?case using Cons by (cases ws) auto
qed simp

lemma split_on_length: "length (split_on c s) = Suc (count_list s c)"
  by (induction s) (auto split: list.splits)

lemma protocol_part_append: "protocol_part (x @ '':'' @ protocolToString p) = (p, x)"
proof -
  have c: "CHR '':'' \<notin> set (protocolToString p)" by (cases p) (auto simp: protocolToString_def)
  have "split_on CHR '':'' (x @ '':'' @ protocolToString p) = split_on CHR '':'' x @ [protocolToString p]"
    using split_on_append[of "CHR '':''" x "protocolToString p"] split_on_none[OF c] by simp
  moreover have "stringToProtocol (protocolToString p) = Inr p"
    by (cases p) (auto simp: stringToProtocol_def protocolToString_def)
  ultimately show ?thesis by (simp add: protocol_part_def join_split_on)
qed

lemma find_char_append: "c \<notin> set a \<Longrightarrow> find_char c (a @ c # b) = Some (length a)"
proof -
  assume "c \<notin> set a"
  then have "takeWhile (\<lambda>x. x \<noteq> c) (a @ c # b) = a" by (subst takeWhile_append2) auto
  then show ?thesis by (simp add: find_char_def)
qed

lemma atoi_nat_to_string: "n < 2 ^ 31 \<Longrightarrow> atoi (nat_to_string n) = int n"
  by (simp add: atoi_def Let_def sint_sbintrunc' signed_take_bit_int_eq_self_iff)

lemma strtol_all_nat: "n < 2 ^ 31 \<Longrightarrow> strtol_all (nat_to_string n) = Some (int n)"
proof -
  assume n: "n < 2 ^ 31"
  let ?ds = "nat_to_string n"
  have dig: "\<forall>c \<in> set ?ds. isdigit_c c" by (rule isdigit_nat_to_string)
  then have h: "isdigit_c (hd ?ds)" by simp
  have "dropWhile isspace_c ?ds = ?ds" using isdigit_plain[OF h] by (cases ?ds) auto
  then show ?thesis
    using isdigit_plain[OF h] dig atoi_nat_to_string[OF n]
    by (simp add: strtol_all_def c_str_digits[OF dig] list_all_iff Let_def)
qed

lemma no_colon_nat: "c \<in> {CHR '':'', CHR '']'', CHR ''[''} \<Longrightarrow> c \<notin> set (nat_to_string n)"
  using isdigit_nat_to_string[of n] by (auto simp: isdigit_c_def)

definition resolves_v4 :: "sib_env \<Rightarrow> netlib \<Rightarrow> string \<Rightarrow> 32 word \<Rightarrow> bool" where
  "resolves_v4 S N host a \<longleftrightarrow> CHR '':'' \<notin> set host \<and>
     (\<exists>t as. getaddrinfo_host S (c_str host) = Inr (CA_V4 a 0 # as) \<and> getnameinfo N (CA_V4 a 0) = Some t
        \<and> CHR '':'' \<notin> set t \<and> inet_aton N (c_str t) = Some a)"

lemma port_word: "n < 2 ^ 16 \<Longrightarrow> unat (word_of_nat n :: 16 word) = n"
  by (simp add: unat_of_nat take_bit_nat_eq_self)

lemma port_nonzero: "0 < n \<Longrightarrow> n < 2 ^ 16 \<Longrightarrow> (word_of_nat n :: 16 word) \<noteq> 0"
  using port_word[of n] by force

lemma new_ComboAddress_v4_port:
  assumes "CHR '':'' \<notin> set t" and "inet_aton N (c_str t) = Some a" and "0 < n" and "n < 2 ^ 16"
  shows "new_ComboAddress N (t @ '':'' @ nat_to_string n) d = Inr (CA_V4 a (word_of_nat n))"
proof -
  have f: "find_char CHR '':'' (t @ '':'' @ nat_to_string n) = Some (length t)"
    using find_char_append[OF assms(1)] by simp
  have c: "c_str (nat_to_string n) = nat_to_string n" using c_str_digits[OF isdigit_nat_to_string] .
  have "makeIPv4sockaddr N (t @ '':'' @ nat_to_string n) = (Some a, Some (word_of_nat n))"
    using assms f c strtol_all_nat[of n] by (simp add: makeIPv4sockaddr_def)
  then show ?thesis using port_nonzero[OF assms(3,4)] by (simp add: new_ComboAddress_def)
qed

lemma parse_created_v4:
  assumes r: "resolves_v4 S N host a" and port: "0 < n" "n < 2 ^ 16"
    and c: "createSiblingAddress N host (int n) p = Inr address"
  shows "parseSiblingString S N address = Inr (CA_V4 a (word_of_nat n), p)"
proof -
  obtain t as where t: "getaddrinfo_host S (c_str host) = Inr (CA_V4 a 0 # as)" "getnameinfo N (CA_V4 a 0) = Some t"
    "CHR '':'' \<notin> set t" "inet_aton N (c_str t) = Some a" and h: "CHR '':'' \<notin> set host"
    using r by (auto simp: resolves_v4_def)
  let ?hp = "host @ '':'' @ nat_to_string n"
  have addr: "address = ?hp @ '':'' @ protocolToString p"
    using c h by (simp add: createSiblingAddress_def int_to_string_def)
  have split: "split_on CHR '':'' ?hp = [host, nat_to_string n]"
    using split_on_append[of "CHR '':''" host "nat_to_string n"] h
    by (simp add: split_on_none no_colon_nat)
  have host: "siblingHostToAddress S N host = Inr t"
    by (simp add: siblingHostToAddress_def t ca_toString_def)
  have "protocol_part address = (p, ?hp)" unfolding addr by (rule protocol_part_append)
  then show ?thesis
    using split host new_ComboAddress_v4_port[OF t(3,4) port, of defaultPort]
    by (simp add: parseSiblingString_def)
qed

text \<open>An IPv6 literal that the C library can print and read back.\<close>

definition literal_v6 :: "netlib \<Rightarrow> string \<Rightarrow> 8 word list \<Rightarrow> 16 word \<Rightarrow> bool" where
  "literal_v6 N host bs port \<longleftrightarrow> CHR '':'' \<in> set host \<and> hd host \<noteq> CHR ''['' \<and> makeIPv4sockaddr N host = (None, None)
     \<and> inet_pton6 N (c_str host) = Some bs
     \<and> (\<exists>t. getnameinfo N (CA_V6 bs port) = Some t \<and> CHR '':'' \<in> set t \<and> CHR '']'' \<notin> set t
          \<and> c_str t = t \<and> inet_pton6 N t = Some bs)"

lemma isspace_bracket: "\<not> isspace_c CHR '']''" and isdigit_bracket: "\<not> isdigit_c CHR '']''"
  by (simp_all add: isspace_c_def isdigit_c_def)

lemma strtol_all_digits: "strtol_all s = Some v \<Longrightarrow> CHR '']'' \<in> set (c_str s) \<Longrightarrow> False"
proof -
  assume s: "strtol_all s = Some v" and b: "CHR '']'' \<in> set (c_str s)"
  let ?t = "dropWhile isspace_c (c_str s)"
  have "CHR '']'' \<in> set ?t"
    using b set_dropWhileD takeWhile_dropWhile_id[of isspace_c "c_str s"]
    by (metis Un_iff isspace_bracket set_append set_takeWhileD)
  then have "CHR '']'' \<in> set (if ?t \<noteq> [] \<and> (hd ?t = CHR ''-'' \<or> hd ?t = CHR ''+'') then tl ?t else ?t)"
    by (cases ?t) auto
  then show False
    using s isdigit_bracket by (auto simp: strtol_all_def Let_def list_all_iff split: if_splits)
qed

lemma c_str_append: "c_str a = a \<Longrightarrow> c_str (a @ b) = a @ c_str b"
  by (simp add: c_str_def takeWhile_append2 takeWhile_eq_all_conv)

lemma c_str_drop: "c_str s = s \<Longrightarrow> c_str (drop n s) = drop n s"
  by (auto simp: c_str_def takeWhile_eq_all_conv dest: in_set_dropD)

lemma makeIPv4_bracketed:
  assumes "CHR '':'' \<in> set t" and "c_str t = t"
  shows "makeIPv4sockaddr N (CHR ''['' # t @ CHR '']'' # r) = (None, None)"
proof -
  obtain a b where ab: "t = a @ CHR '':'' # b" "CHR '':'' \<notin> set a" using split_list_first[OF assms(1)] by blast
  let ?str = "CHR ''['' # t @ CHR '']'' # r"
  have f: "find_char CHR '':'' ?str = Some (length a + 1)"
    using find_char_append[of "CHR '':''" "CHR ''['' # a" "b @ CHR '']'' # r"] ab by simp
  have rest: "drop (length a + 1 + 1) ?str = b @ CHR '']'' # r" by (simp add: ab)
  have "c_str b = b" using c_str_drop[OF assms(2), of "Suc (length a)"] by (simp add: ab)
  then have "c_str (b @ CHR '']'' # r) = b @ CHR '']'' # c_str r"
    by (simp add: c_str_append) (simp add: c_str_def)
  then have "strtol_all (b @ CHR '']'' # r) = None"
    using strtol_all_digits[of "b @ CHR '']'' # r"] by (cases "strtol_all (b @ CHR '']'' # r)") auto
  then show ?thesis unfolding makeIPv4sockaddr_def f rest option.case by simp
qed

lemma makeIPv6_bracketed:
  assumes "CHR '']'' \<notin> set t" and "c_str t = t" and "inet_pton6 N t = Some bs" and "n < 2 ^ 16"
  shows "makeIPv6sockaddr N (CHR ''['' # t @ '']:'' @ nat_to_string n) = Some (bs, Some (word_of_nat n))"
proof -
  let ?str = "CHR ''['' # t @ '']:'' @ nat_to_string n"
  have f: "find_char CHR '']'' ?str = Some (Suc (length t))"
    using find_char_append[of "CHR '']''" "CHR ''['' # t" "CHR '':'' # nat_to_string n"] assms(1) by simp
  have n: "atoi (nat_to_string n) = int n" using assms(4) atoi_nat_to_string by simp
  have at: "?str ! (Suc (length t) + 1) = CHR '':''" by (simp add: nth_append)
  have dr: "drop (Suc (length t) + 2) ?str = nat_to_string n" by simp
  show ?thesis
    using assms n f at dr by (simp add: makeIPv6sockaddr_def nth_append)
qed

lemma parse_created_v6:
  assumes r: "literal_v6 N host bs (word_of_nat n)" and port: "0 < n" "n < 2 ^ 16"
    and c: "createSiblingAddress N host (int n) p = Inr address"
  shows "parseSiblingString S N address = Inr (CA_V6 bs (word_of_nat n), p)"
proof -
  obtain t where t: "getnameinfo N (CA_V6 bs (word_of_nat n)) = Some t" "CHR '':'' \<in> set t" "CHR '']'' \<notin> set t"
    "c_str t = t" "inet_pton6 N t = Some bs" and h: "CHR '':'' \<in> set host" "hd host \<noteq> CHR ''[''"
    "makeIPv4sockaddr N host = (None, None)" "inet_pton6 N (c_str host) = Some bs"
    using r by (auto simp: literal_v6_def)
  let ?hp = "CHR ''['' # t @ '']:'' @ nat_to_string n"
  have ca: "new_ComboAddress N host (word_of_nat n) = Inr (CA_V6 bs (word_of_nat n))"
    using h by (auto simp: new_ComboAddress_def makeIPv6sockaddr_def)
  have addr: "address = ?hp @ '':'' @ protocolToString p"
    using c h ca port port_word[of n] t(1) by (simp add: createSiblingAddress_def toStringWithPort_def ca_toString_def)
  have "count_list t CHR '':'' \<noteq> 0" using t(2) by (simp add: count_list_0_iff)
  then have len: "length (split_on CHR '':'' ?hp) \<noteq> 1" "length (split_on CHR '':'' ?hp) \<noteq> 2"
    unfolding split_on_length by auto
  have parse: "new_ComboAddress N ?hp defaultPort = Inr (CA_V6 bs (word_of_nat n))"
    using makeIPv4_bracketed[OF t(2,4), of N "CHR '':'' # nat_to_string n"] makeIPv6_bracketed[OF t(3,4,5) port(2)]
      port_nonzero[OF port] by (simp add: new_ComboAddress_def)
  have "protocol_part address = (p, ?hp)" unfolding addr by (rule protocol_part_append)
  then show ?thesis unfolding parseSiblingString_def using len parse by (simp del: split_on.simps)
qed

section \<open>Properties\<close>

text \<open>
  The vector of siblings is a set of address-and-port pairs: the operations keep the pairs distinct,
  an addition that succeeds appends exactly the parsed address, a removal succeeds exactly when the
  address was there and removes it alone, replacing the vector leaves exactly the addresses given,
  and an operation that reports failure changes nothing.
\<close>

lemma sibling_vector_is_a_set:
  assumes d: "distinct_rems v"
  shows "(\<forall>v' ok out. addSiblingWithKey S N address key a b v = Ret v' (ok, out) \<longrightarrow>
           distinct_rems v' \<and> (if ok then (\<exists>ca p. parseSiblingString S N address = Inr (ca, p) \<and> ca \<notin> set (map rem v)
              \<and> map rem v' = map rem v @ [ca]) else v' = v))
    \<and> (\<forall>v' ok out. removeSibling S N address v = (v', ok, out) \<longrightarrow>
           distinct_rems v' \<and> (if ok then (\<exists>ca p. parseSiblingString S N address = Inr (ca, p) \<and> ca \<in> set (map rem v)
              \<and> map rem v' = filter (\<lambda>x. x \<noteq> ca) (map rem v)) else map rem v' = map rem v))
    \<and> (\<forall>v' ok out. setSiblingsWithKey S N parts v = Ret v' (ok, out) \<longrightarrow>
           (if ok then distinct_rems v' \<and> set (map rem v') = part_address S N ` set parts else v' = v))"
proof (intro conjI allI impI)
  fix v' ok out
  assume "addSiblingWithKey S N address key a b v = Ret v' (ok, out)"
  note s = addSiblingWithKey_spec[OF this]
  show "distinct_rems v'" using s d by (cases ok) (auto simp: distinct_rems_def)
  show "if ok then \<exists>ca p. parseSiblingString S N address = Inr (ca, p) \<and> ca \<notin> set (map rem v)
              \<and> map rem v' = map rem v @ [ca] else v' = v"
    using s by (cases ok) auto
next
  fix v' ok out
  assume r: "removeSibling S N address v = (v', ok, out)"
  then have "(parseSiblingString S N address = Inl e \<Longrightarrow> v' = v \<and> \<not> ok)" for e by (simp add: removeSibling_def)
  moreover have "map rem v' = filter (\<lambda>x. x \<noteq> ca) (map rem v) \<and> (ok \<longleftrightarrow> ca \<in> set (map rem v))"
    if "parseSiblingString S N address = Inr (ca, p)" for ca p
    using that r remove_first_spec[OF _ d, of ca] by (auto simp: removeSibling_def split: prod.splits)
  ultimately have *: "(v' = v \<and> \<not> ok) \<or> (\<exists>ca p. parseSiblingString S N address = Inr (ca, p)
      \<and> map rem v' = filter (\<lambda>x. x \<noteq> ca) (map rem v) \<and> (ok \<longleftrightarrow> ca \<in> set (map rem v)))"
    by (cases "parseSiblingString S N address") auto
  then show "distinct_rems v'" using d by (auto simp: distinct_rems_def)
  have "filter (\<lambda>x. x \<noteq> ca) (map rem v) = map rem v" if "ca \<notin> set (map rem v)" for ca
    using that by (intro filter_True) auto
  then show "if ok then \<exists>ca p. parseSiblingString S N address = Inr (ca, p) \<and> ca \<in> set (map rem v)
              \<and> map rem v' = filter (\<lambda>x. x \<noteq> ca) (map rem v) else map rem v' = map rem v"
    using * by (cases ok) auto
next
  fix v' ok out
  assume "setSiblingsWithKey S N parts v = Ret v' (ok, out)"
  then show "if ok then distinct_rems v' \<and> set (map rem v') = part_address S N ` set parts else v' = v"
    using build_siblings_spec[of S N parts "[]" v']
    by (auto simp: setSiblingsWithKey_def distinct_rems_def split: outcome.splits option.splits sum.splits)
qed

definition demo_sib :: sib_env where
  "demo_sib = \<lparr>getaddrinfo_host = (\<lambda>h. if h = ''10.0.0.0'' then Inr [CA_V4 0x0A000000 0]
       else if h = ''six'' then Inr [CA_V6 (replicate 16 1) 0] else Inl ''not known''),
     socket_ok = (\<lambda>_. True), connect_ok = (\<lambda>_. True), local_name = (\<lambda>_. None), g_sibling_listen_addr = CA_None,
     random_nonce = replicate 24 0, sibling_connect_timeout = 5000, sibling_queue_size = 5000\<rparr>"

lemma demo_parse: "parseSiblingString demo_sib demo_net ''10.0.0.0:4001:tcp'' = Inr (CA_V4 0x0A000000 4001, TCP)"
proof (rule parse_created_v4[where n = 4001 and host = "''10.0.0.0''", simplified])
  show "resolves_v4 demo_sib demo_net ''10.0.0.0'' 0x0A000000"
    by (simp add: resolves_v4_def demo_sib_def demo_net_def c_str_def)
  show "createSiblingAddress demo_net ''10.0.0.0'' 4001 TCP = Inr ''10.0.0.0:4001:tcp''"
    by (simp add: createSiblingAddress_def int_to_string_def protocolToString_def nat_to_string.simps digit_char_def
        char_of_def bit_iff_odd)
qed

lemma demo_sib_add:
  "\<exists>v. addSiblingWithKey demo_sib demo_net ''10.0.0.0:4001:tcp'' [] True True [] = Ret v (True, [])"
  by (simp add: addSiblingWithKey_def B64Decode_def demo_parse new_Sibling_def connectSibling_def)
    (simp add: demo_sib_def addSibling_ptr_def siblingAddressPortExists_def)

text \<open>
  The textual form of a sibling's address can be read back: for a host that resolves to an IPv4
  address, or an IPv6 literal, and a port from 1 to 65535, parsing what \<^verbatim>\<open>createSiblingAddress\<close> builds
  gives the address, the port and the protocol. The hypotheses \<open>resolves_v4\<close> and \<open>literal_v6\<close> say that
  the C library reads back the numeric form it prints.
\<close>

lemma sibling_address_roundtrip:
  assumes "createSiblingAddress N host (int n) p = Inr address" and "0 < n" and "n < 2 ^ 16"
  shows "(resolves_v4 S N host a \<longrightarrow> parseSiblingString S N address = Inr (CA_V4 a (word_of_nat n), p))
    \<and> (literal_v6 N host bs (word_of_nat n) \<longrightarrow> parseSiblingString S N address = Inr (CA_V6 bs (word_of_nat n), p))"
  using parse_created_v4[OF _ assms(2,3,1)] parse_created_v6[OF _ assms(2,3,1)] by blast

text \<open>
  A host name that resolves to an IPv6 address, given with a port, is connected to the wrong
  address: the port is glued to the numeric address without brackets, is read as its last group, and
  the port becomes the default one.
\<close>

lemma hostname_v6_port_misread:
  assumes "CHR '':'' \<notin> set host" and "getaddrinfo_host S (c_str host) = Inr (CA_V6 bs 0 # as)"
    and "getnameinfo N (CA_V6 bs 0) = Some t" and "hd t \<noteq> CHR ''[''"
    and "makeIPv4sockaddr N (t @ '':'' @ nat_to_string n) = (None, None)"
    and "inet_pton6 N (c_str (t @ '':'' @ nat_to_string n)) = Some bs'"
  shows "parseSiblingString S N (host @ '':'' @ nat_to_string n @ '':'' @ protocolToString p) = Inr (CA_V6 bs' defaultPort, p)"
proof -
  let ?hp = "host @ '':'' @ nat_to_string n"
  have split: "split_on CHR '':'' ?hp = [host, nat_to_string n]"
    using split_on_append[of "CHR '':''" host "nat_to_string n"] assms(1) by (simp add: split_on_none no_colon_nat)
  have host: "siblingHostToAddress S N host = Inr t"
    by (simp add: siblingHostToAddress_def assms ca_toString_def)
  have "hd (t @ '':'' @ nat_to_string n) \<noteq> CHR ''[''" using assms(4) by (cases t) auto
  then have "new_ComboAddress N (t @ '':'' @ nat_to_string n) defaultPort = Inr (CA_V6 bs' defaultPort)"
    using assms(5,6) by (simp add: new_ComboAddress_def makeIPv6sockaddr_def)
  then show ?thesis
    using split host protocol_part_append[of ?hp p] by (simp add: parseSiblingString_def)
qed

definition demo_net6 :: netlib where
  "demo_net6 = demo_net\<lparr>getnameinfo := (\<lambda>_. Some ''101::101''),
     inet_pton6 := (\<lambda>s. if s = ''101::101:4001'' then Some (replicate 16 2) else None)\<rparr>"

text \<open>
  Messages queued for a TCP sibling are written in the order in which they were queued, each once,
  up to the capacity of the queue: what is queued beyond it is dropped, the queue is never longer than
  its maximum, and a queue thread whose writes succeed empties it within as many iterations as there
  are messages and puts exactly the frames of the messages on the connection.
\<close>

lemma queued_messages_are_sent_in_order:
  assumes "length (queue s) \<le> max_queue_size s" and "proto s = TCP" and "\<not> d_ignoreself s" and "queue_thread_run s"
    and "conns s = c # cs"
  shows "let q = queue s @ take (max_queue_size s - length (queue s)) xs in
     queue (fold queueMsg xs s) = q \<and> length q \<le> max_queue_size s
     \<and> (\<exists>s'. drain S (length q) (fold queueMsg xs s) = Some s' \<and> queue s' = []
          \<and> conns s' = (c @ concat (map frame_of q)) # cs)"
proof -
  let ?q = "queue s @ take (max_queue_size s - length (queue s)) xs"
  have within: "send_queue.within s" using assms(1) by (simp add: send_queue.within_def)
  have q: "queue (fold queueMsg xs s) = ?q" by (rule send_queue.offers_contents[OF within])
  have len: "length ?q \<le> max_queue_size s" using assms(1) by simp
  let ?s = "s\<lparr>queue := ?q\<rparr>"
  have "fold queueMsg xs s = ?s" using fold_queueMsg_other[of xs s] q by simp
  then have "drain S (length ?q) (fold queueMsg xs s) = Some (?s\<lparr>queue := [], conns := (c @ concat (map frame_of ?q)) # cs,
      success := success ?s + word_of_nat (length ?q)\<rparr>)"
    using drain_tcp[of ?s c cs "length ?q" S] assms by simp
  then show ?thesis using q len by simp
qed

definition demo_sibling :: Sibling where
  "demo_sibling = \<lparr>d_name = ''10.0.0.0:4001'', rem = CA_V4 0x0A000000 4001, sockp = True, conns = [[]], proto = TCP,
     connect_timeout = 5000, queue = [], max_queue_size = 1, queue_thread_run = True, sdb_send = True,
     wlbl_send = True, success = 0, failures = 0, rcvd_fail = 0, rcvd_success = 0, d_ignoreself = False,
     d_has_key = False, d_key = [], d_nonce = replicate 24 0\<rparr>"

end
