(* ===== verification/String_Code.thy ===== *)
theory String_Code
  imports Wf_Prelude
begin

text \<open>
  Self-delimiting encodings of values as strings, built from combinators. The development uses them
  to show that what is assumed about the generated protobuf code can be satisfied: a code is a pair of
  an encoder and a decoder that returns the value and the rest of the input.
\<close>

type_synonym 'a code = "('a \<Rightarrow> string) \<times> (string \<Rightarrow> ('a \<times> string) option)"

definition good :: "'a code \<Rightarrow> bool" where
  "good c \<longleftrightarrow> (\<forall>x r. snd c (fst c x @ r) = Some (x, r))"

lemma goodD: "good c \<Longrightarrow> snd c (fst c x @ r) = Some (x, r)"
  by (simp add: good_def)

definition nat_code :: "nat code" where
  "nat_code =
     (\<lambda>n. replicate n CHR ''a'' @ ''b'',
      \<lambda>s. let n = length (takeWhile (\<lambda>c. c = CHR ''a'') s)
          in case drop n s of [] \<Rightarrow> None | _ # r \<Rightarrow> Some (n, r))"

definition iso_code :: "('a \<Rightarrow> 'b) \<Rightarrow> ('b \<Rightarrow> 'a) \<Rightarrow> 'b code \<Rightarrow> 'a code" where
  "iso_code f g c = (\<lambda>x. fst c (f x), \<lambda>s. map_option (\<lambda>(y, r). (g y, r)) (snd c s))"

definition pair_code :: "'a code \<Rightarrow> 'b code \<Rightarrow> ('a \<times> 'b) code" where
  "pair_code c d =
     (\<lambda>(x, y). fst c x @ fst d y,
      \<lambda>s. case snd c s of
            None \<Rightarrow> None
          | Some (x, r) \<Rightarrow> (case snd d r of None \<Rightarrow> None | Some (y, r') \<Rightarrow> Some ((x, y), r')))"

fun read_n :: "'a code \<Rightarrow> nat \<Rightarrow> string \<Rightarrow> ('a list \<times> string) option" where
  "read_n c 0 s = Some ([], s)"
| "read_n c (Suc n) s =
     (case snd c s of
        None \<Rightarrow> None
      | Some (x, r) \<Rightarrow> (case read_n c n r of None \<Rightarrow> None | Some (xs, r') \<Rightarrow> Some (x # xs, r')))"

definition list_code :: "'a code \<Rightarrow> 'a list code" where
  "list_code c =
     (\<lambda>xs. fst nat_code (length xs) @ concat (map (fst c) xs),
      \<lambda>s. case snd nat_code s of None \<Rightarrow> None | Some (n, r) \<Rightarrow> read_n c n r)"

definition option_code :: "'a code \<Rightarrow> 'a option code" where
  "option_code c = iso_code (\<lambda>x. case x of None \<Rightarrow> [] | Some y \<Rightarrow> [y]) (\<lambda>l. case l of [] \<Rightarrow> None | y # _ \<Rightarrow> Some y) (list_code c)"

definition char_code :: "char code" where
  "char_code = (\<lambda>c. [c], \<lambda>s. case s of [] \<Rightarrow> None | c # r \<Rightarrow> Some (c, r))"

definition string_code :: "string code" where
  "string_code = list_code char_code"

definition word_code :: "'w::len word code" where
  "word_code = iso_code unat word_of_nat nat_code"

definition bool_code :: "bool code" where
  "bool_code = iso_code (\<lambda>b. if b then 1 else 0) (\<lambda>n. n = 1) nat_code"

lemma good_nat [simp]: "good nat_code"
proof -
  have "takeWhile (\<lambda>c. c = CHR ''a'') (replicate n CHR ''a'' @ CHR ''b'' # r) = replicate n CHR ''a''" for n r
    by (induction n) auto
  then show ?thesis by (simp add: good_def nat_code_def)
qed

lemma good_iso: "good c \<Longrightarrow> (\<And>x. g (f x) = x) \<Longrightarrow> good (iso_code f g c)"
  by (simp add: good_def iso_code_def)

lemma good_pair [simp]: "good c \<Longrightarrow> good d \<Longrightarrow> good (pair_code c d)"
  by (auto simp: good_def pair_code_def)

lemma read_n_concat: "good c \<Longrightarrow> read_n c (length xs) (concat (map (fst c) xs) @ r) = Some (xs, r)"
  by (induction xs) (auto simp: good_def)

lemma good_list [simp]: "good c \<Longrightarrow> good (list_code c)"
  unfolding list_code_def by (rule good_def[THEN iffD2]) (simp add: goodD[OF good_nat] read_n_concat)

lemma good_option [simp]: "good c \<Longrightarrow> good (option_code c)"
  by (simp add: option_code_def good_iso split: option.split)

lemma good_string [simp]: "good string_code"
proof -
  have "good char_code" by (simp add: good_def char_code_def)
  then show ?thesis by (simp add: string_code_def)
qed

lemma good_word [simp]: "good word_code"
  by (simp add: word_code_def good_iso)

lemma good_bool [simp]: "good bool_code"
  by (simp add: bool_code_def good_iso)

text \<open>A whole string encodes one value.\<close>

definition encode :: "'a code \<Rightarrow> 'a \<Rightarrow> string" where
  "encode c = fst c"

definition decode :: "'a code \<Rightarrow> string \<Rightarrow> 'a option" where
  "decode c s = map_option fst (snd c s)"

lemma decode_encode: "good c \<Longrightarrow> decode c (encode c x) = Some x"
  using goodD[of c x "[]"] by (simp add: decode_def encode_def)

end
