(* ===== verification/Replication.thy ===== *)
theory Replication
  imports TW_Wrapper BlackWhiteList Siblings String_Code
begin

text \<open>
  Replication (\<^verbatim>\<open>replication.cc\<close>, \<^verbatim>\<open>replication_sdb.cc\<close>, \<^verbatim>\<open>replication_bl.cc\<close>, \<^verbatim>\<open>replication_wl.cc\<close>,
  \<^verbatim>\<open>wforce-replication.cc\<close>): operations become messages, messages become packets for every sibling,
  packets arrive over UDP or TCP, wait in the receive queue and are applied to the databases and
  lists of the receiver. The generated protobuf code is the parameter \<open>C\<close>; \<open>codec_ok\<close> says that parsing
  a serialised message gives it back. A sibling that received something is named by its address and
  port, which identify it in the vector.
\<close>

section \<open>Messages\<close>

record WforceReplicationMsg =
  msg_rep_type :: RepType
  msg_rep_op :: string
  msg_forwarded :: "bool option"

record proto_codec =
  sdb_SerializeToString :: "SDBOperation \<Rightarrow> string"
  sdb_ParseFromString :: "string \<Rightarrow> SDBOperation option"
  bl_SerializeToString :: "BLOperation \<Rightarrow> string"
  bl_ParseFromString :: "string \<Rightarrow> BLOperation option"
  msg_SerializeToString :: "WforceReplicationMsg \<Rightarrow> string"
  msg_ParseFromString :: "string \<Rightarrow> bool \<times> WforceReplicationMsg"

definition codec_ok :: "proto_codec \<Rightarrow> bool" where
  "codec_ok C \<longleftrightarrow>
     (\<forall>m. sdb_ParseFromString C (sdb_SerializeToString C m) = Some m)
     \<and> (\<forall>m. bl_ParseFromString C (bl_SerializeToString C m) = Some m)
     \<and> (\<forall>m. msg_ParseFromString C (msg_SerializeToString C m) = (True, m))"

fun any_serialize :: "proto_codec \<Rightarrow> AnyReplicationOperation \<Rightarrow> string" where
  "any_serialize C (SDB_Rep m) = sdb_SerializeToString C m"
| "any_serialize C (BL_Rep m) = bl_SerializeToString C m"
| "any_serialize C (WL_Rep m) = bl_SerializeToString C m"

definition rep_serialize :: "proto_codec \<Rightarrow> ReplicationOperation \<Rightarrow> string" where
  "rep_serialize C r =
     (case rep_op r of
        None \<Rightarrow> []
      | Some op \<Rightarrow>
          msg_SerializeToString C
            \<lparr>msg_rep_type = obj_type r, msg_rep_op = any_serialize C op, msg_forwarded = Some (forwarded r)\<rparr>)"

definition sdb_unserialize :: "proto_codec \<Rightarrow> string \<Rightarrow> AnyReplicationOperation \<times> bool" where
  "sdb_unserialize C str =
     (case sdb_ParseFromString C str of Some m \<Rightarrow> (SDB_Rep m, True) | None \<Rightarrow> (SDB_Rep sdb_none, False))"

definition bl_unserialize :: "proto_codec \<Rightarrow> string \<Rightarrow> AnyReplicationOperation \<times> bool" where
  "bl_unserialize C str =
     (case bl_ParseFromString C str of
        Some m \<Rightarrow> (BL_Rep (bl_op (bl_op_type m) (bl_type m) (bl_key m) (get_ttl m) (get_reason m)), True)
      | None \<Rightarrow> (BL_Rep bl_none, False))"

definition wl_unserialize :: "proto_codec \<Rightarrow> string \<Rightarrow> AnyReplicationOperation \<times> bool" where
  "wl_unserialize C str =
     (case bl_ParseFromString C str of
        Some m \<Rightarrow> (WL_Rep (bl_op (bl_op_type m) (bl_type m) (bl_key m) (get_ttl m) (get_reason m)), True)
      | None \<Rightarrow> (BL_Rep bl_none, False))"

text \<open>
  \<^verbatim>\<open>ReplicationOperation::unserialize\<close> on the object \<open>r\<close>: the object and the return value. A message
  that cannot be parsed leaves the return value at its initial \<open>True\<close>.
\<close>

definition rep_unserialize :: "proto_codec \<Rightarrow> string \<Rightarrow> ReplicationOperation \<Rightarrow> ReplicationOperation \<times> bool" where
  "rep_unserialize C str r =
     (case msg_ParseFromString C str of (parsed, msg) \<Rightarrow>
        (let (r1, retval) =
           (if parsed then
              (case msg_rep_type msg of
                 SDBType \<Rightarrow>
                   (case sdb_unserialize C (msg_rep_op msg) of
                      (op, ok) \<Rightarrow> (r\<lparr>obj_type := SDBType, rep_op := Some op\<rparr>, ok))
               | BlacklistType \<Rightarrow>
                   (case bl_unserialize C (msg_rep_op msg) of
                      (op, ok) \<Rightarrow> (r\<lparr>obj_type := BlacklistType, rep_op := Some op\<rparr>, ok))
               | WhitelistType \<Rightarrow>
                   (case wl_unserialize C (msg_rep_op msg) of
                      (op, ok) \<Rightarrow> (r\<lparr>obj_type := WhitelistType, rep_op := Some op\<rparr>, ok))
               | NoneType \<Rightarrow> (r\<lparr>obj_type := NoneType\<rparr>, False))
            else (r, True))
         in (r1\<lparr>forwarded := (case msg_forwarded msg of None \<Rightarrow> False | Some b \<Rightarrow> b)\<rparr>, retval)))"

definition empty_ReplicationOperation :: ReplicationOperation where
  "empty_ReplicationOperation = \<lparr>rep_op = None, obj_type = NoneType, forwarded = False\<rparr>"

section \<open>Applying an operation\<close>

text \<open>The global state that operations act on: \<^verbatim>\<open>dbMap\<close>, \<^verbatim>\<open>g_bl_db\<close> and \<^verbatim>\<open>g_wl_db\<close>.\<close>

record wf_state =
  dbMap :: "(string \<times> TWStringStatsDBWrapper) list"
  g_bl_db :: BlackWhiteListDB
  g_wl_db :: BlackWhiteListDB

definition forget :: "('s, 'v) outcome \<Rightarrow> ('s, unit) outcome" where
  "forget m = obind m (\<lambda>s _. Ret s ())"

definition sdb_call ::
    "sk_env \<Rightarrow> netlib \<Rightarrow> int \<times> int \<times> int \<Rightarrow> SDBOperation \<Rightarrow> TWStringStatsDBWrapper \<Rightarrow> (TWStringStatsDBWrapper, unit) outcome" where
  "sdb_call E N ts m statsdb =
     (case sdb_op_type m of
        SDBOpSyncKey \<Rightarrow> wr_restoreEntry E (fst ts) (sdb_key m) (entry_of_sync (sdb_sync_fields m)) statsdb
      | SDBOpReset \<Rightarrow> forget (resetInternal N (TWStr (sdb_key m)) False statsdb)
      | SDBOpResetField \<Rightarrow>
          forget (resetFieldInternal N (TWStr (sdb_key m)) (case sdb_field_name m of None \<Rightarrow> [] | Some f \<Rightarrow> f) False statsdb)
      | SDBOpAdd \<Rightarrow>
          (case sdb_field_name m of
             None \<Rightarrow> Ret statsdb ()
           | Some f \<Rightarrow>
               (case (sdb_str_param m, sdb_int_param m) of
                  (Some s, Some a) \<Rightarrow> forget (addInternal E N ts (TWStr (sdb_key m)) f (TWStr s) (Some a) False statsdb)
                | (Some s, None) \<Rightarrow> forget (addInternal E N ts (TWStr (sdb_key m)) f (TWStr s) None False statsdb)
                | (None, Some a) \<Rightarrow> forget (addInternal E N ts (TWStr (sdb_key m)) f (TWInt a) None False statsdb)
                | (None, None) \<Rightarrow> Ret statsdb ()))
      | SDBOpSub \<Rightarrow>
          (case sdb_field_name m of
             None \<Rightarrow> Ret statsdb ()
           | Some f \<Rightarrow>
               (case (sdb_str_param m, sdb_int_param m) of
                  (Some s, _) \<Rightarrow> forget (subInternal E N ts (TWStr (sdb_key m)) f (SStr s) False statsdb)
                | (None, Some a) \<Rightarrow> forget (subInternal E N ts (TWStr (sdb_key m)) f (SInt a) False statsdb)
                | (None, None) \<Rightarrow> Ret statsdb ()))
      | SDBOpNone \<Rightarrow> Ret statsdb ())"

definition sdb_applyOperation ::
    "sk_env \<Rightarrow> netlib \<Rightarrow> int \<times> int \<times> int \<Rightarrow> SDBOperation \<Rightarrow> wf_state \<Rightarrow> (wf_state, unit) outcome" where
  "sdb_applyOperation E N ts m st =
     (if sdb_op_type m = SDBOpNone then Ret st ()
      else case map_of (dbMap st) (sdb_db_name m) of
             None \<Rightarrow> Ret st ()
           | Some statsdb \<Rightarrow>
               map_state (\<lambda>w. st\<lparr>dbMap := sm_assign (sdb_db_name m) w (dbMap st)\<rparr>) (sdb_call E N ts m statsdb))"

definition bl_applyOperation ::
    "redis_env \<Rightarrow> netlib \<Rightarrow> int \<times> int \<times> int \<Rightarrow> BLOperation \<Rightarrow> BlackWhiteListDB \<Rightarrow> (BlackWhiteListDB, unit) outcome" where
  "bl_applyOperation R N ts m db =
     (let ty = type_of_num (unat (bl_type m))
      in case bl_op_type m of
           BLAdd \<Rightarrow> addEntryInternal R N (fst ts, fst (snd ts)) (bl_key m) (get_ttl m) ty (get_reason m) False db
         | BLDelete \<Rightarrow> deleteEntryInternal R N (bl_key m) ty False db
         | BLNone \<Rightarrow> Ret db ())"

fun any_applyOperation ::
    "sk_env \<Rightarrow> redis_env \<Rightarrow> netlib \<Rightarrow> int \<times> int \<times> int \<Rightarrow> AnyReplicationOperation \<Rightarrow> wf_state \<Rightarrow> (wf_state, unit) outcome" where
  "any_applyOperation E R N ts (SDB_Rep m) st = sdb_applyOperation E N ts m st"
| "any_applyOperation E R N ts (BL_Rep m) st =
     map_state (\<lambda>db. st\<lparr>g_bl_db := db\<rparr>) (bl_applyOperation R N ts m (g_bl_db st))"
| "any_applyOperation E R N ts (WL_Rep m) st =
     map_state (\<lambda>db. st\<lparr>g_wl_db := db\<rparr>) (bl_applyOperation R N ts m (g_wl_db st))"

definition rep_applyOperation ::
    "sk_env \<Rightarrow> redis_env \<Rightarrow> netlib \<Rightarrow> int \<times> int \<times> int \<Rightarrow> ReplicationOperation \<Rightarrow> wf_state \<Rightarrow> (wf_state, unit) outcome" where
  "rep_applyOperation E R N ts r st =
     (case rep_op r of None \<Rightarrow> Ret st () | Some op \<Rightarrow> any_applyOperation E R N ts op st)"

section \<open>Packets to and from siblings\<close>

record SiblingQueueItem =
  sqi_msg :: string
  sqi_remote :: ComboAddress
  sqi_recv_sibling :: ComboAddress

record WforceReplication =
  d_siblings :: "Sibling list"
  d_sodnonce :: SodiumNonce
  d_default_key :: string
  d_sibling_queue :: "SiblingQueueItem list"
  d_max_sibling_queue_size :: nat
  d_num_sibling_threads :: "32 word"

definition new_WforceReplication :: "SodiumNonce \<Rightarrow> WforceReplication" where
  "new_WforceReplication n =
     \<lparr>d_siblings = [], d_sodnonce = n, d_default_key = [], d_sibling_queue = [], d_max_sibling_queue_size = 5000,
      d_num_sibling_threads = 2\<rparr>"

definition setMaxSiblingRecvQueueSize :: "nat \<Rightarrow> WforceReplication \<Rightarrow> WforceReplication" where
  "setMaxSiblingRecvQueueSize sz W = W\<lparr>d_max_sibling_queue_size := sz\<rparr>"

definition setEncryptionKey :: "string \<Rightarrow> WforceReplication \<Rightarrow> WforceReplication" where
  "setEncryptionKey key W = W\<lparr>d_default_key := key\<rparr>"

definition encryptMsg :: "secretbox \<Rightarrow> string \<Rightarrow> WforceReplication \<Rightarrow> WforceReplication \<times> string" where
  "encryptMsg B msg W =
     (case encryptMsgWithKey B msg (d_default_key W) (d_sodnonce W) of (n, packet) \<Rightarrow> (W\<lparr>d_sodnonce := n\<rparr>, packet))"

definition queue_packet :: "secretbox \<Rightarrow> string \<Rightarrow> string \<Rightarrow> string \<Rightarrow> Sibling \<Rightarrow> Sibling" where
  "queue_packet B key msg default_packet s =
     (if d_has_key s \<and> d_key s \<noteq> key
      then (case encryptMsgWithKey B msg (d_key s) (d_nonce s) of
              (n, sibling_packet) \<Rightarrow> queueMsg sibling_packet (s\<lparr>d_nonce := n\<rparr>))
      else queueMsg default_packet s)"

definition replicateOperation ::
    "secretbox \<Rightarrow> proto_codec \<Rightarrow> ReplicationOperation \<Rightarrow> WforceReplication \<Rightarrow> WforceReplication" where
  "replicateOperation B C r W =
     (let msg = rep_serialize C r
      in case encryptMsg B msg W of
           (W1, default_packet) \<Rightarrow>
             W1\<lparr>d_siblings := map (queue_packet B (d_default_key W1) msg default_packet) (d_siblings W1)\<rparr>)"

definition checkConnFromSibling :: "ComboAddress \<Rightarrow> WforceReplication \<Rightarrow> Sibling option" where
  "checkConnFromSibling remote W = List.find (\<lambda>s. addressOnlyEqual (rem s) remote) (d_siblings W)"

definition on_sibling :: "ComboAddress \<Rightarrow> (Sibling \<Rightarrow> Sibling) \<Rightarrow> WforceReplication \<Rightarrow> WforceReplication" where
  "on_sibling ca f W = W\<lparr>d_siblings := map (\<lambda>s. if rem s = ca then f s else s) (d_siblings W)\<rparr>"

definition rcvd :: "bool \<Rightarrow> ComboAddress \<Rightarrow> WforceReplication \<Rightarrow> WforceReplication" where
  "rcvd ok ca W =
     on_sibling ca (\<lambda>s. if ok then s\<lparr>rcvd_success := rcvd_success s + 1\<rparr> else s\<lparr>rcvd_fail := rcvd_fail s + 1\<rparr>) W"

definition parseReceivedReplicationMsg ::
    "SiblingQueueItem \<Rightarrow> WforceReplication \<Rightarrow> WforceReplication" where
  "parseReceivedReplicationMsg sqi W =
     (if d_max_sibling_queue_size W \<le> length (d_sibling_queue W) then W
      else W\<lparr>d_sibling_queue := d_sibling_queue W @ [sqi]\<rparr>)"

definition from_be16 :: "string \<Rightarrow> nat" where
  "from_be16 bs = unat (byte_of_char (bs ! 0)) * 256 + unat (byte_of_char (bs ! 1))"

text \<open>
  The loop over a connection; \<open>stream\<close> is what the peer sends before the connection ends.
  \<^verbatim>\<open>readAll\<close> returns fewer bytes than asked for only at its end. An exception ends the thread.
\<close>

function parseTCPReplication ::
    "secretbox \<Rightarrow> ComboAddress \<Rightarrow> ComboAddress \<Rightarrow> string \<Rightarrow> WforceReplication \<Rightarrow> WforceReplication" where
  "parseTCPReplication B remote recv_sibling stream W =
     (if length stream < 2 then W
      else
        (let size = from_be16 (take 2 stream); rest = drop 2 stream
         in if size = 0 then W
            else if length rest < size then W
            else case decryptMsg B (d_default_key W) (take size rest) of
                   Inl _ \<Rightarrow> W
                 | Inr None \<Rightarrow> parseTCPReplication B remote recv_sibling (drop size rest) (rcvd False recv_sibling W)
                 | Inr (Some msg) \<Rightarrow>
                     parseTCPReplication B remote recv_sibling (drop size rest)
                       (parseReceivedReplicationMsg
                          \<lparr>sqi_msg = msg, sqi_remote = remote, sqi_recv_sibling = recv_sibling\<rparr> W)))"
  by pat_completeness auto
termination
  by (relation "measure (\<lambda>(B, remote, recv_sibling, stream, W). length stream)") auto

declare parseTCPReplication.simps [simp del]

text \<open>One datagram; an exception is not caught and ends the process.\<close>

definition receiveReplicationOperation ::
    "secretbox \<Rightarrow> ComboAddress \<Rightarrow> string \<Rightarrow> WforceReplication \<Rightarrow> (WforceReplication, unit) outcome" where
  "receiveReplicationOperation B remote buf W =
     (if length buf = 0 \<or> 1500 \<le> length buf then Ret W ()
      else case checkConnFromSibling remote W of
             None \<Rightarrow> Ret W ()
           | Some s \<Rightarrow>
               (case decryptMsg B (d_default_key W) buf of
                  Inl e \<Rightarrow> Exn e W
                | Inr None \<Rightarrow> Ret (rcvd False (rem s) W) ()
                | Inr (Some msg) \<Rightarrow>
                    Ret (parseReceivedReplicationMsg
                           \<lparr>sqi_msg = msg, sqi_remote = remote, sqi_recv_sibling = rem s\<rparr> W) ()))"

text \<open>One iteration of a worker thread; \<open>None\<close> while the queue is empty.\<close>

definition replication_worker ::
    "proto_codec \<Rightarrow> sk_env \<Rightarrow> redis_env \<Rightarrow> netlib \<Rightarrow> int \<times> int \<times> int \<Rightarrow> WforceReplication \<times> wf_state
     \<Rightarrow> (WforceReplication \<times> wf_state, unit) outcome option" where
  "replication_worker C E R N ts Wst =
     (case Wst of (W, st) \<Rightarrow>
        (case d_sibling_queue W of
           [] \<Rightarrow> None
         | sqi # rest \<Rightarrow>
             (let W1 = W\<lparr>d_sibling_queue := rest\<rparr>
              in case rep_unserialize C (sqi_msg sqi) empty_ReplicationOperation of
                   (r, False) \<Rightarrow> Some (Ret (rcvd False (sqi_recv_sibling sqi) W1, st) ())
                 | (r, True) \<Rightarrow>
                     Some (obind (map_state (\<lambda>st'. (W1, st')) (rep_applyOperation E R N ts r st))
                       (\<lambda>(W2, st2) _. Ret (rcvd True (sqi_recv_sibling sqi) W2, st2) ())))))"

section \<open>Messages survive the wire\<close>

definition bl_complete :: "BLOperation \<Rightarrow> bool" where
  "bl_complete m \<longleftrightarrow> bl_ttl m \<noteq> None \<and> bl_reason m \<noteq> None"

fun rep_wf :: "ReplicationOperation \<Rightarrow> bool" where
  "rep_wf r = (case rep_op r of
      None \<Rightarrow> False
    | Some (SDB_Rep m) \<Rightarrow> obj_type r = SDBType
    | Some (BL_Rep m) \<Rightarrow> obj_type r = BlacklistType \<and> bl_complete m
    | Some (WL_Rep m) \<Rightarrow> obj_type r = WhitelistType \<and> bl_complete m)"

lemma bl_op_complete:
  "bl_complete m \<Longrightarrow> bl_op (bl_op_type m) (bl_type m) (bl_key m) (get_ttl m) (get_reason m) = m"
  by (auto simp: bl_complete_def bl_op_def get_ttl_def get_reason_def)

lemma rep_roundtrip:
  assumes C: "codec_ok C" and wf: "rep_wf r"
  shows "rep_unserialize C (rep_serialize C r) r0 = (r, True)"
proof -
  obtain op where op: "rep_op r = Some op" using wf by (cases "rep_op r") auto
  have law: "sdb_ParseFromString C (sdb_SerializeToString C m) = Some m"
    "bl_ParseFromString C (bl_SerializeToString C b) = Some b"
    "msg_ParseFromString C (msg_SerializeToString C w) = (True, w)" for m b w
    using C by (auto simp: codec_ok_def)
  show ?thesis
    using wf op
    by (cases op) (auto simp: rep_unserialize_def rep_serialize_def law sdb_unserialize_def bl_unserialize_def
        wl_unserialize_def bl_op_complete)
qed

section \<open>An update replayed on a peer\<close>

text \<open>Two wrappers with the same shards; their name, their windows and whether they replicate may differ.\<close>

definition same_shards :: "TWStringStatsDBWrapper \<Rightarrow> TWStringStatsDBWrapper \<Rightarrow> bool" where
  "same_shards w v \<longleftrightarrow> sdbvp w = sdbvp v \<and> num_shards w = num_shards v"

lemma on_shard_same:
  assumes "same_shards w v" and "on_shard key f w = Ret w' x"
  shows "\<exists>v'. on_shard key f v = Ret v' x \<and> same_shards w' v' \<and> v' = v\<lparr>sdbvp := sdbvp w'\<rparr> \<and> w' = w\<lparr>sdbvp := sdbvp w'\<rparr>"
proof -
  have idx: "getShardIndex key v = getShardIndex key w" using assms(1) by (simp add: getShardIndex_def same_shards_def)
  show ?thesis
    using assms by (cases "f (sdbvp w ! the (getShardIndex key w))")
      (auto simp: on_shard_def idx same_shards_def split: option.splits if_splits)
qed

lemma update_key_peer:
  assumes s: "same_shards w v" and u: "update_key N vkey f op True w = Ret w' (Some r)"
  shows "\<exists>key v'. r = new_ReplicationOperation (Some (SDB_Rep (op key))) SDBType
    \<and> (\<forall>op2. update_key N (TWStr key) f op2 False v = Ret v' None) \<and> same_shards w' v' \<and> v' = v\<lparr>sdbvp := sdbvp w'\<rparr>"
proof -
  obtain key where key: "getStringKey N vkey w = Inr key"
    using u by (auto simp: update_key_def split: sum.splits)
  obtain x where os: "on_shard key (f key) w = Ret w' x" and send: "send_op True w' (op key) = Some r"
    using u by (auto simp: update_key_def key)
  obtain v' where v': "on_shard key (f key) v = Ret v' x" "same_shards w' v'" "v' = v\<lparr>sdbvp := sdbvp w'\<rparr>"
    using on_shard_same[OF s os] by blast
  have "r = new_ReplicationOperation (Some (SDB_Rep (op key))) SDBType"
    using send by (simp add: send_op_def split: if_splits)
  then show ?thesis using v' by (auto simp: update_key_def getStringKey_def send_op_def)
qed

datatype wr_update =
    UpAdd TWKeyType string TWKeyType "32 word option"
  | UpSub TWKeyType string TWSubParam
  | UpReset TWKeyType
  | UpResetField TWKeyType string

fun up_exec ::
    "sk_env \<Rightarrow> netlib \<Rightarrow> int \<times> int \<times> int \<Rightarrow> wr_update \<Rightarrow> bool \<Rightarrow> TWStringStatsDBWrapper
     \<Rightarrow> (TWStringStatsDBWrapper, ReplicationOperation option) outcome" where
  "up_exec E N ts (UpAdd k f p q) repl w = addInternal E N ts k f p q repl w"
| "up_exec E N ts (UpSub k f p) repl w = subInternal E N ts k f p repl w"
| "up_exec E N ts (UpReset k) repl w = resetInternal N k repl w"
| "up_exec E N ts (UpResetField k f) repl w = resetFieldInternal N k f repl w"

lemma forget_Ret [simp]: "forget (Ret s v) = Ret s ()"
  by (simp add: forget_def)

lemmas sdb_ops = sdb_op_str_int_def sdb_op_str_def sdb_op_int_def sdb_op_field_def sdb_op_def sdb_none_def

lemma with_key_None: "with_key N k (\<lambda>_ db. Ret db None) w \<noteq> Ret w' (Some r)"
  by (auto simp: with_key_def on_shard_def split: sum.splits option.splits)

lemma sdb_call_peer:
  assumes s: "same_shards w v" and u: "up_exec E N ts u True w = Ret w' (Some r)"
  shows "\<exists>m v'. r = new_ReplicationOperation (Some (SDB_Rep m)) SDBType \<and> sdb_db_name m = wr_db_name w
    \<and> sdb_op_type m \<noteq> SDBOpNone \<and> sdb_call E N ts m v = Ret v' () \<and> same_shards w' v' \<and> v' = v\<lparr>sdbvp := sdbvp w'\<rparr>"
proof (cases u)
  case (UpAdd k f p q)
  then show ?thesis
    using u by (cases q; cases p)
      (auto simp: addInternal_def sdb_call_def sdb_ops with_key_None dest!: update_key_peer[OF s])
next
  case (UpSub k f p)
  then show ?thesis
    using u by (cases p) (auto simp: subInternal_def sdb_call_def sdb_ops dest!: update_key_peer[OF s])
next
  case (UpReset k)
  then show ?thesis using u by (auto simp: resetInternal_def sdb_call_def sdb_ops dest!: update_key_peer[OF s])
next
  case (UpResetField k f)
  then show ?thesis using u by (auto simp: resetFieldInternal_def sdb_call_def sdb_ops dest!: update_key_peer[OF s])
qed

section \<open>A list entry replayed on a peer\<close>

definition same_lists :: "BlackWhiteListDB \<Rightarrow> BlackWhiteListDB \<Rightarrow> bool" where
  "same_lists a b \<longleftrightarrow> (\<forall>ty. get_list ty a = get_list ty b) \<and> iplist_netmask a = iplist_netmask b"

lemma same_lists_tables:
  "tables a' = tables a \<Longrightarrow> tables b' = tables b \<Longrightarrow> same_lists a b \<Longrightarrow> same_lists a' b'"
  by (simp add: same_lists_def tables_eq_iff)

lemma get_list_upd: "get_list t (upd_list ty f db) = (if t = ty then (if ty = NONE_BLWL then [] else f (get_list ty db)) else get_list t db)"
  by (cases t; cases ty) simp_all

lemma same_lists_upd:
  "same_lists a b \<Longrightarrow> same_lists ((upd_list ty f a)\<lparr>iplist_netmask := g\<rparr>) ((upd_list ty f b)\<lparr>iplist_netmask := g\<rparr>)"
  by (simp add: same_lists_def get_list_upd)

lemma add_same_lists:
  assumes s: "same_lists a b" and ty: "ty \<noteq> NONE_BLWL"
    and a: "final_state (addEntryInternal R N ts key secs ty reason repl a) = Some a'"
    and b: "final_state (addEntryInternal R' N ts key secs ty reason repl' b) = Some b'"
  shows "same_lists a' b'"
proof -
  have n: "iplist_netmask a = iplist_netmask b" using s by (simp add: same_lists_def)
  obtain g where g: "tables a' = tables ((upd_list ty (add_entry (fst ts) key secs reason) a)\<lparr>iplist_netmask := g\<rparr>)"
    "if ty = IP_BLWL then final_state (addMask_str N key True (iplist_netmask a)) = Some g else g = iplist_netmask a"
    using add_tables[OF a ty] by blast
  obtain h where h: "tables b' = tables ((upd_list ty (add_entry (fst ts) key secs reason) b)\<lparr>iplist_netmask := h\<rparr>)"
    "if ty = IP_BLWL then final_state (addMask_str N key True (iplist_netmask b)) = Some h else h = iplist_netmask b"
    using add_tables[OF b ty] by blast
  have "g = h" using g(2) h(2) n by (auto split: if_splits)
  then show ?thesis using same_lists_tables[OF g(1) h(1)] same_lists_upd[OF s] by simp
qed

lemma delete_same_lists:
  assumes s: "same_lists a b" and ty: "ty \<noteq> NONE_BLWL"
    and a: "final_state (deleteEntryInternal R N key ty repl a) = Some a'"
    and b: "final_state (deleteEntryInternal R' N key ty repl' b) = Some b'"
  shows "same_lists a' b'"
proof -
  have n: "iplist_netmask a = iplist_netmask b" using s by (simp add: same_lists_def)
  obtain g where g: "tables a' = tables ((upd_list ty (bl_erase key) a)\<lparr>iplist_netmask := g\<rparr>)"
    "if ty = IP_BLWL then final_state (deleteMask_str N key (iplist_netmask a)) = Some g else g = iplist_netmask a"
    using delete_tables[OF a ty] by blast
  obtain h where h: "tables b' = tables ((upd_list ty (bl_erase key) b)\<lparr>iplist_netmask := h\<rparr>)"
    "if ty = IP_BLWL then final_state (deleteMask_str N key (iplist_netmask b)) = Some h else h = iplist_netmask b"
    using delete_tables[OF b ty] by blast
  have "g = h" using g(2) h(2) n by (auto split: if_splits)
  then show ?thesis using same_lists_tables[OF g(1) h(1)] same_lists_upd[OF s] by simp
qed

text \<open>The operation a list hands to replication, and the list it is applied to.\<close>

definition list_op :: "BLWLDBType \<Rightarrow> BLOperation \<Rightarrow> ReplicationOperation" where
  "list_op T m =
     (if T = BLACKLIST then new_ReplicationOperation (Some (BL_Rep m)) BlacklistType
      else new_ReplicationOperation (Some (WL_Rep m)) WhitelistType)"

definition list_db :: "BLWLDBType \<Rightarrow> wf_state \<Rightarrow> BlackWhiteListDB" where
  "list_db T st = (if T = BLACKLIST then g_bl_db st else g_wl_db st)"

definition set_list_db :: "BLWLDBType \<Rightarrow> BlackWhiteListDB \<Rightarrow> wf_state \<Rightarrow> wf_state" where
  "set_list_db T db st = (if T = BLACKLIST then st\<lparr>g_bl_db := db\<rparr> else st\<lparr>g_wl_db := db\<rparr>)"

lemma apply_list_op:
  "rep_applyOperation E R N ts (list_op T m) st =
     map_state (\<lambda>db. set_list_db T db st) (bl_applyOperation R N ts m (list_db T st))"
  by (cases T) (simp_all add: rep_applyOperation_def list_op_def list_db_def set_list_db_def[abs_def] new_ReplicationOperation_def)

lemma type_num_roundtrip: "type_of_num (unat (word_of_nat (type_num ty) :: 32 word)) = ty"
  by (cases ty) (simp_all add: type_of_num_def)

lemma bl_apply_add:
  "0 \<le> secs \<Longrightarrow> secs < 2 ^ 32 \<Longrightarrow>
   bl_applyOperation R N (t1, t2, t3) (bl_op BLAdd (word_of_nat (type_num ty)) key secs reason) db
     = addEntryInternal R N (t1, t2) key secs ty reason False db"
  using type_num_roundtrip[of ty]
  by (simp add: bl_applyOperation_def bl_op_def get_ttl_def get_reason_def uint_word_of_int)

lemma bl_apply_delete:
  "bl_applyOperation R N ts (bl_op BLDelete (word_of_nat (type_num ty)) key secs reason) db
     = deleteEntryInternal R N key ty False db"
  using type_num_roundtrip[of ty] by (simp add: bl_applyOperation_def bl_op_def)

lemma emit_simps [simp]: "trace (emit x db) = trace db @ [x]" "db_type (emit x db) = db_type db"
  by (simp_all add: emit_def)

lemma replicate_bl_emit:
  "replicate_bl op ty key secs reason db =
     emit (Replicate (list_op (db_type db) (bl_op op (word_of_nat (type_num ty)) key secs reason))) db"
  by (simp add: replicate_bl_def list_op_def)

lemma add_emits:
  assumes "addEntryInternal R N ts key secs ty reason True db = Ret db' ()" and "ty \<noteq> NONE_BLWL"
  shows "Replicate (list_op (db_type db') (bl_op BLAdd (word_of_nat (type_num ty)) key secs reason)) \<in> set (trace db')"
proof -
  obtain db1 db2 where "after_add R (snd ts) key secs ty reason True db1 = Ret db2 ()" "db' = hook_add key secs ty reason db2"
    using assms by (cases ty) (auto simp: addEntryInternal_def)
  then obtain db3 where "db' = hook_add key secs ty reason (replicate_bl BLAdd ty key secs reason db3)"
    by (auto simp: after_add_def Let_def)
  then show ?thesis by (simp add: replicate_bl_emit hook_add_def)
qed

lemma delete_emits:
  assumes "deleteEntryInternal R N key ty True db = Ret db' ()" and "ty \<noteq> NONE_BLWL"
  shows "Replicate (list_op (db_type db') (bl_op BLDelete (word_of_nat (type_num ty)) key 0 [])) \<in> set (trace db')"
proof -
  obtain db1 db2 where "after_delete R key ty True db1 = Ret db2 ()" "db' = hook_delete key ty db2"
    using assms by (cases ty) (auto simp: deleteEntryInternal_def)
  then obtain db3 where "db' = hook_delete key ty (replicate_bl BLDelete ty key 0 [] db3)"
    by (auto simp: after_delete_def Let_def)
  then show ?thesis by (simp add: replicate_bl_emit hook_delete_def)
qed

lemma list_op_wf: "rep_wf (list_op T (bl_op op ty key secs reason))"
  by (simp add: list_op_def new_ReplicationOperation_def bl_complete_def bl_op_def)

section \<open>Framing\<close>

lemma size_bytes_value: "from_be16 (size_bytes msg) = length msg mod 65536"
proof -
  let ?n = "word_of_nat (length msg) :: 16 word"
  have n: "unat ?n = length msg mod 65536" by (simp add: unat_of_nat take_bit_eq_mod)
  have "unat (ucast (drop_bit 8 ?n) :: 8 word) = (length msg mod 65536) div 256"
    using n by (simp add: unsigned_ucast_eq unsigned_drop_bit_eq take_bit_eq_mod drop_bit_eq_div less_mult_imp_div_less unat_div_distrib)
  moreover have "unat (ucast ?n :: 8 word) = (length msg mod 65536) mod 256"
    by (simp add: unsigned_ucast_eq n take_bit_eq_mod)
  ultimately show ?thesis by (simp add: from_be16_def size_bytes_def Let_def)
qed

lemma parse_frame:
  assumes "0 < length p" and "length p < 65536"
  shows "parseTCPReplication B remote ca (frame_of p @ rest) W =
    (case decryptMsg B (d_default_key W) p of
       Inl _ \<Rightarrow> W
     | Inr None \<Rightarrow> parseTCPReplication B remote ca rest (rcvd False ca W)
     | Inr (Some msg) \<Rightarrow>
         parseTCPReplication B remote ca rest
           (parseReceivedReplicationMsg \<lparr>sqi_msg = msg, sqi_remote = remote, sqi_recv_sibling = ca\<rparr> W))"
proof -
  have "take 2 (size_bytes p @ p @ rest) = size_bytes p" "drop 2 (size_bytes p @ p @ rest) = p @ rest" by simp_all
  then show ?thesis
    using assms size_bytes_value[of p]
    by (subst parseTCPReplication.simps) (simp add: frame_of_def Let_def split: sum.split option.split)
qed

interpretation recv_queue: bounded_queue d_sibling_queue d_max_sibling_queue_size parseReceivedReplicationMsg
  by unfold_locales (auto simp: parseReceivedReplicationMsg_def)

lemma received_key [simp]: "d_default_key (parseReceivedReplicationMsg q W) = d_default_key W"
  by (simp add: parseReceivedReplicationMsg_def)

definition queue_item :: "ComboAddress \<Rightarrow> ComboAddress \<Rightarrow> string \<Rightarrow> SiblingQueueItem" where
  "queue_item remote ca msg = \<lparr>sqi_msg = msg, sqi_remote = remote, sqi_recv_sibling = ca\<rparr>"

lemma parse_frames:
  assumes "list_all2 (\<lambda>p msg. 0 < length p \<and> length p < 65536 \<and> decryptMsg B k p = Inr (Some msg)) ps msgs"
    and "d_default_key W = k"
  shows "parseTCPReplication B remote ca (concat (map frame_of ps)) W =
    fold parseReceivedReplicationMsg (map (queue_item remote ca) msgs) W"
  using assms
proof (induction ps msgs arbitrary: W rule: list_all2_induct)
  case Nil
  then show ?case by (simp add: parseTCPReplication.simps)
next
  case (Cons p ps msg msgs)
  then show ?case
    using parse_frame[of p B remote ca "concat (map frame_of ps)" W] by (simp add: queue_item_def[abs_def])
qed

section \<open>Packets for the siblings\<close>

definition sibling_key :: "WforceReplication \<Rightarrow> Sibling \<Rightarrow> string" where
  "sibling_key W s = (if d_has_key s then d_key s else d_default_key W)"

definition nonces_ok :: "WforceReplication \<Rightarrow> bool" where
  "nonces_ok W \<longleftrightarrow> nonce_wf (d_sodnonce W) \<and> (\<forall>s \<in> set (d_siblings W). nonce_wf (d_nonce s))"

lemma queue_packet_room:
  assumes B: "secretbox_ok B" and n: "nonce_wf (d_nonce s)" and p: "decryptMsg B key p = Inr (Some msg)"
    and room: "length (queue s) < max_queue_size s"
  shows "\<exists>q. queue (queue_packet B key msg p s) = queue s @ [q]
    \<and> decryptMsg B (if d_has_key s then d_key s else key) q = Inr (Some msg)"
proof (cases "d_has_key s \<and> d_key s \<noteq> key")
  case True
  then show ?thesis
    using room packet_decrypts[OF B n, of "d_key s" msg]
    by (auto simp: queue_packet_def queueMsg_def split: prod.split)
next
  case False
  then show ?thesis using room p by (auto simp: queue_packet_def queueMsg_def)
qed

section \<open>A codec\<close>

definition sdb_type_num :: "SDBOpType \<Rightarrow> nat" where
  "sdb_type_num t = (case t of SDBOpAdd \<Rightarrow> 0 | SDBOpSub \<Rightarrow> 1 | SDBOpReset \<Rightarrow> 2 | SDBOpResetField \<Rightarrow> 3 | SDBOpSyncKey \<Rightarrow> 4
     | SDBOpNone \<Rightarrow> 999)"

definition sdb_type_of :: "nat \<Rightarrow> SDBOpType" where
  "sdb_type_of n = (if n = 0 then SDBOpAdd else if n = 1 then SDBOpSub else if n = 2 then SDBOpReset
     else if n = 3 then SDBOpResetField else if n = 4 then SDBOpSyncKey else SDBOpNone)"

definition bl_type_num :: "BLOpType \<Rightarrow> nat" where
  "bl_type_num t = (case t of BLAdd \<Rightarrow> 0 | BLDelete \<Rightarrow> 1 | BLNone \<Rightarrow> 999)"

definition bl_type_of :: "nat \<Rightarrow> BLOpType" where
  "bl_type_of n = (if n = 0 then BLAdd else if n = 1 then BLDelete else BLNone)"

definition rep_type_num :: "RepType \<Rightarrow> nat" where
  "rep_type_num t = (case t of SDBType \<Rightarrow> 0 | BlacklistType \<Rightarrow> 1 | WhitelistType \<Rightarrow> 2 | NoneType \<Rightarrow> 999)"

definition rep_type_of :: "nat \<Rightarrow> RepType" where
  "rep_type_of n = (if n = 0 then SDBType else if n = 1 then BlacklistType else if n = 2 then WhitelistType else NoneType)"

definition bytes_code :: "8 word list code" where
  "bytes_code = list_code word_code"

definition sdb_code :: "SDBOperation code" where
  "sdb_code = iso_code
     (\<lambda>m. (sdb_db_name m, sdb_type_num (sdb_op_type m), sdb_key m, sdb_field_name m, sdb_str_param m, sdb_int_param m, sdb_sync_fields m))
     (\<lambda>(d, t, k, f, s, i, y). \<lparr>sdb_db_name = d, sdb_op_type = sdb_type_of t, sdb_key = k, sdb_field_name = f, sdb_str_param = s,
        sdb_int_param = i, sdb_sync_fields = y\<rparr>)
     (pair_code string_code (pair_code nat_code (pair_code string_code (pair_code (option_code string_code)
       (pair_code (option_code string_code) (pair_code (option_code word_code)
         (list_code (pair_code string_code (pair_code word_code (list_code (pair_code word_code bytes_code))))))))))) "

definition bl_code :: "BLOperation code" where
  "bl_code = iso_code
     (\<lambda>m. (bl_type_num (bl_op_type m), bl_type m, bl_key m, bl_ttl m, bl_reason m))
     (\<lambda>(t, b, k, l, r). \<lparr>bl_op_type = bl_type_of t, bl_type = b, bl_key = k, bl_ttl = l, bl_reason = r\<rparr>)
     (pair_code nat_code (pair_code word_code (pair_code string_code (pair_code (option_code word_code) (option_code string_code)))))"

definition msg_code :: "WforceReplicationMsg code" where
  "msg_code = iso_code
     (\<lambda>m. (rep_type_num (msg_rep_type m), msg_rep_op m, msg_forwarded m))
     (\<lambda>(t, b, f). \<lparr>msg_rep_type = rep_type_of t, msg_rep_op = b, msg_forwarded = f\<rparr>)
     (pair_code nat_code (pair_code string_code (option_code bool_code)))"

definition demo_codec :: proto_codec where
  "demo_codec = \<lparr>sdb_SerializeToString = encode sdb_code, sdb_ParseFromString = decode sdb_code,
     bl_SerializeToString = encode bl_code, bl_ParseFromString = decode bl_code,
     msg_SerializeToString = encode msg_code,
     msg_ParseFromString = (\<lambda>s. case decode msg_code s of
        None \<Rightarrow> (False, \<lparr>msg_rep_type = SDBType, msg_rep_op = [], msg_forwarded = None\<rparr>) | Some m \<Rightarrow> (True, m))\<rparr>"

lemma good_codes: "good sdb_code" "good bl_code" "good msg_code"
proof -
  show "good sdb_code" unfolding sdb_code_def
    by (rule good_iso) (auto simp: bytes_code_def sdb_type_num_def sdb_type_of_def split: SDBOpType.split)
  show "good bl_code" unfolding bl_code_def
    by (rule good_iso) (auto simp: bl_type_num_def bl_type_of_def split: BLOpType.split)
  show "good msg_code" unfolding msg_code_def
    by (rule good_iso) (auto simp: rep_type_num_def rep_type_of_def split: RepType.split)
qed

lemma demo_codec_ok: "codec_ok demo_codec"
  by (simp add: codec_ok_def demo_codec_def decode_encode good_codes)

lemma queued_for_sibling:
  assumes "codec_ok C" and "secretbox_ok B" and "rep_wf r" and n: "nonces_ok W"
    and i: "i < length (d_siblings W)" and room: "length (queue (d_siblings W ! i)) < max_queue_size (d_siblings W ! i)"
  shows "\<exists>p msg. queue (d_siblings (replicateOperation B C r W) ! i) = queue (d_siblings W ! i) @ [p]
    \<and> decryptMsg B (sibling_key W (d_siblings W ! i)) p = Inr (Some msg)
    \<and> rep_unserialize C msg empty_ReplicationOperation = (r, True)"
proof -
  let ?s = "d_siblings W ! i" and ?msg = "rep_serialize C r"
  let ?p = "snd (encryptMsgWithKey B ?msg (d_default_key W) (d_sodnonce W))"
  have sib: "nonce_wf (d_nonce ?s)" "nonce_wf (d_sodnonce W)" using n i by (auto simp: nonces_ok_def)
  have "decryptMsg B (d_default_key W) ?p = Inr (Some ?msg)" using packet_decrypts[OF assms(2) sib(2)] .
  from queue_packet_room[OF assms(2) sib(1) this room]
  obtain q where q: "queue (queue_packet B (d_default_key W) ?msg ?p ?s) = queue ?s @ [q]"
    "decryptMsg B (sibling_key W ?s) q = Inr (Some ?msg)" by (auto simp: sibling_key_def)
  have "d_siblings (replicateOperation B C r W) ! i = queue_packet B (d_default_key W) ?msg ?p ?s"
    using i by (simp add: replicateOperation_def encryptMsg_def Let_def split: prod.split)
  then show ?thesis using q rep_roundtrip[OF assms(1,3)] by auto
qed

text \<open>
  A replicated update has the same effect on a peer: when a counter update or a reset on one node
  hands an operation to replication, a peer whose database of that name has the same shards, and which
  reads the operation from the wire and applies it at the same time, ends with the same shards;
  nothing else on the peer changes and the peer does not replicate it again.
\<close>

lemma peer_applies:
  assumes C: "codec_ok C" and u: "up_exec E N ts u True w = Ret w' (Some r)"
    and db: "map_of (dbMap st) (wr_db_name w) = Some v" and s: "same_shards w v"
  shows "\<exists>st' v'. rep_unserialize C (rep_serialize C r) empty_ReplicationOperation = (r, True)
    \<and> rep_applyOperation E R N ts r st = Ret st' ()
    \<and> map_of (dbMap st') = (map_of (dbMap st))(wr_db_name w \<mapsto> v') \<and> same_shards w' v' \<and> v' = v\<lparr>sdbvp := sdbvp w'\<rparr>
    \<and> g_bl_db st' = g_bl_db st \<and> g_wl_db st' = g_wl_db st"
proof -
  obtain m v' where m: "r = new_ReplicationOperation (Some (SDB_Rep m)) SDBType" "sdb_db_name m = wr_db_name w"
    "sdb_op_type m \<noteq> SDBOpNone" "sdb_call E N ts m v = Ret v' ()" "same_shards w' v'" "v' = v\<lparr>sdbvp := sdbvp w'\<rparr>"
    using sdb_call_peer[OF s u] by blast
  have "rep_wf r" by (simp add: m new_ReplicationOperation_def)
  moreover have "rep_applyOperation E R N ts r st = Ret (st\<lparr>dbMap := sm_assign (wr_db_name w) v' (dbMap st)\<rparr>) ()"
    using m db by (simp add: rep_applyOperation_def sdb_applyOperation_def new_ReplicationOperation_def)
  ultimately show ?thesis using rep_roundtrip[OF C] m(5,6) by (simp add: map_of_sm_assign)
qed

section \<open>Properties\<close>

text \<open>
  An operation reaches every sibling: \<^verbatim>\<open>replicateOperation\<close> appends one packet to the send queue of each
  sibling that has room, and whoever holds that sibling's key (its own, or the default one) decrypts
  the packet and reads back exactly the operation.
\<close>

lemma operation_reaches_every_sibling:
  assumes "codec_ok C" and "secretbox_ok B" and "rep_wf r" and n: "nonces_ok W"
    and i: "i < length (d_siblings W)" and room: "length (queue (d_siblings W ! i)) < max_queue_size (d_siblings W ! i)"
  shows "\<exists>p msg. queue (d_siblings (replicateOperation B C r W) ! i) = queue (d_siblings W ! i) @ [p]
    \<and> decryptMsg B (sibling_key W (d_siblings W ! i)) p = Inr (Some msg)
    \<and> rep_unserialize C msg empty_ReplicationOperation = (r, True)"
  using assms by (rule queued_for_sibling)

lemma demo_update:
  "\<exists>w' r. up_exec demo_env demo_net (1000, 1000, 1000) (UpAdd (TWStr ''k'') ''cnt'' (TWInt 3) None) True demo_wrapper = Ret w' (Some r)"
proof -
  have d: "getStringKey demo_net (TWStr ''k'') demo_wrapper = Inr ''k''" by (simp add: getStringKey_def)
  obtain i where i: "getShardIndex ''k'' demo_wrapper = Some i" "i < length (sdbvp demo_wrapper)"
    using shard_in_range[OF demo_wrapper_ok] .
  then have n: "wr_entry demo_wrapper (''k'', ''cnt'') = None"
    by (simp add: wr_entry_def demo_wrapper_simps new_TWStatsDB_def db_entry_def)
  obtain w2 m where "addInternal demo_env demo_net (1000, 1000, 1000) (TWStr ''k'') ''cnt'' (TWInt 3) None True demo_wrapper = Ret w2 m"
    and "m = send_op True demo_wrapper (sdb_op_int (wr_db_name demo_wrapper) SDBOpAdd ''k'' ''cnt'' 3)"
    using wr_add_get[OF demo_db_inv(2) demo_wrapper_ok d d, where f = "''cnt''" and x = 3 and repl = True]
    by (auto simp: n demo_wrapper_simps new_TWStatsDB_def)
  then show ?thesis by (simp add: send_op_def demo_wrapper_simps)
qed

definition demo_state :: wf_state where
  "demo_state = \<lparr>dbMap = [(''db'', demo_wrapper)], g_bl_db = new_BlackWhiteListDB BLACKLIST, g_wl_db = new_BlackWhiteListDB WHITELIST\<rparr>"

definition peer_follows ::
    "proto_codec \<Rightarrow> sk_env \<Rightarrow> redis_env \<Rightarrow> netlib \<Rightarrow> int \<times> int \<times> int \<Rightarrow> BlackWhiteListDB \<Rightarrow> wf_state \<Rightarrow> bool" where
  "peer_follows C E R N ts a st \<longleftrightarrow>
     (\<exists>r db. Replicate r \<in> set (trace a) \<and> rep_unserialize C (rep_serialize C r) empty_ReplicationOperation = (r, True)
       \<and> rep_applyOperation E R N ts r st = Ret (set_list_db (db_type a) db st) () \<and> same_lists a db)"

lemma peer_followsI:
  assumes "codec_ok C" and "Replicate (list_op (db_type a) (bl_op op ty key secs reason)) \<in> set (trace a)"
    and "bl_applyOperation R N ts (bl_op op ty key secs reason) (list_db (db_type a) st) = Ret db ()" and "same_lists a db"
  shows "peer_follows C E R N ts a st"
  unfolding peer_follows_def
proof (intro exI conjI)
  show "Replicate (list_op (db_type a) (bl_op op ty key secs reason)) \<in> set (trace a)" by (rule assms(2))
  show "rep_unserialize C (rep_serialize C (list_op (db_type a) (bl_op op ty key secs reason))) empty_ReplicationOperation
      = (list_op (db_type a) (bl_op op ty key secs reason), True)" by (rule rep_roundtrip[OF assms(1) list_op_wf])
  show "rep_applyOperation E R N ts (list_op (db_type a) (bl_op op ty key secs reason)) st
      = Ret (set_list_db (db_type a) db st) ()" by (simp add: apply_list_op assms(3))
  show "same_lists a db" by (rule assms(4))
qed

text \<open>
  C18. A replicated list change has the same effect on a peer: adding an entry (with a duration below
  \<open>2 ^ 32\<close> seconds) or deleting one on a node emits an operation; a peer whose list of the same kind has
  the same entries, and which reads that operation from the wire and applies it at the same time, ends
  with the same entries and netmasks, and only that list changes. The peer's list is sound and does not
  persist to Redis, and an address key is one that the calls with an address build.
\<close>

theorem replicated_list_change_converges:
  assumes C: "codec_ok C" and ty: "ty \<noteq> NONE_BLWL" and canon: "ty = IP_BLWL \<Longrightarrow> \<exists>nm. canon N key nm"
    and s: "same_lists a (list_db (db_type a') st)" and ok: "bw_ok N (list_db (db_type a') st)"
    and np: "\<not> persist (list_db (db_type a') st)"
  shows "(0 \<le> secs \<and> secs < 2 ^ 32 \<and> addEntryInternal R N (t1, t2) key secs ty reason True a = Ret a' ()
       \<longrightarrow> peer_follows C E R' N (t1, t2, t3) a' st)
    \<and> (deleteEntryInternal R N key ty True a = Ret a' () \<longrightarrow> peer_follows C E R' N (t1, t2, t3) a' st)"
proof (intro conjI impI)
  let ?b = "list_db (db_type a') st"
  assume add: "0 \<le> secs \<and> secs < 2 ^ 32 \<and> addEntryInternal R N (t1, t2) key secs ty reason True a = Ret a' ()"
  obtain db where db: "addEntryInternal R' N (t1, t2) key secs ty reason False ?b = Ret db ()"
    using add_returns[where ty = ty, OF ok canon np] by blast
  have "same_lists a' db" using add_same_lists[OF s ty, of R N "(t1, t2)" key secs reason True a' R' False db] add db by simp
  then show "peer_follows C E R' N (t1, t2, t3) a' st"
    using bl_apply_add[of secs R' N t1 t2 t3 ty key reason ?b] add db
    by (intro peer_followsI[OF C add_emits[OF _ ty]]) auto
next
  let ?b = "list_db (db_type a') st"
  assume del: "deleteEntryInternal R N key ty True a = Ret a' ()"
  obtain db where db: "deleteEntryInternal R' N key ty False ?b = Ret db ()"
    using delete_returns[where ty = ty, OF ok canon np] by blast
  have "same_lists a' db" using delete_same_lists[OF s ty, of R N key True a' R' False db] del db by simp
  then show "peer_follows C E R' N (t1, t2, t3) a' st"
    using bl_apply_delete[of R' N "(t1, t2, t3)" ty key 0 "[]" ?b] db
    by (intro peer_followsI[OF C delete_emits[OF del ty]]) auto
qed

lemma demo_add_login:
  "\<exists>a'. addEntryInternal demo_redis demo_net (1000, 1000) ''joe'' 60 LOGIN_BLWL ''abuse'' True (new_BlackWhiteListDB BLACKLIST) = Ret a' ()
     \<and> db_type a' = BLACKLIST"
  by (simp add: addEntryInternal_def after_add_def addEntryLog_def replicate_bl_def hook_add_def emit_def entry_log_def
      new_BlackWhiteListDB_def Let_def)

theorem replicated_list_change_converges_witness:
  "\<exists>a'. addEntryInternal demo_redis demo_net (1000, 1000) ''joe'' 60 LOGIN_BLWL ''abuse'' True (new_BlackWhiteListDB BLACKLIST) = Ret a' ()
     \<and> peer_follows demo_codec demo_env demo_redis demo_net (1000, 1000, 1000) a' demo_state"
proof -
  obtain a' where a': "addEntryInternal demo_redis demo_net (1000, 1000) ''joe'' 60 LOGIN_BLWL ''abuse'' True
      (new_BlackWhiteListDB BLACKLIST) = Ret a' ()" "db_type a' = BLACKLIST" using demo_add_login by blast
  have b: "list_db (db_type a') demo_state = new_BlackWhiteListDB BLACKLIST" by (simp add: a' list_db_def demo_state_def)
  have "peer_follows demo_codec demo_env demo_redis demo_net (1000, 1000, 1000) a' demo_state"
    using replicated_list_change_converges[OF demo_codec_ok, of LOGIN_BLWL demo_net "''joe''" "new_BlackWhiteListDB BLACKLIST" a'
        demo_state 60 demo_redis 1000 1000 "''abuse''" demo_env demo_redis 1000] a' b new_db_ok
    by (simp add: same_lists_def new_BlackWhiteListDB_def)
  then show ?thesis using a' by blast
qed

definition demo_repl :: WforceReplication where
  "demo_repl = (new_WforceReplication (replicate 24 0))\<lparr>d_siblings := [demo_sibling], d_default_key := ''secret''\<rparr>"

lemma demo_box_ok: "secretbox_ok demo_box"
  by (simp add: secretbox_ok_def demo_box_def crypto_secretbox_MACBYTES_def)

lemma demo_repl_ok: "nonces_ok demo_repl"
  by (simp add: nonces_ok_def demo_repl_def new_WforceReplication_def demo_sibling_def nonce_wf_def
      crypto_secretbox_NONCEBYTES_def)

text \<open>
  What a sibling writes on a TCP connection, the receiver reads: from the frames of packets of 1 to
  65535 bytes that decrypt under the receiver's key, \<^verbatim>\<open>parseTCPReplication\<close> recovers exactly the messages, in
  order, and puts them into the receive queue as far as it has room; the queue never exceeds its
  maximum and no failure is counted.
\<close>

lemma tcp_stream_received_in_order:
  assumes "list_all2 (\<lambda>p msg. 0 < length p \<and> length p < 65536 \<and> decryptMsg B (d_default_key W) p = Inr (Some msg)) ps msgs"
    and "length (d_sibling_queue W) \<le> d_max_sibling_queue_size W"
  shows "let W' = parseTCPReplication B remote ca (concat (map frame_of ps)) W in
    d_sibling_queue W' = d_sibling_queue W
       @ take (d_max_sibling_queue_size W - length (d_sibling_queue W)) (map (queue_item remote ca) msgs)
    \<and> length (d_sibling_queue W') \<le> d_max_sibling_queue_size W \<and> d_siblings W' = d_siblings W"
proof -
  have "recv_queue.within W" using assms(2) by (simp add: recv_queue.within_def)
  moreover have "d_siblings (fold parseReceivedReplicationMsg qs W) = d_siblings W" for qs
    by (induction qs arbitrary: W) (simp_all add: parseReceivedReplicationMsg_def)
  ultimately show ?thesis
    using parse_frames[OF assms(1) refl, of remote ca] recv_queue.offers_contents assms(2) by simp
qed

text \<open>
  Messages that are too long for the transport are lost without an error: a datagram of 1500 bytes or
  more is ignored by the receiver, and a TCP message whose length is a positive multiple of 65536 is
  announced with a length of zero (the length is cut to 16 bits), which makes the receiver drop the
  connection with everything that follows on it.
\<close>

lemma too_long_messages_are_lost:
  assumes "0 < k"
  shows "(1500 \<le> length buf \<longrightarrow> receiveReplicationOperation B remote buf W = Ret W ())
    \<and> (length p = k * 65536 \<longrightarrow> parseTCPReplication B remote ca (frame_of p @ rest) W = W)"
proof (intro conjI impI)
  show "receiveReplicationOperation B remote buf W = Ret W ()" if "1500 \<le> length buf"
    using that by (simp add: receiveReplicationOperation_def)
  assume "length p = k * 65536"
  then have "from_be16 (take 2 (frame_of p @ rest)) = 0" by (simp add: frame_of_def size_bytes_value)
  then show "parseTCPReplication B remote ca (frame_of p @ rest) W = W"
    by (subst parseTCPReplication.simps) (simp add: Let_def)
qed

text \<open>
  Garbage counts as a successful operation: a message that protobuf cannot parse (for example the empty
  one) is taken from the queue by the worker, nothing is applied, and the sibling's success counter is
  incremented, not its failure counter.
\<close>

lemma unparsable_message_counts_as_success:
  assumes q: "d_sibling_queue W = sqi # rest" and bad: "msg_ParseFromString C (sqi_msg sqi) = (False, m)"
  shows "replication_worker C E R N ts (W, st)
    = Some (Ret (rcvd True (sqi_recv_sibling sqi) (W\<lparr>d_sibling_queue := rest\<rparr>), st) ())"
proof -
  have "\<exists>r. rep_unserialize C (sqi_msg sqi) empty_ReplicationOperation = (r, True) \<and> rep_op r = None"
    using bad by (simp add: rep_unserialize_def empty_ReplicationOperation_def)
  then show ?thesis using q by (auto simp: replication_worker_def rep_applyOperation_def Let_def)
qed

text \<open>
  Datagrams that need no key. A datagram of 24 to 39 bytes from the address of a sibling makes the UDP
  receiver throw \<^verbatim>\<open>std::length_error\<close>, which nothing catches, so the process ends; any datagram of exactly
  40 bytes from there is accepted as the empty message and queued, although it is not authenticated.
\<close>

lemma short_datagram_ends_receiver:
  assumes "checkConnFromSibling remote W = Some s" and "24 \<le> length buf"
  shows "(length buf < 40 \<longrightarrow> receiveReplicationOperation B remote buf W = Exn Length_Error W)
    \<and> (length buf = 40 \<longrightarrow> receiveReplicationOperation B remote buf W
          = Ret (parseReceivedReplicationMsg (queue_item remote (rem s) []) W) ())"
proof -
  have "buf \<noteq> []" using assms(2) by auto
  then show ?thesis
    using assms decrypt_short_packet[OF assms(2), of B "d_default_key W"]
    by (auto simp: receiveReplicationOperation_def queue_item_def)
qed

end
