(* ===== verification/Repl_Fwd.thy ===== *)
theory Repl_Fwd
  imports Replication
begin

text \<open>
  The replication forwarder (\<^verbatim>\<open>replfwd-replication.cc\<close>): a daemon that passes operations between two
  clusters. An operation from one of its siblings is sent to the forwarders with the forwarded flag set;
  an operation that arrives with the flag is sent to the siblings with the flag cleared. The state is
  that of \<^verbatim>\<open>WforceReplication\<close> with two more vectors of peers.
\<close>

record ReplfwdReplication =
  fwd_base :: WforceReplication
  d_repl_forwarders :: "Sibling list"
  d_repl_forwarders_src :: "Sibling list"

definition fwd_checkConnFromSibling :: "ComboAddress \<Rightarrow> ReplfwdReplication \<Rightarrow> Sibling option" where
  "fwd_checkConnFromSibling remote F =
     (case checkConnFromSibling remote (fwd_base F) of
        Some s \<Rightarrow> Some s
      | None \<Rightarrow> List.find (\<lambda>f. addressOnlyEqual (rem f) remote) (d_repl_forwarders_src F))"

text \<open>The counters of the peer a message came from, a sibling or a forwarder source.\<close>

definition fwd_rcvd :: "bool \<Rightarrow> ComboAddress \<Rightarrow> ReplfwdReplication \<Rightarrow> ReplfwdReplication" where
  "fwd_rcvd ok ca F =
     (if list_ex (\<lambda>s. rem s = ca) (d_siblings (fwd_base F)) then F\<lparr>fwd_base := rcvd ok ca (fwd_base F)\<rparr>
      else F\<lparr>d_repl_forwarders_src :=
             map (\<lambda>s. if rem s = ca then (if ok then s\<lparr>rcvd_success := rcvd_success s + 1\<rparr> else s\<lparr>rcvd_fail := rcvd_fail s + 1\<rparr>) else s)
               (d_repl_forwarders_src F)\<rparr>)"

definition wants :: "RepType \<Rightarrow> Sibling \<Rightarrow> bool" where
  "wants ty s \<longleftrightarrow> sdb_send s \<and> ty = SDBType \<or> wlbl_send s \<and> (ty = BlacklistType \<or> ty = WhitelistType)"

text \<open>
  The loop over the forwarders. A forwarder with a key of its own that equals the default key gets the
  packet in its initial state, which is the empty string.
\<close>

fun forward_loop ::
    "secretbox \<Rightarrow> RepType \<Rightarrow> string \<Rightarrow> WforceReplication \<Rightarrow> Sibling list \<Rightarrow> WforceReplication \<times> Sibling list" where
  "forward_loop B ty msg W [] = (W, [])"
| "forward_loop B ty msg W (s # fwdrs) =
     (let (W1, s1) =
        (if \<not> wants ty s then (W, s)
         else if d_has_key s then
           (if d_key s \<noteq> d_default_key W
            then (case encryptMsgWithKey B msg (d_key s) (d_nonce s) of
                    (n, packet) \<Rightarrow> (W, queueMsg packet (s\<lparr>d_nonce := n\<rparr>)))
            else (W, queueMsg [] s))
         else (case encryptMsg B msg W of (W', packet) \<Rightarrow> (W', queueMsg packet s)))
      in case forward_loop B ty msg W1 fwdrs of (W2, ss) \<Rightarrow> (W2, s1 # ss))"

definition fwd_worker :: "secretbox \<Rightarrow> proto_codec \<Rightarrow> ReplfwdReplication \<Rightarrow> ReplfwdReplication option" where
  "fwd_worker B C F =
     (case d_sibling_queue (fwd_base F) of
        [] \<Rightarrow> None
      | sqi # rest \<Rightarrow>
          (let F1 = F\<lparr>fwd_base := (fwd_base F)\<lparr>d_sibling_queue := rest\<rparr>\<rparr>
           in case rep_unserialize C (sqi_msg sqi) empty_ReplicationOperation of
                (r, False) \<Rightarrow> Some (fwd_rcvd False (sqi_recv_sibling sqi) F1)
              | (r, True) \<Rightarrow>
                  (let F2 = fwd_rcvd True (sqi_recv_sibling sqi) F1
                   in if forwarded r
                      then Some (F2\<lparr>fwd_base := replicateOperation B C (r\<lparr>forwarded := False\<rparr>) (fwd_base F2)\<rparr>)
                      else (let r' = r\<lparr>forwarded := True\<rparr>
                            in case forward_loop B (obj_type r') (rep_serialize C r') (fwd_base F2) (d_repl_forwarders F2) of
                                 (W, fwdrs) \<Rightarrow> Some (F2\<lparr>fwd_base := W, d_repl_forwarders := fwdrs\<rparr>)))))"

section \<open>What the forwarder queues\<close>

lemma fwd_rcvd_simps [simp]:
  "d_repl_forwarders (fwd_rcvd ok ca F) = d_repl_forwarders F"
  "d_sodnonce (fwd_base (fwd_rcvd ok ca F)) = d_sodnonce (fwd_base F)"
  "d_default_key (fwd_base (fwd_rcvd ok ca F)) = d_default_key (fwd_base F)"
  by (simp_all add: fwd_rcvd_def rcvd_def on_sibling_def)

lemma fwd_rcvd_siblings:
  "length (d_siblings (fwd_base (fwd_rcvd ok ca F))) = length (d_siblings (fwd_base F))"
  "i < length (d_siblings (fwd_base F)) \<Longrightarrow>
   (let s = d_siblings (fwd_base F) ! i; s' = d_siblings (fwd_base (fwd_rcvd ok ca F)) ! i
    in queue s' = queue s \<and> max_queue_size s' = max_queue_size s \<and> d_has_key s' = d_has_key s \<and> d_key s' = d_key s
       \<and> d_nonce s' = d_nonce s)"
  by (auto simp: fwd_rcvd_def rcvd_def on_sibling_def Let_def)

lemma nonces_ok_rcvd: "nonces_ok (fwd_base F) \<Longrightarrow> nonces_ok (fwd_base (fwd_rcvd ok ca F))"
  by (auto simp: nonces_ok_def fwd_rcvd_def rcvd_def on_sibling_def)

lemma forward_loop_frame:
  "forward_loop B ty msg W fs = (W', fs') \<Longrightarrow>
   length fs' = length fs \<and> d_siblings W' = d_siblings W \<and> d_default_key W' = d_default_key W"
  by (induction fs arbitrary: W W' fs')
    (auto simp: Let_def encryptMsg_def split: prod.splits if_splits)

text \<open>What one forwarder gets.\<close>

definition gets :: "secretbox \<Rightarrow> string \<Rightarrow> string \<Rightarrow> Sibling \<Rightarrow> Sibling \<Rightarrow> bool" where
  "gets B key msg s s' \<longleftrightarrow>
     (if length (queue s) < max_queue_size s
      then (\<exists>p. queue s' = queue s @ [p] \<and> decryptMsg B (if d_has_key s then d_key s else key) p = Inr (Some msg))
      else queue s' = queue s)"

lemma gets_cong:
  "queue s = queue t \<Longrightarrow> max_queue_size s = max_queue_size t \<Longrightarrow> d_has_key s = d_has_key t \<Longrightarrow> d_key s = d_key t \<Longrightarrow>
   gets B key msg s s' = gets B key msg t s'"
  by (simp add: gets_def)

lemma forward_loop_spec:
  assumes "secretbox_ok B" and "forward_loop B ty msg W fs = (W', fs')" and "nonce_wf (d_sodnonce W)"
    and "\<forall>s \<in> set fs. nonce_wf (d_nonce s)" and "i < length fs"
  shows "(\<not> wants ty (fs ! i) \<longrightarrow> fs' ! i = fs ! i)
    \<and> (wants ty (fs ! i) \<and> \<not> (d_has_key (fs ! i) \<and> d_key (fs ! i) = d_default_key W)
         \<longrightarrow> gets B (d_default_key W) msg (fs ! i) (fs' ! i))
    \<and> (wants ty (fs ! i) \<and> d_has_key (fs ! i) \<and> d_key (fs ! i) = d_default_key W \<longrightarrow> fs' ! i = queueMsg [] (fs ! i))"
  using assms(2-5)
proof (induction fs arbitrary: W W' fs' i)
  case (Cons s fs)
  have nw: "nonce_wf (d_nonce s)" using Cons.prems by simp
  let ?step = "if \<not> wants ty s then (W, s)
         else if d_has_key s then
           (if d_key s \<noteq> d_default_key W
            then (case encryptMsgWithKey B msg (d_key s) (d_nonce s) of
                    (n, packet) \<Rightarrow> (W, queueMsg packet (s\<lparr>d_nonce := n\<rparr>)))
            else (W, queueMsg [] s))
         else (case encryptMsg B msg W of (W', packet) \<Rightarrow> (W', queueMsg packet s))"
  obtain W1 s1 where step: "?step = (W1, s1)" by fastforce
  obtain ss where rest: "forward_loop B ty msg W1 fs = (W', ss)" and fs': "fs' = s1 # ss"
    using Cons.prems(1) step by (auto split: prod.splits)
  have W1: "nonce_wf (d_sodnonce W1)" "d_default_key W1 = d_default_key W"
    using step Cons.prems(2)
    by (auto simp: encryptMsg_def encryptMsgWithKey_def sodEncryptSym_def split: if_splits)
  have enc: "decryptMsg B key (snd (encryptMsgWithKey B msg key n)) = Inr (Some msg)" if "nonce_wf n" for key n
    using packet_decrypts[OF assms(1) that] .
  have head: "(\<not> wants ty s \<longrightarrow> s1 = s)
      \<and> (wants ty s \<and> \<not> (d_has_key s \<and> d_key s = d_default_key W) \<longrightarrow> gets B (d_default_key W) msg s s1)
      \<and> (wants ty s \<and> d_has_key s \<and> d_key s = d_default_key W \<longrightarrow> s1 = queueMsg [] s)"
    using step enc[OF nw, of "d_key s"] enc[OF Cons.prems(2), of "d_default_key W"]
    by (auto simp: gets_def queueMsg_def encryptMsg_def split: if_splits prod.splits)
  show ?case
  proof (cases i)
    case 0
    then show ?thesis using head fs' by simp
  next
    case (Suc j)
    then show ?thesis using Cons.IH[OF rest W1(1), of j] Cons.prems fs' W1(2) by simp
  qed
qed simp

lemma replicate_full: "i < length (d_siblings W) \<Longrightarrow> max_queue_size (d_siblings W ! i) \<le> length (queue (d_siblings W ! i)) \<Longrightarrow>
  queue (d_siblings (replicateOperation B C r W) ! i) = queue (d_siblings W ! i)"
  by (simp add: replicateOperation_def encryptMsg_def queue_packet_def queueMsg_def Let_def split: prod.split)

lemma replicate_gets:
  assumes "codec_ok C" "secretbox_ok B" "rep_wf r" "nonces_ok W" "i < length (d_siblings W)"
  shows "gets B (d_default_key W) (rep_serialize C r) (d_siblings W ! i) (d_siblings (replicateOperation B C r W) ! i)"
proof (cases "length (queue (d_siblings W ! i)) < max_queue_size (d_siblings W ! i)")
  case True
  let ?s = "d_siblings W ! i" and ?msg = "rep_serialize C r"
  let ?p = "snd (encryptMsgWithKey B ?msg (d_default_key W) (d_sodnonce W))"
  have n: "nonce_wf (d_nonce ?s)" "nonce_wf (d_sodnonce W)" using assms(4,5) by (auto simp: nonces_ok_def)
  have "d_siblings (replicateOperation B C r W) ! i = queue_packet B (d_default_key W) ?msg ?p ?s"
    using assms(5) by (simp add: replicateOperation_def encryptMsg_def Let_def split: prod.split)
  then show ?thesis
    using queue_packet_room[OF assms(2) n(1) packet_decrypts[OF assms(2) n(2)] True, of "d_default_key W" ?msg] True
    by (simp add: gets_def)
next
  case False
  then show ?thesis using replicate_full[OF assms(5)] by (simp add: gets_def)
qed

lemma rep_wf_forwarded: "rep_wf r \<Longrightarrow> rep_wf (r\<lparr>forwarded := b\<rparr>)"
  by (auto split: option.splits AnyReplicationOperation.splits)

section \<open>Properties\<close>

definition fwd_nonces_ok :: "ReplfwdReplication \<Rightarrow> bool" where
  "fwd_nonces_ok F \<longleftrightarrow> nonces_ok (fwd_base F) \<and> (\<forall>s \<in> set (d_repl_forwarders F). nonce_wf (d_nonce s))"

text \<open>
  C19. An operation crosses between the clusters at most once. When the worker takes an operation from the
  queue: if it carries the forwarded flag, it goes to every sibling (that has room) with the flag cleared
  and to no forwarder; otherwise it goes, with the flag set, to exactly those forwarders that have
  subscribed to its kind (and whose own key, if any, differs from the default key), and to no sibling.
\<close>

theorem forwarding_crosses_once:
  assumes C: "codec_ok C" and B: "secretbox_ok B" and r: "rep_wf r" and n: "fwd_nonces_ok F"
    and q: "d_sibling_queue (fwd_base F) = sqi # rest" and m: "sqi_msg sqi = rep_serialize C r"
  shows "\<exists>F'. fwd_worker B C F = Some F'
    \<and> (if forwarded r
        then d_repl_forwarders F' = d_repl_forwarders F
          \<and> (\<forall>i < length (d_siblings (fwd_base F)).
               gets B (d_default_key (fwd_base F)) (rep_serialize C (r\<lparr>forwarded := False\<rparr>))
                 (d_siblings (fwd_base F) ! i) (d_siblings (fwd_base F') ! i))
        else map queue (d_siblings (fwd_base F')) = map queue (d_siblings (fwd_base F))
          \<and> (\<forall>i < length (d_repl_forwarders F). let s = d_repl_forwarders F ! i; s' = d_repl_forwarders F' ! i in
               (\<not> wants (obj_type r) s \<longrightarrow> s' = s)
               \<and> (wants (obj_type r) s \<and> \<not> (d_has_key s \<and> d_key s = d_default_key (fwd_base F)) \<longrightarrow>
                   gets B (d_default_key (fwd_base F)) (rep_serialize C (r\<lparr>forwarded := True\<rparr>)) s s')))"
proof -
  define F1 where "F1 = F\<lparr>fwd_base := (fwd_base F)\<lparr>d_sibling_queue := rest\<rparr>\<rparr>"
  define F2 where "F2 = fwd_rcvd True (sqi_recv_sibling sqi) F1"
  have un: "rep_unserialize C (sqi_msg sqi) empty_ReplicationOperation = (r, True)" using rep_roundtrip[OF C r] m by simp
  have n2: "nonces_ok (fwd_base F2)" unfolding F2_def
    by (rule nonces_ok_rcvd) (use n in \<open>simp add: F1_def fwd_nonces_ok_def nonces_ok_def\<close>)
  have key: "d_default_key (fwd_base F2) = d_default_key (fwd_base F)" "d_repl_forwarders F2 = d_repl_forwarders F"
    "length (d_siblings (fwd_base F2)) = length (d_siblings (fwd_base F))"
    by (simp_all add: F2_def F1_def fwd_rcvd_siblings)
  have sib: "queue (d_siblings (fwd_base F2) ! i) = queue (d_siblings (fwd_base F) ! i)
      \<and> max_queue_size (d_siblings (fwd_base F2) ! i) = max_queue_size (d_siblings (fwd_base F) ! i)
      \<and> d_has_key (d_siblings (fwd_base F2) ! i) = d_has_key (d_siblings (fwd_base F) ! i)
      \<and> d_key (d_siblings (fwd_base F2) ! i) = d_key (d_siblings (fwd_base F) ! i)"
    if "i < length (d_siblings (fwd_base F))" for i
    using that fwd_rcvd_siblings(2)[of i F1 True "sqi_recv_sibling sqi"] by (simp add: F2_def F1_def Let_def)
  show ?thesis
  proof (cases "forwarded r")
    case True
    have r': "rep_wf (r\<lparr>forwarded := False\<rparr>)" using r by (rule rep_wf_forwarded)
    have "fwd_worker B C F = Some (F2\<lparr>fwd_base := replicateOperation B C (r\<lparr>forwarded := False\<rparr>) (fwd_base F2)\<rparr>)"
      using q un True by (simp add: fwd_worker_def Let_def F2_def F1_def)
    moreover have "gets B (d_default_key (fwd_base F)) (rep_serialize C (r\<lparr>forwarded := False\<rparr>))
        (d_siblings (fwd_base F) ! i) (d_siblings (replicateOperation B C (r\<lparr>forwarded := False\<rparr>) (fwd_base F2)) ! i)"
      if "i < length (d_siblings (fwd_base F))" for i
    proof -
      have "gets B (d_default_key (fwd_base F2)) (rep_serialize C (r\<lparr>forwarded := False\<rparr>)) (d_siblings (fwd_base F2) ! i)
          (d_siblings (replicateOperation B C (r\<lparr>forwarded := False\<rparr>) (fwd_base F2)) ! i)"
        using replicate_gets[OF C B r' n2] that key(3) by simp
      with sib[OF that] key(1) show ?thesis by (metis gets_cong)
    qed
    ultimately show ?thesis using True key(2) by simp
  next
    case False
    obtain W fs where loop: "forward_loop B (obj_type r) (rep_serialize C (r\<lparr>forwarded := True\<rparr>)) (fwd_base F2) (d_repl_forwarders F) = (W, fs)"
      by fastforce
    have step: "fwd_worker B C F = Some (F2\<lparr>fwd_base := W, d_repl_forwarders := fs\<rparr>)"
      using q un False loop key(2) by (simp add: fwd_worker_def Let_def F2_def F1_def)
    have "map queue (d_siblings (fwd_base F2)) = map queue (d_siblings (fwd_base F))"
      using sib key(3) by (intro nth_equalityI) simp_all
    then have q: "map queue (d_siblings W) = map queue (d_siblings (fwd_base F))"
      using forward_loop_frame[OF loop] by simp
    have nn: "nonce_wf (d_sodnonce (fwd_base F2))" "\<forall>s \<in> set (d_repl_forwarders F). nonce_wf (d_nonce s)"
      using n n2 by (auto simp: fwd_nonces_ok_def nonces_ok_def)
    show ?thesis
      using step q forward_loop_spec[OF B loop nn] False key(1) by (simp add: Let_def)
  qed
qed

definition demo_fwd :: "bool \<Rightarrow> ReplfwdReplication" where
  "demo_fwd own_key =
     \<lparr>fwd_base = demo_repl\<lparr>d_sibling_queue :=
        [queue_item CA_None (CA_V4 0x0A000000 4001) (rep_serialize demo_codec (list_op BLACKLIST (bl_op BLAdd 1 ''joe'' 60 ''abuse'')))]\<rparr>,
      d_repl_forwarders = [demo_sibling\<lparr>d_has_key := own_key, d_key := (if own_key then ''secret'' else [])\<rparr>],
      d_repl_forwarders_src = []\<rparr>"

lemma demo_fwd_ok: "fwd_nonces_ok (demo_fwd own)"
  using demo_repl_ok by (simp add: fwd_nonces_ok_def demo_fwd_def nonces_ok_def demo_sibling_def nonce_wf_def
      crypto_secretbox_NONCEBYTES_def)

abbreviation demo_list_op :: ReplicationOperation where
  "demo_list_op \<equiv> list_op BLACKLIST (bl_op BLAdd 1 ''joe'' 60 ''abuse'')"

lemma demo_fwd_simps:
  "d_sibling_queue (fwd_base (demo_fwd own)) = [queue_item CA_None (CA_V4 0x0A000000 4001) (rep_serialize demo_codec demo_list_op)]"
  "d_default_key (fwd_base (demo_fwd own)) = ''secret''"
  "map queue (d_siblings (fwd_base (demo_fwd own))) = [[]]"
  "length (d_repl_forwarders (demo_fwd own)) = 1"
  "wants BlacklistType (d_repl_forwarders (demo_fwd own) ! 0)"
  "queue (d_repl_forwarders (demo_fwd own) ! 0) = []" "max_queue_size (d_repl_forwarders (demo_fwd own) ! 0) = 1"
  "d_has_key (d_repl_forwarders (demo_fwd own) ! 0) = own"
  "d_key (d_repl_forwarders (demo_fwd own) ! 0) = (if own then ''secret'' else [])"
  "forwarded demo_list_op = False" "obj_type demo_list_op = BlacklistType"
  by (simp_all add: demo_fwd_def demo_sibling_def demo_repl_def new_WforceReplication_def wants_def list_op_def
      new_ReplicationOperation_def)

lemma demo_item_msg: "sqi_msg (queue_item CA_None (CA_V4 0x0A000000 4001) m) = m"
  by (simp add: queue_item_def)

theorem forwarding_crosses_once_witness:
  "\<exists>F'. fwd_worker demo_box demo_codec (demo_fwd False) = Some F'
     \<and> map queue (d_siblings (fwd_base F')) = [[]] \<and> length (queue (d_repl_forwarders F' ! 0)) = 1"
proof -
  from forwarding_crosses_once[OF demo_codec_ok demo_box_ok list_op_wf demo_fwd_ok demo_fwd_simps(1) demo_item_msg, of False]
  obtain F' where "fwd_worker demo_box demo_codec (demo_fwd False) = Some F'"
    "map queue (d_siblings (fwd_base F')) = [[]]"
    "gets demo_box ''secret'' (rep_serialize demo_codec (demo_list_op\<lparr>forwarded := True\<rparr>)) (d_repl_forwarders (demo_fwd False) ! 0)
       (d_repl_forwarders F' ! 0)"
    by (simp only: demo_fwd_simps if_False Let_def) (auto simp: demo_fwd_simps)
  then show ?thesis by (auto simp: gets_def demo_fwd_simps)
qed

text \<open>
  A forwarder that has been given a key of its own equal to the default key gets empty packets instead of
  operations, and on a TCP connection an empty packet makes the receiver drop the connection.
\<close>

lemma forwarder_with_default_key_gets_nothing:
  assumes C: "codec_ok C" and B: "secretbox_ok B" and r: "rep_wf r" "\<not> forwarded r" and n: "fwd_nonces_ok F"
    and q: "d_sibling_queue (fwd_base F) = sqi # rest" and m: "sqi_msg sqi = rep_serialize C r"
    and i: "i < length (d_repl_forwarders F)" and s: "s = d_repl_forwarders F ! i" "wants (obj_type r) s"
    and key: "d_has_key s" "d_key s = d_default_key (fwd_base F)" and room: "length (queue s) < max_queue_size s"
  shows "(\<exists>F'. fwd_worker B C F = Some F' \<and> queue (d_repl_forwarders F' ! i) = queue s @ [[]])
    \<and> parseTCPReplication B remote ca (frame_of [] @ more_bytes) W = W"
proof
  define F1 where "F1 = F\<lparr>fwd_base := (fwd_base F)\<lparr>d_sibling_queue := rest\<rparr>\<rparr>"
  define F2 where "F2 = fwd_rcvd True (sqi_recv_sibling sqi) F1"
  have un: "rep_unserialize C (sqi_msg sqi) empty_ReplicationOperation = (r, True)" using rep_roundtrip[OF C r(1)] m by simp
  have k2: "d_default_key (fwd_base F2) = d_default_key (fwd_base F)" "d_repl_forwarders F2 = d_repl_forwarders F"
    "d_sodnonce (fwd_base F2) = d_sodnonce (fwd_base F)"
    by (simp_all add: F2_def F1_def)
  obtain V fs where loop: "forward_loop B (obj_type r) (rep_serialize C (r\<lparr>forwarded := True\<rparr>)) (fwd_base F2) (d_repl_forwarders F) = (V, fs)"
    by fastforce
  have "fwd_worker B C F = Some (F2\<lparr>fwd_base := V, d_repl_forwarders := fs\<rparr>)"
    using q un r(2) loop k2(2) by (simp add: fwd_worker_def Let_def F2_def F1_def)
  moreover have "fs ! i = queueMsg [] s"
    using forward_loop_spec[OF B loop _ _ i] n s key k2 by (auto simp: fwd_nonces_ok_def nonces_ok_def)
  ultimately show "\<exists>F'. fwd_worker B C F = Some F' \<and> queue (d_repl_forwarders F' ! i) = queue s @ [[]]"
    using room by (simp add: queueMsg_def)
  have "from_be16 (take 2 (frame_of [] @ more_bytes)) = 0" by (simp add: frame_of_def size_bytes_value)
  then show "parseTCPReplication B remote ca (frame_of [] @ more_bytes) W = W"
    by (subst parseTCPReplication.simps) (simp add: Let_def)
qed

end
