(* ===== verification/Json.thy ===== *)
theory Json
  imports Wf_Prelude
begin

text \<open>
  JSON values as the program sees them through \<^verbatim>\<open>json11\<close>: the value type, its constructors and its
  accessors, which return a default when the value has another type. An object is a \<^verbatim>\<open>std::map\<close>.
  A \<^verbatim>\<open>double\<close> is its 64-bit pattern; what the program uses of floating point (the conversions between \<^verbatim>\<open>int\<close>
  and \<^verbatim>\<open>double\<close>, \<^verbatim>\<open>isfinite\<close>, the format \<^verbatim>\<open>%.17g\<close> of \<^verbatim>\<open>snprintf\<close>, and \<^verbatim>\<open>strtod\<close>) are the fields of \<open>json_lib\<close>, an
  argument of the definitions that use them.
\<close>

type_synonym double = "64 word"

datatype Json =
    JNull
  | JInt int
  | JDouble double
  | JBool bool
  | JString string
  | JArray "Json list"
  | JObject "(string \<times> Json) list"

record json_lib =
  isfinite_d :: "double \<Rightarrow> bool"
  fmt_g17 :: "double \<Rightarrow> string"
  strtod :: "string \<Rightarrow> double"
  double_of_int :: "int \<Rightarrow> double"
  int_of_double :: "double \<Rightarrow> int"

fun is_null :: "Json \<Rightarrow> bool" where
  "is_null JNull = True"
| "is_null _ = False"

fun is_string :: "Json \<Rightarrow> bool" where
  "is_string (JString _) = True"
| "is_string _ = False"

fun is_array :: "Json \<Rightarrow> bool" where
  "is_array (JArray _) = True"
| "is_array _ = False"

fun is_object :: "Json \<Rightarrow> bool" where
  "is_object (JObject _) = True"
| "is_object _ = False"

fun number_value :: "json_lib \<Rightarrow> Json \<Rightarrow> double" where
  "number_value J (JInt n) = double_of_int J n"
| "number_value J (JDouble d) = d"
| "number_value J _ = double_of_int J 0"

fun int_value :: "json_lib \<Rightarrow> Json \<Rightarrow> int" where
  "int_value J (JInt n) = n"
| "int_value J (JDouble d) = int_of_double J d"
| "int_value J _ = 0"

fun bool_value :: "Json \<Rightarrow> bool" where
  "bool_value (JBool b) = b"
| "bool_value _ = False"

fun string_value :: "Json \<Rightarrow> string" where
  "string_value (JString s) = s"
| "string_value _ = []"

fun array_items :: "Json \<Rightarrow> Json list" where
  "array_items (JArray v) = v"
| "array_items _ = []"

fun object_items :: "Json \<Rightarrow> (string \<times> Json) list" where
  "object_items (JObject m) = m"
| "object_items _ = []"

fun js_get :: "Json \<Rightarrow> string \<Rightarrow> Json" where
  "js_get (JObject m) k = (case map_of m k of None \<Rightarrow> JNull | Some v \<Rightarrow> v)"
| "js_get _ k = JNull"

text \<open>A brace-enclosed list of pairs inserts each key once, the first value winning.\<close>

definition js_object :: "(string \<times> Json) list \<Rightarrow> Json" where
  "js_object kvs = JObject (fold (\<lambda>(k, v). sm_insert k v) kvs [])"

section \<open>Reading back what was built\<close>

lemma fold_insert_ok: "sm_ok m \<Longrightarrow> sm_ok (fold (\<lambda>(k, v). sm_insert k v) kvs m)"
  by (induction kvs arbitrary: m) auto

lemma map_of_fold_insert:
  "sm_ok m \<Longrightarrow> map_of (fold (\<lambda>(k, v). sm_insert k v) kvs m) k =
     (case map_of m k of Some v \<Rightarrow> Some v | None \<Rightarrow> map_of kvs k)"
proof (induction kvs arbitrary: m)
  case (Cons kv kvs)
  then show ?case by (cases kv) (auto simp: map_of_sm_insert split: option.splits)
qed (simp split: option.split)

lemma js_get_object: "js_get (js_object kvs) k = (case map_of kvs k of None \<Rightarrow> JNull | Some v \<Rightarrow> v)"
  by (simp add: js_object_def map_of_fold_insert)

lemma fold_insert_sorted: "sm_ok kvs \<Longrightarrow> fold (\<lambda>(k, v). sm_insert k v) kvs [] = kvs"
proof -
  have app: "sm_insert k v m = m @ [(k, v)]" if "\<forall>x \<in> set m. fst x < k" for k :: "'a::linorder" and v :: 'b and m
    using that by (induction m) auto
  have "fold (\<lambda>(k, v). sm_insert k v) kvs m = m @ kvs" if "sm_ok (m @ kvs)" for m
    using that
  proof (induction kvs arbitrary: m)
    case (Cons kv kvs)
    obtain k v where kv: "kv = (k, v)" by fastforce
    have "\<forall>x \<in> set m. fst x < k" using Cons.prems kv by (auto simp: sm_ok_def sorted_wrt_append)
    then show ?case using Cons.IH[of "m @ [kv]"] Cons.prems kv app by simp
  qed simp
  then show "sm_ok kvs \<Longrightarrow> fold (\<lambda>(k, v). sm_insert k v) kvs [] = kvs" by simp
qed

end
