(* ===== verification/Json_Text.thy ===== *)
theory Json_Text
  imports Json
begin

text \<open>
  The printer and the parser of \<^verbatim>\<open>json11\<close> (\<^verbatim>\<open>ext/json11/json11.cpp\<close>), with the default strategy, which is the only one the
  program uses. The parser works on the rest of the input instead of an index into it. A failure is \<open>Inl\<close> of the first
  error text, of the value that the failing function returns and of the input that is left: after the first failure
  every function of the parser returns without looking at the input again, so the text is never replaced.
  Characters are signed, as on the platforms of the program.
\<close>

section \<open>Printing\<close>

abbreviation bslash :: char where "bslash \<equiv> CHR 0x5C"
abbreviation dquote :: char where "dquote \<equiv> CHR 0x22"

definition hex_char :: "nat \<Rightarrow> char" where
  "hex_char d = char_of (if d < 10 then 48 + d else 87 + d)"

text \<open>The format \<^verbatim>\<open>%04x\<close>, for arguments below 65536.\<close>

definition hex4 :: "nat \<Rightarrow> string" where
  "hex4 n = map hex_char [n div 4096 mod 16, n div 256 mod 16, n div 16 mod 16, n mod 16]"

fun dump_chars :: "string \<Rightarrow> string" where
  "dump_chars [] = []"
| "dump_chars (ch # r) =
     (if ch = bslash then [bslash, bslash] @ dump_chars r
      else if ch = dquote then [bslash, dquote] @ dump_chars r
      else if ch = CHR 0x08 then [bslash, CHR ''b''] @ dump_chars r
      else if ch = CHR 0x0C then [bslash, CHR ''f''] @ dump_chars r
      else if ch = CHR 0x0A then [bslash, CHR ''n''] @ dump_chars r
      else if ch = CHR 0x0D then [bslash, CHR ''r''] @ dump_chars r
      else if ch = CHR 0x09 then [bslash, CHR ''t''] @ dump_chars r
      else if (of_char ch :: nat) \<le> 0x1f then [bslash, CHR ''u''] @ hex4 (of_char ch) @ dump_chars r
      else if ch = CHR 0xE2 \<and> take 2 r = [CHR 0x80, CHR 0xA8] then [bslash] @ ''u2028'' @ dump_chars (drop 2 r)
      else if ch = CHR 0xE2 \<and> take 2 r = [CHR 0x80, CHR 0xA9] then [bslash] @ ''u2029'' @ dump_chars (drop 2 r)
      else ch # dump_chars r)"

definition dump_string :: "string \<Rightarrow> string" where
  "dump_string value = [dquote] @ dump_chars value @ [dquote]"

fun commas :: "string list \<Rightarrow> string" where
  "commas [] = []"
| "commas [x] = x"
| "commas (x # y # xs) = x @ '', '' @ commas (y # xs)"

fun js_dump :: "json_lib \<Rightarrow> Json \<Rightarrow> string" where
  "js_dump J JNull = ''null''"
| "js_dump J (JDouble d) = (if isfinite_d J d then fmt_g17 J d else ''null'')"
| "js_dump J (JInt n) = int_to_string n"
| "js_dump J (JBool b) = (if b then ''true'' else ''false'')"
| "js_dump J (JString s) = dump_string s"
| "js_dump J (JArray vs) = ''['' @ commas (map (js_dump J) vs) @ '']''"
| "js_dump J (JObject m) = ''{'' @ commas (map (\<lambda>(k, v). dump_string k @ '': '' @ js_dump J v) m) @ ''}''"

section \<open>Parsing\<close>

definition signed_char :: "char \<Rightarrow> int" where
  "signed_char c = (let n = int (of_char c) in if n < 128 then n else n - 256)"

definition esc :: "char \<Rightarrow> string" where
  "esc c =
     (if 0x20 \<le> (of_char c :: nat) \<and> (of_char c :: nat) \<le> 0x7f
      then [CHR 0x27, c, CHR 0x27] @ '' ('' @ int_to_string (signed_char c) @ '')''
      else ''('' @ int_to_string (signed_char c) @ '')'')"

definition is_blank :: "char \<Rightarrow> bool" where
  "is_blank c \<longleftrightarrow> c = CHR '' '' \<or> c = CHR 0x0D \<or> c = CHR 0x0A \<or> c = CHR 0x09"

definition consume_whitespace :: "string \<Rightarrow> string" where
  "consume_whitespace = dropWhile is_blank"

type_synonym failure = "string \<times> Json \<times> string"

text \<open>Going on with what was read unless there was a failure; a failure inside an object or array returns null.\<close>

fun ebind :: "failure + 'a \<times> string \<Rightarrow> ('a \<Rightarrow> string \<Rightarrow> failure + 'b) \<Rightarrow> failure + 'b" where
  "ebind (Inl e) f = Inl e"
| "ebind (Inr (a, r)) f = f a r"

fun nested :: "failure + 'a \<Rightarrow> failure + 'a" where
  "nested (Inl (e, v, r)) = Inl (e, JNull, r)"
| "nested (Inr x) = Inr x"

lemma ebind_cong [fundef_cong]:
  "m = m' \<Longrightarrow> (\<And>a r. m' = Inr (a, r) \<Longrightarrow> f a r = g a r) \<Longrightarrow> ebind m f = ebind m' g"
  by (cases m') (auto elim: ebind.elims)

lemma ebind_Inr_iff: "ebind m f = Inr x \<longleftrightarrow> (\<exists>a r. m = Inr (a, r) \<and> f a r = Inr x)"
  by (cases "(m, f)" rule: ebind.cases) auto

lemma nested_Inr_iff: "nested m = Inr x \<longleftrightarrow> m = Inr x"
  by (cases m rule: nested.cases) auto

definition get_next_token :: "string \<Rightarrow> failure + char \<times> string" where
  "get_next_token s =
     (case consume_whitespace s of [] \<Rightarrow> Inl (''unexpected end of input'', JNull, []) | c # r \<Rightarrow> Inr (c, r))"

definition encode_utf8 :: "int \<Rightarrow> string" where
  "encode_utf8 pt =
     (let n = nat pt; byte = (\<lambda>k. char_of (k :: nat))
      in if pt < 0 then []
         else if n < 0x80 then [byte n]
         else if n < 0x800 then [byte (n div 64 + 0xC0), byte (n mod 64 + 0x80)]
         else if n < 0x10000 then [byte (n div 4096 + 0xE0), byte (n div 64 mod 64 + 0x80), byte (n mod 64 + 0x80)]
         else [byte (n div 262144 + 0xF0), byte (n div 4096 mod 64 + 0x80), byte (n div 64 mod 64 + 0x80), byte (n mod 64 + 0x80)])"

definition is_hex :: "char \<Rightarrow> bool" where
  "is_hex c \<longleftrightarrow> (let n = of_char c :: nat in 97 \<le> n \<and> n \<le> 102 \<or> 65 \<le> n \<and> n \<le> 70 \<or> 48 \<le> n \<and> n \<le> 57)"

definition hex_digit :: "char \<Rightarrow> nat" where
  "hex_digit c = (let n = of_char c in if n \<le> 57 then n - 48 else if n \<le> 70 then n - 55 else n - 87)"

definition strtol16 :: "string \<Rightarrow> int" where
  "strtol16 s = int (foldl (\<lambda>n c. 16 * n + hex_digit c) 0 s)"

definition lead_surrogate :: "int \<Rightarrow> bool" where
  "lead_surrogate pt \<longleftrightarrow> 0xD800 \<le> pt \<and> pt \<le> 0xDBFF"

definition trail_surrogate :: "int \<Rightarrow> bool" where
  "trail_surrogate pt \<longleftrightarrow> 0xDC00 \<le> pt \<and> pt \<le> 0xDFFF"

definition simple_escape :: "char \<Rightarrow> char option" where
  "simple_escape ch =
     (if ch = CHR ''b'' then Some (CHR 0x08)
      else if ch = CHR ''f'' then Some (CHR 0x0C)
      else if ch = CHR ''n'' then Some (CHR 0x0A)
      else if ch = CHR ''r'' then Some (CHR 0x0D)
      else if ch = CHR ''t'' then Some (CHR 0x09)
      else if ch = dquote \<or> ch = bslash \<or> ch = CHR ''/'' then Some ch
      else None)"

text \<open>The loop of \<^verbatim>\<open>parse_string\<close>, with the output and the code point of the last escape that is not yet written.\<close>

fun parse_string :: "string \<Rightarrow> string \<Rightarrow> int \<Rightarrow> (string \<times> string) + (string \<times> string)" where
  "parse_string [] out last_cp = Inl (''unexpected end of input in string'', [])"
| "parse_string (ch # r) out last_cp =
     (if ch = dquote then Inr (out @ encode_utf8 last_cp, r)
      else if 0 \<le> signed_char ch \<and> signed_char ch \<le> 0x1f then Inl (''unescaped '' @ esc ch @ '' in string'', r)
      else if ch \<noteq> bslash then parse_string r (out @ encode_utf8 last_cp @ [ch]) (- 1)
      else case r of
             [] \<Rightarrow> Inl (''unexpected end of input in string'', [])
           | ch2 # r2 \<Rightarrow>
               (if ch2 = CHR ''u'' then
                  (let e = take 4 r2
                   in if length e < 4 \<or> \<not> list_all is_hex e then Inl (''bad '' @ [bslash] @ ''u escape: '' @ e, r2)
                      else
                        (let codepoint = strtol16 e
                         in if lead_surrogate last_cp \<and> trail_surrogate codepoint
                            then parse_string (drop 4 r2)
                                   (out @ encode_utf8 ((last_cp - 0xD800) * 1024 + (codepoint - 0xDC00) + 0x10000)) (- 1)
                            else parse_string (drop 4 r2) (out @ encode_utf8 last_cp) codepoint))
                else case simple_escape ch2 of
                       Some c \<Rightarrow> parse_string r2 (out @ encode_utf8 last_cp @ [c]) (- 1)
                     | None \<Rightarrow> Inl (''invalid escape character '' @ esc ch2, r2)))"

text \<open>The character at the current position; at the end of the input it is the terminating NUL.\<close>

definition at :: "string \<Rightarrow> char" where
  "at s = (case s of [] \<Rightarrow> CHR 0x00 | c # _ \<Rightarrow> c)"

definition atoi :: "string \<Rightarrow> int" where
  "atoi s =
     (if at s = CHR ''-'' then - int (digits_value (takeWhile isdigit_c (tl s))) else int (digits_value (takeWhile isdigit_c s)))"

definition parse_fraction :: "string \<Rightarrow> failure + string" where
  "parse_fraction s =
     (if at s = CHR ''.'' then
        (if \<not> isdigit_c (at (tl s)) then Inl (''at least one digit required in fractional part'', JNull, tl s)
         else Inr (dropWhile isdigit_c (tl s)))
      else Inr s)"

definition parse_exponent :: "string \<Rightarrow> failure + string" where
  "parse_exponent s =
     (if at s = CHR ''e'' \<or> at s = CHR ''E'' then
        (let r = (if at (tl s) = CHR ''+'' \<or> at (tl s) = CHR ''-'' then tl (tl s) else tl s)
         in if \<not> isdigit_c (at r) then Inl (''at least one digit required in exponent'', JNull, r)
            else Inr (dropWhile isdigit_c r))
      else Inr s)"

definition parse_int_part :: "string \<Rightarrow> failure + string" where
  "parse_int_part s =
     (if at s = CHR ''0'' then
        (if isdigit_c (at (tl s)) then Inl (''leading 0s not permitted in numbers'', JNull, tl s) else Inr (tl s))
      else if isdigit_c (at s) then Inr (dropWhile isdigit_c s)
      else Inl (''invalid '' @ esc (at s) @ '' in number'', JNull, s))"

text \<open>
  The text that \<^verbatim>\<open>strtod\<close> is given ends where the scan has stopped: \<^verbatim>\<open>strtod\<close> reads the same longest number, except for a
  hexadecimal one, which after its leading zero never gets here.
\<close>

definition parse_number :: "json_lib \<Rightarrow> string \<Rightarrow> failure + (Json \<times> string)" where
  "parse_number J s =
     (case parse_int_part (if at s = CHR ''-'' then tl s else s) of
        Inl e \<Rightarrow> Inl e
      | Inr r \<Rightarrow>
          (if at r \<noteq> CHR ''.'' \<and> at r \<noteq> CHR ''e'' \<and> at r \<noteq> CHR ''E'' \<and> length s - length r \<le> 9 then Inr (JInt (atoi s), r)
           else case parse_fraction r of
                  Inl e \<Rightarrow> Inl e
                | Inr r2 \<Rightarrow>
                    (case parse_exponent r2 of
                       Inl e \<Rightarrow> Inl e
                     | Inr r3 \<Rightarrow> Inr (JDouble (strtod J (take (length s - length r3) s)), r3))))"

definition expect :: "string \<Rightarrow> Json \<Rightarrow> string \<Rightarrow> failure + (Json \<times> string)" where
  "expect expected res s =
     (if take (length expected) s = expected then Inr (res, drop (length expected) s)
      else Inl (''parse error: expected '' @ expected @ '', got '' @ take (length expected) s, JNull, s))"

definition max_depth :: nat where "max_depth = 200"

text \<open>The branches of \<^verbatim>\<open>parse_json\<close> that do not go into an object or array, with the error of the last one.\<close>

definition parse_scalar :: "json_lib \<Rightarrow> char \<Rightarrow> string \<Rightarrow> failure + (Json \<times> string)" where
  "parse_scalar J ch r =
     (if ch = CHR ''-'' \<or> isdigit_c ch then parse_number J (ch # r)
      else if ch = CHR ''t'' then expect ''true'' (JBool True) (ch # r)
      else if ch = CHR ''f'' then expect ''false'' (JBool False) (ch # r)
      else if ch = CHR ''n'' then expect ''null'' JNull (ch # r)
      else if ch = dquote then
        (case parse_string r [] (- 1) of Inl (e, r2) \<Rightarrow> Inl (e, JString [], r2) | Inr (v, r2) \<Rightarrow> Inr (JString v, r2))
      else Inl (''expected value, got '' @ esc ch, JNull, r))"

text \<open>The key of a member.\<close>

definition parse_key :: "char \<Rightarrow> string \<Rightarrow> failure + (string \<times> string)" where
  "parse_key ch s =
     (if ch \<noteq> dquote then Inl (''expected '' @ [CHR 0x27, dquote, CHR 0x27] @ '' in object, got '' @ esc ch, JNull, s)
      else case parse_string s [] (- 1) of
        Inl (e, r) \<Rightarrow> Inl (e, JNull, r)
      | Inr (key, r) \<Rightarrow>
          ebind (get_next_token r) (\<lambda>c r2.
            if c \<noteq> CHR '':'' then Inl (''expected '' @ [CHR 0x27, CHR '':'', CHR 0x27] @ '' in object, got '' @ esc c, JNull, r2)
            else Inr (key, r2)))"

text \<open>After a member or element: the closing character, or a comma and the start of the next one.\<close>

definition after_item :: "char \<Rightarrow> string \<Rightarrow> string \<Rightarrow> failure + (char option \<times> string)" where
  "after_item close what s =
     ebind (get_next_token s) (\<lambda>c r.
       if c = close then Inr (None, r)
       else if c \<noteq> CHR '','' then Inl (''expected '' @ [CHR 0x27, CHR '','', CHR 0x27] @ '' in '' @ what @ '', got '' @ esc c, JNull, r)
       else ebind (get_next_token r) (\<lambda>c2 r2. Inr (Some c2, r2)))"

function parse_json :: "json_lib \<Rightarrow> nat \<Rightarrow> string \<Rightarrow> failure + (Json \<times> string)"
  and parse_members :: "json_lib \<Rightarrow> nat \<Rightarrow> (string \<times> Json) list \<Rightarrow> char \<Rightarrow> string \<Rightarrow> failure + (Json \<times> string)"
  and parse_elements :: "json_lib \<Rightarrow> nat \<Rightarrow> Json list \<Rightarrow> string \<Rightarrow> failure + (Json \<times> string)" where
  "parse_json J depth s =
     (if max_depth < depth then Inl (''exceeded maximum nesting depth'', JNull, s)
      else ebind (get_next_token s) (\<lambda>ch r.
        if ch = CHR ''{'' then
          ebind (get_next_token r) (\<lambda>c r2. if c = CHR ''}'' then Inr (JObject [], r2) else parse_members J depth [] c r2)
        else if ch = CHR ''['' then
          ebind (get_next_token r) (\<lambda>c r2. if c = CHR '']'' then Inr (JArray [], r2) else parse_elements J depth [] (c # r2))
        else parse_scalar J ch r))"
| "parse_members J depth data ch s =
     ebind (parse_key ch s) (\<lambda>key r.
       ebind (nested (parse_json J (depth + 1) r)) (\<lambda>v r2.
         ebind (after_item (CHR ''}'') ''object'' r2) (\<lambda>nxt r3.
           case nxt of
             None \<Rightarrow> Inr (JObject (sm_assign key v data), r3)
           | Some c \<Rightarrow> parse_members J depth (sm_assign key v data) c r3)))"
| "parse_elements J depth data s =
     ebind (nested (parse_json J (depth + 1) s)) (\<lambda>v r.
       ebind (after_item (CHR '']'') ''list'' r) (\<lambda>nxt r2.
         case nxt of
           None \<Rightarrow> Inr (JArray (data @ [v]), r2)
         | Some c \<Rightarrow> parse_elements J depth (data @ [v]) (c # r2)))"
  by pat_completeness auto

text \<open>Every function of the parser leaves less input than it was given; the recursion ends for this reason.\<close>

lemma get_next_token_shorter: "get_next_token s = Inr (c, r) \<Longrightarrow> length r < length s"
  using length_dropWhile_le[of is_blank s]
  by (auto simp: get_next_token_def consume_whitespace_def split: list.splits)

lemma parse_string_shorter: "parse_string s out cp = Inr (v, r) \<Longrightarrow> length r < length s"
  by (induction s out cp rule: parse_string.induct) (force simp: Let_def split: if_splits list.splits option.splits)+

lemma parse_int_part_shorter: "parse_int_part s = Inr r \<Longrightarrow> length r < length s"
  using length_dropWhile_le[of isdigit_c "tl s"]
  by (cases s) (auto simp: parse_int_part_def at_def isdigit_c_def split: if_splits)

lemma parse_fraction_shorter: "parse_fraction s = Inr r \<Longrightarrow> length r \<le> length s"
  using length_dropWhile_le[of isdigit_c "tl s"] by (auto simp: parse_fraction_def split: if_splits)

lemma parse_exponent_shorter: "parse_exponent s = Inr r \<Longrightarrow> length r \<le> length s"
  using length_dropWhile_le[of isdigit_c "tl s"] length_dropWhile_le[of isdigit_c "tl (tl s)"]
  by (auto simp: parse_exponent_def Let_def split: if_splits)

lemma parse_number_shorter: "parse_number J s = Inr (v, r) \<Longrightarrow> length r < length s"
  by (auto simp: parse_number_def split: if_splits sum.splits
      dest!: parse_int_part_shorter parse_fraction_shorter parse_exponent_shorter)

lemma expect_shorter: "expect ex res s = Inr (v, r) \<Longrightarrow> ex \<noteq> [] \<Longrightarrow> length r < length s"
  by (cases s) (auto simp: expect_def split: if_splits)

lemma parse_scalar_shorter: "parse_scalar J ch s = Inr (v, r) \<Longrightarrow> length r \<le> length s"
  by (auto simp: parse_scalar_def split: if_splits sum.splits
      dest!: parse_number_shorter expect_shorter parse_string_shorter)

lemma parse_key_shorter: "parse_key ch s = Inr (k, r) \<Longrightarrow> length r < length s"
  by (auto simp: parse_key_def ebind_Inr_iff split: if_splits sum.splits dest!: get_next_token_shorter parse_string_shorter)

lemma after_item_shorter: "after_item close what s = Inr (c, r) \<Longrightarrow> length r < length s \<and> (c \<noteq> None \<longrightarrow> Suc (length r) < length s)"
  by (auto simp: after_item_def ebind_Inr_iff split: if_splits dest!: get_next_token_shorter)

lemmas parse_less = get_next_token_shorter parse_scalar_shorter parse_key_shorter after_item_shorter

lemma parse_shorter:
  "parse_json_parse_members_parse_elements_dom (Inl (J, depth, s)) \<Longrightarrow> parse_json J depth s = Inr (v, r) \<Longrightarrow> length r < length s"
  "parse_json_parse_members_parse_elements_dom (Inr (Inl (J, depth, data, ch, s))) \<Longrightarrow> parse_members J depth data ch s = Inr (v, r) \<Longrightarrow> length r < length s"
  "parse_json_parse_members_parse_elements_dom (Inr (Inr (J, depth, data', s))) \<Longrightarrow> parse_elements J depth data' s = Inr (v, r) \<Longrightarrow> length r < length s"
proof (induction J depth s and J depth data ch s and J depth data' s arbitrary: v r and v r and v r
    rule: parse_json_parse_members_parse_elements.pinduct)
  case (1 J depth s)
  from "1.prems" obtain ch r1 where d: "\<not> max_depth < depth" and t: "get_next_token s = Inr (ch, r1)"
    and k: "(if ch = CHR ''{'' then
          ebind (get_next_token r1) (\<lambda>c r2. if c = CHR ''}'' then Inr (JObject [], r2) else parse_members J depth [] c r2)
        else if ch = CHR ''['' then
          ebind (get_next_token r1) (\<lambda>c r2. if c = CHR '']'' then Inr (JArray [], r2) else parse_elements J depth [] (c # r2))
        else parse_scalar J ch r1) = Inr (v, r)"
    unfolding parse_json.psimps[OF "1.hyps"] ebind_Inr_iff by (simp split: if_split_asm) (auto simp: ebind_Inr_iff)
  have "length r \<le> length r1"
  proof (cases "ch = CHR ''{'' \<or> ch = CHR ''[''")
    case True
    with k obtain c r2 where c: "get_next_token r1 = Inr (c, r2)" by (auto simp: ebind_Inr_iff split: if_split_asm)
    have "length r < length r2" if "ch = CHR ''{''" "c \<noteq> CHR ''}''"
      by (rule "1.IH"(1)[OF d t that(1) c that(2)]) (use k c that in simp)
    moreover have "length r < length (c # r2)" if "ch = CHR ''[''" "c \<noteq> CHR '']''"
      by (rule "1.IH"(2)[OF d t _ that(1) c that(2)]) (use k c that in simp_all)
    ultimately show ?thesis using True k c get_next_token_shorter[OF c] by (auto split: if_split_asm)
  next
    case False
    then show ?thesis using k by (simp add: parse_scalar_shorter)
  qed
  then show ?case using get_next_token_shorter[OF t] by simp
next
  case (2 J depth data ch s)
  from "2.prems" obtain key r1 v1 r2 c r3 where e: "parse_key ch s = Inr (key, r1)" "parse_json J (depth + 1) r1 = Inr (v1, r2)"
      "after_item (CHR ''}'') ''object'' r2 = Inr (c, r3)"
    and k: "(case c of None \<Rightarrow> Inr (JObject (sm_assign key v1 data), r3) | Some c \<Rightarrow> parse_members J depth (sm_assign key v1 data) c r3) = Inr (v, r)"
    by (auto simp: parse_members.psimps[OF "2.hyps"] ebind_Inr_iff nested_Inr_iff)
  have "length r2 < length r1" by (rule "2.IH"(1)[OF e(1,2)])
  moreover have "length r \<le> length r3"
    using k "2.IH"(2)[OF e(1) _ e(3)] e(2) by (cases c) (auto intro: less_imp_le)
  ultimately show ?case using parse_less(3)[OF e(1)] parse_less(4)[OF e(3)] by linarith
next
  case (3 J depth data s)
  from "3.prems" obtain v1 r2 c r3 where e: "parse_json J (depth + 1) s = Inr (v1, r2)"
      "after_item (CHR '']'') ''list'' r2 = Inr (c, r3)"
    and k: "(case c of None \<Rightarrow> Inr (JArray (data @ [v1]), r3) | Some c \<Rightarrow> parse_elements J depth (data @ [v1]) (c # r3)) = Inr (v, r)"
    by (auto simp: parse_elements.psimps[OF "3.hyps"] ebind_Inr_iff nested_Inr_iff)
  have "length r2 < length s" by (rule "3.IH"(1)[OF e(1)])
  moreover have "length r < length r2"
    using k "3.IH"(2)[OF _ e(2)] e(1) parse_less(4)[OF e(2)] by (cases c) fastforce+
  ultimately show ?case by linarith
qed

termination parse_json
  by (relation "measure (\<lambda>x. case x of Inl (J, d, s) \<Rightarrow> 2 * length s | Inr (Inl (J, d, data, ch, s)) \<Rightarrow> 2 * length s + 1
      | Inr (Inr (J, d, data, s)) \<Rightarrow> 2 * length s + 1)")
    (auto simp: nested_Inr_iff dest!: parse_less parse_shorter(1))

declare parse_json.simps [simp del] parse_members.simps [simp del] parse_elements.simps [simp del]

text \<open>\<^verbatim>\<open>Json::parse\<close>, which returns the value and the error text, and its variant for C strings.\<close>

definition js_parse :: "json_lib \<Rightarrow> string \<Rightarrow> Json \<times> string" where
  "js_parse J input =
     (case parse_json J 0 input of
        Inl (err, v, r) \<Rightarrow> (if consume_whitespace r \<noteq> [] then JNull else v, err)
      | Inr (v, r) \<Rightarrow>
          (case consume_whitespace r of [] \<Rightarrow> (v, []) | c # _ \<Rightarrow> (JNull, ''unexpected trailing '' @ esc c)))"

definition js_parse_c :: "json_lib \<Rightarrow> string \<Rightarrow> Json \<times> string" where
  "js_parse_c J input = js_parse J (c_str input)"

section \<open>Numbers\<close>

text \<open>The grammar of numbers, and the value the parser gives to a number.\<close>

definition int_text :: "string \<Rightarrow> bool" where
  "int_text t \<longleftrightarrow> t \<noteq> [] \<and> list_all isdigit_c t \<and> (hd t = CHR ''0'' \<longrightarrow> t = ''0'')"

definition fraction_text :: "string \<Rightarrow> bool" where
  "fraction_text t \<longleftrightarrow> t = [] \<or> (\<exists>ds. t = CHR ''.'' # ds \<and> ds \<noteq> [] \<and> list_all isdigit_c ds)"

definition exponent_text :: "string \<Rightarrow> bool" where
  "exponent_text t \<longleftrightarrow> t = [] \<or>
     (\<exists>e sgn ds. t = e # sgn @ ds \<and> e \<in> {CHR ''e'', CHR ''E''} \<and> sgn \<in> {[], ''+'', ''-''} \<and> ds \<noteq> [] \<and> list_all isdigit_c ds)"

definition number_text :: "string \<Rightarrow> bool" where
  "number_text t \<longleftrightarrow>
     (\<exists>sgn i f e. t = sgn @ i @ f @ e \<and> sgn \<in> {[], ''-''} \<and> int_text i \<and> fraction_text f \<and> exponent_text e)"

definition number_of_text :: "json_lib \<Rightarrow> string \<Rightarrow> Json" where
  "number_of_text J t =
     (if list_all (\<lambda>c. isdigit_c c \<or> c = CHR ''-'') t \<and> length t \<le> 9 then JInt (atoi t) else JDouble (strtod J t))"

definition ends_number :: "string \<Rightarrow> bool" where
  "ends_number r \<longleftrightarrow> \<not> isdigit_c (at r) \<and> at r \<notin> {CHR ''.'', CHR ''e'', CHR ''E''}"

lemma at_simps [simp]: "at [] = CHR 0x00" "at (c # s) = c"
  by (simp_all add: at_def)

lemma at_append: "at (s @ r) = (if s = [] then at r else hd s)"
  by (cases s) auto

lemma isdigit_simps [simp]:
  "\<not> isdigit_c (CHR 0x00)" "\<not> isdigit_c (CHR ''.'')" "\<not> isdigit_c (CHR ''e'')" "\<not> isdigit_c (CHR ''E'')" "\<not> isdigit_c (CHR ''-'')"
  "\<not> isdigit_c (CHR ''+'')" "isdigit_c (CHR ''0'')"
  by (simp_all add: isdigit_c_def)

lemma while_digits:
  assumes "list_all isdigit_c ds" "\<not> isdigit_c (at r)"
  shows "dropWhile isdigit_c (ds @ r) = r" "takeWhile isdigit_c (ds @ r) = ds"
  using assms by (induction ds) (auto, (cases r; simp)+)

lemma int_text_parsed: "int_text t \<Longrightarrow> \<not> isdigit_c (at r) \<Longrightarrow> parse_int_part (t @ r) = Inr r"
  using while_digits[of t r] by (cases t) (auto simp: parse_int_part_def int_text_def at_append)

lemma fraction_text_parsed:
  "fraction_text t \<Longrightarrow> \<not> isdigit_c (at r) \<Longrightarrow> at r \<noteq> CHR ''.'' \<Longrightarrow> parse_fraction (t @ r) = Inr r"
  by (cases t) (auto simp: parse_fraction_def fraction_text_def at_append list_all_iff[symmetric] while_digits simp del: dropWhile_append2,
      auto simp: list_all_iff)

lemma exponent_text_parsed: "exponent_text t \<Longrightarrow> ends_number r \<Longrightarrow> parse_exponent (t @ r) = Inr r"
proof (cases "t = []")
  case False
  assume "exponent_text t" "ends_number r"
  with False obtain e sgn ds where t: "t = e # sgn @ ds" "e \<in> {CHR ''e'', CHR ''E''}" "sgn \<in> {[], ''+'', ''-''}" "ds \<noteq> []" "list_all isdigit_c ds"
    by (auto simp: exponent_text_def)
  have "hd ds \<noteq> CHR ''+''" "hd ds \<noteq> CHR ''-''" "isdigit_c (hd ds)" using t(4,5) by (cases ds; auto)+
  then show ?thesis
    using t \<open>ends_number r\<close> by (auto simp: parse_exponent_def at_append while_digits ends_number_def Let_def)
qed (auto simp: parse_exponent_def ends_number_def)

lemma atoi_digits:
  assumes "list_all isdigit_c ds" "ds \<noteq> []" "\<not> isdigit_c (at r)"
  shows "atoi (ds @ r) = int (digits_value ds)" "atoi (CHR ''-'' # ds @ r) = - int (digits_value ds)"
proof -
  have "at (ds @ r) \<noteq> CHR ''-''" using assms(1,2) by (cases ds) auto
  then show "atoi (ds @ r) = int (digits_value ds)" "atoi (CHR ''-'' # ds @ r) = - int (digits_value ds)"
    using while_digits(2)[OF assms(1,3)] by (simp_all only: atoi_def at_simps list.sel if_True if_False refl)
qed

lemma number_text_parsed:
  assumes "number_text t" "ends_number r"
  shows "parse_number J (t @ r) = Inr (number_of_text J t, r)"
proof -
  obtain sgn i f e where t: "t = sgn @ i @ f @ e" "sgn \<in> {[], ''-''}" and i: "int_text i" and f: "fraction_text f" and e: "exponent_text e"
    using assms(1) unfolding number_text_def by auto
  have i_ne: "i \<noteq> []" "list_all isdigit_c i" "isdigit_c (hd i)" using i by (cases i; auto simp: int_text_def)+
  have e_at: "\<not> isdigit_c (at (e @ r))" "at (e @ r) \<noteq> CHR ''.''"
    using e assms(2) by (auto simp: exponent_text_def at_append ends_number_def)
  have f_at: "\<not> isdigit_c (at (f @ e @ r))" using f e_at by (auto simp: fraction_text_def at_append)
  have plain: "at (f @ e @ r) \<in> {CHR ''.'', CHR ''e'', CHR ''E''} \<longleftrightarrow> f @ e \<noteq> []"
    using f e assms(2) by (auto simp: fraction_text_def exponent_text_def at_append ends_number_def)
  have digits: "list_all (\<lambda>c. isdigit_c c \<or> c = CHR ''-'') t \<longleftrightarrow> f @ e = []"
    using t i_ne(2) f e by (auto simp: fraction_text_def exponent_text_def list_all_iff)
  have start: "(if at (t @ r) = CHR ''-'' then tl (t @ r) else t @ r) = i @ f @ e @ r"
    using t(2) i_ne by (auto simp: t(1) at_append)
  have atoi: "atoi (t @ r) = atoi t" if "f @ e = []"
    using that t(2) f_at atoi_digits[OF i_ne(2,1), of r] atoi_digits[OF i_ne(2,1), of "[]"] by (auto simp: t(1))
  have len: "length (t @ r) - length r = length t" "length (t @ r) - length (f @ e @ r) = length sgn + length i"
    using t(1) by simp_all
  note steps = start int_text_parsed[OF i f_at] fraction_text_parsed[OF f e_at] exponent_text_parsed[OF e assms(2)]
  show ?thesis
  proof (cases "f @ e = []")
    case True
    have r: "f @ e @ r = r" using True by simp
    have small: "at r \<noteq> CHR ''.''" "at r \<noteq> CHR ''e''" "at r \<noteq> CHR ''E''" using plain True unfolding r by auto
    have ip: "parse_int_part (i @ r) = Inr r" using int_text_parsed[OF i f_at] unfolding r .
    have frac: "parse_fraction r = Inr r" "parse_exponent r = Inr r" using small by (simp_all add: parse_fraction_def parse_exponent_def)
    show ?thesis
      using digits atoi True small len(1) unfolding parse_number_def steps r
      by (simp add: number_of_text_def frac ip del: append_is_Nil_conv length_append)
  next
    case False
    have big: "\<not> (at (f @ e @ r) \<noteq> CHR ''.'' \<and> at (f @ e @ r) \<noteq> CHR ''e'' \<and> at (f @ e @ r) \<noteq> CHR ''E'')" using plain False by blast
    have "\<not> list_all (\<lambda>c. isdigit_c c \<or> c = CHR ''-'') t" using digits False by blast
    then show ?thesis
      using big len(1) unfolding parse_number_def steps by (simp add: number_of_text_def steps del: length_append) blast
  qed
qed

section \<open>Strings\<close>

lemma hex_char_ok: "d < 16 \<Longrightarrow> is_hex (hex_char d) \<and> hex_digit (hex_char d) = d"
  by (auto simp: is_hex_def hex_digit_def hex_char_def of_char_of Let_def)

lemma hex4_ok: "list_all is_hex (hex4 n)" "length (hex4 n) = 4" "n < 65536 \<Longrightarrow> strtol16 (hex4 n) = int n"
proof -
  show "n < 65536 \<Longrightarrow> strtol16 (hex4 n) = int n"
  proof -
    assume n: "n < 65536"
    have d: "n div 4096 = n div 16 div 16 div 16" "n div 256 = n div 16 div 16" by (simp_all add: div_mult2_eq[symmetric])
    have "16 * (n div 4096 mod 16) + n div 256 mod 16 = n div 256" using n unfolding d by simp
    moreover have "16 * (n div 256) + n div 16 mod 16 = n div 16" "16 * (n div 16) + n mod 16 = n" unfolding d by simp_all
    ultimately show ?thesis by (simp add: hex4_def strtol16_def hex_char_ok)
  qed
qed (simp_all add: hex4_def hex_char_ok)

lemma encode_utf8_ascii: "(of_char c :: nat) < 128 \<Longrightarrow> encode_utf8 (int (of_char c)) = [c]"
  by (simp add: encode_utf8_def Let_def)

lemma encode_utf8_separators:
  "encode_utf8 0x2028 = [CHR 0xE2, CHR 0x80, CHR 0xA8]" "encode_utf8 0x2029 = [CHR 0xE2, CHR 0x80, CHR 0xA9]"
  by (simp_all add: encode_utf8_def Let_def char_of_def bit_0)

lemma encode_utf8_none [simp]: "encode_utf8 (- 1) = []"
  by (simp add: encode_utf8_def)

text \<open>Reading an escape with four hexadecimal digits that is not a trail surrogate.\<close>

lemma parse_escape_u:
  assumes "length h = 4" "list_all is_hex h" "\<not> trail_surrogate (strtol16 h)"
  shows "parse_string (bslash # CHR ''u'' # h @ s) out cp = parse_string s (out @ encode_utf8 cp) (strtol16 h)"
  using assms by (simp add: signed_char_def Let_def)

lemma take2_eq: "take 2 r = [a, b] \<longleftrightarrow> (\<exists>r'. r = a # b # r')"
  by (cases r; cases "tl r") auto

lemma dump_chars_cases:
  obtains (plain) "dump_chars (ch # r) = ch # dump_chars r" "ch \<noteq> bslash" "ch \<noteq> dquote" "\<not> (of_char ch :: nat) \<le> 31"
  | (short) e where "dump_chars (ch # r) = bslash # e # dump_chars r" "simple_escape e = Some ch" "e \<noteq> CHR ''u''"
  | (ctrl) "dump_chars (ch # r) = bslash # CHR ''u'' # hex4 (of_char ch) @ dump_chars r" "(of_char ch :: nat) \<le> 31"
  | (sep) h r' where "dump_chars (ch # r) = bslash # CHR ''u'' # h @ dump_chars r'" "h \<in> {''2028'', ''2029''}"
      "ch # r = encode_utf8 (strtol16 h) @ r'"
proof -
  have sepv: "strtol16 ''2028'' = 0x2028" "strtol16 ''2029'' = 0x2029" by (simp_all add: strtol16_def hex_digit_def Let_def)
  have "\<exists>e. dump_chars (ch # r) = bslash # e # dump_chars r \<and> simple_escape e = Some ch \<and> e \<noteq> CHR ''u''"
    if "ch \<in> {bslash, dquote, CHR 0x08, CHR 0x0C, CHR 0x0A, CHR 0x0D, CHR 0x09}"
    using that by (auto simp: simple_escape_def)
  moreover have "\<exists>h r'. dump_chars (ch # r) = bslash # CHR ''u'' # h @ dump_chars r' \<and> h \<in> {''2028'', ''2029''} \<and> ch # r = encode_utf8 (strtol16 h) @ r'"
    if "ch = CHR 0xE2" "take 2 r = [CHR 0x80, CHR 0xA8] \<or> take 2 r = [CHR 0x80, CHR 0xA9]"
    using that
    by (elim disjE; clarsimp simp: take2_eq)
      (rule exI[of _ "''2028''"] exI[of _ "''2029''"], rule exI, intro conjI; simp add: sepv encode_utf8_separators)+
  moreover have "dump_chars (ch # r) = bslash # CHR ''u'' # hex4 (of_char ch) @ dump_chars r"
    if "ch \<notin> {bslash, dquote, CHR 0x08, CHR 0x0C, CHR 0x0A, CHR 0x0D, CHR 0x09}" "(of_char ch :: nat) \<le> 31"
    using that by simp
  moreover have "dump_chars (ch # r) = ch # dump_chars r"
    if "ch \<notin> {bslash, dquote, CHR 0x08, CHR 0x0C, CHR 0x0A, CHR 0x0D, CHR 0x09}" "\<not> (of_char ch :: nat) \<le> 31"
      "\<not> (ch = CHR 0xE2 \<and> (take 2 r = [CHR 0x80, CHR 0xA8] \<or> take 2 r = [CHR 0x80, CHR 0xA9]))"
    using that by simp
  ultimately show thesis
    by (metis (lifting) insertI1 insertCI plain short ctrl sep)
qed

declare dump_chars.simps(2) [simp del]

lemma separator_length: "h \<in> {''2028'', ''2029''} \<Longrightarrow> ch # r = encode_utf8 (strtol16 h) @ r' \<Longrightarrow> length r' < Suc (length r)"
proof -
  assume h: "h \<in> {''2028'', ''2029''}" and eq: "ch # r = encode_utf8 (strtol16 h) @ r'"
  have "encode_utf8 (strtol16 h) \<noteq> []" using h by (auto simp: strtol16_def hex_digit_def encode_utf8_separators)
  then show ?thesis using arg_cong[OF eq, of length] by (cases "encode_utf8 (strtol16 h)") auto
qed

lemma dump_chars_parsed: "parse_string (dump_chars v @ dquote # s) out cp = Inr (out @ encode_utf8 cp @ v, s)"
proof (induction v arbitrary: out cp rule: length_induct)
  case (1 v)
  show ?case
  proof (cases v)
    case (Cons ch r)
    note IH = 1[rule_format, unfolded Cons, simplified length_Cons]
    have trail: "\<not> trail_surrogate n" if "n < 0xDC00" for n using that by (simp add: trail_surrogate_def)
    show ?thesis
    proof (rule dump_chars_cases[of ch r])
      assume plain: "dump_chars (ch # r) = ch # dump_chars r" "ch \<noteq> bslash" "ch \<noteq> dquote" "\<not> (of_char ch :: nat) \<le> 31"
      have "\<not> (256 :: nat) \<le> of_char ch"
        using of_char_mod_256[of ch, where 'a = nat] mod_less_divisor[of 256 "of_char ch :: nat"] by linarith
      then have "\<not> (0 \<le> signed_char ch \<and> signed_char ch \<le> 31)" using plain(4) by (auto simp: signed_char_def Let_def)
      with plain show ?thesis unfolding Cons plain(1) by (simp add: IH)
    next
      fix e
      assume short: "dump_chars (ch # r) = bslash # e # dump_chars r" "simple_escape e = Some ch" "e \<noteq> CHR ''u''"
      then show ?thesis unfolding Cons short(1) by (simp add: IH signed_char_def)
    next
      assume ctrl: "dump_chars (ch # r) = bslash # CHR ''u'' # hex4 (of_char ch) @ dump_chars r" "(of_char ch :: nat) \<le> 31"
      have "strtol16 (hex4 (of_char ch)) = int (of_char ch)" using ctrl(2) by (simp add: hex4_ok)
      then show ?thesis using ctrl(2) unfolding Cons ctrl(1)
        by (simp add: parse_escape_u hex4_ok trail IH encode_utf8_ascii del: parse_string.simps)
    next
      fix h r'
      assume sep: "dump_chars (ch # r) = bslash # CHR ''u'' # h @ dump_chars r'" "h \<in> {''2028'', ''2029''}"
        "ch # r = encode_utf8 (strtol16 h) @ r'"
      have h: "length h = 4" "list_all is_hex h" "\<not> trail_surrogate (strtol16 h)"
        using sep(2) by (auto simp: is_hex_def strtol16_def hex_digit_def trail_surrogate_def)
      show ?thesis unfolding Cons sep(1)
        by (simp add: parse_escape_u[OF h] IH[OF separator_length[OF sep(2,3)]] del: parse_string.simps) (simp add: sep(3))
    qed
  qed simp
qed

section \<open>Values\<close>

text \<open>The values that can be printed and read: maps are in order, and the nesting stays within the limit.\<close>

fun json_ok :: "nat \<Rightarrow> Json \<Rightarrow> bool" where
  "json_ok depth (JArray vs) \<longleftrightarrow> depth \<le> max_depth \<and> (\<forall>v \<in> set vs. json_ok (depth + 1) v)"
| "json_ok depth (JObject m) \<longleftrightarrow> depth \<le> max_depth \<and> sm_ok m \<and> (\<forall>kv \<in> set m. json_ok (depth + 1) (snd kv))"
| "json_ok depth _ \<longleftrightarrow> depth \<le> max_depth"

text \<open>What is read back: numbers may change between the two representations, and numbers that are not finite become null.\<close>

fun reread :: "json_lib \<Rightarrow> Json \<Rightarrow> Json" where
  "reread J (JInt n) = number_of_text J (int_to_string n)"
| "reread J (JDouble d) = (if isfinite_d J d then number_of_text J (fmt_g17 J d) else JNull)"
| "reread J (JArray vs) = JArray (map (reread J) vs)"
| "reread J (JObject m) = JObject (map (\<lambda>(k, v). (k, reread J v)) m)"
| "reread J v = v"

definition g17_ok :: "json_lib \<Rightarrow> bool" where
  "g17_ok J \<longleftrightarrow> (\<forall>d. isfinite_d J d \<longrightarrow> number_text (fmt_g17 J d))"

lemma nat_to_string_head: "nat_to_string n = c # s \<Longrightarrow> c = CHR ''0'' \<Longrightarrow> s = []"
proof (induction n arbitrary: c s rule: nat_to_string.induct)
  case (1 n)
  show ?case
  proof (cases "n < 10")
    case True
    then show ?thesis using "1.prems" by (simp add: nat_to_string.simps[of n])
  next
    case False
    obtain c' s' where h: "nat_to_string (n div 10) = c' # s'" by (cases "nat_to_string (n div 10)") auto
    have "c' = CHR ''0''" using "1.prems" False h by (simp add: nat_to_string.simps[of n])
    then have "s' = []" using "1.IH"[OF False h] by simp
    then have "digits_value (nat_to_string (n div 10)) = 0" using h \<open>c' = CHR ''0''\<close> by (simp add: digits_value_def digit_value_def)
    then show ?thesis using False by simp
  qed
qed

lemma int_text_nat: "int_text (nat_to_string n)"
  using isdigit_nat_to_string[of n] nat_to_string_head[of n]
  by (cases "nat_to_string n") (auto simp: int_text_def list_all_iff)

lemma number_text_int: "number_text (int_to_string n)"
proof -
  have "fraction_text []" "exponent_text []" by (simp_all add: fraction_text_def exponent_text_def)
  then show ?thesis
    unfolding number_text_def int_to_string_def using int_text_nat
    by (intro exI[of _ "if n < 0 then ''-'' else []"] exI[of _ "nat_to_string (nat \<bar>n\<bar>)"] exI[of _ "[]"]) auto
qed

lemma number_text_head:
  assumes "number_text t" obtains c t' where "t = c # t'" "c = CHR ''-'' \<or> isdigit_c c"
  using assms unfolding number_text_def int_text_def by (auto simp: neq_Nil_conv)

text \<open>The first character of a printed value is one the parser dispatches on.\<close>

definition starts_value :: "char \<Rightarrow> bool" where
  "starts_value c \<longleftrightarrow> c = CHR ''-'' \<or> isdigit_c c \<or> c \<in> {CHR ''t'', CHR ''f'', CHR ''n'', dquote, CHR ''{'', CHR ''[''}"

lemma starts_value_token: "starts_value c \<Longrightarrow> \<not> is_blank c \<and> c \<noteq> CHR '']'' \<and> c \<noteq> CHR ''}''"
  by (auto simp: starts_value_def is_blank_def isdigit_c_def)

lemma number_text_starts: "number_text t \<Longrightarrow> \<exists>c t'. t = c # t' \<and> starts_value c"
  by (erule number_text_head) (auto simp: starts_value_def)

lemma dump_head:
  assumes "g17_ok J" shows "\<exists>c t. js_dump J j = c # t \<and> starts_value c"
proof -
  have lit: "starts_value (CHR ''t'')" "starts_value (CHR ''f'')" "starts_value (CHR ''n'')" "starts_value dquote"
      "starts_value (CHR ''{'')" "starts_value (CHR ''['')"
    by (simp_all add: starts_value_def)
  show ?thesis
    using assms number_text_starts[OF number_text_int] number_text_starts lit
    by (cases j) (auto simp: dump_string_def g17_ok_def)
qed

lemma get_next_token_plain: "\<not> is_blank c \<Longrightarrow> get_next_token (c # r) = Inr (c, r)"
  by (simp add: get_next_token_def consume_whitespace_def)

lemma get_next_token_blank: "get_next_token (CHR '' '' # r) = get_next_token r"
  by (simp add: get_next_token_def consume_whitespace_def is_blank_def)

lemma commas_Cons: "commas (x # xs) = x @ (if xs = [] then [] else '', '' @ commas xs)"
  by (cases xs) auto

lemma number_dispatch:
  assumes "number_text t" "depth \<le> max_depth" "ends_number r"
  shows "parse_json J depth (t @ r) = Inr (number_of_text J t, r)"
proof -
  obtain c t' where t: "t = c # t'" "c = CHR ''-'' \<or> isdigit_c c" using number_text_head[OF assms(1)] .
  have "starts_value c" using t(2) by (auto simp: starts_value_def)
  then have b: "\<not> is_blank c" "c \<noteq> CHR ''{''" "c \<noteq> CHR ''[''" using t(2) starts_value_token[of c] by (auto simp: isdigit_c_def)
  show ?thesis
    using number_text_parsed[OF assms(1,3), of J] t b assms(2)
    by (simp add: parse_json.simps get_next_token_plain parse_scalar_def)
qed

lemma string_dispatch: "depth \<le> max_depth \<Longrightarrow> parse_json J depth (dump_string v @ r) = Inr (JString v, r)"
  using dump_chars_parsed[of v r "[]" "- 1"]
  by (simp add: parse_json.simps dump_string_def get_next_token_plain is_blank_def parse_scalar_def isdigit_c_def)

lemma literal_dispatch:
  assumes "depth \<le> max_depth"
  shows "parse_json J depth (''null'' @ r) = Inr (JNull, r)"
    "parse_json J depth (''true'' @ r) = Inr (JBool True, r)" "parse_json J depth (''false'' @ r) = Inr (JBool False, r)"
  using assms by (simp_all add: parse_json.simps get_next_token_plain is_blank_def parse_scalar_def isdigit_c_def expect_def)

lemma key_dispatch: "parse_key dquote (dump_chars k @ dquote # '': '' @ r) = Inr (k, CHR '' '' # r)"
  using dump_chars_parsed[of k "'': '' @ r" "[]" "- 1"] by (simp add: parse_key_def get_next_token_plain is_blank_def)

lemma after_last:
  "c \<in> {CHR '']'', CHR ''}''} \<Longrightarrow> after_item c what (c # r) = Inr (None, r)"
  by (auto simp: after_item_def get_next_token_plain is_blank_def)

lemma after_comma:
  "c \<in> {CHR '']'', CHR ''}''} \<Longrightarrow> \<not> is_blank d \<Longrightarrow> after_item c what ('', '' @ d # r) = Inr (Some d, r)"
  by (auto simp: after_item_def get_next_token_plain get_next_token_blank is_blank_def)

lemma parse_json_blank: "depth \<le> max_depth \<Longrightarrow> parse_json J depth (CHR '' '' # s) = parse_json J depth s"
  by (simp add: parse_json.simps get_next_token_blank)

text \<open>A list of printed elements, given that each of them is read back.\<close>

lemma elements_parsed:
  assumes "g17_ok J" "vs \<noteq> []"
    and "\<And>v r. v \<in> set vs \<Longrightarrow> ends_number r \<Longrightarrow> parse_json J (depth + 1) (js_dump J v @ r) = Inr (reread J v, r)"
  shows "parse_elements J depth data (commas (map (js_dump J) vs) @ '']'' @ r) = Inr (JArray (data @ map (reread J) vs), r)"
  using assms(2,3)
proof (induction vs arbitrary: data)
  case (Cons v vs)
  have e: "ends_number ('']'' @ r)" "ends_number ('', '' @ r')" for r' by (simp_all add: ends_number_def isdigit_c_def)
  show ?case
  proof (cases vs)
    case Nil
    then show ?thesis using Cons.prems(2)[of v "'']'' @ r"] e by (simp add: parse_elements.simps after_last)
  next
    case (Cons v2 vs2)
    obtain c t where h: "js_dump J v2 = c # t" "starts_value c" using dump_head[OF assms(1)] by blast
    then have b: "\<not> is_blank c" using starts_value_token by simp
    let ?rest = "commas (map (js_dump J) vs) @ '']'' @ r"
    obtain u where u: "?rest = c # u" using Cons h(1) by (simp add: commas_Cons)
    have "parse_json J (depth + 1) (js_dump J v @ '', '' @ ?rest) = Inr (reread J v, '', '' @ ?rest)"
      using Cons.prems(2)[of v] e by simp
    then have "parse_elements J depth data (js_dump J v @ '', '' @ ?rest) = parse_elements J depth (data @ [reread J v]) ?rest"
      unfolding u using after_comma[of "CHR '']''" c "''list''" u] b by (simp add: parse_elements.simps[of J depth data])
    also have "\<dots> = Inr (JArray ((data @ [reread J v]) @ map (reread J) vs), r)"
      using Cons by (intro Cons.IH Cons.prems(2)) auto
    finally show ?thesis using Cons by (simp add: commas_Cons)
  qed
qed simp

text \<open>Likewise for the members of an object, whose keys come in order.\<close>

lemma sm_assign_last: "\<forall>x \<in> set m. fst x < k \<Longrightarrow> sm_assign k v m = m @ [(k, v)]"
  by (induction m) auto

lemma members_parsed:
  assumes "g17_ok J" "m \<noteq> []" "depth + 1 \<le> max_depth"
    and "\<And>kv r. kv \<in> set m \<Longrightarrow> ends_number r \<Longrightarrow> parse_json J (depth + 1) (js_dump J (snd kv) @ r) = Inr (reread J (snd kv), r)"
    and "sm_ok (data @ m)"
  shows "parse_members J depth data dquote (tl (commas (map (\<lambda>(k, v). dump_string k @ '': '' @ js_dump J v) m)) @ ''}'' @ r)
    = Inr (JObject (data @ map (\<lambda>(k, v). (k, reread J v)) m), r)"
  using assms(2,4,5)
proof (induction m arbitrary: data)
  case (Cons kv m)
  obtain k v where kv: "kv = (k, v)" by fastforce
  have e: "ends_number (''}'' @ r)" "ends_number ('', '' @ r')" for r' by (simp_all add: ends_number_def isdigit_c_def)
  have last: "sm_assign k w data = data @ [(k, w)]" for w
    using Cons.prems(3) kv by (intro sm_assign_last) (auto simp: sm_ok_def sorted_wrt_append)
  have val: "parse_json J (depth + 1) (CHR '' '' # js_dump J v @ r') = Inr (reread J v, r')" if "ends_number r'" for r'
    using Cons.prems(2)[of kv r'] that kv assms(3) by (simp add: parse_json_blank)
  show ?case
  proof (cases m)
    case Nil
    then show ?thesis
      using val[OF e(1)] kv last by (simp add: parse_members.simps dump_string_def key_dispatch[simplified] after_last)
  next
    case (Cons kv2 m2)
    let ?rest = "commas (map (\<lambda>(k, v). dump_string k @ '': '' @ js_dump J v) m) @ ''}'' @ r"
    have rest: "?rest = dquote # tl ?rest" "tl ?rest = tl (commas (map (\<lambda>(k, v). dump_string k @ '': '' @ js_dump J v) m)) @ ''}'' @ r"
      using Cons by (simp_all add: commas_Cons dump_string_def split: prod.splits)
    have ok: "sm_ok ((data @ [(k, w)]) @ m)" for w
      using Cons.prems(3) kv by (auto simp: sm_ok_def sorted_wrt_append)
    have "parse_members J depth data dquote (dump_chars k @ dquote # '': '' @ js_dump J v @ '', '' @ ?rest)
        = parse_members J depth (data @ [(k, reread J v)]) dquote (tl ?rest)"
      using val[of "'', '' @ ?rest"] e(2) last after_comma[of "CHR ''}''" dquote "''object''" "tl ?rest"] rest(1)
      by (simp add: parse_members.simps[of J depth data] key_dispatch[simplified] is_blank_def)
    also have "\<dots> = Inr (JObject ((data @ [(k, reread J v)]) @ map (\<lambda>(k, v). (k, reread J v)) m), r)"
      unfolding rest(2) using Cons ok by (intro Cons.IH Cons.prems(2)) auto
    finally show ?thesis using Cons kv by (simp add: commas_Cons dump_string_def)
  qed
qed simp

lemma json_ok_depth: "json_ok depth j \<Longrightarrow> depth \<le> max_depth"
  by (cases j) auto

lemma value_parsed:
  assumes g: "g17_ok J"
  shows "json_ok depth j \<Longrightarrow> ends_number r \<Longrightarrow> parse_json J depth (js_dump J j @ r) = Inr (reread J j, r)"
proof (induction j arbitrary: depth r)
  case (JArray vs)
  show ?case
  proof (cases "vs = []")
    case True
    then show ?thesis using JArray.prems by (simp add: parse_json.simps get_next_token_plain is_blank_def)
  next
    case False
    have "parse_elements J depth [] (commas (map (js_dump J) vs) @ '']'' @ r) = Inr (JArray ([] @ map (reread J) vs), r)"
      using JArray by (intro elements_parsed[OF g False] JArray.IH) auto
    moreover obtain c t where h: "js_dump J (hd vs) = c # t" "starts_value c" using dump_head[OF g] by blast
    moreover obtain u where "commas (map (js_dump J) vs) = c # u" using False h(1) by (cases vs) (auto simp: commas_Cons)
    ultimately show ?thesis
      using JArray.prems starts_value_token[OF h(2)] by (simp add: parse_json.simps[of J depth] get_next_token_plain is_blank_def)
  qed
next
  case (JObject m)
  show ?case
  proof (cases "m = []")
    case True
    then show ?thesis using JObject.prems by (simp add: parse_json.simps get_next_token_plain is_blank_def)
  next
    case False
    let ?text = "commas (map (\<lambda>(k, v). dump_string k @ '': '' @ js_dump J v) m)"
    have "json_ok (depth + 1) (snd (hd m))" using False JObject.prems by simp
    then have "parse_members J depth [] dquote (tl ?text @ ''}'' @ r) = Inr (JObject ([] @ map (\<lambda>(k, v). (k, reread J v)) m), r)"
      using JObject.prems by (intro members_parsed[OF g False json_ok_depth] JObject.IH) (auto intro: snds.intros)
    moreover have "?text = dquote # tl ?text" using False by (cases m) (auto simp: commas_Cons dump_string_def)
    then have "get_next_token (?text @ ''}'' @ r) = Inr (dquote, tl ?text @ ''}'' @ r)"
      by (metis append_Cons get_next_token_plain is_blank_def starts_value_def starts_value_token insertI1 insertCI)
    ultimately show ?thesis
      using JObject.prems by (simp add: parse_json.simps[of J depth] get_next_token_plain is_blank_def)
  qed
next
  case (JDouble d)
  then show ?case using g number_dispatch[of "fmt_g17 J d"] literal_dispatch(1)[of depth J r] by (simp add: g17_ok_def)
qed (auto simp: number_dispatch[OF number_text_int] string_dispatch intro: literal_dispatch[simplified])

lemma js_parse_dump: "g17_ok J \<Longrightarrow> json_ok 0 j \<Longrightarrow> js_parse J (js_dump J j) = (reread J j, [])"
  using value_parsed[of J 0 j "[]"] by (simp add: js_parse_def consume_whitespace_def ends_number_def)

section \<open>Numbers keep their value\<close>

lemma nat_to_string_digits:
  "int_text ds \<Longrightarrow> nat_to_string (digits_value ds) = ds"
proof (induction ds rule: rev_induct)
  case (snoc c ds)
  have c: "isdigit_c c" and ds: "list_all isdigit_c ds" using snoc.prems by (auto simp: int_text_def)
  then have d: "digit_char (digit_value c) = c" "digit_value c < 10"
    by (auto simp: digit_char_def digit_value_def isdigit_c_def Let_def)
  show ?case
  proof (cases ds)
    case Nil
    then show ?thesis using d by (simp add: nat_to_string.simps[of "digit_value c"] digits_value_def)
  next
    case (Cons x xs)
    have i: "int_text ds" using snoc.prems Cons by (auto simp: int_text_def)
    have "ds \<noteq> ''0''" using snoc.prems Cons by (auto simp: int_text_def)
    have "digits_value ds \<noteq> 0"
    proof
      assume "digits_value ds = 0"
      then have "ds = nat_to_string 0" using snoc.IH[OF i] by simp
      then show False using \<open>ds \<noteq> ''0''\<close> by (simp add: nat_to_string.simps digit_char_def char_of_def bit_0)
    qed
    then show ?thesis using snoc.IH[OF i] d by (simp add: nat_to_string.simps[of "10 * digits_value ds + digit_value c"])
  qed
qed (simp add: int_text_def)

lemma digits_value_bound: "list_all isdigit_c ds \<Longrightarrow> digits_value ds < 10 ^ length ds"
proof (induction ds rule: rev_induct)
  case (snoc c ds)
  then have "digit_value c < 10" by (auto simp: digit_value_def isdigit_c_def Let_def)
  with snoc show ?case by simp
qed (simp add: digits_value_def)

text \<open>
  What the program relies on of the C library: the format \<^verbatim>\<open>%.17g\<close> writes a decimal number with enough digits for \<^verbatim>\<open>strtod\<close> to
  find the same value again, and \<^verbatim>\<open>strtod\<close> reads the digits of an \<^verbatim>\<open>int\<close> as that \<^verbatim>\<open>int\<close>.
\<close>

definition float_ok :: "json_lib \<Rightarrow> bool" where
  "float_ok J \<longleftrightarrow> g17_ok J
     \<and> (\<forall>d. isfinite_d J d \<longrightarrow> strtod J (fmt_g17 J d) = d)
     \<and> (\<forall>n. int_min \<le> n \<and> n \<le> int_max \<longrightarrow> strtod J (int_to_string n) = double_of_int J n)"

lemma number_text_plain:
  assumes "number_text t" "list_all (\<lambda>c. isdigit_c c \<or> c = CHR ''-'') t" "t \<noteq> ''-0''"
  shows "int_to_string (atoi t) = t"
proof -
  obtain sgn i f e where t: "t = sgn @ i @ f @ e" "sgn \<in> {[], ''-''}" and i: "int_text i" and fe: "fraction_text f" "exponent_text e"
    using assms(1) unfolding number_text_def by auto
  have fe: "f = []" "e = []" using assms(2) t(1) fe by (auto simp: fraction_text_def exponent_text_def)
  have ds: "list_all isdigit_c i" "i \<noteq> []" using i by (auto simp: int_text_def)
  note n = atoi_digits[OF ds, of "[]", simplified] nat_to_string_digits[OF i]
  show ?thesis
  proof (cases "sgn = []")
    case True
    then show ?thesis using t(1) fe n by (simp add: int_to_string_def)
  next
    case False
    then have t': "t = CHR ''-'' # i" using t fe by simp
    have "digits_value i \<noteq> 0"
    proof
      assume "digits_value i = 0"
      then have "i = ''0''" using n(3) by (simp add: nat_to_string.simps digit_char_def char_of_def bit_0)
      then show False using assms(3) t' by simp
    qed
    then show ?thesis using t' n by (simp add: int_to_string_def)
  qed
qed

lemma atoi_small:
  assumes "number_text t" "list_all (\<lambda>c. isdigit_c c \<or> c = CHR ''-'') t" "length t \<le> 9"
  shows "int_min \<le> atoi t \<and> atoi t \<le> int_max"
proof -
  obtain sgn i f e where t: "t = sgn @ i @ f @ e" "sgn \<in> {[], ''-''}" and i: "int_text i" and fe: "fraction_text f" "exponent_text e"
    using assms(1) unfolding number_text_def by auto
  have fe: "f = []" "e = []" using assms(2) t(1) fe by (auto simp: fraction_text_def exponent_text_def)
  have ds: "list_all isdigit_c i" "i \<noteq> []" using i by (auto simp: int_text_def)
  have "digits_value i < 10 ^ 9"
    using digits_value_bound[OF ds(1)] power_increasing[of "length i" 9 "10 :: nat"] assms(3) t(1) by simp
  then show ?thesis using t fe atoi_digits[OF ds, of "[]", simplified] by (auto simp: int_min_def int_max_def)
qed

lemma number_of_text_value:
  assumes "float_ok J" "number_text t" "t \<noteq> ''-0''"
  shows "number_value J (number_of_text J t) = strtod J t"
proof (cases "list_all (\<lambda>c. isdigit_c c \<or> c = CHR ''-'') t \<and> length t \<le> 9")
  case True
  then have "strtod J (int_to_string (atoi t)) = double_of_int J (atoi t)"
    using assms(1,2) atoi_small[of t] by (simp add: float_ok_def)
  then show ?thesis using True number_text_plain[OF assms(2) _ assms(3)] by (simp add: number_of_text_def)
next
  case False
  then show ?thesis unfolding number_of_text_def if_not_P[OF False] by simp
qed

text \<open>
  The value with every number in the one representation, and the values whose numbers survive printing: an \<^verbatim>\<open>int\<close> is
  in its range, a \<^verbatim>\<open>double\<close> is finite and not the negative zero, which is read back as the \<^verbatim>\<open>int\<close> zero.
\<close>

fun plain_numbers :: "json_lib \<Rightarrow> Json \<Rightarrow> Json" where
  "plain_numbers J (JInt n) = JDouble (double_of_int J n)"
| "plain_numbers J (JArray vs) = JArray (map (plain_numbers J) vs)"
| "plain_numbers J (JObject m) = JObject (map (\<lambda>(k, v). (k, plain_numbers J v)) m)"
| "plain_numbers J v = v"

fun nums_ok :: "json_lib \<Rightarrow> Json \<Rightarrow> bool" where
  "nums_ok J (JInt n) \<longleftrightarrow> int_min \<le> n \<and> n \<le> int_max"
| "nums_ok J (JDouble d) \<longleftrightarrow> isfinite_d J d \<and> fmt_g17 J d \<noteq> ''-0''"
| "nums_ok J (JArray vs) \<longleftrightarrow> (\<forall>v \<in> set vs. nums_ok J v)"
| "nums_ok J (JObject m) \<longleftrightarrow> (\<forall>kv \<in> set m. nums_ok J (snd kv))"
| "nums_ok J _ \<longleftrightarrow> True"

lemma plain_number_of_text: "plain_numbers J (number_of_text J t) = JDouble (number_value J (number_of_text J t))"
  by (simp add: number_of_text_def)

lemma int_to_string_not_neg0: "int_to_string n \<noteq> ''-0''"
proof
  assume "int_to_string n = ''-0''"
  then have "n < 0" "nat_to_string (nat (- n)) = ''0''" using isdigit_nat_to_string[of "nat n"]
    by (auto simp: int_to_string_def split: if_splits)
  then have "digits_value (nat_to_string (nat (- n))) = 0" by (simp add: digits_value_def digit_value_def del: digits_value_nat_to_string)
  then show False using \<open>n < 0\<close> by simp
qed

lemma plain_reread: "float_ok J \<Longrightarrow> nums_ok J j \<Longrightarrow> plain_numbers J (reread J j) = plain_numbers J j"
proof (induction j)
  case (JInt n)
  then show ?case
    using number_of_text_value[OF JInt.prems(1) number_text_int int_to_string_not_neg0, of n]
    by (simp add: plain_number_of_text float_ok_def)
next
  case (JDouble d)
  then show ?case
    using number_of_text_value[of J "fmt_g17 J d"] by (simp add: plain_number_of_text float_ok_def g17_ok_def)
next
  case (JObject m)
  then show ?case by (fastforce intro: snds.intros)
qed auto

text \<open>
  C28. What \<^verbatim>\<open>Json::dump\<close> writes, \<^verbatim>\<open>Json::parse\<close> reads: for a value nested at most 200 deep whose numbers are finite and
  none of which is the negative zero, the text of the value is accepted without an error and gives the same value, up
  to the representation of a number as \<^verbatim>\<open>int\<close> or \<^verbatim>\<open>double\<close>. Strings may hold any bytes.
\<close>

theorem json_text_roundtrip:
  assumes "float_ok J" "json_ok 0 j" "nums_ok J j"
  shows "\<exists>j'. js_parse J (js_dump J j) = (j', []) \<and> plain_numbers J j' = plain_numbers J j"
  using js_parse_dump[of J j] plain_reread[of J j] assms by (auto simp: float_ok_def)

text \<open>An instance of the C library in which the finite numbers are the natural numbers below \<open>2 ^ 64\<close>.\<close>

definition demo_float :: json_lib where
  "demo_float =
     \<lparr>isfinite_d = (\<lambda>_. True), fmt_g17 = (\<lambda>d. nat_to_string (unat d)), strtod = (\<lambda>t. word_of_int (atoi t)),
      double_of_int = word_of_int, int_of_double = uint\<rparr>"

lemma atoi_int_to_string: "atoi (int_to_string n) = n"
  using atoi_digits[of "nat_to_string (nat \<bar>n\<bar>)" "[]"] isdigit_nat_to_string[of "nat \<bar>n\<bar>"]
  by (auto simp: int_to_string_def list_all_iff)

lemma demo_float_ok: "float_ok demo_float"
proof -
  have "number_text (nat_to_string n)" for n using number_text_int[of "int n"] by (simp add: int_to_string_def)
  moreover have "atoi (nat_to_string n) = int n" for n using atoi_int_to_string[of "int n"] by (simp add: int_to_string_def)
  ultimately show ?thesis by (simp add: float_ok_def g17_ok_def demo_float_def atoi_int_to_string)
qed

theorem json_text_roundtrip_witness:
  "\<exists>j'. js_parse demo_float (js_dump demo_float (JObject [(''a'', JArray [JInt 7, JNull]), (''b'', JString [CHR 0x0A, dquote])])) = (j', [])
     \<and> plain_numbers demo_float j' = JObject [(''a'', JArray [JDouble 7, JNull]), (''b'', JString [CHR 0x0A, dquote])]"
  using json_text_roundtrip[OF demo_float_ok, of "JObject [(''a'', JArray [JInt 7, JNull]), (''b'', JString [CHR 0x0A, dquote])]"]
  by (simp add: max_depth_def int_min_def int_max_def) (simp add: demo_float_def)

section \<open>Accessors on what was read back\<close>

lemma reread_access [simp]:
  "string_value (reread J j) = string_value j" "bool_value (reread J j) = bool_value j"
  "is_string (reread J j) = is_string j" "is_array (reread J j) = is_array j" "is_object (reread J j) = is_object j"
  "array_items (reread J j) = map (reread J) (array_items j)"
  "object_items (reread J j) = map (\<lambda>(k, v). (k, reread J v)) (object_items j)"
  by (cases j; simp add: number_of_text_def)+

lemma map_of_reread: "map_of (map (\<lambda>(k, v). (k, reread J v)) m) k = map_option (reread J) (map_of m k)"
  by (induction m) auto

lemma js_get_reread [simp]: "js_get (reread J j) k = reread J (js_get j k)"
  by (cases j) (auto simp: number_of_text_def map_of_reread split: option.split)

lemma is_null_reread: "is_null (reread J j) \<longleftrightarrow> is_null j \<or> (\<exists>d. j = JDouble d \<and> \<not> isfinite_d J d)"
  by (cases j) (auto simp: number_of_text_def)

lemma number_value_reread: "float_ok J \<Longrightarrow> nums_ok J (JDouble d) \<Longrightarrow> number_value J (reread J (JDouble d)) = d"
  using number_of_text_value[of J "fmt_g17 J d"] by (simp add: float_ok_def g17_ok_def)

lemma int_value_reread: "length (int_to_string n) \<le> 9 \<Longrightarrow> int_value J (reread J (JInt n)) = n"
proof -
  have "list_all (\<lambda>c. isdigit_c c \<or> c = CHR ''-'') (int_to_string n)"
    using isdigit_nat_to_string by (auto simp: list_all_iff int_to_string_def)
  moreover assume "length (int_to_string n) \<le> 9"
  ultimately show ?thesis by (simp add: number_of_text_def atoi_int_to_string)
qed

lemma set_fold_insert: "set (fold (\<lambda>(k, v). sm_insert k v) kvs m) \<subseteq> set m \<union> set kvs"
proof -
  have one: "set (sm_insert k v m) \<subseteq> insert (k, v) (set m)" for k :: "'a::linorder" and v :: 'b and m
    by (induction m) (auto split: if_splits)
  show ?thesis
  proof (induction kvs arbitrary: m)
    case (Cons kv kvs)
    then show ?case using one[of "fst kv" "snd kv" m] by (fastforce simp: case_prod_beta)
  qed simp
qed

lemma json_ok_object:
  assumes "depth \<le> max_depth" "\<forall>kv \<in> set kvs. json_ok (depth + 1) (snd kv)"
  shows "json_ok depth (js_object kvs)"
  using assms set_fold_insert[of kvs "[]"] by (auto simp: js_object_def fold_insert_ok)

lemma dump_chars_no_nul: "CHR 0x00 \<notin> set (dump_chars v)"
proof (induction v rule: length_induct)
  case (1 v)
  have h: "CHR 0x00 \<notin> set (hex4 n)" for n using hex4_ok(1)[of n] by (auto simp: list_all_iff is_hex_def)
  show ?case
  proof (cases v)
    case (Cons ch r)
    then have IH: "CHR 0x00 \<notin> set (dump_chars r')" if "length r' < Suc (length r)" for r'
      using 1 that by simp
    have e: "e \<noteq> CHR 0x00" if "simple_escape e = Some c" for e c using that by (auto simp: simple_escape_def)
    have r: "CHR 0x00 \<notin> set (dump_chars r)" by (rule IH) simp
    show ?thesis
      unfolding Cons
    proof (rule dump_chars_cases[of ch r], goal_cases)
      case 1
      then have "ch \<noteq> CHR 0x00" by auto
      then show ?case unfolding 1(1) using r by simp
    next
      case (2 e)
      then show ?case unfolding 2(1) using r e[of e ch] by simp
    next
      case 3
      then show ?case unfolding 3(1) using r h by simp
    next
      case (4 hx r')
      have "CHR 0x00 \<notin> set hx" using 4(2) by auto
      then show ?case unfolding 4(1) using IH[OF separator_length[OF 4(2,3)]] by simp
    qed
  qed simp
qed

lemma number_text_no_nul: "number_text t \<Longrightarrow> CHR 0x00 \<notin> set t"
proof -
  have d: "CHR 0x00 \<notin> set ds" if "list_all isdigit_c ds" for ds using that by (auto simp: list_all_iff)
  show "number_text t \<Longrightarrow> CHR 0x00 \<notin> set t"
    unfolding number_text_def int_text_def fraction_text_def exponent_text_def by (auto simp: d dest: d)
qed

lemma commas_set: "set (commas xs) \<subseteq> {CHR '','', CHR '' ''} \<union> \<Union> (set ` set xs)"
  by (induction xs rule: commas.induct) auto

lemma dump_no_nul: "g17_ok J \<Longrightarrow> CHR 0x00 \<notin> set (js_dump J j)"
proof (induction j)
  case (JArray vs)
  then show ?case using commas_set[of "map (js_dump J) vs"] by auto
next
  case (JObject m)
  then have "CHR 0x00 \<notin> set (dump_string k @ '': '' @ js_dump J v)" if "(k, v) \<in> set m" for k v
    using that JObject.IH[of "(k, v)" v] by (auto simp: dump_string_def dump_chars_no_nul intro: snds.intros)
  then show ?case using commas_set[of "map (\<lambda>(k, v). dump_string k @ '': '' @ js_dump J v) m"] by fastforce
qed (auto simp: dump_string_def dump_chars_no_nul number_text_no_nul[OF number_text_int] number_text_no_nul g17_ok_def)

lemma js_parse_c_dump: "g17_ok J \<Longrightarrow> json_ok 0 j \<Longrightarrow> js_parse_c J (js_dump J j) = (reread J j, [])"
proof -
  assume g: "g17_ok J" and "json_ok 0 j"
  have "of_char c \<noteq> (0 :: nat)" if "c \<in> set (js_dump J j)" for c
  proof
    assume "of_char c = (0 :: nat)"
    then have "c = CHR 0x00" using char_of_char[of c, where 'a = nat] by (simp add: char_of_def)
    then show False using dump_no_nul[OF g, of j] that by simp
  qed
  then have "c_str (js_dump J j) = js_dump J j" unfolding c_str_def takeWhile_eq_all_conv by blast
  then show ?thesis using js_parse_dump[OF g] \<open>json_ok 0 j\<close> by (simp add: js_parse_c_def)
qed

section \<open>What the parser accepts is well formed\<close>

lemma scalar_ok: "parse_scalar J ch r = Inr (v, r') \<Longrightarrow> depth \<le> max_depth \<Longrightarrow> json_ok depth v"
  by (auto simp: parse_scalar_def parse_number_def expect_def split: if_splits sum.splits)

lemma set_assign_vals: "x \<in> set (sm_assign k v m) \<Longrightarrow> x = (k, v) \<or> x \<in> set m"
  by (induction k v m rule: sm_assign.induct) (auto split: if_splits)

lemma parsed_ok:
  "parse_json J depth s = Inr (v, r) \<Longrightarrow> json_ok depth v"
  "parse_members J depth data ch s = Inr (v, r) \<Longrightarrow> depth \<le> max_depth \<Longrightarrow> json_ok depth (JObject data) \<Longrightarrow> json_ok depth v"
  "parse_elements J depth data' s = Inr (v, r) \<Longrightarrow> depth \<le> max_depth \<Longrightarrow> json_ok depth (JArray data') \<Longrightarrow> json_ok depth v"
proof (induction J depth s and J depth data ch s and J depth data' s arbitrary: v r and v r and v r
    rule: parse_json_parse_members_parse_elements.induct)
  case (1 J depth s)
  from "1.prems" obtain ch r1 where d: "\<not> max_depth < depth" and t: "get_next_token s = Inr (ch, r1)"
    and k: "(if ch = CHR ''{'' then
          ebind (get_next_token r1) (\<lambda>c r2. if c = CHR ''}'' then Inr (JObject [], r2) else parse_members J depth [] c r2)
        else if ch = CHR ''['' then
          ebind (get_next_token r1) (\<lambda>c r2. if c = CHR '']'' then Inr (JArray [], r2) else parse_elements J depth [] (c # r2))
        else parse_scalar J ch r1) = Inr (v, r)"
    unfolding parse_json.simps[of J depth s] ebind_Inr_iff by (simp split: if_split_asm) (auto simp: ebind_Inr_iff)
  then have le: "depth \<le> max_depth" by simp
  have empty: "json_ok depth (JObject [])" "json_ok depth (JArray [])" using le by simp_all
  show ?case
  proof (cases "ch = CHR ''{'' \<or> ch = CHR ''[''")
    case True
    with k obtain c r2 where c: "get_next_token r1 = Inr (c, r2)" by (auto simp: ebind_Inr_iff split: if_split_asm)
    have "json_ok depth v" if "ch = CHR ''{''" "c \<noteq> CHR ''}''"
      by (rule "1.IH"(1)[OF d t that(1) c that(2) _ le empty(1)]) (use k c that in simp)
    moreover have "json_ok depth v" if "ch = CHR ''[''" "c \<noteq> CHR '']''"
      by (rule "1.IH"(2)[OF d t _ that(1) c that(2) _ le empty(2)]) (use k c that in simp_all)
    ultimately show ?thesis using True k c empty by (auto split: if_split_asm)
  next
    case False
    then show ?thesis using k scalar_ok[OF _ le] by simp
  qed
next
  case (2 J depth data ch s)
  from "2.prems"(1) obtain key r1 v1 r2 c r3 where e: "parse_key ch s = Inr (key, r1)" "parse_json J (depth + 1) r1 = Inr (v1, r2)"
      "after_item (CHR ''}'') ''object'' r2 = Inr (c, r3)"
    and k: "(case c of None \<Rightarrow> Inr (JObject (sm_assign key v1 data), r3) | Some c \<Rightarrow> parse_members J depth (sm_assign key v1 data) c r3) = Inr (v, r)"
    by (auto simp: parse_members.simps[of J depth data ch s] ebind_Inr_iff nested_Inr_iff)
  have "json_ok depth (JObject (sm_assign key v1 data))"
    using "2.IH"(1)[OF e(1,2)] "2.prems"(2,3) by (auto dest!: set_assign_vals)
  then show ?case using k "2.IH"(2)[OF e(1) _ e(3)] e(2) "2.prems"(2) by (cases c) (auto simp: nested_Inr_iff)
next
  case (3 J depth data s)
  from "3.prems"(1) obtain v1 r2 c r3 where e: "parse_json J (depth + 1) s = Inr (v1, r2)"
      "after_item (CHR '']'') ''list'' r2 = Inr (c, r3)"
    and k: "(case c of None \<Rightarrow> Inr (JArray (data @ [v1]), r3) | Some c \<Rightarrow> parse_elements J depth (data @ [v1]) (c # r3)) = Inr (v, r)"
    by (auto simp: parse_elements.simps[of J depth data s] ebind_Inr_iff nested_Inr_iff)
  have "json_ok depth (JArray (data @ [v1]))" using "3.IH"(1)[OF e(1)] "3.prems"(2,3) by auto
  then show ?case using k "3.IH"(2)[OF _ e(2)] e(1) "3.prems"(2) by (cases c) (auto simp: nested_Inr_iff)
qed

text \<open>A failure always has a text, so the empty text tells success.\<close>

fun has_text :: "failure + 'a \<Rightarrow> bool" where
  "has_text (Inl (e, v, r)) \<longleftrightarrow> e \<noteq> []"
| "has_text (Inr x) \<longleftrightarrow> True"

lemma has_text_ebind: "has_text m \<Longrightarrow> (\<And>a r. m = Inr (a, r) \<Longrightarrow> has_text (f a r)) \<Longrightarrow> has_text (ebind m f)"
  by (cases "(m, f)" rule: ebind.cases) auto

lemma has_text_nested: "has_text m \<Longrightarrow> has_text (nested m)"
  by (cases m rule: nested.cases) auto

lemma parse_string_text: "parse_string s out cp = Inl (e, r) \<Longrightarrow> e \<noteq> []"
  by (induction s out cp rule: parse_string.induct) (auto simp: Let_def split: if_splits list.splits option.splits)

lemma token_text [simp]: "has_text (get_next_token s)"
  by (simp add: get_next_token_def split: list.split)

lemma number_parts_text [simp]: "has_text (parse_int_part s)" "has_text (parse_fraction s)" "has_text (parse_exponent s)"
  by (simp_all add: parse_int_part_def parse_fraction_def parse_exponent_def Let_def)

lemma parse_number_text [simp]: "has_text (parse_number J s)"
proof (cases "parse_int_part (if at s = CHR ''-'' then tl s else s)")
  case (Inl e)
  then show ?thesis using number_parts_text(1)[of "if at s = CHR ''-'' then tl s else s"] by (cases e) (simp add: parse_number_def)
next
  case (Inr r)
  note int = Inr
  show ?thesis
  proof (cases "parse_fraction r")
    case (Inl e)
    then show ?thesis using number_parts_text(2)[of r] int by (cases e) (simp add: parse_number_def)
  next
    case (Inr r2)
    then show ?thesis using number_parts_text(3)[of r2] int
      by (cases "parse_exponent r2") (auto simp: parse_number_def)
  qed
qed

lemma scalar_text [simp]: "has_text (parse_scalar J ch s)"
proof -
  have s: "has_text (case parse_string s [] (- 1) of Inl (e, r2) \<Rightarrow> Inl (e, JString [], r2) | Inr (v, r2) \<Rightarrow> Inr (JString v, r2))"
    by (auto split: sum.split dest: parse_string_text)
  have e: "has_text (expect w v x)" for w v x by (simp add: expect_def)
  show ?thesis unfolding parse_scalar_def using s e by simp
qed

lemma key_text [simp]: "has_text (parse_key ch s)"
  unfolding parse_key_def by (auto split: sum.split dest: parse_string_text intro!: has_text_ebind)

lemma after_item_text [simp]: "has_text (after_item c w s)"
  unfolding after_item_def by (auto intro!: has_text_ebind)

lemma parse_text:
  "has_text (parse_json J depth s)" "has_text (parse_members J depth data ch s)" "has_text (parse_elements J depth data' s)"
proof (induction J depth s and J depth data ch s and J depth data' s rule: parse_json_parse_members_parse_elements.induct)
  case (1 J depth s)
  show ?case
  proof (cases "max_depth < depth")
    case False
    have "has_text (if ch = CHR ''{'' then
          ebind (get_next_token r) (\<lambda>c r2. if c = CHR ''}'' then Inr (JObject [], r2) else parse_members J depth [] c r2)
        else if ch = CHR ''['' then
          ebind (get_next_token r) (\<lambda>c r2. if c = CHR '']'' then Inr (JArray [], r2) else parse_elements J depth [] (c # r2))
        else parse_scalar J ch r)" if t: "get_next_token s = Inr (ch, r)" for ch r
    proof -
      consider "ch = CHR ''{''" | "ch = CHR ''[''" | "ch \<noteq> CHR ''{''" "ch \<noteq> CHR ''[''" by blast
      then show ?thesis
      proof cases
        case 1
        have "has_text (parse_members J depth [] c r2)" if "get_next_token r = Inr (c, r2)" "c \<noteq> CHR ''}''" for c r2
          by (rule "1.IH"(1)[OF False t 1 that])
        then show ?thesis using 1 by (auto intro!: has_text_ebind)
      next
        case 2
        have "has_text (parse_elements J depth [] (c # r2))" if "get_next_token r = Inr (c, r2)" "c \<noteq> CHR '']''" for c r2
          by (rule "1.IH"(2)[OF False t _ 2 that]) (simp add: 2)
        then show ?thesis using 2 by (auto intro!: has_text_ebind)
      next
        case 3
        then show ?thesis by simp
      qed
    qed
    then show ?thesis using False by (subst parse_json.simps) (simp add: has_text_ebind)
  qed (simp add: parse_json.simps)
next
  case (2 J depth data ch s)
  then show ?case
    unfolding parse_members.simps[of J depth data ch s]
    by (auto simp: nested_Inr_iff split: option.split intro!: has_text_ebind has_text_nested)
next
  case (3 J depth data s)
  then show ?case
    unfolding parse_elements.simps[of J depth data s]
    by (auto simp: nested_Inr_iff split: option.split intro!: has_text_ebind has_text_nested)
qed

text \<open>
  C29. Every value that the parser accepts is well formed: it is nested at most 200 deep, and its objects are ordered
  maps in which each key occurs once, also when the text repeats a key. So what was accepted can be printed, and the
  text is accepted again.
\<close>

theorem accepted_values_are_wellformed:
  assumes "js_parse J input = (j, [])"
  shows "json_ok 0 j \<and> (g17_ok J \<longrightarrow> js_parse J (js_dump J j) = (reread J j, []))"
proof -
  have "parse_json J 0 input \<noteq> Inl ([], v, r)" for v r using parse_text(1)[of J 0 input] by (auto simp del: parse_text)
  then obtain v r where v: "parse_json J 0 input = Inr (v, r)" "j = v"
    using assms by (auto simp: js_parse_def split: sum.splits list.splits)
  then show ?thesis using parsed_ok(1)[OF v(1)] js_parse_dump by blast
qed

theorem accepted_values_are_wellformed_witness:
  "js_parse demo_float ''[null]'' = (JArray [JNull], []) \<and> json_ok 0 (JArray [JNull])"
proof -
  have "js_parse demo_float ''[null]'' = (JArray [JNull], [])"
    by (simp add: js_parse_def parse_json.simps parse_elements.simps max_depth_def get_next_token_def consume_whitespace_def is_blank_def
        parse_scalar_def expect_def isdigit_c_def after_item_def)
  then show ?thesis using accepted_values_are_wellformed by blast
qed

section \<open>A failure that is not null\<close>

text \<open>
  Not every failure gives null: a text that consists of a string without its closing quote is reported as the empty
  string, so a caller that only asks whether the result is null goes on with it.
\<close>

lemma parse_string_unterminated:
  "list_all (\<lambda>c. c \<noteq> dquote \<and> c \<noteq> bslash \<and> \<not> (0 \<le> signed_char c \<and> signed_char c \<le> 31)) s \<Longrightarrow>
     parse_string s out cp = Inl (''unexpected end of input in string'', [])"
  by (induction s arbitrary: out cp) auto

lemma unterminated_string_is_not_null:
  assumes "list_all (\<lambda>c. c \<noteq> dquote \<and> c \<noteq> bslash \<and> \<not> (0 \<le> signed_char c \<and> signed_char c \<le> 31)) s"
  shows "js_parse J (dquote # s) = (JString [], ''unexpected end of input in string'')"
  using parse_string_unterminated[OF assms]
  by (simp add: js_parse_def parse_json.simps max_depth_def get_next_token_plain is_blank_def parse_scalar_def isdigit_c_def consume_whitespace_def)

end
