(* ===== verification/Misc_Strings.thy ===== *)
theory Misc_Strings
  imports Wf_Prelude "HOL-Library.Sublist"
begin

text \<open>
  String operations of the C++ and Boost libraries that several components use: \<^verbatim>\<open>std::string::find\<close>
  compared with \<^verbatim>\<open>npos\<close>, and \<^verbatim>\<open>boost::replace_all\<close>, which replaces the occurrences of a pattern from
  left to right and does not look at what it has inserted.
\<close>

fun contains_str :: "string \<Rightarrow> string \<Rightarrow> bool" where
  "contains_str pat [] \<longleftrightarrow> pat = []"
| "contains_str pat (c # s) \<longleftrightarrow> prefix pat (c # s) \<or> contains_str pat s"

function replace_all :: "string \<Rightarrow> string \<Rightarrow> string \<Rightarrow> string" where
  "replace_all pat rep [] = []"
| "replace_all pat rep (c # s) =
     (if pat \<noteq> [] \<and> prefix pat (c # s) then rep @ replace_all pat rep (drop (length pat) (c # s))
      else c # replace_all pat rep s)"
  by pat_completeness auto
termination
  by (relation "measure (\<lambda>(pat, rep, s). length s)") (auto simp: neq_Nil_conv)

declare replace_all.simps(2) [simp del]

lemma contains_sublist: "contains_str pat s \<longleftrightarrow> sublist pat s"
  by (induction s) (auto simp: sublist_Cons_right)

lemma replace_all_none: "\<not> contains_str pat s \<Longrightarrow> replace_all pat rep s = s"
  by (induction s) (auto simp: replace_all.simps(2))

lemma replace_all_prefix: "pat \<noteq> [] \<Longrightarrow> replace_all pat rep (pat @ s) = rep @ replace_all pat rep s"
  by (cases pat) (simp_all add: replace_all.simps(2))

text \<open>Text whose characters do not include the first character of the pattern is copied.\<close>

lemma replace_all_skip:
  "pat = p # ps \<Longrightarrow> p \<notin> set a \<Longrightarrow> replace_all pat rep (a @ s) = a @ replace_all pat rep s"
  by (induction a) (auto simp: replace_all.simps(2))

lemma replace_all_once:
  assumes "pat = p # ps" "p \<notin> set a" "p \<notin> set b"
  shows "replace_all pat rep (a @ pat @ b) = a @ rep @ b"
  using replace_all_skip[OF assms(1,2)] replace_all_prefix[of pat rep b] replace_all_skip[OF assms(1,3), of rep "[]"] assms(1)
  by simp

end
