(* ===== verification/Webhook.thy ===== *)
theory Webhook
  imports Json_Text Misc_Strings Base64 "HOL-Library.Multiset"
begin

text \<open>
  Web hooks (\<^verbatim>\<open>common/webhook.hh\<close>, \<^verbatim>\<open>common/webhook.cc\<close>): the hook object with its events and configuration,
  the registry \<^verbatim>\<open>WebHookDB\<close>, and the runner, whose threads take events from a bounded queue in batches
  and post them. A shared pointer to a registered hook is the hook's identifier: the counters a thread
  increments are those of the hook with that identifier. \<^verbatim>\<open>HMAC\<close> and SHA-256 (OpenSSL), the printed time
  and date, and what \<^verbatim>\<open>curl\<close> reports for the posts of a batch are arguments.
\<close>

section \<open>The hook\<close>

type_synonym WHConfigMap = "(string \<times> string) list"
type_synonym WHEventConfig = "string list \<times> string list"

record WebHook =
  wh_id :: "32 word"
  wh_events :: "string list"
  wh_active :: bool
  wh_config_keys :: WHConfigMap
  wh_num_success :: "32 word"
  wh_num_failed :: "32 word"
  wh_name :: string
  wh_custom :: bool

definition event_names :: "(string \<times> WHEventConfig) list" where
  "event_names =
     [(''addbl'', [''url''], [''secret'', ''basic-auth'']),
      (''addwl'', [''url''], [''secret'', ''basic-auth'']),
      (''allow'', [''url''], [''secret'', ''allow_filter'', ''basic-auth'']),
      (''delbl'', [''url''], [''secret'', ''basic-auth'']),
      (''delwl'', [''url''], [''secret'', ''basic-auth'']),
      (''expirebl'', [''url''], [''secret'', ''basic-auth'']),
      (''expirewl'', [''url''], [''secret'', ''basic-auth'']),
      (''report'', [''url''], [''secret'', ''basic-auth'']),
      (''reset'', [''url''], [''secret'', ''basic-auth''])]"

definition getEventNames :: "string list" where
  "getEventNames = map fst event_names"

definition validEventName :: "string \<Rightarrow> bool" where
  "validEventName event_name \<longleftrightarrow> list_ex (\<lambda>i. fst i = event_name) event_names"

definition addEvent :: "string \<Rightarrow> WebHook \<Rightarrow> WebHook" where
  "addEvent event_name h =
     (if validEventName event_name \<and> \<not> list_ex (\<lambda>i. i = event_name) (wh_events h)
      then h\<lparr>wh_events := wh_events h @ [event_name]\<rparr> else h)"

definition addEvents :: "string list \<Rightarrow> WebHook \<Rightarrow> WebHook" where
  "addEvents new_events h = foldl (\<lambda>h i. addEvent i h) h new_events"

definition setEvents :: "string list \<Rightarrow> WebHook \<Rightarrow> WebHook" where
  "setEvents new_events h = h\<lparr>wh_events := new_events\<rparr>"

definition deleteEvent :: "string \<Rightarrow> WebHook \<Rightarrow> WebHook" where
  "deleteEvent event_name h = h\<lparr>wh_events := remove1 event_name (wh_events h)\<rparr>"

definition deleteEvents :: "string list \<Rightarrow> WebHook \<Rightarrow> WebHook" where
  "deleteEvents new_events h = foldl (\<lambda>h i. deleteEvent i h) h new_events"

definition new_WebHook :: "32 word \<Rightarrow> string list \<Rightarrow> bool \<Rightarrow> WHConfigMap \<Rightarrow> WebHook" where
  "new_WebHook i evs act cfg =
     addEvents evs
       \<lparr>wh_id = i, wh_events = [], wh_active = act, wh_config_keys = cfg, wh_num_success = 0, wh_num_failed = 0,
        wh_name = [], wh_custom = False\<rparr>"

definition new_CustomWebHook :: "32 word \<Rightarrow> string \<Rightarrow> bool \<Rightarrow> WHConfigMap \<Rightarrow> WebHook" where
  "new_CustomWebHook i nm act cfg =
     \<lparr>wh_id = i, wh_events = [], wh_active = act, wh_config_keys = cfg, wh_num_success = 0, wh_num_failed = 0,
      wh_name = nm, wh_custom = True\<rparr>"

definition wh_equal :: "WebHook \<Rightarrow> WebHook \<Rightarrow> bool" where
  "wh_equal h rhs \<longleftrightarrow> wh_id h = wh_id rhs \<and> (wh_custom h \<longrightarrow> wh_name h = wh_name rhs)"

definition hasName :: "WebHook \<Rightarrow> bool" where
  "hasName h \<longleftrightarrow> wh_name h \<noteq> []"

definition getEventsStr :: "WebHook \<Rightarrow> string" where
  "getEventsStr h = concat (map (\<lambda>i. i @ '' '') (wh_events h))"

definition hasConfigKey :: "string \<Rightarrow> WebHook \<Rightarrow> bool" where
  "hasConfigKey key h \<longleftrightarrow> map_of (wh_config_keys h) key \<noteq> None"

definition getConfigKey :: "string \<Rightarrow> WebHook \<Rightarrow> string" where
  "getConfigKey key h = (case map_of (wh_config_keys h) key of Some v \<Rightarrow> v | None \<Rightarrow> [])"

definition setConfigKeys :: "WHConfigMap \<Rightarrow> WebHook \<Rightarrow> WebHook" where
  "setConfigKeys new_cfg h = h\<lparr>wh_config_keys := new_cfg\<rparr>"

definition addConfigKey :: "string \<Rightarrow> string \<Rightarrow> WebHook \<Rightarrow> WebHook" where
  "addConfigKey key val h = h\<lparr>wh_config_keys := sm_insert key val (wh_config_keys h)\<rparr>"

definition addConfigKeys :: "WHConfigMap \<Rightarrow> WebHook \<Rightarrow> WebHook" where
  "addConfigKeys new_cfg h = foldl (\<lambda>h (k, v). addConfigKey k v h) h new_cfg"

definition deleteConfigKey :: "string \<Rightarrow> WebHook \<Rightarrow> WebHook" where
  "deleteConfigKey key h = h\<lparr>wh_config_keys := sm_erase key (wh_config_keys h)\<rparr>"

definition setActive :: "bool \<Rightarrow> WebHook \<Rightarrow> WebHook" where
  "setActive act h = h\<lparr>wh_active := act\<rparr>"

definition getConfigForEvent :: "string \<Rightarrow> WHEventConfig" where
  "getConfigForEvent event_name =
     (if validEventName event_name
      then (case map_of event_names event_name of Some c \<Rightarrow> c | None \<Rightarrow> ([], [])) else ([], []))"

text \<open>
  The first mandatory key that is missing. \<open>validateConfig\<close> returns whether the configuration is good and
  the error message, which it leaves as it was when there is no error.
\<close>

fun missing_key :: "string list \<Rightarrow> WHConfigMap \<Rightarrow> string option" where
  "missing_key [] cfg = None"
| "missing_key (cf # man_cfg) cfg = (if map_of cfg cf = None then Some cf else missing_key man_cfg cfg)"

fun missing_event_key :: "(string \<times> WHEventConfig) list \<Rightarrow> WHConfigMap \<Rightarrow> string option" where
  "missing_event_key [] cfg = None"
| "missing_event_key (ev # evs) cfg =
     (case missing_key (fst (snd ev)) cfg of Some cf \<Rightarrow> Some cf | None \<Rightarrow> missing_event_key evs cfg)"

definition validateConfig :: "WebHook \<Rightarrow> string \<Rightarrow> bool \<times> string" where
  "validateConfig h error_msg =
     (if wh_custom h
      then (if map_of (wh_config_keys h) ''url'' = None then (False, ''Missing mandatory configuration key: url'')
            else (True, error_msg))
      else if event_names = [] then (False, ''No events registered'')
      else (case missing_event_key event_names (wh_config_keys h) of
              Some cf \<Rightarrow> (False, ''Missing mandatory configuration key: '' @ cf)
            | None \<Rightarrow> (True, error_msg)))"

definition wh_to_json :: "WebHook \<Rightarrow> Json" where
  "wh_to_json h =
     (if wh_custom h
      then js_object
             [(''id'', JInt (sint (wh_id h))), (''name'', JString (wh_name h)),
              (''config'', JObject (map (\<lambda>(k, v). (k, JString v)) (wh_config_keys h)))]
      else js_object
             [(''id'', JInt (sint (wh_id h))), (''events'', JArray (map JString (wh_events h))),
              (''config'', JObject (map (\<lambda>(k, v). (k, JString v)) (wh_config_keys h)))])"

definition incSuccess :: "WebHook \<Rightarrow> WebHook" where
  "incSuccess h = h\<lparr>wh_num_success := wh_num_success h + 1\<rparr>"

definition incFailed :: "WebHook \<Rightarrow> WebHook" where
  "incFailed h = h\<lparr>wh_num_failed := wh_num_failed h + 1\<rparr>"

section \<open>The registry\<close>

record WebHookDB =
  whdb_id :: "32 word"
  webhooks :: "WebHook list"

definition new_WebHookDB :: WebHookDB where
  "new_WebHookDB = \<lparr>whdb_id = 0, webhooks = []\<rparr>"

definition getNewID :: "WebHookDB \<Rightarrow> WebHookDB \<times> 32 word" where
  "getNewID db = (db\<lparr>whdb_id := whdb_id db + 1\<rparr>, whdb_id db + 1)"

definition already_registered :: "32 word \<Rightarrow> string" where
  "already_registered i = ''Registering webhook failed: id='' @ nat_to_string (unat i) @ '' is already registered''"

definition addWebHook :: "WebHook \<Rightarrow> string \<Rightarrow> WebHookDB \<Rightarrow> WebHookDB \<times> bool \<times> string" where
  "addWebHook hook error_msg db =
     (case validateConfig hook error_msg of
        (False, error_msg) \<Rightarrow> (db, True, error_msg)
      | (True, error_msg) \<Rightarrow>
          (if list_ex (\<lambda>i. wh_id i = wh_id hook) (webhooks db) then (db, False, already_registered (wh_id hook))
           else
             (let h = (if hasName hook
                       then new_CustomWebHook (wh_id hook) (wh_name hook) (wh_active hook) (wh_config_keys hook)
                       else new_WebHook (wh_id hook) (wh_events hook) (wh_active hook) (wh_config_keys hook))
              in (db\<lparr>webhooks := webhooks db @ [h]\<rparr>, True, error_msg))))"

fun delete_hook :: "32 word \<Rightarrow> WebHook list \<Rightarrow> WebHook list \<times> bool" where
  "delete_hook i [] = ([], False)"
| "delete_hook i (h # hs) = (if wh_id h = i then (hs, True) else (case delete_hook i hs of (hs', r) \<Rightarrow> (h # hs', r)))"

definition deleteWebHook :: "32 word \<Rightarrow> WebHookDB \<Rightarrow> WebHookDB \<times> bool" where
  "deleteWebHook i db = (case delete_hook i (webhooks db) of (hs, r) \<Rightarrow> (db\<lparr>webhooks := hs\<rparr>, r))"

definition getWebHook :: "32 word \<Rightarrow> WebHookDB \<Rightarrow> WebHook option" where
  "getWebHook i db = List.find (\<lambda>h. wh_id h = i) (webhooks db)"

definition getWebHook_name :: "string \<Rightarrow> WebHookDB \<Rightarrow> WebHook option" where
  "getWebHook_name nm db = List.find (\<lambda>h. wh_name h = nm) (webhooks db)"

definition getWebHooks :: "WebHookDB \<Rightarrow> WebHook list" where
  "getWebHooks db = webhooks db"

definition getWebHooksForEvent :: "string \<Rightarrow> WebHookDB \<Rightarrow> WebHook list" where
  "getWebHooksForEvent event_name db =
     concat (map (\<lambda>i. concat (map (\<lambda>ev. if ev = event_name then [i] else []) (wh_events i))) (webhooks db))"

definition whdb_toString :: "json_lib \<Rightarrow> WebHookDB \<Rightarrow> string" where
  "whdb_toString J db = js_dump J (JArray (map wh_to_json (webhooks db)))"

text \<open>The function of the Lua configuration that registers a hook.\<close>

definition lua_addWebHook :: "string list \<Rightarrow> (string \<times> string) list \<Rightarrow> WebHookDB \<Rightarrow> WebHookDB \<times> bool \<times> string" where
  "lua_addWebHook events_vec ck_vec db =
     (case getNewID db of
        (db1, i) \<Rightarrow>
          (let cfg = fold (\<lambda>(k, v). sm_insert k v) ck_vec [];
               cfg' = (if map_of cfg ''kafka'' = Some ''true''
                       then sm_insert ''content-type'' ''application/vnd.kafka.json.v2+json'' cfg else cfg)
           in addWebHook (new_WebHook i events_vec True cfg') [] db1))"

section \<open>The runner\<close>

record WebHookQueueItem =
  wqi_event_name :: string
  wqi_hook :: WebHook
  wqi_hook_data :: string

record WebHookRunner =
  wh_queue :: "WebHookQueueItem list"
  wh_max_queue_size :: "32 word"
  wh_max_hook_conns :: "32 word"
  wh_num_threads :: "32 word"
  wh_timeout_secs :: "64 word"
  wh_verify_peer :: bool
  wh_verify_host :: bool
  wh_caCertBundleFile :: string
  wh_clientCertFile :: string
  wh_clientKeyFile :: string

definition new_WebHookRunner :: WebHookRunner where
  "new_WebHookRunner =
     \<lparr>wh_queue = [], wh_max_queue_size = 50000, wh_max_hook_conns = 10, wh_num_threads = 5, wh_timeout_secs = 2,
      wh_verify_peer = True, wh_verify_host = True, wh_caCertBundleFile = [], wh_clientCertFile = [], wh_clientKeyFile = []\<rparr>"

definition setNumThreads :: "32 word \<Rightarrow> WebHookRunner \<Rightarrow> WebHookRunner" where
  "setNumThreads n r = r\<lparr>wh_num_threads := n\<rparr>"

definition setMaxQueueSize :: "32 word \<Rightarrow> WebHookRunner \<Rightarrow> WebHookRunner" where
  "setMaxQueueSize n r = r\<lparr>wh_max_queue_size := n\<rparr>"

definition setMaxConns :: "32 word \<Rightarrow> WebHookRunner \<Rightarrow> WebHookRunner" where
  "setMaxConns n r = r\<lparr>wh_max_hook_conns := n\<rparr>"

definition setTimeout :: "64 word \<Rightarrow> WebHookRunner \<Rightarrow> WebHookRunner" where
  "setTimeout n r = r\<lparr>wh_timeout_secs := n\<rparr>"

text \<open>Taking an item into the queue, and the two forms of \<^verbatim>\<open>runHook\<close>.\<close>

definition push_item :: "WebHookQueueItem \<Rightarrow> WebHookRunner \<Rightarrow> WebHookRunner" where
  "push_item wqi r =
     (if unat (wh_max_queue_size r) \<le> length (wh_queue r) then r else r\<lparr>wh_queue := wh_queue r @ [wqi]\<rparr>)"

definition runHook_str :: "string \<Rightarrow> WebHook \<Rightarrow> string \<Rightarrow> WebHookRunner \<Rightarrow> WebHookRunner" where
  "runHook_str event_name hook hook_data r =
     (if \<not> fst (validateConfig hook []) then r
      else push_item \<lparr>wqi_event_name = event_name, wqi_hook = hook, wqi_hook_data = hook_data\<rparr> r)"

definition runHook :: "json_lib \<Rightarrow> string \<Rightarrow> WebHook \<Rightarrow> Json \<Rightarrow> WebHookRunner \<Rightarrow> WebHookRunner" where
  "runHook J event_name hook json_data r =
     (if getConfigKey ''kafka'' hook = ''true''
      then runHook_str event_name hook
             (js_dump J (js_object [(''records'', JArray [js_object [(''value'', json_data)]])])) r
      else runHook_str event_name hook (js_dump J json_data) r)"

text \<open>
  The multi-handle of \<^verbatim>\<open>minicurl.cc\<close>: a number of connections and the posts that have been added. \<^verbatim>\<open>runPost\<close>
  performs them and forgets them; what it returns for them is the argument \<open>P\<close>.
\<close>

record post =
  post_id :: "32 word"
  post_url :: string
  post_body :: string
  post_headers :: "(string \<times> string) list"

record mcmPostReturn =
  mpr_id :: "32 word"
  mpr_ret :: bool

record MiniCurlMulti =
  mc_conns :: nat
  mc_posts :: "post list"

definition addPost :: "post \<Rightarrow> MiniCurlMulti \<Rightarrow> MiniCurlMulti \<times> bool" where
  "addPost p m = (if length (mc_posts m) = mc_conns m then (m, False) else (m\<lparr>mc_posts := mc_posts m @ [p]\<rparr>, True))"

record hook_env =
  he_hmac :: "string \<Rightarrow> string \<Rightarrow> string"
  he_hash :: "string \<Rightarrow> string"
  he_time :: string
  he_year :: string
  he_month :: string
  he_day :: string

definition ExpandURL :: "hook_env \<Rightarrow> string \<Rightarrow> string" where
  "ExpandURL H url =
     replace_all ''%{dd}'' (he_day H) (replace_all ''%{MM}'' (he_month H) (replace_all ''%{YYYY}'' (he_year H) url))"

definition hook_headers :: "hook_env \<Rightarrow> string \<Rightarrow> WebHook \<Rightarrow> string \<Rightarrow> (string \<times> string) list" where
  "hook_headers H event_name hook hook_data =
     (let hid = nat_to_string (unat (wh_id hook));
          m1 = sm_insert ''X-Wforce-Event'' event_name [];
          m2 = sm_insert ''Content-Type''
                 (if hasConfigKey ''content-type'' hook then getConfigKey ''content-type'' hook else ''application/json'') m1;
          m3 = sm_insert ''X-Wforce-HookID'' hid m2;
          m4 = (if hasConfigKey ''secret'' hook
                then sm_insert ''X-Wforce-Signature'' (Base64Encode (he_hmac H (getConfigKey ''secret'' hook) hook_data)) m3
                else m3);
          m5 = sm_insert ''X-Wforce-Delivery'' (Base64Encode (he_hash H (he_time H @ hid @ event_name))) m4;
          m6 = (if hasConfigKey ''basic-auth'' hook
                then sm_insert ''Authorization'' (''Basic '' @ Base64Encode (getConfigKey ''basic-auth'' hook)) m5 else m5)
      in if hasConfigKey ''api-key'' hook then sm_insert ''X-API-Key'' (getConfigKey ''api-key'' hook) m6 else m6)"

definition hook_post :: "hook_env \<Rightarrow> WebHookQueueItem \<Rightarrow> post" where
  "hook_post H i =
     \<lparr>post_id = wh_id (wqi_hook i), post_url = ExpandURL H (getConfigKey ''url'' (wqi_hook i)), post_body = wqi_hook_data i,
      post_headers = hook_headers H (wqi_event_name i) (wqi_hook i) (wqi_hook_data i)\<rparr>"

definition addHook :: "hook_env \<Rightarrow> WebHookQueueItem \<Rightarrow> MiniCurlMulti \<Rightarrow> MiniCurlMulti" where
  "addHook H i m = fst (addPost (hook_post H i) m)"

text \<open>The counters of the hook an event belongs to; results of a batch, one after the other.\<close>

definition bump :: "bool \<Rightarrow> 32 word \<Rightarrow> WebHookDB \<Rightarrow> WebHookDB" where
  "bump ok i db = db\<lparr>webhooks := map (\<lambda>h. if wh_id h = i then (if ok then incSuccess h else incFailed h) else h) (webhooks db)\<rparr>"

fun runHooks_loop :: "WebHookQueueItem list \<Rightarrow> mcmPostReturn list \<Rightarrow> bool \<Rightarrow> WebHookDB \<Rightarrow> WebHookDB \<times> bool" where
  "runHooks_loop events [] ret db = (db, ret)"
| "runHooks_loop events (i # retvec) ret db =
     (case List.find (\<lambda>j. mpr_id i = wh_id (wqi_hook j)) events of
        None \<Rightarrow> runHooks_loop events retvec ret db
      | Some j \<Rightarrow> runHooks_loop events retvec (if mpr_ret i then ret else False) (bump (mpr_ret i) (wh_id (wqi_hook j)) db))"

definition runHooks ::
    "(post list \<Rightarrow> mcmPostReturn list) \<Rightarrow> WebHookQueueItem list \<Rightarrow> MiniCurlMulti \<Rightarrow> WebHookDB \<Rightarrow> WebHookDB \<times> MiniCurlMulti \<times> bool" where
  "runHooks P events m db =
     (case runHooks_loop events (P (mc_posts m)) True db of (db', ret) \<Rightarrow> (db', m\<lparr>mc_posts := []\<rparr>, ret))"

fun take_events :: "nat \<Rightarrow> WebHookQueueItem list \<Rightarrow> WebHookQueueItem list \<times> WebHookQueueItem list" where
  "take_events 0 q = ([], q)"
| "take_events (Suc n) [] = ([], [])"
| "take_events (Suc n) (x # q) = (case take_events n q of (evs, rest) \<Rightarrow> (x # evs, rest))"

text \<open>One iteration of a thread with its multi-handle; it also returns the posts that were performed. \<open>None\<close> while the queue is empty.\<close>

definition runHookThread ::
    "hook_env \<Rightarrow> (post list \<Rightarrow> mcmPostReturn list) \<Rightarrow> nat \<Rightarrow> WebHookRunner \<times> WebHookDB \<times> MiniCurlMulti
     \<Rightarrow> ((WebHookRunner \<times> WebHookDB \<times> MiniCurlMulti) \<times> post list) option" where
  "runHookThread H P num_conns st =
     (case st of (r, db, m) \<Rightarrow>
        (if wh_queue r = [] then None
         else (case take_events num_conns (wh_queue r) of
                 (events, rest) \<Rightarrow>
                   (let m1 = foldl (\<lambda>m i. addHook H i m) m events
                    in case runHooks P events m1 db of
                         (db', m2, _) \<Rightarrow> Some ((r\<lparr>wh_queue := rest\<rparr>, db', m2), mc_posts m1)))))"

definition pingHook ::
    "hook_env \<Rightarrow> (post list \<Rightarrow> mcmPostReturn list) \<Rightarrow> WebHook \<Rightarrow> WebHookDB \<Rightarrow> WebHookDB \<times> bool" where
  "pingHook H P hook db =
     (let wqi = \<lparr>wqi_event_name = ''ping'', wqi_hook = hook, wqi_hook_data = []\<rparr>
      in case runHooks P [wqi] (addHook H wqi \<lparr>mc_conns = 10, mc_posts = []\<rparr>) db of (db', _, ret) \<Rightarrow> (db', ret))"

interpretation hook_queue: bounded_queue wh_queue "\<lambda>r. unat (wh_max_queue_size r)" push_item
  by unfold_locales (auto simp: push_item_def)

section \<open>The registry serves its subscribers\<close>

lemma validate_iff_url: "fst (validateConfig h e) \<longleftrightarrow> map_of (wh_config_keys h) ''url'' \<noteq> None"
  by (simp add: validateConfig_def event_names_def)

lemma addEvents_spec:
  "distinct (wh_events h) \<and> list_all validEventName (wh_events h) \<Longrightarrow>
   distinct (wh_events (addEvents evs h)) \<and> list_all validEventName (wh_events (addEvents evs h))
   \<and> addEvents evs h = h\<lparr>wh_events := wh_events (addEvents evs h)\<rparr>"
proof (induction evs arbitrary: h)
  case (Cons e evs)
  have one: "distinct (wh_events (addEvent e h)) \<and> list_all validEventName (wh_events (addEvent e h))"
    using Cons.prems by (auto simp: addEvent_def list_ex_iff)
  have "addEvent e h = h\<lparr>wh_events := wh_events (addEvent e h)\<rparr>" by (simp add: addEvent_def)
  moreover have "addEvents (e # evs) h = addEvents evs (addEvent e h)" by (simp add: addEvents_def)
  ultimately show ?case using Cons.IH[OF one] by (metis WebHook.fold_congs(2) WebHook.surjective WebHook.update_convs(2))
qed (simp add: addEvents_def)

definition hook_ok :: "WebHook \<Rightarrow> bool" where
  "hook_ok h \<longleftrightarrow> distinct (wh_events h) \<and> list_all validEventName (wh_events h) \<and> fst (validateConfig h [])"

definition whdb_ok :: "WebHookDB \<Rightarrow> bool" where
  "whdb_ok db \<longleftrightarrow> distinct (map wh_id (webhooks db)) \<and> list_all hook_ok (webhooks db)"

lemma new_hook_ok:
  "map_of cfg ''url'' \<noteq> None \<Longrightarrow> hook_ok (new_WebHook i evs act cfg) \<and> wh_id (new_WebHook i evs act cfg) = i"
  "map_of cfg ''url'' \<noteq> None \<Longrightarrow> hook_ok (new_CustomWebHook i nm act cfg) \<and> wh_id (new_CustomWebHook i nm act cfg) = i"
proof -
  let ?h = "\<lparr>wh_id = i, wh_events = [], wh_active = act, wh_config_keys = cfg, wh_num_success = 0, wh_num_failed = 0,
        wh_name = [], wh_custom = False\<rparr>"
  have "distinct (wh_events (addEvents evs ?h)) \<and> list_all validEventName (wh_events (addEvents evs ?h))
     \<and> addEvents evs ?h = ?h\<lparr>wh_events := wh_events (addEvents evs ?h)\<rparr>"
    by (rule addEvents_spec) simp
  then have "distinct (wh_events (addEvents evs ?h))" "list_all validEventName (wh_events (addEvents evs ?h))"
    "wh_config_keys (addEvents evs ?h) = cfg" "wh_id (addEvents evs ?h) = i"
    by (metis WebHook.select_convs WebHook.update_convs(2))+
  then show "map_of cfg ''url'' \<noteq> None \<Longrightarrow> hook_ok (new_WebHook i evs act cfg) \<and> wh_id (new_WebHook i evs act cfg) = i"
    by (simp add: hook_ok_def validate_iff_url new_WebHook_def)
qed (simp add: hook_ok_def validate_iff_url new_CustomWebHook_def)

lemma addWebHook_ok [wf_inv]: "whdb_ok db \<Longrightarrow> whdb_ok (fst (addWebHook h e db))"
  using new_hook_ok[of "wh_config_keys h"] validate_iff_url[of h e]
  by (auto simp: whdb_ok_def addWebHook_def Let_def list_ex_iff split: prod.split bool.split)

lemma delete_hook_filter:
  "distinct (map wh_id hs) \<Longrightarrow> delete_hook i hs = (filter (\<lambda>h. wh_id h \<noteq> i) hs, i \<in> wh_id ` set hs)"
proof (induction hs)
  case (Cons h hs)
  have "filter (\<lambda>g. wh_id g \<noteq> wh_id h) hs = hs" using Cons.prems by (intro filter_True) (metis distinct.simps(2) image_eqI list.set_map list.simps(9))
  with Cons show ?case by auto
qed simp

lemma deleteWebHook_ok [wf_inv]: "whdb_ok db \<Longrightarrow> whdb_ok (fst (deleteWebHook i db))"
  by (auto simp: whdb_ok_def deleteWebHook_def delete_hook_filter distinct_map_filter list_all_iff)

lemma bump_ids: "map wh_id (webhooks (bump ok i db)) = map wh_id (webhooks db)"
  by (simp add: bump_def incSuccess_def incFailed_def)

lemma bump_ok [wf_inv]: "whdb_ok db \<Longrightarrow> whdb_ok (bump ok i db)"
  using bump_ids[of ok i db]
  by (auto simp: whdb_ok_def list_all_iff) (auto simp: bump_def incSuccess_def incFailed_def hook_ok_def validate_iff_url)

lemma hooks_for_event:
  "whdb_ok db \<Longrightarrow> getWebHooksForEvent ev db = filter (\<lambda>h. ev \<in> set (wh_events h)) (webhooks db)"
proof -
  have one: "concat (map (\<lambda>e. if e = ev then [h] else []) es) = (if ev \<in> set es then [h] else [])"
    if "distinct es" for h :: WebHook and es
    using that by (induction es) auto
  have "concat (map (\<lambda>i. concat (map (\<lambda>e. if e = ev then [i] else []) (wh_events i))) hs) = filter (\<lambda>h. ev \<in> set (wh_events h)) hs"
    if "list_all hook_ok hs" for hs
    using that by (induction hs) (auto simp: one hook_ok_def)
  then show "whdb_ok db \<Longrightarrow> getWebHooksForEvent ev db = filter (\<lambda>h. ev \<in> set (wh_events h)) (webhooks db)"
    by (simp add: whdb_ok_def getWebHooksForEvent_def)
qed

datatype whdb_call =
    Call_add WebHook
  | Call_lua "string list" "(string \<times> string) list"
  | Call_delete "32 word"
  | Call_result bool "32 word"

fun whdb_exec :: "whdb_call \<Rightarrow> WebHookDB \<Rightarrow> WebHookDB" where
  "whdb_exec (Call_add h) db = fst (addWebHook h [] db)"
| "whdb_exec (Call_lua evs cfg) db = fst (lua_addWebHook evs cfg db)"
| "whdb_exec (Call_delete i) db = fst (deleteWebHook i db)"
| "whdb_exec (Call_result ok i) db = bump ok i db"

lemma whdb_exec_ok: "whdb_ok db \<Longrightarrow> whdb_ok (whdb_exec c db)"
proof (cases c)
  case (Call_lua evs cfg)
  have "whdb_ok (db\<lparr>whdb_id := n\<rparr>)" if "whdb_ok db" for n using that by (simp add: whdb_ok_def)
  then show "whdb_ok db \<Longrightarrow> ?thesis" using Call_lua by (simp add: lua_addWebHook_def getNewID_def Let_def wf_inv)
qed (simp_all add: wf_inv)

lemma whdb_run_ok: "whdb_ok db \<Longrightarrow> whdb_ok (fold whdb_exec cs db)"
  by (induction cs arbitrary: db) (auto intro: whdb_exec_ok)

section \<open>The runner delivers what is queued\<close>

lemma take_events_eq: "take_events n q = (take n q, drop n q)"
  by (induction n q rule: take_events.induct) auto

lemma add_hooks:
  "length (mc_posts m) + length evs \<le> mc_conns m \<Longrightarrow>
   foldl (\<lambda>m i. addHook H i m) m evs = m\<lparr>mc_posts := mc_posts m @ map (hook_post H) evs\<rparr>"
  by (induction evs arbitrary: m) (auto simp: addHook_def addPost_def)

definition attempts :: "WebHook \<Rightarrow> 32 word" where
  "attempts h = wh_num_success h + wh_num_failed h"

definition counted :: "32 word list \<Rightarrow> WebHook list \<Rightarrow> (32 word \<times> 32 word) list" where
  "counted ids hs = map (\<lambda>h. (wh_id h, attempts h + of_nat (count (mset ids) (wh_id h)))) hs"

lemma counted_bump: "counted ids (webhooks (bump ok i db)) = counted (i # ids) (webhooks db)"
  by (auto simp: counted_def bump_def incSuccess_def incFailed_def attempts_def)

lemma counted_mset: "mset ids = mset ids' \<Longrightarrow> counted ids hs = counted ids' hs"
  by (simp add: counted_def)

lemma counted_append: "counted ids hs = counted [] hs' \<Longrightarrow> counted (ids @ ids') hs = counted ids' hs'"
proof -
  assume a: "counted ids hs = counted [] hs'"
  have "counted (ids @ ids') hs = map (\<lambda>(i, n). (i, n + of_nat (count (mset ids') i))) (counted ids hs)"
    by (simp add: counted_def)
  also have "\<dots> = counted ids' hs'" using a by (simp add: counted_def)
  finally show ?thesis .
qed

lemma runHooks_loop_counts:
  "(\<forall>i \<in> set rs. mpr_id i \<in> (\<lambda>i. wh_id (wqi_hook i)) ` set events) \<Longrightarrow>
   counted [] (webhooks (fst (runHooks_loop events rs ret db))) = counted (map mpr_id rs) (webhooks db)"
proof (induction rs arbitrary: ret db)
  case (Cons r rs)
  then obtain j where j: "List.find (\<lambda>j. mpr_id r = wh_id (wqi_hook j)) events = Some j"
    by (cases "List.find (\<lambda>j. mpr_id r = wh_id (wqi_hook j)) events") (auto simp: find_None_iff)
  then have "mpr_id r = wh_id (wqi_hook j)" by (auto simp: find_Some_iff)
  with Cons j show ?case by (simp add: counted_bump)
qed simp

fun wh_run ::
    "hook_env \<Rightarrow> (post list \<Rightarrow> mcmPostReturn list) \<Rightarrow> nat \<Rightarrow> nat \<Rightarrow> WebHookRunner \<times> WebHookDB \<times> MiniCurlMulti
     \<Rightarrow> (WebHookRunner \<times> WebHookDB \<times> MiniCurlMulti) \<times> post list list" where
  "wh_run H P n 0 st = (st, [])"
| "wh_run H P n (Suc k) st =
     (case runHookThread H P n st of
        None \<Rightarrow> (st, [])
      | Some (st', ps) \<Rightarrow> (case wh_run H P n k st' of (st'', bs) \<Rightarrow> (st'', ps # bs)))"

lemma thread_step:
  assumes "0 < n" "mc_conns m = n" "mc_posts m = []" "wh_queue r \<noteq> []"
    and P: "\<And>ps. mset (map mpr_id (P ps)) = mset (map post_id ps)"
  shows "\<exists>db'. runHookThread H P n (r, db, m) = Some ((r\<lparr>wh_queue := drop n (wh_queue r)\<rparr>, db', m), map (hook_post H) (take n (wh_queue r)))
    \<and> counted [] (webhooks db') = counted (map (\<lambda>i. wh_id (wqi_hook i)) (take n (wh_queue r))) (webhooks db)"
proof -
  let ?evs = "take n (wh_queue r)"
  let ?rs = "P (map (hook_post H) ?evs)"
  have ids: "mset (map mpr_id ?rs) = mset (map (\<lambda>i. wh_id (wqi_hook i)) ?evs)"
    using P[of "map (hook_post H) ?evs"] by (simp add: comp_def hook_post_def)
  then have "set (map mpr_id ?rs) = set (map (\<lambda>i. wh_id (wqi_hook i)) ?evs)" by (rule mset_eq_setD)
  then have "counted [] (webhooks (fst (runHooks_loop ?evs ?rs True db))) = counted (map mpr_id ?rs) (webhooks db)"
    by (intro runHooks_loop_counts) (auto simp: set_eq_iff image_iff)
  then show ?thesis
    using assms(1-4) counted_mset[OF ids] add_hooks[of m ?evs H]
    by (auto simp: runHookThread_def take_events_eq runHooks_def Let_def split: prod.split)
qed

section \<open>Properties\<close>

text \<open>
  C26. The registry serves every subscriber exactly once. After any sequence of registrations (from C++ or
  Lua), deletions and results of posts, identifiers are unique, every hook has the mandatory keys and only
  events the program knows, and the hooks found for an event are those that subscribe to it, each once, in
  the order of their registration.
\<close>

theorem registry_serves_each_subscriber_once:
  "let db = fold whdb_exec calls new_WebHookDB in
     distinct (map wh_id (webhooks db))
     \<and> list_all (\<lambda>h. fst (validateConfig h []) \<and> list_all validEventName (wh_events h)) (webhooks db)
     \<and> getWebHooksForEvent ev db = filter (\<lambda>h. ev \<in> set (wh_events h)) (webhooks db)"
proof -
  have "whdb_ok (fold whdb_exec calls new_WebHookDB)"
    by (rule whdb_run_ok) (simp add: whdb_ok_def new_WebHookDB_def)
  then show ?thesis
    unfolding Let_def by (auto simp: hooks_for_event) (auto simp: whdb_ok_def hook_ok_def list_all_iff)
qed

text \<open>
  C27. A runner thread with at least one connection empties its queue: after as many iterations as there are queued
  events (or more), every event has been posted exactly once, in the order of the queue, in batches that fit the
  connections, and every registered hook has counted exactly its own posts as successes or failures. What is
  relied on of curl is that it reports one result for each post, in any order.
\<close>

theorem queued_hooks_are_posted_once_in_order:
  assumes n: "0 < n" and m: "mc_conns m = n" "mc_posts m = []" and k: "length (wh_queue r) \<le> k"
    and P: "\<And>ps. mset (map mpr_id (P ps)) = mset (map post_id ps)"
  shows "\<exists>r' db' batches. wh_run H P n k (r, db, m) = ((r', db', m), batches)
    \<and> wh_queue r' = [] \<and> concat batches = map (hook_post H) (wh_queue r) \<and> list_all (\<lambda>b. length b \<le> n) batches
    \<and> counted [] (webhooks db') = counted (map (\<lambda>i. wh_id (wqi_hook i)) (wh_queue r)) (webhooks db)"
  using k
proof (induction k arbitrary: r db)
  case (Suc k)
  show ?case
  proof (cases "wh_queue r = []")
    case True
    then show ?thesis by (simp add: runHookThread_def)
  next
    case False
    let ?r = "r\<lparr>wh_queue := drop n (wh_queue r)\<rparr>"
    obtain db' where step: "runHookThread H P n (r, db, m) = Some ((?r, db', m), map (hook_post H) (take n (wh_queue r)))"
      and cnt: "counted [] (webhooks db') = counted (map (\<lambda>i. wh_id (wqi_hook i)) (take n (wh_queue r))) (webhooks db)"
      using thread_step[OF n m False P] by blast
    have "length (wh_queue ?r) \<le> k" using Suc.prems n by simp
    from Suc.IH[OF this, of db'] obtain r' db'' bs where rest: "wh_run H P n k (?r, db', m) = ((r', db'', m), bs)"
      "wh_queue r' = []" "concat bs = map (hook_post H) (drop n (wh_queue r))" "list_all (\<lambda>b. length b \<le> n) bs"
      "counted [] (webhooks db'') = counted (map (\<lambda>i. wh_id (wqi_hook i)) (drop n (wh_queue r))) (webhooks db')"
      by auto
    have "counted (map (\<lambda>i. wh_id (wqi_hook i)) (wh_queue r)) (webhooks db) = counted [] (webhooks db'')"
      using counted_append[OF cnt[symmetric], of "map (\<lambda>i. wh_id (wqi_hook i)) (drop n (wh_queue r))"] rest(5)
      by (simp flip: map_append)
    moreover have "map (hook_post H) (take n (wh_queue r)) @ map (hook_post H) (drop n (wh_queue r)) = map (hook_post H) (wh_queue r)"
      by (simp flip: map_append)
    ultimately show ?thesis using step rest by simp
  qed
qed (simp add: runHookThread_def)

definition demo_hook :: WebHook where
  "demo_hook = new_WebHook 1 [''report'', ''allow''] True [(''url'', ''http://h/%{YYYY}'')]"

definition demo_runner :: WebHookRunner where
  "demo_runner = fold (\<lambda>d. runHook_str ''report'' demo_hook d) [''a'', ''b'', ''c''] new_WebHookRunner"

theorem queued_hooks_are_posted_once_in_order_witness:
  "\<exists>r' db' batches. wh_run \<lparr>he_hmac = (\<lambda>k d. d), he_hash = id, he_time = [], he_year = ''2024'', he_month = ''1'', he_day = ''2''\<rparr>
       (map (\<lambda>p. \<lparr>mpr_id = post_id p, mpr_ret = True\<rparr>)) 2 3 (demo_runner, \<lparr>whdb_id = 1, webhooks = [demo_hook]\<rparr>, \<lparr>mc_conns = 2, mc_posts = []\<rparr>)
     = ((r', db', \<lparr>mc_conns = 2, mc_posts = []\<rparr>), batches)
     \<and> map post_body (concat batches) = [''a'', ''b'', ''c''] \<and> map attempts (webhooks db') = [3]"
proof -
  have q: "map wqi_hook_data (wh_queue demo_runner) = [''a'', ''b'', ''c'']" "length (wh_queue demo_runner) = 3"
    "map (\<lambda>i. wh_id (wqi_hook i)) (wh_queue demo_runner) = [1, 1, 1]" "wh_id demo_hook = 1" "attempts demo_hook = 0"
    by (simp_all add: demo_runner_def runHook_str_def push_item_def new_WebHookRunner_def demo_hook_def new_WebHook_def
        addEvents_def addEvent_def validEventName_def event_names_def validate_iff_url attempts_def)
  have body: "map post_body (map (hook_post H) is) = map wqi_hook_data is" for H "is" by (simp add: hook_post_def)
  let ?H = "\<lparr>he_hmac = (\<lambda>k d. d), he_hash = id, he_time = [], he_year = ''2024'', he_month = ''1'', he_day = ''2''\<rparr>"
  let ?P = "map (\<lambda>p. \<lparr>mpr_id = post_id p, mpr_ret = True\<rparr>)" and ?m = "\<lparr>mc_conns = 2, mc_posts = []\<rparr>"
  let ?db = "\<lparr>whdb_id = 1, webhooks = [demo_hook]\<rparr>"
  have "\<exists>r' db' batches. wh_run ?H ?P 2 3 (demo_runner, ?db, ?m) = ((r', db', ?m), batches) \<and> wh_queue r' = []
      \<and> concat batches = map (hook_post ?H) (wh_queue demo_runner) \<and> list_all (\<lambda>b. length b \<le> 2) batches
      \<and> counted [] (webhooks db') = counted (map (\<lambda>i. wh_id (wqi_hook i)) (wh_queue demo_runner)) (webhooks ?db)"
    by (rule queued_hooks_are_posted_once_in_order) (simp_all add: q comp_def)
  then obtain r' db' batches where run: "wh_run ?H ?P 2 3 (demo_runner, ?db, ?m) = ((r', db', ?m), batches)"
      "concat batches = map (hook_post ?H) (wh_queue demo_runner)"
      "counted [] (webhooks db') = counted (map (\<lambda>i. wh_id (wqi_hook i)) (wh_queue demo_runner)) (webhooks ?db)"
    by (elim exE conjE)
  have "map snd (counted [] (webhooks db')) = [3]" unfolding run(3) q(3) by (simp add: counted_def q(4,5))
  then have "map attempts (webhooks db') = [3]" by (simp add: counted_def comp_def)
  moreover have "map post_body (concat batches) = [''a'', ''b'', ''c'']" unfolding run(2) body q(1) ..
  ultimately show ?thesis using run(1) by (intro exI conjI)
qed

text \<open>
  A hook without the mandatory key is not registered, but \<open>addWebHook\<close> reports success, so that the error is
  not logged by the function that registers hooks from Lua.
\<close>

lemma refused_hook_reported_as_registered:
  "map_of (wh_config_keys h) ''url'' = None \<Longrightarrow> fst (addWebHook h e db) = db \<and> fst (snd (addWebHook h e db))"
  using validate_iff_url[of h e] by (auto simp: addWebHook_def split: prod.split bool.split)

text \<open>The year, month and day of a URL are filled in where the macros stand.\<close>

lemma expand_url_date:
  assumes "CHR ''%'' \<notin> set a \<union> set b \<union> set (he_year H) \<union> set (he_month H) \<union> set (he_day H)"
  shows "ExpandURL H (a @ ''%{YYYY}'' @ ''-'' @ ''%{MM}'' @ ''-'' @ ''%{dd}'' @ b) = a @ he_year H @ ''-'' @ he_month H @ ''-'' @ he_day H @ b"
proof -
  have skip: "replace_all (CHR ''%'' # p) rep (a @ s) = a @ replace_all (CHR ''%'' # p) rep s"
      if "CHR ''%'' \<notin> set a" for p rep a s
    by (rule replace_all_skip[OF refl that])
  have tail: "replace_all (CHR ''%'' # p) rep b = b" for p rep using skip[of b p rep "[]"] assms by simp
  have y: "replace_all ''%{YYYY}'' (he_year H) (a @ ''%{YYYY}'' @ ''-'' @ ''%{MM}'' @ ''-'' @ ''%{dd}'' @ b)
      = a @ he_year H @ ''-'' @ ''%{MM}'' @ ''-'' @ ''%{dd}'' @ b"
    using skip[of a] assms tail by (simp add: replace_all.simps(2))
  have m: "replace_all ''%{MM}'' (he_month H) (a @ he_year H @ ''-'' @ ''%{MM}'' @ ''-'' @ ''%{dd}'' @ b)
      = a @ he_year H @ ''-'' @ he_month H @ ''-'' @ ''%{dd}'' @ b"
    using skip[of a] skip[of "he_year H"] assms tail by (simp add: replace_all.simps(2))
  have d: "replace_all ''%{dd}'' (he_day H) (a @ he_year H @ ''-'' @ he_month H @ ''-'' @ ''%{dd}'' @ b)
      = a @ he_year H @ ''-'' @ he_month H @ ''-'' @ he_day H @ b"
    using skip[of a] skip[of "he_year H"] skip[of "he_month H"] assms tail by (simp add: replace_all.simps(2))
  show ?thesis unfolding ExpandURL_def y m d ..
qed

end
