(* ===== verification/Login_Tuple.thy ===== *)
theory Login_Tuple
  imports Netmask Json_Text
begin

text \<open>
  The login tuple (\<^verbatim>\<open>common/login_tuple.cc\<close>, \<^verbatim>\<open>common/login_tuple.hh\<close>): what a client reports about a login, its
  JSON form, its order and its text in the log, and the cache of parsed device identifiers
  (\<^verbatim>\<open>DeviceCache\<close> of \<^verbatim>\<open>common/device_parser.cc\<close>). The parsers of device identifiers are regular expressions of
  Boost and of the uap-cpp library; they are the fields of \<open>ua_parsers\<close> and return the attributes that
  the program stores, in the order of the code. The cache is an \<^verbatim>\<open>unordered_map\<close> that is only searched.
\<close>

record LoginTuple =
  lt_t :: double
  lt_remote :: ComboAddress
  lt_login :: string
  lt_pwhash :: string
  lt_device_id :: string
  lt_device_attrs :: "(string \<times> string) list"
  lt_protocol :: string
  lt_tls :: bool
  lt_success :: bool
  lt_attrs :: "(string \<times> string) list"
  lt_attrs_mv :: "(string \<times> string list) list"
  lt_policy_reject :: bool
  lt_fail_type :: string
  lt_session_id :: string

text \<open>A tuple as it is declared; the time is not initialised and is \<open>t0\<close>.\<close>

definition new_LoginTuple :: "double \<Rightarrow> LoginTuple" where
  "new_LoginTuple t0 =
     \<lparr>lt_t = t0, lt_remote = CA_V4 0 0, lt_login = [], lt_pwhash = [], lt_device_id = [], lt_device_attrs = [], lt_protocol = [],
      lt_tls = False, lt_success = False, lt_attrs = [], lt_attrs_mv = [], lt_policy_reject = False, lt_fail_type = [],
      lt_session_id = []\<rparr>"

section \<open>JSON\<close>

definition lt_to_json :: "netlib \<Rightarrow> LoginTuple \<Rightarrow> Json" where
  "lt_to_json N lt =
     (let jattrs = fold (\<lambda>(k, v). sm_insert k (JArray (map JString v))) (lt_attrs_mv lt) [];
          jattrs' = fold (\<lambda>(k, v). sm_insert k (JString v)) (lt_attrs lt) jattrs;
          jattrs_dev = fold (\<lambda>(k, v). sm_insert k (JString v)) (lt_device_attrs lt) []
      in js_object
           [(''login'', JString (lt_login lt)), (''success'', JBool (lt_success lt)), (''t'', JDouble (lt_t lt)),
            (''pwhash'', JString (lt_pwhash lt)), (''remote'', JString (ca_toString N (lt_remote lt))),
            (''device_id'', JString (lt_device_id lt)), (''device_attrs'', JObject jattrs_dev),
            (''protocol'', JString (lt_protocol lt)), (''tls'', JBool (lt_tls lt)), (''attrs'', JObject jattrs'),
            (''policy_reject'', JBool (lt_policy_reject lt)), (''fail_type'', JString (lt_fail_type lt)),
            (''session_id'', JString (lt_session_id lt))])"

definition lt_serialize :: "json_lib \<Rightarrow> netlib \<Rightarrow> LoginTuple \<Rightarrow> string" where
  "lt_serialize J N lt = js_dump J (lt_to_json N lt)"

fun set_attr :: "string \<times> Json \<Rightarrow> LoginTuple \<Rightarrow> LoginTuple" where
  "set_attr (k, JString v) lt = lt\<lparr>lt_attrs := sm_insert k v (lt_attrs lt)\<rparr>"
| "set_attr (k, JArray av_list) lt = lt\<lparr>lt_attrs_mv := sm_insert k (map string_value av_list) (lt_attrs_mv lt)\<rparr>"
| "set_attr (k, _) lt = lt"

definition setLtAttrs :: "Json \<Rightarrow> LoginTuple \<Rightarrow> LoginTuple" where
  "setLtAttrs msg lt =
     (case js_get msg ''attrs'' of
        JObject attrs_obj \<Rightarrow> fold set_attr attrs_obj lt
      | _ \<Rightarrow> lt)"

record ua_parsers =
  ua_parse :: "string \<Rightarrow> string list"
  imap_parse :: "string \<Rightarrow> string list"
  oxmad_parse :: "string \<Rightarrow> string list"

type_synonym DeviceCache = "(string \<times> (string \<times> string) list) list"

definition readFromCache :: "string \<Rightarrow> DeviceCache \<Rightarrow> (string \<times> string) list option" where
  "readFromCache device_id dcache = map_of dcache device_id"

definition addToCache :: "string \<Rightarrow> (string \<times> string) list \<Rightarrow> DeviceCache \<Rightarrow> DeviceCache" where
  "addToCache device_id attrs dcache = (if map_of dcache device_id = None then (device_id, attrs) # dcache else dcache)"

definition http_attrs :: "string list" where
  "http_attrs = [''device.family'', ''device.model'', ''device.brand'', ''os.family'', ''os.major'', ''os.minor'',
     ''browser.family'', ''browser.major'', ''browser.minor'']"

definition imap_attrs :: "string list" where
  "imap_attrs = [''imapc.family'', ''imapc.major'', ''imapc.minor'', ''os.family'', ''os.major'', ''os.minor'']"

definition mobile_attrs :: "string list" where
  "mobile_attrs = [''os.family'', ''os.major'', ''os.minor'', ''app.name'', ''app.brand'', ''app.major'', ''app.minor'', ''device.family'']"

text \<open>What is parsed from a device identifier, depending on the protocol.\<close>

definition parsed_attrs :: "ua_parsers \<Rightarrow> string \<Rightarrow> string \<Rightarrow> (string \<times> string) list" where
  "parsed_attrs U my_protocol my_device_id =
     (if my_protocol = ''http'' \<or> my_protocol = ''https'' then zip http_attrs (ua_parse U my_device_id)
      else if my_protocol = ''imap'' \<or> my_protocol = ''imaps'' then zip imap_attrs (imap_parse U my_device_id)
      else if my_protocol = ''mobileapi'' then zip mobile_attrs (oxmad_parse U my_device_id)
      else [])"

fun set_device_attr :: "string \<times> Json \<Rightarrow> LoginTuple \<Rightarrow> LoginTuple" where
  "set_device_attr (k, JString v) lt = lt\<lparr>lt_device_attrs := sm_insert k v (lt_device_attrs lt)\<rparr>"
| "set_device_attr (k, _) lt = lt"

definition setDeviceAttrs ::
    "ua_parsers option \<Rightarrow> Json \<Rightarrow> LoginTuple \<times> DeviceCache \<Rightarrow> LoginTuple \<times> DeviceCache" where
  "setDeviceAttrs uap msg st =
     (case st of (lt, dcache) \<Rightarrow>
        (case js_get msg ''device_attrs'' of
           JObject attrs_obj \<Rightarrow> (fold set_device_attr attrs_obj lt, dcache)
         | _ \<Rightarrow>
             (let my_device_id = string_value (js_get msg ''device_id'')
              in case readFromCache my_device_id dcache of
                   Some cached_attrs \<Rightarrow> (lt\<lparr>lt_device_attrs := cached_attrs\<rparr>, dcache)
                 | None \<Rightarrow>
                     (case uap of
                        None \<Rightarrow> (lt, dcache)
                      | Some U \<Rightarrow>
                          (let attrs = fold (\<lambda>(k, v). sm_insert k v)
                                 (parsed_attrs U (string_value (js_get msg ''protocol'')) my_device_id) (lt_device_attrs lt)
                           in (lt\<lparr>lt_device_attrs := attrs\<rparr>, addToCache my_device_id attrs dcache))))))"

definition lt_remote_of :: "netlib \<Rightarrow> string \<Rightarrow> exn + ComboAddress" where
  "lt_remote_of N s =
     (case new_ComboAddress N s 0 of
        Inl e \<Rightarrow> Inl e
      | Inr ca \<Rightarrow> (if isMappedIPv4 ca then mapToIPv4 ca else Inr ca))"

definition from_json ::
    "json_lib \<Rightarrow> netlib \<Rightarrow> ua_parsers option \<Rightarrow> Json \<Rightarrow> LoginTuple \<times> DeviceCache \<Rightarrow> (LoginTuple \<times> DeviceCache, unit) outcome" where
  "from_json J N uap msg st =
     (case st of (lt, dcache) \<Rightarrow>
        (let lt1 = lt\<lparr>lt_login := string_value (js_get msg ''login''), lt_pwhash := string_value (js_get msg ''pwhash''),
                      lt_t := number_value J (js_get msg ''t''), lt_success := bool_value (js_get msg ''success'')\<rparr>;
             rest = (\<lambda>lt2.
               case setDeviceAttrs uap msg (setLtAttrs msg lt2, dcache) of
                 (lt3, dcache') \<Rightarrow>
                   Ret (lt3\<lparr>lt_device_id := string_value (js_get msg ''device_id''),
                            lt_protocol := string_value (js_get msg ''protocol''), lt_tls := bool_value (js_get msg ''tls''),
                            lt_policy_reject := bool_value (js_get msg ''policy_reject''),
                            lt_fail_type := string_value (js_get msg ''fail_type''),
                            lt_session_id := string_value (js_get msg ''session_id'')\<rparr>, dcache') ())
         in case js_get msg ''remote'' of
              JString s \<Rightarrow> (case lt_remote_of N s of Inl e \<Rightarrow> Exn e (lt1, dcache) | Inr ca \<Rightarrow> rest (lt1\<lparr>lt_remote := ca\<rparr>))
            | _ \<Rightarrow> rest lt1))"

definition lt_unserialize ::
    "json_lib \<Rightarrow> netlib \<Rightarrow> string \<Rightarrow> LoginTuple \<times> DeviceCache \<Rightarrow> (LoginTuple \<times> DeviceCache, unit) outcome" where
  "lt_unserialize J N src st = from_json J N None (fst (js_parse J src)) st"

section \<open>Order and log text\<close>

text \<open>\<open>dless\<close> is the order of \<^verbatim>\<open>double\<close>, with \<open>dless\<close> false both ways for equal values.\<close>

definition lt_tie_less :: "(double \<Rightarrow> double \<Rightarrow> bool) \<Rightarrow> LoginTuple \<Rightarrow> LoginTuple \<Rightarrow> bool" where
  "lt_tie_less dless l r \<longleftrightarrow>
     dless (lt_t l) (lt_t r) \<or> \<not> dless (lt_t r) (lt_t l) \<and>
       (lt_login l < lt_login r \<or> lt_login l = lt_login r \<and>
         (lt_pwhash l < lt_pwhash r \<or> lt_pwhash l = lt_pwhash r \<and> \<not> lt_success l \<and> lt_success r))"

definition lt_less :: "(double \<Rightarrow> double \<Rightarrow> bool) \<Rightarrow> LoginTuple \<Rightarrow> LoginTuple \<Rightarrow> bool" where
  "lt_less dless l r \<longleftrightarrow>
     lt_tie_less dless l r \<or> ca_less (set_port 0 (lt_remote l)) (set_port 0 (lt_remote r))"

fun sep_by :: "string list \<Rightarrow> string" where
  "sep_by [] = []"
| "sep_by [x] = x"
| "sep_by (x # y # xs) = x @ '', '' @ sep_by (y # xs)"

definition quoted :: "string \<Rightarrow> string" where
  "quoted s = [CHR 0x22] @ s @ [CHR 0x22]"

definition LtAttrsToString :: "LoginTuple \<Rightarrow> string" where
  "LtAttrsToString lt =
     ''attrs={'' @ sep_by (map (\<lambda>(k, v). k @ ''='' @ quoted v) (lt_attrs lt))
     @ (if lt_attrs_mv lt = [] then [] else '', '' @ sep_by (map (\<lambda>(k, v). k @ ''=['' @ sep_by (map quoted v) @ '']'') (lt_attrs_mv lt)))
     @ ''} ''"

definition DeviceAttrsToString :: "LoginTuple \<Rightarrow> string" where
  "DeviceAttrsToString lt =
     ''device_attrs={'' @ sep_by (map (\<lambda>(k, v). k @ ''='' @ quoted v) (lt_device_attrs lt)) @ ''} ''"

section \<open>Reading a tuple back\<close>

lemma sm_ok_mapped: "sm_ok (map (\<lambda>(k, v). (k, f v)) m) = sm_ok m"
  by (simp add: sm_ok_def comp_def case_prod_beta)

lemma fold_insert_map: "fold (\<lambda>(k, v). sm_insert k (f v)) m a = fold (\<lambda>(k, v). sm_insert k v) (map (\<lambda>(k, v). (k, f v)) m) a"
  by (induction m arbitrary: a) auto

lemma fold_insert_sorted_map: "sm_ok m \<Longrightarrow> fold (\<lambda>(k, v). sm_insert k (f v)) m [] = map (\<lambda>(k, v). (k, f v)) m"
  by (subst fold_insert_map) (simp only: fold_insert_sorted sm_ok_mapped)

lemma fold_set_device_attr:
  "fold set_device_attr (map (\<lambda>(k, v). (k, JString v)) m) lt
   = lt\<lparr>lt_device_attrs := fold (\<lambda>(k, v). sm_insert k v) m (lt_device_attrs lt)\<rparr>"
  by (induction m arbitrary: lt) auto

text \<open>What the attributes object contributes to the two attribute maps.\<close>

definition strings_of :: "(string \<times> Json) list \<Rightarrow> (string \<times> string) list" where
  "strings_of m = map (\<lambda>(k, v). (k, string_value v)) (filter (\<lambda>(k, v). is_string v) m)"

definition arrays_of :: "(string \<times> Json) list \<Rightarrow> (string \<times> string list) list" where
  "arrays_of m = map (\<lambda>(k, v). (k, map string_value (array_items v))) (filter (\<lambda>(k, v). is_array v) m)"

lemma fold_set_attr:
  "fold set_attr m lt = lt\<lparr>lt_attrs := fold (\<lambda>(k, v). sm_insert k v) (strings_of m) (lt_attrs lt),
     lt_attrs_mv := fold (\<lambda>(k, v). sm_insert k v) (arrays_of m) (lt_attrs_mv lt)\<rparr>"
proof (induction m arbitrary: lt)
  case (Cons x m)
  obtain k v where "x = (k, v)" by fastforce
  then show ?case by (cases v) (simp_all add: strings_of_def arrays_of_def Cons.IH)
qed (simp add: strings_of_def arrays_of_def)

lemma sm_ok_filter: "sm_ok m \<Longrightarrow> sm_ok (filter P m)"
  by (induction m) auto

lemma sm_ok_strings: "sm_ok m \<Longrightarrow> sm_ok (strings_of m)" "sm_ok m \<Longrightarrow> sm_ok (arrays_of m)"
  by (simp_all only: strings_of_def arrays_of_def sm_ok_mapped sm_ok_filter)

lemma sm_eqI: "sm_ok a \<Longrightarrow> sm_ok b \<Longrightarrow> map_of a = map_of b \<Longrightarrow> a = b"
proof -
  assume ok: "sm_ok a" "sm_ok b" and eq: "map_of a = map_of b"
  have d: "distinct (map fst a)" "distinct (map fst b)" using ok by (auto intro: sm_ok_distinct)
  have "set a = set b" using d eq by (metis map_of_eqI map_of_eq_Some_iff subsetI subset_antisym prod.collapse)
  moreover have "sorted (map fst a)" "sorted (map fst b)" using ok by (auto simp: sm_ok_def strict_sorted_iff)
  ultimately show "a = b" using d by (intro map_sorted_distinct_set_unique[where f = fst]) (auto simp: distinct_map)
qed

lemma map_of_filtered:
  "distinct (map fst m) \<Longrightarrow> map_of (map (\<lambda>(k, v). (k, f v)) (filter (\<lambda>(k, v). P v) m)) k =
     (case map_of m k of None \<Rightarrow> None | Some v \<Rightarrow> if P v then Some (f v) else None)"
proof (induction m)
  case (Cons x m)
  obtain a b where x: "x = (a, b)" by fastforce
  then have "map_of m a = None" using Cons.prems by (simp add: map_of_eq_None_iff)
  then show ?case using Cons x by (auto split: option.splits)
qed simp

lemma attrs_object_back:
  assumes a: "sm_ok attrs" and mv: "sm_ok mv" and dis: "fst ` set attrs \<inter> fst ` set mv = {}"
  defines "m \<equiv> fold (\<lambda>(k, v). sm_insert k (JString v)) attrs (fold (\<lambda>(k, v). sm_insert k (JArray (map JString v))) mv [])"
  shows "strings_of m = attrs" "arrays_of m = mv"
proof -
  let ?a = "map (\<lambda>(k, v). (k, JString v)) attrs" and ?mv = "map (\<lambda>(k, v). (k, JArray (map JString v))) mv"
  have m: "m = fold (\<lambda>(k, v). sm_insert k v) ?a ?mv"
    unfolding m_def fold_insert_map[of JString] fold_insert_sorted_map[OF mv] ..
  have okmv: "sm_ok ?mv" using mv by (simp only: sm_ok_mapped)
  have ok: "sm_ok m" unfolding m by (rule fold_insert_ok[OF okmv])
  have look: "map_of m k = (case map_of mv k of Some v \<Rightarrow> Some (JArray (map JString v)) | None \<Rightarrow> map_option JString (map_of attrs k))" for k
    unfolding m map_of_fold_insert[OF okmv] by (simp add: map_of_map split: option.split)
  have one: "map_of attrs k = None \<or> map_of mv k = None" for k using dis by (auto simp: map_of_eq_None_iff)
  have mm: "map (string_value \<circ> JString) v = v" for v by (simp add: comp_def)
  show "strings_of m = attrs"
  proof (rule sm_eqI[OF sm_ok_strings(1)[OF ok] a], rule ext)
    show "map_of (strings_of m) k = map_of attrs k" for k
      unfolding strings_of_def using look[of k] one[of k]
      by (cases "map_of mv k"; cases "map_of attrs k") (auto simp: map_of_filtered[OF sm_ok_distinct[OF ok]])
  qed
  show "arrays_of m = mv"
  proof (rule sm_eqI[OF sm_ok_strings(2)[OF ok] mv], rule ext)
    show "map_of (arrays_of m) k = map_of mv k" for k
      unfolding arrays_of_def using look[of k] one[of k] mm
      by (cases "map_of mv k"; cases "map_of attrs k") (auto simp: map_of_filtered[OF sm_ok_distinct[OF ok]])
  qed
qed

section \<open>Properties\<close>

definition lt_wf :: "netlib \<Rightarrow> LoginTuple \<Rightarrow> bool" where
  "lt_wf N lt \<longleftrightarrow> sm_ok (lt_attrs lt) \<and> sm_ok (lt_attrs_mv lt) \<and> sm_ok (lt_device_attrs lt)
     \<and> fst ` set (lt_attrs lt) \<inter> fst ` set (lt_attrs_mv lt) = {}
     \<and> new_ComboAddress N (ca_toString N (lt_remote lt)) 0 = Inr (lt_remote lt) \<and> \<not> isMappedIPv4 (lt_remote lt)"

lemma from_json_to_json:
  assumes "lt_wf N lt"
  shows "from_json J N uap (lt_to_json N lt) (new_LoginTuple t0, dcache) = Ret (lt, dcache) ()"
proof -
  let ?m = "fold (\<lambda>(k, v). sm_insert k (JString v)) (lt_attrs lt)
              (fold (\<lambda>(k, v). sm_insert k (JArray (map JString v))) (lt_attrs_mv lt) [])"
  note w = assms[unfolded lt_wf_def]
  have at: "fold set_attr ?m lt0 = lt0\<lparr>lt_attrs := lt_attrs lt, lt_attrs_mv := lt_attrs_mv lt\<rparr>"
      if "lt_attrs lt0 = []" "lt_attrs_mv lt0 = []" for lt0
    unfolding fold_set_attr using attrs_object_back[of "lt_attrs lt" "lt_attrs_mv lt"] w that by (simp add: fold_insert_sorted)
  have dev: "fold set_device_attr (fold (\<lambda>(k, v). sm_insert k (JString v)) (lt_device_attrs lt) []) lt0
      = lt0\<lparr>lt_device_attrs := lt_device_attrs lt\<rparr>" if "lt_device_attrs lt0 = []" for lt0
    using w that by (simp add: fold_insert_sorted_map fold_set_device_attr fold_insert_sorted)
  show ?thesis
    using w by (simp add: from_json_def lt_to_json_def js_get_object setLtAttrs_def setDeviceAttrs_def lt_remote_of_def
        new_LoginTuple_def at dev Let_def)
qed

lemma set_attr_reread: "set_attr (k, reread J v) lt = set_attr (k, v) lt"
  by (cases v) (simp_all add: number_of_text_def comp_def)

lemma set_device_attr_reread: "set_device_attr (k, reread J v) lt = set_device_attr (k, v) lt"
  by (cases v) (simp_all add: number_of_text_def)

lemma fold_reread:
  "fold set_attr (map (\<lambda>(k, v). (k, reread J v)) m) lt = fold set_attr m lt"
  "fold set_device_attr (map (\<lambda>(k, v). (k, reread J v)) m) lt = fold set_device_attr m lt"
  by (induction m arbitrary: lt) (auto simp: set_attr_reread set_device_attr_reread)

text \<open>A tuple is read from the value that was parsed as from the value that was printed; only the time is a number.\<close>

lemma from_json_reread:
  assumes "number_value J (reread J (js_get msg ''t'')) = number_value J (js_get msg ''t'')"
  shows "from_json J N uap (reread J msg) st = from_json J N uap msg st"
proof -
  have lt: "setLtAttrs (reread J msg) lt = setLtAttrs msg lt" for lt
    by (cases "js_get msg ''attrs''") (simp_all add: setLtAttrs_def fold_reread number_of_text_def Let_def)
  have dev: "setDeviceAttrs uap (reread J msg) s = setDeviceAttrs uap msg s" for s
    by (cases "js_get msg ''device_attrs''") (simp_all add: setDeviceAttrs_def fold_reread number_of_text_def Let_def split: prod.split option.split)
  show ?thesis
    using assms by (cases "js_get msg ''remote''") (simp_all add: from_json_def lt dev Let_def number_of_text_def split: prod.split)
qed

lemma json_ok_lt: "json_ok 0 (lt_to_json N lt)"
proof -
  have obj: "json_ok 1 (JObject (fold (\<lambda>(k, v). sm_insert k (f v)) m m0))"
    if "\<And>v. json_ok 2 (f v)" "json_ok 1 (JObject m0)" for f :: "'a \<Rightarrow> Json" and m m0
    using that(2)
  proof (induction m arbitrary: m0)
    case (Cons kv m)
    have "json_ok 1 (JObject (sm_insert (fst kv) (f (snd kv)) m0))"
      using Cons.prems that(1) set_fold_insert[of "[(fst kv, f (snd kv))]" m0] by (auto simp: numeral_2_eq_2)
    from Cons.IH[OF this] show ?case by (simp only: fold_simps case_prod_beta)
  qed simp
  have two: "2 \<le> max_depth" "3 \<le> max_depth" by (simp_all add: max_depth_def)
  have mv: "json_ok 1 (JObject (fold (\<lambda>(k, v). sm_insert k (JArray (map JString v))) (lt_attrs_mv lt) []))"
    by (rule obj) (use two in simp_all)
  have at: "json_ok 1 (JObject (fold (\<lambda>(k, v). sm_insert k (JString v)) (lt_attrs lt)
      (fold (\<lambda>(k, v). sm_insert k (JArray (map JString v))) (lt_attrs_mv lt) [])))"
    by (rule obj[OF _ mv]) (use two in simp)
  have dev: "json_ok 1 (JObject (fold (\<lambda>(k, v). sm_insert k (JString v)) (lt_device_attrs lt) []))"
    by (rule obj) (use two in simp_all)
  show ?thesis
    unfolding lt_to_json_def Let_def
    by (rule json_ok_object) (use at dev two in \<open>simp_all del: json_ok.simps(2)\<close>)
qed

text \<open>
  C30. A login tuple survives its text: \<^verbatim>\<open>unserialize\<close> of what \<^verbatim>\<open>serialize\<close> wrote gives back every field, whatever the device
  cache holds, provided no attribute is both single-valued and multi-valued, the address is one that the resolver prints
  and reads back without a port, it is not an IPv4 address mapped into IPv6, and the time is a finite number other than
  the negative zero.
\<close>

theorem login_tuple_roundtrip:
  assumes "float_ok J" "lt_wf N lt" "nums_ok J (JDouble (lt_t lt))"
  shows "lt_unserialize J N (lt_serialize J N lt) (new_LoginTuple t0, dcache) = Ret (lt, dcache) ()"
proof -
  have t: "js_get (lt_to_json N lt) ''t'' = JDouble (lt_t lt)" by (simp add: lt_to_json_def js_get_object Let_def)
  have "js_parse J (lt_serialize J N lt) = (reread J (lt_to_json N lt), [])"
    unfolding lt_serialize_def using assms(1) by (intro js_parse_dump json_ok_lt) (simp add: float_ok_def)
  then show ?thesis
    unfolding lt_unserialize_def
    using from_json_reread[of J "lt_to_json N lt"] number_value_reread[OF assms(1,3)] from_json_to_json[OF assms(2)]
    by (simp only: fst_conv t number_value.simps)
qed

definition demo_login :: LoginTuple where
  "demo_login = (new_LoginTuple 7)\<lparr>lt_remote := CA_V4 0x0A000000 0, lt_login := ''joe'', lt_attrs := [(''a'', ''1'')],
     lt_attrs_mv := [(''b'', [''2'', ''3''])], lt_device_attrs := [(''os.family'', ''BeOS'')], lt_success := True\<rparr>"

lemma demo_login_wf: "lt_wf demo_net demo_login"
  by (simp add: lt_wf_def demo_login_def new_LoginTuple_def demo_net_def ca_toString_def new_ComboAddress_def makeIPv4sockaddr_def
      find_char_def c_str_def)

theorem login_tuple_roundtrip_witness:
  "lt_unserialize demo_float demo_net (lt_serialize demo_float demo_net demo_login) (new_LoginTuple 0, []) = Ret (demo_login, []) ()"
  by (rule login_tuple_roundtrip[OF demo_float_ok demo_login_wf])
    (simp add: demo_float_def demo_login_def new_LoginTuple_def nat_to_string.simps)

text \<open>
  The device cache forgets the protocol. A tuple without device attributes whose device identifier has not been seen
  is parsed by the rules of its protocol and the result is cached under the identifier alone; a later tuple with the
  same identifier and any other protocol gets these attributes, and not those its own protocol would give.
\<close>

lemma device_cache_ignores_protocol:
  assumes new: "map_of dcache d = None" and m1: "is_null (js_get msg1 ''device_attrs'')" "js_get msg1 ''device_id'' = JString d"
      "js_get msg1 ''protocol'' = JString p1"
    and m2: "is_null (js_get msg2 ''device_attrs'')" "js_get msg2 ''device_id'' = JString d" "js_get msg2 ''protocol'' = JString p2"
    and r1: "from_json J N (Some U) msg1 (new_LoginTuple t0, dcache) = Ret (lt1, dcache1) ()"
    and r2: "from_json J N (Some U) msg2 (new_LoginTuple t1, dcache1) = Ret (lt2, dcache2) ()"
  shows "lt_device_attrs lt2 = fold (\<lambda>(k, v). sm_insert k v) (parsed_attrs U p1 d) [] \<and> lt_device_attrs lt2 = lt_device_attrs lt1"
proof -
  have n: "is_null j \<longleftrightarrow> j = JNull" for j by (cases j) auto
  have lt: "lt_device_attrs (setLtAttrs msg lt) = lt_device_attrs lt" for msg lt
    by (simp add: setLtAttrs_def fold_set_attr split: Json.Json.split)
  have "lt_device_attrs lt1 = fold (\<lambda>(k, v). sm_insert k v) (parsed_attrs U p1 d) [] \<and> map_of dcache1 d = Some (lt_device_attrs lt1)"
    using r1 m1 new
    by (auto simp: n from_json_def setDeviceAttrs_def readFromCache_def addToCache_def lt new_LoginTuple_def Let_def
        split: Json.Json.splits sum.splits)
  moreover have "lt_device_attrs lt2 = the (map_of dcache1 d)"
    using r2 m2 calculation
    by (auto simp: n from_json_def setDeviceAttrs_def readFromCache_def new_LoginTuple_def Let_def split: Json.Json.splits sum.splits)
  ultimately show ?thesis by simp
qed

text \<open>
  The order of tuples is no strict order: a tuple that is earlier but comes from a greater address is below and above the
  later one.
\<close>

lemma tuple_order_not_asymmetric:
  "dless (lt_t l) (lt_t r) \<Longrightarrow> ca_less (set_port 0 (lt_remote r)) (set_port 0 (lt_remote l)) \<Longrightarrow> lt_less dless l r \<and> lt_less dless r l"
  by (simp add: lt_less_def lt_tie_less_def)

end
