(* ===== verification/Web_State.thy ===== *)
theory Web_State
  imports Replication Webhook Login_Tuple
begin

text \<open>
  What the handlers of the HTTP commands (\<^verbatim>\<open>wforce/wforce-web.cc\<close>) share: the globals of the daemon as one
  record, the response object, the environment of a call, the canonicalisation of logins, the report
  sinks (\<^verbatim>\<open>wforce/wforce.cc\<close>) and the log. A handler maps the state and the response to their new values.
  The functions the administrator writes in Lua are fields of the environment; those that can change the
  daemon (allow, report, reset) take and return its state. A command counted by \<^verbatim>\<open>incCommandStat\<close> is
  appended to \<open>g_command_stats\<close>.
\<close>

section \<open>State\<close>

record ret_msgs =
  ip_ret_msg :: string
  login_ret_msg :: string
  iplogin_ret_msg :: string
  ja3_ret_msg :: string
  ipja3_ret_msg :: string

definition bl_ret_msgs :: ret_msgs where
  "bl_ret_msgs =
     \<lparr>ip_ret_msg = ''Temporarily blacklisted IP Address - try again later'',
      login_ret_msg = ''Temporarily blacklisted Login Name - try again later'',
      iplogin_ret_msg = ''Temporarily blacklisted IP/Login Tuple - try again later'',
      ja3_ret_msg = ''Temporarily blacklisted JA3 Hash - try again later'',
      ipja3_ret_msg = ''Temporarily blacklisted IP/JA3 Hash Tuple - try again later''\<rparr>"

definition wl_ret_msgs :: ret_msgs where
  "wl_ret_msgs =
     \<lparr>ip_ret_msg = ''Whitelisted IP Address'', login_ret_msg = ''Whitelisted Login Name'',
      iplogin_ret_msg = ''Whitelisted IP/Login Tuple'', ja3_ret_msg = ''Whitelisted JA3 Hash'',
      ipja3_ret_msg = ''Whitelisted IP/JA3 Hash''\<rparr>"

datatype log_level = Debug | Info | Notice | Warning | Error

text \<open>A thread that a handler has started and detached, with its arguments.\<close>

datatype thread_job = SyncDB ComboAddress string string string | DumpEntries ComboAddress

record wforce =
  g_bl_db :: BlackWhiteListDB
  g_wl_db :: BlackWhiteListDB
  g_bl_msgs :: ret_msgs
  g_wl_msgs :: ret_msgs
  g_builtin_bl_enabled :: bool
  g_builtin_wl_enabled :: bool
  g_dbMap :: "(string \<times> TWStringStatsDBWrapper) list"
  g_replication :: WforceReplication
  g_webhook_db :: WebHookDB
  g_webhook_runner :: WebHookRunner
  g_report_sinks :: "Sibling list"
  g_report_sink_rr :: "32 word"
  g_named_report_sinks :: "(string \<times> 32 word \<times> Sibling list) list"
  g_dcache :: DeviceCache
  g_reports :: "64 word"
  g_allows :: "64 word"
  g_denieds :: "64 word"
  g_command_stats :: "string list"
  g_ja3_attrname :: string
  g_verbose :: bool
  g_allowlog_verbose :: bool
  g_log :: "(log_level \<times> string) list"
  g_ping_up :: bool
  g_jobs :: "thread_job list"
  dump_mutex :: bool

record HttpResponse =
  resp_code :: nat
  resp_body :: string

text \<open>
  Exceptions that reach a handler from Lua: an error of the interpreter with its text and the text of the
  exception nested in it, if there is one; another standard exception; an exception of the program.
\<close>

datatype lua_exn = Lua_Error string "string option" | Std_Exception string | Program_Exception string

type_synonym AllowReturn = "int \<times> string \<times> string \<times> (string \<times> string) list"

record web_env =
  we_json :: json_lib
  we_net :: netlib
  we_redis :: redis_env
  we_sib :: sib_env
  we_sk :: sk_env
  we_uap :: "ua_parsers option"
  we_time :: double
  we_list_times :: "int \<times> int"
  we_clock :: "nat \<Rightarrow> int \<times> int"
  we_simple_time :: "int \<Rightarrow> string"
  we_iso_time :: "double \<Rightarrow> string"
  we_canonicalize :: "string \<Rightarrow> lua_exn + string"
  we_allow :: "LoginTuple \<Rightarrow> wforce \<Rightarrow> wforce \<times> (lua_exn + AllowReturn)"
  we_report :: "LoginTuple \<Rightarrow> wforce \<Rightarrow> wforce \<times> (lua_exn + unit)"
  we_reset :: "string \<Rightarrow> string \<Rightarrow> ComboAddress \<Rightarrow> wforce \<Rightarrow> wforce \<times> (lua_exn + bool)"

section \<open>Helpers\<close>

definition setErrorCodeAndReason :: "web_env \<Rightarrow> nat \<Rightarrow> string \<Rightarrow> HttpResponse \<Rightarrow> HttpResponse" where
  "setErrorCodeAndReason V code reason resp =
     \<lparr>resp_code = code,
      resp_body = js_dump (we_json V) (js_object [(''status'', JString ''failure''), (''reason'', JString reason)])\<rparr>"

definition status_ok :: string where
  "status_ok = ''{'' @ quoted ''status'' @ '':'' @ quoted ''ok'' @ ''}''"

definition status_failure :: string where
  "status_failure = ''{'' @ quoted ''status'' @ '':'' @ quoted ''failure'' @ ''}''"

definition incCommandStat :: "string \<Rightarrow> wforce \<Rightarrow> wforce" where
  "incCommandStat cmd s = s\<lparr>g_command_stats := g_command_stats s @ [cmd]\<rparr>"

definition log_line :: "log_level \<Rightarrow> string \<Rightarrow> wforce \<Rightarrow> wforce" where
  "log_line l t s = s\<lparr>g_log := g_log s @ [(l, t)]\<rparr>"

definition canonicalizeLogin :: "web_env \<Rightarrow> string \<Rightarrow> wforce \<times> HttpResponse \<Rightarrow> (wforce \<times> HttpResponse) \<times> string option" where
  "canonicalizeLogin V login sr =
     (case sr of (s, resp) \<Rightarrow>
        (case we_canonicalize V login of
           Inr login' \<Rightarrow> ((s, resp), Some login')
         | Inl (Lua_Error w _) \<Rightarrow>
             ((log_line Error (''Lua canonicalize function exception: '' @ w) s, setErrorCodeAndReason V 500 w resp), None)
         | Inl _ \<Rightarrow> ((s, setErrorCodeAndReason V 500 ''unknown'' resp), None)))"

text \<open>
  The text with which the report, allow and custom handlers answer an exception of Lua: that of the nested
  exception when there is one.
\<close>

fun lua_reason :: "lua_exn \<Rightarrow> string" where
  "lua_reason (Lua_Error w None) = w"
| "lua_reason (Lua_Error w (Some n)) = n"
| "lua_reason (Std_Exception w) = w"
| "lua_reason (Program_Exception r) = r"

fun lua_error_log :: "string \<Rightarrow> lua_exn \<Rightarrow> string" where
  "lua_error_log command (Lua_Error w None) = ''Lua function ['' @ command @ ''] exception: '' @ w"
| "lua_error_log command e = ''Exception in command ['' @ command @ ''] exception: '' @ lua_reason e"

definition bool_digit :: "bool \<Rightarrow> string" where
  "bool_digit b = (if b then ''1'' else ''0'')"

definition log_field :: "string \<Rightarrow> string \<Rightarrow> string" where
  "log_field k v = k @ ''='' @ quoted v @ '' ''"

definition reportLog :: "web_env \<Rightarrow> LoginTuple \<Rightarrow> wforce \<Rightarrow> wforce" where
  "reportLog V lt s =
     (if g_verbose s then
        log_line Info (''reportLog: '' @ log_field ''remote'' (ca_toString (we_net V) (lt_remote lt)) @ log_field ''login'' (lt_login lt)
          @ log_field ''success'' (bool_digit (lt_success lt)) @ log_field ''policy_reject'' (bool_digit (lt_policy_reject lt))
          @ log_field ''pwhash'' (lt_pwhash lt) @ log_field ''protocol'' (lt_protocol lt) @ log_field ''device_id'' (lt_device_id lt)
          @ log_field ''session_id'' (lt_session_id lt) @ DeviceAttrsToString lt @ LtAttrsToString lt) s
      else s)"

definition allow_log_text :: "web_env \<Rightarrow> int \<Rightarrow> string \<Rightarrow> LoginTuple \<Rightarrow> (string \<times> string) list \<Rightarrow> string" where
  "allow_log_text V retval msg lt kvs =
     ''allowLog '' @ msg @ '': '' @ log_field ''allow'' (int_to_string retval)
     @ log_field ''remote'' (ca_toString (we_net V) (lt_remote lt)) @ log_field ''login'' (lt_login lt)
     @ log_field ''protocol'' (lt_protocol lt) @ log_field ''device_id'' (lt_device_id lt) @ log_field ''session_id'' (lt_session_id lt)
     @ DeviceAttrsToString lt @ LtAttrsToString lt @ ''rattrs={'' @ concat (map (\<lambda>(k, v). log_field k v) kvs) @ ''}''"

definition allowLog :: "web_env \<Rightarrow> int \<Rightarrow> string \<Rightarrow> LoginTuple \<Rightarrow> (string \<times> string) list \<Rightarrow> wforce \<Rightarrow> wforce" where
  "allowLog V retval msg lt kvs s =
     (if retval = 0 \<and> \<not> g_allowlog_verbose s then s
      else if retval = 0 then log_line Info (allow_log_text V retval msg lt kvs) s
      else log_line Notice (allow_log_text V retval msg lt kvs) s)"

text \<open>The loop that hands an event to every hook registered for it.\<close>

definition run_hooks :: "web_env \<Rightarrow> string \<Rightarrow> Json \<Rightarrow> wforce \<Rightarrow> wforce" where
  "run_hooks V event_name jobj s =
     s\<lparr>g_webhook_runner :=
         foldl (\<lambda>r h. runHook (we_json V) event_name h jobj r) (g_webhook_runner s) (getWebHooksForEvent event_name (g_webhook_db s))\<rparr>"

section \<open>Report sinks\<close>

definition sendReportSink :: "web_env \<Rightarrow> LoginTuple \<Rightarrow> wforce \<Rightarrow> wforce" where
  "sendReportSink V lt s =
     (let msg = lt_serialize (we_json V) (we_net V) lt; vsize = length (g_report_sinks s)
      in if vsize = 0 then s
         else (let i = unat (g_report_sink_rr s) mod vsize
               in s\<lparr>g_report_sink_rr := g_report_sink_rr s + 1, g_report_sinks := (g_report_sinks s)[i := queueMsg msg (g_report_sinks s ! i)]\<rparr>))"

definition named_sink_step :: "string \<Rightarrow> 32 word \<times> Sibling list \<Rightarrow> 32 word \<times> Sibling list" where
  "named_sink_step msg sink =
     (case sink of (rr, vec) \<Rightarrow>
        (if vec = [] then (rr, vec)
         else (let j = unat rr mod length vec in (rr + 1, vec[j := queueMsg msg (vec ! j)]))))"

definition sendNamedReportSink :: "string \<Rightarrow> wforce \<Rightarrow> wforce" where
  "sendNamedReportSink msg s =
     s\<lparr>g_named_report_sinks := map (\<lambda>(nm, sink). (nm, named_sink_step msg sink)) (g_named_report_sinks s)\<rparr>"

section \<open>Round robin over the sinks\<close>

lemma named_sink_step_frame:
  assumes "vec \<noteq> []" "j < length vec"
  shows "max_queue_size (snd (named_sink_step msg (rr, vec)) ! j) = max_queue_size (vec ! j)"
    "length (snd (named_sink_step msg (rr, vec))) = length vec" "fst (named_sink_step msg (rr, vec)) = rr + 1"
  using assms by (auto simp: named_sink_step_def Let_def queueMsg_def nth_list_update)

lemma named_sink_step_queue:
  assumes "vec \<noteq> []" "j < length vec" "length (queue (vec ! j)) < max_queue_size (vec ! j)"
  shows "queue (snd (named_sink_step msg (rr, vec)) ! j) = queue (vec ! j) @ (if unat rr mod length vec = j then [msg] else [])"
  using assms by (auto simp: named_sink_step_def Let_def queueMsg_def)

text \<open>
  Reports are spread over the sinks of a name in turn: while the 32-bit counter does not wrap and the queues have
  room, a sequence of messages leaves in the queue of sink \<open>j\<close> exactly the messages whose running number is \<open>j\<close>
  modulo the number of sinks, in the order in which they were sent.
\<close>

lemma report_sinks_take_turns:
  assumes "vec \<noteq> []" and "unat rr + length msgs < 2 ^ 32" and "j < length vec"
    and "\<forall>i < length vec. length (queue (vec ! i)) + length msgs \<le> max_queue_size (vec ! i)"
  shows "queue (snd (fold named_sink_step msgs (rr, vec)) ! j)
    = queue (vec ! j) @ map snd (filter (\<lambda>(k, m). k mod length vec = j) (enumerate (unat rr) msgs))"
  using assms
proof (induction msgs arbitrary: rr vec)
  case (Cons m msgs)
  let ?vec = "snd (named_sink_step m (rr, vec))"
  have fr: "fst (named_sink_step m (rr, vec)) = rr + 1" "length ?vec = length vec"
    using named_sink_step_frame Cons.prems(1,3) by auto
  then have step: "named_sink_step m (rr, vec) = (rr + 1, ?vec)" by (metis prod.collapse)
  have rr: "unat (rr + 1) = Suc (unat rr)" using Cons.prems(2) by (simp add: unat_add_lem[THEN iffD1])
  have room: "\<forall>i < length ?vec. length (queue (?vec ! i)) + length msgs \<le> max_queue_size (?vec ! i)"
    using Cons.prems(1,4) named_sink_step_queue[of vec] named_sink_step_frame[of vec] fr(2) by (auto simp: Suc_le_eq)
  have ne: "?vec \<noteq> []" "j < length ?vec" using fr(2) Cons.prems(1,3) by auto
  have "queue (?vec ! j) = queue (vec ! j) @ (if unat rr mod length vec = j then [m] else [])"
    using Cons.prems by (intro named_sink_step_queue) force+
  moreover have "queue (snd (fold named_sink_step msgs (rr + 1, ?vec)) ! j)
      = queue (?vec ! j) @ map snd (filter (\<lambda>(k, m). k mod length ?vec = j) (enumerate (Suc (unat rr)) msgs))"
    using Cons.IH[OF ne(1) _ ne(2) room, of "rr + 1"] Cons.prems(2) rr by simp
  ultimately show ?case using fr(2) step by simp
qed simp

section \<open>A small instance\<close>

text \<open>The state and the environment on which the witnesses of the commands run.\<close>

definition demo_state0 :: wforce where
  "demo_state0 =
     \<lparr>g_bl_db = (new_BlackWhiteListDB BLACKLIST)\<lparr>login_list := [\<lparr>ble_key = ''joe'', ble_reason = ''abuse'', ble_expiration = 9\<rparr>]\<rparr>,
      g_wl_db = new_BlackWhiteListDB WHITELIST, g_bl_msgs = bl_ret_msgs, g_wl_msgs = wl_ret_msgs, g_builtin_bl_enabled = True,
      g_builtin_wl_enabled = True, g_dbMap = [], g_replication = demo_repl, g_webhook_db = new_WebHookDB,
      g_webhook_runner = new_WebHookRunner, g_report_sinks = [], g_report_sink_rr = 0, g_named_report_sinks = [], g_dcache = [],
      g_reports = 0, g_allows = 0, g_denieds = 0, g_command_stats = [], g_ja3_attrname = ''ja3'', g_verbose = False,
      g_allowlog_verbose = False, g_log = [], g_ping_up = True,
      g_jobs = [], dump_mutex = False\<rparr>"

definition demo_web :: web_env where
  "demo_web =
     \<lparr>we_json = demo_float, we_net = demo_net, we_redis = demo_redis, we_sib = demo_sib, we_sk = demo_env, we_uap = None, we_time = 5,
      we_list_times = (1000, 1000), we_clock = (\<lambda>_. (1000, 1000)), we_simple_time = int_to_string, we_iso_time = (\<lambda>_. []),
      we_canonicalize = Inr, we_allow = (\<lambda>lt s. (s, Inr (0, ''ok'', [], []))), we_report = (\<lambda>lt s. (s, Inr ())),
      we_reset = (\<lambda>ty l ca s. (s, Inr True))\<rparr>"

text \<open>The text of a request that is an object of scalar values.\<close>

lemma scalar_request:
  assumes "g17_ok J" "list_all (\<lambda>(k, v). json_ok 1 v) kvs"
  shows "js_parse_c J (js_dump J (js_object kvs)) = (reread J (js_object kvs), [])"
  using assms by (intro js_parse_c_dump json_ok_object) (auto simp: list_all_iff max_depth_def)

lemma is_null_object [simp]: "\<not> is_null (reread J (js_object kvs))"
  by (simp add: js_object_def)

end
