(* ===== verification/Web_Allow.thy ===== *)
theory Web_Allow
  imports Web_State
begin

text \<open>
  The commands \<^verbatim>\<open>allow\<close> and \<^verbatim>\<open>report\<close> (\<^verbatim>\<open>wforce/wforce-web.cc\<close>): the decision about a login from the built-in
  lists and the Lua function, its log lines, counters and web hooks, and the recording of a login.
\<close>

section \<open>Web hooks of the allow command\<close>

definition genProtectHookData :: "web_env \<Rightarrow> Json \<Rightarrow> string \<Rightarrow> Json" where
  "genProtectHookData V lt msg =
     js_object
       [(''timestamp'', JString (we_iso_time V (number_value (we_json V) (js_get lt ''t'')) @ ''Z'')),
        (''user'', JString (string_value (js_get lt ''login''))), (''device'', JString (string_value (js_get lt ''device_id''))),
        (''ip'', JString (string_value (js_get lt ''remote''))), (''message'', JString msg), (''code'', JInt 0),
        (''application'', JString ''wforce'')]"

definition allow_filter :: "WebHook \<Rightarrow> int \<Rightarrow> bool" where
  "allow_filter hook status =
     (if hasConfigKey ''allow_filter'' hook
      then (let filter = getConfigKey ''allow_filter'' hook
            in contains_str ''reject'' filter \<and> status < 0 \<or> contains_str ''allow'' filter \<and> status = 0
               \<or> contains_str ''tarpit'' filter \<and> 0 < status)
      else True)"

definition runAllowWebHook :: "web_env \<Rightarrow> Json \<Rightarrow> Json \<Rightarrow> int \<Rightarrow> wforce \<Rightarrow> wforce" where
  "runAllowWebHook V request response status s =
     (let jobj = js_object [(''request'', request), (''response'', response), (''type'', JString ''wforce_allow'')];
          one = (\<lambda>r hs.
            if \<not> allow_filter hs status then r
            else if hasConfigKey ''ox-protect'' hs
                 then runHook (we_json V) ''allow'' hs (genProtectHookData V (js_get jobj ''request'') (getConfigKey ''ox-protect'' hs)) r
                 else runHook (we_json V) ''allow'' hs jobj r)
      in s\<lparr>g_webhook_runner := foldl one (g_webhook_runner s) (getWebHooksForEvent ''allow'' (g_webhook_db s))\<rparr>)"

section \<open>The allow command\<close>

definition substituteStrings :: "netlib \<Rightarrow> string \<Rightarrow> ComboAddress \<Rightarrow> string \<Rightarrow> string \<Rightarrow> string" where
  "substituteStrings N msg ca login ja3 =
     (let replace_ip = contains_str ''{ip}'' msg; replace_login = contains_str ''{login}'' msg; replace_ja3 = contains_str ''{ja3}'' msg;
          m1 = (if replace_ip then replace_all ''{ip}'' (ca_toString N ca) msg else msg);
          m2 = (if replace_login then replace_all ''{login}'' login m1 else m1)
      in if replace_ja3 then replace_all ''{ja3}'' ja3 m2 else m2)"

text \<open>
  A hit in one of the five tables of a list: the name used in the log, the value of the attribute \<open>key\<close>, the message and the
  entry. The tables are tried in the order of the code; those with a JA3 hash only when there is one.
\<close>

definition list_hit ::
    "netlib \<Rightarrow> BlackWhiteListDB \<Rightarrow> ret_msgs \<Rightarrow> LoginTuple \<Rightarrow> string \<Rightarrow> (string \<times> string \<times> string \<times> BlackWhiteListEntry) option" where
  "list_hit N db msgs lt ja3 =
     (case getEntry_ip N (lt_remote lt) db of
        Some e \<Rightarrow> Some (''IP'', ''ip'', ip_ret_msg msgs, e)
      | None \<Rightarrow>
     (case getEntry_login (lt_login lt) db of
        Some e \<Rightarrow> Some (''Login'', ''login'', login_ret_msg msgs, e)
      | None \<Rightarrow>
     (case (if ja3 \<noteq> [] then getJA3Entry ja3 db else None) of
        Some e \<Rightarrow> Some (''JA3'', ''ja3'', ja3_ret_msg msgs, e)
      | None \<Rightarrow>
     (case getEntry_ip_login N (lt_remote lt) (lt_login lt) db of
        Some e \<Rightarrow> Some (''IPLogin'', ''iplogin'', iplogin_ret_msg msgs, e)
      | None \<Rightarrow>
     (case (if ja3 \<noteq> [] then getIPJA3Entry N (lt_remote lt) ja3 db else None) of
        Some e \<Rightarrow> Some (''IPJA3'', ''ipja3'', ipja3_ret_msg msgs, e)
      | None \<Rightarrow> None)))))"

definition hit_attrs :: "web_env \<Rightarrow> string \<Rightarrow> string \<Rightarrow> BlackWhiteListEntry \<Rightarrow> (string \<times> string) list" where
  "hit_attrs V listed key e =
     [(''expiration'', we_simple_time V (ble_expiration e)), (''reason'', ble_reason e), (listed, ''1''), (''key'', key)]"

text \<open>What has been decided so far: the status, the message and the attributes.\<close>

record decision =
  dec_status :: int
  dec_msg :: string
  dec_attrs :: "(string \<times> string) list"

definition check_whitelist :: "web_env \<Rightarrow> LoginTuple \<Rightarrow> string \<Rightarrow> wforce \<times> decision \<Rightarrow> (wforce \<times> decision) \<times> bool" where
  "check_whitelist V lt ja3 sd =
     (case sd of (s, d) \<Rightarrow>
        (if \<not> g_builtin_wl_enabled s then ((s, d), False)
         else case list_hit (we_net V) (g_wl_db s) (g_wl_msgs s) lt ja3 of
                None \<Rightarrow> ((s, d), False)
              | Some (nm, key, msg, e) \<Rightarrow>
                  (let attrs = hit_attrs V ''whitelisted'' key e
                   in ((allowLog V 0 (''whitelisted '' @ nm) lt attrs s,
                        \<lparr>dec_status = 0, dec_msg = substituteStrings (we_net V) msg (lt_remote lt) (lt_login lt) ja3, dec_attrs = attrs\<rparr>), True))))"

definition check_blacklist :: "web_env \<Rightarrow> LoginTuple \<Rightarrow> string \<Rightarrow> wforce \<times> decision \<Rightarrow> (wforce \<times> decision) \<times> bool" where
  "check_blacklist V lt ja3 sd =
     (case sd of (s, d) \<Rightarrow>
        (if \<not> g_builtin_bl_enabled s then ((s, d), False)
         else case list_hit (we_net V) (g_bl_db s) (g_bl_msgs s) lt ja3 of
                None \<Rightarrow> ((s, d), False)
              | Some (nm, key, msg, e) \<Rightarrow>
                  (let attrs = hit_attrs V ''blacklisted'' key e
                   in ((allowLog V (dec_status d) (''blacklisted '' @ nm) lt attrs s,
                        d\<lparr>dec_msg := substituteStrings (we_net V) msg (lt_remote lt) (lt_login lt) ja3, dec_attrs := attrs\<rparr>), True))))"

definition decision_json :: "decision \<Rightarrow> Json" where
  "decision_json d =
     js_object [(''status'', JInt (dec_status d)), (''msg'', JString (dec_msg d)),
       (''r_attrs'', js_object (map (\<lambda>(k, v). (k, JString v)) (dec_attrs d)))]"

definition count_listed :: "bool \<Rightarrow> bool \<Rightarrow> wforce \<Rightarrow> wforce" where
  "count_listed whitelisted blacklisted s =
     (let s1 = (if blacklisted
                then incCommandStat ''allow_denied'' (incCommandStat ''allow_blacklisted'' (s\<lparr>g_denieds := g_denieds s + 1\<rparr>)) else s)
      in if whitelisted then incCommandStat ''allow_whitelisted'' s1 else s1)"

definition count_status :: "int \<Rightarrow> wforce \<Rightarrow> wforce" where
  "count_status status s =
     (if status < 0 then incCommandStat ''allow_denied'' (s\<lparr>g_denieds := g_denieds s + 1\<rparr>)
      else if 0 < status then incCommandStat ''allow_tarpitted'' s
      else incCommandStat ''allow_allowed'' s)"

text \<open>The call of the Lua function when neither list has decided.\<close>

definition lua_allow ::
    "web_env \<Rightarrow> string \<Rightarrow> LoginTuple \<Rightarrow> wforce \<times> HttpResponse \<times> decision \<Rightarrow> wforce \<times> HttpResponse \<times> decision" where
  "lua_allow V command lt srd =
     (case srd of (s, resp, d) \<Rightarrow>
        (case we_allow V lt s of
           (s1, Inl e) \<Rightarrow> (log_line Error (lua_error_log command e) s1, setErrorCodeAndReason V 500 (lua_reason e) resp, d)
         | (s1, Inr (status, ret_msg, log_msg, log_attrs)) \<Rightarrow>
             (let d1 = \<lparr>dec_status = status, dec_msg = ret_msg, dec_attrs = log_attrs\<rparr>;
                  s2 = count_status status (allowLog V status log_msg lt log_attrs s1);
                  s3 = runAllowWebHook V (lt_to_json (we_net V) lt) (decision_json d1) status s2
              in (s3, \<lparr>resp_code = 200, resp_body = js_dump (we_json V) (decision_json d1)\<rparr>, d1))))"

definition ja3_of :: "wforce \<Rightarrow> LoginTuple \<Rightarrow> string" where
  "ja3_of s lt = (case map_of (lt_attrs lt) (g_ja3_attrname s) of Some j \<Rightarrow> j | None \<Rightarrow> [])"

text \<open>The decision about a tuple whose login has been canonicalised.\<close>

definition allow_decide ::
    "web_env \<Rightarrow> string \<Rightarrow> LoginTuple \<Rightarrow> wforce \<times> HttpResponse \<Rightarrow> wforce \<times> HttpResponse" where
  "allow_decide V command lt sr =
     (case sr of (s, resp) \<Rightarrow>
        (let ja3 = ja3_of s lt
         in case check_whitelist V lt ja3 (s, \<lparr>dec_status = - 1, dec_msg = [], dec_attrs = []\<rparr>) of
              (sd1, whitelisted) \<Rightarrow>
                (case check_blacklist V lt ja3 sd1 of
                   ((s2, d2), blacklisted) \<Rightarrow>
                     (let (s3, resp3, d3) =
                        (if blacklisted \<or> whitelisted
                         then (count_listed whitelisted blacklisted
                                 (runAllowWebHook V (lt_to_json (we_net V) lt) (decision_json d2) (dec_status d2) s2), resp, d2)
                         else lua_allow V command lt (s2, resp, d2))
                      in if resp_code resp3 = 200 then (s3, resp3\<lparr>resp_body := js_dump (we_json V) (decision_json d3)\<rparr>)
                         else (s3, resp3)))))"

definition parseAllowCmd :: "web_env \<Rightarrow> string \<Rightarrow> string \<Rightarrow> wforce \<times> HttpResponse \<Rightarrow> wforce \<times> HttpResponse" where
  "parseAllowCmd V command body sr =
     (case sr of (s, resp) \<Rightarrow>
        (let s1 = (incCommandStat ''allow'' s)\<lparr>g_allows := g_allows s + 1\<rparr>;
             resp1 = resp\<lparr>resp_code := 200\<rparr>
         in case js_parse_c (we_json V) body of
              (msg, err) \<Rightarrow>
                (if is_null msg then (s1, setErrorCodeAndReason V 400 err resp1)
                 else case from_json (we_json V) (we_net V) (we_uap V) msg (new_LoginTuple 0, g_dcache s1) of
                        Ret (lt, dc) _ \<Rightarrow>
                          (let s2 = s1\<lparr>g_dcache := dc\<rparr>; lt1 = lt\<lparr>lt_t := we_time V\<rparr>
                           in case canonicalizeLogin V (lt_login lt1) (s2, resp1) of
                                (sr2, None) \<Rightarrow> sr2
                              | (sr2, Some login) \<Rightarrow> allow_decide V command (lt1\<lparr>lt_login := login\<rparr>) sr2)
                      | Exn e (lt, dc) \<Rightarrow>
                          (log_line Error (''Exception in command ['' @ command @ ''] exception: '' @ exn_reason e) (s1\<lparr>g_dcache := dc\<rparr>),
                           setErrorCodeAndReason V 500 (exn_reason e) resp1)
                      | Undef \<Rightarrow> (s1, resp1))))"

section \<open>The report command\<close>

definition parseReportCmd :: "web_env \<Rightarrow> string \<Rightarrow> string \<Rightarrow> wforce \<times> HttpResponse \<Rightarrow> wforce \<times> HttpResponse" where
  "parseReportCmd V command body sr =
     (case sr of (s, resp) \<Rightarrow>
        (let finish = (\<lambda>(s, resp). (incCommandStat ''report'' s, resp))
         in case js_parse_c (we_json V) body of
              (msg, err) \<Rightarrow>
                (if is_null msg then finish (s, setErrorCodeAndReason V 400 err resp)
                 else case from_json (we_json V) (we_net V) (we_uap V) msg (new_LoginTuple 0, g_dcache s) of
                        Ret (lt, dc) _ \<Rightarrow>
                          (case canonicalizeLogin V (lt_login lt) (s\<lparr>g_dcache := dc\<rparr>, resp) of
                             (sr2, None) \<Rightarrow> sr2
                           | ((s2, resp2), Some login) \<Rightarrow>
                               (let lt1 = lt\<lparr>lt_login := login, lt_t := we_time V\<rparr>;
                                    s3 = (reportLog V lt1 s2)\<lparr>g_reports := g_reports s2 + 1\<rparr>
                                in case we_report V lt1 s3 of
                                     (s4, Inl e) \<Rightarrow>
                                       finish (log_line Error (lua_error_log command e) s4, setErrorCodeAndReason V 500 (lua_reason e) resp2)
                                   | (s4, Inr _) \<Rightarrow>
                                       (let s5 = sendNamedReportSink (lt_serialize (we_json V) (we_net V) lt1) (sendReportSink V lt1 s4);
                                            jobj = JObject (sm_insert ''type'' (JString ''wforce_report'') (object_items (lt_to_json (we_net V) lt1)))
                                        in finish (run_hooks V ''report'' jobj s5, \<lparr>resp_code = 200, resp_body = status_ok\<rparr>))))
                      | Exn e (lt, dc) \<Rightarrow>
                          finish (log_line Error (''Exception in command ['' @ command @ ''] exception: '' @ exn_reason e) (s\<lparr>g_dcache := dc\<rparr>),
                                  setErrorCodeAndReason V 500 (exn_reason e) resp)
                      | Undef \<Rightarrow> (s, resp))))"

section \<open>Properties\<close>

lemma log_line_frame [simp]:
  "g_bl_db (log_line l t s) = g_bl_db s" "g_wl_db (log_line l t s) = g_wl_db s" "g_bl_msgs (log_line l t s) = g_bl_msgs s"
  "g_builtin_bl_enabled (log_line l t s) = g_builtin_bl_enabled s" "g_denieds (log_line l t s) = g_denieds s"
  by (simp_all add: log_line_def)

lemma allowLog_frame [simp]:
  "g_bl_db (allowLog V r m lt kvs s) = g_bl_db s" "g_wl_db (allowLog V r m lt kvs s) = g_wl_db s"
  "g_bl_msgs (allowLog V r m lt kvs s) = g_bl_msgs s"
  "g_builtin_bl_enabled (allowLog V r m lt kvs s) = g_builtin_bl_enabled s" "g_denieds (allowLog V r m lt kvs s) = g_denieds s"
  by (simp_all add: allowLog_def)

lemma incCommandStat_frame [simp]:
  "g_bl_db (incCommandStat c s) = g_bl_db s" "g_wl_db (incCommandStat c s) = g_wl_db s" "g_denieds (incCommandStat c s) = g_denieds s"
  "g_bl_msgs (incCommandStat c s) = g_bl_msgs s" "g_wl_msgs (incCommandStat c s) = g_wl_msgs s" "g_dcache (incCommandStat c s) = g_dcache s"
  "g_builtin_bl_enabled (incCommandStat c s) = g_builtin_bl_enabled s" "g_builtin_wl_enabled (incCommandStat c s) = g_builtin_wl_enabled s"
  "g_ja3_attrname (incCommandStat c s) = g_ja3_attrname s"
  by (simp_all add: incCommandStat_def)

lemma runAllowWebHook_frame [simp]:
  "g_bl_db (runAllowWebHook V rq rs st s) = g_bl_db s" "g_wl_db (runAllowWebHook V rq rs st s) = g_wl_db s"
  "g_denieds (runAllowWebHook V rq rs st s) = g_denieds s"
  by (simp_all add: runAllowWebHook_def Let_def)

lemma list_hit_iff:
  "list_hit N db msgs lt ja3 \<noteq> None \<longleftrightarrow>
     getEntry_ip N (lt_remote lt) db \<noteq> None \<or> getEntry_login (lt_login lt) db \<noteq> None
     \<or> ja3 \<noteq> [] \<and> getJA3Entry ja3 db \<noteq> None \<or> getEntry_ip_login N (lt_remote lt) (lt_login lt) db \<noteq> None
     \<or> ja3 \<noteq> [] \<and> getIPJA3Entry N (lt_remote lt) ja3 db \<noteq> None"
  by (auto simp: list_hit_def split: option.splits)

text \<open>Whether a list is switched on and has a hit for the tuple.\<close>

definition white_hit :: "web_env \<Rightarrow> LoginTuple \<Rightarrow> wforce \<Rightarrow> bool" where
  "white_hit V lt s \<longleftrightarrow> g_builtin_wl_enabled s \<and> list_hit (we_net V) (g_wl_db s) (g_wl_msgs s) lt (ja3_of s lt) \<noteq> None"

definition black_hit :: "web_env \<Rightarrow> LoginTuple \<Rightarrow> wforce \<Rightarrow> bool" where
  "black_hit V lt s \<longleftrightarrow> g_builtin_bl_enabled s \<and> list_hit (we_net V) (g_bl_db s) (g_bl_msgs s) lt (ja3_of s lt) \<noteq> None"

lemma check_whitelist_spec:
  "snd (check_whitelist V lt (ja3_of s lt) (s, d)) = white_hit V lt s"
  "dec_status (snd (fst (check_whitelist V lt (ja3_of s lt) (s, d)))) = (if white_hit V lt s then 0 else dec_status d)"
  "\<not> white_hit V lt s \<Longrightarrow> fst (check_whitelist V lt (ja3_of s lt) (s, d)) = (s, d)"
  "g_bl_db (fst (fst (check_whitelist V lt (ja3_of s lt) (s, d)))) = g_bl_db s"
  "g_bl_msgs (fst (fst (check_whitelist V lt (ja3_of s lt) (s, d)))) = g_bl_msgs s"
  "g_builtin_bl_enabled (fst (fst (check_whitelist V lt (ja3_of s lt) (s, d)))) = g_builtin_bl_enabled s"
  "g_denieds (fst (fst (check_whitelist V lt (ja3_of s lt) (s, d)))) = g_denieds s"
  by (auto simp: check_whitelist_def white_hit_def Let_def split: option.split prod.split)

lemma check_blacklist_spec:
  assumes "g_bl_db s' = g_bl_db s" "g_bl_msgs s' = g_bl_msgs s" "g_builtin_bl_enabled s' = g_builtin_bl_enabled s"
  shows "snd (check_blacklist V lt (ja3_of s lt) (s', d)) = black_hit V lt s"
    "dec_status (snd (fst (check_blacklist V lt (ja3_of s lt) (s', d)))) = dec_status d"
    "\<not> black_hit V lt s \<Longrightarrow> fst (check_blacklist V lt (ja3_of s lt) (s', d)) = (s', d)"
    "black_hit V lt s \<Longrightarrow> (''blacklisted'', ''1'') \<in> set (dec_attrs (snd (fst (check_blacklist V lt (ja3_of s lt) (s', d)))))"
    "g_denieds (fst (fst (check_blacklist V lt (ja3_of s lt) (s', d)))) = g_denieds s'"
  using assms by (auto simp: check_blacklist_def black_hit_def hit_attrs_def Let_def split: option.split prod.split)

text \<open>The four cases of the decision.\<close>

lemma allow_decide_listed:
  assumes "white_hit V lt s \<or> black_hit V lt s" "resp_code resp = 200"
  shows "\<exists>s' d. allow_decide V command lt (s, resp) = (s', \<lparr>resp_code = 200, resp_body = js_dump (we_json V) (decision_json d)\<rparr>)
    \<and> dec_status d = (if white_hit V lt s then 0 else - 1)
    \<and> (black_hit V lt s \<longrightarrow> (''blacklisted'', ''1'') \<in> set (dec_attrs d) \<and> g_denieds s' = g_denieds s + 1)"
proof -
  let ?d0 = "\<lparr>dec_status = - 1, dec_msg = [], dec_attrs = []\<rparr>"
  obtain s1 d1 w where w: "check_whitelist V lt (ja3_of s lt) (s, ?d0) = ((s1, d1), w)" by (metis prod.collapse)
  note ws = check_whitelist_spec[of V lt s ?d0, unfolded w, simplified]
  obtain s2 d2 b where b: "check_blacklist V lt (ja3_of s lt) (s1, d1) = ((s2, d2), b)" by (metis prod.collapse)
  note bs = check_blacklist_spec[of s1 s V lt d1, OF ws(4,5,6), unfolded b, simplified]
  have hit: "b \<or> w" using assms(1) ws(1) bs(1) by auto
  define s3 where "s3 = count_listed w b (runAllowWebHook V (lt_to_json (we_net V) lt) (decision_json d2) (dec_status d2) s2)"
  have "allow_decide V command lt (s, resp) = (s3, \<lparr>resp_code = 200, resp_body = js_dump (we_json V) (decision_json d2)\<rparr>)"
    using hit assms(2) unfolding allow_decide_def by (cases resp) (auto simp: w b Let_def s3_def)
  moreover have "black_hit V lt s \<longrightarrow> (''blacklisted'', ''1'') \<in> set (dec_attrs d2) \<and> g_denieds s3 = g_denieds s + 1"
    using bs(1,4,5) ws(7) by (auto simp: s3_def count_listed_def Let_def)
  ultimately show ?thesis using ws(1,2) bs(1,2) by auto
qed

lemma allow_decide_unlisted:
  assumes "\<not> white_hit V lt s" "\<not> black_hit V lt s"
  shows "\<exists>d0. allow_decide V command lt (s, resp) =
    (case lua_allow V command lt (s, resp, d0) of (s', resp', d) \<Rightarrow>
       (s', if resp_code resp' = 200 then resp'\<lparr>resp_body := js_dump (we_json V) (decision_json d)\<rparr> else resp'))"
proof -
  let ?d0 = "\<lparr>dec_status = - 1, dec_msg = [], dec_attrs = []\<rparr>"
  have w: "check_whitelist V lt (ja3_of s lt) (s, ?d0) = ((s, ?d0), False)"
    using check_whitelist_spec(1,3)[of V lt s ?d0] assms(1) by (metis prod.collapse)
  have b: "check_blacklist V lt (ja3_of s lt) (s, ?d0) = ((s, ?d0), False)"
    using check_blacklist_spec(1,3)[OF refl refl refl, of V lt s ?d0] assms(2) by (metis prod.collapse)
  show ?thesis unfolding allow_decide_def by (rule exI[of _ ?d0]) (simp add: w b Let_def split: prod.split)
qed

text \<open>A well-formed request whose login can be canonicalised, and the tuple and the state with which it is decided.\<close>

definition allow_request :: "web_env \<Rightarrow> string \<Rightarrow> wforce \<Rightarrow> LoginTuple \<Rightarrow> wforce \<Rightarrow> bool" where
  "allow_request V body s lt s1 \<longleftrightarrow>
     (\<exists>msg err lt0 dc login. js_parse_c (we_json V) body = (msg, err) \<and> \<not> is_null msg
        \<and> from_json (we_json V) (we_net V) (we_uap V) msg (new_LoginTuple 0, g_dcache s) = Ret (lt0, dc) ()
        \<and> we_canonicalize V (lt_login lt0) = Inr login \<and> lt = lt0\<lparr>lt_t := we_time V, lt_login := login\<rparr>
        \<and> s1 = (incCommandStat ''allow'' s)\<lparr>g_allows := g_allows s + 1, g_dcache := dc\<rparr>)"

lemma parseAllow_decides:
  "allow_request V body s lt s1 \<Longrightarrow> parseAllowCmd V command body (s, resp) = allow_decide V command lt (s1, resp\<lparr>resp_code := 200\<rparr>)"
  by (auto simp: allow_request_def parseAllowCmd_def Let_def canonicalizeLogin_def)

lemma allow_request_hits:
  "allow_request V body s lt s1 \<Longrightarrow> white_hit V lt s1 = white_hit V lt s \<and> black_hit V lt s1 = black_hit V lt s \<and> g_denieds s1 = g_denieds s"
  by (auto simp: allow_request_def white_hit_def black_hit_def ja3_of_def)

text \<open>
  C9. The decision about a login. For a well-formed request: a hit in the white list gives status 0; otherwise a hit in
  the black list gives status -1; both with code 200. Otherwise the status, message and attributes are those of the
  Lua function, with code 200; if that function fails, the answer has code 500 and carries its message.
\<close>

theorem allow_answers:
  assumes "allow_request V body s lt s1"
  shows "\<exists>s' resp'. parseAllowCmd V command body (s, resp) = (s', resp') \<and>
    (if white_hit V lt s \<or> black_hit V lt s
     then (\<exists>d. resp' = \<lparr>resp_code = 200, resp_body = js_dump (we_json V) (decision_json d)\<rparr>
             \<and> dec_status d = (if white_hit V lt s then 0 else - 1))
     else (case we_allow V lt s1 of
             (s2, Inr (st, msg, log_msg, attrs)) \<Rightarrow>
               resp' = \<lparr>resp_code = 200, resp_body = js_dump (we_json V) (decision_json \<lparr>dec_status = st, dec_msg = msg, dec_attrs = attrs\<rparr>)\<rparr>
           | (s2, Inl e) \<Rightarrow> resp' = setErrorCodeAndReason V 500 (lua_reason e) resp))"
proof (cases "white_hit V lt s \<or> black_hit V lt s")
  case True
  then have "white_hit V lt s1 \<or> black_hit V lt s1" using allow_request_hits[OF assms] by simp
  from allow_decide_listed[OF this, of "resp\<lparr>resp_code := 200\<rparr>" command] show ?thesis
    using True allow_request_hits[OF assms] by (auto simp: parseAllow_decides[OF assms])
next
  case False
  then have "\<not> white_hit V lt s1" "\<not> black_hit V lt s1" using allow_request_hits[OF assms] by auto
  from allow_decide_unlisted[OF this, of command "resp\<lparr>resp_code := 200\<rparr>"]
  obtain d0 where eq: "parseAllowCmd V command body (s, resp) =
    (case lua_allow V command lt (s1, resp\<lparr>resp_code := 200\<rparr>, d0) of (s', resp', d) \<Rightarrow>
       (s', if resp_code resp' = 200 then resp'\<lparr>resp_body := js_dump (we_json V) (decision_json d)\<rparr> else resp'))"
    by (auto simp: parseAllow_decides[OF assms])
  obtain s2 r where r: "we_allow V lt s1 = (s2, r)" by fastforce
  show ?thesis
  proof (cases r)
    case (Inl e)
    then show ?thesis using False eq r by (simp add: lua_allow_def setErrorCodeAndReason_def)
  next
    case (Inr ar)
    obtain st m lm attrs where "ar = (st, m, lm, attrs)" by (metis prod.collapse)
    then show ?thesis using False eq r Inr by (simp add: lua_allow_def Let_def)
  qed
qed

definition demo_joe :: LoginTuple where
  "demo_joe = (new_LoginTuple 5)\<lparr>lt_login := ''joe''\<rparr>"

definition demo_joe_body :: string where
  "demo_joe_body = js_dump demo_float (js_object [(''login'', JString ''joe''), (''device_attrs'', JObject [])])"

lemma demo_request: "allow_request demo_web demo_joe_body s demo_joe ((incCommandStat ''allow'' s)\<lparr>g_allows := g_allows s + 1\<rparr>)"
  using demo_float_ok
  by (simp add: allow_request_def demo_web_def demo_joe_body_def scalar_request float_ok_def max_depth_def from_json_def js_get_object Let_def
      setLtAttrs_def setDeviceAttrs_def demo_joe_def new_LoginTuple_def incCommandStat_def)

lemma demo_hits: "\<not> white_hit demo_web demo_joe demo_state0" "black_hit demo_web demo_joe demo_state0"
  unfolding white_hit_def black_hit_def list_hit_iff
  by (simp_all add: demo_state0_def ja3_of_def demo_joe_def new_LoginTuple_def new_BlackWhiteListDB_def
      getEntry_ip_def getEntry_login_def getEntry_ip_login_def get_entry_def bl_find_def)

theorem allow_answers_witness:
  "\<exists>s' d. parseAllowCmd demo_web ''allow'' demo_joe_body (demo_state0, \<lparr>resp_code = 200, resp_body = []\<rparr>)
       = (s', \<lparr>resp_code = 200, resp_body = js_dump demo_float (decision_json d)\<rparr>) \<and> dec_status d = - 1"
  using allow_answers[OF demo_request[of demo_state0], of "''allow''" "\<lparr>resp_code = 200, resp_body = []\<rparr>"] demo_hits
  by (auto simp: demo_web_def)

text \<open>
  The answer for a login with hits in both lists contradicts itself: the status is 0, which lets the login pass, but
  the attributes say that it is blacklisted and the login is counted as denied.
\<close>

lemma both_lists_answer_contradicts:
  assumes "allow_request V body s lt s1" "white_hit V lt s" "black_hit V lt s"
  shows "\<exists>s' d. parseAllowCmd V command body (s, resp) = (s', \<lparr>resp_code = 200, resp_body = js_dump (we_json V) (decision_json d)\<rparr>)
    \<and> dec_status d = 0 \<and> (''blacklisted'', ''1'') \<in> set (dec_attrs d) \<and> g_denieds s' = g_denieds s + 1"
  using allow_decide_listed[of V lt s1 "resp\<lparr>resp_code := 200\<rparr>" command] allow_request_hits[OF assms(1)] assms(2,3)
  by (auto simp: parseAllow_decides[OF assms(1)])

end
