(* ===== verification/Web_Lists.thy ===== *)
theory Web_Lists
  imports Web_Allow
begin

text \<open>
  The commands that change and show the lists (\<^verbatim>\<open>wforce/wforce-web.cc\<close>): \<^verbatim>\<open>addBLEntry\<close>, \<^verbatim>\<open>delBLEntry\<close>, \<^verbatim>\<open>addWLEntry\<close>,
  \<^verbatim>\<open>delWLEntry\<close>, \<^verbatim>\<open>reset\<close>, \<^verbatim>\<open>getBL\<close>, \<^verbatim>\<open>getWL\<close> and \<^verbatim>\<open>getDBStats\<close>. A handler returns \<open>Undef\<close> only where a list does (a freed
  Redis context).
\<close>

section \<open>Adding and deleting entries\<close>

text \<open>
  What the handler reads from the request before it acts. \<open>Answered\<close>: the login could not be canonicalised and the response
  is complete. An exception is caught in the handler: a \<^verbatim>\<open>std::runtime_error\<close> with its text, any other without.
\<close>

record list_args =
  la_ip :: "ComboAddress option"
  la_nm :: "Netmask option"
  la_login :: "string option"
  la_ja3 :: "string option"
  la_seconds :: int
  la_reason :: string

datatype 'a read_result = Read 'a | Answered | Fails_Runtime string | Fails_Other

fun exn_class :: "exn \<Rightarrow> 'a read_result" where
  "exn_class (Runtime_Error w) = Fails_Runtime w"
| "exn_class _ = Fails_Other"

definition read_address :: "netlib \<Rightarrow> Json \<Rightarrow> exn + (ComboAddress \<times> Netmask) option" where
  "read_address N j =
     (if is_null j then Inr None
      else case new_ComboAddress N (string_value j) 0 of
             Inl e \<Rightarrow> Inl e
           | Inr ca \<Rightarrow> (case Netmask_of_string N (string_value j) of Inl e \<Rightarrow> Inl e | Inr nm \<Rightarrow> Inr (Some (ca, nm))))"

definition read_netmask :: "netlib \<Rightarrow> Json \<Rightarrow> exn + Netmask option" where
  "read_netmask N j =
     (if is_null j then Inr None else case Netmask_of_string N (string_value j) of Inl e \<Rightarrow> Inl e | Inr nm \<Rightarrow> Inr (Some nm))"

definition read_string :: "Json \<Rightarrow> string option" where
  "read_string j = (if is_null j then None else Some (string_value j))"

text \<open>The checks after the strings have been read, in the order of the code.\<close>

definition check_args :: "web_env \<Rightarrow> bool \<Rightarrow> Json \<Rightarrow> list_args \<Rightarrow> list_args read_result" where
  "check_args V addCmd msg a =
     (if la_ja3 a = None \<and> la_login a = None \<and> la_ip a = None \<and> la_nm a = None
      then Fails_Runtime ''Must provide at least one of login, ip, netmask or ja3''
      else if addCmd \<and> is_null (js_get msg ''expire_secs'') then Fails_Runtime ''Missing mandatory expire_secs field''
      else if addCmd \<and> is_null (js_get msg ''reason'') then Fails_Runtime ''Missing mandatory reason field''
      else if la_login a \<noteq> None \<and> la_ja3 a \<noteq> None then Fails_Runtime ''login and ja3 are mutually exclusive parameters''
      else Read (if addCmd
                 then a\<lparr>la_seconds := uint (word_of_int (int_value (we_json V) (js_get msg ''expire_secs'')) :: 32 word),
                        la_reason := string_value (js_get msg ''reason'')\<rparr>
                 else a))"

definition read_list_args ::
    "web_env \<Rightarrow> bool \<Rightarrow> Json \<Rightarrow> wforce \<times> HttpResponse \<Rightarrow> (wforce \<times> HttpResponse) \<times> list_args read_result" where
  "read_list_args V addCmd msg sr =
     (case read_address (we_net V) (js_get msg ''ip'') of
        Inl e \<Rightarrow> (sr, exn_class e)
      | Inr ip \<Rightarrow>
     (case read_netmask (we_net V) (js_get msg ''netmask'') of
        Inl e \<Rightarrow> (sr, exn_class e)
      | Inr nm \<Rightarrow>
          (let args = (\<lambda>login. \<lparr>la_ip = map_option fst ip, la_nm = (if nm \<noteq> None then nm else map_option snd ip), la_login = login,
                                la_ja3 = read_string (js_get msg ''ja3''), la_seconds = 0, la_reason = []\<rparr>)
           in case read_string (js_get msg ''login'') of
                None \<Rightarrow> (sr, check_args V addCmd msg (args None))
              | Some en_login \<Rightarrow>
                  (case canonicalizeLogin V en_login sr of
                     (sr1, None) \<Rightarrow> (sr1, Answered)
                   | (sr1, Some login) \<Rightarrow> (sr1, check_args V addCmd msg (args (Some login)))))))"

definition on_list ::
    "bool \<Rightarrow> (BlackWhiteListDB \<Rightarrow> (BlackWhiteListDB, unit) outcome) \<Rightarrow> wforce \<Rightarrow> (wforce, unit) outcome" where
  "on_list blacklist f s =
     (if blacklist then map_state (\<lambda>db. s\<lparr>g_bl_db := db\<rparr>) (f (g_bl_db s)) else map_state (\<lambda>db. s\<lparr>g_wl_db := db\<rparr>) (f (g_wl_db s)))"

definition list_action :: "web_env \<Rightarrow> bool \<Rightarrow> list_args \<Rightarrow> BlackWhiteListDB \<Rightarrow> (BlackWhiteListDB, unit) outcome" where
  "list_action V addCmd a =
     (let R = we_redis V; N = we_net V; ts = we_list_times V; secs = la_seconds a; reason = la_reason a
      in case (la_ip a, la_login a, la_ja3 a, la_nm a) of
           (Some ca, Some login, _, _) \<Rightarrow>
             (if addCmd then addEntry_ip_login R N ts ca login secs reason else deleteEntry_ip_login R N ca login)
         | (Some ca, None, Some ja3, _) \<Rightarrow>
             (if addCmd then addIPJA3Entry R N ts ca ja3 secs reason else deleteIPJA3Entry R N ca ja3)
         | (None, Some login, _, _) \<Rightarrow> (if addCmd then addEntry_login R N ts login secs reason else deleteEntry_login R N login)
         | (None, None, Some ja3, _) \<Rightarrow> (if addCmd then addJA3Entry R N ts ja3 secs reason else deleteJA3Entry R N ja3)
         | (_, None, None, Some nm) \<Rightarrow> (if addCmd then addEntry_netmask R N ts nm secs reason else deleteEntry_netmask R N nm)
         | (_, None, None, None) \<Rightarrow> (\<lambda>db. Ret db ()))"

definition answer_exn :: "web_env \<Rightarrow> 'a read_result \<Rightarrow> HttpResponse \<Rightarrow> HttpResponse" where
  "answer_exn V r resp =
     (case r of
        Fails_Runtime w \<Rightarrow> setErrorCodeAndReason V 500 w resp
      | Fails_Other \<Rightarrow> \<lparr>resp_code = 500, resp_body = status_failure\<rparr>
      | _ \<Rightarrow> resp)"

definition ok_body :: "HttpResponse \<Rightarrow> HttpResponse" where
  "ok_body resp = (if resp_code resp = 200 then resp\<lparr>resp_body := status_ok\<rparr> else resp)"

definition parseAddDelBLWLEntryCmd ::
    "web_env \<Rightarrow> string \<Rightarrow> bool \<Rightarrow> bool \<Rightarrow> wforce \<times> HttpResponse \<Rightarrow> (wforce \<times> HttpResponse, unit) outcome" where
  "parseAddDelBLWLEntryCmd V body addCmd blacklist sr =
     (case sr of (s, resp) \<Rightarrow>
        (let resp1 = resp\<lparr>resp_code := 200\<rparr>
         in case js_parse_c (we_json V) body of
              (msg, err) \<Rightarrow>
                (if is_null msg then Ret (s, setErrorCodeAndReason V 400 err resp1) ()
                 else case read_list_args V addCmd msg (s, resp1) of
                        (sr2, Answered) \<Rightarrow> Ret sr2 ()
                      | ((s2, resp2), Read a) \<Rightarrow>
                          (case on_list blacklist (list_action V addCmd a) s2 of
                             Ret s3 _ \<Rightarrow> Ret (s3, ok_body resp2) ()
                           | Exn e s3 \<Rightarrow> Ret (s3, answer_exn V (exn_class e :: list_args read_result) resp2) ()
                           | Undef \<Rightarrow> Undef)
                      | ((s2, resp2), r) \<Rightarrow> Ret (s2, answer_exn V r resp2) ())))"

definition counted_cmd :: "string \<Rightarrow> (wforce \<times> HttpResponse, unit) outcome \<Rightarrow> (wforce \<times> HttpResponse, unit) outcome" where
  "counted_cmd cmd r = map_state (\<lambda>(s, resp). (incCommandStat cmd s, resp)) r"

definition parseAddBLEntryCmd where
  "parseAddBLEntryCmd V command body sr = counted_cmd ''addBLEntry'' (parseAddDelBLWLEntryCmd V body True True sr)"

definition parseDelBLEntryCmd where
  "parseDelBLEntryCmd V command body sr = counted_cmd ''delBLEntry'' (parseAddDelBLWLEntryCmd V body False True sr)"

definition parseAddWLEntryCmd where
  "parseAddWLEntryCmd V command body sr = counted_cmd ''addWLEntry'' (parseAddDelBLWLEntryCmd V body True False sr)"

definition parseDelWLEntryCmd where
  "parseDelWLEntryCmd V command body sr = counted_cmd ''delWLEntry'' (parseAddDelBLWLEntryCmd V body False False sr)"

section \<open>Reset\<close>

definition reset_type :: "ComboAddress option \<Rightarrow> string option \<Rightarrow> string option \<Rightarrow> string" where
  "reset_type ip login ja3 =
     (case (ip, login, ja3) of
        (Some _, Some _, _) \<Rightarrow> ''ip:login''
      | (Some _, None, Some _) \<Rightarrow> ''ip:ja3''
      | (None, Some _, _) \<Rightarrow> ''login''
      | (None, None, Some _) \<Rightarrow> ''ja3''
      | (Some _, None, None) \<Rightarrow> ''ip''
      | (None, None, None) \<Rightarrow> [])"

definition reset_delete ::
    "web_env \<Rightarrow> ComboAddress option \<Rightarrow> string option \<Rightarrow> string option \<Rightarrow> BlackWhiteListDB \<Rightarrow> (BlackWhiteListDB, unit) outcome" where
  "reset_delete V ip login ja3 =
     (let R = we_redis V; N = we_net V
      in case (ip, login, ja3) of
           (Some ca, Some l, _) \<Rightarrow> deleteEntry_ip_login R N ca l
         | (Some ca, None, Some j) \<Rightarrow> deleteIPJA3Entry R N ca j
         | (None, Some l, _) \<Rightarrow> deleteEntry_login R N l
         | (None, None, Some j) \<Rightarrow> deleteJA3Entry R N j
         | (Some ca, None, None) \<Rightarrow> deleteEntry_ip R N ca
         | (None, None, None) \<Rightarrow> (\<lambda>db. Ret db ()))"

definition reset_hooks ::
    "web_env \<Rightarrow> ComboAddress option \<Rightarrow> string option \<Rightarrow> string option \<Rightarrow> wforce \<Rightarrow> wforce" where
  "reset_hooks V ip login ja3 s =
     run_hooks V ''reset''
       (js_object [(''login'', JString (case login of Some l \<Rightarrow> l | None \<Rightarrow> [])),
          (''ip'', JString (ca_toString (we_net V) (case ip of Some ca \<Rightarrow> ca | None \<Rightarrow> CA_V4 0 0))),
          (''ja3'', JString (case ja3 of Some j \<Rightarrow> j | None \<Rightarrow> [])), (''type'', JString ''wforce_reset'')]) s"

text \<open>What follows the deletion: the Lua function, the answer and the web hooks.\<close>

definition reset_rest ::
    "web_env \<Rightarrow> ComboAddress option \<Rightarrow> string option \<Rightarrow> string option \<Rightarrow> wforce \<times> HttpResponse \<Rightarrow> wforce \<times> HttpResponse" where
  "reset_rest V ip login ja3 sr =
     (case sr of (s, resp) \<Rightarrow>
        (if ip = None \<and> login = None \<and> ja3 = None
         then (reset_hooks V ip login ja3 s, setErrorCodeAndReason V 400 ''No ip, login or ja3 field supplied'' resp)
         else
           (let login_or_ja3 = (case login of Some l \<Rightarrow> l | None \<Rightarrow> (case ja3 of Some j \<Rightarrow> j | None \<Rightarrow> []))
            in case we_reset V (reset_type ip login ja3) login_or_ja3 (case ip of Some ca \<Rightarrow> ca | None \<Rightarrow> CA_V4 0 0) s of
                 (s1, Inr True) \<Rightarrow> (reset_hooks V ip login ja3 s1, \<lparr>resp_code = 200, resp_body = status_ok\<rparr>)
               | (s1, Inr False) \<Rightarrow>
                   (reset_hooks V ip login ja3 s1, setErrorCodeAndReason V 500 ''reset function returned false'' resp)
               | (s1, Inl (Lua_Error w _)) \<Rightarrow>
                   (log_line Error (''Lua reset function exception: '' @ w) s1, setErrorCodeAndReason V 500 w resp)
               | (s1, Inl _) \<Rightarrow> (s1, \<lparr>resp_code = 500, resp_body = status_failure\<rparr>))))"

definition parseResetCmd ::
    "web_env \<Rightarrow> string \<Rightarrow> string \<Rightarrow> wforce \<times> HttpResponse \<Rightarrow> (wforce \<times> HttpResponse, unit) outcome" where
  "parseResetCmd V command body sr =
     (case sr of (s, resp) \<Rightarrow>
        (let failure = (\<lambda>s. counted_cmd ''reset'' (Ret (s, \<lparr>resp_code = 500, resp_body = status_failure\<rparr>) ()));
             act = (\<lambda>ip login ja3 (s2, resp2).
               if login \<noteq> None \<and> ja3 \<noteq> None then failure s2
               else case on_list True (reset_delete V ip login ja3) s2 of
                      Ret s3 _ \<Rightarrow> counted_cmd ''reset'' (Ret (reset_rest V ip login ja3 (s3, resp2)) ())
                    | Exn e s3 \<Rightarrow> failure s3
                    | Undef \<Rightarrow> Undef)
         in case js_parse_c (we_json V) body of
              (msg, err) \<Rightarrow>
                (if is_null msg then counted_cmd ''reset'' (Ret (s, setErrorCodeAndReason V 400 err resp) ())
                 else case (if is_null (js_get msg ''ip'') then Inr None
                            else map_sum id Some (new_ComboAddress (we_net V) (string_value (js_get msg ''ip'')) 0)) of
                        Inl e \<Rightarrow> failure s
                      | Inr ip \<Rightarrow>
                          (case read_string (js_get msg ''login'') of
                             None \<Rightarrow> act ip None (read_string (js_get msg ''ja3'')) (s, resp)
                           | Some en_login \<Rightarrow>
                               (case canonicalizeLogin V en_login (s, resp) of
                                  (sr1, None) \<Rightarrow> Ret sr1 ()
                                | (sr1, Some login) \<Rightarrow> act ip (Some login) (read_string (js_get msg ''ja3'')) sr1)))))"

section \<open>Showing the lists\<close>

definition getEntries :: "blackwhitelist_t \<Rightarrow> BlackWhiteListEntry list" where
  "getEntries l = l"

definition getIPEntries where "getIPEntries db = getEntries (ip_list db)"
definition getLoginEntries where "getLoginEntries db = getEntries (login_list db)"
definition getIPLoginEntries where "getIPLoginEntries db = getEntries (ip_login_list db)"
definition getJA3Entries where "getJA3Entries db = getEntries (ja3_list db)"
definition getIPJA3Entries where "getIPJA3Entries db = getEntries (ip_ja3_list db)"

definition addBLWLEntries :: "web_env \<Rightarrow> BlackWhiteListEntry list \<Rightarrow> string \<Rightarrow> Json list \<Rightarrow> Json list" where
  "addBLWLEntries V blv key_name my_entries =
     my_entries @ map (\<lambda>i. js_object [(key_name, JString (ble_key i)), (''expiration'', JString (we_simple_time V (ble_expiration i))),
                                      (''reason'', JString (ble_reason i))]) blv"

definition parseGetBLWLCmd :: "web_env \<Rightarrow> bool \<Rightarrow> wforce \<times> HttpResponse \<Rightarrow> wforce \<times> HttpResponse" where
  "parseGetBLWLCmd V blacklist sr =
     (case sr of (s, resp) \<Rightarrow>
        (let blwl = (if blacklist then g_bl_db s else g_wl_db s);
             e1 = addBLWLEntries V (getIPEntries blwl) ''ip'' [];
             e2 = addBLWLEntries V (getLoginEntries blwl) ''login'' e1;
             e3 = addBLWLEntries V (getIPLoginEntries blwl) ''iplogin'' e2;
             e4 = addBLWLEntries V (getJA3Entries blwl) ''ja3'' e3;
             e5 = addBLWLEntries V (getIPJA3Entries blwl) ''ipja3'' e4
         in (incCommandStat (if blacklist then ''getBL'' else ''getWL'') s,
             \<lparr>resp_code = 200,
              resp_body = js_dump (we_json V) (js_object [(if blacklist then ''bl_entries'' else ''wl_entries'', JArray e5)])\<rparr>)))"

definition parseGetBLCmd where "parseGetBLCmd V command sr = parseGetBLWLCmd V True sr"
definition parseGetWLCmd where "parseGetWLCmd V command sr = parseGetBLWLCmd V False sr"

section \<open>Showing what is known about a key\<close>

definition getIPJA3 :: "string \<Rightarrow> string \<Rightarrow> string" where
  "getIPJA3 ip ja3 = ip @ ''::'' @ ja3"

text \<open>The name, the text and the database key of a request, and the entries of the two lists for it.\<close>

definition stats_key ::
    "netlib \<Rightarrow> ComboAddress option \<Rightarrow> string option \<Rightarrow> string option \<Rightarrow> string \<times> string \<times> TWKeyType" where
  "stats_key N ip login ja3 =
     (case (ip, login, ja3) of
        (Some ca, Some l, _) \<Rightarrow> (''ip_login'', ca_toString N ca @ '':'' @ l, TWStr (ca_toString N ca @ '':'' @ l))
      | (Some ca, None, Some j) \<Rightarrow> (''ip_ja3'', getIPJA3 (ca_toString N ca) j, TWStr (getIPJA3 (ca_toString N ca) j))
      | (None, Some l, _) \<Rightarrow> (''login'', l, TWStr l)
      | (None, None, Some j) \<Rightarrow> (''ja3'', j, TWStr j)
      | (Some ca, None, None) \<Rightarrow> (''ip'', ca_toString N ca, TWAddr ca)
      | (None, None, None) \<Rightarrow> ([], [], TWStr []))"

definition stats_entry ::
    "netlib \<Rightarrow> ComboAddress option \<Rightarrow> string option \<Rightarrow> string option \<Rightarrow> BlackWhiteListDB \<Rightarrow> BlackWhiteListEntry option" where
  "stats_entry N ip login ja3 db =
     (case (ip, login, ja3) of
        (Some ca, Some l, _) \<Rightarrow> getEntry_ip_login N ca l db
      | (Some ca, None, Some j) \<Rightarrow> getIPJA3Entry N ca j db
      | (None, Some l, _) \<Rightarrow> getEntry_login l db
      | (None, None, Some j) \<Rightarrow> getJA3Entry j db
      | (Some ca, None, None) \<Rightarrow> getEntry_ip N ca db
      | (None, None, None) \<Rightarrow> None)"

text \<open>The loop over the databases; a lookup cleans the windows it reads, so that the databases change.\<close>

fun db_stats ::
    "web_env \<Rightarrow> TWKeyType \<Rightarrow> (string \<times> TWStringStatsDBWrapper) list
     \<Rightarrow> ((string \<times> TWStringStatsDBWrapper) list, (string \<times> Json) list) outcome" where
  "db_stats V key [] = Ret [] []"
| "db_stats V key ((dbName, w) # dbs) =
     (case wr_get_all_fields (we_sk V) (we_net V) (we_clock V) key w of
        Undef \<Rightarrow> Undef
      | Exn e w' \<Rightarrow> Exn e ((dbName, w') # dbs)
      | Ret w' db_fields \<Rightarrow>
          (case db_stats V key dbs of
             Undef \<Rightarrow> Undef
           | Exn e dbs' \<Rightarrow> Exn e ((dbName, w') # dbs')
           | Ret dbs' js \<Rightarrow>
               Ret ((dbName, w') # dbs')
                 ((case db_fields of
                     None \<Rightarrow> []
                   | Some fs \<Rightarrow> [(dbName, js_object (map (\<lambda>(f, n). (f, JInt (sint n))) fs))]) @ js)))"

definition entry_texts :: "web_env \<Rightarrow> BlackWhiteListEntry option \<Rightarrow> bool \<times> string \<times> string" where
  "entry_texts V e =
     (case e of None \<Rightarrow> (False, [], []) | Some b \<Rightarrow> (True, ble_reason b, we_simple_time V (ble_expiration b)))"

definition parseGetStatsCmd ::
    "web_env \<Rightarrow> string \<Rightarrow> string \<Rightarrow> wforce \<times> HttpResponse \<Rightarrow> (wforce \<times> HttpResponse, unit) outcome" where
  "parseGetStatsCmd V command body sr =
     (case sr of (s, resp) \<Rightarrow>
        (let N = we_net V;
             act = (\<lambda>ip login ja3 (s2, resp2).
               if login \<noteq> None \<and> ja3 \<noteq> None
               then Ret (s2, setErrorCodeAndReason V 400 ''ja3 and login fields are mutually exclusive'' resp2) ()
               else if ip = None \<and> login = None \<and> ja3 = None
               then counted_cmd ''getDBStats'' (Ret (s2, setErrorCodeAndReason V 400 ''No ja3, ip or login field supplied'' resp2) ())
               else (case stats_key N ip login ja3 of
                       (key_name, key_value, lookup_key) \<Rightarrow>
                         (case db_stats V lookup_key (g_dbMap s2) of
                            Undef \<Rightarrow> Undef
                          | Exn e dbs \<Rightarrow> Exn e (s2\<lparr>g_dbMap := dbs\<rparr>, resp2)
                          | Ret dbs js_db_stats \<Rightarrow>
                              (let (bl, bl_reason, bl_expire) = entry_texts V (stats_entry N ip login ja3 (g_bl_db s2));
                                   (wl, wl_reason, wl_expire) = entry_texts V (stats_entry N ip login ja3 (g_wl_db s2))
                               in counted_cmd ''getDBStats''
                                    (Ret (s2\<lparr>g_dbMap := dbs\<rparr>,
                                      \<lparr>resp_code = 200,
                                       resp_body = js_dump (we_json V) (js_object
                                         [(key_name, JString key_value), (''whitelisted'', JBool wl), (''wl_reason'', JString wl_reason),
                                          (''wl_expire'', JString wl_expire), (''blacklisted'', JBool bl), (''bl_reason'', JString bl_reason),
                                          (''bl_expire'', JString bl_expire), (''stats'', js_object js_db_stats)])\<rparr>) ())))))
         in case js_parse_c (we_json V) body of
              (msg, err) \<Rightarrow>
                (if is_null msg then counted_cmd ''getDBStats'' (Ret (s, setErrorCodeAndReason V 400 err resp) ())
                 else case (if is_null (js_get msg ''ip'') then Inr None
                            else map_sum id Some (new_ComboAddress N (string_value (js_get msg ''ip'')) 0)) of
                        Inl e \<Rightarrow> Ret (s, setErrorCodeAndReason V 400 ''Could not parse input'' resp) ()
                      | Inr ip \<Rightarrow>
                          (case read_string (js_get msg ''login'') of
                             None \<Rightarrow> act ip None (read_string (js_get msg ''ja3'')) (s, resp)
                           | Some en_login \<Rightarrow>
                               (case canonicalizeLogin V en_login (s, resp) of
                                  (sr1, None) \<Rightarrow> Ret sr1 ()
                                | (sr1, Some login) \<Rightarrow> act ip (Some login) (read_string (js_get msg ''ja3'')) sr1)))))"

section \<open>Properties\<close>

lemma canonicalize_frame:
  assumes "canonicalizeLogin V login (s, resp) = ((s', resp'), r)"
  shows "g_bl_db s' = g_bl_db s" "g_wl_db s' = g_wl_db s" "r = None \<Longrightarrow> resp_code resp' = 500" "r \<noteq> None \<Longrightarrow> s' = s \<and> resp' = resp"
  using assms by (auto simp: canonicalizeLogin_def setErrorCodeAndReason_def split: sum.splits lua_exn.splits)

lemma check_args_not_Answered: "check_args V addCmd msg a \<noteq> Answered"
  by (simp add: check_args_def)

lemma exn_class_neq: "exn_class e \<noteq> Answered" "Answered \<noteq> exn_class e" "exn_class e \<noteq> Read a"
  by (cases e; simp)+

lemma read_list_args_frame:
  assumes "read_list_args V addCmd msg (s, resp) = ((s', resp'), r)"
  shows "g_bl_db s' = g_bl_db s" "g_wl_db s' = g_wl_db s" "r = Answered \<Longrightarrow> resp_code resp' = 500" "r \<noteq> Answered \<Longrightarrow> s' = s \<and> resp' = resp"
  using assms
  by (auto simp: read_list_args_def Let_def check_args_not_Answered exn_class_neq split: sum.splits option.splits prod.splits
      dest: canonicalize_frame)

lemma answer_exn_code: "exn_class e = r \<Longrightarrow> resp_code (answer_exn V r resp) = 500"
  by (cases e) (auto simp: answer_exn_def setErrorCodeAndReason_def)

definition the_list :: "bool \<Rightarrow> wforce \<Rightarrow> BlackWhiteListDB" where
  "the_list blacklist s = (if blacklist then g_bl_db s else g_wl_db s)"

text \<open>
  C23. A list command answers what happened. If it answers with code 200, the request was well formed and the operation on the
  list returned; if it answers with another code, either neither list has changed, or the request was well formed and the
  operation threw (and what it had changed by then stays). The other list never changes.
\<close>

theorem list_commands_answer_truthfully:
  assumes "parseAddDelBLWLEntryCmd V body addCmd blacklist (s, resp) = Ret (s', resp') ()"
  shows "the_list (\<not> blacklist) s' = the_list (\<not> blacklist) s \<and>
    (resp_code resp' = 200 \<and> resp_body resp' = status_ok
       \<and> (\<exists>msg err sr a. js_parse_c (we_json V) body = (msg, err) \<and> read_list_args V addCmd msg (s, resp\<lparr>resp_code := 200\<rparr>) = (sr, Read a)
            \<and> list_action V addCmd a (the_list blacklist s) = Ret (the_list blacklist s') ())
     \<or> resp_code resp' \<in> {400, 500} \<and> the_list blacklist s' = the_list blacklist s
     \<or> resp_code resp' = 500
       \<and> (\<exists>msg err sr a e. js_parse_c (we_json V) body = (msg, err) \<and> read_list_args V addCmd msg (s, resp\<lparr>resp_code := 200\<rparr>) = (sr, Read a)
            \<and> list_action V addCmd a (the_list blacklist s) = Exn e (the_list blacklist s')))"
proof -
  let ?resp = "resp\<lparr>resp_code := 200\<rparr>"
  obtain msg err where p: "js_parse_c (we_json V) body = (msg, err)" by fastforce
  show ?thesis
  proof (cases "is_null msg")
    case True
    then show ?thesis using assms p by (auto simp: parseAddDelBLWLEntryCmd_def setErrorCodeAndReason_def the_list_def)
  next
    case False
    obtain s2 resp2 r where r: "read_list_args V addCmd msg (s, ?resp) = ((s2, resp2), r)" by (metis prod.collapse)
    note fr = read_list_args_frame[OF r]
    show ?thesis
    proof (cases r)
      case (Read a)
      then have "s2 = s" "resp2 = ?resp" using fr(4) by auto
      then show ?thesis
        using assms p False r Read
        by (cases "list_action V addCmd a (the_list blacklist s)"; cases blacklist)
          (auto simp: parseAddDelBLWLEntryCmd_def on_list_def the_list_def ok_body_def answer_exn_code)
    next
      case Answered
      then show ?thesis using assms p False r fr(1,2,3) by (auto simp: parseAddDelBLWLEntryCmd_def the_list_def)
    next
      case (Fails_Runtime w)
      then show ?thesis using assms p False r fr(4)
        by (auto simp: parseAddDelBLWLEntryCmd_def the_list_def answer_exn_def setErrorCodeAndReason_def)
    next
      case Fails_Other
      then show ?thesis using assms p False r fr(4) by (auto simp: parseAddDelBLWLEntryCmd_def the_list_def answer_exn_def)
    qed
  qed
qed

lemma demo_delete_returns:
  "\<exists>s'. parseAddDelBLWLEntryCmd demo_web demo_joe_body False True (demo_state0, resp) = Ret (s', \<lparr>resp_code = 200, resp_body = status_ok\<rparr>) ()"
  using demo_float_ok
  by (cases resp)
    (simp add: parseAddDelBLWLEntryCmd_def demo_web_def demo_joe_body_def scalar_request float_ok_def max_depth_def js_get_object read_list_args_def read_address_def read_netmask_def
      read_string_def canonicalizeLogin_def check_args_def list_action_def deleteEntry_login_def deleteEntryInternal_def on_list_def
      demo_state0_def new_BlackWhiteListDB_def after_delete_def Let_def ok_body_def delete_entry_def bl_find_def
      deleteEntryLog_def emit_def)

theorem list_commands_answer_truthfully_witness:
  "\<exists>s'. parseAddDelBLWLEntryCmd demo_web demo_joe_body False True (demo_state0, \<lparr>resp_code = 0, resp_body = []\<rparr>)
      = Ret (s', \<lparr>resp_code = 200, resp_body = status_ok\<rparr>) () \<and> the_list False s' = the_list False demo_state0"
  using demo_delete_returns list_commands_answer_truthfully by (metis (full_types))

text \<open>A request to list a network, given by an address or a netmask alone.\<close>

definition network_request :: "web_env \<Rightarrow> string \<Rightarrow> Netmask \<Rightarrow> bool" where
  "network_request V body nm \<longleftrightarrow>
     (\<exists>msg err. js_parse_c (we_json V) body = (msg, err) \<and> \<not> is_null msg \<and> is_null (js_get msg ''login'') \<and> is_null (js_get msg ''ja3'')
        \<and> \<not> is_null (js_get msg ''expire_secs'') \<and> \<not> is_null (js_get msg ''reason'')
        \<and> (is_null (js_get msg ''ip'') \<and> read_netmask (we_net V) (js_get msg ''netmask'') = Inr (Some nm)
           \<or> is_null (js_get msg ''netmask'') \<and> (\<exists>ca. read_address (we_net V) (js_get msg ''ip'') = Inr (Some (ca, nm)))))"

lemma network_request_args:
  assumes "network_request V body nm"
  obtains msg err a where "js_parse_c (we_json V) body = (msg, err)" "\<not> is_null msg"
    "\<And>sr. read_list_args V True msg sr = (sr, Read a)" "la_login a = None" "la_ja3 a = None" "la_nm a = Some nm"
proof -
  obtain msg err where m: "js_parse_c (we_json V) body = (msg, err)" "\<not> is_null msg" "is_null (js_get msg ''login'')" "is_null (js_get msg ''ja3'')"
      "\<not> is_null (js_get msg ''expire_secs'')" "\<not> is_null (js_get msg ''reason'')"
    and n: "is_null (js_get msg ''ip'') \<and> read_netmask (we_net V) (js_get msg ''netmask'') = Inr (Some nm)
           \<or> is_null (js_get msg ''netmask'') \<and> (\<exists>ca. read_address (we_net V) (js_get msg ''ip'') = Inr (Some (ca, nm)))"
    using assms unfolding network_request_def by blast
  have "\<exists>ip. read_address (we_net V) (js_get msg ''ip'') = Inr ip
      \<and> (\<exists>nm'. read_netmask (we_net V) (js_get msg ''netmask'') = Inr nm' \<and> (if nm' \<noteq> None then nm' else map_option snd ip) = Some nm)"
    using n by (auto simp: read_address_def read_netmask_def)
  then obtain ip nm' where i: "read_address (we_net V) (js_get msg ''ip'') = Inr ip" "read_netmask (we_net V) (js_get msg ''netmask'') = Inr nm'"
      "(if nm' \<noteq> None then nm' else map_option snd ip) = Some nm"
    by blast
  show ?thesis
    by (rule that[OF m(1,2)]) (use m(3-6) i in \<open>auto simp: read_list_args_def read_string_def check_args_def Let_def\<close>)
qed

lemma list_action_network:
  "la_login a = None \<Longrightarrow> la_ja3 a = None \<Longrightarrow> la_nm a = Some nm \<Longrightarrow>
   list_action V True a = addEntry_netmask (we_redis V) (we_net V) (we_list_times V) nm (la_seconds a) (la_reason a)"
  by (cases "la_ip a") (simp_all add: list_action_def)

lemma add_network_command:
  assumes req: "network_request V body nm" and ok: "bw_ok (we_net V) (g_bl_db s)" and np: "\<not> persist (g_bl_db s)"
    and nm: "nm_wf nm" "prints_plain (we_net V) (set_port 0 (getMaskedNetwork nm))"
  shows "\<exists>db'. parseAddBLEntryCmd V command body (s, resp) = Ret (incCommandStat ''addBLEntry'' (s\<lparr>g_bl_db := db'\<rparr>), \<lparr>resp_code = 200, resp_body = status_ok\<rparr>) ()
    \<and> bw_ok (we_net V) db' \<and> (\<forall>ip. ca_wf ip \<and> ip \<noteq> CA_None \<longrightarrow> (checkEntry_ip ip db' \<longleftrightarrow> nm_match nm ip = Some True \<or> checkEntry_ip ip (g_bl_db s)))"
proof -
  obtain msg err a where m: "js_parse_c (we_json V) body = (msg, err)" "\<not> is_null msg" and r: "\<And>sr. read_list_args V True msg sr = (sr, Read a)"
    and a: "la_login a = None" "la_ja3 a = None" "la_nm a = Some nm"
    using network_request_args[OF req] by metis
  let ?add = "addEntry_netmask (we_redis V) (we_net V) (we_list_times V) nm (la_seconds a) (la_reason a)"
  note added = netmask_listed_after_add[OF ok np nm, of _ "we_redis V" "we_list_times V" "la_seconds a" "la_reason a"]
  obtain db' where db': "?add (g_bl_db s) = Ret db' ()" "bw_ok (we_net V) db'" using added[of "CA_V4 0 0"] by auto
  have "checkEntry_ip ip db' \<longleftrightarrow> nm_match nm ip = Some True \<or> checkEntry_ip ip (g_bl_db s)" if "ca_wf ip" "ip \<noteq> CA_None" for ip
    using added[OF that] db'(1) by auto
  moreover have "parseAddBLEntryCmd V command body (s, resp)
      = Ret (incCommandStat ''addBLEntry'' (s\<lparr>g_bl_db := db'\<rparr>), \<lparr>resp_code = 200, resp_body = status_ok\<rparr>) ()"
    using m r db'(1) list_action_network[OF a]
    by (cases resp) (simp add: parseAddBLEntryCmd_def parseAddDelBLWLEntryCmd_def counted_cmd_def on_list_def ok_body_def Let_def)
  ultimately show ?thesis using db'(2) by blast
qed

text \<open>
  C10. Blocking works end to end, in a daemon whose built-in black list is enabled and not persistent, and whose black list is sound
  (tables and netmasks agree). The command to blacklist a network, by address or netmask, is accepted when the network is well-formed
  and prints as text that is read back as the same network; afterwards a login from any address of that network that is not
  whitelisted is answered with status -1.
\<close>

theorem blacklisted_network_is_denied:
  assumes req: "network_request V body nm" and ok: "bw_ok (we_net V) (g_bl_db s)" and np: "\<not> persist (g_bl_db s)"
    and nm: "nm_wf nm" "prints_plain (we_net V) (set_port 0 (getMaskedNetwork nm))"
    and en: "g_builtin_bl_enabled s" and ip: "ca_wf (lt_remote lt)" "nm_match nm (lt_remote lt) = Some True" and wl: "\<not> white_hit V lt s"
  shows "\<exists>s'. parseAddBLEntryCmd V command body (s, resp) = Ret (s', \<lparr>resp_code = 200, resp_body = status_ok\<rparr>) ()
    \<and> (\<forall>s1 body' command' resp'. allow_request V body' s' lt s1 \<longrightarrow>
         (\<exists>s2 d. parseAllowCmd V command' body' (s', resp') = (s2, \<lparr>resp_code = 200, resp_body = js_dump (we_json V) (decision_json d)\<rparr>)
            \<and> dec_status d = - 1))"
proof -
  obtain db' where db': "parseAddBLEntryCmd V command body (s, resp)
        = Ret (incCommandStat ''addBLEntry'' (s\<lparr>g_bl_db := db'\<rparr>), \<lparr>resp_code = 200, resp_body = status_ok\<rparr>) ()"
      "bw_ok (we_net V) db'" "\<And>ip. ca_wf ip \<Longrightarrow> ip \<noteq> CA_None \<Longrightarrow> checkEntry_ip ip db' \<longleftrightarrow> nm_match nm ip = Some True \<or> checkEntry_ip ip (g_bl_db s)"
    using add_network_command[OF req ok np nm, of command resp] by (elim exE conjE) simp
  let ?s = "incCommandStat ''addBLEntry'' (s\<lparr>g_bl_db := db'\<rparr>)"
  have "lt_remote lt \<noteq> CA_None" using ip(2) by (auto simp: nm_match_def split: ComboAddress.splits)
  then have "getEntry_ip (we_net V) (lt_remote lt) db' \<noteq> None"
    using db'(3)[OF ip(1)] ip(2) check_iff_get[OF db'(2) ip(1)] by simp
  then have hits: "black_hit V lt ?s" "\<not> white_hit V lt ?s"
    using en wl unfolding black_hit_def white_hit_def list_hit_iff by (simp_all add: ja3_of_def)
  have "\<exists>s2 d. parseAllowCmd V command' body' (?s, resp') = (s2, \<lparr>resp_code = 200, resp_body = js_dump (we_json V) (decision_json d)\<rparr>)
            \<and> dec_status d = - 1" if "allow_request V body' ?s lt s1" for s1 body' command' resp'
    using allow_decide_listed[of V lt s1 "resp'\<lparr>resp_code := 200\<rparr>" command'] allow_request_hits[OF that] hits
    by (auto simp: parseAllow_decides[OF that])
  then show ?thesis by (intro exI[of _ ?s] conjI db'(1)) simp
qed

definition demo_net_body :: string where
  "demo_net_body = js_dump demo_float (js_object [(''ip'', JString ''10.0.0.0''), (''remote'', JString ''10.0.0.0''), (''expire_secs'', JInt 60),
     (''reason'', JString ''abuse''), (''device_attrs'', JObject [])])"

definition demo_host :: Netmask where
  "demo_host = \<lparr>d_network = CA_V4 0x0A000000 0, d_mask = 0xFFFFFFFF, d_bits = 32\<rparr>"

definition demo_tuple :: LoginTuple where
  "demo_tuple = (new_LoginTuple 5)\<lparr>lt_remote := CA_V4 0x0A000000 0\<rparr>"

lemma demo_host_ok: "nm_wf demo_host" "prints_plain demo_net (set_port 0 (getMaskedNetwork demo_host))" "nm_match demo_host (CA_V4 0x0A000000 0) = Some True"
  by (simp_all add: demo_host_def nm_wf_def prints_plain_def prints_back_def getMaskedNetwork_def demo_net_def makeComboAddress_def c_str_def
      nm_match_def match4_def mask_of_def)

lemma demo_network_request: "network_request demo_web demo_net_body demo_host"
  using demo_float_ok
  by (simp add: network_request_def demo_web_def demo_net_body_def scalar_request float_ok_def max_depth_def js_get_object read_address_def new_ComboAddress_def
      makeIPv4sockaddr_def find_char_def demo_net_def c_str_def Netmask_of_string_def splitField_def makeComboAddress_def demo_host_def number_of_text_def)

lemma demo_allow_request:
  "allow_request demo_web demo_net_body s demo_tuple ((incCommandStat ''allow'' s)\<lparr>g_allows := g_allows s + 1\<rparr>)"
  using demo_float_ok
  by (simp add: allow_request_def demo_web_def demo_net_body_def scalar_request float_ok_def max_depth_def from_json_def js_get_object Let_def setLtAttrs_def setDeviceAttrs_def
      lt_remote_of_def new_ComboAddress_def makeIPv4sockaddr_def find_char_def demo_net_def c_str_def demo_tuple_def new_LoginTuple_def incCommandStat_def)

theorem blacklisted_network_is_denied_witness:
  "\<exists>s' s2 d. parseAddBLEntryCmd demo_web ''addBLEntry'' demo_net_body (demo_state0\<lparr>g_bl_db := new_BlackWhiteListDB BLACKLIST\<rparr>, \<lparr>resp_code = 0, resp_body = []\<rparr>)
       = Ret (s', \<lparr>resp_code = 200, resp_body = status_ok\<rparr>) ()
     \<and> parseAllowCmd demo_web ''allow'' demo_net_body (s', \<lparr>resp_code = 0, resp_body = []\<rparr>)
       = (s2, \<lparr>resp_code = 200, resp_body = js_dump demo_float (decision_json d)\<rparr>) \<and> dec_status d = - 1"
proof -
  let ?s = "demo_state0\<lparr>g_bl_db := new_BlackWhiteListDB BLACKLIST\<rparr>" and ?r = "\<lparr>resp_code = 0, resp_body = []\<rparr>"
  have net: "we_net demo_web = demo_net" "we_json demo_web = demo_float" by (simp_all add: demo_web_def)
  have wl: "\<not> white_hit demo_web demo_tuple ?s"
    unfolding white_hit_def list_hit_iff
    by (simp add: demo_state0_def new_BlackWhiteListDB_def demo_tuple_def new_LoginTuple_def ja3_of_def
        getEntry_ip_def getEntry_login_def getEntry_ip_login_def get_entry_def bl_find_def)
  have "\<exists>s'. parseAddBLEntryCmd demo_web ''addBLEntry'' demo_net_body (?s, ?r) = Ret (s', \<lparr>resp_code = 200, resp_body = status_ok\<rparr>) ()
      \<and> (\<forall>s1 body' command' resp'. allow_request demo_web body' s' demo_tuple s1 \<longrightarrow>
           (\<exists>s2 d. parseAllowCmd demo_web command' body' (s', resp') = (s2, \<lparr>resp_code = 200, resp_body = js_dump (we_json demo_web) (decision_json d)\<rparr>)
              \<and> dec_status d = - 1))"
    by (rule blacklisted_network_is_denied[OF demo_network_request])
      (use wl demo_host_ok in \<open>simp_all add: net new_db_ok\<close>, simp_all add: new_BlackWhiteListDB_def demo_state0_def demo_tuple_def)
  then obtain s' where s': "parseAddBLEntryCmd demo_web ''addBLEntry'' demo_net_body (?s, ?r) = Ret (s', \<lparr>resp_code = 200, resp_body = status_ok\<rparr>) ()"
    and d: "\<And>s1 body' command' resp'. allow_request demo_web body' s' demo_tuple s1 \<Longrightarrow>
           \<exists>s2 d. parseAllowCmd demo_web command' body' (s', resp') = (s2, \<lparr>resp_code = 200, resp_body = js_dump (we_json demo_web) (decision_json d)\<rparr>)
              \<and> dec_status d = - 1"
    by (elim exE conjE) simp
  show ?thesis using s' d[OF demo_allow_request, of "''allow''" ?r] net(2) by metis
qed

end
