(* ===== verification/Web_Siblings.thy ===== *)
theory Web_Siblings
  imports Web_State
begin

text \<open>
  The commands that change the siblings and the state of readiness (\<^verbatim>\<open>wforce/wforce-web.cc\<close>): \<^verbatim>\<open>addSibling\<close>,
  \<^verbatim>\<open>removeSibling\<close>, \<^verbatim>\<open>setSiblings\<close>, \<^verbatim>\<open>ping\<close>, \<^verbatim>\<open>readyz\<close> and \<^verbatim>\<open>syncDone\<close>. The handlers catch the exceptions of the program's own class;
  any other exception leaves the handler, which then returns \<open>Exn\<close>.
\<close>

section \<open>Siblings\<close>

fun program_exn :: "exn \<Rightarrow> string option" where
  "program_exn (Wforce_Exception r) = Some r"
| "program_exn (Netmask_Exception r) = Some r"
| "program_exn _ = None"

definition json_protocol :: "Json \<Rightarrow> exn + Protocol" where
  "json_protocol j =
     (case (if is_null j then Inr UDP else stringToProtocol (string_value j)) of
        Inl e \<Rightarrow> Inl e
      | Inr NONE \<Rightarrow> Inl (Wforce_Exception (''Invalid sibling_protocol: '' @ string_value j))
      | Inr p \<Rightarrow> Inr p)"

text \<open>A change of the vector of siblings: a refusal is thrown as an exception with its text.\<close>

definition change_siblings ::
    "(Sibling list \<Rightarrow> (Sibling list, bool \<times> string) outcome) \<Rightarrow> wforce \<Rightarrow> (wforce, unit) outcome" where
  "change_siblings f s =
     (let put = (\<lambda>v. s\<lparr>g_replication := (g_replication s)\<lparr>d_siblings := v\<rparr>\<rparr>)
      in obind (map_state put (f (d_siblings (g_replication s))))
           (\<lambda>s1 (ok, error_msg). if ok then Ret s1 () else Exn (Wforce_Exception error_msg) s1))"

definition try_add_sibling :: "web_env \<Rightarrow> Json \<Rightarrow> wforce \<Rightarrow> (wforce, unit) outcome" where
  "try_add_sibling V msg s =
     (if is_null (js_get msg ''sibling_host'') \<or> is_null (js_get msg ''sibling_port'')
      then Exn (Wforce_Exception ''One of mandatory parameters [sibling_host, sibling_port] is missing'') s
      else case json_protocol (js_get msg ''sibling_protocol'') of
             Inl e \<Rightarrow> Exn e s
           | Inr p \<Rightarrow>
               (let host = string_value (js_get msg ''sibling_host''); port = int_value (we_json V) (js_get msg ''sibling_port'')
                in if is_null (js_get msg ''encryption_key'')
                   then change_siblings (addSibling_host (we_sib V) (we_net V) host port p True True) s
                   else change_siblings
                          (addSiblingWithKey_host (we_sib V) (we_net V) host port p (string_value (js_get msg ''encryption_key'')) True True) s))"

definition try_remove_sibling :: "web_env \<Rightarrow> Json \<Rightarrow> wforce \<Rightarrow> (wforce, unit) outcome" where
  "try_remove_sibling V msg s =
     (if is_null (js_get msg ''sibling_host'') \<or> is_null (js_get msg ''sibling_port'')
      then Exn (Wforce_Exception ''One of mandatory parameters [sibling_host, sibling_port] is missing'') s
      else change_siblings
             (removeSibling_host (we_sib V) (we_net V) (string_value (js_get msg ''sibling_host''))
                (int_value (we_json V) (js_get msg ''sibling_port''))) s)"

text \<open>The address and key of an element of the request; without a key it is the encoded default key.\<close>

definition json_sibling :: "web_env \<Rightarrow> Json \<Rightarrow> wforce \<Rightarrow> Json \<Rightarrow> exn + string list" where
  "json_sibling V msg s i =
     (if is_null (js_get i ''sibling_host'') \<or> is_null (js_get i ''sibling_port'')
      then Inl (Wforce_Exception ''Mandatory parameter(s) [sibling_host, sibling_port] are missing'')
      else
        (let key = (if is_null (js_get i ''encryption_key'') then Base64Encode (d_default_key (g_replication s))
                    else string_value (js_get i ''encryption_key''))
         in case (if is_null (js_get i ''sibling_protocol'') then Inr UDP else stringToProtocol (string_value (js_get i ''sibling_protocol''))) of
              Inl e \<Rightarrow> Inl e
            | Inr NONE \<Rightarrow> Inl (Wforce_Exception (''Invalid sibling_protocol: '' @ string_value (js_get msg ''sibling_protocol'')))
            | Inr p \<Rightarrow>
                (case createSiblingAddress (we_net V) (string_value (js_get i ''sibling_host'')) (int_value (we_json V) (js_get i ''sibling_port'')) p of
                   Inl e \<Rightarrow> Inl e
                 | Inr address \<Rightarrow> Inr [address, key])))"

fun json_siblings :: "web_env \<Rightarrow> Json \<Rightarrow> wforce \<Rightarrow> Json list \<Rightarrow> exn + string list list" where
  "json_siblings V msg s [] = Inr []"
| "json_siblings V msg s (i # is) =
     (case json_sibling V msg s i of
        Inl e \<Rightarrow> Inl e
      | Inr p \<Rightarrow> (case json_siblings V msg s is of Inl e \<Rightarrow> Inl e | Inr ps \<Rightarrow> Inr (p # ps)))"

definition try_set_siblings :: "web_env \<Rightarrow> Json \<Rightarrow> wforce \<Rightarrow> (wforce, unit) outcome" where
  "try_set_siblings V msg s =
     (if is_null (js_get msg ''siblings'') \<or> \<not> is_array (js_get msg ''siblings'')
      then Exn (Wforce_Exception ''Mandatory parameter [siblings] is missing or is not an array'') s
      else case json_siblings V msg s (array_items (js_get msg ''siblings'')) of
             Inl e \<Rightarrow> Exn e s
           | Inr parts \<Rightarrow> change_siblings (setSiblingsWithKey (we_sib V) (we_net V) parts) s)"

text \<open>The frame that the three commands share.\<close>

definition sibling_cmd ::
    "string \<Rightarrow> (Json \<Rightarrow> wforce \<Rightarrow> (wforce, unit) outcome) \<Rightarrow> web_env \<Rightarrow> string \<Rightarrow> string \<Rightarrow> wforce \<times> HttpResponse
     \<Rightarrow> (wforce \<times> HttpResponse, unit) outcome" where
  "sibling_cmd name act V command body sr =
     (case sr of (s, resp) \<Rightarrow>
        (case js_parse_c (we_json V) body of
           (msg, err) \<Rightarrow>
             (if is_null msg then Ret (incCommandStat name s, setErrorCodeAndReason V 400 err resp) ()
              else case act msg s of
                     Ret s1 _ \<Rightarrow> Ret (incCommandStat name s1, \<lparr>resp_code = 200, resp_body = status_ok\<rparr>) ()
                   | Exn e s1 \<Rightarrow>
                       (case program_exn e of
                          None \<Rightarrow> Exn e (s1, resp\<lparr>resp_code := 200\<rparr>)
                        | Some reason \<Rightarrow>
                            Ret (incCommandStat name (log_line Error (''Exception in command ['' @ command @ ''] exception: '' @ reason) s1),
                                 setErrorCodeAndReason V 500 reason resp) ())
                   | Undef \<Rightarrow> Undef)))"

definition parseAddSiblingCmd where "parseAddSiblingCmd V = sibling_cmd ''addSibling'' (try_add_sibling V) V"
definition parseRemoveSiblingCmd where "parseRemoveSiblingCmd V = sibling_cmd ''removeSibling'' (try_remove_sibling V) V"
definition parseSetSiblingsCmd where "parseSetSiblingsCmd V = sibling_cmd ''setSiblings'' (try_set_siblings V) V"

section \<open>Readiness\<close>

definition parsePingCmd :: "string \<Rightarrow> wforce \<times> HttpResponse \<Rightarrow> wforce \<times> HttpResponse" where
  "parsePingCmd command sr =
     (case sr of (s, resp) \<Rightarrow>
        (incCommandStat ''ping'' s,
         \<lparr>resp_code = 200, resp_body = (if g_ping_up s then status_ok else ''{'' @ quoted ''status'' @ '':'' @ quoted ''warmup'' @ ''}'')\<rparr>))"

definition parseReadyzCmd :: "string \<Rightarrow> wforce \<times> HttpResponse \<Rightarrow> wforce \<times> HttpResponse" where
  "parseReadyzCmd command sr =
     (case sr of (s, resp) \<Rightarrow> (incCommandStat ''readyz'' s, resp\<lparr>resp_code := (if g_ping_up s then 200 else 503)\<rparr>))"

definition parseSyncDoneCmd :: "string \<Rightarrow> wforce \<times> HttpResponse \<Rightarrow> wforce \<times> HttpResponse" where
  "parseSyncDoneCmd command sr =
     (case sr of (s, resp) \<Rightarrow> (incCommandStat ''syncDone'' (s\<lparr>g_ping_up := True\<rparr>), \<lparr>resp_code = 200, resp_body = status_ok\<rparr>))"

section \<open>What a command does to the vector of siblings\<close>

text \<open>
  The contract of an operation on the vector: it keeps the addresses distinct, and it leaves the vector as it was
  when it refuses or throws.
\<close>

locale vector_op =
  fixes f :: "Sibling list \<Rightarrow> (Sibling list, bool \<times> string) outcome"
  assumes op_ret: "f v = Ret v' (ok, out) \<Longrightarrow> distinct_rems v \<Longrightarrow> distinct_rems v' \<and> (\<not> ok \<longrightarrow> v' = v)"
    and op_exn: "f v = Exn e v' \<Longrightarrow> v' = v"
begin

lemma change_ret:
  "change_siblings f s = Ret s' u \<Longrightarrow> distinct_rems (d_siblings (g_replication s)) \<Longrightarrow> distinct_rems (d_siblings (g_replication s'))"
  by (cases "f (d_siblings (g_replication s))") (auto simp: change_siblings_def Let_def dest: op_ret split: if_splits prod.splits)

lemma change_exn:
  "change_siblings f s = Exn e s' \<Longrightarrow> distinct_rems (d_siblings (g_replication s)) \<Longrightarrow> s' = s"
  by (cases "f (d_siblings (g_replication s))")
    (auto simp: change_siblings_def Let_def dest: op_ret op_exn split: if_splits prod.splits)

end

lemma addSiblingWithKey_exn: "addSiblingWithKey S N address key a b v = Exn e v' \<Longrightarrow> v' = v"
  by (auto simp: addSiblingWithKey_def split: outcome.splits sum.splits if_splits prod.splits)

lemma addSiblingWithKey_op:
  "addSiblingWithKey S N address key a b v = Ret v' (ok, out) \<Longrightarrow> distinct_rems v \<Longrightarrow> distinct_rems v' \<and> (\<not> ok \<longrightarrow> v' = v)"
  using addSiblingWithKey_spec[of S N address key a b v v' ok out] by (cases ok) (auto simp: distinct_rems_def)

interpretation op_add_key: vector_op "addSiblingWithKey_host S N host port p key a b"
  by unfold_locales
    (auto simp: addSiblingWithKey_host_def dest: addSiblingWithKey_exn addSiblingWithKey_op split: sum.splits)

interpretation op_add: vector_op "addSibling_host S N host port p a b"
  by unfold_locales
    (auto simp: addSibling_host_def addSibling_def dest: addSiblingWithKey_exn addSiblingWithKey_op split: sum.splits)

lemma remove_first_none: "remove_first ca v = (v', False) \<Longrightarrow> v' = v"
  by (induction v arbitrary: v') (auto split: if_splits prod.splits)

lemma remove_first_distinct: "remove_first ca v = (v', r) \<Longrightarrow> distinct_rems v \<Longrightarrow> distinct_rems v'"
  using remove_first_spec[of ca v v' r] by (auto simp: distinct_rems_def)

interpretation op_remove: vector_op "removeSibling_host S N host port"
  by unfold_locales
    (auto simp: removeSibling_host_def removeSibling_def dest: remove_first_none remove_first_distinct split: sum.splits prod.splits)

interpretation op_set: vector_op "setSiblingsWithKey S N parts"
proof unfold_locales
  show "setSiblingsWithKey S N parts v = Ret v' (ok, out) \<Longrightarrow> distinct_rems v \<Longrightarrow> distinct_rems v' \<and> (\<not> ok \<longrightarrow> v' = v)" for v v' ok out
    using build_siblings_spec[of S N parts "[]" v']
    by (auto simp: setSiblingsWithKey_def distinct_rems_def split: outcome.splits option.splits sum.splits)
  show "setSiblingsWithKey S N parts v = Exn e v' \<Longrightarrow> v' = v" for v e v'
    by (auto simp: setSiblingsWithKey_def split: outcome.splits option.splits sum.splits)
qed

text \<open>The three attempts inherit the contract.\<close>

definition good_try :: "(Json \<Rightarrow> wforce \<Rightarrow> (wforce, unit) outcome) \<Rightarrow> bool" where
  "good_try act \<longleftrightarrow>
     (\<forall>msg s. distinct_rems (d_siblings (g_replication s)) \<longrightarrow>
        (\<forall>s' u. act msg s = Ret s' u \<longrightarrow> distinct_rems (d_siblings (g_replication s'))) \<and> (\<forall>e s'. act msg s = Exn e s' \<longrightarrow> s' = s))"

lemma good_tries: "good_try (try_add_sibling V)" "good_try (try_remove_sibling V)" "good_try (try_set_siblings V)"
  by (auto simp: good_try_def try_add_sibling_def try_remove_sibling_def try_set_siblings_def Let_def
      dest: op_add.change_ret op_add.change_exn op_add_key.change_ret op_add_key.change_exn op_remove.change_ret op_remove.change_exn
        op_set.change_ret op_set.change_exn split: if_splits sum.splits)

lemma sibling_cmd_spec:
  assumes act: "good_try act" and d: "distinct_rems (d_siblings (g_replication s))"
    and fin: "final_state (sibling_cmd name act V command body (s, resp)) = Some (s', resp')"
  shows "distinct_rems (d_siblings (g_replication s'))
    \<and> (d_siblings (g_replication s') \<noteq> d_siblings (g_replication s) \<longrightarrow> resp' = \<lparr>resp_code = 200, resp_body = status_ok\<rparr>)"
proof -
  obtain msg err where p: "js_parse_c (we_json V) body = (msg, err)" by fastforce
  have keep: "g_replication (incCommandStat n t) = g_replication t" "g_replication (log_line l x t) = g_replication t" for n l x t
    by (simp_all add: incCommandStat_def log_line_def)
  have ret: "distinct_rems (d_siblings (g_replication t))" if "act msg s = Ret t u" for t u
    using act d that unfolding good_try_def by blast
  have exn: "t = s" if "act msg s = Exn e t" for e t
    using act d that unfolding good_try_def by blast
  show ?thesis
  proof (cases "act msg s")
    case (Ret t u)
    then show ?thesis using fin p d ret[OF Ret] by (auto simp: sibling_cmd_def keep split: if_splits)
  next
    case (Exn e t)
    then show ?thesis using fin p d exn[OF Exn] by (auto simp: sibling_cmd_def keep split: if_splits option.splits)
  next
    case Undef
    then show ?thesis using fin p d by (auto simp: sibling_cmd_def keep split: if_splits)
  qed
qed

text \<open>
  C24. The commands on siblings are all or nothing: whatever the request, the addresses and ports of the siblings stay distinct, and
  the vector has changed only if the answer is a success; a command that is refused, or that ends in an exception, leaves
  it as it was.
\<close>

theorem sibling_commands_all_or_nothing:
  assumes d: "distinct_rems (d_siblings (g_replication s))" and cmd: "cmd \<in> {parseAddSiblingCmd, parseRemoveSiblingCmd, parseSetSiblingsCmd}"
    and fin: "final_state (cmd V command body (s, resp)) = Some (s', resp')"
  shows "distinct_rems (d_siblings (g_replication s'))
    \<and> (d_siblings (g_replication s') \<noteq> d_siblings (g_replication s) \<longrightarrow> resp' = \<lparr>resp_code = 200, resp_body = status_ok\<rparr>)"
  using cmd fin sibling_cmd_spec[OF good_tries(1) d] sibling_cmd_spec[OF good_tries(2) d] sibling_cmd_spec[OF good_tries(3) d]
  by (auto simp: parseAddSiblingCmd_def parseRemoveSiblingCmd_def parseSetSiblingsCmd_def)

text \<open>The witness clears the vector: a request with an empty array of siblings.\<close>

definition demo_sib_body :: string where
  "demo_sib_body = js_dump demo_float (js_object [(''siblings'', JArray [])])"

lemma demo_sib_request: "js_parse_c (we_json demo_web) demo_sib_body = (reread demo_float (js_object [(''siblings'', JArray [])]), [])"
  using scalar_request[of demo_float "[(''siblings'', JArray [])]"] demo_float_ok
  by (simp add: demo_web_def demo_sib_body_def float_ok_def max_depth_def)

theorem sibling_commands_all_or_nothing_witness:
  "\<exists>s' resp'. final_state (parseSetSiblingsCmd demo_web ''setSiblings'' demo_sib_body (demo_state0, \<lparr>resp_code = 200, resp_body = []\<rparr>)) = Some (s', resp')
     \<and> d_siblings (g_replication s') = [] \<and> d_siblings (g_replication demo_state0) \<noteq> [] \<and> resp_body resp' = status_ok"
proof -
  let ?r = "parseSetSiblingsCmd demo_web ''setSiblings'' demo_sib_body (demo_state0, \<lparr>resp_code = 200, resp_body = []\<rparr>)"
  have sib: "d_siblings (g_replication demo_state0) = [demo_sibling]"
    by (simp add: demo_state0_def demo_repl_def)
  obtain s' resp' where f: "final_state ?r = Some (s', resp')" and v: "d_siblings (g_replication s') = []"
    by (simp add: parseSetSiblingsCmd_def sibling_cmd_def try_set_siblings_def change_siblings_def setSiblingsWithKey_def demo_sib_request
        js_get_object incCommandStat_def)
  from sibling_commands_all_or_nothing[of demo_state0 parseSetSiblingsCmd demo_web, OF _ _ f] have "resp' = \<lparr>resp_code = 200, resp_body = status_ok\<rparr>"
    using sib v by (simp add: distinct_rems_def)
  with f v sib show ?thesis by auto
qed

end
