(* ===== verification/Machine.thy ===== *)
theory Machine
  imports Wf_Prelude
begin

text \<open>
  Labelled step relations for the parts of the program whose threads interleave: the reachable states, and the rule that
  an invariant of the steps holds in all of them.
\<close>

inductive reach :: "('s \<Rightarrow> bool) \<Rightarrow> ('s \<Rightarrow> 'l \<Rightarrow> 's \<Rightarrow> bool) \<Rightarrow> 's \<Rightarrow> bool" for init and step where
  start: "init s \<Longrightarrow> reach init step s"
| move: "reach init step s \<Longrightarrow> step s l s' \<Longrightarrow> reach init step s'"

lemma reach_invariant:
  assumes "reach init step s" "\<And>s. init s \<Longrightarrow> I s" "\<And>s l s'. I s \<Longrightarrow> step s l s' \<Longrightarrow> I s'"
  shows "I s"
  using assms by (induction rule: reach.induct) blast+

end
