(* ===== verification/State_Holder.thy ===== *)
theory State_Holder
  imports Machine "HOL-Library.Word"
begin

text \<open>
  The holders of configuration that many threads read and few change (\<^verbatim>\<open>common/sholder.hh\<close>): the access control list of the
  web server and the vectors of siblings and sinks. A reader keeps a copy with the generation it was made from and
  compares that with the global generation, without a lock, before it uses the copy.
\<close>

section \<open>The classes\<close>

record 'a GlobalStateHolder =
  gh_state :: 'a
  gh_generation :: "32 word"

record 'a LocalStateHolder =
  lh_state :: "'a option"
  lh_generation :: "32 word"

definition new_GlobalStateHolder :: "'a \<Rightarrow> 'a GlobalStateHolder" where
  "new_GlobalStateHolder x = \<lparr>gh_state = x, gh_generation = 1\<rparr>"

definition getLocal :: "'a GlobalStateHolder \<Rightarrow> 'a LocalStateHolder" where
  "getLocal g = \<lparr>lh_state = None, lh_generation = 0\<rparr>"

text \<open>The two assignments of an update, which its lock encloses.\<close>

definition store :: "'a \<Rightarrow> 'a GlobalStateHolder \<Rightarrow> 'a GlobalStateHolder" where
  "store x g = g\<lparr>gh_state := x\<rparr>"

definition bump_generation :: "'a GlobalStateHolder \<Rightarrow> 'a GlobalStateHolder" where
  "bump_generation g = g\<lparr>gh_generation := gh_generation g + 1\<rparr>"

definition setState :: "'a \<Rightarrow> 'a GlobalStateHolder \<Rightarrow> 'a GlobalStateHolder" where
  "setState x g = bump_generation (store x g)"

definition getCopy :: "'a GlobalStateHolder \<Rightarrow> 'a" where
  "getCopy g = gh_state g"

definition modify :: "('a \<Rightarrow> 'a) \<Rightarrow> 'a GlobalStateHolder \<Rightarrow> 'a GlobalStateHolder" where
  "modify act g = bump_generation (store (act (gh_state g)) g)"

definition getState :: "'a GlobalStateHolder \<Rightarrow> 'a LocalStateHolder" where
  "getState g = \<lparr>lh_state = Some (gh_state g), lh_generation = gh_generation g\<rparr>"

definition lh_reset :: "'a LocalStateHolder \<Rightarrow> 'a LocalStateHolder" where
  "lh_reset l = l\<lparr>lh_generation := 0, lh_state := None\<rparr>"

text \<open>An access with nobody else at work; a null pointer is dereferenced when there is no copy.\<close>

definition access :: "'a GlobalStateHolder \<Rightarrow> 'a LocalStateHolder \<Rightarrow> ('a LocalStateHolder, 'a) outcome" where
  "access g l =
     (let l' = (if gh_generation g \<noteq> lh_generation l then getState g else l)
      in case lh_state l' of None \<Rightarrow> Undef | Some v \<Rightarrow> Ret l' v)"

section \<open>Readers and writers at the same time\<close>

text \<open>
  A state of the system: the global holder, the local holders by number, the readers that have found their copy to be
  old and now wait for the lock, and whether a writer that holds the lock has stored the new value and not yet counted
  it. Two further fields record what happened: the value of the last update that was finished, and the number of updates.
\<close>

record 'a hsys =
  hs_global :: "'a GlobalStateHolder"
  hs_locals :: "nat \<Rightarrow> 'a LocalStateHolder"
  hs_misses :: "nat set"
  hs_stored :: bool
  hs_published :: 'a
  hs_updates :: nat

datatype 'a hlabel = Store 'a | Bump | Hit nat 'a | Null nat | Miss nat | Fetch nat 'a | Reset nat

inductive holder_step :: "'a hsys \<Rightarrow> 'a hlabel \<Rightarrow> 'a hsys \<Rightarrow> bool" where
  writer_stores: "\<not> hs_stored s \<Longrightarrow> holder_step s (Store x) (s\<lparr>hs_global := store x (hs_global s), hs_stored := True\<rparr>)"
| writer_bumps: "hs_stored s \<Longrightarrow>
    holder_step s Bump (s\<lparr>hs_global := bump_generation (hs_global s), hs_stored := False,
      hs_published := gh_state (hs_global s), hs_updates := Suc (hs_updates s)\<rparr>)"
| reader_hits: "r \<notin> hs_misses s \<Longrightarrow> gh_generation (hs_global s) = lh_generation (hs_locals s r) \<Longrightarrow> lh_state (hs_locals s r) = Some v \<Longrightarrow>
    holder_step s (Hit r v) s"
| reader_null: "r \<notin> hs_misses s \<Longrightarrow> gh_generation (hs_global s) = lh_generation (hs_locals s r) \<Longrightarrow> lh_state (hs_locals s r) = None \<Longrightarrow>
    holder_step s (Null r) s"
| reader_misses: "r \<notin> hs_misses s \<Longrightarrow> gh_generation (hs_global s) \<noteq> lh_generation (hs_locals s r) \<Longrightarrow>
    holder_step s (Miss r) (s\<lparr>hs_misses := insert r (hs_misses s)\<rparr>)"
| reader_fetches: "r \<in> hs_misses s \<Longrightarrow> \<not> hs_stored s \<Longrightarrow>
    holder_step s (Fetch r (gh_state (hs_global s)))
      (s\<lparr>hs_locals := (hs_locals s)(r := getState (hs_global s)), hs_misses := hs_misses s - {r}\<rparr>)"
| reader_resets: "r \<notin> hs_misses s \<Longrightarrow>
    holder_step s (Reset r) (s\<lparr>hs_locals := (hs_locals s)(r := lh_reset (hs_locals s r))\<rparr>)"

inductive_cases step_hit: "holder_step s (Hit r v) s'"
inductive_cases step_null: "holder_step s (Null r) s'"
inductive_cases step_fetch: "holder_step s (Fetch r v) s'"

definition holder_init :: "'a \<Rightarrow> 'a hsys \<Rightarrow> bool" where
  "holder_init x s \<longleftrightarrow>
     s = \<lparr>hs_global = new_GlobalStateHolder x, hs_locals = (\<lambda>_. getLocal (new_GlobalStateHolder x)), hs_misses = {},
          hs_stored = False, hs_published = x, hs_updates = 0\<rparr>"

text \<open>The copy of a reader was made at some generation; if that is the latest one, the copy is the published value.\<close>

definition holder_inv :: "'a hsys \<Rightarrow> bool" where
  "holder_inv s \<longleftrightarrow>
     (\<not> hs_stored s \<longrightarrow> gh_state (hs_global s) = hs_published s)
     \<and> gh_generation (hs_global s) = word_of_nat (Suc (hs_updates s))
     \<and> (\<forall>r. \<exists>k \<le> Suc (hs_updates s). lh_generation (hs_locals s r) = word_of_nat k
            \<and> (k = Suc (hs_updates s) \<longrightarrow> lh_state (hs_locals s r) = Some (hs_published s)))"

lemma holder_inv_init: "holder_init x s \<Longrightarrow> holder_inv s"
  by (auto simp: holder_init_def holder_inv_def new_GlobalStateHolder_def getLocal_def)

lemma holder_inv_step:
  assumes "holder_inv s" "holder_step s l s'" shows "holder_inv s'"
  using assms(2,1)
proof (induction rule: holder_step.induct)
  case (writer_bumps s)
  have "\<exists>k \<le> Suc (Suc (hs_updates s)). lh_generation (hs_locals s r) = word_of_nat k \<and> k \<noteq> Suc (Suc (hs_updates s))" for r
    using writer_bumps.prems unfolding holder_inv_def by (metis Suc_n_not_le_n le_SucI)
  then have "\<forall>r. \<exists>k \<le> Suc (Suc (hs_updates s)). lh_generation (hs_locals s r) = word_of_nat k
      \<and> (k = Suc (Suc (hs_updates s)) \<longrightarrow> lh_state (hs_locals s r) = Some (gh_state (hs_global s)))"
    by blast
  then show ?case using writer_bumps.prems by (simp add: holder_inv_def bump_generation_def add.commute)
next
  case (reader_fetches r s)
  then show ?case unfolding holder_inv_def getState_def by (auto intro: exI[of _ "Suc (hs_updates s)"])
next
  case (reader_resets r s)
  then show ?case unfolding holder_inv_def lh_reset_def by (auto intro: exI[of _ 0])
qed (auto simp: holder_inv_def store_def)

lemma holder_reach_inv: "reach (holder_init x) holder_step s \<Longrightarrow> holder_inv s"
  by (erule reach_invariant) (auto intro: holder_inv_init holder_inv_step)

lemma generation_fits:
  "k \<le> Suc n \<Longrightarrow> Suc n < 2 ^ 32 \<Longrightarrow> (word_of_nat (Suc n) :: 32 word) = word_of_nat k \<Longrightarrow> k = Suc n"
proof -
  assume a: "k \<le> Suc n" "Suc n < 2 ^ 32" "(word_of_nat (Suc n) :: 32 word) = word_of_nat k"
  have "unat (word_of_nat (Suc n) :: 32 word) = Suc n" "unat (word_of_nat k :: 32 word) = k"
    using a(1,2) by (simp_all only: unat_of_nat) (simp_all add: mod_less)
  then show ?thesis using a(3) by metis
qed

text \<open>
  C34. A reader of a shared configuration never works with an old one: as long as fewer than 2^32 - 1 updates were made,
  however readers and writers interleave, the value an access returns is the one that the last finished update has
  published at the moment the access compares the generations or fetches the state, and no access finds a null pointer.
\<close>

theorem holder_reads_published:
  assumes "reach (holder_init x) holder_step s" "hs_updates s < 2 ^ 32 - 1" "holder_step s l s'"
  shows "case l of Hit r v \<Rightarrow> v = hs_published s | Fetch r v \<Rightarrow> v = hs_published s | Null r \<Rightarrow> False | _ \<Rightarrow> True"
proof -
  note inv = holder_reach_inv[OF assms(1), unfolded holder_inv_def]
  have "lh_state (hs_locals s r) = Some (hs_published s)" if "gh_generation (hs_global s) = lh_generation (hs_locals s r)" for r
    using inv that assms(2) generation_fits[of _ "hs_updates s"] by (metis Suc_less_eq add_diff_inverse_nat less_diff_conv plus_1_eq_Suc add.commute)
  then show ?thesis using assms(3) inv by (auto elim!: holder_step.cases)
qed

text \<open>One update and one read by a reader that has never read before.\<close>

theorem holder_reads_published_witness:
  "\<exists>s s'. reach (holder_init False) holder_step s \<and> hs_updates s = 1 \<and> holder_step s (Fetch 0 True) s' \<and> hs_published s = True"
proof -
  let ?g = "new_GlobalStateHolder False"
  let ?s0 = "\<lparr>hs_global = ?g, hs_locals = (\<lambda>_. getLocal ?g), hs_misses = {}, hs_stored = False, hs_published = False, hs_updates = 0\<rparr>"
  let ?s1 = "?s0\<lparr>hs_global := store True (hs_global ?s0), hs_stored := True\<rparr>"
  let ?s2 = "?s1\<lparr>hs_global := bump_generation (hs_global ?s1), hs_stored := False, hs_published := gh_state (hs_global ?s1),
    hs_updates := Suc (hs_updates ?s1)\<rparr>"
  let ?s3 = "?s2\<lparr>hs_misses := insert 0 (hs_misses ?s2)\<rparr>"
  have "reach (holder_init False) holder_step ?s0" by (rule reach.start) (simp add: holder_init_def)
  then have "reach (holder_init False) holder_step ?s1" by (rule reach.move) (rule holder_step.writer_stores, simp)
  then have "reach (holder_init False) holder_step ?s2" by (rule reach.move) (rule holder_step.writer_bumps, simp)
  then have r3: "reach (holder_init False) holder_step ?s3"
    by (rule reach.move) (rule holder_step.reader_misses, simp_all add: store_def bump_generation_def new_GlobalStateHolder_def getLocal_def)
  have st: "holder_step ?s3 (Fetch 0 (gh_state (hs_global ?s3)))
      (?s3\<lparr>hs_locals := (hs_locals ?s3)(0 := getState (hs_global ?s3)), hs_misses := hs_misses ?s3 - {0}\<rparr>)"
    by (rule holder_step.reader_fetches) simp_all
  have v: "gh_state (hs_global ?s3) = True" by (simp add: store_def bump_generation_def)
  have u: "hs_updates ?s3 = 1" by simp
  from holder_reads_published[OF r3 _ st] have p: "gh_state (hs_global ?s3) = hs_published ?s3" by simp
  show ?thesis
    by (rule exI[of _ ?s3], rule exI, intro conjI, rule r3, rule u, rule st[unfolded v]) (use p v in simp)
qed

text \<open>The generation wraps to 0 after 2^32 - 1 updates; a reader that has not yet read then dereferences a null pointer.\<close>

lemma wrapped_generation_is_null: "gh_generation g = 0 \<Longrightarrow> access g (getLocal g) = Undef"
  by (simp add: access_def getLocal_def)

end
