(* ===== verification/Lua_Pool.thy ===== *)
theory Lua_Pool
  imports Machine Login_Tuple "HOL-Library.Multiset"
begin

text \<open>
  The pool of Lua states (\<^verbatim>\<open>wforce/luastate.hh\<close>): a worker thread takes a state out of the pool for the time of one call of a Lua
  function. The states are shared pointers, here numbers, and \<open>ctxs\<close> gives the functions of a state. A Lua function returns
  its result or an exception of type \<open>'e\<close>; a custom function can change the daemon, whose state has type \<open>'s\<close>.
\<close>

section \<open>The classes\<close>

record CustomFuncArgs =
  cfa_attrs :: "(string \<times> string) list"
  cfa_attrs_mv :: "(string \<times> string list) list"

definition cfa_setAttrs :: "Json \<Rightarrow> CustomFuncArgs" where
  "cfa_setAttrs msg =
     (let lt = setLtAttrs msg (new_LoginTuple 0) in \<lparr>cfa_attrs = lt_attrs lt, cfa_attrs_mv = lt_attrs_mv lt\<rparr>)"

definition cfa_to_json :: "CustomFuncArgs \<Rightarrow> Json" where
  "cfa_to_json cfa =
     js_object [(''attrs'', JObject (fold (\<lambda>(k, v). sm_insert k (JString v)) (cfa_attrs cfa)
                              (fold (\<lambda>(k, v). sm_insert k (JArray (map JString v))) (cfa_attrs_mv cfa) [])))]"

definition cfa_serialize :: "json_lib \<Rightarrow> CustomFuncArgs \<Rightarrow> string" where
  "cfa_serialize J cfa = js_dump J (cfa_to_json cfa)"

type_synonym CustomFuncReturn = "bool \<times> (string \<times> string) list"

record ('s, 'e) CustomFuncMapObject =
  c_func :: "CustomFuncArgs \<Rightarrow> 's \<Rightarrow> 's \<times> ('e + CustomFuncReturn)"
  c_reportSink :: bool

record ('a, 's, 'e) LuaThreadContext =
  allow_func :: "LoginTuple \<Rightarrow> 'e + 'a"
  report_func :: "LoginTuple \<Rightarrow> 'e + unit"
  reset_func :: "string \<Rightarrow> string \<Rightarrow> ComboAddress \<Rightarrow> 'e + bool"
  canon_func :: "string \<Rightarrow> 'e + string"
  custom_func_map :: "(string \<times> ('s, 'e) CustomFuncMapObject) list"
  custom_get_func_map :: "(string \<times> ('s \<Rightarrow> 's \<times> ('e + string))) list"

record LuaMultiThread =
  lua_pool :: "nat list"
  lua_read_only :: "nat list"
  num_states :: "32 word"

definition new_LuaMultiThread :: "32 word \<Rightarrow> LuaMultiThread" where
  "new_LuaMultiThread nstates = (let pool = [0..<unat nstates] in \<lparr>lua_pool = pool, lua_read_only = pool, num_states = nstates\<rparr>)"

text \<open>The default constructor makes and drops a temporary pool of six states; the object itself has none.\<close>

definition default_LuaMultiThread :: LuaMultiThread where
  "default_LuaMultiThread = \<lparr>lua_pool = [], lua_read_only = [], num_states = 6\<rparr>"

definition getPoolMember :: "LuaMultiThread \<Rightarrow> (LuaMultiThread, nat) outcome" where
  "getPoolMember m = (if lua_pool m = [] then Undef else Ret (m\<lparr>lua_pool := butlast (lua_pool m)\<rparr>) (last (lua_pool m)))"

definition returnPoolMember :: "nat \<Rightarrow> LuaMultiThread \<Rightarrow> LuaMultiThread" where
  "returnPoolMember c m = m\<lparr>lua_pool := lua_pool m @ [c]\<rparr>"

text \<open>A call on a state of the pool; the destructor of the pool member returns it also after an exception.\<close>

definition with_member :: "(nat \<Rightarrow> 'r) \<Rightarrow> LuaMultiThread \<Rightarrow> (LuaMultiThread, 'r) outcome" where
  "with_member f m = obind (getPoolMember m) (\<lambda>m1 c. Ret (returnPoolMember c m1) (f c))"

definition mt_reset where
  "mt_reset ctxs ty login_value ca = with_member (\<lambda>c. reset_func (ctxs c) ty login_value ca)"

definition mt_allow where "mt_allow ctxs lt = with_member (\<lambda>c. allow_func (ctxs c) lt)"

definition mt_report where "mt_report ctxs lt = with_member (\<lambda>c. report_func (ctxs c) lt)"

definition mt_canonicalize where "mt_canonicalize ctxs login = with_member (\<lambda>c. canon_func (ctxs c) login)"

text \<open>The custom functions; the first component of the result is the output parameter \<^verbatim>\<open>reportSinkReturn\<close>.\<close>

definition mt_custom_func ::
    "(nat \<Rightarrow> ('a, 's, 'e, 'z) LuaThreadContext_scheme) \<Rightarrow> string \<Rightarrow> CustomFuncArgs \<Rightarrow> bool \<Rightarrow> 's \<Rightarrow> LuaMultiThread
     \<Rightarrow> (LuaMultiThread, bool \<times> 's \<times> ('e + CustomFuncReturn)) outcome" where
  "mt_custom_func ctxs command cfa reportSink s =
     with_member (\<lambda>c. case map_of (custom_func_map (ctxs c)) command of
                        Some f \<Rightarrow> (c_reportSink f, c_func f cfa s)
                      | None \<Rightarrow> (reportSink, s, Inr (False, [])))"

definition mt_custom_get_func ::
    "(nat \<Rightarrow> ('a, 's, 'e, 'z) LuaThreadContext_scheme) \<Rightarrow> string \<Rightarrow> 's \<Rightarrow> LuaMultiThread
     \<Rightarrow> (LuaMultiThread, 's \<times> ('e + string)) outcome" where
  "mt_custom_get_func ctxs command s =
     with_member (\<lambda>c. case map_of (custom_get_func_map (ctxs c)) command of Some f \<Rightarrow> f s | None \<Rightarrow> (s, Inr []))"

section \<open>Threads that share the pool\<close>

text \<open>
  The worker threads are the elements of \<open>T\<close>. Taking and returning a state hold the mutex of the pool; between them
  the thread runs its Lua function.
\<close>

record psys =
  ps_pool :: LuaMultiThread
  ps_held :: "nat \<Rightarrow> nat option"

datatype plabel = Take nat nat | Give nat | Crash nat

inductive pool_step :: "nat set \<Rightarrow> psys \<Rightarrow> plabel \<Rightarrow> psys \<Rightarrow> bool" for T where
  takes: "t \<in> T \<Longrightarrow> ps_held s t = None \<Longrightarrow> getPoolMember (ps_pool s) = Ret m c \<Longrightarrow>
    pool_step T s (Take t c) (s\<lparr>ps_pool := m, ps_held := (ps_held s)(t := Some c)\<rparr>)"
| crashes: "t \<in> T \<Longrightarrow> ps_held s t = None \<Longrightarrow> getPoolMember (ps_pool s) = Undef \<Longrightarrow> pool_step T s (Crash t) s"
| gives: "t \<in> T \<Longrightarrow> ps_held s t = Some c \<Longrightarrow>
    pool_step T s (Give t) (s\<lparr>ps_pool := returnPoolMember c (ps_pool s), ps_held := (ps_held s)(t := None)\<rparr>)"

inductive_cases crash_step: "pool_step T s (Crash t) s'"

definition pool_init :: "32 word \<Rightarrow> psys \<Rightarrow> bool" where
  "pool_init n s \<longleftrightarrow> s = \<lparr>ps_pool = new_LuaMultiThread n, ps_held = (\<lambda>_. None)\<rparr>"

text \<open>Every state is in the pool or with exactly one thread.\<close>

definition holders :: "nat set \<Rightarrow> psys \<Rightarrow> nat set" where
  "holders T s = {t \<in> T. ps_held s t \<noteq> None}"

definition pool_inv :: "nat set \<Rightarrow> 32 word \<Rightarrow> psys \<Rightarrow> bool" where
  "pool_inv T n s \<longleftrightarrow>
     {t. ps_held s t \<noteq> None} \<subseteq> T
     \<and> mset (lua_pool (ps_pool s)) + image_mset (\<lambda>t. the (ps_held s t)) (mset_set (holders T s)) = mset [0..<unat n]"

lemma pool_inv_init: "finite T \<Longrightarrow> pool_init n s \<Longrightarrow> pool_inv T n s"
  by (simp add: pool_init_def pool_inv_def holders_def new_LuaMultiThread_def Let_def)

lemma pool_inv_step:
  assumes "finite T" "pool_inv T n s" "pool_step T s l s'"
  shows "pool_inv T n s'"
  using assms(3,2)
proof (induction rule: pool_step.induct)
  case (takes t s m c)
  let ?s' = "s\<lparr>ps_pool := m, ps_held := (ps_held s)(t := Some c)\<rparr>"
  have ne: "lua_pool (ps_pool s) \<noteq> []" and m: "lua_pool m = butlast (lua_pool (ps_pool s))" and c: "c = last (lua_pool (ps_pool s))"
    using takes(3) by (auto simp: getPoolMember_def split: if_splits)
  have h: "holders T ?s' = insert t (holders T s)" "t \<notin> holders T s" "finite (holders T s)"
    using takes(1,2) assms(1) by (auto simp: holders_def)
  have "mset (lua_pool (ps_pool s)) = mset (lua_pool m) + {#c#}"
    unfolding m c using ne by (metis append_butlast_last_id mset.simps mset_append)
  moreover have "image_mset (\<lambda>t. the (ps_held ?s' t)) (mset_set (holders T s)) = image_mset (\<lambda>t. the (ps_held s t)) (mset_set (holders T s))"
    using h(2,3) by (intro image_mset_cong) auto
  ultimately show ?case using takes.prems takes(1) h by (auto simp: pool_inv_def)
next
  case (gives t s c)
  let ?s' = "s\<lparr>ps_pool := returnPoolMember c (ps_pool s), ps_held := (ps_held s)(t := None)\<rparr>"
  have h: "holders T s = insert t (holders T ?s')" "t \<notin> holders T ?s'" "finite (holders T ?s')"
    using gives(1,2) assms(1) by (auto simp: holders_def)
  have "image_mset (\<lambda>t. the (ps_held ?s' t)) (mset_set (holders T ?s')) = image_mset (\<lambda>t. the (ps_held s t)) (mset_set (holders T ?s'))"
    using h(2,3) by (intro image_mset_cong) auto
  then show ?case using gives.prems gives(2) h by (auto simp: pool_inv_def returnPoolMember_def)
qed

lemma pool_reach_inv: "finite T \<Longrightarrow> reach (pool_init n) (pool_step T) s \<Longrightarrow> pool_inv T n s"
  by (erule reach_invariant) (auto intro: pool_inv_init pool_inv_step)

lemma pool_inv_distinct:
  assumes "finite T" "pool_inv T n s" "ps_held s t = Some c" "ps_held s t' = Some c"
  shows "t = t'"
proof (rule ccontr)
  assume ne: "t \<noteq> t'"
  let ?h = "\<lambda>A. image_mset (\<lambda>t. the (ps_held s t)) (mset_set A)"
  have h: "t \<in> holders T s" "t' \<in> holders T s" "finite (holders T s)" using assms by (auto simp: pool_inv_def holders_def)
  have "?h (holders T s) = add_mset c (add_mset c (?h (holders T s - {t} - {t'})))"
    using h ne assms(3,4) by (simp add: mset_set.remove[of "holders T s" t] mset_set.remove[of "holders T s - {t}" t'])
  then have "mset [0..<unat n] = mset (lua_pool (ps_pool s)) + add_mset c (add_mset c (?h (holders T s - {t} - {t'})))"
    using assms(2) by (simp only: pool_inv_def)
  then have "2 \<le> count (mset [0..<unat n]) c" by simp
  then show False using distinct_count_atmost_1[of "[0..<unat n]"] by (auto split: if_splits)
qed

lemma pool_inv_size:
  assumes "pool_inv T n s" shows "length (lua_pool (ps_pool s)) + card (holders T s) = unat n"
proof -
  have "size (mset (lua_pool (ps_pool s)) + image_mset (\<lambda>t. the (ps_held s t)) (mset_set (holders T s))) = size (mset [0..<unat n])"
    using assms by (simp only: pool_inv_def)
  then show ?thesis by simp
qed

text \<open>Threads that take states one after the other empty the pool.\<close>

lemma pool_can_be_emptied:
  "distinct ts \<Longrightarrow> set ts \<subseteq> T \<Longrightarrow> length ts \<le> unat n \<Longrightarrow>
     \<exists>s. reach (pool_init n) (pool_step T) s \<and> lua_pool (ps_pool s) = [0..<unat n - length ts] \<and> (\<forall>t. ps_held s t = None \<longleftrightarrow> t \<notin> set ts)"
proof (induction ts)
  case Nil
  have "reach (pool_init n) (pool_step T) \<lparr>ps_pool = new_LuaMultiThread n, ps_held = (\<lambda>_. None)\<rparr>"
    by (rule reach.start) (simp add: pool_init_def)
  then show ?case by (rule_tac exI, intro conjI) (auto simp: new_LuaMultiThread_def Let_def)
next
  case (Cons t ts)
  then obtain s where s: "reach (pool_init n) (pool_step T) s" "lua_pool (ps_pool s) = [0..<unat n - length ts]"
      "\<forall>t. ps_held s t = None \<longleftrightarrow> t \<notin> set ts"
    by auto
  obtain k where k: "unat n - length ts = Suc k" "unat n - length (t # ts) = k" using Cons.prems(3) by (cases "unat n - length ts") auto
  let ?m = "(ps_pool s)\<lparr>lua_pool := [0..<k]\<rparr>"
  have "getPoolMember (ps_pool s) = Ret ?m k" using s(2) k(1) by (simp add: getPoolMember_def)
  then have "pool_step T s (Take t k) (s\<lparr>ps_pool := ?m, ps_held := (ps_held s)(t := Some k)\<rparr>)"
    using Cons.prems s(3) by (intro pool_step.takes) auto
  from reach.move[OF s(1) this] show ?case
    by (rule_tac exI, intro conjI, assumption) (use s(3) k(2) in \<open>auto split: if_splits\<close>)
qed

text \<open>
  C35. The pool of Lua states is safe exactly when there are enough of them: no two threads ever hold the same Lua state,
  and some interleaving takes a state from the empty pool, which is undefined, if and only if there are more worker
  threads than Lua states.
\<close>

theorem lua_pool_safe_iff_enough:
  assumes "finite T"
  shows "(\<forall>s t t' c. reach (pool_init n) (pool_step T) s \<and> ps_held s t = Some c \<and> ps_held s t' = Some c \<longrightarrow> t = t')
    \<and> ((\<exists>s t s'. reach (pool_init n) (pool_step T) s \<and> pool_step T s (Crash t) s') \<longleftrightarrow> unat n < card T)"
proof (intro conjI iffI)
  show "\<forall>s t t' c. reach (pool_init n) (pool_step T) s \<and> ps_held s t = Some c \<and> ps_held s t' = Some c \<longrightarrow> t = t'"
    using pool_inv_distinct[OF assms] pool_reach_inv[OF assms] by blast
next
  assume "\<exists>s t s'. reach (pool_init n) (pool_step T) s \<and> pool_step T s (Crash t) s'"
  then obtain s t s' where s: "reach (pool_init n) (pool_step T) s" "pool_step T s (Crash t) s'" by blast
  have t: "t \<in> T" "ps_held s t = None" "lua_pool (ps_pool s) = []"
    using s(2) by (auto elim!: crash_step simp: getPoolMember_def split: if_splits)
  have "card (holders T s) = unat n" using pool_inv_size[OF pool_reach_inv[OF assms s(1)]] t(3) by simp
  moreover have "holders T s \<subset> T" using t(1,2) unfolding holders_def by blast
  ultimately show "unat n < card T" using psubset_card_mono[OF assms] by metis
next
  assume "unat n < card T"
  obtain xs where xs: "set xs = T" "distinct xs" using finite_distinct_list[OF assms] by blast
  have len: "length xs > unat n" using \<open>unat n < card T\<close> xs by (simp add: distinct_card[symmetric])
  let ?ts = "take (unat n) xs" and ?t = "xs ! unat n"
  have "set ?ts \<subseteq> T" "?t \<in> T" using set_take_subset[of "unat n" xs] xs len by auto
  then obtain s where s: "reach (pool_init n) (pool_step T) s" "lua_pool (ps_pool s) = []" "\<forall>t. ps_held s t = None \<longleftrightarrow> t \<notin> set ?ts"
    using pool_can_be_emptied[of ?ts T n] xs(2) len by auto
  have "?t \<notin> set ?ts" using xs(2) len by (auto simp: in_set_conv_nth nth_eq_iff_index_eq)
  then have "pool_step T s (Crash ?t) s" using s(2,3) \<open>?t \<in> T\<close> by (intro pool_step.crashes) (auto simp: getPoolMember_def)
  then show "\<exists>s t s'. reach (pool_init n) (pool_step T) s \<and> pool_step T s (Crash t) s'" using s(1) by blast
qed

theorem lua_pool_safe_iff_enough_witness:
  "\<not> (\<exists>s t s'. reach (pool_init 6) (pool_step {0..<4}) s \<and> pool_step {0..<4} s (Crash t) s')"
  using lua_pool_safe_iff_enough[of "{0..<4}" 6] by simp

text \<open>A call by a single thread leaves the pool as it was; on a pool made by the default constructor it is undefined.\<close>

lemma with_member_keeps_pool: "lua_pool m \<noteq> [] \<Longrightarrow> with_member f m = Ret m (f (last (lua_pool m)))"
  by (simp add: with_member_def getPoolMember_def returnPoolMember_def)

lemma default_pool_is_empty: "with_member f default_LuaMultiThread = Undef"
  by (simp add: with_member_def getPoolMember_def default_LuaMultiThread_def)

end
