(* ===== verification/Sync.thy ===== *)
theory Sync
  imports Replication
begin

text \<open>
  Synchronisation of a daemon that starts with one that has been running (\<^verbatim>\<open>wforce.cc\<close>): the running daemon
  walks through its databases, writes every key as one replication operation over a TCP connection, and the
  starting daemon receives and applies them like any other operation. Results of socket calls and writes are
  parameters; the result of the two writes of packet \<open>i\<close> is \<open>V i\<close>.
\<close>

section \<open>The dump\<close>

record dump_sock =
  dk_nonce :: SodiumNonce
  dk_sent :: string
  dk_synced :: nat

definition sock_writen :: "write_result \<Rightarrow> string \<Rightarrow> dump_sock \<Rightarrow> (dump_sock, unit) outcome" where
  "sock_writen r bytes d =
     (if bytes = [] then Ret d ()
      else case r of
             Written \<Rightarrow> Ret (d\<lparr>dk_sent := dk_sent d @ bytes\<rparr>) ()
           | Write_Fails n \<Rightarrow> Exn Network_Error (d\<lparr>dk_sent := dk_sent d @ take n bytes\<rparr>))"

definition sync_op :: "string \<Rightarrow> string \<Rightarrow> dump_entry \<Rightarrow> ReplicationOperation" where
  "sync_op name key entry = new_ReplicationOperation (Some (SDB_Rep (sdb_op_entry name SDBOpSyncKey key entry))) SDBType"

definition dump_packet ::
    "secretbox \<Rightarrow> (nat \<Rightarrow> write_result \<times> write_result) \<Rightarrow> string \<Rightarrow> string \<Rightarrow> dump_sock \<Rightarrow> (dump_sock, unit) outcome" where
  "dump_packet B V encryption_key msg d =
     (case encryptMsgWithKey B msg encryption_key (dk_nonce d) of (n, packet) \<Rightarrow>
        obind (sock_writen (fst (V (dk_synced d))) (size_bytes packet) (d\<lparr>dk_nonce := n\<rparr>)) (\<lambda>d1 _.
        obind (sock_writen (snd (V (dk_synced d))) packet d1) (\<lambda>d2 _.
        Ret (d2\<lparr>dk_synced := Suc (dk_synced d2)\<rparr>) ())))"

text \<open>The loop over the tracker of one shard, whose mutex is held from \<^verbatim>\<open>startDBDump\<close> to \<^verbatim>\<open>endDBDump\<close>.\<close>

fun dump_keys ::
    "secretbox \<Rightarrow> proto_codec \<Rightarrow> (nat \<Rightarrow> write_result \<times> write_result) \<Rightarrow> string \<Rightarrow> string \<Rightarrow> TWStatsDB \<Rightarrow> string list \<Rightarrow> dump_sock
     \<Rightarrow> (dump_sock, unit) outcome" where
  "dump_keys B C V encryption_key name db [] d = Ret d ()"
| "dump_keys B C V encryption_key name db (key # keys) d =
     (case DBDumpEntry key db of
        None \<Rightarrow> dump_keys B C V encryption_key name db keys d
      | Some entry \<Rightarrow>
          obind (dump_packet B V encryption_key (rep_serialize C (sync_op name key entry)) d)
            (\<lambda>d1 _. dump_keys B C V encryption_key name db keys d1))"

fun dump_shards ::
    "secretbox \<Rightarrow> proto_codec \<Rightarrow> (nat \<Rightarrow> write_result \<times> write_result) \<Rightarrow> string \<Rightarrow> string \<Rightarrow> TWStatsDB list \<Rightarrow> dump_sock
     \<Rightarrow> (dump_sock, unit) outcome" where
  "dump_shards B C V encryption_key name [] d = Ret d ()"
| "dump_shards B C V encryption_key name (db # dbs) d =
     obind (dump_keys B C V encryption_key name db (key_tracker db) d)
       (\<lambda>d1 _. dump_shards B C V encryption_key name dbs d1)"

fun dump_dbs ::
    "secretbox \<Rightarrow> proto_codec \<Rightarrow> (nat \<Rightarrow> write_result \<times> write_result) \<Rightarrow> string \<Rightarrow> (string \<times> TWStringStatsDBWrapper) list
     \<Rightarrow> dump_sock \<Rightarrow> (dump_sock, unit) outcome" where
  "dump_dbs B C V encryption_key [] d = Ret d ()"
| "dump_dbs B C V encryption_key ((name, sdb) # dbs) d =
     obind (dump_shards B C V encryption_key name (sdbvp sdb) d) (\<lambda>d1 _. dump_dbs B C V encryption_key dbs d1)"

definition dumpDBToNetwork ::
    "sib_env \<Rightarrow> secretbox \<Rightarrow> proto_codec \<Rightarrow> (nat \<Rightarrow> write_result \<times> write_result) \<Rightarrow> ComboAddress \<Rightarrow> string
     \<Rightarrow> (string \<times> TWStringStatsDBWrapper) list \<Rightarrow> (dump_sock, 32 word) outcome" where
  "dumpDBToNetwork S B C V ca encryption_key my_dbmap =
     (let d = \<lparr>dk_nonce = random_nonce S, dk_sent = [], dk_synced = 0\<rparr>
      in if \<not> socket_ok S ca \<or> \<not> connect_ok S ca then Exn Network_Error d
         else obind (dump_dbs B C V encryption_key my_dbmap d) (\<lambda>d1 _. Ret d1 (word_of_nat (dk_synced d1))))"

section \<open>Restoring one key\<close>

text \<open>The dimensions and the type an entry of a field must have to belong to a database.\<close>

definition entry_for :: "TWStatsDB \<Rightarrow> string \<Rightarrow> TWStatsEntry \<Rightarrow> bool" where
  "entry_for db f e \<longleftrightarrow>
     (\<exists>ty. map_of (field_map db) f = Some ty \<and> type_map_has ty \<and> entry_ok ty e)
     \<and> num_windows e = db_num_windows db \<and> window_size e = db_window_size db"

definition db_typed :: "TWStatsDB \<Rightarrow> bool" where
  "db_typed db \<longleftrightarrow> (\<forall>k f e. db_entry db (k, f) = Some e \<longrightarrow> entry_for db f e)"

text \<open>What a ring holds: everything but the time of its last cleaning, which is only a hint when to clean again.\<close>

definition ring :: "TWStatsEntry \<Rightarrow> TWStatsBuf \<times> int \<times> int \<times> int" where
  "ring e = (stats_array e, start_time e, window_size e, num_windows e)"

definition entry_fits :: "sk_env \<Rightarrow> TWStatsEntry \<Rightarrow> bool" where
  "entry_fits E e \<longleftrightarrow> (\<forall>w \<in> set (stats_array e). member_fits E (snd w))"

abbreviation dump_of :: "fields \<Rightarrow> dump_entry" where
  "dump_of fm \<equiv> map (\<lambda>(fld, e). (fld, (snd (entry_dump e), fst (entry_dump e)))) fm"

lemma settings_dims:
  assumes "settings db' = settings db"
  shows "db_num_windows db' = db_num_windows db" "db_window_size db' = db_window_size db" "field_map db' = field_map db"
  using arg_cong[OF assms, of db_num_windows] arg_cong[OF assms, of db_window_size] arg_cong[OF assms, of field_map]
  by (simp_all add: settings_def)

lemma entry_for_cong:
  assumes "settings db' = settings db" shows "entry_for db' f e \<longleftrightarrow> entry_for db f e"
  unfolding entry_for_def settings_dims[OF assms] ..

lemma restore_entry_for:
  assumes e: "entry_for db f e" and g: "entry_for db f g" and fits: "entry_fits E e"
  obtains g' where "entry_restore E t (fst (entry_dump e)) (snd (entry_dump e)) g = Ret g' ()" "entry_for db f g'" "ring g' = ring e"
proof -
  obtain ty where ty: "map_of (field_map db) f = Some ty" "type_map_has ty" "entry_ok ty e" "entry_ok ty g"
    using e g by (auto simp: entry_for_def)
  let ?g = "g\<lparr>stats_array := stats_array e, start_time := start_time e, last_cleaned := 0\<rparr>"
  have d: "num_windows g = num_windows e" "window_size g = window_size e" using e g by (simp_all add: entry_for_def)
  have "entry_restore E t (fst (entry_dump e)) (snd (entry_dump e)) g = Ret ?g ()"
    using entry_restore_dump[OF ty(3,4) d(1)] fits by (simp add: entry_fits_def)
  moreover have "entry_ok ty ?g" using ty(3,4) d by (simp add: entry_ok_def)
  then have "entry_for db f ?g" using g ty by (auto simp: entry_for_def)
  moreover have "ring ?g = ring e" using d by (simp add: ring_def)
  ultimately show ?thesis using that by blast
qed

lemma good_entry_for: "entry_for db f e \<Longrightarrow> start_time e \<le> t \<Longrightarrow> good_entry t e"
  by (auto simp: good_entry_def entry_for_def type_map_has_def)

definition db_ring :: "TWStatsDB \<Rightarrow> string \<times> string \<Rightarrow> (TWStatsBuf \<times> int \<times> int \<times> int) option" where
  "db_ring db kf = map_option ring (db_entry db kf)"

text \<open>The database \<open>db'\<close> is \<open>db\<close> with the rings \<open>new\<close> for fields of one key.\<close>

definition restores :: "int \<Rightarrow> string \<Rightarrow> (string \<rightharpoonup> TWStatsBuf \<times> int \<times> int \<times> int) \<Rightarrow> TWStatsDB \<Rightarrow> TWStatsDB \<Rightarrow> bool" where
  "restores t key new db db' \<longleftrightarrow>
     db_inv (good_entry t) db' \<and> frame {key} db db' \<and> db_typed db'
     \<and> (\<forall>k f. db_ring db' (k, f) = (if k = key \<and> f \<in> dom new then new f else db_ring db (k, f)))"

lemma restores_trans: "restores t key a db db1 \<Longrightarrow> restores t key b db1 db2 \<Longrightarrow> restores t key (a ++ b) db db2"
  unfolding restores_def by (auto intro: frame_trans simp: map_add_dom_app_simps domIff map_add_def split: option.splits)

lemma restores_after:
  assumes "restores t key new db1 db2" and "frame {key} db db1" and "\<And>k f. (k, f) \<noteq> (key, g) \<Longrightarrow> db_ring db1 (k, f) = db_ring db (k, f)"
    and "g \<in> dom new"
  shows "restores t key new db db2"
proof -
  have "db_ring db2 (k, f) = (if k = key \<and> f \<in> dom new then new f else db_ring db (k, f))" for k f
    using assms(1,4) assms(3)[of k f] by (cases "(k, f) = (key, g)") (simp_all add: restores_def)
  moreover have "frame {key} db db2" using assms(1,2) frame_trans unfolding restores_def by blast
  ultimately show ?thesis using assms(1) by (simp add: restores_def)
qed

lemma run_restore:
  assumes inv: "db_inv (good_entry t) db" and key: "key \<in> fst ` set (stats_db db)" and ty: "db_typed db"
    and e: "entry_for db f e" "start_time e \<le> t" "entry_fits E e" and g: "entry_for db f g"
  shows "\<exists>db'. run_fn (entry_restore E now (fst (entry_dump e)) (snd (entry_dump e))) True key f g db = Ret db' (Some ())
     \<and> restores t key [f \<mapsto> ring e] db db'"
proof -
  obtain g' where g': "entry_restore E now (fst (entry_dump e)) (snd (entry_dump e)) g = Ret g' ()" "entry_for db f g'" "ring g' = ring e"
    using restore_entry_for[OF e(1) g e(3)] .
  let ?db = "touch key (put_entry key f g' db)"
  have st: "settings ?db = settings db" by (simp add: settings_def touch_def put_entry_def)
  have "start_time g' \<le> t" using g'(3) e(2) by (simp add: ring_def)
  then have "good_entry t g'" using good_entry_for[OF g'(2)] by blast
  then have "db_inv (good_entry t) ?db"
    using put_entry_inv[OF inv key] touch_inv[of "good_entry t" "put_entry key f g' db" key] by auto
  moreover have "frame {key} db ?db" using frame_put_entry frame_touch frame_trans by blast
  moreover have "db_typed ?db"
    using ty g'(2) by (auto simp: db_typed_def db_entry_put entry_for_cong[OF st])
  ultimately show ?thesis
    using g'(1,3) by (intro exI[of _ ?db]) (simp add: run_fn_def db_entry_put restores_def db_ring_def)
qed

text \<open>A fresh entry put where there was none, and then restored.\<close>

lemma restore_fresh:
  assumes inv: "db_inv (good_entry t) db1" "key \<in> fst ` set (stats_db db1)" and ty: "db_typed db" and fr: "frame {key} db db1"
    and ent: "\<And>kf. db_entry db1 kf = (if kf = (key, f) then Some g else db_entry db kf)"
    and e: "entry_for db f e" "start_time e \<le> t" "entry_fits E e" and g: "entry_for db f g"
  shows "\<exists>db'. run_fn (entry_restore E now (fst (entry_dump e)) (snd (entry_dump e))) True key f g db1 = Ret db' (Some ())
     \<and> restores t key [f \<mapsto> ring e] db db'"
proof -
  have st: "settings db1 = settings db" using fr by (simp add: frame_def)
  have "db_typed db1" using ty g by (auto simp: db_typed_def ent entry_for_cong[OF st])
  then show ?thesis
    using run_restore[OF inv, of f e E g now] e g restores_after[OF _ fr, of t _ _ f]
    by (fastforce simp: entry_for_cong[OF st] db_ring_def ent)
qed

lemma restore_field:
  assumes E: "env_ok E" and inv: "db_inv (good_entry t) db" and ty: "db_typed db" and st: "db_start_time db \<le> t"
    and e: "entry_for db f e" "start_time e \<le> t" "entry_fits E e"
  shows "\<exists>db'. find_create_key_field E now (entry_restore E now (fst (entry_dump e)) (snd (entry_dump e))) True True key f db = Ret db' (Some ())
     \<and> restores t key [f \<mapsto> ring e] db db'"
proof -
  obtain y where y: "map_of (field_map db) f = Some y" "type_map_has y" using e(1) by (auto simp: entry_for_def)
  have dims: "dims_ok (db_num_windows db) (db_window_size db)" using inv by (simp add: db_inv_def)
  obtain g where g: "new_TWStatsEntry E now (db_num_windows db) (db_window_size db) (db_start_time db) y = Ret () g"
    "entry_ok y g" "start_time g = db_start_time db \<and> window_size g = db_window_size db \<and> num_windows g = db_num_windows db"
    using new_entry_returns[OF E dims y(2)] by metis
  then have gf: "entry_for db f g" using y by (simp add: entry_for_def)
  then have gg: "good_entry t g" using good_entry_for g(3) st by simp
  show ?thesis
  proof (cases "map_of (stats_db db) key")
    case None
    have "frame {key} db (add_key key f g db)" by (auto simp: frame_def settings_def add_key_def fst_set_alist_update)
    from restore_fresh[OF add_key_inv[OF inv None gg] key_in_add_key ty this db_entry_add_key[OF None] e gf]
    show ?thesis by (simp add: find_new_key[OF y None g(1)])
  next
    case (Some fm)
    show ?thesis
    proof (cases "map_of fm f")
      case None
      have ok: "sm_ok fm" using db_inv_fields[OF inv Some] by simp
      have "frame {key} db (add_field key f g fm db)" by (auto simp: frame_def settings_def add_field_def fst_set_alist_update)
      from restore_fresh[OF add_field_inv[OF inv Some gg] key_in_add_field ty this db_entry_add_field[OF Some None ok] e gf]
      show ?thesis by (simp add: find_new_field[OF y Some None ok g(1)])
    next
      case h: (Some h)
      then have "db_entry db (key, f) = Some h" using Some by (simp add: db_entry_def)
      then have "entry_for db f h" using ty unfolding db_typed_def by blast
      moreover have "key \<in> fst ` set (stats_db db)" using Some by (force dest: map_of_SomeD)
      ultimately show ?thesis using run_restore[OF inv _ ty e] by (simp add: find_existing[OF y Some h])
    qed
  qed
qed

definition fields_for :: "sk_env \<Rightarrow> int \<Rightarrow> TWStatsDB \<Rightarrow> fields \<Rightarrow> bool" where
  "fields_for E t db fm \<longleftrightarrow> distinct (map fst fm) \<and> (\<forall>(f, e) \<in> set fm. entry_for db f e \<and> start_time e \<le> t \<and> entry_fits E e)"

lemma restore_dumped_fields:
  assumes E: "env_ok E" and "db_inv (good_entry t) db" "db_typed db" "db_start_time db \<le> t" "fields_for E t db fm"
  shows "\<exists>db'. restoreEntry E now key (dump_of fm) db = Ret db' () \<and> restores t key (map_option ring \<circ> map_of fm) db db'"
  using assms(2-)
proof (induction fm arbitrary: db)
  case Nil
  then show ?case by (simp add: restores_def)
next
  case (Cons fe fm)
  obtain f e where fe: "fe = (f, e)" by (cases fe)
  have e: "entry_for db f e" "start_time e \<le> t" "entry_fits E e" and nf: "map_of fm f = None"
    using Cons.prems(4) by (auto simp: fields_for_def fe map_of_eq_None_iff)
  obtain db1 where db1: "find_create_key_field E now (entry_restore E now (fst (entry_dump e)) (snd (entry_dump e))) True True key f db = Ret db1 (Some ())"
    "restores t key [f \<mapsto> ring e] db db1"
    using restore_field[OF E Cons.prems(1-3) e, of now key] by blast
  then have s: "settings db1 = settings db" and k: "db_inv (good_entry t) db1" "db_typed db1"
    by (simp_all add: restores_def frame_def)
  have "db_start_time db1 \<le> t" "fields_for E t db1 fm"
    using Cons.prems(3,4) settings_eq[OF s] by (auto simp: fields_for_def fe entry_for_cong[OF s])
  then obtain db2 where db2: "restoreEntry E now key (dump_of fm) db1 = Ret db2 ()" "restores t key (map_option ring \<circ> map_of fm) db1 db2"
    using Cons.IH[OF k] by blast
  have "[f \<mapsto> ring e] ++ (map_option ring \<circ> map_of fm) = map_option ring \<circ> map_of (fe # fm)"
    using nf by (auto simp: fun_eq_iff map_add_def fe split: option.splits)
  then have "restores t key (map_option ring \<circ> map_of (fe # fm)) db db2" using restores_trans[OF db1(2) db2(2)] by (simp only:)
  moreover have "restoreEntry E now key (dump_of (fe # fm)) db = Ret db2 ()" using db1(1) db2(1) by (simp add: fe)
  ultimately show ?case by blast
qed

section \<open>Restoring into a sharded database and a daemon\<close>

definition wr_typed :: "TWStringStatsDBWrapper \<Rightarrow> bool" where
  "wr_typed w \<longleftrightarrow> (\<forall>db \<in> set (sdbvp w). db_typed db)"

definition wr_ring :: "TWStringStatsDBWrapper \<Rightarrow> string \<times> string \<Rightarrow> (TWStatsBuf \<times> int \<times> int \<times> int) option" where
  "wr_ring w kf = map_option ring (wr_entry w kf)"

lemma fields_for_cong:
  assumes "settings db' = settings db" shows "fields_for E t db' fm \<longleftrightarrow> fields_for E t db fm"
  unfolding fields_for_def entry_for_cong[OF assms] ..

lemma wr_restore_dumped:
  assumes E: "env_ok E" and ok: "wr_ok t w" and ty: "wr_typed w" and fm: "fields_for E t (sdbvp w ! 0) fm"
  shows "\<exists>w'. wr_restoreEntry E now key (dump_of fm) w = Ret w' () \<and> wr_ok t w' \<and> wr_typed w'
     \<and> settings (sdbvp w' ! 0) = settings (sdbvp w ! 0)
     \<and> (\<forall>k f. wr_ring w' (k, f) = (if k = key \<and> map_of fm f \<noteq> None then map_option ring (map_of fm f) else wr_ring w (k, f)))"
proof -
  obtain i where i: "getShardIndex key w = Some i" "i < length (sdbvp w)" using shard_in_range[OF ok] .
  let ?db = "sdbvp w ! i"
  have "fields_for E t ?db fm" using fm fields_for_cong[OF wr_ok_shard(3)[OF ok i(2)]] by blast
  moreover have "db_typed ?db" using ty i(2) by (simp add: wr_typed_def)
  ultimately obtain db' where db': "restoreEntry E now key (dump_of fm) ?db = Ret db' ()"
      "restores t key (map_option ring \<circ> map_of fm) ?db db'"
    using restore_dumped_fields[OF E wr_ok_shard(1)[OF ok i(2)] _ wr_ok_shard(2)[OF ok i(2)]] by blast
  let ?w = "w\<lparr>sdbvp := (sdbvp w)[i := db']\<rparr>"
  have r: "db_inv (good_entry t) db'" "frame {key} ?db db'" "db_typed db'" using db'(2) by (simp_all add: restores_def)
  have "wr_restoreEntry E now key (dump_of fm) w = Ret ?w ()"
    using on_shard_Ret[where f = "restoreEntry E now key (dump_of fm)", OF i db'(1)] by (simp add: wr_restoreEntry_def)
  moreover have "wr_ok t ?w" using shard_update_ok[OF ok i r(1,2)] by simp
  moreover have "wr_typed ?w" using ty r(3) by (auto simp: wr_typed_def dest: set_update_subset_insert[THEN subsetD])
  moreover have "settings (sdbvp ?w ! 0) = settings (sdbvp w ! 0)"
    using r(2) i(2) by (cases i) (auto simp: frame_def)
  moreover have "wr_ring ?w (k, f) = (if k = key \<and> map_of fm f \<noteq> None then map_option ring (map_of fm f) else wr_ring w (k, f))" for k f
    using db'(2) i getShardIndex_cong[of ?w w k] wr_ok_shard(4)[OF ok]
    by (cases "getShardIndex k w") (auto simp: wr_ring_def wr_entry_def restores_def nth_list_update db_ring_def)
  ultimately show ?thesis by blast
qed

text \<open>What a daemon knows: the ring of every database, key and field.\<close>

definition knows :: "wf_state \<Rightarrow> string \<times> string \<times> string \<rightharpoonup> TWStatsBuf \<times> int \<times> int \<times> int" where
  "knows st x = Option.bind (map_of (dbMap st) (fst x)) (\<lambda>w. wr_ring w (snd x))"

definition dbs_ok :: "int \<Rightarrow> wf_state \<Rightarrow> bool" where
  "dbs_ok t st \<longleftrightarrow> sm_ok (dbMap st) \<and> (\<forall>w \<in> snd ` set (dbMap st). wr_ok t w \<and> wr_typed w)"

text \<open>The configuration of the databases by name: the settings of their first shard.\<close>

definition config :: "wf_state \<Rightarrow> string \<rightharpoonup> TWStatsDB" where
  "config st name = map_option (\<lambda>w. settings (sdbvp w ! 0)) (map_of (dbMap st) name)"

definition item_rings :: "string \<times> string \<times> fields \<Rightarrow> string \<times> string \<times> string \<rightharpoonup> TWStatsBuf \<times> int \<times> int \<times> int" where
  "item_rings it x = (case it of (name, key, fm) \<Rightarrow>
     if fst x = name \<and> fst (snd x) = key then map_option ring (map_of fm (snd (snd x))) else None)"

definition item_op :: "string \<times> string \<times> fields \<Rightarrow> ReplicationOperation" where
  "item_op it = (case it of (name, key, fm) \<Rightarrow> sync_op name key (dump_of fm))"

definition item_ok :: "sk_env \<Rightarrow> int \<Rightarrow> (string \<rightharpoonup> TWStatsDB) \<Rightarrow> string \<times> string \<times> fields \<Rightarrow> bool" where
  "item_ok E t cfg it = (case it of (name, key, fm) \<Rightarrow>
     sm_ok fm \<and> dump_times_ok (dump_of fm) \<and> (\<exists>db. cfg name = Some db \<and> fields_for E t db fm))"

lemma sm_ok_dump: "sm_ok fm \<Longrightarrow> sm_ok (dump_of fm)"
  by (simp add: sm_ok_def sorted_wrt_map case_prod_beta)

lemma settings_idem [simp]: "settings (settings db) = settings db"
  by (simp add: settings_def)

lemma apply_sync_item:
  assumes E: "env_ok E" and st: "dbs_ok t st" and it: "item_ok E t (config st) it"
  shows "\<exists>st'. rep_applyOperation E R N ts (item_op it) st = Ret st' () \<and> dbs_ok t st' \<and> config st' = config st
     \<and> knows st' = knows st ++ item_rings it \<and> g_bl_db st' = g_bl_db st \<and> g_wl_db st' = g_wl_db st"
proof -
  obtain name key fm where n: "it = (name, key, fm)" by (cases it)
  obtain w where w: "map_of (dbMap st) name = Some w" "fields_for E t (sdbvp w ! 0) fm"
    using it fields_for_cong[OF settings_idem] by (auto simp: item_ok_def n config_def)
  have wok: "wr_ok t w" "wr_typed w" and sm: "sm_ok (dbMap st)" using st map_of_SomeD[OF w(1)] by (force simp: dbs_ok_def)+
  obtain w' where w': "wr_restoreEntry E (fst ts) key (dump_of fm) w = Ret w' ()" "wr_ok t w'" "wr_typed w'"
     "settings (sdbvp w' ! 0) = settings (sdbvp w ! 0)"
     "\<forall>k f. wr_ring w' (k, f) = (if k = key \<and> map_of fm f \<noteq> None then map_option ring (map_of fm f) else wr_ring w (k, f))"
    using wr_restore_dumped[OF E wok w(2)] by blast
  let ?st = "st\<lparr>dbMap := sm_assign name w' (dbMap st)\<rparr>"
  have "entry_of_sync (map sync_field_of (dump_of fm)) = dump_of fm"
    using it sm_ok_dump by (intro entry_of_sync_roundtrip) (auto simp: item_ok_def n)
  then have "rep_applyOperation E R N ts (item_op it) st = Ret ?st ()"
    using w(1) w'(1) by (simp add: rep_applyOperation_def item_op_def n sync_op_def new_ReplicationOperation_def
        sdb_applyOperation_def sdb_call_def sdb_op_entry_def sdb_op_def)
  moreover have "dbs_ok t ?st"
    using st w'(2,3) by (auto simp: dbs_ok_def dest!: set_sm_assign_vals)
  moreover have "config ?st = config st"
    using w(1) w'(4) sm by (auto simp: config_def map_of_sm_assign)
  moreover have "knows ?st = knows st ++ item_rings it"
    using w(1) w'(5) sm by (auto simp: knows_def fun_eq_iff map_of_sm_assign item_rings_def n map_add_def split: option.splits)
  ultimately show ?thesis by (intro exI[of _ ?st]) simp
qed

section \<open>What is sent\<close>

definition shard_items :: "string \<Rightarrow> TWStatsDB \<Rightarrow> (string \<times> string \<times> fields) list" where
  "shard_items name db =
     concat (map (\<lambda>k. case map_of (stats_db db) k of None \<Rightarrow> [] | Some fm \<Rightarrow> [(name, k, fm)]) (key_tracker db))"

definition sync_items :: "(string \<times> TWStringStatsDBWrapper) list \<Rightarrow> (string \<times> string \<times> fields) list" where
  "sync_items m = concat (map (\<lambda>(name, w). concat (map (shard_items name) (sdbvp w))) m)"

fun send_all ::
    "secretbox \<Rightarrow> (nat \<Rightarrow> write_result \<times> write_result) \<Rightarrow> string \<Rightarrow> string list \<Rightarrow> dump_sock \<Rightarrow> (dump_sock, unit) outcome" where
  "send_all B V key [] d = Ret d ()"
| "send_all B V key (m # ms) d = obind (dump_packet B V key m d) (\<lambda>d1 _. send_all B V key ms d1)"

lemma send_all_append:
  "send_all B V key (xs @ ys) d = obind (send_all B V key xs d) (\<lambda>d1 _. send_all B V key ys d1)"
proof (induction xs arbitrary: d)
  case (Cons m xs)
  then show ?case by (cases "dump_packet B V key m d") simp_all
qed simp

abbreviation item_msg :: "proto_codec \<Rightarrow> string \<times> string \<times> fields \<Rightarrow> string" where
  "item_msg C it \<equiv> rep_serialize C (item_op it)"

lemma dump_keys_sends:
  "dump_keys B C V key name db ks d =
     send_all B V key (map (item_msg C)
       (concat (map (\<lambda>k. case map_of (stats_db db) k of None \<Rightarrow> [] | Some fm \<Rightarrow> [(name, k, fm)]) ks))) d"
proof (induction ks arbitrary: d)
  case (Cons k ks)
  then show ?case by (cases "map_of (stats_db db) k") (simp_all add: DBDumpEntry_def item_op_def)
qed simp

lemma dump_shards_sends:
  "dump_shards B C V key name dbs d = send_all B V key (map (item_msg C) (concat (map (shard_items name) dbs))) d"
  by (induction dbs arbitrary: d) (simp_all add: dump_keys_sends shard_items_def send_all_append)

lemma dump_dbs_sends: "dump_dbs B C V key m d = send_all B V key (map (item_msg C) (sync_items m)) d"
proof (induction m arbitrary: d)
  case (Cons nw m)
  then show ?case by (cases nw) (simp add: dump_shards_sends sync_items_def send_all_append)
qed (simp add: sync_items_def)

lemma packet_not_Nil: "nonce_wf n \<Longrightarrow> snd (encryptMsgWithKey B m key n) \<noteq> []"
  by (auto simp: encryptMsgWithKey_def sodEncryptSym_def nonce_toString_def nonce_wf_def crypto_secretbox_NONCEBYTES_def)

lemma send_all_written:
  assumes "nonce_wf (dk_nonce d)" and "\<And>i. V i = (Written, Written)"
  shows "send_all B V key ms d =
    (case encrypt_all B key ms (dk_nonce d) of (n, ps) \<Rightarrow>
       Ret \<lparr>dk_nonce = n, dk_sent = dk_sent d @ concat (map frame_of ps), dk_synced = dk_synced d + length ms\<rparr> ())"
  using assms(1)
proof (induction ms arbitrary: d)
  case (Cons m ms)
  obtain n1 p where p: "encryptMsgWithKey B m key (dk_nonce d) = (n1, p)" by (cases "encryptMsgWithKey B m key (dk_nonce d)")
  have n1: "nonce_wf n1" using Cons.prems p by (auto simp: encryptMsgWithKey_def sodEncryptSym_def)
  have ne: "p \<noteq> []" using packet_not_Nil[OF Cons.prems, of B m key] p by simp
  have "dump_packet B V key m d = Ret \<lparr>dk_nonce = n1, dk_sent = dk_sent d @ frame_of p, dk_synced = Suc (dk_synced d)\<rparr> ()"
    using ne by (simp add: dump_packet_def p sock_writen_def assms(2) frame_of_def)
  then show ?case
    using Cons.IH[of "\<lparr>dk_nonce = n1, dk_sent = dk_sent d @ frame_of p, dk_synced = Suc (dk_synced d)\<rparr>"] n1
    by (simp add: p split: prod.split)
qed simp

lemma encrypt_all_decrypts:
  assumes "secretbox_ok B" and "nonce_wf n" and "\<forall>m \<in> set ms. length m + 40 < 65536"
  shows "list_all2 (\<lambda>p msg. 0 < length p \<and> length p < 65536 \<and> decryptMsg B key p = Inr (Some msg)) (snd (encrypt_all B key ms n)) ms"
  using assms(2,3)
proof (induction ms arbitrary: n)
  case (Cons m ms)
  have len: "length (snd (encryptMsgWithKey B m key n)) = length m + 40"
    using Cons.prems(1) assms(1)
    by (simp add: encryptMsgWithKey_def sodEncryptSym_def secretbox_ok_def nonce_toString_def nonce_wf_def
        crypto_secretbox_NONCEBYTES_def crypto_secretbox_MACBYTES_def)
  have "nonce_wf (fst (encryptMsgWithKey B m key n))"
    using Cons.prems(1) by (simp add: encryptMsgWithKey_def sodEncryptSym_def)
  then show ?case
    using Cons.IH Cons.prems(2) packet_decrypts[OF assms(1) Cons.prems(1), of key m] len
    by (fastforce simp: case_prod_beta)
qed simp

section \<open>What the items cover\<close>

lemma fold_map_add_cover:
  assumes "\<And>m. m \<in> set ms \<Longrightarrow> m \<subseteq>\<^sub>m A" and "dom A \<subseteq> \<Union> (dom ` set ms)"
  shows "fold (\<lambda>m acc. acc ++ m) ms m0 = m0 ++ A"
proof -
  have gen: "fold (\<lambda>m acc. acc ++ m) ms m0 x = (if x \<in> \<Union> (dom ` set ms) then A x else m0 x)"
    if "\<And>m. m \<in> set ms \<Longrightarrow> m \<subseteq>\<^sub>m A" for ms m0 x
    using that
  proof (induction ms arbitrary: m0)
    case (Cons m ms)
    have "m \<subseteq>\<^sub>m A" using Cons.prems by simp
    then have "(m0 ++ m) x = (if x \<in> dom m then A x else m0 x)"
      by (auto simp: map_le_def map_add_def dom_def split: option.splits)
    then show ?case using Cons by auto
  qed simp
  have "\<Union> (dom ` set ms) = dom A" using assms(2) map_le_implies_dom_le[OF assms(1)] by blast
  then have "fold (\<lambda>m acc. acc ++ m) ms m0 x = (if x \<in> dom A then A x else m0 x)" for x
    using gen[of ms m0 x] assms(1) by simp
  then show ?thesis by (simp add: fun_eq_iff map_add_def domIff option.case_eq_if)
qed

lemma set_shard_items:
  "(n, k, fm) \<in> set (shard_items name db) \<longleftrightarrow> n = name \<and> k \<in> set (key_tracker db) \<and> map_of (stats_db db) k = Some fm"
  unfolding shard_items_def set_concat set_map by (auto split: option.splits)

lemma set_sync_items:
  "(name, k, fm) \<in> set (sync_items m) \<longleftrightarrow>
     (\<exists>w db. (name, w) \<in> set m \<and> db \<in> set (sdbvp w) \<and> k \<in> set (key_tracker db) \<and> map_of (stats_db db) k = Some fm)"
  by (fastforce simp: sync_items_def set_shard_items)

lemma item_found:
  assumes ok: "dbs_ok t st" and it: "(name, k, fm) \<in> set (sync_items (dbMap st))"
  obtains w i where "map_of (dbMap st) name = Some w" "getShardIndex k w = Some i" "i < length (sdbvp w)"
    "map_of (stats_db (sdbvp w ! i)) k = Some fm" "wr_ok t w" "wr_typed w"
proof -
  obtain w db where w: "(name, w) \<in> set (dbMap st)" "db \<in> set (sdbvp w)" "map_of (stats_db db) k = Some fm"
    using it set_sync_items by blast
  obtain i where i: "i < length (sdbvp w)" "db = sdbvp w ! i" using w(2) by (auto simp: in_set_conv_nth)
  have wok: "wr_ok t w" "wr_typed w" using ok w(1) by (force simp: dbs_ok_def)+
  have "distinct (map fst (dbMap st))" using ok by (simp add: dbs_ok_def sm_ok_distinct)
  then have "map_of (dbMap st) name = Some w" using w(1) by simp
  moreover have "getShardIndex k w = Some i"
    using wr_ok_shard(4)[OF wok(1) i(1)] map_of_SomeD[OF w(3)] i(2) by force
  ultimately show ?thesis using that wok i w(3) by blast
qed

lemma item_rings_known:
  assumes "dbs_ok t st" and "it \<in> set (sync_items (dbMap st))"
  shows "item_rings it \<subseteq>\<^sub>m knows st"
proof -
  obtain name k fm where it: "it = (name, k, fm)" by (cases it)
  obtain w i where "map_of (dbMap st) name = Some w" "getShardIndex k w = Some i" "map_of (stats_db (sdbvp w ! i)) k = Some fm"
    using item_found[OF assms(1)] assms(2) it by metis
  then show ?thesis
    by (auto simp: map_le_def item_rings_def it knows_def wr_ring_def wr_entry_def db_entry_def split: if_splits)
qed

lemma known_has_item:
  assumes ok: "dbs_ok t st" and x: "x \<in> dom (knows st)"
  shows "\<exists>it \<in> set (sync_items (dbMap st)). x \<in> dom (item_rings it)"
proof -
  obtain name k f where n: "x = (name, k, f)" by (cases x)
  obtain w i fm e where w: "map_of (dbMap st) name = Some w" "getShardIndex k w = Some i"
    "map_of (stats_db (sdbvp w ! i)) k = Some fm" "map_of fm f = Some e"
    using x by (auto simp: n knows_def wr_ring_def wr_entry_def db_entry_def bind_eq_Some_conv)
  have wok: "wr_ok t w" using ok map_of_SomeD[OF w(1)] by (force simp: dbs_ok_def)
  have i: "i < length (sdbvp w)" using shard_in_range[OF wok, of k] w(2) by auto
  have "k \<in> set (key_tracker (sdbvp w ! i))"
    using wr_ok_shard(1)[OF wok i] map_of_SomeD[OF w(3)] by (force simp: db_inv_def)
  then have "(name, k, fm) \<in> set (sync_items (dbMap st))"
    unfolding set_sync_items using map_of_SomeD[OF w(1)] i w(3) nth_mem by blast
  moreover have "x \<in> dom (item_rings (name, k, fm))" using w(4) by (simp add: item_rings_def n domIff)
  ultimately show ?thesis by blast
qed

lemma items_cover:
  assumes "dbs_ok t st"
  shows "fold (\<lambda>it acc. acc ++ item_rings it) (sync_items (dbMap st)) m0 = m0 ++ knows st"
proof -
  have "fold (\<lambda>m acc. acc ++ m) (map item_rings (sync_items (dbMap st))) m0 = m0 ++ knows st"
  proof (rule fold_map_add_cover)
    show "dom (knows st) \<subseteq> \<Union> (dom ` set (map item_rings (sync_items (dbMap st))))"
      using known_has_item[OF assms] by fastforce
  qed (use item_rings_known[OF assms] in auto)
  then show ?thesis by (simp add: fold_map comp_def)
qed

section \<open>The receiver\<close>

text \<open>A worker thread that runs until the queue is empty, at most \<open>n\<close> rounds; \<open>clk\<close> are its readings of the clock.\<close>

fun run_worker ::
    "proto_codec \<Rightarrow> sk_env \<Rightarrow> redis_env \<Rightarrow> netlib \<Rightarrow> (nat \<Rightarrow> int \<times> int \<times> int) \<Rightarrow> nat \<Rightarrow> WforceReplication \<times> wf_state
     \<Rightarrow> (WforceReplication \<times> wf_state, unit) outcome" where
  "run_worker C E R N clk 0 Wst = Ret Wst ()"
| "run_worker C E R N clk (Suc n) Wst =
     (case replication_worker C E R N (clk n) Wst of
        None \<Rightarrow> Ret Wst ()
      | Some r \<Rightarrow> obind r (\<lambda>Wst' _. run_worker C E R N clk n Wst'))"

lemma queue_item_simps [simp]:
  "sqi_msg (queue_item remote ca msg) = msg" "sqi_recv_sibling (queue_item remote ca msg) = ca"
  by (simp_all add: queue_item_def)

lemma item_op_wf: "rep_wf (item_op it)"
  by (cases it) (simp add: item_op_def sync_op_def new_ReplicationOperation_def)

lemma run_worker_items:
  assumes C: "codec_ok C" and E: "env_ok E"
  shows "dbs_ok t st \<Longrightarrow> \<forall>it \<in> set its. item_ok E t (config st) it \<Longrightarrow>
    d_sibling_queue W = map (queue_item remote ca) (map (item_msg C) its) \<Longrightarrow>
    \<exists>W' st'. run_worker C E R N clk (length its) (W, st) = Ret (W', st') () \<and> d_sibling_queue W' = []
      \<and> dbs_ok t st' \<and> config st' = config st \<and> knows st' = fold (\<lambda>it acc. acc ++ item_rings it) its (knows st)
      \<and> g_bl_db st' = g_bl_db st \<and> g_wl_db st' = g_wl_db st"
proof (induction its arbitrary: W st)
  case (Cons it its)
  obtain st1 where st1: "rep_applyOperation E R N (clk (length its)) (item_op it) st = Ret st1 ()" "dbs_ok t st1" "config st1 = config st"
    "knows st1 = knows st ++ item_rings it" "g_bl_db st1 = g_bl_db st" "g_wl_db st1 = g_wl_db st"
    using apply_sync_item[OF E Cons.prems(1), of it R N "clk (length its)"] Cons.prems(2) by auto
  let ?W = "rcvd True ca (W\<lparr>d_sibling_queue := map (queue_item remote ca) (map (item_msg C) its)\<rparr>)"
  have "replication_worker C E R N (clk (length its)) (W, st) = Some (Ret (?W, st1) ())"
    using Cons.prems(3) st1(1)
    by (simp add: replication_worker_def rep_roundtrip[OF C item_op_wf])
  moreover have "d_sibling_queue ?W = map (queue_item remote ca) (map (item_msg C) its)" by (simp add: rcvd_def on_sibling_def)
  ultimately show ?case using Cons.IH[OF st1(2), of ?W] Cons.prems(2) st1(3-6) by simp
qed simp

text \<open>
  The entries of the sender can be sent: they fit the sketch parameters and their times fit 64 bits. The receiver
  has every database of the sender with the same fields and windows (the number of shards may differ).
\<close>

definition dumpable :: "sk_env \<Rightarrow> wf_state \<Rightarrow> bool" where
  "dumpable E st \<longleftrightarrow> (\<forall>(name, k, fm) \<in> set (sync_items (dbMap st)). dump_times_ok (dump_of fm) \<and> (\<forall>e \<in> snd ` set fm. entry_fits E e))"

definition compatible :: "wf_state \<Rightarrow> wf_state \<Rightarrow> bool" where
  "compatible a b \<longleftrightarrow> (\<forall>(name, w) \<in> set (dbMap a). case map_of (dbMap b) name of
      None \<Rightarrow> False
    | Some v \<Rightarrow> field_map (sdbvp v ! 0) = field_map (sdbvp w ! 0) \<and> db_num_windows (sdbvp v ! 0) = db_num_windows (sdbvp w ! 0)
        \<and> db_window_size (sdbvp v ! 0) = db_window_size (sdbvp w ! 0))"

lemma sender_items_ok:
  assumes ok: "dbs_ok t a" and d: "dumpable E a" and c: "compatible a b"
  shows "\<forall>it \<in> set (sync_items (dbMap a)). item_ok E t (config b) it"
proof
  fix it assume it: "it \<in> set (sync_items (dbMap a))"
  obtain name k fm where n: "it = (name, k, fm)" by (cases it)
  obtain w i where w: "map_of (dbMap a) name = Some w" "i < length (sdbvp w)" "map_of (stats_db (sdbvp w ! i)) k = Some fm"
    "wr_ok t w" "wr_typed w"
    using item_found[OF ok] it n by metis
  let ?db = "sdbvp w ! i"
  have inv: "db_inv (good_entry t) ?db" using wr_ok_shard(1)[OF w(4,2)] .
  have sm: "sm_ok fm" and good: "\<forall>fe \<in> set fm. good_entry t (snd fe)" using db_inv_fields[OF inv w(3)] by auto
  obtain v where v: "map_of (dbMap b) name = Some v" "field_map (sdbvp v ! 0) = field_map (sdbvp w ! 0)"
    "db_num_windows (sdbvp v ! 0) = db_num_windows (sdbvp w ! 0)" "db_window_size (sdbvp v ! 0) = db_window_size (sdbvp w ! 0)"
    using c map_of_SomeD[OF w(1)] by (fastforce simp: compatible_def split: option.splits)
  note s = settings_dims[OF wr_ok_shard(3)[OF w(4,2)]]
  have "entry_for (settings (sdbvp v ! 0)) f e" if "(f, e) \<in> set fm" for f e
  proof -
    have "db_entry ?db (k, f) = Some e" using that w(3) sm_ok_distinct[OF sm] by (simp add: db_entry_def)
    then have "entry_for ?db f e" using w(5,2) by (simp add: wr_typed_def db_typed_def)
    then show ?thesis using v(2-4) s by (simp add: entry_for_def settings_def)
  qed
  moreover have "dump_times_ok (dump_of fm)" "\<forall>e \<in> snd ` set fm. entry_fits E e" using d it n by (force simp: dumpable_def)+
  ultimately show "item_ok E t (config b) it"
    using sm sm_ok_distinct[OF sm] good v(1) by (force simp: item_ok_def n config_def fields_for_def good_entry_def)
qed

section \<open>The databases of the sender arrive\<close>

text \<open>
  C38. Synchronisation transfers the databases. When the connection succeeds and every write does, the dump of the
  running daemon reports the number of its keys, and the starting daemon that receives the bytes and works off its queue
  ends with what it knew overridden by all the sender knows: every window, stamp and start time of every key and field of
  every database, nothing else, and neither the black list nor the white list. The numbers of shards may differ.
  It is assumed that the receiver has the databases of the sender with the same fields and windows, that
  the parameters of the sketches are usable (\<open>env_ok\<close>: creation of a field neither throws nor is undefined), that
  no packet reaches the 65536 bytes that its length field can express, and that the receive queue has room.
\<close>

theorem sync_transfers_databases:
  assumes "codec_ok C" "secretbox_ok B" "env_ok E" "nonce_wf (random_nonce S)"
    and "socket_ok S ca" "connect_ok S ca" "\<And>i. V i = (Written, Written)"
    and a: "dbs_ok t a" "dumpable E a" and b: "dbs_ok t b" "compatible a b"
    and "\<forall>it \<in> set (sync_items (dbMap a)). length (rep_serialize C (item_op it)) + 40 < 65536"
    and "d_sibling_queue W = []" "length (sync_items (dbMap a)) \<le> d_max_sibling_queue_size W"
  shows "\<exists>d W' b'. dumpDBToNetwork S B C V ca (d_default_key W) (dbMap a) = Ret d (word_of_nat (length (sync_items (dbMap a))))
    \<and> run_worker C E R N clk (length (sync_items (dbMap a))) (parseTCPReplication B remote sib (dk_sent d) W, b) = Ret (W', b') ()
    \<and> d_sibling_queue W' = [] \<and> dbs_ok t b' \<and> knows b' = knows b ++ knows a
    \<and> g_bl_db b' = g_bl_db b \<and> g_wl_db b' = g_wl_db b"
proof -
  let ?its = "sync_items (dbMap a)" and ?key = "d_default_key W"
  let ?ms = "map (item_msg C) ?its"
  obtain n ps where ps: "encrypt_all B ?key ?ms (random_nonce S) = (n, ps)"
    by (cases "encrypt_all B ?key ?ms (random_nonce S)")
  let ?d = "\<lparr>dk_nonce = n, dk_sent = concat (map frame_of ps), dk_synced = length ?its\<rparr>"
  have "dumpDBToNetwork S B C V ca ?key (dbMap a) = Ret ?d (word_of_nat (length ?its))"
    using assms(4-7) by (simp add: dumpDBToNetwork_def dump_dbs_sends send_all_written ps)
  moreover have "list_all2 (\<lambda>p msg. 0 < length p \<and> length p < 65536 \<and> decryptMsg B ?key p = Inr (Some msg)) ps ?ms"
    using encrypt_all_decrypts[OF assms(2,4), of ?ms ?key] assms(12) ps by simp
  then have "parseTCPReplication B remote sib (dk_sent ?d) W = fold parseReceivedReplicationMsg (map (queue_item remote sib) ?ms) W"
    using parse_frames[OF _ refl] by simp
  then have "d_sibling_queue (parseTCPReplication B remote sib (dk_sent ?d) W) = map (queue_item remote sib) ?ms"
    using recv_queue.offers_contents[of W "map (queue_item remote sib) ?ms"] assms(13,14) by (simp add: recv_queue.within_def)
  then obtain W' b' where
    "run_worker C E R N clk (length ?its) (parseTCPReplication B remote sib (dk_sent ?d) W, b) = Ret (W', b') ()"
    "d_sibling_queue W' = []" "dbs_ok t b'" "knows b' = knows b ++ knows a" "g_bl_db b' = g_bl_db b" "g_wl_db b' = g_wl_db b"
    using run_worker_items[OF assms(1,3) b(1) sender_items_ok[OF a b(2)]] items_cover[OF a(1)] by metis
  ultimately show ?thesis by blast
qed

definition demo_sender :: wf_state where
  "demo_sender =
     \<lparr>dbMap = [(''db'', (new_Wrapper_fields 1000 ''db'' 10 2 [(''cnt'', ''int'')] 1)
         \<lparr>sdbvp := [(new_TWStatsDB 1000 ''db'' 10 2)\<lparr>field_map := [(''cnt'', ''int'')], key_tracker := [''k''],
            stats_db := [(''k'', [(''cnt'', demo_entry2)])]\<rparr>]\<rparr>)],
      g_bl_db = new_BlackWhiteListDB BLACKLIST, g_wl_db = new_BlackWhiteListDB WHITELIST\<rparr>"

definition demo_starter :: wf_state where
  "demo_starter = \<lparr>dbMap = [(''db'', demo_wrapper)], g_bl_db = new_BlackWhiteListDB BLACKLIST, g_wl_db = new_BlackWhiteListDB WHITELIST\<rparr>"

lemma demo_sender_items: "sync_items (dbMap demo_sender) = [(''db'', ''k'', [(''cnt'', demo_entry2)])]"
  by (simp add: sync_items_def shard_items_def demo_sender_def)

lemma num_shards_new [simp]: "num_shards (new_Wrapper_fields t name ws nw fs n) = n"
  by (simp add: new_Wrapper_fields_def setFields_def on_all_def new_Wrapper_def)

lemma demo_sender_ok: "dbs_ok 1000 demo_sender"
  unfolding dbs_ok_def
  by (simp add: demo_sender_def wr_ok_def db_inv_def good_entry_def demo_entry2_ok(1) wr_typed_def db_typed_def
      db_entry_def entry_for_def new_TWStatsDB_def dims_ok_def type_map_has_def getShardIndex_def Let_def)
    (simp add: demo_entry2_def demo_entry_def)

lemma demo_starter_ok: "dbs_ok 1000 demo_starter"
  using demo_wrapper_ok
  by (auto simp: dbs_ok_def demo_starter_def wr_typed_def demo_wrapper_simps db_typed_def db_entry_def new_TWStatsDB_def)

lemma demo_sync_fits: "dumpable demo_env demo_sender" "compatible demo_sender demo_starter"
  by (simp_all add: dumpable_def demo_sender_items compatible_def demo_starter_def dump_times_ok_def
      entry_dump_def entry_fits_def demo_entry2_def demo_entry_def time64_def)
    (simp add: demo_sender_def new_TWStatsDB_def demo_wrapper_simps)

lemma demo_item_length:
  "length (rep_serialize demo_codec (item_op (''db'', ''k'', [(''cnt'', demo_entry2)]))) < 20000"
  by (simp add: rep_serialize_def item_op_def sync_op_def new_ReplicationOperation_def demo_codec_def sdb_op_entry_def sdb_op_def
      sdb_none_def sync_field_of_def entry_dump_def demo_entry2_def demo_entry_def encode_def sdb_code_def iso_code_def pair_code_def
      list_code_def option_code_def string_code_def char_code_def word_code_def nat_code_def bool_code_def bytes_code_def msg_code_def
      sdb_type_num_def rep_type_num_def be32_def)

theorem sync_transfers_databases_witness:
  "\<exists>d W' b'. dumpDBToNetwork demo_sib demo_box demo_codec (\<lambda>_. (Written, Written)) CA_None ''secret'' (dbMap demo_sender) = Ret d 1
    \<and> run_worker demo_codec demo_env demo_redis demo_net (\<lambda>_. (2000, 2000, 2000)) 1
        (parseTCPReplication demo_box CA_None CA_None (dk_sent d) demo_repl, demo_starter) = Ret (W', b') ()
    \<and> knows b' (''db'', ''k'', ''cnt'') = Some (ring demo_entry2)"
proof -
  have k: "d_default_key demo_repl = ''secret''" "d_sibling_queue demo_repl = []" "d_max_sibling_queue_size demo_repl = 5000"
    by (simp_all add: demo_repl_def new_WforceReplication_def)
  have s: "nonce_wf (random_nonce demo_sib)" "socket_ok demo_sib CA_None" "connect_ok demo_sib CA_None"
    by (simp_all add: demo_sib_def nonce_wf_def crypto_secretbox_NONCEBYTES_def)
  have "getShardIndex ''k'' (snd (hd (dbMap demo_sender))) = Some 0"
    by (simp add: demo_sender_def getShardIndex_def Let_def)
  then have "knows demo_sender (''db'', ''k'', ''cnt'') = Some (ring demo_entry2)"
    by (simp add: knows_def demo_sender_def wr_ring_def wr_entry_def db_entry_def)
  then show ?thesis
    using sync_transfers_databases[OF demo_codec_ok demo_box_ok demo_db_inv(2) s _ demo_sender_ok demo_sync_fits(1)
        demo_starter_ok demo_sync_fits(2), of "\<lambda>_. (Written, Written)" demo_repl demo_redis demo_net "\<lambda>_. (2000, 2000, 2000)" CA_None CA_None]
      demo_item_length k
    by (auto simp: demo_sender_items)
qed

end
