(* ===== verification/Web_Sync.thy ===== *)
theory Web_Sync
  imports Sync Web_Siblings Base64
begin

text \<open>
  How a daemon that starts asks a running one for its databases (\<^verbatim>\<open>wforce.cc\<close>, \<^verbatim>\<open>wforce-web.cc\<close>): it asks each configured
  host for its uptime, sends the first one that has been up long enough the command \<^verbatim>\<open>syncDBs\<close>, and is told by the command
  \<^verbatim>\<open>syncDone\<close> that the transfer has ended. The command \<^verbatim>\<open>dumpEntries\<close> writes the counts of all keys as JSON text. The
  HTTP client is a parameter; the requests made are part of the results.
\<close>

section \<open>The client\<close>

record sync_env =
  se_get :: "string \<Rightarrow> (string \<times> string) list \<Rightarrow> string"
  se_post :: "string \<Rightarrow> string \<Rightarrow> (string \<times> string) list \<Rightarrow> string + string"
  se_box :: secretbox
  se_codec :: proto_codec
  se_writes :: "nat \<Rightarrow> write_result \<times> write_result"
  se_what :: "exn \<Rightarrow> string"

record syncData =
  sync_hosts :: "(string \<times> string) list"
  min_sync_host_uptime :: "32 word"
  sibling_listen_addr :: ComboAddress
  webserver_listen_addr :: string
  webserver_password :: string

datatype http_request = Http_Get string string | Http_Post string string string

definition auth_header :: "string \<Rightarrow> string \<times> string" where
  "auth_header password = (''Authorization'', ''Basic '' @ Base64Encode (''wforce'' @ '':'' @ password))"

definition callWforceGetURL :: "json_lib \<Rightarrow> sync_env \<Rightarrow> string \<Rightarrow> string \<Rightarrow> Json \<times> string" where
  "callWforceGetURL J H url password = js_parse J (se_get H url [auth_header password])"

definition callWforcePostURL :: "json_lib \<Rightarrow> sync_env \<Rightarrow> string \<Rightarrow> string \<Rightarrow> string \<Rightarrow> Json \<times> string" where
  "callWforcePostURL J H url password pbody =
     (case se_post H url pbody [auth_header password, (''Content-Type'', ''application/json'')] of
        Inr post_res \<Rightarrow> js_parse J post_res
      | Inl post_err \<Rightarrow> (JNull, post_err))"

section \<open>The starting daemon\<close>

definition checkHostUptime :: "json_lib \<Rightarrow> sync_env \<Rightarrow> string \<Rightarrow> string \<Rightarrow> wforce \<Rightarrow> wforce \<times> 32 word" where
  "checkHostUptime J H url password s =
     (case callWforceGetURL J H url password of
        (msg, err) \<Rightarrow>
          (if is_null msg
           then (log_line Error (''checkSyncHosts: No valid response from sync host: '' @ url @ '' [Error: '' @ err @ '']'') s, 0)
           else if is_null (js_get msg ''uptime'')
           then (log_line Error (''checkSyncHosts: No uptime in response from sync host: '' @ url) s, 0)
           else let ret_uptime = word_of_int (int_value J (js_get msg ''uptime''))
                in (log_line Info (''checkSyncHosts: uptime: '' @ nat_to_string (unat ret_uptime)
                      @ '' returned from sync host: '' @ url) s, ret_uptime)))"

definition sync_request :: "netlib \<Rightarrow> syncData \<Rightarrow> string \<Rightarrow> Json" where
  "sync_request N D key =
     js_object [(''replication_host'', JString (ca_toString N (sibling_listen_addr D))),
       (''replication_port'', JInt (uint (getPort (sibling_listen_addr D)))),
       (''callback_url'', JString (webserver_listen_addr D @ ''/?command=syncDone'')),
       (''callback_auth_pw'', JString (webserver_password D)),
       (''encryption_key'', JString key)]"

text \<open>The request to one host and what its answer means: the new state and whether the host has agreed.\<close>

definition ask_host :: "web_env \<Rightarrow> sync_env \<Rightarrow> syncData \<Rightarrow> string \<Rightarrow> string \<times> string \<Rightarrow> wforce \<Rightarrow> wforce \<times> bool" where
  "ask_host V H D key h s =
     (let sync_url = fst h @ ''/?command=syncDBs''
      in case callWforcePostURL (we_json V) H sync_url (snd h) (js_dump (we_json V) (sync_request (we_net V) D key)) of
           (msg, err) \<Rightarrow>
             (if is_null msg
              then (log_line Error (''checkSyncHosts: No valid response from sync host: '' @ sync_url @ '' [Error: '' @ err @ '']'') s, False)
              else if is_null (js_get msg ''status'')
              then (log_line Error (''checkSyncHosts: No status in response from sync host: '' @ sync_url) s, False)
              else if string_value (js_get msg ''status'') = ''ok''
              then (log_line Info (''checkSyncHosts: Successful request to synchronize DBs with sync host: '' @ fst h) s, True)
              else (log_line Error (''checkSyncHosts: Error returned status='' @ string_value (js_get msg ''status'')
                      @ '' from sync_host: '' @ sync_url) s, False)))"

fun sync_hosts_loop ::
    "web_env \<Rightarrow> sync_env \<Rightarrow> syncData \<Rightarrow> string \<Rightarrow> (string \<times> string) list \<Rightarrow> wforce \<times> http_request list
     \<Rightarrow> (wforce \<times> http_request list) \<times> bool" where
  "sync_hosts_loop V H D key [] sq = (sq, False)"
| "sync_hosts_loop V H D key (h # hosts) sq =
     (case sq of (s, reqs) \<Rightarrow>
        (let stats_url = fst h @ ''/?command=stats''; reqs1 = reqs @ [Http_Get stats_url (snd h)]
         in case checkHostUptime (we_json V) H stats_url (snd h) s of
              (s1, uptime) \<Rightarrow>
                (if min_sync_host_uptime D < uptime
                 then let reqs2 = reqs1 @ [Http_Post (fst h @ ''/?command=syncDBs'') (snd h)
                                             (js_dump (we_json V) (sync_request (we_net V) D key))]
                      in (case ask_host V H D key h s1 of
                            (s2, True) \<Rightarrow> ((s2, reqs2), True)
                          | (s2, False) \<Rightarrow> sync_hosts_loop V H D key hosts (s2, reqs2))
                 else sync_hosts_loop V H D key hosts (s1, reqs1))))"

definition checkSyncHosts :: "web_env \<Rightarrow> sync_env \<Rightarrow> syncData \<Rightarrow> wforce \<Rightarrow> wforce \<times> http_request list" where
  "checkSyncHosts V H D s =
     (case sync_hosts_loop V H D (d_default_key (g_replication s)) (sync_hosts D) (s, []) of
        ((s1, reqs), found_sync_host) \<Rightarrow> (if found_sync_host then s1 else s1\<lparr>g_ping_up := True\<rparr>, reqs))"

section \<open>The running daemon\<close>

definition try_sync :: "web_env \<Rightarrow> Json \<Rightarrow> wforce \<Rightarrow> (wforce, unit) outcome" where
  "try_sync V msg s =
     (if is_null (js_get msg ''replication_host'') \<or> is_null (js_get msg ''replication_port'')
         \<or> is_null (js_get msg ''callback_url'') \<or> is_null (js_get msg ''callback_auth_pw'')
      then Exn (Wforce_Exception ''One of mandatory parameters [replication_host, replication_port, callback_url, callback_auth_pw] is missing'') s
      else case new_ComboAddress (we_net V) (string_value (js_get msg ''replication_host''))
                  (word_of_int (int_value (we_json V) (js_get msg ''replication_port''))) of
             Inl e \<Rightarrow> Exn e s
           | Inr replication_ca \<Rightarrow>
               (let encryption_key = (if is_null (js_get msg ''encryption_key'') then d_default_key (g_replication s)
                                      else string_value (js_get msg ''encryption_key''))
                in Ret (s\<lparr>g_jobs := g_jobs s @ [SyncDB replication_ca (string_value (js_get msg ''callback_url''))
                            (string_value (js_get msg ''callback_auth_pw'')) encryption_key]\<rparr>) ()))"

definition parseSyncCmd where "parseSyncCmd V = sibling_cmd ''syncDBs'' (try_sync V) V"

definition dump_error :: "string \<Rightarrow> sync_env \<Rightarrow> exn \<Rightarrow> string" where
  "dump_error what H e =
     what @ '' did not complete. ['' @ (case e of Network_Error \<Rightarrow> ''Network Error: '' | Wforce_Exception _ \<Rightarrow> ''Wforce Error: ''
        | Netmask_Exception _ \<Rightarrow> ''Wforce Error: '' | _ \<Rightarrow> ''exception Error: '') @ se_what H e @ '']''"

definition sync_callback :: "web_env \<Rightarrow> sync_env \<Rightarrow> string \<Rightarrow> string \<Rightarrow> wforce \<Rightarrow> wforce" where
  "sync_callback V H callback_url callback_pw s =
     (case callWforceGetURL (we_json V) H callback_url callback_pw of
        (msg, err) \<Rightarrow>
          (if is_null msg
           then log_line Error (''Synchronizing DBs callback to: '' @ callback_url
                  @ '' failed due to no parseable result returned [Error: '' @ err @ '']'') s
           else if \<not> is_null (js_get msg ''status'') \<and> string_value (js_get msg ''status'') = ''ok''
           then log_line Notice (''Synchronizing DBs callback to: '' @ callback_url @ '' was successful'') s
           else log_line Error (''Synchronizing DBs callback to: '' @ callback_url
                  @ '' was unsuccessful (no status=ok in result)'') s))"

text \<open>The thread: the daemon afterwards, the bytes it has written to the connection and the request it made.\<close>

definition syncDBThread ::
    "web_env \<Rightarrow> sync_env \<Rightarrow> ComboAddress \<Rightarrow> string \<Rightarrow> string \<Rightarrow> string \<Rightarrow> wforce \<Rightarrow> (wforce \<times> string \<times> http_request) option" where
  "syncDBThread V H ca callback_url callback_pw encryption_key s =
     (let to = ''Synchronizing DBs to: '' @ toStringWithPort (we_net V) ca;
          s1 = log_line Notice (to @ '', will notify on callback url: '' @ callback_url) s
      in case dumpDBToNetwork (we_sib V) (se_box H) (se_codec H) (se_writes H) ca encryption_key (g_dbMap s1) of
           Undef \<Rightarrow> None
         | Ret d num_synced \<Rightarrow>
             Some (sync_callback V H callback_url callback_pw
                     (log_line Info (to @ '' was completed. Synced '' @ nat_to_string (unat num_synced) @ '' entries.'') s1),
                   dk_sent d, Http_Get callback_url callback_pw)
         | Exn e d \<Rightarrow>
             Some (sync_callback V H callback_url callback_pw (log_line Error (dump_error to H e) s1),
                   dk_sent d, Http_Get callback_url callback_pw))"

section \<open>The dump as text\<close>

record text_sock =
  ts_sent :: string
  ts_writes :: nat

definition text_writen :: "(nat \<Rightarrow> write_result) \<Rightarrow> string \<Rightarrow> text_sock \<Rightarrow> (text_sock, unit) outcome" where
  "text_writen X bytes k =
     (if bytes = [] then Ret k ()
      else case X (ts_writes k) of
             Written \<Rightarrow> Ret \<lparr>ts_sent = ts_sent k @ bytes, ts_writes = Suc (ts_writes k)\<rparr> ()
           | Write_Fails n \<Rightarrow> Exn Network_Error \<lparr>ts_sent = ts_sent k @ take n bytes, ts_writes = Suc (ts_writes k)\<rparr>)"

text \<open>The array of windows is declared outside the loop over the fields, so it keeps those of the fields before.\<close>

fun dump_fields :: "(string \<times> 32 word list) list \<Rightarrow> Json list \<Rightarrow> (string \<times> Json) list \<Rightarrow> (string \<times> Json) list" where
  "dump_fields [] windows obj = obj"
| "dump_fields ((fld, ws) # entry) windows obj =
     (let windows' = windows @ map (\<lambda>w. JInt (sint w)) ws
      in dump_fields entry windows' (sm_insert fld (JArray windows') obj))"

fun dump_text_keys ::
    "json_lib \<Rightarrow> sk_env \<Rightarrow> (nat \<Rightarrow> int \<times> int) \<Rightarrow> (nat \<Rightarrow> write_result) \<Rightarrow> string list \<Rightarrow> TWStatsDB \<times> text_sock
     \<Rightarrow> (TWStatsDB \<times> text_sock, nat) outcome" where
  "dump_text_keys J E clk X [] dk = Ret dk 0"
| "dump_text_keys J E clk X (key # keys) dk =
     (case dk of (db, k) \<Rightarrow>
        obind (map_state (\<lambda>db'. (db', k)) (DBGetEntry E clk key db)) (\<lambda>dk1 r.
          (case r of
             None \<Rightarrow> dump_text_keys J E clk X keys dk1
           | Some entry \<Rightarrow>
               (case dk1 of (db1, k1) \<Rightarrow>
                  obind (map_state (Pair db1)
                    (obind (text_writen X (quoted key @ '': '') k1) (\<lambda>k2 _.
                     obind (text_writen X (js_dump J (JObject (dump_fields entry [] []))) k2) (\<lambda>k3 _.
                     if keys = [] then Ret k3 () else text_writen X '','' k3))))
                  (\<lambda>dk2 _. obind (dump_text_keys J E clk X keys dk2) (\<lambda>dk3 n. Ret dk3 (Suc n)))))))"

fun dump_text_shards ::
    "json_lib \<Rightarrow> sk_env \<Rightarrow> (nat \<Rightarrow> int \<times> int) \<Rightarrow> (nat \<Rightarrow> write_result) \<Rightarrow> TWStatsDB list \<Rightarrow> text_sock
     \<Rightarrow> (TWStatsDB list \<times> text_sock, nat) outcome" where
  "dump_text_shards J E clk X [] k = Ret ([], k) 0"
| "dump_text_shards J E clk X (db # dbs) k =
     obind (map_state (\<lambda>(db', k'). (db' # dbs, k')) (dump_text_keys J E clk X (key_tracker db) (db, k))) (\<lambda>dk n.
       case dk of (dbs', k1) \<Rightarrow>
         obind (map_state (\<lambda>(dbs'', k'). (hd dbs' # dbs'', k')) (dump_text_shards J E clk X dbs k1)) (\<lambda>dk2 m. Ret dk2 (n + m)))"

fun dump_text_dbs ::
    "json_lib \<Rightarrow> sk_env \<Rightarrow> (nat \<Rightarrow> int \<times> int) \<Rightarrow> (nat \<Rightarrow> write_result) \<Rightarrow> (string \<times> TWStringStatsDBWrapper) list \<Rightarrow> text_sock
     \<Rightarrow> ((string \<times> TWStringStatsDBWrapper) list \<times> text_sock, nat) outcome" where
  "dump_text_dbs J E clk X [] k = Ret ([], k) 0"
| "dump_text_dbs J E clk X ((name, sdb) # m) k =
     (let put = (\<lambda>dbs. (name, sdb\<lparr>sdbvp := dbs\<rparr>) # m)
      in obind (map_state (Pair ((name, sdb) # m)) (text_writen X (quoted name @ '': {'') k)) (\<lambda>mk _.
         obind (map_state (\<lambda>(dbs, k'). (put dbs, k')) (dump_text_shards J E clk X (sdbvp sdb) (snd mk))) (\<lambda>mk1 n.
         obind (map_state (Pair (fst mk1)) (text_writen X ''}'' (snd mk1))) (\<lambda>mk2 _.
         obind (map_state (\<lambda>(m', k'). (hd (fst mk2) # m', k')) (dump_text_dbs J E clk X m (snd mk2))) (\<lambda>mk3 n'. Ret mk3 (n + n'))))))"

definition dumpEntriesToNetwork ::
    "json_lib \<Rightarrow> sib_env \<Rightarrow> sk_env \<Rightarrow> (nat \<Rightarrow> int \<times> int) \<Rightarrow> (nat \<Rightarrow> write_result) \<Rightarrow> ComboAddress
     \<Rightarrow> (string \<times> TWStringStatsDBWrapper) list \<Rightarrow> ((string \<times> TWStringStatsDBWrapper) list \<times> text_sock, 32 word) outcome" where
  "dumpEntriesToNetwork J S E clk X ca my_dbmap =
     (let k = \<lparr>ts_sent = [], ts_writes = 0\<rparr>
      in if \<not> socket_ok S ca \<or> \<not> connect_ok S ca then Exn Network_Error (my_dbmap, k)
         else obind (map_state (Pair my_dbmap) (text_writen X ''{'' k)) (\<lambda>mk _.
              obind (dump_text_dbs J E clk X my_dbmap (snd mk)) (\<lambda>mk1 n.
              obind (map_state (Pair (fst mk1)) (text_writen X ''}'' (snd mk1))) (\<lambda>mk2 _.
              Ret mk2 (word_of_nat n)))))"

text \<open>The thread holds the lock it was given until it ends.\<close>

definition dumpEntriesThread ::
    "web_env \<Rightarrow> sync_env \<Rightarrow> (nat \<Rightarrow> write_result) \<Rightarrow> ComboAddress \<Rightarrow> wforce \<Rightarrow> (wforce \<times> string) option" where
  "dumpEntriesThread V H X ca s =
     (let to = ''Dump of Entries to: '' @ toStringWithPort (we_net V) ca;
          s1 = log_line Notice (''Dumping Entries to: '' @ toStringWithPort (we_net V) ca) s
      in case dumpEntriesToNetwork (we_json V) (we_sib V) (we_sk V) (we_clock V) X ca (g_dbMap s1) of
           Undef \<Rightarrow> None
         | Ret mk num_synced \<Rightarrow>
             Some (log_line Info (to @ '' was completed. Dumped '' @ nat_to_string (unat num_synced) @ '' entries.'')
                     (s1\<lparr>g_dbMap := fst mk, dump_mutex := False\<rparr>), ts_sent (snd mk))
         | Exn e mk \<Rightarrow>
             Some (log_line Error (dump_error to H e) (s1\<lparr>g_dbMap := fst mk, dump_mutex := False\<rparr>), ts_sent (snd mk)))"

definition parseDumpEntriesCmd ::
    "web_env \<Rightarrow> string \<Rightarrow> string \<Rightarrow> wforce \<times> HttpResponse \<Rightarrow> (wforce \<times> HttpResponse, unit) outcome" where
  "parseDumpEntriesCmd V command body sr =
     (case sr of (s, resp) \<Rightarrow>
        (let count = incCommandStat ''dumpEntries'';
             fail = (\<lambda>reason. Ret (count (log_line Error (''Exception in command ['' @ command @ ''] exception: '' @ reason) s),
                                   setErrorCodeAndReason V 500 reason resp) ())
         in case js_parse_c (we_json V) body of
              (msg, err) \<Rightarrow>
                (if is_null msg then Ret (count s, setErrorCodeAndReason V 400 err resp) ()
                 else if is_null (js_get msg ''dump_host'') \<or> is_null (js_get msg ''dump_port'')
                 then fail ''One of mandatory parameters [dump_host, dump_port] is missing''
                 else case new_ComboAddress (we_net V) (string_value (js_get msg ''dump_host''))
                             (word_of_int (int_value (we_json V) (js_get msg ''dump_port''))) of
                        Inl e \<Rightarrow> (case program_exn e of None \<Rightarrow> Exn e (s, resp\<lparr>resp_code := 200\<rparr>) | Some reason \<Rightarrow> fail reason)
                      | Inr ca \<Rightarrow>
                          (if dump_mutex s
                           then Ret (count s, setErrorCodeAndReason V 503 ''A DB dump is already in progress'' resp) ()
                           else Ret (count (s\<lparr>dump_mutex := True, g_jobs := g_jobs s @ [DumpEntries ca]\<rparr>),
                                     \<lparr>resp_code = 200, resp_body = status_ok\<rparr>) ()))))"

section \<open>The handshake\<close>

definition sync_up :: "web_env \<Rightarrow> sync_env \<Rightarrow> syncData \<Rightarrow> string \<times> string \<Rightarrow> bool" where
  "sync_up V H D h \<longleftrightarrow>
     (let msg = fst (callWforceGetURL (we_json V) H (fst h @ ''/?command=stats'') (snd h))
      in \<not> is_null msg \<and> \<not> is_null (js_get msg ''uptime'')
         \<and> min_sync_host_uptime D < word_of_int (int_value (we_json V) (js_get msg ''uptime'')))"

definition sync_agrees :: "web_env \<Rightarrow> sync_env \<Rightarrow> syncData \<Rightarrow> string \<Rightarrow> string \<times> string \<Rightarrow> bool" where
  "sync_agrees V H D key h \<longleftrightarrow>
     (let msg = fst (callWforcePostURL (we_json V) H (fst h @ ''/?command=syncDBs'') (snd h)
                       (js_dump (we_json V) (sync_request (we_net V) D key)))
      in \<not> is_null msg \<and> \<not> is_null (js_get msg ''status'') \<and> string_value (js_get msg ''status'') = ''ok'')"

definition host_requests :: "web_env \<Rightarrow> sync_env \<Rightarrow> syncData \<Rightarrow> string \<Rightarrow> string \<times> string \<Rightarrow> http_request list" where
  "host_requests V H D key h =
     Http_Get (fst h @ ''/?command=stats'') (snd h)
     # (if sync_up V H D h
        then [Http_Post (fst h @ ''/?command=syncDBs'') (snd h) (js_dump (we_json V) (sync_request (we_net V) D key))] else [])"

lemma uptime_result:
  "min_sync_host_uptime D < snd (checkHostUptime (we_json V) H (fst h @ ''/?command=stats'') (snd h) s) \<longleftrightarrow> sync_up V H D h"
  unfolding checkHostUptime_def sync_up_def by (simp add: Let_def split: prod.split)

lemma ask_result: "snd (ask_host V H D key h s) \<longleftrightarrow> sync_agrees V H D key h"
  unfolding ask_host_def sync_agrees_def by (simp add: Let_def split: prod.split)

lemma log_keeps [simp]:
  "g_ping_up (log_line l t s) = g_ping_up s" "g_replication (log_line l t s) = g_replication s" "g_dbMap (log_line l t s) = g_dbMap s"
  "g_jobs (log_line l t s) = g_jobs s"
  by (simp_all add: log_line_def)

lemma asking_keeps [simp]:
  "g_ping_up (fst (checkHostUptime J H url pw s)) = g_ping_up s" "g_ping_up (fst (ask_host V H D key h s)) = g_ping_up s"
  unfolding checkHostUptime_def ask_host_def Let_def by (simp_all split: prod.split)

lemma sync_hosts_loop_spec:
  "case sync_hosts_loop V H D key hosts (s, reqs) of ((s', reqs'), found) \<Rightarrow>
     (let agreed = (\<lambda>h. sync_up V H D h \<and> sync_agrees V H D key h)
      in found = (\<exists>h \<in> set hosts. agreed h) \<and> g_ping_up s' = g_ping_up s
         \<and> reqs' = reqs @ concat (map (host_requests V H D key) (takeWhile (\<lambda>h. \<not> agreed h) hosts))
                    @ (case find agreed hosts of None \<Rightarrow> [] | Some h \<Rightarrow> host_requests V H D key h))"
proof (induction hosts arbitrary: s reqs)
  case (Cons h hosts)
  obtain s1 u where u: "checkHostUptime (we_json V) H (fst h @ ''/?command=stats'') (snd h) s = (s1, u)" by fastforce
  obtain s2 b where b: "ask_host V H D key h s1 = (s2, b)" by fastforce
  have keep: "g_ping_up s1 = g_ping_up s" "g_ping_up s2 = g_ping_up s"
    using asking_keeps(1)[of "we_json V" H "fst h @ ''/?command=stats''" "snd h" s] asking_keeps(2)[of V H D key h s1] u b by simp_all
  have up: "min_sync_host_uptime D < u \<longleftrightarrow> sync_up V H D h" using uptime_result[of D V H h s] u by simp
  have ag: "b \<longleftrightarrow> sync_agrees V H D key h" using ask_result[of V H D key h s1] b by simp
  consider "\<not> sync_up V H D h" | "sync_up V H D h" "\<not> sync_agrees V H D key h" | "sync_up V H D h" "sync_agrees V H D key h" by blast
  then show ?case
  proof cases
    case 1
    then show ?thesis using Cons.IH[of s1 "reqs @ [Http_Get (fst h @ ''/?command=stats'') (snd h)]"] up keep
      by (simp add: u host_requests_def split: prod.splits)
  next
    case 2
    then show ?thesis
      using Cons.IH[of s2 "(reqs @ [Http_Get (fst h @ ''/?command=stats'') (snd h)]) @ [Http_Post (fst h @ ''/?command=syncDBs'') (snd h)
         (js_dump (we_json V) (sync_request (we_net V) D key))]"] up ag keep
      by (simp add: u b host_requests_def split: prod.splits)
  next
    case 3
    then show ?thesis using up ag keep by (simp add: u b host_requests_def)
  qed
qed simp

text \<open>
  A starting daemon asks the configured hosts in their order, and stops at the first one that has been up long
  enough and agrees to synchronise: it asks each host for its uptime, sends the request only to hosts whose uptime
  exceeds the minimum, and no host after the one that agreed is contacted. It declares itself ready at once
  exactly when no host agreed; otherwise its readiness is left to the callback.
\<close>

lemma first_willing_host_is_asked:
  "case checkSyncHosts V H D s of (s', reqs) \<Rightarrow>
     (let key = d_default_key (g_replication s);
          agreed = (\<lambda>h. sync_up V H D h \<and> sync_agrees V H D key h);
          first = find agreed (sync_hosts D)
      in reqs = concat (map (host_requests V H D key) (takeWhile (\<lambda>h. \<not> agreed h) (sync_hosts D)))
                @ (case first of None \<Rightarrow> [] | Some h \<Rightarrow> host_requests V H D key h)
         \<and> g_ping_up s' = (g_ping_up s \<or> first = None))"
proof -
  let ?key = "d_default_key (g_replication s)"
  have "find P xs = None \<longleftrightarrow> \<not> (\<exists>h \<in> set xs. P h)" for P :: "string \<times> string \<Rightarrow> bool" and xs by (auto simp: find_None_iff)
  then show ?thesis
    using sync_hosts_loop_spec[of V H D ?key "sync_hosts D" s "[]"]
    by (auto simp: checkSyncHosts_def Let_def split: prod.splits)
qed

lemma length_nat_to_string: "n < 10 ^ Suc k \<Longrightarrow> length (nat_to_string n) \<le> Suc k"
proof (induction k arbitrary: n)
  case 0
  then show ?case by (simp add: nat_to_string.simps)
next
  case (Suc k)
  show ?case
  proof (cases "n < 10")
    case False
    then have "length (nat_to_string (n div 10)) \<le> Suc k" using Suc.prems by (intro Suc.IH) simp
    then show ?thesis using False by (subst nat_to_string.simps) simp
  qed (simp add: nat_to_string.simps)
qed

lemma port_text: "length (int_to_string (uint (p :: 16 word))) \<le> 9"
proof -
  have "unat p < 2 ^ LENGTH(16)" by (rule unsigned_less)
  then have "unat p < 10 ^ Suc 4" by simp
  from length_nat_to_string[OF this] show ?thesis by (simp add: int_to_string_def)
qed

lemma sync_request_read:
  assumes "float_ok J" and "new_ComboAddress (we_net V) (ca_toString N (sibling_listen_addr D)) (getPort (sibling_listen_addr D)) = Inr (sibling_listen_addr D)"
    and "we_json V = J"
  shows "parseSyncCmd V command (js_dump J (sync_request N D key)) (s, resp) =
    Ret (incCommandStat ''syncDBs'' (s\<lparr>g_jobs := g_jobs s @ [SyncDB (sibling_listen_addr D) (webserver_listen_addr D @ ''/?command=syncDone'')
           (webserver_password D) key]\<rparr>), \<lparr>resp_code = 200, resp_body = status_ok\<rparr>) ()"
proof -
  have "json_ok 0 (sync_request N D key)"
    unfolding sync_request_def by (intro json_ok_object) (auto simp: max_depth_def)
  then have p: "js_parse_c J (js_dump J (sync_request N D key)) = (reread J (sync_request N D key), [])"
    using assms(1) js_parse_c_dump by (simp add: float_ok_def)
  have i: "int_value J (reread J (JInt (uint (getPort (sibling_listen_addr D))))) = uint (getPort (sibling_listen_addr D))"
    by (rule int_value_reread) (rule port_text)
  have obj: "\<not> is_null (reread J (sync_request N D key))" by (simp add: is_null_reread sync_request_def js_object_def)
  note f = js_get_object is_null_reread
  let ?m = "reread J (sync_request N D key)"
  have get: "js_get ?m ''replication_host'' = JString (ca_toString N (sibling_listen_addr D))"
    "js_get ?m ''replication_port'' = reread J (JInt (uint (getPort (sibling_listen_addr D))))"
    "js_get ?m ''callback_url'' = JString (webserver_listen_addr D @ ''/?command=syncDone'')"
    "js_get ?m ''callback_auth_pw'' = JString (webserver_password D)" "js_get ?m ''encryption_key'' = JString key"
    unfolding js_get_reread by (simp_all add: sync_request_def js_get_object)
  have "\<not> is_null (reread J (JInt (uint (getPort (sibling_listen_addr D)))))" by (simp only: is_null_reread) simp
  then have "try_sync V ?m s = Ret (s\<lparr>g_jobs := g_jobs s @ [SyncDB (sibling_listen_addr D) (webserver_listen_addr D @ ''/?command=syncDone'')
           (webserver_password D) key]\<rparr>) ()"
    using assms(2) i unfolding try_sync_def get assms(3) by simp
  then show ?thesis using obj by (simp add: parseSyncCmd_def sibling_cmd_def assms(3) p del: js_get_reread)
qed

lemma defined_obind: "defined m \<Longrightarrow> (\<And>s v. defined (f s v)) \<Longrightarrow> defined (obind m f)"
  by (cases m) auto

lemma send_all_defined: "defined (send_all B X key ms d)"
proof (induction ms arbitrary: d)
  case (Cons m ms)
  have w: "defined (sock_writen r bs k)" for r bs k by (simp add: sock_writen_def split: write_result.split)
  have "defined (dump_packet B X key m d)"
    unfolding dump_packet_def by (auto split: prod.split intro!: defined_obind w)
  then show ?case using Cons.IH by (auto intro: defined_obind)
qed simp

lemma sync_thread_ends: "\<exists>s' sent. syncDBThread V H ca url pw key s = Some (s', sent, Http_Get url pw)"
proof -
  have "defined (dumpDBToNetwork (we_sib V) (se_box H) (se_codec H) (se_writes H) ca key (g_dbMap s))"
    unfolding dumpDBToNetwork_def dump_dbs_sends Let_def by (auto intro!: defined_obind send_all_defined)
  then show ?thesis
    by (cases "dumpDBToNetwork (we_sib V) (se_box H) (se_codec H) (se_writes H) ca key (g_dbMap s)")
      (auto simp: syncDBThread_def Let_def)
qed

text \<open>
  C39. The request of a starting daemon is understood. The body it posts makes the other daemon answer with success and
  start one thread, with the address on which the starter listens for siblings, its encryption key, and the URL and password
  of its own web server; and whatever becomes of the transfer, that thread ends with a call of this URL, the command
  that makes the starter ready. It is assumed that both print and read numbers and addresses with the same C library, and
  that the printed address reads back.
\<close>

theorem sync_handshake:
  assumes "float_ok (we_json V)" and "we_json V' = we_json V"
    and "new_ComboAddress (we_net V') (ca_toString (we_net V) (sibling_listen_addr D)) (getPort (sibling_listen_addr D)) = Inr (sibling_listen_addr D)"
  shows "\<exists>h1. parseSyncCmd V' command (js_dump (we_json V) (sync_request (we_net V) D key)) (h, resp)
      = Ret (h1, \<lparr>resp_code = 200, resp_body = status_ok\<rparr>) ()
    \<and> (\<exists>ca url pw. g_jobs h1 = g_jobs h @ [SyncDB ca url pw key] \<and> ca = sibling_listen_addr D
        \<and> url = webserver_listen_addr D @ ''/?command=syncDone'' \<and> pw = webserver_password D
        \<and> (\<exists>h2 sent. syncDBThread V' H ca url pw key h1 = Some (h2, sent, Http_Get url pw)))
    \<and> g_dbMap h1 = g_dbMap h \<and> (\<forall>s r. g_ping_up (fst (parseSyncDoneCmd ''syncDone'' (s, r))))"
  using sync_request_read[OF assms(1,3,2), of command key h resp] sync_thread_ends
  by (simp add: incCommandStat_def parseSyncDoneCmd_def)

definition demo_sync_web :: web_env where
  "demo_sync_web = demo_web\<lparr>we_net := demo_net\<lparr>getnameinfo := (\<lambda>_. Some ''10.0.0.0'')\<rparr>\<rparr>"

definition demo_sync :: syncData where
  "demo_sync = \<lparr>sync_hosts = [(''http://10.0.0.1:8084'', ''super'')], min_sync_host_uptime = 600,
     sibling_listen_addr = CA_V4 0x0A000000 4001, webserver_listen_addr = ''http://10.0.0.0:8084'', webserver_password = ''pw''\<rparr>"

definition demo_peer :: sync_env where
  "demo_peer = \<lparr>se_get = (\<lambda>_ _. []), se_post = (\<lambda>_ _ _. Inl ''refused''), se_box = demo_box, se_codec = demo_codec,
     se_writes = (\<lambda>_. (Written, Written)), se_what = (\<lambda>_. [])\<rparr>"

theorem sync_handshake_witness:
  "\<exists>h1. parseSyncCmd demo_sync_web ''syncDBs'' (js_dump demo_float (sync_request (we_net demo_sync_web) demo_sync ''secret''))
        (demo_state0, \<lparr>resp_code = 0, resp_body = []\<rparr>) = Ret (h1, \<lparr>resp_code = 200, resp_body = status_ok\<rparr>) ()
     \<and> g_jobs h1 = [SyncDB (CA_V4 0x0A000000 4001) ''http://10.0.0.0:8084/?command=syncDone'' ''pw'' ''secret'']"
proof -
  have J: "we_json demo_sync_web = demo_float" by (simp add: demo_sync_web_def demo_web_def)
  have jobs: "g_jobs demo_state0 = []" by (simp add: demo_state0_def)
  have a: "new_ComboAddress (we_net demo_sync_web) (ca_toString (we_net demo_sync_web) (sibling_listen_addr demo_sync))
      (getPort (sibling_listen_addr demo_sync)) = Inr (sibling_listen_addr demo_sync)"
    by (simp add: demo_sync_web_def demo_sync_def ca_toString_def demo_net_def new_ComboAddress_def makeIPv4sockaddr_def
        find_char_def c_str_def)
  have d: "sibling_listen_addr demo_sync = CA_V4 0x0A000000 4001" "webserver_password demo_sync = ''pw''"
     "webserver_listen_addr demo_sync = ''http://10.0.0.0:8084''" by (simp_all add: demo_sync_def)
  show ?thesis
    using sync_handshake[of demo_sync_web demo_sync_web demo_sync "''syncDBs''" "''secret''" demo_state0 "\<lparr>resp_code = 0, resp_body = []\<rparr>"
        demo_peer] a J demo_float_ok jobs d by auto
qed

section \<open>The text dump\<close>

text \<open>A dump is refused while another one runs, and can be started again when the thread has ended, however it ended.\<close>

lemma one_dump_at_a_time:
  assumes "parseDumpEntriesCmd V command body (s, resp) = Ret (s', resp') ()"
  shows "dump_mutex s \<Longrightarrow> g_jobs s' = g_jobs s \<and> dump_mutex s'"
    and "resp_code resp' = 200 \<Longrightarrow> \<not> dump_mutex s \<and> dump_mutex s'"
    and "dumpEntriesThread V H X ca s' = Some (s'', sent) \<Longrightarrow> \<not> dump_mutex s''"
  using assms
  by (auto simp: parseDumpEntriesCmd_def incCommandStat_def log_line_def setErrorCodeAndReason_def Let_def dumpEntriesThread_def
      split: prod.splits if_splits sum.splits option.splits outcome.splits)

text \<open>The array of a field also holds the windows of the fields before it.\<close>

lemma dump_mixes_fields:
  "dump_fields [(''a'', [1, 2]), (''b'', [3])] [] [] = [(''a'', JArray [JInt 1, JInt 2]), (''b'', JArray [JInt 1, JInt 2, JInt 3])]"
  by simp

end
