(* ===== verification/Web_Custom.thy ===== *)
theory Web_Custom
  imports Lua_Pool Web_Siblings
begin

text \<open>
  The handlers of the commands the administrator defines in Lua (\<^verbatim>\<open>parseCustomCmd\<close>, \<^verbatim>\<open>parseCustomGetCmd\<close> of \<^verbatim>\<open>wforce-web.cc\<close>)
  and of the process statistics. A custom function is called through the pool of Lua states; \<open>ctxs\<close> are the contexts of
  the states, and the pool is part of the state of the handlers.
\<close>

type_synonym lua_contexts = "nat \<Rightarrow> (AllowReturn, wforce, lua_exn) LuaThreadContext"

section \<open>Custom functions\<close>

fun custom_error_log :: "string \<Rightarrow> lua_exn \<Rightarrow> string" where
  "custom_error_log command (Lua_Error w None) = ''Lua custom function ['' @ command @ ''] exception: '' @ w"
| "custom_error_log command e = ''Exception in command ['' @ command @ ''] exception: '' @ lua_reason e"

definition custom_failed :: "web_env \<Rightarrow> string \<Rightarrow> lua_exn \<Rightarrow> wforce \<times> HttpResponse \<Rightarrow> wforce \<times> HttpResponse" where
  "custom_failed V command e sr =
     (log_line Error (custom_error_log command e) (fst sr), setErrorCodeAndReason V 500 (lua_reason e) (snd sr))"

definition custom_answer :: "bool \<Rightarrow> (string \<times> string) list \<Rightarrow> Json" where
  "custom_answer status ret_attrs =
     js_object [(''success'', JBool status), (''r_attrs'', JObject (fold (\<lambda>(k, v). sm_insert k (JString v)) ret_attrs []))]"

text \<open>An exception of the program that is not nested in an error of the interpreter is caught by neither clause.\<close>

definition parseCustomCmd ::
    "web_env \<Rightarrow> lua_contexts \<Rightarrow> string \<Rightarrow> string \<Rightarrow> LuaMultiThread \<times> wforce \<times> HttpResponse
     \<Rightarrow> (LuaMultiThread \<times> wforce \<times> HttpResponse, unit) outcome" where
  "parseCustomCmd V ctxs command body psr =
     (case psr of (p, s, resp) \<Rightarrow>
        (case js_parse_c (we_json V) body of
           (msg, err) \<Rightarrow>
             (if is_null msg then Ret (p, incCommandStat command s, setErrorCodeAndReason V 400 err resp) ()
              else let cfa = cfa_setAttrs msg
                   in case mt_custom_func ctxs command cfa False s p of
                        Ret p1 (reportSink, s1, Inr (status, ret_attrs)) \<Rightarrow>
                          (let s2 = (if reportSink then sendNamedReportSink (cfa_serialize (we_json V) cfa) s1 else s1)
                           in Ret (p1, incCommandStat command s2,
                                \<lparr>resp_code = 200, resp_body = js_dump (we_json V) (custom_answer status ret_attrs)\<rparr>) ())
                      | Ret p1 (reportSink, s1, Inl (Program_Exception r)) \<Rightarrow> Exn (Wforce_Exception r) (p1, s1, resp)
                      | Ret p1 (reportSink, s1, Inl e) \<Rightarrow>
                          (case custom_failed V command e (s1, resp) of (s2, resp2) \<Rightarrow> Ret (p1, incCommandStat command s2, resp2) ())
                      | Exn e p1 \<Rightarrow> Exn e (p1, s, resp)
                      | Undef \<Rightarrow> Undef)))"

definition parseCustomGetCmd ::
    "web_env \<Rightarrow> lua_contexts \<Rightarrow> string \<Rightarrow> LuaMultiThread \<times> wforce \<times> HttpResponse
     \<Rightarrow> (LuaMultiThread \<times> wforce \<times> HttpResponse, unit) outcome" where
  "parseCustomGetCmd V ctxs command psr =
     (case psr of (p, s, resp) \<Rightarrow>
        (let count = incCommandStat (command @ ''_Get'')
         in case mt_custom_get_func ctxs command s p of
              Ret p1 (s1, Inr ret_msg) \<Rightarrow> Ret (p1, count s1, \<lparr>resp_code = 200, resp_body = ret_msg\<rparr>) ()
            | Ret p1 (s1, Inl (Program_Exception r)) \<Rightarrow> Exn (Wforce_Exception r) (p1, s1, resp)
            | Ret p1 (s1, Inl e) \<Rightarrow>
                (case custom_failed V command e (s1, resp) of (s2, resp2) \<Rightarrow> Ret (p1, count s2, resp2) ())
            | Exn e p1 \<Rightarrow> Exn e (p1, s, resp)
            | Undef \<Rightarrow> Undef))"

section \<open>Process statistics\<close>

record rusage =
  utime_sec :: int
  utime_usec :: int
  stime_sec :: int
  stime_usec :: int

text \<open>A 64-bit counter converted to \<^verbatim>\<open>int\<close>, which keeps its low 32 bits.\<close>

definition to_int :: "64 word \<Rightarrow> int" where
  "to_int x = sint (ucast x :: 32 word)"

definition msec :: "int \<Rightarrow> int \<Rightarrow> 64 word" where
  "msec sec usec = word_of_int sec * 1000 + word_of_int (usec sdiv 1000)"

definition parseStatsCmd ::
    "web_env \<Rightarrow> rusage \<Rightarrow> int \<Rightarrow> Json \<Rightarrow> Json \<Rightarrow> Json \<Rightarrow> string \<Rightarrow> wforce \<times> HttpResponse \<Rightarrow> wforce \<times> HttpResponse" where
  "parseStatsCmd V ru uptime perfStats commandStats customStats command sr =
     (case sr of (s, resp) \<Rightarrow>
        (incCommandStat ''stats'' s,
         \<lparr>resp_code = 200,
          resp_body = js_dump (we_json V)
            (js_object [(''reports'', JInt (to_int (g_reports s))), (''allows'', JInt (to_int (g_allows s))),
               (''denieds'', JInt (to_int (g_denieds s))), (''user-msec'', JInt (to_int (msec (utime_sec ru) (utime_usec ru)))),
               (''sys-msec'', JInt (to_int (msec (stime_sec ru) (stime_usec ru)))), (''uptime'', JInt uptime),
               (''perfstats'', perfStats), (''commandstats'', commandStats), (''customstats'', customStats)])\<rparr>))"

section \<open>A custom command is one call of its function\<close>

lemma mt_custom_func_takes_last:
  "lua_pool p \<noteq> [] \<Longrightarrow> mt_custom_func ctxs command cfa b s p =
     Ret p (case map_of (custom_func_map (ctxs (last (lua_pool p)))) command of
              Some f \<Rightarrow> (c_reportSink f, c_func f cfa s) | None \<Rightarrow> (b, s, Inr (False, [])))"
  unfolding mt_custom_func_def by (rule with_member_keeps_pool)

text \<open>
  The answer to a custom command: the pool is as before, and a function that returns determines the answer, which can be
  parsed and has the fields the function gave. A command without a function is answered like a failure, with code 200.
\<close>

lemma custom_command_answers:
  assumes "lua_pool p \<noteq> []" and "js_parse_c (we_json V) body = (msg, err)" and "\<not> is_null msg"
    and "map_of (custom_func_map (ctxs (last (lua_pool p)))) command = Some f" and "c_func f (cfa_setAttrs msg) s = (s1, Inr (status, attrs))"
  shows "parseCustomCmd V ctxs command body (p, s, resp) =
    Ret (p, incCommandStat command (if c_reportSink f then sendNamedReportSink (cfa_serialize (we_json V) (cfa_setAttrs msg)) s1 else s1),
         \<lparr>resp_code = 200, resp_body = js_dump (we_json V) (custom_answer status attrs)\<rparr>) ()"
  using assms by (simp add: parseCustomCmd_def mt_custom_func_takes_last Let_def)

lemma missing_custom_function_is_ok:
  assumes "lua_pool p \<noteq> []" and "js_parse_c (we_json V) body = (msg, err)" and "\<not> is_null msg"
    and "map_of (custom_func_map (ctxs (last (lua_pool p)))) command = None"
  shows "parseCustomCmd V ctxs command body (p, s, resp) =
    Ret (p, incCommandStat command s, \<lparr>resp_code = 200, resp_body = js_dump (we_json V) (custom_answer False [])\<rparr>) ()"
  using assms by (simp add: parseCustomCmd_def mt_custom_func_takes_last Let_def)

lemma custom_answer_fields:
  "js_get (custom_answer status attrs) ''success'' = JBool status"
  "js_get (js_get (custom_answer status attrs) ''r_attrs'') k = (case map_of attrs k of None \<Rightarrow> JNull | Some v \<Rightarrow> JString v)"
proof -
  have "map_of (map (\<lambda>p. (fst p, JString (snd p))) attrs) k = map_option JString (map_of attrs k)" by (induction attrs) auto
  then have "map_of (fold (\<lambda>(k, v). sm_insert k (JString v)) attrs []) k = map_option JString (map_of attrs k)"
    using map_of_fold_insert[of "[]" "map (\<lambda>(k, v). (k, JString v)) attrs" k]
    by (simp add: fold_map comp_def case_prod_unfold)
  then show "js_get (js_get (custom_answer status attrs) ''r_attrs'') k = (case map_of attrs k of None \<Rightarrow> JNull | Some v \<Rightarrow> JString v)"
    by (simp add: custom_answer_def js_get_object split: option.split)
qed (simp add: custom_answer_def js_get_object)

end
