(* ===== verification/Perf_Stats.thy ===== *)
theory Perf_Stats
  imports TW_DB Json_Text
begin

text \<open>
  The statistics of the daemon about itself (\<^verbatim>\<open>common/perf-stats.cc\<close>): a database of its own, with one key, counts how long worker
  threads wait and run, how often each command was called, and what the administrator's functions count. The key of that
  database is the number 1, here the string of the digit; a result of type \<^verbatim>\<open>int\<close> is a word.
\<close>

section \<open>State\<close>

datatype PerfStat =
    WorkerThreadWait_0_1 | WorkerThreadWait_1_10 | WorkerThreadWait_10_100 | WorkerThreadWait_100_1000 | WorkerThreadWait_Slow
  | WorkerThreadRun_0_1 | WorkerThreadRun_1_10 | WorkerThreadRun_10_100 | WorkerThreadRun_100_1000 | WorkerThreadRun_Slow

record perf_stats =
  g_perfStats :: TWStatsDB
  command_stats :: "string list"
  custom_stats :: "string list"

definition perf_key :: string where
  "perf_key = ''1''"

fun stat_name :: "PerfStat \<Rightarrow> string" where
  "stat_name WorkerThreadWait_0_1 = ''WTW_0_1''"
| "stat_name WorkerThreadWait_1_10 = ''WTW_1_10''"
| "stat_name WorkerThreadWait_10_100 = ''WTW_10_100''"
| "stat_name WorkerThreadWait_100_1000 = ''WTW_100_1000''"
| "stat_name WorkerThreadWait_Slow = ''WTW_Slow''"
| "stat_name WorkerThreadRun_0_1 = ''WTR_0_1''"
| "stat_name WorkerThreadRun_1_10 = ''WTR_1_10''"
| "stat_name WorkerThreadRun_10_100 = ''WTR_10_100''"
| "stat_name WorkerThreadRun_100_1000 = ''WTR_100_1000''"
| "stat_name WorkerThreadRun_Slow = ''WTR_Slow''"

text \<open>The statistics in the order of the enumeration, which is that of the map they are looked up in.\<close>

definition perf_stat_list :: "PerfStat list" where
  "perf_stat_list =
     [WorkerThreadWait_0_1, WorkerThreadWait_1_10, WorkerThreadWait_10_100, WorkerThreadWait_100_1000, WorkerThreadWait_Slow,
      WorkerThreadRun_0_1, WorkerThreadRun_1_10, WorkerThreadRun_10_100, WorkerThreadRun_100_1000, WorkerThreadRun_Slow]"

definition perf_fields :: "(string \<times> string) list" where
  "perf_fields = fold (\<lambda>(k, v). sm_insert k v)
     (map (\<lambda>s. (stat_name s, ''int'')) perf_stat_list @ [(''Command'', ''countmin''), (''Custom'', ''countmin'')]) []"

definition new_perf_stats :: "int \<Rightarrow> perf_stats" where
  "new_perf_stats now = \<lparr>g_perfStats = new_TWStatsDB now ''perfStats'' 15 20, command_stats = [], custom_stats = []\<rparr>"

definition initPerfStats :: "perf_stats \<Rightarrow> perf_stats" where
  "initPerfStats P = P\<lparr>g_perfStats := fst (db_setFields perf_fields (g_perfStats P))\<rparr>"

section \<open>Counting\<close>

definition on_perf :: "(TWStatsDB \<Rightarrow> (TWStatsDB, 'v) outcome) \<Rightarrow> perf_stats \<Rightarrow> (perf_stats, 'v) outcome" where
  "on_perf f P = map_state (\<lambda>db. P\<lparr>g_perfStats := db\<rparr>) (f (g_perfStats P))"

definition incStat :: "sk_env \<Rightarrow> int \<times> int \<times> int \<Rightarrow> PerfStat \<Rightarrow> perf_stats \<Rightarrow> (perf_stats, unit option) outcome" where
  "incStat E ts stat = on_perf (db_add_int E ts perf_key (stat_name stat) 1)"

definition addWTWStat :: "sk_env \<Rightarrow> int \<times> int \<times> int \<Rightarrow> 32 word \<Rightarrow> perf_stats \<Rightarrow> (perf_stats, unit option) outcome" where
  "addWTWStat E ts num_ms =
     (if num_ms \<le> 1 then incStat E ts WorkerThreadWait_0_1
      else if num_ms \<le> 10 then incStat E ts WorkerThreadWait_1_10
      else if num_ms \<le> 100 then incStat E ts WorkerThreadWait_10_100
      else if num_ms \<le> 1000 then incStat E ts WorkerThreadWait_100_1000
      else incStat E ts WorkerThreadWait_Slow)"

definition addWTRStat :: "sk_env \<Rightarrow> int \<times> int \<times> int \<Rightarrow> 32 word \<Rightarrow> perf_stats \<Rightarrow> (perf_stats, unit option) outcome" where
  "addWTRStat E ts num_ms =
     (if num_ms \<le> 1 then incStat E ts WorkerThreadRun_0_1
      else if num_ms \<le> 10 then incStat E ts WorkerThreadRun_1_10
      else if num_ms \<le> 100 then incStat E ts WorkerThreadRun_10_100
      else if num_ms \<le> 1000 then incStat E ts WorkerThreadRun_100_1000
      else incStat E ts WorkerThreadRun_Slow)"

definition getStat :: "sk_env \<Rightarrow> int \<times> int \<Rightarrow> PerfStat \<Rightarrow> perf_stats \<Rightarrow> (perf_stats, 32 word) outcome" where
  "getStat E ts stat = on_perf (db_get E ts perf_key (stat_name stat))"

definition set_insert :: "string \<Rightarrow> string list \<Rightarrow> string list" where
  "set_insert x xs = map fst (sm_insert x () (map (\<lambda>y. (y, ())) xs))"

definition addCommandStat :: "string \<Rightarrow> perf_stats \<Rightarrow> perf_stats" where
  "addCommandStat command_name P = P\<lparr>command_stats := set_insert command_name (command_stats P)\<rparr>"

definition perf_incCommandStat :: "sk_env \<Rightarrow> int \<times> int \<times> int \<Rightarrow> string \<Rightarrow> perf_stats \<Rightarrow> (perf_stats, unit option) outcome" where
  "perf_incCommandStat E ts command_name = on_perf (db_add_str_int E ts perf_key ''Command'' command_name 1)"

definition getCommandStat :: "sk_env \<Rightarrow> int \<times> int \<Rightarrow> string \<Rightarrow> perf_stats \<Rightarrow> (perf_stats, 32 word) outcome" where
  "getCommandStat E ts command_name = on_perf (db_get_str E ts perf_key ''Command'' command_name)"

definition addCustomStat :: "string \<Rightarrow> perf_stats \<Rightarrow> perf_stats" where
  "addCustomStat custom_name P = P\<lparr>custom_stats := set_insert custom_name (custom_stats P)\<rparr>"

definition incCustomStat :: "sk_env \<Rightarrow> int \<times> int \<times> int \<Rightarrow> string \<Rightarrow> perf_stats \<Rightarrow> (perf_stats, unit option) outcome" where
  "incCustomStat E ts custom_name = on_perf (db_add_str_int E ts perf_key ''Custom'' custom_name 1)"

definition getCustomStat :: "sk_env \<Rightarrow> int \<times> int \<Rightarrow> string \<Rightarrow> perf_stats \<Rightarrow> (perf_stats, 32 word) outcome" where
  "getCustomStat E ts custom_name = on_perf (db_get_str E ts perf_key ''Custom'' custom_name)"

section \<open>Reporting\<close>

text \<open>One reading per name, in order; \<open>clk i\<close> are the readings of the clock for the \<open>i\<close>-th.\<close>

fun read_stats ::
    "(int \<times> int \<Rightarrow> 'k \<Rightarrow> perf_stats \<Rightarrow> (perf_stats, 32 word) outcome) \<Rightarrow> (nat \<Rightarrow> int \<times> int) \<Rightarrow> nat \<Rightarrow> 'k list \<Rightarrow> perf_stats
     \<Rightarrow> (perf_stats, ('k \<times> 32 word) list) outcome" where
  "read_stats g clk i [] P = Ret P []"
| "read_stats g clk i (k # ks) P =
     obind (g (clk i) k P) (\<lambda>P1 v. obind (read_stats g clk (Suc i) ks P1) (\<lambda>P2 vs. Ret P2 ((k, v) # vs)))"

definition read_perf where "read_perf E clk P = read_stats (getStat E) clk 0 perf_stat_list P"
definition read_commands where "read_commands E clk P = read_stats (getCommandStat E) clk 0 (command_stats P) P"
definition read_custom where "read_custom E clk P = read_stats (getCustomStat E) clk 0 (custom_stats P) P"

definition stats_text :: "string \<Rightarrow> (string \<times> 32 word) list \<Rightarrow> string" where
  "stats_text sep kvs = concat (map (\<lambda>(k, v). k @ ''='' @ int_to_string (sint v) @ sep) kvs)"

definition stats_json :: "(string \<times> 32 word) list \<Rightarrow> Json" where
  "stats_json kvs = js_object (map (\<lambda>(k, v). (k, JInt (sint v))) kvs)"

definition name_stats :: "(PerfStat \<times> 32 word) list \<Rightarrow> (string \<times> 32 word) list" where
  "name_stats = map (\<lambda>(s, v). (stat_name s, v))"

definition getPerfStatsString where
  "getPerfStatsString E clk P = obind (read_perf E clk P) (\<lambda>P1 vs. Ret P1 (stats_text [CHR 0x0A] (name_stats vs)))"

definition getCommandStatsString where
  "getCommandStatsString E clk P = obind (read_commands E clk P) (\<lambda>P1 vs. Ret P1 (stats_text [CHR 0x0A] vs))"

definition getCustomStatsString where
  "getCustomStatsString E clk P = obind (read_custom E clk P) (\<lambda>P1 vs. Ret P1 (stats_text [CHR 0x0A] vs))"

definition perfStatsToJson where
  "perfStatsToJson E clk P = obind (read_perf E clk P) (\<lambda>P1 vs. Ret P1 (stats_json (name_stats vs)))"

definition commandStatsToJson where
  "commandStatsToJson E clk P = obind (read_commands E clk P) (\<lambda>P1 vs. Ret P1 (stats_json vs))"

definition customStatsToJson where
  "customStatsToJson E clk P = obind (read_custom E clk P) (\<lambda>P1 vs. Ret P1 (stats_json vs))"

text \<open>One round of the reporting thread: the lines it logs.\<close>

definition statsReportingThread ::
    "sk_env \<Rightarrow> (nat \<Rightarrow> int \<times> int) \<Rightarrow> perf_stats \<Rightarrow> (perf_stats, string list) outcome" where
  "statsReportingThread E clk P =
     obind (read_perf E clk P) (\<lambda>P1 perf.
       let l1 = ''perf stats last 300 secs: '' @ stats_text '' '' (name_stats perf)
       in obind (if command_stats P1 = [] then Ret P1 [] else
                   obind (read_commands E clk P1) (\<lambda>P2 vs. Ret P2 [''command stats last 300 secs: '' @ stats_text '' '' vs])) (\<lambda>P2 l2.
          obind (if custom_stats P2 = [] then Ret P2 [] else
                   obind (read_custom E clk P2) (\<lambda>P3 vs. Ret P3 [''custom stats last 300 secs: '' @ stats_text '' '' vs])) (\<lambda>P3 l3.
          Ret P3 (l1 # l2 @ l3))))"

section \<open>Every run time is counted once\<close>

text \<open>The values of a number of milliseconds that a statistic stands for.\<close>

fun run_range :: "PerfStat \<Rightarrow> nat set" where
  "run_range WorkerThreadRun_0_1 = {..1}"
| "run_range WorkerThreadRun_1_10 = {1<..10}"
| "run_range WorkerThreadRun_10_100 = {10<..100}"
| "run_range WorkerThreadRun_100_1000 = {100<..1000}"
| "run_range WorkerThreadRun_Slow = {1000<..}"
| "run_range _ = {}"

lemma find_only:
  "find_create_key_field E t fn wr False k f db =
     (case map_of (field_map db) f of
        None \<Rightarrow> Ret db None
      | Some ty \<Rightarrow> if \<not> type_map_has ty then Ret db None
                   else case db_entry db (k, f) of None \<Rightarrow> Ret db None | Some e \<Rightarrow> run_fn fn wr k f e db)"
  by (subst find_create_key_field.simps) (auto simp: db_entry_def Let_def split: option.splits)

lemma db_get_same_entry:
  assumes "db_entry b (k, f) = db_entry a (k, f)" "field_map b = field_map a" "db_get E ts k f a = Ret a' v"
  shows "\<exists>b'. db_get E ts k f b = Ret b' v"
proof (cases "\<exists>ty e. map_of (field_map a) f = Some ty \<and> type_map_has ty \<and> db_entry a (k, f) = Some e")
  case True
  then obtain ty e where e: "map_of (field_map a) f = Some ty" "type_map_has ty" "db_entry a (k, f) = Some e" by blast
  have "db_get E ts k f db = opt0 (run_fn (entry_sum E ts) False k f e db)" if "field_map db = field_map a" "db_entry db (k, f) = Some e" for db
    using e that by (simp add: db_get_def find_entry)
  then show ?thesis using assms e(3) by (cases "entry_sum E ts e") (simp_all add: opt0_def run_fn_def)
next
  case False
  have "db_get E ts k f db = Ret db 0" if "field_map db = field_map a" "db_entry db (k, f) = db_entry a (k, f)" for db
    using False that by (cases "map_of (field_map a) f"; cases "db_entry a (k, f)") (auto simp: db_get_def find_only opt0_def)
  then show ?thesis using assms by simp
qed

definition perf_ok :: "int \<Rightarrow> perf_stats \<Rightarrow> bool" where
  "perf_ok t P \<longleftrightarrow>
     (\<exists>good. db_inv good (g_perfStats P)) \<and> field_map (g_perfStats P) = perf_fields
     \<and> 0 < db_start_time (g_perfStats P) \<and> db_start_time (g_perfStats P) \<le> t
     \<and> (\<forall>stat. case db_entry (g_perfStats P) (perf_key, stat_name stat) of None \<Rightarrow> True | Some e \<Rightarrow> timed_int t e)"

lemma perf_field: "map_of perf_fields (stat_name stat) = Some ''int''"
  by (cases stat) (simp_all add: perf_fields_def perf_stat_list_def)

lemma stat_name_inj: "stat_name a = stat_name b \<longleftrightarrow> a = b"
  by (cases a; cases b) simp_all

lemma inc_then_get:
  assumes "env_ok E" and "perf_ok t P"
  shows "\<exists>P'. incStat E (t, t, t) stat P = Ret P' (Some ())
    \<and> (\<forall>other. \<exists>a b v. getStat E (t, t) other P = Ret a v \<and> getStat E (t, t) other P' = Ret b (v + (if other = stat then 1 else 0)))"
proof -
  let ?db = "g_perfStats P"
  obtain good where inv: "db_inv good ?db" using assms(2) by (auto simp: perf_ok_def)
  have ok: "0 < db_start_time ?db" "db_start_time ?db \<le> t" "field_map ?db = perf_fields"
    "case db_entry ?db (perf_key, stat_name s) of None \<Rightarrow> True | Some e \<Rightarrow> timed_int t e" for s
    using assms(2) by (auto simp: perf_ok_def)
  have f: "map_of (field_map ?db) (stat_name s) = Some ''int''" for s using perf_field ok(3) by simp
  obtain db1 v db2 db3 where r: "db_get E (t, t) perf_key (stat_name stat) ?db = Ret db1 v"
    "db_add_int E (t, t, t) perf_key (stat_name stat) 1 ?db = Ret db2 (Some ())"
    "db_get E (t, t) perf_key (stat_name stat) db2 = Ret db3 (v + 1)"
    "\<forall>kf. kf \<noteq> (perf_key, stat_name stat) \<longrightarrow> db_entry db2 kf = db_entry ?db kf"
    using add_get[OF assms(1) inv f ok(1,2) ok(4), of stat 1] by blast
  have fm: "field_map db2 = field_map ?db"
    using settings_eq[of db2 ?db] find_create_frame[of E t "entry_add_int 1 (t, t, t)" True True perf_key "stat_name stat" ?db db2] r(2)
    by (simp add: db_add_int_def frame_def)
  have "\<exists>a b v. getStat E (t, t) other P = Ret a v \<and> getStat E (t, t) other (P\<lparr>g_perfStats := db2\<rparr>) = Ret b (v + (if other = stat then 1 else 0))" for other
  proof (cases "other = stat")
    case True
    then show ?thesis using r(1,3) by (simp add: getStat_def on_perf_def)
  next
    case False
    obtain a w where a: "db_get E (t, t) perf_key (stat_name other) ?db = Ret a w"
      using add_get[OF assms(1) inv f ok(1,2) ok(4), of other 1] by blast
    moreover have "db_entry db2 (perf_key, stat_name other) = db_entry ?db (perf_key, stat_name other)"
      using r(4) False by (simp add: stat_name_inj)
    ultimately obtain b where "db_get E (t, t) perf_key (stat_name other) db2 = Ret b w" using db_get_same_entry fm by blast
    then show ?thesis using a False by (simp add: getStat_def on_perf_def)
  qed
  then show ?thesis using r(2) by (intro exI[of _ "P\<lparr>g_perfStats := db2\<rparr>"]) (simp add: incStat_def on_perf_def)
qed

lemma run_range_disjoint: "n \<in> run_range a \<Longrightarrow> n \<in> run_range b \<Longrightarrow> a = b"
  by (cases a; cases b) auto

lemma run_range_total: obtains stat where "n \<in> run_range stat"
proof -
  have "n \<in> (\<Union>stat \<in> {WorkerThreadRun_0_1, WorkerThreadRun_1_10, WorkerThreadRun_10_100, WorkerThreadRun_100_1000, WorkerThreadRun_Slow}. run_range stat)"
    by auto
  then show thesis using that by blast
qed

lemma addWTRStat_range: "unat num_ms \<in> run_range stat \<Longrightarrow> addWTRStat E ts num_ms = incStat E ts stat"
  by (cases stat) (simp_all add: addWTRStat_def word_le_nat_alt)

text \<open>
  Every run time of a worker is counted in exactly one statistic: after \<^verbatim>\<open>addWTRStat(num_ms)\<close> the statistic whose range
  contains the number is greater by one, and all others read as before, those of the waiting times too.
\<close>

lemma run_time_counted_once:
  assumes "env_ok E" and "perf_ok t P"
  shows "\<exists>P'. addWTRStat E (t, t, t) num_ms P = Ret P' (Some ())
    \<and> (\<forall>stat. \<exists>a b v. getStat E (t, t) stat P = Ret a v
         \<and> getStat E (t, t) stat P' = Ret b (v + (if unat num_ms \<in> run_range stat then 1 else 0)))"
proof -
  obtain st where st: "unat num_ms \<in> run_range st" using run_range_total .
  then have "unat num_ms \<in> run_range s \<longleftrightarrow> s = st" for s using run_range_disjoint by blast
  then show ?thesis using inc_then_get[OF assms, of st] by (simp add: addWTRStat_range[OF st])
qed

definition demo_perf :: perf_stats where
  "demo_perf = initPerfStats (new_perf_stats 1000)"

lemma perf_fields_types: "list_all (\<lambda>f. type_map_has (snd f)) perf_fields"
  by (simp add: perf_fields_def perf_stat_list_def type_map_has_def)

lemma demo_perf_ok: "perf_ok 1005 demo_perf"
proof -
  have "db_inv (\<lambda>_. True) (g_perfStats demo_perf)" using perf_fields_types
    by (simp add: demo_perf_def initPerfStats_def new_perf_stats_def db_setFields_def new_TWStatsDB_def db_inv_def dims_ok_def)
  then show ?thesis using perf_fields_types
    by (auto simp: perf_ok_def demo_perf_def initPerfStats_def new_perf_stats_def db_setFields_def new_TWStatsDB_def db_entry_def)
qed

end
