(* ===== verification/Web_Server.thy ===== *)
theory Web_Server
  imports Web_Allow Web_Lists Web_Sync Web_Custom State_Holder Perf_Stats
begin

text \<open>
  The web server (\<^verbatim>\<open>common/wforce-webserver.cc\<close>): which handler is registered for which path and method, and the two filters that a
  request passes before its handler runs, the access control list and the password. The routing of a request to a registered
  path and the calling of the filters belong to the drogon framework and are the parameter \<open>D\<close>; \<open>drogon_ok\<close> says what its
  documentation promises. Content types and the measuring of run times are left out.
\<close>

section \<open>String helpers\<close>

definition dns_tolower :: "char \<Rightarrow> char" where
  "dns_tolower c = (if 65 \<le> (of_char c :: nat) \<and> of_char c \<le> (90 :: nat) then char_of ((of_char c :: nat) + 32) else c)"

definition toLower :: "string \<Rightarrow> string" where
  "toLower upper = map dns_tolower upper"

lemma token_smaller: "dropWhile P s \<noteq> [] \<Longrightarrow> length (drop 1 (dropWhile Q (dropWhile P s))) < length s"
  using length_dropWhile_le[of P s] length_dropWhile_le[of Q "dropWhile P s"] length_greater_0_conv[of "dropWhile P s"]
  unfolding length_drop by linarith

text \<open>The tokens between delimiters; empty tokens are skipped.\<close>

function stringtok :: "string \<Rightarrow> string \<Rightarrow> string list" where
  "stringtok delimiters s =
     (let t = dropWhile (\<lambda>c. c \<in> set delimiters) s
      in if t = [] then []
         else takeWhile (\<lambda>c. c \<notin> set delimiters) t # stringtok delimiters (drop 1 (dropWhile (\<lambda>c. c \<notin> set delimiters) t)))"
  by pat_completeness auto
termination stringtok
  by (relation "measure (\<lambda>(d, s). length s)") (auto simp only: in_measure wf_measure split_conv intro!: token_smaller)

declare stringtok.simps [simp del]

lemma stringtok_Nil [simp]: "stringtok d [] = []"
  by (simp add: stringtok.simps)

lemma stringtok_token:
  assumes "a \<noteq> []" "set a \<inter> set d = {}" "c \<in> set d"
  shows "stringtok d (a @ c # s) = a # stringtok d s" "stringtok d a = [a]"
proof -
  obtain x xs where a: "a = x # xs" "x \<notin> set d" using assms by (cases a) auto
  have w: "takeWhile (\<lambda>c. c \<notin> set d) (a @ c # s) = a" "dropWhile (\<lambda>c. c \<notin> set d) (a @ c # s) = c # s"
    "takeWhile (\<lambda>c. c \<notin> set d) a = a" "dropWhile (\<lambda>c. c \<notin> set d) a = []"
    using assms(2,3) by (auto simp: takeWhile_append takeWhile_eq_all_conv dropWhile_append dropWhile_eq_Nil_conv)
  have n: "dropWhile (\<lambda>c. c \<in> set d) (a @ c # s) = a @ c # s" "dropWhile (\<lambda>c. c \<in> set d) a = a" using a by simp_all
  show "stringtok d (a @ c # s) = a # stringtok d s"
    by (subst stringtok.simps) (use w n a in \<open>simp add: Let_def\<close>)
  show "stringtok d a = [a]"
    unfolding stringtok.simps[of d a] n(2) Let_def w(3,4) using assms(1) by simp
qed

section \<open>The filters\<close>

definition compareAuthorization :: "string \<Rightarrow> string \<Rightarrow> (unit, bool) outcome" where
  "compareAuthorization auth_hdr expected_password =
     (if prefix ''basic '' (toLower auth_hdr)
      then case B64Decode (drop 6 auth_hdr) [] of
             Ret plain _ \<Rightarrow>
               (let cparts = stringtok '':'' plain
                in Ret () (length cparts = 2 \<and> c_str (cparts ! 1) = c_str expected_password))
           | Exn e _ \<Rightarrow> Exn e ()
           | Undef \<Rightarrow> Undef
      else Ret () False)"

datatype HTTPVerb = GET | POST | PUT | DELETE

datatype ws_filter = ACLFilter | LoginFilter

text \<open>A handler: the command, the body of the request, and the state and response.\<close>

type_synonym ws_func = "string \<Rightarrow> string \<Rightarrow> LuaMultiThread \<times> wforce \<times> HttpResponse \<Rightarrow> (LuaMultiThread \<times> wforce \<times> HttpResponse, unit) outcome"

datatype ws_handler = Command_Handler string ws_func | Query_Handler | Metrics_Handler | Livez_Handler

record route =
  rt_path :: string
  rt_method :: HTTPVerb
  rt_filters :: "ws_filter list"
  rt_handler :: ws_handler

text \<open>
  The server with what it has told drogon: the routes, the number of connections, and since \<^verbatim>\<open>init\<close> the filter objects, which
  hold a copy of the password and a local view of the access control list.
\<close>

record WforceWebserver =
  d_ACL :: "NetmaskGroup GlobalStateHolder"
  d_password :: string
  d_get_map :: "(string \<times> ws_func) list"
  d_post_map :: "(string \<times> ws_func) list"
  d_put_map :: "(string \<times> ws_func) list"
  d_delete_map :: "(string \<times> ws_func) list"
  d_num_worker_threads :: "32 word"
  d_max_conns :: "32 word"
  d_metricsNoPassword :: bool
  app_routes :: "route list"
  app_max_conns :: "32 word"
  app_threads :: "32 word"
  app_initialised :: bool
  filter_password :: string
  filter_acl :: "NetmaskGroup LocalStateHolder"

definition new_WforceWebserver :: WforceWebserver where
  "new_WforceWebserver =
     \<lparr>d_ACL = new_GlobalStateHolder new_NetmaskGroup, d_password = [], d_get_map = [], d_post_map = [], d_put_map = [], d_delete_map = [],
      d_num_worker_threads = 4, d_max_conns = 10000, d_metricsNoPassword = False, app_routes = [], app_max_conns = 0, app_threads = 0,
      app_initialised = False, filter_password = [], filter_acl = getLocal (new_GlobalStateHolder new_NetmaskGroup)\<rparr>"

definition setNumWorkerThreads :: "32 word \<Rightarrow> WforceWebserver \<Rightarrow> WforceWebserver" where
  "setNumWorkerThreads num_workers W = W\<lparr>d_num_worker_threads := num_workers\<rparr>"

definition setMaxConns :: "32 word \<Rightarrow> WforceWebserver \<Rightarrow> WforceWebserver" where
  "setMaxConns max_conns W = W\<lparr>app_max_conns := max_conns\<rparr>"

definition setACL :: "NetmaskGroup \<Rightarrow> WforceWebserver \<Rightarrow> WforceWebserver" where
  "setACL nmg W = W\<lparr>d_ACL := setState nmg (d_ACL W)\<rparr>"

text \<open>A mask that cannot be read throws out of \<^verbatim>\<open>modify\<close> before the new state is stored.\<close>

definition addACL :: "netlib \<Rightarrow> string \<Rightarrow> WforceWebserver \<Rightarrow> (WforceWebserver, unit) outcome" where
  "addACL N ip W =
     (case addMask_str N ip True (getCopy (d_ACL W)) of
        Ret nmg _ \<Rightarrow> Ret (W\<lparr>d_ACL := modify (\<lambda>_. nmg) (d_ACL W)\<rparr>) ()
      | Exn e _ \<Rightarrow> Exn e W
      | Undef \<Rightarrow> Undef)"

definition getACL :: "WforceWebserver \<Rightarrow> NetmaskGroup" where
  "getACL W = getCopy (d_ACL W)"

definition setBasicAuthPassword :: "string \<Rightarrow> WforceWebserver \<Rightarrow> WforceWebserver" where
  "setBasicAuthPassword password W = W\<lparr>d_password := password\<rparr>"

definition setMetricsNoPassword :: "WforceWebserver \<Rightarrow> WforceWebserver" where
  "setMetricsNoPassword W = W\<lparr>d_metricsNoPassword := True\<rparr>"

section \<open>Registering\<close>

definition keep_first :: "string \<Rightarrow> ws_func \<Rightarrow> (string \<times> ws_func) list \<Rightarrow> (string \<times> ws_func) list" where
  "keep_first command wsf m = (case map_of m command of None \<Rightarrow> (command, wsf) # m | Some _ \<Rightarrow> m)"

text \<open>The route is added also when the command has been registered before, and the result is always true.\<close>

definition registerFuncInternal :: "string \<Rightarrow> HTTPVerb \<Rightarrow> ws_func \<Rightarrow> bool \<Rightarrow> WforceWebserver \<Rightarrow> WforceWebserver" where
  "registerFuncInternal command verb wsf auth_required W =
     (let W1 = (case verb of
                  GET \<Rightarrow> W\<lparr>d_get_map := keep_first command wsf (d_get_map W)\<rparr>
                | POST \<Rightarrow> W\<lparr>d_post_map := keep_first command wsf (d_post_map W)\<rparr>
                | PUT \<Rightarrow> W\<lparr>d_put_map := keep_first command wsf (d_put_map W)\<rparr>
                | DELETE \<Rightarrow> W\<lparr>d_delete_map := keep_first command wsf (d_delete_map W)\<rparr>)
      in W1\<lparr>app_routes := app_routes W1 @
              [\<lparr>rt_path = ''/command/'' @ command, rt_method = verb,
                rt_filters = (if auth_required then [ACLFilter, LoginFilter] else [ACLFilter]), rt_handler = Command_Handler command wsf\<rparr>]\<rparr>)"

definition registerFunc where "registerFunc command verb wsf = registerFuncInternal command verb wsf True"
definition registerFuncNoAuth where "registerFuncNoAuth command verb wsf = registerFuncInternal command verb wsf False"

definition query_route :: "HTTPVerb \<Rightarrow> route" where
  "query_route verb =
     \<lparr>rt_path = ''/?command={command}'', rt_method = verb, rt_filters = [ACLFilter, LoginFilter], rt_handler = Query_Handler\<rparr>"

definition ws_init :: "WforceWebserver \<Rightarrow> WforceWebserver" where
  "ws_init W =
     (if app_initialised W then W
      else W\<lparr>app_initialised := True, filter_password := d_password W, filter_acl := getLocal (d_ACL W),
             app_threads := d_num_worker_threads W, app_max_conns := d_max_conns W,
             app_routes := app_routes W @
               [\<lparr>rt_path = ''/metrics'', rt_method = GET,
                 rt_filters = (if d_metricsNoPassword W then [ACLFilter] else [ACLFilter, LoginFilter]), rt_handler = Metrics_Handler\<rparr>,
                \<lparr>rt_path = ''/command/livez'', rt_method = GET, rt_filters = [ACLFilter], rt_handler = Livez_Handler\<rparr>,
                query_route GET, query_route POST, query_route PUT, query_route DELETE]\<rparr>)"

text \<open>The handlers that do not use the pool of Lua states directly.\<close>

definition plain_func :: "(string \<Rightarrow> string \<Rightarrow> wforce \<times> HttpResponse \<Rightarrow> (wforce \<times> HttpResponse, unit) outcome) \<Rightarrow> ws_func" where
  "plain_func f command body psr = map_state (Pair (fst psr)) (f command body (snd psr))"

definition total_func :: "(string \<Rightarrow> string \<Rightarrow> wforce \<times> HttpResponse \<Rightarrow> wforce \<times> HttpResponse) \<Rightarrow> ws_func" where
  "total_func f = plain_func (\<lambda>command body sr. Ret (f command body sr) ())"

definition registerWebserverCommands ::
    "web_env \<Rightarrow> (string \<Rightarrow> wforce \<times> HttpResponse \<Rightarrow> wforce \<times> HttpResponse) \<Rightarrow> WforceWebserver \<Rightarrow> WforceWebserver" where
  "registerWebserverCommands V stats =
     registerFuncNoAuth ''readyz'' GET (total_func (\<lambda>command body. parseReadyzCmd command))
     \<circ> registerFunc ''setSiblings'' POST (plain_func (parseSetSiblingsCmd V))
     \<circ> registerFunc ''removeSibling'' POST (plain_func (parseRemoveSiblingCmd V))
     \<circ> registerFunc ''addSibling'' POST (plain_func (parseAddSiblingCmd V))
     \<circ> registerFunc ''dumpEntries'' POST (plain_func (parseDumpEntriesCmd V))
     \<circ> registerFunc ''syncDone'' GET (total_func (\<lambda>command body. parseSyncDoneCmd command))
     \<circ> registerFunc ''syncDBs'' POST (plain_func (parseSyncCmd V))
     \<circ> registerFunc ''ping'' GET (total_func (\<lambda>command body. parsePingCmd command))
     \<circ> registerFunc ''getDBStats'' POST (plain_func (parseGetStatsCmd V))
     \<circ> registerFunc ''getWL'' GET (total_func (\<lambda>command body. parseGetWLCmd V command))
     \<circ> registerFunc ''getBL'' GET (total_func (\<lambda>command body. parseGetBLCmd V command))
     \<circ> registerFunc ''stats'' GET (total_func (\<lambda>command body. stats command))
     \<circ> registerFunc ''allow'' POST (total_func (parseAllowCmd V))
     \<circ> registerFunc ''report'' POST (total_func (parseReportCmd V))
     \<circ> registerFunc ''reset'' POST (plain_func (parseResetCmd V))
     \<circ> registerFunc ''delBLEntry'' POST (plain_func (parseDelBLEntryCmd V))
     \<circ> registerFunc ''addBLEntry'' POST (plain_func (parseAddBLEntryCmd V))
     \<circ> registerFunc ''delWLEntry'' POST (plain_func (parseDelWLEntryCmd V))
     \<circ> registerFunc ''addWLEntry'' POST (plain_func (parseAddWLEntryCmd V))"

text \<open>The names that the function adds to the process statistics on the way.\<close>

definition registerCommandStats :: "perf_stats \<Rightarrow> perf_stats" where
  "registerCommandStats = fold addCommandStat
     [''addWLEntry'', ''delWLEntry'', ''addBLEntry'', ''delBLEntry'', ''reset'', ''report'', ''allow'', ''allow_allowed'',
      ''allow_blacklisted'', ''allow_whitelisted'', ''allow_denied'', ''allow_tarpitted'', ''stats'', ''getBL'', ''getWL'', ''getDBStats'',
      ''ping'', ''syncDBs'', ''syncDone'', ''dumpEntries'', ''addSibling'', ''removeSibling'', ''setSiblings'', ''readyz'']"

section \<open>Serving a request\<close>

record http_req =
  rq_method :: HTTPVerb
  rq_path :: string
  rq_peer :: ComboAddress
  rq_peer_ip :: string
  rq_peer_ip_port :: string
  rq_authorization :: string
  rq_body :: string

record conn =
  cn_server :: WforceWebserver
  cn_pool :: LuaMultiThread
  cn_state :: wforce
  cn_resp :: HttpResponse

record drogon =
  dg_route :: "http_req \<Rightarrow> route list \<Rightarrow> (route \<times> string) option"
  dg_chain :: "(conn \<Rightarrow> (conn, bool) outcome) list \<Rightarrow> (conn \<Rightarrow> (conn, unit) outcome) \<Rightarrow> conn \<Rightarrow> (conn, unit) outcome"
  dg_metrics :: string

text \<open>
  What is relied on: a request is given to a route that was registered for its method, with the value of the path parameter, and
  the filters of the route are run in their order, each of which answers the request or passes it on; after the
  last one the handler runs.
\<close>

definition drogon_ok :: "drogon \<Rightarrow> bool" where
  "drogon_ok D \<longleftrightarrow>
     (\<forall>rq rs r c. dg_route D rq rs = Some (r, c) \<longrightarrow> r \<in> set rs \<and> rt_method r = rq_method rq)
     \<and> (\<forall>h c. dg_chain D [] h c = h c)
     \<and> (\<forall>f fs h c. dg_chain D (f # fs) h c = obind (f c) (\<lambda>c' go. if go then dg_chain D fs h c' else Ret c' ()))"

definition failure_body :: "string \<Rightarrow> string" where
  "failure_body reason = ''{'' @ quoted ''status'' @ '':'' @ quoted ''failure'' @ '', '' @ quoted ''reason'' @ '':'' @ quoted reason @ ''}''"

definition unauthorized :: "http_req \<Rightarrow> conn \<Rightarrow> conn" where
  "unauthorized rq c =
     c\<lparr>cn_state := log_line Error (''WforceWebserver: HTTP(S) Request '' @ quoted (rq_path rq) @ '' from '' @ rq_peer_ip_port rq
                    @ '': Web Authentication failed'') (cn_state c),
       cn_resp := \<lparr>resp_code = 401, resp_body = failure_body ''Unauthorized''\<rparr>\<rparr>"

definition acl_doFilter :: "http_req \<Rightarrow> conn \<Rightarrow> (conn, bool) outcome" where
  "acl_doFilter rq c =
     (case access (d_ACL (cn_server c)) (filter_acl (cn_server c)) of
        Ret l acl \<Rightarrow>
          (let c1 = c\<lparr>cn_server := (cn_server c)\<lparr>filter_acl := l\<rparr>\<rparr>
           in if ng_match (rq_peer rq) acl then Ret c1 True
              else Ret (c1\<lparr>cn_resp := \<lparr>resp_code = 401,
                     resp_body = ''{'' @ quoted ''status'' @ '':'' @ quoted ''failure'' @ '', '' @ quoted ''reason'' @ '':''
                       @ quoted ''Source IP Address not in ACL'' @ '', '' @ quoted ''ip'' @ '':'' @ quoted (rq_peer_ip rq) @ ''}''\<rparr>\<rparr>) False)
      | Exn e _ \<Rightarrow> Exn e c
      | Undef \<Rightarrow> Undef)"

definition login_doFilter :: "http_req \<Rightarrow> conn \<Rightarrow> (conn, bool) outcome" where
  "login_doFilter rq c =
     (if rq_authorization rq = [] then Ret (unauthorized rq c) False
      else case compareAuthorization (rq_authorization rq) (filter_password (cn_server c)) of
             Ret _ auth_ok \<Rightarrow> if auth_ok then Ret c True else Ret (unauthorized rq c) False
           | Exn e _ \<Rightarrow> Exn e c
           | Undef \<Rightarrow> Undef)"

fun doFilter :: "http_req \<Rightarrow> ws_filter \<Rightarrow> conn \<Rightarrow> (conn, bool) outcome" where
  "doFilter rq ACLFilter = acl_doFilter rq"
| "doFilter rq LoginFilter = login_doFilter rq"

definition fresh_response :: HttpResponse where
  "fresh_response = \<lparr>resp_code = 200, resp_body = []\<rparr>"

definition call_func :: "string \<Rightarrow> ws_func \<Rightarrow> http_req \<Rightarrow> conn \<Rightarrow> (conn, unit) outcome" where
  "call_func command f rq c =
     map_state (\<lambda>(p, s, resp). c\<lparr>cn_pool := p, cn_state := s, cn_resp := resp\<rparr>)
       (f command (rq_body rq) (cn_pool c, cn_state c, fresh_response))"

definition verb_map :: "HTTPVerb \<Rightarrow> WforceWebserver \<Rightarrow> (string \<times> ws_func) list" where
  "verb_map verb W = (case verb of GET \<Rightarrow> d_get_map W | POST \<Rightarrow> d_post_map W | PUT \<Rightarrow> d_put_map W | DELETE \<Rightarrow> d_delete_map W)"

definition handler_block :: "string \<Rightarrow> HTTPVerb \<Rightarrow> http_req \<Rightarrow> conn \<Rightarrow> (conn, unit) outcome" where
  "handler_block command verb rq c =
     (case map_of (verb_map verb (cn_server c)) command of
        Some f \<Rightarrow> call_func command f rq c
      | None \<Rightarrow> Ret (c\<lparr>cn_resp := \<lparr>resp_code = 404, resp_body = failure_body ''Not found''\<rparr>\<rparr>) ())"

fun run_handler :: "drogon \<Rightarrow> http_req \<Rightarrow> HTTPVerb \<Rightarrow> string \<Rightarrow> ws_handler \<Rightarrow> conn \<Rightarrow> (conn, unit) outcome" where
  "run_handler D rq verb param (Command_Handler command f) c = call_func command f rq c"
| "run_handler D rq verb param Query_Handler c = handler_block param verb rq c"
| "run_handler D rq verb param Metrics_Handler c = Ret (c\<lparr>cn_resp := \<lparr>resp_code = 200, resp_body = dg_metrics D\<rparr>\<rparr>) ()"
| "run_handler D rq verb param Livez_Handler c =
     Ret (c\<lparr>cn_state := incCommandStat ''livez'' (cn_state c), cn_resp := fresh_response\<rparr>) ()"

definition serve :: "drogon \<Rightarrow> http_req \<Rightarrow> conn \<Rightarrow> (conn, unit) outcome" where
  "serve D rq c =
     (case dg_route D rq (app_routes (cn_server c)) of
        None \<Rightarrow> Ret (c\<lparr>cn_resp := \<lparr>resp_code = 404, resp_body = failure_body ''Not found''\<rparr>\<rparr>) ()
      | Some (r, param) \<Rightarrow>
          dg_chain D (map (doFilter rq) (rt_filters r)) (run_handler D rq (rt_method r) param (rt_handler r)) c)"

section \<open>Nobody gets past the filters\<close>

text \<open>The routes that need no password.\<close>

definition open_route :: "bool \<Rightarrow> route \<Rightarrow> bool" where
  "open_route metrics_open r \<longleftrightarrow>
     (case rt_handler r of Livez_Handler \<Rightarrow> True | Metrics_Handler \<Rightarrow> metrics_open
      | Command_Handler command f \<Rightarrow> command = ''readyz'' | Query_Handler \<Rightarrow> False)"

definition guarded :: "bool \<Rightarrow> route \<Rightarrow> bool" where
  "guarded metrics_open r \<longleftrightarrow> rt_filters r = [ACLFilter, LoginFilter] \<or> rt_filters r = [ACLFilter] \<and> open_route metrics_open r"

lemma register_routes:
  "app_routes (registerFuncInternal command verb wsf auth W) = app_routes W @
     [\<lparr>rt_path = ''/command/'' @ command, rt_method = verb,
       rt_filters = (if auth then [ACLFilter, LoginFilter] else [ACLFilter]), rt_handler = Command_Handler command wsf\<rparr>]"
  by (cases verb) (simp_all add: registerFuncInternal_def)

text \<open>Every registered command is one whose calls are reported.\<close>

lemma set_set_insert: "set (set_insert x xs) = insert x (set xs)"
  by (simp add: set_insert_def set_sm_insert image_image)

lemma fold_addCommandStat: "set (command_stats (fold addCommandStat names P)) = set (command_stats P) \<union> set names"
  by (induction names arbitrary: P) (auto simp: addCommandStat_def set_set_insert)

lemma registered_commands_are_reported:
  assumes "r \<in> set (app_routes (registerWebserverCommands V stats W))" "r \<notin> set (app_routes W)" "rt_handler r = Command_Handler command f"
  shows "command \<in> set (command_stats (registerCommandStats P))"
  unfolding registerCommandStats_def fold_addCommandStat
  using assms by (auto simp: registerWebserverCommands_def registerFunc_def registerFuncNoAuth_def register_routes)

lemma register_keeps [simp]:
  "d_metricsNoPassword (registerFuncInternal command verb wsf auth W) = d_metricsNoPassword W"
  "d_password (registerFuncInternal command verb wsf auth W) = d_password W"
  "d_ACL (registerFuncInternal command verb wsf auth W) = d_ACL W"
  "app_initialised (registerFuncInternal command verb wsf auth W) = app_initialised W"
  by (cases verb; simp add: registerFuncInternal_def)+

lemma commands_keep [simp]:
  "d_metricsNoPassword (registerWebserverCommands V stats W) = d_metricsNoPassword W"
  "d_password (registerWebserverCommands V stats W) = d_password W"
  "d_ACL (registerWebserverCommands V stats W) = d_ACL W"
  "app_initialised (registerWebserverCommands V stats W) = app_initialised W"
  by (simp_all add: registerWebserverCommands_def registerFunc_def registerFuncNoAuth_def)

lemma commands_guarded:
  "\<forall>r \<in> set (app_routes W). guarded m r \<Longrightarrow> \<forall>r \<in> set (app_routes (registerWebserverCommands V stats W)). guarded m r"
  by (simp add: registerWebserverCommands_def registerFunc_def registerFuncNoAuth_def register_routes guarded_def open_route_def)

lemma init_guarded:
  assumes "\<forall>r \<in> set (app_routes W). guarded (d_metricsNoPassword W) r"
  shows "\<forall>r \<in> set (app_routes (ws_init W)). guarded (d_metricsNoPassword W) r"
  using assms by (auto simp: ws_init_def query_route_def guarded_def open_route_def)

definition accepted :: "string \<Rightarrow> string \<Rightarrow> bool" where
  "accepted auth_hdr password \<longleftrightarrow> auth_hdr \<noteq> [] \<and> compareAuthorization auth_hdr password = Ret () True"

text \<open>Everything but the log.\<close>

definition unlogged :: "wforce \<Rightarrow> wforce" where
  "unlogged s = s\<lparr>g_log := []\<rparr>"

lemma acl_refuses:
  assumes "access (d_ACL (cn_server c)) (filter_acl (cn_server c)) = Ret l acl"
  shows "acl_doFilter rq c = (let c1 = c\<lparr>cn_server := (cn_server c)\<lparr>filter_acl := l\<rparr>\<rparr> in
     if ng_match (rq_peer rq) acl then Ret c1 True
     else Ret (c1\<lparr>cn_resp := \<lparr>resp_code = 401,
                     resp_body = ''{'' @ quoted ''status'' @ '':'' @ quoted ''failure'' @ '', '' @ quoted ''reason'' @ '':''
                       @ quoted ''Source IP Address not in ACL'' @ '', '' @ quoted ''ip'' @ '':'' @ quoted (rq_peer_ip rq) @ ''}''\<rparr>\<rparr>) False)"
  using assms by (simp add: acl_doFilter_def Let_def)

lemma login_refuses:
  assumes "\<not> accepted (rq_authorization rq) (filter_password (cn_server c))" and "login_doFilter rq c = Ret c' go"
  shows "\<not> go \<and> c' = unauthorized rq c"
  using assms by (auto simp: accepted_def login_doFilter_def split: if_splits outcome.splits)

definition readable :: "http_req \<Rightarrow> conn \<Rightarrow> bool" where
  "readable rq c \<longleftrightarrow> (\<exists>b. compareAuthorization (rq_authorization rq) (filter_password (cn_server c)) = Ret () b)"

lemma refused_at_route:
  assumes D: "drogon_ok D" and g: "guarded m r"
    and acl: "access (d_ACL (cn_server c)) (filter_acl (cn_server c)) = Ret l acl"
    and refused: "\<not> ng_match (rq_peer rq) acl \<or> \<not> open_route m r \<and> \<not> accepted (rq_authorization rq) (filter_password (cn_server c))"
  shows "(\<forall>c'. final_state (dg_chain D (map (doFilter rq) (rt_filters r)) h c) = Some c' \<longrightarrow>
        cn_pool c' = cn_pool c \<and> unlogged (cn_state c') = unlogged (cn_state c))
    \<and> (\<not> ng_match (rq_peer rq) acl \<or> readable rq c \<longrightarrow>
        (\<exists>c'. dg_chain D (map (doFilter rq) (rt_filters r)) h c = Ret c' () \<and> resp_code (cn_resp c') = 401))"
proof -
  obtain fs where fs: "rt_filters r = ACLFilter # fs" and "\<not> open_route m r \<Longrightarrow> fs = [LoginFilter]" using g by (auto simp: guarded_def)
  let ?c1 = "c\<lparr>cn_server := (cn_server c)\<lparr>filter_acl := l\<rparr>\<rparr>"
  have step: "dg_chain D (map (doFilter rq) (rt_filters r)) h c =
     obind (acl_doFilter rq c) (\<lambda>c' go. if go then dg_chain D (map (doFilter rq) fs) h c' else Ret c' ())"
    using D by (simp add: drogon_ok_def fs)
  show ?thesis
  proof (cases "ng_match (rq_peer rq) acl")
    case False
    then show ?thesis unfolding step acl_refuses[OF acl] Let_def by auto
  next
    case True
    then have no: "\<not> accepted (rq_authorization rq) (filter_password (cn_server ?c1))" and f: "fs = [LoginFilter]"
      using refused \<open>\<not> open_route m r \<Longrightarrow> fs = [LoginFilter]\<close> by auto
    have chain: "dg_chain D (map (doFilter rq) (rt_filters r)) h c =
      obind (login_doFilter rq ?c1) (\<lambda>c' go. if go then dg_chain D [] h c' else Ret c' ())"
      using D True unfolding step acl_refuses[OF acl] Let_def by (simp add: f drogon_ok_def)
    show ?thesis
    proof (cases "login_doFilter rq ?c1")
      case (Ret c2 go)
      then show ?thesis using login_refuses[OF no] unfolding chain by (auto simp: unauthorized_def log_line_def unlogged_def)
    next
      case (Exn e c2)
      then have "c2 = ?c1" "\<not> readable rq c"
        by (auto simp: login_doFilter_def readable_def split: if_splits outcome.splits)
      then show ?thesis using Exn True unfolding chain by simp
    next
      case Undef
      then have "\<not> readable rq c" by (auto simp: login_doFilter_def readable_def split: if_splits outcome.splits)
      then show ?thesis using Undef True unfolding chain by simp
    qed
  qed
qed

text \<open>
  In a server all of whose routes are guarded, a request from an address outside the access control list, or one without
  the right password on a route that needs it, leaves the daemon as it is except for its log, and calls no Lua function. It is
  answered with 404 if no route matches and with 401 otherwise, unless the filter throws on the header.
\<close>

lemma refused_at_server:
  assumes "drogon_ok D" and "\<forall>r \<in> set (app_routes (cn_server c)). guarded m r"
    and "access (d_ACL (cn_server c)) (filter_acl (cn_server c)) = Ret l acl"
    and "\<not> ng_match (rq_peer rq) acl
      \<or> (\<forall>r p. dg_route D rq (app_routes (cn_server c)) = Some (r, p) \<longrightarrow> \<not> open_route m r)
        \<and> \<not> accepted (rq_authorization rq) (filter_password (cn_server c))"
  shows "(\<forall>c'. final_state (serve D rq c) = Some c' \<longrightarrow> cn_pool c' = cn_pool c \<and> unlogged (cn_state c') = unlogged (cn_state c))
    \<and> (dg_route D rq (app_routes (cn_server c)) = None \<or> \<not> ng_match (rq_peer rq) acl \<or> readable rq c \<longrightarrow>
        (\<exists>c'. serve D rq c = Ret c' ()
          \<and> resp_code (cn_resp c') = (if dg_route D rq (app_routes (cn_server c)) = None then 404 else 401)))"
proof (cases "dg_route D rq (app_routes (cn_server c))")
  case None
  then show ?thesis by (auto simp: serve_def)
next
  case (Some rp)
  obtain r p where rp: "rp = (r, p)" by (cases rp)
  have "r \<in> set (app_routes (cn_server c))" using assms(1) Some rp unfolding drogon_ok_def by blast
  then have "guarded m r" using assms(2) by blast
  from refused_at_route[OF assms(1) this assms(3), of rq "run_handler D rq (rt_method r) p (rt_handler r)"] show ?thesis
    using assms(4) Some rp by (auto simp: serve_def)
qed

text \<open>An instance of the framework.\<close>

fun run_chain :: "(conn \<Rightarrow> (conn, bool) outcome) list \<Rightarrow> (conn \<Rightarrow> (conn, unit) outcome) \<Rightarrow> conn \<Rightarrow> (conn, unit) outcome" where
  "run_chain [] h c = h c"
| "run_chain (f # fs) h c = obind (f c) (\<lambda>c' go. if go then run_chain fs h c' else Ret c' ())"

definition demo_drogon :: drogon where
  "demo_drogon = \<lparr>dg_route = (\<lambda>rq rs. map_option (\<lambda>r. (r, [])) (find (\<lambda>r. rt_path r = rq_path rq \<and> rt_method r = rq_method rq) rs)),
     dg_chain = run_chain, dg_metrics = []\<rparr>"

lemma demo_drogon_ok: "drogon_ok demo_drogon"
proof -
  have chain: "dg_chain demo_drogon = run_chain" by (simp add: demo_drogon_def)
  have "dg_route demo_drogon rq rs = Some (r, c) \<Longrightarrow> r \<in> set rs \<and> rt_method r = rq_method rq" for rq rs r c
    by (auto simp: demo_drogon_def find_Some_iff)
  then show ?thesis unfolding drogon_ok_def chain by simp
qed

text \<open>
  A server that has just been initialised sees the list it was configured with (the generation of a fresh local holder is
  0, that of the global one is not, unless it was changed 4294967296 times).
\<close>

lemma fresh_filter_sees_acl:
  "gh_generation g \<noteq> 0 \<Longrightarrow> access g (getLocal g) = Ret (getState g) (getCopy g)"
  by (simp add: access_def getLocal_def getState_def getCopy_def)

section \<open>Credentials\<close>

lemma toLower_basic: "prefix ''basic '' (toLower (''Basic '' @ s))"
  by (simp add: toLower_def dns_tolower_def char_of_def bit_0)

text \<open>
  C40. The daemons understand each other's credentials: the header a daemon sends for a password without a colon is accepted by
  a server exactly when the password is not empty and equals the server's password as a C string; such a header never
  makes the filter throw.
\<close>

theorem own_credentials_are_accepted:
  assumes "CHR '':'' \<notin> set pw"
  shows "compareAuthorization (snd (auth_header pw)) expected = Ret () (pw \<noteq> [] \<and> c_str pw = c_str expected)"
proof -
  have "stringtok '':'' (''wforce'' @ CHR '':'' # pw) = ''wforce'' # stringtok '':'' pw"
    by (rule stringtok_token) auto
  moreover have "stringtok '':'' pw = (if pw = [] then [] else [pw])"
    using stringtok_token(2)[of pw "'':''" "CHR '':''"] assms by auto
  ultimately show ?thesis
    using toLower_basic[of "Base64Encode (''wforce'' @ '':'' @ pw)"] b64_decode_encode[of "''wforce'' @ '':'' @ pw"]
    by (simp add: compareAuthorization_def auth_header_def)
qed

theorem own_credentials_are_accepted_witness:
  "compareAuthorization (snd (auth_header ''super'')) ''super'' = Ret () True"
  using own_credentials_are_accepted[of "''super''" "''super''"] by simp

text \<open>A password with a colon between two other characters is refused everywhere, also by the server it belongs to.\<close>

lemma colon_password_refused:
  assumes "a \<noteq> []" "b \<noteq> []" "CHR '':'' \<notin> set a" "CHR '':'' \<notin> set b"
  shows "compareAuthorization (snd (auth_header (a @ '':'' @ b))) expected = Ret () False"
proof -
  have "stringtok '':'' (''wforce'' @ CHR '':'' # (a @ CHR '':'' # b)) = ''wforce'' # stringtok '':'' (a @ CHR '':'' # b)"
    by (rule stringtok_token) auto
  moreover have "stringtok '':'' (a @ CHR '':'' # b) = [a, b]"
    using stringtok_token(1)[of a "'':''" "CHR '':''" b] stringtok_token(2)[of b "'':''" "CHR '':''"] assms by auto
  ultimately show ?thesis
    using toLower_basic[of "Base64Encode (''wforce'' @ '':'' @ a @ '':'' @ b)"] b64_decode_encode[of "''wforce'' @ '':'' @ a @ '':'' @ b"]
    by (simp add: compareAuthorization_def auth_header_def)
qed

end
