(* ===== verification/Cluster.thy ===== *)
theory Cluster
  imports Sync
begin

text \<open>
  Two daemons of a cluster: updates of a database on one of them travel through the send queue, the connection, the receive
  queue and a worker of the other. Nothing of the program is defined here; the theory composes the definitions of the theories
  \<open>TW_Wrapper\<close>, \<open>Siblings\<close>, \<open>Sod_Crypto\<close> and \<open>Replication\<close>.
\<close>

section \<open>A sequence of updates on one daemon\<close>

text \<open>
  Each update is made at its time and its operation, if there is one, is given to replication. The value lists the
  operations with their times.
\<close>

fun node_updates ::
    "secretbox \<Rightarrow> proto_codec \<Rightarrow> sk_env \<Rightarrow> netlib \<Rightarrow> ((int \<times> int \<times> int) \<times> wr_update) list
     \<Rightarrow> WforceReplication \<times> TWStringStatsDBWrapper
     \<Rightarrow> (WforceReplication \<times> TWStringStatsDBWrapper, ((int \<times> int \<times> int) \<times> ReplicationOperation) list) outcome" where
  "node_updates B C E N [] Ww = Ret Ww []"
| "node_updates B C E N ((ts, u) # us) (W, w) =
     (case up_exec E N ts u True w of
        Ret w1 None \<Rightarrow> node_updates B C E N us (W, w1)
      | Ret w1 (Some r) \<Rightarrow>
          obind (node_updates B C E N us (replicateOperation B C r W, w1)) (\<lambda>Ww ops. Ret Ww ((ts, r) # ops))
      | Exn e w1 \<Rightarrow> Exn e (W, w1)
      | Undef \<Rightarrow> Undef)"

lemma node_updates_cases:
  assumes "node_updates B C E N ((ts, u) # us) (W, w) = Ret Ww ops"
  obtains (quiet) w1 where "up_exec E N ts u True w = Ret w1 None" "node_updates B C E N us (W, w1) = Ret Ww ops"
  | (sent) w1 r ops1 where "up_exec E N ts u True w = Ret w1 (Some r)" "ops = (ts, r) # ops1"
      "node_updates B C E N us (replicateOperation B C r W, w1) = Ret Ww ops1"
  using assms by (cases "up_exec E N ts u True w") (auto split: option.splits)

text \<open>An update changes nothing of the database but its shards.\<close>

lemma on_shard_other: "on_shard key f w = Ret w1 x \<Longrightarrow> w1 = w\<lparr>sdbvp := sdbvp w1\<rparr>"
  by (cases "f (sdbvp w ! the (getShardIndex key w))") (auto simp: on_shard_def split: option.splits if_splits)

lemma update_key_other: "update_key N k f op repl w = Ret w1 x \<Longrightarrow> w1 = w\<lparr>sdbvp := sdbvp w1\<rparr>"
  using on_shard_other by (fastforce simp: update_key_def split: sum.splits)

lemma with_key_other: "with_key N k f w = Ret w1 x \<Longrightarrow> w1 = w\<lparr>sdbvp := sdbvp w1\<rparr>"
  using on_shard_other by (fastforce simp: with_key_def split: sum.splits)

lemma up_exec_other: "up_exec E N ts u repl w = Ret w1 x \<Longrightarrow> w1 = w\<lparr>sdbvp := sdbvp w1\<rparr>"
  by (cases u) (auto simp: addInternal_def subInternal_def resetInternal_def resetFieldInternal_def
      split: option.splits TWKeyType.splits TWSubParam.splits intro: update_key_other with_key_other)

text \<open>In a replicated database the only call without an operation is the one that does nothing.\<close>

lemma update_key_sends: "replicated w \<Longrightarrow> update_key N k f op True w \<noteq> Ret w1 None"
proof
  assume r: "replicated w" "update_key N k f op True w = Ret w1 None"
  have "replicated w1" using r(1) by (subst update_key_other[OF r(2)]) simp
  then show False using r(2) by (auto simp: update_key_def send_op_def split: sum.splits)
qed

lemma with_key_nothing: "with_key N k (\<lambda>_ db. Ret db None) w = Ret w1 x \<Longrightarrow> w1 = w"
  by (auto simp: with_key_def on_shard_def split: sum.splits option.splits if_splits)

lemma up_exec_quiet: "replicated w \<Longrightarrow> up_exec E N ts u True w = Ret w1 None \<Longrightarrow> w1 = w"
  by (cases u) (auto simp: addInternal_def subInternal_def resetInternal_def resetFieldInternal_def update_key_sends
      split: option.splits TWKeyType.splits TWSubParam.splits dest: with_key_nothing)

section \<open>What is queued for a sibling\<close>

lemma packet_length:
  "secretbox_ok B \<Longrightarrow> nonce_wf n \<Longrightarrow> length (snd (encryptMsgWithKey B m key n)) = length m + 40"
  by (simp add: encryptMsgWithKey_def sodEncryptSym_def secretbox_ok_def nonce_toString_def nonce_wf_def
      crypto_secretbox_NONCEBYTES_def crypto_secretbox_MACBYTES_def)

lemma encrypt_next_nonce: "nonce_wf n \<Longrightarrow> nonce_wf (fst (encryptMsgWithKey B m key n))"
  by (simp add: encryptMsgWithKey_def sodEncryptSym_def)

definition carries :: "secretbox \<Rightarrow> proto_codec \<Rightarrow> string \<Rightarrow> string \<Rightarrow> (int \<times> int \<times> int) \<times> ReplicationOperation \<Rightarrow> bool" where
  "carries B C key p op \<longleftrightarrow>
     length p = length (rep_serialize C (snd op)) + 40 \<and> decryptMsg B key p = Inr (Some (rep_serialize C (snd op)))"

lemma queue_packet_carries:
  assumes B: "secretbox_ok B" and n: "nonce_wf (d_nonce s)" and p: "carries B C key p (ts, r)"
    and room: "length (queue s) < max_queue_size s"
  shows "\<exists>q m. queue_packet B key (rep_serialize C r) p s = s\<lparr>queue := queue s @ [q], d_nonce := m\<rparr> \<and> nonce_wf m
    \<and> carries B C (if d_has_key s then d_key s else key) q (ts, r)"
proof (cases "d_has_key s \<and> d_key s \<noteq> key")
  case True
  let ?e = "encryptMsgWithKey B (rep_serialize C r) (d_key s) (d_nonce s)"
  have "queue_packet B key (rep_serialize C r) p s = s\<lparr>queue := queue s @ [snd ?e], d_nonce := fst ?e\<rparr>"
    using True room by (simp add: queue_packet_def queueMsg_def split: prod.split)
  then show ?thesis
    using packet_decrypts[OF B n] packet_length[OF B n] encrypt_next_nonce[OF n] True by (fastforce simp: carries_def)
next
  case False
  then have "queue_packet B key (rep_serialize C r) p s = s\<lparr>queue := queue s @ [p], d_nonce := d_nonce s\<rparr>"
    using room by (auto simp: queue_packet_def queueMsg_def)
  moreover have "(if d_has_key s then d_key s else key) = key" using False by auto
  ultimately show ?thesis using p n by metis
qed

lemma queue_packet_nonce: "nonce_wf (d_nonce s) \<Longrightarrow> nonce_wf (d_nonce (queue_packet B key msg p s))"
  using encrypt_next_nonce[of "d_nonce s" B msg "d_key s"]
  by (cases "encryptMsgWithKey B msg (d_key s) (d_nonce s)") (simp add: queue_packet_def queueMsg_def)

lemma replicateOperation_siblings:
  "d_siblings (replicateOperation B C r W) = map (queue_packet B (d_default_key W) (rep_serialize C r)
     (snd (encryptMsgWithKey B (rep_serialize C r) (d_default_key W) (d_sodnonce W)))) (d_siblings W)"
  "d_default_key (replicateOperation B C r W) = d_default_key W"
  "d_sodnonce (replicateOperation B C r W) = fst (encryptMsgWithKey B (rep_serialize C r) (d_default_key W) (d_sodnonce W))"
  by (simp_all add: replicateOperation_def encryptMsg_def Let_def split: prod.split)

lemma replicateOperation_nonces: "nonces_ok W \<Longrightarrow> nonces_ok (replicateOperation B C r W)"
  by (auto simp: nonces_ok_def replicateOperation_siblings encrypt_next_nonce queue_packet_nonce)

lemma replicateOperation_sibling:
  assumes B: "secretbox_ok B" and n: "nonces_ok W" and i: "i < length (d_siblings W)"
    and room: "length (queue (d_siblings W ! i)) < max_queue_size (d_siblings W ! i)"
  shows "\<exists>q m. d_siblings (replicateOperation B C r W) ! i = (d_siblings W ! i)\<lparr>queue := queue (d_siblings W ! i) @ [q], d_nonce := m\<rparr>
    \<and> carries B C (sibling_key W (d_siblings W ! i)) q (ts, r)"
proof -
  let ?p = "snd (encryptMsgWithKey B (rep_serialize C r) (d_default_key W) (d_sodnonce W))"
  have w: "nonce_wf (d_nonce (d_siblings W ! i))" "nonce_wf (d_sodnonce W)" using n i by (auto simp: nonces_ok_def)
  have "carries B C (d_default_key W) ?p (ts, r)"
    using packet_decrypts[OF B w(2)] packet_length[OF B w(2)] by (simp add: carries_def)
  from queue_packet_carries[OF B w(1) this room] show ?thesis
    using i by (auto simp: replicateOperation_siblings sibling_key_def)
qed

text \<open>After a sequence of updates the queue of a sibling has grown by one packet for each operation, in their order.\<close>

lemma updates_are_queued:
  assumes B: "secretbox_ok B"
  shows "node_updates B C E N us (W, w) = Ret (W', w') ops \<Longrightarrow> nonces_ok W \<Longrightarrow> i < length (d_siblings W) \<Longrightarrow>
    length (queue (d_siblings W ! i)) + length ops \<le> max_queue_size (d_siblings W ! i) \<Longrightarrow>
    \<exists>ps m. d_siblings W' ! i = (d_siblings W ! i)\<lparr>queue := queue (d_siblings W ! i) @ ps, d_nonce := m\<rparr>
      \<and> list_all2 (carries B C (sibling_key W (d_siblings W ! i))) ps ops"
proof (induction us arbitrary: W w ops)
  case Nil
  then have "d_siblings W' ! i = (d_siblings W ! i)\<lparr>queue := queue (d_siblings W ! i) @ [], d_nonce := d_nonce (d_siblings W ! i)\<rparr>"
    and "ops = []" by auto
  then show ?case by blast
next
  case (Cons tu us)
  obtain ts u where tu: "tu = (ts, u)" by (cases tu)
  from Cons.prems(1)[unfolded tu] show ?case
  proof (cases rule: node_updates_cases)
    case (quiet w1)
    then show ?thesis using Cons.IH Cons.prems by blast
  next
    case (sent w1 r ops1)
    let ?W = "replicateOperation B C r W" and ?s = "d_siblings W ! i"
    have "length (queue ?s) < max_queue_size ?s" using Cons.prems(4) sent(2) by simp
    from replicateOperation_sibling[OF B Cons.prems(2,3) this] obtain q m where
      q: "d_siblings ?W ! i = ?s\<lparr>queue := queue ?s @ [q], d_nonce := m\<rparr>" "carries B C (sibling_key W ?s) q (ts, r)" by blast
    have "i < length (d_siblings ?W)" "sibling_key ?W (d_siblings ?W ! i) = sibling_key W ?s"
      using Cons.prems(3) q(1) by (simp_all add: replicateOperation_siblings sibling_key_def)
    moreover have "length (queue (d_siblings ?W ! i)) + length ops1 \<le> max_queue_size (d_siblings ?W ! i)"
      using Cons.prems(4) sent(2) q(1) by simp
    ultimately obtain ps m' where "d_siblings W' ! i = (d_siblings ?W ! i)\<lparr>queue := queue (d_siblings ?W ! i) @ ps, d_nonce := m'\<rparr>"
      "list_all2 (carries B C (sibling_key W ?s)) ps ops1"
      using Cons.IH[OF sent(3) replicateOperation_nonces[OF Cons.prems(2)]] by auto
    then have "d_siblings W' ! i = ?s\<lparr>queue := queue ?s @ (q # ps), d_nonce := m'\<rparr>
      \<and> list_all2 (carries B C (sibling_key W ?s)) (q # ps) ops"
      using q sent(2) by simp
    then show ?thesis by blast
  qed
qed

section \<open>What the other daemon makes of it\<close>

definition op_item :: "proto_codec \<Rightarrow> ComboAddress \<Rightarrow> ComboAddress \<Rightarrow> (int \<times> int \<times> int) \<times> ReplicationOperation \<Rightarrow> SiblingQueueItem" where
  "op_item C remote ca op = queue_item remote ca (rep_serialize C (snd op))"

lemma update_op_wf: "up_exec E N ts u True w = Ret w' (Some r) \<Longrightarrow> rep_wf r"
  using sdb_call_peer[of w w E N ts u w' r] by (auto simp: same_shards_def new_ReplicationOperation_def)

lemma worker_applies:
  assumes C: "codec_ok C"
  shows "node_updates B C E N us (W, w) = Ret (W', w') ops \<Longrightarrow> replicated w \<Longrightarrow> map_of (dbMap st) (wr_db_name w) = Some v \<Longrightarrow>
    same_shards w v \<Longrightarrow> d_sibling_queue P = map (op_item C remote ca) ops \<Longrightarrow> map clk (rev [0..<length ops]) = map fst ops \<Longrightarrow>
    \<exists>P' st'. run_worker C E R N clk (length ops) (P, st) = Ret (P', st') () \<and> d_sibling_queue P' = []
      \<and> map_of (dbMap st') = (map_of (dbMap st))(wr_db_name w \<mapsto> v\<lparr>sdbvp := sdbvp w'\<rparr>)
      \<and> g_bl_db st' = g_bl_db st \<and> g_wl_db st' = g_wl_db st"
proof (induction us arbitrary: W w ops st v P)
  case Nil
  then have "v\<lparr>sdbvp := sdbvp w'\<rparr> = v" by (simp add: same_shards_def)
  then show ?case using Nil by (simp add: fun_upd_idem)
next
  case (Cons tu us)
  obtain ts u where tu: "tu = (ts, u)" by (cases tu)
  from Cons.prems(1)[unfolded tu] show ?case
  proof (cases rule: node_updates_cases)
    case (quiet w1)
    then show ?thesis using Cons.IH Cons.prems up_exec_quiet[OF Cons.prems(2)] by blast
  next
    case (sent w1 r ops1)
    have w1: "replicated w1" "wr_db_name w1 = wr_db_name w"
      using Cons.prems(2) by (subst up_exec_other[OF sent(1)], simp)+
    obtain st1 v1 where st1: "rep_applyOperation E R N ts r st = Ret st1 ()" "same_shards w1 v1" "v1 = v\<lparr>sdbvp := sdbvp w1\<rparr>"
      "map_of (dbMap st1) = (map_of (dbMap st))(wr_db_name w \<mapsto> v1)" "g_bl_db st1 = g_bl_db st" "g_wl_db st1 = g_wl_db st"
      using peer_applies[OF C sent(1) Cons.prems(3,4)] by blast
    let ?P = "rcvd True ca (P\<lparr>d_sibling_queue := map (op_item C remote ca) ops1\<rparr>)"
    have clk: "clk (length ops1) = ts" "map clk (rev [0..<length ops1]) = map fst ops1" using Cons.prems(6) sent(2) by simp_all
    have "replication_worker C E R N (clk (length ops1)) (P, st) = Some (Ret (?P, st1) ())"
      using Cons.prems(5) sent(2) st1(1) clk(1) rep_roundtrip[OF C update_op_wf[OF sent(1)]]
      by (simp add: replication_worker_def op_item_def[of C remote ca "(ts, r)"])
    then have run: "run_worker C E R N clk (length ops) (P, st) = run_worker C E R N clk (length ops1) (?P, st1)"
      by (simp add: sent(2))
    have q: "d_sibling_queue ?P = map (op_item C remote ca) ops1" by (simp add: rcvd_def on_sibling_def)
    have "map_of (dbMap st1) (wr_db_name w1) = Some v1" by (simp add: st1(4) w1(2))
    from Cons.IH[OF sent(3) w1(1) this st1(2) q clk(2)] obtain P' st' where
      "run_worker C E R N clk (length ops) (P, st) = Ret (P', st') ()" "d_sibling_queue P' = []"
      "map_of (dbMap st') = (map_of (dbMap st1))(wr_db_name w \<mapsto> v1\<lparr>sdbvp := sdbvp w'\<rparr>)"
      "g_bl_db st' = g_bl_db st1" "g_wl_db st' = g_wl_db st1"
      unfolding w1(2) run by blast
    then show ?thesis using st1(3-6) by (intro exI[of _ P'] exI[of _ st']) (simp only: fun_upd_upd, simp)
  qed
qed

section \<open>From update to update\<close>

lemma carries_frames:
  assumes "list_all2 (carries B C key) ps ops" and "\<forall>op \<in> set ops. length (rep_serialize C (snd op)) + 40 < 65536"
  shows "list_all2 (\<lambda>p msg. 0 < length p \<and> length p < 65536 \<and> decryptMsg B key p = Inr (Some msg)) ps (map (rep_serialize C \<circ> snd) ops)"
  using assms by (induction ps ops rule: list_all2_induct) (auto simp: carries_def)

text \<open>
  C17. A cluster converges as long as nothing is dropped. Take a sequence of updates and resets of a replicated database on one daemon that throws no
  exception, and whose operations each serialise to fewer than 65496 bytes; a sibling with an open TCP connection that is not the
  daemon itself, whose send queue is empty and has room for all operations; and a peer with the key of that sibling, the same shards
  and an empty receive queue with room for all of them. Then the thread of the sibling, whose writes succeed, sends the operations
  as a stream of bytes, and the peer, which reads this stream and applies what it has read at the times of the updates, ends
  with the same shards as the first daemon. Its other databases and its lists stay as they are.
\<close>

theorem updates_reach_the_peer:
  assumes "codec_ok C" "secretbox_ok B" "nonces_ok W"
    and run: "node_updates B C E N us (W, w) = Ret (W', w') ops" and "replicated w"
    and i: "i < length (d_siblings W)" and s: "d_siblings W ! i = s" "queue s = []" "length ops \<le> max_queue_size s"
    and tcp: "proto s = TCP" "\<not> d_ignoreself s" "queue_thread_run s" "conns s = c # cs"
    and size: "\<forall>op \<in> set ops. length (rep_serialize C (snd op)) + 40 < 65536"
    and P: "d_default_key P = sibling_key W s" "d_sibling_queue P = []" "length ops \<le> d_max_sibling_queue_size P"
    and v: "map_of (dbMap st) (wr_db_name w) = Some v" "same_shards w v"
    and clk: "map clk (rev [0..<length ops]) = map fst ops"
  shows "\<exists>s' stream P' st'. drain S (length ops) (d_siblings W' ! i) = Some s' \<and> queue s' = [] \<and> conns s' = (c @ stream) # cs
    \<and> run_worker C E R N clk (length ops) (parseTCPReplication B remote ca stream P, st) = Ret (P', st') () \<and> d_sibling_queue P' = []
    \<and> map_of (dbMap st') = (map_of (dbMap st))(wr_db_name w \<mapsto> v\<lparr>sdbvp := sdbvp w'\<rparr>)
    \<and> g_bl_db st' = g_bl_db st \<and> g_wl_db st' = g_wl_db st"
proof -
  obtain ps m where ps: "d_siblings W' ! i = s\<lparr>queue := ps, d_nonce := m\<rparr>" "list_all2 (carries B C (sibling_key W s)) ps ops"
    using updates_are_queued[OF assms(2) run assms(3) i] s by auto
  let ?stream = "concat (map frame_of ps)"
  have "length ps = length ops" using ps(2) by (rule list_all2_lengthD)
  then have sent: "\<exists>s'. drain S (length ops) (d_siblings W' ! i) = Some s' \<and> queue s' = [] \<and> conns s' = (c @ ?stream) # cs"
    using drain_tcp[of "d_siblings W' ! i" c cs "length ops" S] tcp ps(1) by simp
  let ?P = "parseTCPReplication B remote ca ?stream P"
  have "?P = fold parseReceivedReplicationMsg (map (queue_item remote ca) (map (rep_serialize C \<circ> snd) ops)) P"
    by (rule parse_frames[OF carries_frames[OF ps(2) size] P(1)])
  then have "d_sibling_queue ?P = map (op_item C remote ca) ops"
    using recv_queue.offers_contents[of P] P(2,3) by (simp add: recv_queue.within_def op_item_def comp_def)
  from worker_applies[OF assms(1) run assms(5) v this clk] sent show ?thesis by blast
qed

text \<open>One daemon counts a failed login, the other one knows of it.\<close>

definition demo_op :: ReplicationOperation where
  "demo_op = new_ReplicationOperation (Some (SDB_Rep (sdb_op_int ''db'' SDBOpAdd ''k'' ''cnt'' 3))) SDBType"

lemma demo_node:
  "\<exists>w'. node_updates demo_box demo_codec demo_env demo_net [((1000, 1000, 1000), UpAdd (TWStr ''k'') ''cnt'' (TWInt 3) None)]
     (demo_repl, demo_wrapper) = Ret (replicateOperation demo_box demo_codec demo_op demo_repl, w') [((1000, 1000, 1000), demo_op)]"
proof -
  obtain w' r where u: "up_exec demo_env demo_net (1000, 1000, 1000) (UpAdd (TWStr ''k'') ''cnt'' (TWInt 3) None) True demo_wrapper
      = Ret w' (Some r)" using demo_update by blast
  then have "r = demo_op"
    by (auto simp: addInternal_def update_key_def getStringKey_def send_op_def demo_op_def demo_wrapper_simps split: if_splits)
  with u show ?thesis by simp
qed

lemma demo_op_length: "length (rep_serialize demo_codec demo_op) < 20000"
  by (simp add: rep_serialize_def demo_op_def new_ReplicationOperation_def demo_codec_def sdb_op_int_def sdb_op_field_def sdb_op_def
      sdb_none_def encode_def sdb_code_def iso_code_def pair_code_def
      list_code_def option_code_def string_code_def char_code_def word_code_def nat_code_def bool_code_def bytes_code_def msg_code_def
      sdb_type_num_def rep_type_num_def)

theorem updates_reach_the_peer_witness:
  "\<exists>w' s' stream P' st'.
    node_updates demo_box demo_codec demo_env demo_net [((1000, 1000, 1000), UpAdd (TWStr ''k'') ''cnt'' (TWInt 3) None)]
      (demo_repl, demo_wrapper) = Ret (replicateOperation demo_box demo_codec demo_op demo_repl, w') [((1000, 1000, 1000), demo_op)]
    \<and> drain demo_sib 1 (d_siblings (replicateOperation demo_box demo_codec demo_op demo_repl) ! 0) = Some s'
    \<and> conns s' = [stream]
    \<and> run_worker demo_codec demo_env demo_redis demo_net (\<lambda>_. (1000, 1000, 1000)) 1
        (parseTCPReplication demo_box CA_None CA_None stream demo_repl, demo_state) = Ret (P', st') ()
    \<and> map_of (dbMap st') ''db'' = Some (demo_wrapper\<lparr>sdbvp := sdbvp w'\<rparr>)"
proof -
  obtain w' where run: "node_updates demo_box demo_codec demo_env demo_net [((1000, 1000, 1000), UpAdd (TWStr ''k'') ''cnt'' (TWInt 3) None)]
     (demo_repl, demo_wrapper) = Ret (replicateOperation demo_box demo_codec demo_op demo_repl, w') [((1000, 1000, 1000), demo_op)]"
    using demo_node by blast
  have d: "d_siblings demo_repl = [demo_sibling]" "d_sibling_queue demo_repl = []" "d_max_sibling_queue_size demo_repl = 5000"
    "d_default_key demo_repl = sibling_key demo_repl demo_sibling"
    by (simp_all add: demo_repl_def new_WforceReplication_def sibling_key_def demo_sibling_def)
  have "map_of (dbMap demo_state) (wr_db_name demo_wrapper) = Some demo_wrapper" "same_shards demo_wrapper demo_wrapper" "replicated demo_wrapper"
    by (simp_all add: demo_state_def demo_wrapper_simps same_shards_def)
  from updates_reach_the_peer[OF demo_codec_ok demo_box_ok demo_repl_ok run this(3), of 0 demo_sibling "[]" "[]" demo_repl,
      OF _ _ _ _ _ _ _ _ _ _ _ _ this(1,2), of "\<lambda>_. (1000, 1000, 1000)" demo_sib demo_redis CA_None CA_None]
  obtain s' stream P' st' where r: "drain demo_sib 1 (d_siblings (replicateOperation demo_box demo_codec demo_op demo_repl) ! 0) = Some s'"
    "conns s' = [stream]"
    "run_worker demo_codec demo_env demo_redis demo_net (\<lambda>_. (1000, 1000, 1000)) 1
        (parseTCPReplication demo_box CA_None CA_None stream demo_repl, demo_state) = Ret (P', st') ()"
    "map_of (dbMap st') = (map_of (dbMap demo_state))(''db'' \<mapsto> demo_wrapper\<lparr>sdbvp := sdbvp w'\<rparr>)"
    using demo_op_length d by (auto simp: demo_sibling_def demo_wrapper_simps)
  then have "map_of (dbMap st') ''db'' = Some (demo_wrapper\<lparr>sdbvp := sdbvp w'\<rparr>)" by simp
  with run r(1-3) show ?thesis by blast
qed

end
