(* ===== verification/Lua_Config.thy ===== *)
theory Lua_Config
  imports Web_Server
begin

text \<open>
  What the configuration file can do (\<^verbatim>\<open>wforce/wforce-lua.cc\<close>, \<^verbatim>\<open>common/common-lua.cc\<close>, \<^verbatim>\<open>wforce/wforce-common-lua.cc\<close>): the C++ functions
  that are given to the Lua interpreter. The file is read once by the main state, once by each state of the pool, and by
  a console client; a function does something in some of them and nothing in the others. A run of the file is the
  sequence of calls the interpreter makes. Texts made by \<^verbatim>\<open>boost::format\<close> are a parameter. GeoIP and DNS functions, the timeouts
  of the Redis connection and the precision of the count-min sketches are left out.
\<close>

section \<open>State\<close>

datatype fmt_arg = FStr string | FInt int

datatype file_kind = Missing | Regular | Other_File

record lua_env =
  le_web :: web_env
  le_format :: "string \<Rightarrow> fmt_arg list \<Rightarrow> string"
  le_now :: int
  le_file :: "string \<Rightarrow> file_kind"
  le_control_ok :: "ComboAddress \<Rightarrow> bool"

text \<open>Work that is started after the configuration has been read.\<close>

datatype launch = Start_Webserver | Start_Sibling_Receivers ComboAddress | Start_Control ComboAddress

record curlTLSOptions =
  verifyPeer :: bool
  verifyHost :: bool
  caCertBundleFile :: string
  clientCertFile :: string
  clientKeyFile :: string

record daemon =
  dm_wforce :: wforce
  dm_server :: WforceWebserver
  dm_perf :: perf_stats
  dm_sync :: syncData
  dm_sib :: sib_env
  dm_sk :: sk_env
  g_outputBuffer :: string
  launchWork :: "launch list option"
  dm_launched :: "launch list"
  g_custom_webhook_db :: WebHookDB
  g_num_luastates :: int
  g_serverControl :: ComboAddress
  g_curl_tls_options :: curlTLSOptions
  app_listeners :: "(string \<times> 16 word) list"

text \<open>
  \<open>client\<close> and \<open>multi_lua\<close> are the arguments of \<^verbatim>\<open>setupLua\<close>. The functions of \<^verbatim>\<open>wforce-common-lua.cc\<close> keep a copy of the pointer to the
  list of work; \<open>list_alive\<close> says that the list has not been deleted yet.
\<close>

record lua_mode =
  client :: bool
  multi_lua :: bool
  list_alive :: bool

type_synonym lua_ctx = "(AllowReturn, wforce, lua_exn) LuaThreadContext"

abbreviation le_net :: "lua_env \<Rightarrow> netlib" where "le_net L \<equiv> we_net (le_web L)"

definition on_wf :: "(wforce \<Rightarrow> wforce) \<Rightarrow> daemon \<Rightarrow> daemon" where
  "on_wf f d = d\<lparr>dm_wforce := f (dm_wforce d)\<rparr>"

definition on_server :: "(WforceWebserver \<Rightarrow> WforceWebserver) \<Rightarrow> daemon \<Rightarrow> daemon" where
  "on_server f d = d\<lparr>dm_server := f (dm_server d)\<rparr>"

definition lua_out :: "string \<Rightarrow> daemon \<Rightarrow> daemon" where
  "lua_out t d = d\<lparr>g_outputBuffer := g_outputBuffer d @ t\<rparr>"

definition errlog :: "string \<Rightarrow> daemon \<Rightarrow> daemon" where
  "errlog t = on_wf (log_line Error t)"

definition nl :: string where "nl = [CHR 0x0A]"

text \<open>\<^verbatim>\<open>ComboAddress(address, port)\<close> with its only exception caught.\<close>

definition with_address ::
    "lua_env \<Rightarrow> string \<Rightarrow> 16 word \<Rightarrow> (string \<Rightarrow> daemon \<Rightarrow> daemon) \<Rightarrow> (ComboAddress \<Rightarrow> daemon \<Rightarrow> (daemon, unit) outcome)
     \<Rightarrow> daemon \<Rightarrow> (daemon, unit) outcome" where
  "with_address L address port failed ok d =
     (case new_ComboAddress (le_net L) address port of Inl e \<Rightarrow> Ret (failed (exn_reason e) d) () | Inr ca \<Rightarrow> ok ca d)"

definition bad_address :: "lua_env \<Rightarrow> string \<Rightarrow> string \<Rightarrow> string \<Rightarrow> daemon \<Rightarrow> daemon" where
  "bad_address L f detail reason d =
     lua_out (le_format L (''%s (%s)'' @ nl)
         [FStr (f @ ''(): Error parsing address/port. Make sure to use IP addresses not hostnames''), FStr reason])
       (errlog (f @ ''() error parsing address/port '' @ detail @ ''. Make sure to use IP addresses not hostnames'') d)"

definition bracketed :: "string \<Rightarrow> string" where
  "bracketed s = ''['' @ s @ '']''"

definition main_only :: "lua_mode \<Rightarrow> (daemon \<Rightarrow> (daemon, unit) outcome) \<Rightarrow> daemon \<Rightarrow> (daemon, unit) outcome" where
  "main_only m f d = (if multi_lua m then Ret d () else f d)"

definition server_only :: "lua_mode \<Rightarrow> (daemon \<Rightarrow> (daemon, unit) outcome) \<Rightarrow> daemon \<Rightarrow> (daemon, unit) outcome" where
  "server_only m f d = (if multi_lua m \<or> client m then Ret d () else f d)"

definition done_with :: "(daemon \<Rightarrow> daemon) \<Rightarrow> daemon \<Rightarrow> (daemon, unit) outcome" where
  "done_with f d = Ret (f d) ()"

section \<open>Report sinks\<close>

text \<open>The constructor \<^verbatim>\<open>Sibling(ca)\<close>.\<close>

definition sink_sibling :: "lua_env \<Rightarrow> daemon \<Rightarrow> ComboAddress \<Rightarrow> exn + Sibling" where
  "sink_sibling L d ca = new_Sibling (dm_sib d) (le_net L) ca UDP [] 1000 5000 True True"

definition deprecated :: "string \<Rightarrow> string \<Rightarrow> daemon \<Rightarrow> daemon" where
  "deprecated old new d =
     (let notice = old @ ''() is deprecated, and will be removed in a future release. Use '' @ new @ ''() instead''
      in lua_out (notice @ nl) (errlog notice d))"

definition lua_addReportSink :: "lua_env \<Rightarrow> lua_mode \<Rightarrow> string \<Rightarrow> daemon \<Rightarrow> (daemon, unit) outcome" where
  "lua_addReportSink L m address =
     server_only m (with_address L address 4501 (bad_address L ''addReportSink'' (bracketed address))
       (\<lambda>ca d. case sink_sibling L d ca of
                 Inl e \<Rightarrow> Exn e d
               | Inr sib \<Rightarrow>
                   Ret (deprecated ''addReportSinks'' ''addNamedReportSink''
                     (on_wf (\<lambda>s. s\<lparr>g_report_sinks := g_report_sinks s @ [sib]\<rparr>) d)) ()))"

text \<open>The loop over the addresses; the addresses before a bad one have been connected by then.\<close>

fun make_sinks ::
    "lua_env \<Rightarrow> (string \<Rightarrow> string \<Rightarrow> daemon \<Rightarrow> daemon) \<Rightarrow> string list \<Rightarrow> Sibling list \<Rightarrow> daemon \<Rightarrow> (daemon, Sibling list option) outcome" where
  "make_sinks L failed [] v d = Ret d (Some v)"
| "make_sinks L failed (p # ps) v d =
     (case new_ComboAddress (le_net L) p 4501 of
        Inl e \<Rightarrow> Ret (failed p (exn_reason e) d) None
      | Inr ca \<Rightarrow> (case sink_sibling L d ca of Inl e \<Rightarrow> Exn e d | Inr sib \<Rightarrow> make_sinks L failed ps (v @ [sib]) d))"

definition lua_setReportSinks :: "lua_env \<Rightarrow> lua_mode \<Rightarrow> string list \<Rightarrow> daemon \<Rightarrow> (daemon, unit) outcome" where
  "lua_setReportSinks L m parts =
     server_only m (\<lambda>d. obind (make_sinks L (\<lambda>p. bad_address L ''setReportSinks'' (bracketed p)) parts [] d)
       (\<lambda>d1 v. case v of
                 None \<Rightarrow> Ret d1 ()
               | Some v \<Rightarrow> Ret (deprecated ''setReportSinks'' ''setNamedReportSinks'' (on_wf (\<lambda>s. s\<lparr>g_report_sinks := v\<rparr>) d1)) ()))"

definition set_named :: "string \<Rightarrow> (Sibling list \<Rightarrow> Sibling list) \<Rightarrow> wforce \<Rightarrow> wforce" where
  "set_named sink_name f s =
     s\<lparr>g_named_report_sinks :=
        (case map_of (g_named_report_sinks s) sink_name of
           Some (rr, v) \<Rightarrow> sm_assign sink_name (rr, f v) (g_named_report_sinks s)
         | None \<Rightarrow> sm_insert sink_name (0, f []) (g_named_report_sinks s))\<rparr>"

definition lua_addNamedReportSink :: "lua_env \<Rightarrow> lua_mode \<Rightarrow> string \<Rightarrow> string \<Rightarrow> daemon \<Rightarrow> (daemon, unit) outcome" where
  "lua_addNamedReportSink L m sink_name address =
     server_only m (with_address L address 4501
       (bad_address L ''addNamedReportSink'' (bracketed address @ '' for report sink '' @ bracketed sink_name))
       (\<lambda>ca d. case sink_sibling L d ca of Inl e \<Rightarrow> Exn e d | Inr sib \<Rightarrow> Ret (on_wf (set_named sink_name (\<lambda>v. v @ [sib])) d) ()))"

definition lua_setNamedReportSinks :: "lua_env \<Rightarrow> lua_mode \<Rightarrow> string \<Rightarrow> string list \<Rightarrow> daemon \<Rightarrow> (daemon, unit) outcome" where
  "lua_setNamedReportSinks L m sink_name parts =
     server_only m (\<lambda>d. obind (make_sinks L (\<lambda>p. bad_address L ''setNamedReportSinks''
           (bracketed p @ '' for report sink '' @ bracketed sink_name)) parts [] d)
       (\<lambda>d1 v. case v of None \<Rightarrow> Ret d1 () | Some v \<Rightarrow> Ret (on_wf (set_named sink_name (\<lambda>_. v)) d1) ()))"

section \<open>Siblings and synchronisation\<close>

text \<open>The host is stored before its address is read, and stays when that fails.\<close>

definition lua_addSyncHost :: "lua_env \<Rightarrow> lua_mode \<Rightarrow> string \<Rightarrow> string \<Rightarrow> string \<Rightarrow> string \<Rightarrow> daemon \<Rightarrow> (daemon, unit) outcome" where
  "lua_addSyncHost L m address password sync_address webserver_address =
     server_only m (\<lambda>d.
       let d1 = d\<lparr>dm_sync := (dm_sync d)\<lparr>sync_hosts := sync_hosts (dm_sync d) @ [(address, password)]\<rparr>\<rparr>
       in with_address L sync_address 4001
            (\<lambda>reason d. let errstr = le_format L (''%s (%s)'' @ nl)
                          [FStr ''addSyncHost(): Error parsing address/port. Make sure to use IP addresses not hostnames'', FStr reason]
                        in lua_out errstr (errlog errstr d))
            (\<lambda>ca d. Ret (d\<lparr>dm_sync := (dm_sync d)\<lparr>sibling_listen_addr := ca, webserver_listen_addr := webserver_address\<rparr>\<rparr>) ()) d1)"

definition lua_setMinSyncHostUptime :: "lua_mode \<Rightarrow> 32 word \<Rightarrow> daemon \<Rightarrow> (daemon, unit) outcome" where
  "lua_setMinSyncHostUptime m uptime = main_only m (done_with (\<lambda>d. d\<lparr>dm_sync := (dm_sync d)\<lparr>min_sync_host_uptime := uptime\<rparr>\<rparr>))"

definition on_replication :: "(WforceReplication \<Rightarrow> WforceReplication) \<Rightarrow> daemon \<Rightarrow> daemon" where
  "on_replication f = on_wf (\<lambda>s. s\<lparr>g_replication := f (g_replication s)\<rparr>)"

definition lua_setMaxSiblingQueueSize :: "lua_mode \<Rightarrow> 32 word \<Rightarrow> daemon \<Rightarrow> (daemon, unit) outcome" where
  "lua_setMaxSiblingQueueSize m sz =
     main_only m (done_with (\<lambda>d. (on_replication (setMaxSiblingRecvQueueSize (unat sz)) d)
       \<lparr>dm_sib := setMaxSiblingSendQueueSize (unat sz) (dm_sib d)\<rparr>))"

definition on_siblings :: "(Sibling list \<Rightarrow> (Sibling list, bool \<times> string) outcome) \<Rightarrow> daemon \<Rightarrow> (daemon, unit) outcome" where
  "on_siblings f d =
     (let put = (\<lambda>v. on_replication (\<lambda>W. W\<lparr>d_siblings := v\<rparr>) d)
      in case f (d_siblings (g_replication (dm_wforce d))) of
           Ret v (ok, out) \<Rightarrow> Ret (lua_out out (put v)) ()
         | Exn e v \<Rightarrow> Exn e (put v)
         | Undef \<Rightarrow> Undef)"

definition lua_addSibling :: "lua_env \<Rightarrow> lua_mode \<Rightarrow> string \<Rightarrow> daemon \<Rightarrow> (daemon, unit) outcome" where
  "lua_addSibling L m address = server_only m (\<lambda>d. on_siblings (addSibling (dm_sib d) (le_net L) address True True) d)"

definition lua_addSiblingWithKey :: "lua_env \<Rightarrow> lua_mode \<Rightarrow> string \<Rightarrow> string \<Rightarrow> daemon \<Rightarrow> (daemon, unit) outcome" where
  "lua_addSiblingWithKey L m address key =
     server_only m (\<lambda>d. on_siblings (addSiblingWithKey (dm_sib d) (le_net L) address key True True) d)"

definition lua_removeSibling :: "lua_env \<Rightarrow> lua_mode \<Rightarrow> string \<Rightarrow> daemon \<Rightarrow> (daemon, unit) outcome" where
  "lua_removeSibling L m address =
     server_only m (\<lambda>d. on_siblings (\<lambda>v. case removeSibling (dm_sib d) (le_net L) address v of (v', r) \<Rightarrow> Ret v' r) d)"

definition lua_setSiblingsWithKey :: "lua_env \<Rightarrow> lua_mode \<Rightarrow> string list list \<Rightarrow> daemon \<Rightarrow> (daemon, unit) outcome" where
  "lua_setSiblingsWithKey L m parts = server_only m (\<lambda>d. on_siblings (setSiblingsWithKey (dm_sib d) (le_net L) parts) d)"

definition lua_setSiblings :: "lua_env \<Rightarrow> lua_mode \<Rightarrow> string list \<Rightarrow> daemon \<Rightarrow> (daemon, unit) outcome" where
  "lua_setSiblings L m parts = server_only m (\<lambda>d. on_siblings (setSiblings (dm_sib d) (le_net L) parts) d)"

definition lua_setSiblingConnectTimeout :: "lua_mode \<Rightarrow> int \<Rightarrow> daemon \<Rightarrow> (daemon, unit) outcome" where
  "lua_setSiblingConnectTimeout m timeout_ms =
     server_only m (done_with (\<lambda>d. d\<lparr>dm_sib := setSiblingConnectTimeout timeout_ms (dm_sib d)\<rparr>))"

text \<open>
  What a launched job does: the threads it starts are listed, the siblings learn the own address, the web server is initialised.
\<close>

definition run_launch :: "launch \<Rightarrow> daemon \<Rightarrow> daemon" where
  "run_launch j d =
     (case j of
        Start_Sibling_Receivers ca \<Rightarrow>
          (on_replication (\<lambda>W. W\<lparr>d_siblings := map (checkIgnoreSelf (dm_sib d) ca) (d_siblings W)\<rparr>) d)\<lparr>dm_launched := dm_launched d @ [j]\<rparr>
      | Start_Webserver \<Rightarrow> (on_server ws_init d)\<lparr>dm_launched := dm_launched d @ [j]\<rparr>
      | Start_Control ca \<Rightarrow> d\<lparr>dm_launched := dm_launched d @ [j]\<rparr>)"

definition launch_or_queue :: "launch \<Rightarrow> daemon \<Rightarrow> daemon" where
  "launch_or_queue j d = (case launchWork d of Some l \<Rightarrow> d\<lparr>launchWork := Some (l @ [j])\<rparr> | None \<Rightarrow> run_launch j d)"

definition lua_siblingListener :: "lua_env \<Rightarrow> lua_mode \<Rightarrow> string \<Rightarrow> daemon \<Rightarrow> (daemon, unit) outcome" where
  "lua_siblingListener L m address =
     server_only m (with_address L address 4001
       (\<lambda>reason d. let errstr = le_format L (''%s [%s]. %s (%s)'' @ nl)
                     [FStr ''addSibling() error parsing address/port'', FStr address,
                      FStr ''Make sure to use IP addresses not hostnames'', FStr reason]
                   in lua_out errstr (errlog errstr d))
       (\<lambda>ca d. Ret (launch_or_queue (Start_Sibling_Receivers ca) (d\<lparr>dm_sib := (dm_sib d)\<lparr>g_sibling_listen_addr := ca\<rparr>\<rparr>)) ()))"

definition lua_setNumSiblingThreads :: "lua_mode \<Rightarrow> int \<Rightarrow> daemon \<Rightarrow> (daemon, unit) outcome" where
  "lua_setNumSiblingThreads m numThreads =
     main_only m (done_with (on_replication (\<lambda>W. W\<lparr>d_num_sibling_threads := word_of_int numThreads\<rparr>)))"

definition lua_setKey :: "lua_mode \<Rightarrow> string \<Rightarrow> daemon \<Rightarrow> (daemon, unit) outcome" where
  "lua_setKey m key =
     main_only m (\<lambda>d. case B64Decode key [] of
        Ret newkey ret \<Rightarrow>
          (if ret < 0
           then let t = ''Unable to decode '' @ key @ '' as Base64'' in Ret (errlog t (d\<lparr>g_outputBuffer := t\<rparr>)) ()
           else Ret (on_replication (setEncryptionKey newkey) d) ())
      | Exn e _ \<Rightarrow> Exn e d
      | Undef \<Rightarrow> Undef)"

section \<open>Web server\<close>

definition lua_webserver :: "lua_env \<Rightarrow> lua_mode \<Rightarrow> string \<Rightarrow> string \<Rightarrow> daemon \<Rightarrow> (daemon, unit) outcome" where
  "lua_webserver L m address password =
     server_only m (\<lambda>d. with_address L address 0
       (\<lambda>reason. errlog (''webserver() error parsing address/port '' @ bracketed address
          @ ''. Make sure to use IP addresses not hostnames''))
       (\<lambda>ca d. let ip = ca_toString (le_net L) ca;
                   d1 = d\<lparr>dm_sync := (dm_sync d)\<lparr>webserver_password := password\<rparr>,
                          dm_server := setBasicAuthPassword password (dm_server d), app_listeners := app_listeners d @ [(ip, getPort ca)]\<rparr>;
                   d2 = on_wf (log_line Info (''Adding webserver listener on '' @ ip @ '':'' @ nat_to_string (unat (getPort ca)))) d1
               in Ret (launch_or_queue Start_Webserver d2) ())
       (on_wf (log_line Warning ''Warning - webserver() configuration command is deprecated in favour of addListener() and will be removed in a future version'') d))"

definition lua_setWebserverPassword :: "lua_mode \<Rightarrow> string \<Rightarrow> daemon \<Rightarrow> (daemon, unit) outcome" where
  "lua_setWebserverPassword m password =
     main_only m (done_with (\<lambda>d. d\<lparr>dm_server := setBasicAuthPassword password (dm_server d),
       dm_sync := (dm_sync d)\<lparr>webserver_password := password\<rparr>\<rparr>))"

definition lua_addACL :: "lua_env \<Rightarrow> lua_mode \<Rightarrow> string \<Rightarrow> daemon \<Rightarrow> (daemon, unit) outcome" where
  "lua_addACL L m mask_text =
     main_only m (\<lambda>d. map_state (\<lambda>W. d\<lparr>dm_server := W\<rparr>) (addACL (le_net L) mask_text (dm_server d)))"

fun add_masks :: "netlib \<Rightarrow> string list \<Rightarrow> NetmaskGroup \<Rightarrow> (NetmaskGroup, unit) outcome" where
  "add_masks N [] nmg = Ret nmg ()"
| "add_masks N (p # ps) nmg = obind (addMask_str N p True nmg) (\<lambda>nmg1 _. add_masks N ps nmg1)"

definition lua_setACL :: "lua_env \<Rightarrow> lua_mode \<Rightarrow> string list \<Rightarrow> daemon \<Rightarrow> (daemon, unit) outcome" where
  "lua_setACL L m parts =
     main_only m (\<lambda>d. case add_masks (le_net L) parts new_NetmaskGroup of
        Ret nmg _ \<Rightarrow> Ret (on_server (setACL nmg) d) ()
      | Exn e _ \<Rightarrow> Exn e d
      | Undef \<Rightarrow> Undef)"

definition lua_setNumLuaStates :: "lua_mode \<Rightarrow> int \<Rightarrow> daemon \<Rightarrow> (daemon, unit) outcome" where
  "lua_setNumLuaStates m numStates = main_only m (done_with (\<lambda>d. d\<lparr>g_num_luastates := numStates\<rparr>))"

definition lua_setNumWorkerThreads :: "lua_mode \<Rightarrow> int \<Rightarrow> daemon \<Rightarrow> (daemon, unit) outcome" where
  "lua_setNumWorkerThreads m numThreads = main_only m (done_with (on_server (setNumWorkerThreads (word_of_int numThreads))))"

definition lua_setMaxWebserverConns :: "lua_mode \<Rightarrow> int \<Rightarrow> daemon \<Rightarrow> (daemon, unit) outcome" where
  "lua_setMaxWebserverConns m max_conns = main_only m (done_with (on_server (Web_Server.setMaxConns (word_of_int max_conns))))"

definition lua_setMetricsNoPassword :: "lua_mode \<Rightarrow> daemon \<Rightarrow> (daemon, unit) outcome" where
  "lua_setMetricsNoPassword m = main_only m (done_with (on_server setMetricsNoPassword))"

text \<open>
  The two functions that use their copy of the pointer to the list of work: after the list has been deleted they
  append to freed memory.
\<close>

definition queue_captured :: "lua_mode \<Rightarrow> launch \<Rightarrow> daemon \<Rightarrow> (daemon, unit) outcome" where
  "queue_captured m j d =
     (if \<not> list_alive m then Undef
      else case launchWork d of Some l \<Rightarrow> Ret (d\<lparr>launchWork := Some (l @ [j])\<rparr>) () | None \<Rightarrow> Undef)"

definition check_file :: "lua_env \<Rightarrow> string \<Rightarrow> string \<Rightarrow> daemon \<Rightarrow> daemon \<times> bool" where
  "check_file L filetype filename d =
     (case le_file L filename of
        Regular \<Rightarrow> (d, True)
      | Other_File \<Rightarrow> (errlog (''addListener() '' @ filetype @ '' file '' @ bracketed filename @ '' is not a regular file'') d, False)
      | Missing \<Rightarrow> (errlog (''addListener() '' @ filetype @ '' file '' @ bracketed filename @ '' does not exist or cannot be read'') d, False))"

definition lua_addListener :: "lua_env \<Rightarrow> lua_mode \<Rightarrow> string \<Rightarrow> bool \<Rightarrow> string \<Rightarrow> string \<Rightarrow> daemon \<Rightarrow> (daemon, unit) outcome" where
  "lua_addListener L m address useSSL cert_file key_file =
     server_only m (with_address L address 0
       (\<lambda>reason. errlog (''addListener() error parsing address/port '' @ bracketed address
          @ ''. Make sure to use IP addresses not hostnames''))
       (\<lambda>ca d.
          let (d1, ok) = (if useSSL
                          then case check_file L ''certificate'' cert_file d of
                                 (d1, True) \<Rightarrow> check_file L ''key'' key_file d1
                               | (d1, False) \<Rightarrow> (d1, False)
                          else (d, True));
              ip = ca_toString (le_net L) ca
          in if \<not> ok then Ret d1 ()
             else queue_captured m Start_Webserver
                    (on_wf (log_line Info (''Adding webserver listener on '' @ ip @ '':'' @ nat_to_string (unat (getPort ca))
                       @ '' with SSL='' @ bool_digit useSSL @ '', cert_file='' @ cert_file @ '', key_file='' @ key_file))
                      (d1\<lparr>app_listeners := app_listeners d1 @ [(ip, getPort ca)]\<rparr>))))"

definition lua_controlSocket :: "lua_env \<Rightarrow> lua_mode \<Rightarrow> string \<Rightarrow> daemon \<Rightarrow> (daemon, unit) outcome" where
  "lua_controlSocket L m str =
     main_only m (with_address L str 4004
       (\<lambda>reason. errlog (''controlSocket() error parsing address/port '' @ bracketed str
          @ ''. Make sure to use IP addresses not hostnames''))
       (\<lambda>ca d. if client m then Ret (d\<lparr>g_serverControl := ca\<rparr>) ()
               else if \<not> le_control_ok L ca then Exn Exit_Failure d
               else queue_captured m (Start_Control ca) d))"

definition on_curl :: "(curlTLSOptions \<Rightarrow> curlTLSOptions) \<Rightarrow> (WebHookRunner \<Rightarrow> WebHookRunner) \<Rightarrow> daemon \<Rightarrow> daemon" where
  "on_curl f g d = (on_wf (\<lambda>s. s\<lparr>g_webhook_runner := g (g_webhook_runner s)\<rparr>) d)\<lparr>g_curl_tls_options := f (g_curl_tls_options d)\<rparr>"

definition lua_disableCurlPeerVerification :: "lua_mode \<Rightarrow> daemon \<Rightarrow> (daemon, unit) outcome" where
  "lua_disableCurlPeerVerification m = main_only m (done_with (on_curl (\<lambda>c. c\<lparr>verifyPeer := False\<rparr>) (\<lambda>r. r\<lparr>wh_verify_peer := False\<rparr>)))"

definition lua_disableCurlHostVerification :: "lua_mode \<Rightarrow> daemon \<Rightarrow> (daemon, unit) outcome" where
  "lua_disableCurlHostVerification m = main_only m (done_with (on_curl (\<lambda>c. c\<lparr>verifyHost := False\<rparr>) (\<lambda>r. r\<lparr>wh_verify_host := False\<rparr>)))"

definition lua_setCurlCABundleFile :: "lua_mode \<Rightarrow> string \<Rightarrow> daemon \<Rightarrow> (daemon, unit) outcome" where
  "lua_setCurlCABundleFile m filename =
     main_only m (done_with (on_curl (\<lambda>c. c\<lparr>caCertBundleFile := filename\<rparr>) (\<lambda>r. r\<lparr>wh_caCertBundleFile := filename\<rparr>)))"

definition lua_setCurlClientCertAndKey :: "lua_mode \<Rightarrow> string \<Rightarrow> string \<Rightarrow> daemon \<Rightarrow> (daemon, unit) outcome" where
  "lua_setCurlClientCertAndKey m certfile keyfile =
     main_only m (done_with (on_curl (\<lambda>c. c\<lparr>clientCertFile := certfile, clientKeyFile := keyfile\<rparr>)
       (\<lambda>r. r\<lparr>wh_clientCertFile := certfile, wh_clientKeyFile := keyfile\<rparr>)))"

section \<open>Databases and lists\<close>

definition lua_newShardedStringStatsDB ::
    "lua_env \<Rightarrow> lua_mode \<Rightarrow> string \<Rightarrow> int \<Rightarrow> int \<Rightarrow> (string \<times> string) list \<Rightarrow> int \<Rightarrow> daemon \<Rightarrow> (daemon, unit) outcome" where
  "lua_newShardedStringStatsDB L m name w_size n_windows fmvec n_shards =
     main_only m (done_with (on_wf (\<lambda>s. s\<lparr>g_dbMap :=
       sm_insert name (new_Wrapper_fields (le_now L) name w_size n_windows fmvec n_shards) (g_dbMap s)\<rparr>)))"

definition lua_newStringStatsDB ::
    "lua_env \<Rightarrow> lua_mode \<Rightarrow> string \<Rightarrow> int \<Rightarrow> int \<Rightarrow> (string \<times> string) list \<Rightarrow> daemon \<Rightarrow> (daemon, unit) outcome" where
  "lua_newStringStatsDB L m name w_size n_windows fmvec =
     lua_newShardedStringStatsDB L m name w_size n_windows fmvec 1"

definition lua_getStringStatsDB :: "lua_env \<Rightarrow> string \<Rightarrow> daemon \<Rightarrow> daemon \<times> TWStringStatsDBWrapper" where
  "lua_getStringStatsDB L name d =
     (case map_of (g_dbMap (dm_wforce d)) name of
        Some w \<Rightarrow> (d, w)
      | None \<Rightarrow> (on_wf (log_line Warning (''getStringStatsDB(): could not find DB '' @ name)) d, new_Wrapper (le_now L) ''none'' 1 1 1))"

definition list_of :: "BLWLDBType \<Rightarrow> wforce \<Rightarrow> BlackWhiteListDB" where
  "list_of T s = (if T = BLACKLIST then Web_State.g_bl_db s else Web_State.g_wl_db s)"

definition set_list_of :: "BLWLDBType \<Rightarrow> BlackWhiteListDB \<Rightarrow> wforce \<Rightarrow> wforce" where
  "set_list_of T db s = (if T = BLACKLIST then s\<lparr>g_bl_db := db\<rparr> else s\<lparr>g_wl_db := db\<rparr>)"

definition on_list :: "BLWLDBType \<Rightarrow> (BlackWhiteListDB \<Rightarrow> BlackWhiteListDB) \<Rightarrow> daemon \<Rightarrow> daemon" where
  "on_list T f = on_wf (\<lambda>s. set_list_of T (f (list_of T s)) s)"

definition lua_disableBuiltin :: "BLWLDBType \<Rightarrow> lua_mode \<Rightarrow> daemon \<Rightarrow> (daemon, unit) outcome" where
  "lua_disableBuiltin T m =
     main_only m (done_with (on_wf (\<lambda>s. if T = BLACKLIST then s\<lparr>g_builtin_bl_enabled := False\<rparr> else s\<lparr>g_builtin_wl_enabled := False\<rparr>)))"

definition lua_PersistDB :: "BLWLDBType \<Rightarrow> lua_mode \<Rightarrow> string \<Rightarrow> 32 word \<Rightarrow> daemon \<Rightarrow> (daemon, unit) outcome" where
  "lua_PersistDB T m ip port = main_only m (done_with (on_list T (makePersistent ip port)))"

definition lua_RedisUsername :: "BLWLDBType \<Rightarrow> lua_mode \<Rightarrow> string \<Rightarrow> daemon \<Rightarrow> (daemon, unit) outcome" where
  "lua_RedisUsername T m username = main_only m (done_with (on_list T (\<lambda>db. db\<lparr>redis_username := username\<rparr>)))"

definition lua_RedisPassword :: "BLWLDBType \<Rightarrow> lua_mode \<Rightarrow> string \<Rightarrow> daemon \<Rightarrow> (daemon, unit) outcome" where
  "lua_RedisPassword T m password = main_only m (done_with (on_list T (\<lambda>db. db\<lparr>redis_password := password\<rparr>)))"

definition lua_PersistReplicated :: "BLWLDBType \<Rightarrow> lua_mode \<Rightarrow> daemon \<Rightarrow> (daemon, unit) outcome" where
  "lua_PersistReplicated T m = main_only m (done_with (on_list T persistReplicated))"

definition lua_setBlacklistRetMsg :: "BLWLType \<Rightarrow> lua_mode \<Rightarrow> string \<Rightarrow> daemon \<Rightarrow> (daemon, unit) outcome" where
  "lua_setBlacklistRetMsg ty m msg =
     main_only m (done_with (on_wf (\<lambda>s. s\<lparr>g_bl_msgs :=
       (case ty of
          IP_BLWL \<Rightarrow> (g_bl_msgs s)\<lparr>ip_ret_msg := msg\<rparr>
        | LOGIN_BLWL \<Rightarrow> (g_bl_msgs s)\<lparr>login_ret_msg := msg\<rparr>
        | IP_LOGIN_BLWL \<Rightarrow> (g_bl_msgs s)\<lparr>iplogin_ret_msg := msg\<rparr>
        | JA3_BLWL \<Rightarrow> (g_bl_msgs s)\<lparr>ja3_ret_msg := msg\<rparr>
        | IP_JA3_BLWL \<Rightarrow> (g_bl_msgs s)\<lparr>ipja3_ret_msg := msg\<rparr>
        | NONE_BLWL \<Rightarrow> g_bl_msgs s)\<rparr>)))"

text \<open>
  Adding to, deleting from and asking a list: these work in every state but that of a client, so a call that the file makes
  outside a function is made once for each state.
\<close>

datatype list_key =
    LK_Netmask Netmask | LK_IP ComboAddress | LK_Login string | LK_IPLogin ComboAddress string | LK_JA3 string | LK_IPJA3 ComboAddress string

fun add_key :: "lua_env \<Rightarrow> list_key \<Rightarrow> int \<Rightarrow> string \<Rightarrow> BlackWhiteListDB \<Rightarrow> (BlackWhiteListDB, unit) outcome" where
  "add_key L (LK_Netmask nm) secs reason = addEntry_netmask (we_redis (le_web L)) (le_net L) (we_list_times (le_web L)) nm secs reason"
| "add_key L (LK_IP ca) secs reason = addEntry_ip (we_redis (le_web L)) (le_net L) (we_list_times (le_web L)) ca secs reason"
| "add_key L (LK_Login login) secs reason = addEntry_login (we_redis (le_web L)) (le_net L) (we_list_times (le_web L)) login secs reason"
| "add_key L (LK_IPLogin ca login) secs reason = addEntry_ip_login (we_redis (le_web L)) (le_net L) (we_list_times (le_web L)) ca login secs reason"
| "add_key L (LK_JA3 ja3) secs reason = addJA3Entry (we_redis (le_web L)) (le_net L) (we_list_times (le_web L)) ja3 secs reason"
| "add_key L (LK_IPJA3 ca ja3) secs reason = addIPJA3Entry (we_redis (le_web L)) (le_net L) (we_list_times (le_web L)) ca ja3 secs reason"

fun delete_key :: "lua_env \<Rightarrow> list_key \<Rightarrow> BlackWhiteListDB \<Rightarrow> (BlackWhiteListDB, unit) outcome" where
  "delete_key L (LK_Netmask nm) = deleteEntry_netmask (we_redis (le_web L)) (le_net L) nm"
| "delete_key L (LK_IP ca) = deleteEntry_ip (we_redis (le_web L)) (le_net L) ca"
| "delete_key L (LK_Login login) = deleteEntry_login (we_redis (le_web L)) (le_net L) login"
| "delete_key L (LK_IPLogin ca login) = deleteEntry_ip_login (we_redis (le_web L)) (le_net L) ca login"
| "delete_key L (LK_JA3 ja3) = deleteJA3Entry (we_redis (le_web L)) (le_net L) ja3"
| "delete_key L (LK_IPJA3 ca ja3) = deleteIPJA3Entry (we_redis (le_web L)) (le_net L) ca ja3"

definition lua_list_add :: "lua_env \<Rightarrow> lua_mode \<Rightarrow> BLWLDBType \<Rightarrow> list_key \<Rightarrow> 32 word \<Rightarrow> string \<Rightarrow> daemon \<Rightarrow> (daemon, unit) outcome" where
  "lua_list_add L m T key seconds reason d =
     (if client m then Ret d ()
      else map_state (\<lambda>db. on_wf (set_list_of T db) d) (add_key L key (uint seconds) reason (list_of T (dm_wforce d))))"

definition lua_list_delete :: "lua_env \<Rightarrow> lua_mode \<Rightarrow> BLWLDBType \<Rightarrow> list_key \<Rightarrow> daemon \<Rightarrow> (daemon, unit) outcome" where
  "lua_list_delete L m T key d =
     (if client m then Ret d ()
      else map_state (\<lambda>db. on_wf (set_list_of T db) d) (delete_key L key (list_of T (dm_wforce d))))"

text \<open>There is no function that checks a netmask; in a client the functions return nothing.\<close>

fun lua_list_check :: "lua_env \<Rightarrow> lua_mode \<Rightarrow> BLWLDBType \<Rightarrow> list_key \<Rightarrow> daemon \<Rightarrow> bool option" where
  "lua_list_check L m T key d =
     (if client m then None
      else case key of
             LK_Netmask nm \<Rightarrow> None
           | LK_IP ca \<Rightarrow> Some (checkEntry_ip ca (list_of T (dm_wforce d)))
           | LK_Login login \<Rightarrow> Some (checkEntry_login login (list_of T (dm_wforce d)))
           | LK_IPLogin ca login \<Rightarrow> Some (checkEntry_ip_login (le_net L) ca login (list_of T (dm_wforce d)))
           | LK_JA3 ja3 \<Rightarrow> Some (checkJA3Entry ja3 (list_of T (dm_wforce d)))
           | LK_IPJA3 ca ja3 \<Rightarrow> Some (checkIPJA3Entry (le_net L) ca ja3 (list_of T (dm_wforce d))))"

definition getWLBLKeys :: "lua_env \<Rightarrow> BlackWhiteListEntry list \<Rightarrow> string \<Rightarrow> (string \<times> string) list list" where
  "getWLBLKeys L blv key_name =
     map (\<lambda>i. fold (\<lambda>(k, v). sm_insert k v)
           [(key_name, ble_key i), (''expiration'', we_simple_time (le_web L) (ble_expiration i)), (''reason'', ble_reason i)] []) blv"

text \<open>
  The functions that list a table, by their Lua names and in the order of their registration; the last registration of a
  name counts.
\<close>

definition lua_list_functions :: "lua_env \<Rightarrow> (string \<times> (daemon \<Rightarrow> (string \<times> string) list list)) list" where
  "lua_list_functions L =
     [(''getIPBlacklist'', \<lambda>d. getWLBLKeys L (getIPEntries (list_of BLACKLIST (dm_wforce d))) ''ip''),
      (''getLoginBlacklist'', \<lambda>d. getWLBLKeys L (getLoginEntries (list_of BLACKLIST (dm_wforce d))) ''login''),
      (''getIPLoginBlacklist'', \<lambda>d. getWLBLKeys L (getIPLoginEntries (list_of BLACKLIST (dm_wforce d))) ''iplogin''),
      (''getJA3Blacklist'', \<lambda>d. getWLBLKeys L (getJA3Entries (list_of BLACKLIST (dm_wforce d))) ''ja3''),
      (''getIPLoginBlacklist'', \<lambda>d. getWLBLKeys L (getIPJA3Entries (list_of BLACKLIST (dm_wforce d))) ''ipja3''),
      (''getIPWhitelist'', \<lambda>d. getWLBLKeys L (getIPEntries (list_of WHITELIST (dm_wforce d))) ''ip''),
      (''getLoginWhitelist'', \<lambda>d. getWLBLKeys L (getLoginEntries (list_of WHITELIST (dm_wforce d))) ''login''),
      (''getIPLoginWhitelist'', \<lambda>d. getWLBLKeys L (getIPLoginEntries (list_of WHITELIST (dm_wforce d))) ''iplogin''),
      (''getJA3Whitelist'', \<lambda>d. getWLBLKeys L (getJA3Entries (list_of WHITELIST (dm_wforce d))) ''ja3''),
      (''getIPJA3Whitelist'', \<lambda>d. getWLBLKeys L (getIPJA3Entries (list_of WHITELIST (dm_wforce d))) ''ipja3'')]"

definition lua_get_list :: "lua_env \<Rightarrow> string \<Rightarrow> (daemon \<Rightarrow> (string \<times> string) list list) option" where
  "lua_get_list L name = map_of (rev (lua_list_functions L)) name"

section \<open>Hooks, statistics, logging\<close>

definition lua_addWebHook_call :: "lua_mode \<Rightarrow> string list \<Rightarrow> (string \<times> string) list \<Rightarrow> daemon \<Rightarrow> (daemon, unit) outcome" where
  "lua_addWebHook_call m events_vec ck_vec =
     server_only m (\<lambda>d.
       let i = snd (getNewID (g_webhook_db (dm_wforce d)))
       in case lua_addWebHook events_vec ck_vec (g_webhook_db (dm_wforce d)) of
            (db, ret, err) \<Rightarrow>
              (let d1 = on_wf (\<lambda>s. s\<lparr>g_webhook_db := db\<rparr>) d
               in Ret (if ret then d1
                       else errlog (''Registering webhook id='' @ nat_to_string (unat i) @ '' from Lua failed '' @ bracketed err) d1) ()))"

definition lua_addCustomWebHook :: "lua_mode \<Rightarrow> string \<Rightarrow> (string \<times> string) list \<Rightarrow> daemon \<Rightarrow> (daemon, unit) outcome" where
  "lua_addCustomWebHook m name ck_vec =
     server_only m (\<lambda>d.
       case getNewID (g_custom_webhook_db d) of
         (db1, i) \<Rightarrow>
           (case addWebHook (new_CustomWebHook i name True (fold (\<lambda>(k, v). sm_insert k v) ck_vec [])) [] db1 of
              (db2, ret, err) \<Rightarrow>
                (let d1 = d\<lparr>g_custom_webhook_db := db2\<rparr>
                 in Ret (if ret then d1
                         else errlog (''Registering custom webhook id='' @ nat_to_string (unat i) @ '' name='' @ name
                                @ '' from Lua failed '' @ bracketed err) d1) ())))"

definition lua_runCustomWebHook :: "lua_mode \<Rightarrow> string \<Rightarrow> string \<Rightarrow> daemon \<Rightarrow> (daemon, unit) outcome" where
  "lua_runCustomWebHook m name wh_data d =
     (if \<not> multi_lua m then Ret d ()
      else case getWebHook_name name (g_custom_webhook_db d) of
             Some h \<Rightarrow> Ret (on_wf (\<lambda>s. s\<lparr>g_webhook_runner := runHook_str name h wh_data (g_webhook_runner s)\<rparr>) d) ()
           | None \<Rightarrow> Ret (errlog (''Attempting to run custom webhook with name '' @ name @ '' but no such webhook exists!'') d) ())"

definition on_runner :: "(WebHookRunner \<Rightarrow> WebHookRunner) \<Rightarrow> daemon \<Rightarrow> daemon" where
  "on_runner f = on_wf (\<lambda>s. s\<lparr>g_webhook_runner := f (g_webhook_runner s)\<rparr>)"

definition lua_setNumWebHookThreads :: "lua_mode \<Rightarrow> 32 word \<Rightarrow> daemon \<Rightarrow> (daemon, unit) outcome" where
  "lua_setNumWebHookThreads m n = main_only m (done_with (on_runner (setNumThreads n)))"

definition lua_setWebHookQueueSize :: "lua_mode \<Rightarrow> 32 word \<Rightarrow> daemon \<Rightarrow> (daemon, unit) outcome" where
  "lua_setWebHookQueueSize m n = main_only m (done_with (on_runner (setMaxQueueSize n)))"

definition lua_setNumWebHookConnsPerThread :: "lua_mode \<Rightarrow> 32 word \<Rightarrow> daemon \<Rightarrow> (daemon, unit) outcome" where
  "lua_setNumWebHookConnsPerThread m n = main_only m (done_with (on_runner (Webhook.setMaxConns n)))"

definition lua_setWebHookTimeoutSecs :: "lua_mode \<Rightarrow> 64 word \<Rightarrow> daemon \<Rightarrow> (daemon, unit) outcome" where
  "lua_setWebHookTimeoutSecs m n = main_only m (done_with (on_runner (setTimeout n)))"

definition lua_addCustomStat :: "lua_mode \<Rightarrow> string \<Rightarrow> daemon \<Rightarrow> (daemon, unit) outcome" where
  "lua_addCustomStat m name = main_only m (done_with (\<lambda>d. d\<lparr>dm_perf := addCustomStat name (dm_perf d)\<rparr>))"

definition lua_incCustomStat :: "int \<times> int \<times> int \<Rightarrow> lua_mode \<Rightarrow> string \<Rightarrow> daemon \<Rightarrow> (daemon, unit) outcome" where
  "lua_incCustomStat ts m name d =
     (if \<not> multi_lua m then Ret d ()
      else obind (map_state (\<lambda>P. d\<lparr>dm_perf := P\<rparr>) (incCustomStat (dm_sk d) ts name (dm_perf d))) (\<lambda>d1 _. Ret d1 ()))"

text \<open>This function is not registered in the states of the pool; a call there is an error of the interpreter.\<close>

definition lua_setJA3AttrName :: "lua_mode \<Rightarrow> string \<Rightarrow> daemon \<Rightarrow> (daemon, unit) outcome" where
  "lua_setJA3AttrName m name d =
     (if multi_lua m then Exn (Runtime_Error ''attempt to call a nil value'') d else Ret (on_wf (\<lambda>s. s\<lparr>g_ja3_attrname := name\<rparr>) d) ())"

definition lua_setVerboseAllowLog :: "lua_mode \<Rightarrow> daemon \<Rightarrow> (daemon, unit) outcome" where
  "lua_setVerboseAllowLog m = main_only m (done_with (on_wf (\<lambda>s. s\<lparr>g_allowlog_verbose := True\<rparr>)))"

definition lua_setHLLBits :: "lua_mode \<Rightarrow> 32 word \<Rightarrow> daemon \<Rightarrow> (daemon, unit) outcome" where
  "lua_setHLLBits m nbits = main_only m (done_with (\<lambda>d. d\<lparr>dm_sk := setNumBits nbits (dm_sk d)\<rparr>))"

definition log_text :: "string \<Rightarrow> (string \<times> string) list \<Rightarrow> string" where
  "log_text msg kvs = msg @ (if kvs = [] then [] else '': '') @ concat (map (\<lambda>(k, v). log_field k v) kvs)"

definition lua_log :: "log_level \<Rightarrow> bool \<Rightarrow> string \<Rightarrow> (string \<times> string) list \<Rightarrow> daemon \<Rightarrow> (daemon, unit) outcome" where
  "lua_log level only_verbose msg kvs =
     done_with (on_wf (\<lambda>s. if only_verbose \<and> \<not> g_verbose s then s else log_line level (log_text msg kvs) s))"

section \<open>What the console shows\<close>

definition show_rows :: "lua_env \<Rightarrow> string \<Rightarrow> fmt_arg list \<Rightarrow> fmt_arg list list \<Rightarrow> daemon \<Rightarrow> daemon" where
  "show_rows L fmt heading rows d =
     d\<lparr>g_outputBuffer := le_format L fmt heading @ concat (map (le_format L fmt) rows)\<rparr>"

definition fword :: "32 word \<Rightarrow> fmt_arg" where "fword w = FInt (uint w)"

definition lua_stats :: "lua_env \<Rightarrow> lua_mode \<Rightarrow> daemon \<Rightarrow> (daemon, unit) outcome" where
  "lua_stats L m =
     main_only m (done_with (\<lambda>d. d\<lparr>g_outputBuffer := le_format L (''%d reports, %d allow-queries (%d denies)'' @ nl)
       [FInt (uint (g_reports (dm_wforce d))), FInt (uint (g_allows (dm_wforce d))), FInt (uint (g_denieds (dm_wforce d)))]\<rparr>))"

definition lua_siblings :: "lua_env \<Rightarrow> lua_mode \<Rightarrow> daemon \<Rightarrow> (daemon, unit) outcome" where
  "lua_siblings L m =
     main_only m (done_with (\<lambda>d. show_rows L (''%-35s %-15d %-14d %-15d %-14d   %s'' @ nl)
       [FStr ''Address'', FStr ''Send Successes'', FStr ''Send Failures'', FStr ''Rcv Successes'', FStr ''Rcv Failures'', FStr ''Note'']
       (map (\<lambda>s. [FStr (toStringWithPort (le_net L) (rem s) @ '' '' @ protocolToString (proto s)), fword (success s), fword (failures s),
                  fword (rcvd_success s), fword (rcvd_fail s), FStr (if d_ignoreself s then ''Self'' else [])])
          (d_siblings (g_replication (dm_wforce d)))) d))"

definition lua_showReportSinks :: "lua_env \<Rightarrow> lua_mode \<Rightarrow> daemon \<Rightarrow> (daemon, unit) outcome" where
  "lua_showReportSinks L m =
     main_only m (done_with (\<lambda>d. show_rows L (''%-35s %-10d %-9d'' @ nl) [FStr ''Address'', FStr ''Successes'', FStr ''Failures'']
       (map (\<lambda>s. [FStr (toStringWithPort (le_net L) (rem s)), fword (success s), fword (failures s)]) (g_report_sinks (dm_wforce d))) d))"

definition lua_showNamedReportSinks :: "lua_env \<Rightarrow> lua_mode \<Rightarrow> daemon \<Rightarrow> (daemon, unit) outcome" where
  "lua_showNamedReportSinks L m =
     main_only m (done_with (\<lambda>d. show_rows L (''%-15s %-35s %-10d %-9d'' @ nl)
       [FStr ''Name'', FStr ''Address'', FStr ''Successes'', FStr ''Failures'']
       (concat (map (\<lambda>(name, rr, vec). map (\<lambda>s. [FStr name, FStr (toStringWithPort (le_net L) (rem s)), fword (success s), fword (failures s)]) vec)
          (g_named_report_sinks (dm_wforce d)))) d))"

definition db_rows :: "string \<times> TWStringStatsDBWrapper \<Rightarrow> exn + fmt_arg list list" where
  "db_rows nw =
     (case nw of (name, w) \<Rightarrow>
        (case getFields w of
           Inl e \<Rightarrow> Inl e
         | Inr [] \<Rightarrow> Inr []
         | Inr ((f, ty) # fs) \<Rightarrow>
             Inr ([FStr (name @ ''/'' @ int_to_string (num_shards w)), FStr (if replicated w then ''yes'' else ''no''),
                   FStr (int_to_string (wr_window_size w) @ ''/'' @ int_to_string (wr_num_windows w)),
                   fword (wr_get_max_size w), fword (wr_get_size w), FStr f, FStr ty]
                  # map (\<lambda>(f, ty). [FStr [], FStr [], FStr [], FStr [], FStr [], FStr f, FStr ty]) fs)))"

fun show_dbs :: "lua_env \<Rightarrow> string \<Rightarrow> (string \<times> TWStringStatsDBWrapper) list \<Rightarrow> daemon \<Rightarrow> (daemon, unit) outcome" where
  "show_dbs L fmt [] d = Ret d ()"
| "show_dbs L fmt (nw # nws) d =
     (case db_rows nw of Inl e \<Rightarrow> Exn e d | Inr rows \<Rightarrow> show_dbs L fmt nws (lua_out (concat (map (le_format L fmt) rows)) d))"

definition lua_showStringStatsDB :: "lua_env \<Rightarrow> lua_mode \<Rightarrow> daemon \<Rightarrow> (daemon, unit) outcome" where
  "lua_showStringStatsDB L m =
     main_only m (\<lambda>d. let fmt = ''%-20.20d %-5.5s %-11.11d %-9d %-9d %-16.16s %-s'' @ nl
       in show_dbs L fmt (g_dbMap (dm_wforce d)) (show_rows L fmt
            [FStr ''DB Name/Shards'', FStr ''Repl?'', FStr ''Win Size/No'', FStr ''Max Size'', FStr ''Cur Size'', FStr ''Field Name'', FStr ''Type''] [] d))"

definition lua_showWebHooks :: "lua_env \<Rightarrow> lua_mode \<Rightarrow> daemon \<Rightarrow> (daemon, unit) outcome" where
  "lua_showWebHooks L m =
     main_only m (done_with (\<lambda>d. show_rows L (''%-9d %-9d %-9d %-45.45s %-s'' @ nl)
       [FStr ''ID'', FStr ''Successes'', FStr ''Failures'', FStr ''URL'', FStr ''Events'']
       (map (\<lambda>h. [fword (wh_id h), fword (wh_num_success h), fword (wh_num_failed h), FStr (getConfigKey ''url'' h), FStr (getEventsStr h)])
          (getWebHooks (g_webhook_db (dm_wforce d)))) d))"

definition lua_showCustomWebHooks :: "lua_env \<Rightarrow> lua_mode \<Rightarrow> daemon \<Rightarrow> (daemon, unit) outcome" where
  "lua_showCustomWebHooks L m =
     main_only m (done_with (\<lambda>d. show_rows L (''%-9d %-20.20s %-9d %-9d %-s'' @ nl)
       [FStr ''ID'', FStr ''Name'', FStr ''Successes'', FStr ''Failures'', FStr ''URL'']
       (map (\<lambda>h. [fword (wh_id h), FStr (wh_name h), fword (wh_num_success h), fword (wh_num_failed h), FStr (getConfigKey ''url'' h)])
          (getWebHooks (g_custom_webhook_db d))) d))"

definition lua_showCustomEndpoints :: "lua_env \<Rightarrow> lua_mode \<Rightarrow> (string \<times> bool) list \<Rightarrow> string list \<Rightarrow> daemon \<Rightarrow> (daemon, unit) outcome" where
  "lua_showCustomEndpoints L m posts gets =
     main_only m (done_with (show_rows L (''%-30.30s %-5.5s %-s '' @ nl) [FStr ''Custom Endpoint'', FStr ''Type'', FStr ''Send to Report Sink?'']
       (map (\<lambda>(name, sink). [FStr name, FStr ''POST'', FStr (if sink then ''true'' else ''false'')]) posts
        @ map (\<lambda>name. [FStr name, FStr ''GET'', FStr ''false'']) gets)))"

text \<open>Output appended by the functions that show the statistics of the process.\<close>

definition show_perf ::
    "(sk_env \<Rightarrow> (nat \<Rightarrow> int \<times> int) \<Rightarrow> perf_stats \<Rightarrow> (perf_stats, string) outcome) \<Rightarrow> (nat \<Rightarrow> int \<times> int) \<Rightarrow> lua_mode \<Rightarrow> daemon
     \<Rightarrow> (daemon, unit) outcome" where
  "show_perf f clk m =
     main_only m (\<lambda>d. obind (map_state (\<lambda>P. d\<lparr>dm_perf := P\<rparr>) (f (dm_sk d) clk (dm_perf d))) (\<lambda>d1 t. Ret (lua_out t d1) ()))"

definition lua_showPerfStats where "lua_showPerfStats = show_perf getPerfStatsString"
definition lua_showCommandStats where "lua_showCommandStats = show_perf getCommandStatsString"
definition lua_showCustomStats where "lua_showCustomStats = show_perf getCustomStatsString"

text \<open>The console lists the black list of addresses with logins under the wrong name, and cannot list the other one.\<close>

lemma list_function_replaced:
  "\<exists>f. lua_get_list L ''getIPLoginBlacklist'' = Some f \<and> f d = getWLBLKeys L (ip_ja3_list (list_of BLACKLIST (dm_wforce d))) ''ipja3''"
  "lua_get_list L ''getIPJA3Blacklist'' = None"
  by (simp_all add: lua_get_list_def lua_list_functions_def getIPJA3Entries_def getEntries_def)

section \<open>Test of the encryption\<close>

definition test_round :: "secretbox \<Rightarrow> string \<Rightarrow> string \<Rightarrow> SodiumNonce \<times> SodiumNonce \<Rightarrow> (SodiumNonce \<times> SodiumNonce, string) outcome" where
  "test_round B testmsg key sns =
     (case sns of (sn, sn2) \<Rightarrow>
        (case sodEncryptSym B testmsg key sn of
           (sn', encrypted) \<Rightarrow> map_state (\<lambda>n. (sn', n)) (sodDecryptSym B encrypted key sn2)))"

definition lua_testCrypto :: "secretbox \<Rightarrow> SodiumNonce \<Rightarrow> lua_mode \<Rightarrow> string \<Rightarrow> daemon \<Rightarrow> (daemon, unit) outcome" where
  "lua_testCrypto B n m testmsg =
     main_only m (\<lambda>d.
       let key = d_default_key (g_replication (dm_wforce d))
       in case obind (test_round B testmsg key (n, n)) (\<lambda>(sn, sn2) _. test_round B testmsg key (nonce_increment sn, nonce_increment sn2)) of
            Ret _ decrypted \<Rightarrow> Ret (d\<lparr>g_outputBuffer := (if testmsg = decrypted then ''Everything is ok!'' else ''Crypto failed..'') @ nl\<rparr>) ()
          | Exn e _ \<Rightarrow> Ret (d\<lparr>g_outputBuffer := ''Crypto failed..'' @ nl\<rparr>) ()
          | Undef \<Rightarrow> Undef)"

lemma test_round_ok:
  assumes "secretbox_ok B"
  shows "test_round B testmsg key (n, n) = Ret (nonce_increment n, nonce_increment n) testmsg"
proof -
  have "length (crypto_secretbox_easy B n key testmsg) = length testmsg + crypto_secretbox_MACBYTES"
    "crypto_secretbox_open_easy B n key (crypto_secretbox_easy B n key testmsg) = Some testmsg"
    using assms by (auto simp: secretbox_ok_def)
  then show ?thesis by (auto simp: test_round_def sodEncryptSym_def sodDecryptSym_def)
qed

lemma crypto_test_succeeds:
  assumes "secretbox_ok B" and "\<not> multi_lua m"
  shows "lua_testCrypto B n m testmsg d = Ret (d\<lparr>g_outputBuffer := ''Everything is ok!'' @ nl\<rparr>) ()"
  using assms by (simp add: lua_testCrypto_def main_only_def test_round_ok)

end
