(* ===== verification/Start_Up.thy ===== *)
theory Start_Up
  imports Lua_Config
begin

text \<open>
  How a daemon starts (\<^verbatim>\<open>main\<close> of \<^verbatim>\<open>wforce/wforce.cc\<close>): the configuration file is run by the main Lua state and by each state of the
  pool (\<^verbatim>\<open>setupLua\<close>), then the commands are registered, the lists loaded and the threads started. The calls that the interpreter makes
  while it runs the file are the data type \<open>lua_call\<close>; the file makes the same calls in every state. Waiting for the web server,
  signals, the command line and the console are left out.
\<close>

section \<open>Calls\<close>

datatype setup_call =
    SetJA3AttrName string | AddReportSink string | SetReportSinks "string list" | AddNamedReportSink string string
  | SetNamedReportSinks string "string list" | AddSyncHost string string string string | SetMinSyncHostUptime "32 word"
  | SetMaxSiblingQueueSize "32 word" | AddSibling string | AddSiblingWithKey string string | RemoveSibling string
  | SetSiblingsWithKey "string list list" | SetSiblings "string list" | SetSiblingConnectTimeout int | SiblingListener string
  | SetNumSiblingThreads int | SetKey string | Webserver string string | SetWebserverPassword string | AddACL string
  | SetACL "string list" | SetNumLuaStates int | SetNumWorkerThreads int | SetMaxWebserverConns int | SetMetricsNoPassword
  | AddListener string bool string string | ControlSocket string | DisableCurlPeerVerification | DisableCurlHostVerification
  | SetCurlCABundleFile string | SetCurlClientCertAndKey string string | NewStringStatsDB string int int "(string \<times> string) list"
  | NewShardedStringStatsDB string int int "(string \<times> string) list" int | DisableBuiltin BLWLDBType | PersistDB BLWLDBType string "32 word"
  | RedisUsername BLWLDBType string | RedisPassword BLWLDBType string | PersistReplicated BLWLDBType | SetBlacklistRetMsg BLWLType string
  | AddWebHook "string list" "(string \<times> string) list" | AddCustomWebHook string "(string \<times> string) list" | SetNumWebHookThreads "32 word"
  | SetWebHookQueueSize "32 word" | SetNumWebHookConnsPerThread "32 word" | SetWebHookTimeoutSecs "64 word" | AddCustomStat string
  | SetVerboseAllowLog | SetHLLBits "32 word"

fun exec_setup :: "lua_env \<Rightarrow> lua_mode \<Rightarrow> setup_call \<Rightarrow> daemon \<Rightarrow> (daemon, unit) outcome" where
  "exec_setup L m (SetJA3AttrName name) = lua_setJA3AttrName m name"
| "exec_setup L m (AddReportSink address) = lua_addReportSink L m address"
| "exec_setup L m (SetReportSinks parts) = lua_setReportSinks L m parts"
| "exec_setup L m (AddNamedReportSink name address) = lua_addNamedReportSink L m name address"
| "exec_setup L m (SetNamedReportSinks name parts) = lua_setNamedReportSinks L m name parts"
| "exec_setup L m (AddSyncHost address password sync web) = lua_addSyncHost L m address password sync web"
| "exec_setup L m (SetMinSyncHostUptime uptime) = lua_setMinSyncHostUptime m uptime"
| "exec_setup L m (SetMaxSiblingQueueSize sz) = lua_setMaxSiblingQueueSize m sz"
| "exec_setup L m (AddSibling address) = lua_addSibling L m address"
| "exec_setup L m (AddSiblingWithKey address key) = lua_addSiblingWithKey L m address key"
| "exec_setup L m (RemoveSibling address) = lua_removeSibling L m address"
| "exec_setup L m (SetSiblingsWithKey parts) = lua_setSiblingsWithKey L m parts"
| "exec_setup L m (SetSiblings parts) = lua_setSiblings L m parts"
| "exec_setup L m (SetSiblingConnectTimeout timeout) = lua_setSiblingConnectTimeout m timeout"
| "exec_setup L m (SiblingListener address) = lua_siblingListener L m address"
| "exec_setup L m (SetNumSiblingThreads n) = lua_setNumSiblingThreads m n"
| "exec_setup L m (SetKey key) = lua_setKey m key"
| "exec_setup L m (Webserver address password) = lua_webserver L m address password"
| "exec_setup L m (SetWebserverPassword password) = lua_setWebserverPassword m password"
| "exec_setup L m (AddACL text) = lua_addACL L m text"
| "exec_setup L m (SetACL parts) = lua_setACL L m parts"
| "exec_setup L m (SetNumLuaStates n) = lua_setNumLuaStates m n"
| "exec_setup L m (SetNumWorkerThreads n) = lua_setNumWorkerThreads m n"
| "exec_setup L m (SetMaxWebserverConns n) = lua_setMaxWebserverConns m n"
| "exec_setup L m SetMetricsNoPassword = lua_setMetricsNoPassword m"
| "exec_setup L m (AddListener address ssl cert key) = lua_addListener L m address ssl cert key"
| "exec_setup L m (ControlSocket str) = lua_controlSocket L m str"
| "exec_setup L m DisableCurlPeerVerification = lua_disableCurlPeerVerification m"
| "exec_setup L m DisableCurlHostVerification = lua_disableCurlHostVerification m"
| "exec_setup L m (SetCurlCABundleFile file) = lua_setCurlCABundleFile m file"
| "exec_setup L m (SetCurlClientCertAndKey cert key) = lua_setCurlClientCertAndKey m cert key"
| "exec_setup L m (NewStringStatsDB name ws nw fmvec) = lua_newStringStatsDB L m name ws nw fmvec"
| "exec_setup L m (NewShardedStringStatsDB name ws nw fmvec n) = lua_newShardedStringStatsDB L m name ws nw fmvec n"
| "exec_setup L m (DisableBuiltin T) = lua_disableBuiltin T m"
| "exec_setup L m (PersistDB T ip port) = lua_PersistDB T m ip port"
| "exec_setup L m (RedisUsername T name) = lua_RedisUsername T m name"
| "exec_setup L m (RedisPassword T password) = lua_RedisPassword T m password"
| "exec_setup L m (PersistReplicated T) = lua_PersistReplicated T m"
| "exec_setup L m (SetBlacklistRetMsg ty msg) = lua_setBlacklistRetMsg ty m msg"
| "exec_setup L m (AddWebHook events keys) = lua_addWebHook_call m events keys"
| "exec_setup L m (AddCustomWebHook name keys) = lua_addCustomWebHook m name keys"
| "exec_setup L m (SetNumWebHookThreads n) = lua_setNumWebHookThreads m n"
| "exec_setup L m (SetWebHookQueueSize n) = lua_setWebHookQueueSize m n"
| "exec_setup L m (SetNumWebHookConnsPerThread n) = lua_setNumWebHookConnsPerThread m n"
| "exec_setup L m (SetWebHookTimeoutSecs n) = lua_setWebHookTimeoutSecs m n"
| "exec_setup L m (AddCustomStat name) = lua_addCustomStat m name"
| "exec_setup L m SetVerboseAllowLog = lua_setVerboseAllowLog m"
| "exec_setup L m (SetHLLBits n) = lua_setHLLBits m n"

text \<open>The calls that give the interpreter's functions to a state of the pool.\<close>

datatype context_call =
    SetAllow "LoginTuple \<Rightarrow> lua_exn + AllowReturn"
  | SetReport "LoginTuple \<Rightarrow> lua_exn + unit"
  | SetReset "string \<Rightarrow> string \<Rightarrow> ComboAddress \<Rightarrow> lua_exn + bool"
  | SetCanonicalize "string \<Rightarrow> lua_exn + string"
  | SetCustomEndpoint string bool "CustomFuncArgs \<Rightarrow> wforce \<Rightarrow> wforce \<times> (lua_exn + CustomFuncReturn)"
  | SetCustomGetEndpoint string "wforce \<Rightarrow> wforce \<times> (lua_exn + string)"

definition lua_setAllow where "lua_setAllow m f c = (if multi_lua m then c\<lparr>allow_func := f\<rparr> else c)"
definition lua_setReport where "lua_setReport m f c = (if multi_lua m then c\<lparr>report_func := f\<rparr> else c)"
definition lua_setReset where "lua_setReset m f c = (if multi_lua m then c\<lparr>reset_func := f\<rparr> else c)"
definition lua_setCanonicalize where "lua_setCanonicalize m f c = (if multi_lua m then c\<lparr>canon_func := f\<rparr> else c)"

text \<open>\<^verbatim>\<open>std::map::insert\<close>: the first function of a name stays.\<close>

definition insert_first :: "string \<Rightarrow> 'a \<Rightarrow> (string \<times> 'a) list \<Rightarrow> (string \<times> 'a) list" where
  "insert_first k v fs = (if map_of fs k = None then fs @ [(k, v)] else fs)"

definition lua_setCustomEndpoint where
  "lua_setCustomEndpoint L ctxs m f_name reportSink func dc =
     (case dc of (d, c) \<Rightarrow>
        (let c1 = c\<lparr>custom_func_map := insert_first f_name \<lparr>c_func = func, c_reportSink = reportSink\<rparr> (custom_func_map c)\<rparr>
         in if multi_lua m \<or> client m then (d, c1)
            else (on_wf (log_line Notice (''Registering custom POST endpoint '' @ bracketed f_name))
                    (d\<lparr>dm_perf := addCommandStat f_name (dm_perf d),
                       dm_server := registerFunc f_name POST (parseCustomCmd (le_web L) ctxs) (dm_server d)\<rparr>), c1)))"

definition lua_setCustomGetEndpoint where
  "lua_setCustomGetEndpoint L ctxs m f_name func dc =
     (case dc of (d, c) \<Rightarrow>
        (let c1 = c\<lparr>custom_get_func_map := insert_first f_name func (custom_get_func_map c)\<rparr>
         in if multi_lua m \<or> client m then (d, c1)
            else (on_wf (log_line Notice (''Registering custom GET endpoint '' @ bracketed f_name))
                    (d\<lparr>dm_perf := addCommandStat (f_name @ ''_Get'') (dm_perf d),
                       dm_server := registerFunc f_name GET (\<lambda>command body. parseCustomGetCmd (le_web L) ctxs command) (dm_server d)\<rparr>), c1)))"

fun exec_context :: "lua_env \<Rightarrow> lua_contexts \<Rightarrow> lua_mode \<Rightarrow> context_call \<Rightarrow> daemon \<times> lua_ctx \<Rightarrow> daemon \<times> lua_ctx" where
  "exec_context L ctxs m (SetAllow f) (d, c) = (d, lua_setAllow m f c)"
| "exec_context L ctxs m (SetReport f) (d, c) = (d, lua_setReport m f c)"
| "exec_context L ctxs m (SetReset f) (d, c) = (d, lua_setReset m f c)"
| "exec_context L ctxs m (SetCanonicalize f) (d, c) = (d, lua_setCanonicalize m f c)"
| "exec_context L ctxs m (SetCustomEndpoint name sink f) dc = lua_setCustomEndpoint L ctxs m name sink f dc"
| "exec_context L ctxs m (SetCustomGetEndpoint name f) dc = lua_setCustomGetEndpoint L ctxs m name f dc"

text \<open>The calls meant for the functions of the file.\<close>

datatype runtime_call =
    ListAdd BLWLDBType list_key "32 word" string | ListDelete BLWLDBType list_key | IncCustomStat "int \<times> int \<times> int" string
  | RunCustomWebHook string string | LogCall log_level bool string "(string \<times> string) list"

fun exec_runtime :: "lua_env \<Rightarrow> lua_mode \<Rightarrow> runtime_call \<Rightarrow> daemon \<Rightarrow> (daemon, unit) outcome" where
  "exec_runtime L m (ListAdd T key seconds reason) = lua_list_add L m T key seconds reason"
| "exec_runtime L m (ListDelete T key) = lua_list_delete L m T key"
| "exec_runtime L m (IncCustomStat ts name) = lua_incCustomStat ts m name"
| "exec_runtime L m (RunCustomWebHook name wh_data) = lua_runCustomWebHook m name wh_data"
| "exec_runtime L m (LogCall level verbose msg kvs) = lua_log level verbose msg kvs"

datatype lua_call = Setup_Call setup_call | Context_Call context_call | Runtime_Call runtime_call

fun lua_exec :: "lua_env \<Rightarrow> lua_contexts \<Rightarrow> lua_mode \<Rightarrow> lua_call \<Rightarrow> daemon \<times> lua_ctx \<Rightarrow> (daemon \<times> lua_ctx, unit) outcome" where
  "lua_exec L ctxs m (Setup_Call s) (d, c) = map_state (\<lambda>d1. (d1, c)) (exec_setup L m s d)"
| "lua_exec L ctxs m (Context_Call k) dc = Ret (exec_context L ctxs m k dc) ()"
| "lua_exec L ctxs m (Runtime_Call r) (d, c) = map_state (\<lambda>d1. (d1, c)) (exec_runtime L m r d)"

fun run_calls :: "lua_env \<Rightarrow> lua_contexts \<Rightarrow> lua_mode \<Rightarrow> lua_call list \<Rightarrow> daemon \<times> lua_ctx \<Rightarrow> (daemon \<times> lua_ctx, unit) outcome" where
  "run_calls L ctxs m [] dc = Ret dc ()"
| "run_calls L ctxs m (k # ks) dc = obind (lua_exec L ctxs m k dc) (\<lambda>dc1 _. run_calls L ctxs m ks dc1)"

section \<open>Setting up a state\<close>

text \<open>
  The list of work is deleted and its pointer reset only in the main state; a state of the pool leaves a new, empty list
  behind that nobody runs.
\<close>

definition setupLua ::
    "lua_env \<Rightarrow> lua_contexts \<Rightarrow> bool \<Rightarrow> bool \<Rightarrow> lua_call list \<Rightarrow> daemon \<times> lua_ctx \<Rightarrow> (daemon \<times> lua_ctx, launch list) outcome" where
  "setupLua L ctxs is_client is_multi calls dc =
     (let m = \<lparr>client = is_client, multi_lua = is_multi, list_alive = True\<rparr>
      in case dc of (d, c) \<Rightarrow>
           obind (run_calls L ctxs m calls (d\<lparr>launchWork := Some []\<rparr>, c))
             (\<lambda>(d1, c1) _. if is_multi then Ret (d1, c1) []
                           else Ret (d1\<lparr>launchWork := None\<rparr>, c1) (case launchWork d1 of Some l \<Rightarrow> l | None \<Rightarrow> [])))"

definition default_context :: lua_ctx where
  "default_context =
     \<lparr>allow_func = (\<lambda>lt. Inr (0, [], [], [])), report_func = (\<lambda>lt. Inr ()), reset_func = (\<lambda>ty v ca. Inr True),
      canon_func = (\<lambda>login. Inr login), custom_func_map = [], custom_get_func_map = []\<rparr>"

fun setup_workers ::
    "lua_env \<Rightarrow> lua_contexts \<Rightarrow> lua_call list \<Rightarrow> lua_ctx \<Rightarrow> nat \<Rightarrow> daemon \<times> lua_ctx list \<Rightarrow> (daemon \<times> lua_ctx list, unit) outcome" where
  "setup_workers L ctxs calls g 0 dcs = Ret dcs ()"
| "setup_workers L ctxs calls g (Suc n) (d, cs) =
     (let c = default_context\<lparr>allow_func := allow_func g, report_func := report_func g, reset_func := reset_func g, canon_func := canon_func g\<rparr>
      in case setupLua L ctxs False True calls (d, c) of
           Ret (d1, c1) _ \<Rightarrow> setup_workers L ctxs calls g n (d1, cs @ [c1])
         | Exn e (d1, c1) \<Rightarrow> Exn e (d1, cs)
         | Undef \<Rightarrow> Undef)"

section \<open>The sequence of \<^verbatim>\<open>main\<close>\<close>

definition default_ACL :: "string list" where
  "default_ACL =
     [''127.0.0.0/8'', ''10.0.0.0/8'', ''100.64.0.0/10'', ''169.254.0.0/16'', ''192.168.0.0/16'', ''172.16.0.0/12'', ''::1/128'', ''fc00::/7'',
      ''fe80::/10'']"

definition sensible_ACL :: "lua_env \<Rightarrow> daemon \<Rightarrow> (daemon, unit) outcome" where
  "sensible_ACL L d =
     (case add_masks (le_net L) default_ACL (getACL (dm_server d)) of
        Ret acl _ \<Rightarrow> Ret (on_server (setACL acl) d) ()
      | Exn e _ \<Rightarrow> Exn e d
      | Undef \<Rightarrow> Undef)"

text \<open>Reading the configuration; the value is the work that the file asked for.\<close>

definition configure ::
    "lua_env \<Rightarrow> lua_contexts \<Rightarrow> lua_call list \<Rightarrow> daemon \<Rightarrow> (daemon \<times> lua_ctx list, launch list) outcome" where
  "configure L ctxs calls d =
     (case obind (map_state (\<lambda>d1. (d1, default_context)) (sensible_ACL L d)) (\<lambda>dc _. setupLua L ctxs False False calls dc) of
        Ret (d1, g) todo \<Rightarrow>
          obind (setup_workers L ctxs calls g (unat (word_of_int (g_num_luastates d1) :: 32 word)) (d1, [])) (\<lambda>dcs _. Ret dcs todo)
      | Exn e (d1, g) \<Rightarrow> Exn e (d1, [])
      | Undef \<Rightarrow> Undef)"

definition load_persist :: "lua_env \<Rightarrow> BLWLDBType \<Rightarrow> scan_reply list \<Rightarrow> daemon \<Rightarrow> (daemon, unit) outcome option" where
  "load_persist L T replies d =
     (case loadPersistEntries (we_redis (le_web L)) (le_net L) (we_list_times (le_web L)) replies (list_of T (dm_wforce d)) of
        None \<Rightarrow> None
      | Some (Ret db (ok, n)) \<Rightarrow>
          (let d1 = on_wf (set_list_of T db) d
           in Some (if ok then Ret d1 ()
                    else Exn Exit_Failure (errlog (''Could not load persistent '' @ (if T = BLACKLIST then ''BL'' else ''WL'')
                           @ '' DB entries, please fix configuration or check redis availability. Exiting.'') d1)))
      | Some (Exn e db) \<Rightarrow> Some (Exn e (on_wf (set_list_of T db) d))
      | Some Undef \<Rightarrow> Some Undef)"

definition register_all :: "lua_env \<Rightarrow> (string \<Rightarrow> wforce \<times> HttpResponse \<Rightarrow> wforce \<times> HttpResponse) \<Rightarrow> daemon \<Rightarrow> daemon" where
  "register_all L stats d =
     d\<lparr>dm_server := registerWebserverCommands (le_web L) stats (dm_server d),
       dm_perf := initPerfStats (registerCommandStats (dm_perf d))\<rparr>"

definition begin_work :: "lua_env \<Rightarrow> sync_env \<Rightarrow> launch list \<Rightarrow> daemon \<Rightarrow> daemon \<times> http_request list" where
  "begin_work L H todo d =
     (let d1 = fold run_launch todo d
      in case checkSyncHosts (le_web L) H (dm_sync d1) (dm_wforce d1) of (s, reqs) \<Rightarrow> (d1\<lparr>dm_wforce := s\<rparr>, reqs))"

text \<open>\<open>None\<close> while the answers of the Redis server are still awaited.\<close>

definition start_daemon ::
    "lua_env \<Rightarrow> lua_contexts \<Rightarrow> sync_env \<Rightarrow> (string \<Rightarrow> wforce \<times> HttpResponse \<Rightarrow> wforce \<times> HttpResponse) \<Rightarrow> scan_reply list \<Rightarrow> scan_reply list
     \<Rightarrow> lua_call list \<Rightarrow> daemon \<Rightarrow> (daemon \<times> lua_ctx list, http_request list) outcome option" where
  "start_daemon L ctxs H stats bl_replies wl_replies calls d =
     (case configure L ctxs calls d of
        Ret (d1, cs) todo \<Rightarrow>
          (case load_persist L BLACKLIST bl_replies (register_all L stats d1) of
             Some (Ret d2 _) \<Rightarrow>
               (case load_persist L WHITELIST wl_replies d2 of
                  Some (Ret d3 _) \<Rightarrow> (case begin_work L H todo d3 of (d4, reqs) \<Rightarrow> Some (Ret (d4, cs) reqs))
                | Some (Exn e d3) \<Rightarrow> Some (Exn e (d3, cs))
                | Some Undef \<Rightarrow> Some Undef
                | None \<Rightarrow> None)
           | Some (Exn e d2) \<Rightarrow> Some (Exn e (d2, cs))
           | Some Undef \<Rightarrow> Some Undef
           | None \<Rightarrow> None)
      | Exn e dcs \<Rightarrow> Some (Exn e dcs)
      | Undef \<Rightarrow> Some Undef)"

section \<open>The file is run in every state and works once\<close>

lemmas lua_guards = main_only_def server_only_def

text \<open>In a state of the pool the calls that set the daemon up do nothing, except for one, which cannot be called there.\<close>

definition no_ja3 :: "lua_call \<Rightarrow> bool" where
  "no_ja3 k \<longleftrightarrow> (\<forall>name. k \<noteq> Setup_Call (SetJA3AttrName name))"

lemma worker_setup: "multi_lua m \<Longrightarrow> no_ja3 (Setup_Call s) \<Longrightarrow> exec_setup L m s d = Ret d ()"
  by (cases s)
    (simp_all add: no_ja3_def lua_addReportSink_def lua_setReportSinks_def lua_addNamedReportSink_def
      lua_setNamedReportSinks_def lua_addSyncHost_def lua_setMinSyncHostUptime_def lua_setMaxSiblingQueueSize_def lua_addSibling_def
      lua_addSiblingWithKey_def lua_removeSibling_def lua_setSiblingsWithKey_def lua_setSiblings_def lua_setSiblingConnectTimeout_def
      lua_siblingListener_def lua_setNumSiblingThreads_def lua_setKey_def lua_webserver_def lua_setWebserverPassword_def lua_addACL_def
      lua_setACL_def lua_setNumLuaStates_def lua_setNumWorkerThreads_def lua_setMaxWebserverConns_def lua_setMetricsNoPassword_def
      lua_addListener_def lua_controlSocket_def lua_disableCurlPeerVerification_def lua_disableCurlHostVerification_def
      lua_setCurlCABundleFile_def lua_setCurlClientCertAndKey_def lua_newStringStatsDB_def lua_newShardedStringStatsDB_def
      lua_disableBuiltin_def lua_PersistDB_def lua_RedisUsername_def lua_RedisPassword_def lua_PersistReplicated_def
      lua_setBlacklistRetMsg_def lua_addWebHook_call_def lua_addCustomWebHook_def lua_setNumWebHookThreads_def
      lua_setWebHookQueueSize_def lua_setNumWebHookConnsPerThread_def lua_setWebHookTimeoutSecs_def lua_addCustomStat_def
      lua_setVerboseAllowLog_def lua_setHLLBits_def lua_guards)

text \<open>What a call does to the functions of a state.\<close>

fun ctx_effect :: "bool \<Rightarrow> lua_call \<Rightarrow> lua_ctx \<Rightarrow> lua_ctx" where
  "ctx_effect multi (Context_Call (SetAllow f)) c = (if multi then c\<lparr>allow_func := f\<rparr> else c)"
| "ctx_effect multi (Context_Call (SetReport f)) c = (if multi then c\<lparr>report_func := f\<rparr> else c)"
| "ctx_effect multi (Context_Call (SetReset f)) c = (if multi then c\<lparr>reset_func := f\<rparr> else c)"
| "ctx_effect multi (Context_Call (SetCanonicalize f)) c = (if multi then c\<lparr>canon_func := f\<rparr> else c)"
| "ctx_effect multi (Context_Call (SetCustomEndpoint name sink f)) c =
     c\<lparr>custom_func_map := insert_first name \<lparr>c_func = f, c_reportSink = sink\<rparr> (custom_func_map c)\<rparr>"
| "ctx_effect multi (Context_Call (SetCustomGetEndpoint name f)) c = c\<lparr>custom_get_func_map := insert_first name f (custom_get_func_map c)\<rparr>"
| "ctx_effect multi k c = c"

lemma exec_context_effect: "snd (exec_context L ctxs m k (d, c)) = ctx_effect (multi_lua m) (Context_Call k) c"
  by (cases k) (simp_all add: lua_setAllow_def lua_setReport_def lua_setReset_def lua_setCanonicalize_def
      lua_setCustomEndpoint_def lua_setCustomGetEndpoint_def Let_def)

lemma lua_exec_effect: "lua_exec L ctxs m k (d, c) = Ret (d1, c1) u \<Longrightarrow> c1 = ctx_effect (multi_lua m) k c"
proof (cases k)
  case (Setup_Call s)
  then show "lua_exec L ctxs m k (d, c) = Ret (d1, c1) u \<Longrightarrow> ?thesis" by (cases "exec_setup L m s d") auto
next
  case (Context_Call x)
  then show "lua_exec L ctxs m k (d, c) = Ret (d1, c1) u \<Longrightarrow> ?thesis" using exec_context_effect[of L ctxs m x d c] by auto
next
  case (Runtime_Call r)
  then show "lua_exec L ctxs m k (d, c) = Ret (d1, c1) u \<Longrightarrow> ?thesis" by (cases "exec_runtime L m r d") auto
qed

lemma run_calls_effect: "run_calls L ctxs m ks (d, c) = Ret (d1, c1) u \<Longrightarrow> c1 = fold (ctx_effect (multi_lua m)) ks c"
proof (induction ks arbitrary: d c)
  case (Cons k ks)
  then obtain d2 c2 where "lua_exec L ctxs m k (d, c) = Ret (d2, c2) ()" "run_calls L ctxs m ks (d2, c2) = Ret (d1, c1) u"
    by (cases "lua_exec L ctxs m k (d, c)") auto
  then show ?case using Cons.IH lua_exec_effect by fastforce
qed simp

definition no_runtime :: "lua_call list \<Rightarrow> bool" where
  "no_runtime calls \<longleftrightarrow> list_all (\<lambda>k. case k of Runtime_Call _ \<Rightarrow> False | _ \<Rightarrow> True) calls"

lemma worker_exec:
  assumes "multi_lua m" "case k of Runtime_Call _ \<Rightarrow> False | _ \<Rightarrow> True" "no_ja3 k"
  shows "lua_exec L ctxs m k (d, c) = Ret (d, ctx_effect True k c) ()"
proof (cases k)
  case (Context_Call x)
  have "fst (exec_context L ctxs m x (d, c)) = d"
    using assms(1) by (cases x) (simp_all add: lua_setCustomEndpoint_def lua_setCustomGetEndpoint_def Let_def)
  then show ?thesis
    using assms(1) exec_context_effect[of L ctxs m x d c] unfolding Context_Call by (simp add: prod_eq_iff)
qed (use assms worker_setup in auto)

lemma worker_run:
  "multi_lua m \<Longrightarrow> no_runtime ks \<Longrightarrow> list_all no_ja3 ks \<Longrightarrow> run_calls L ctxs m ks (d, c) = Ret (d, fold (ctx_effect True) ks c) ()"
proof (induction ks arbitrary: c)
  case (Cons k ks)
  then show ?case using worker_exec[of m k L ctxs d c] by (simp add: no_runtime_def)
qed simp

lemma worker_stops: "multi_lua m \<Longrightarrow> \<not> list_all no_ja3 ks \<Longrightarrow> run_calls L ctxs m ks dc \<noteq> Ret dc1 u"
proof (induction ks arbitrary: dc)
  case (Cons k ks)
  show ?case
  proof (cases "no_ja3 k")
    case True
    then show ?thesis using Cons by (cases "lua_exec L ctxs m k dc") auto
  next
    case False
    then obtain name where k: "k = Setup_Call (SetJA3AttrName name)" by (auto simp: no_ja3_def)
    obtain d c where "dc = (d, c)" by (cases dc)
    then show ?thesis using Cons.prems(1) k by (simp add: lua_setJA3AttrName_def)
  qed
qed simp

text \<open>
  A file that calls \<^verbatim>\<open>setJA3AttrName\<close>, as the manual tells the administrator to, is read by the main state and then fails in the first state
  of the pool: the daemon starts only with an empty pool.
\<close>

lemma workers_stop:
  "setup_workers L ctxs calls g n (d, cs) = Ret (d', cs') u \<Longrightarrow> n \<noteq> 0 \<Longrightarrow> list_all no_ja3 calls"
proof -
  have "run_calls L ctxs \<lparr>client = False, multi_lua = True, list_alive = True\<rparr> calls dc = Ret dc1 v \<Longrightarrow> list_all no_ja3 calls" for dc dc1 v
    by (rule ccontr) (drule worker_stops[rotated, of calls "\<lparr>client = False, multi_lua = True, list_alive = True\<rparr>" L ctxs dc dc1 v]; simp)
  then show "setup_workers L ctxs calls g n (d, cs) = Ret (d', cs') u \<Longrightarrow> n \<noteq> 0 \<Longrightarrow> list_all no_ja3 calls"
    by (cases n) (auto simp: setupLua_def Let_def split: outcome.splits)
qed

lemma ja3_setting_leaves_no_worker:
  assumes "configure L ctxs calls d = Ret (d', cs) todo" and "Setup_Call (SetJA3AttrName name) \<in> set calls"
  shows "cs = []"
proof -
  have "\<not> list_all no_ja3 calls" using assms(2) by (auto simp: list_all_iff no_ja3_def)
  then have "setup_workers L ctxs calls g n (d1, []) = Ret (d', cs) u \<Longrightarrow> n = 0" for g n d1 u using workers_stop by blast
  then show ?thesis using assms(1) by (fastforce simp: configure_def split: outcome.splits)
qed

lemma workers_run:
  assumes "no_runtime calls" "n \<noteq> 0 \<Longrightarrow> list_all no_ja3 calls"
  shows "setup_workers L ctxs calls g n (d, cs) =
    Ret (if n = 0 then d else d\<lparr>launchWork := Some []\<rparr>, cs @ replicate n (fold (ctx_effect True) calls
      (default_context\<lparr>allow_func := allow_func g, report_func := report_func g, reset_func := reset_func g, canon_func := canon_func g\<rparr>))) ()"
  using assms(2)
proof (induction n arbitrary: d cs)
  case (Suc n)
  then show ?case using worker_run[OF _ assms(1)] by (simp add: setupLua_def Let_def replicate_append_same[symmetric])
qed simp

section \<open>What is registered\<close>

text \<open>While the file is read, the calls that set the daemon up leave the routes of the server alone, and work is put off.\<close>

definition reading :: "daemon \<Rightarrow> daemon \<Rightarrow> bool" where
  "reading d d1 \<longleftrightarrow> launchWork d \<noteq> None \<longrightarrow> launchWork d1 \<noteq> None \<and> app_routes (dm_server d1) = app_routes (dm_server d)
     \<and> app_initialised (dm_server d1) = app_initialised (dm_server d)"

lemma reading_refl [simp]: "reading d d"
  by (simp add: reading_def)

lemma reading_trans: "reading a b \<Longrightarrow> reading b c \<Longrightarrow> reading a c"
  by (simp add: reading_def)

lemma reading_simps [simp]:
  "reading d (on_wf f d1) = reading d d1" "reading d (errlog t d1) = reading d d1" "reading d (lua_out t d1) = reading d d1"
  "reading d (bad_address L a b r d1) = reading d d1" "reading d (deprecated a b d1) = reading d d1" "reading d (on_replication h d1) = reading d d1"
  "reading d (on_list T k d1) = reading d d1" "reading d (on_runner q d1) = reading d d1" "reading d (on_curl x y d1) = reading d d1"
  by (simp_all add: reading_def on_wf_def errlog_def lua_out_def bad_address_def deprecated_def Let_def on_replication_def on_list_def
      on_runner_def on_curl_def)

lemma reading_fields [simp]:
  "reading d (d1\<lparr>dm_perf := p\<rparr>) = reading d d1" "reading d (d1\<lparr>dm_sync := y\<rparr>) = reading d d1" "reading d (d1\<lparr>dm_sib := s\<rparr>) = reading d d1"
  "reading d (d1\<lparr>dm_sk := k\<rparr>) = reading d d1" "reading d (d1\<lparr>g_outputBuffer := t\<rparr>) = reading d d1"
  "reading d (d1\<lparr>g_custom_webhook_db := w\<rparr>) = reading d d1" "reading d (d1\<lparr>g_num_luastates := n\<rparr>) = reading d d1"
  "reading d (d1\<lparr>g_serverControl := ca\<rparr>) = reading d d1" "reading d (d1\<lparr>app_listeners := ls\<rparr>) = reading d d1"
  by (simp_all add: reading_def)

lemma reading_server [simp]:
  "app_routes W = app_routes (dm_server d1) \<Longrightarrow> app_initialised W = app_initialised (dm_server d1) \<Longrightarrow>
   reading d (d1\<lparr>dm_server := W\<rparr>) = reading d d1"
  by (simp add: reading_def)

lemma reading_launch [simp]: "reading d d1 \<Longrightarrow> reading d (launch_or_queue j d1)"
  by (auto simp: reading_def launch_or_queue_def)

lemma reading_queue: "queue_captured m j d1 = Ret d2 u \<Longrightarrow> reading d d1 \<Longrightarrow> reading d d2"
  by (auto simp: reading_def queue_captured_def split: if_splits option.splits)

lemma reading_address:
  assumes "with_address L address port failed ok d = Ret d1 u" and "\<And>r. reading d (failed r d)"
    and "\<And>ca d1. ok ca d = Ret d1 u \<Longrightarrow> reading d d1"
  shows "reading d d1"
  using assms by (auto simp: with_address_def split: sum.splits)

lemma reading_siblings: "on_siblings f d = Ret d1 u \<Longrightarrow> reading d d1"
  by (auto simp: on_siblings_def Let_def split: outcome.splits)

lemma reading_sinks: "make_sinks L failed ps v d = Ret d1 r \<Longrightarrow> (\<And>p q. reading d (failed p q d)) \<Longrightarrow> reading d d1"
  by (induction L failed ps v d rule: make_sinks.induct) (auto split: sum.splits)

lemma reading_on_server:
  "app_routes (f W) = app_routes W \<Longrightarrow> app_initialised (f W) = app_initialised W \<Longrightarrow> W = dm_server d \<Longrightarrow> reading d (on_server f d)"
  by (simp add: on_server_def)

lemma reading_sinks_calls:
  "lua_addReportSink L m a d = Ret d1 u \<Longrightarrow> reading d d1" "lua_addNamedReportSink L m nm a d = Ret d1 u \<Longrightarrow> reading d d1"
  "lua_setReportSinks L m ps d = Ret d1 u \<Longrightarrow> reading d d1" "lua_setNamedReportSinks L m nm ps d = Ret d1 u \<Longrightarrow> reading d d1"
  by (auto simp: lua_addReportSink_def lua_addNamedReportSink_def lua_setReportSinks_def lua_setNamedReportSinks_def server_only_def
      dest!: reading_sinks elim!: reading_address split: if_splits sum.splits option.splits)

lemma reading_sibling_calls:
  "lua_addSibling L m a d = Ret d1 u \<Longrightarrow> reading d d1" "lua_addSiblingWithKey L m a k d = Ret d1 u \<Longrightarrow> reading d d1"
  "lua_removeSibling L m a d = Ret d1 u \<Longrightarrow> reading d d1" "lua_setSiblings L m ps d = Ret d1 u \<Longrightarrow> reading d d1"
  "lua_setSiblingsWithKey L m qs d = Ret d1 u \<Longrightarrow> reading d d1" "lua_siblingListener L m a d = Ret d1 u \<Longrightarrow> reading d d1"
  "lua_addSyncHost L m a b x y d = Ret d1 u \<Longrightarrow> reading d d1" "lua_setKey m k d = Ret d1 u \<Longrightarrow> reading d d1"
  by (auto simp: lua_addSibling_def lua_addSiblingWithKey_def lua_removeSibling_def lua_setSiblings_def lua_setSiblingsWithKey_def
      lua_siblingListener_def lua_addSyncHost_def lua_setKey_def lua_guards Let_def with_address_def dest: reading_siblings
      split: if_splits sum.splits outcome.splits)

lemma reading_server_calls:
  "lua_webserver L m a b d = Ret d1 u \<Longrightarrow> reading d d1" "lua_addACL L m a d = Ret d1 u \<Longrightarrow> reading d d1"
  "lua_setACL L m ps d = Ret d1 u \<Longrightarrow> reading d d1" "lua_addListener L m a x b e d = Ret d1 u \<Longrightarrow> reading d d1"
  "lua_controlSocket L m a d = Ret d1 u \<Longrightarrow> reading d d1"
proof -
  show "lua_webserver L m a b d = Ret d1 u \<Longrightarrow> reading d d1"
    by (auto simp: lua_webserver_def lua_guards Let_def with_address_def setBasicAuthPassword_def split: if_splits sum.splits)
  show "lua_addACL L m a d = Ret d1 u \<Longrightarrow> reading d d1" "lua_setACL L m ps d = Ret d1 u \<Longrightarrow> reading d d1"
    by (auto simp: lua_addACL_def lua_setACL_def addACL_def setACL_def on_server_def lua_guards split: if_splits outcome.splits)
  have chk: "reading d (fst (check_file L t f d1)) = reading d d1" for t f d1
    by (simp add: check_file_def split: file_kind.split)
  show "lua_addListener L m a x b e d = Ret d1 u \<Longrightarrow> reading d d1"
    using chk by (auto simp: lua_addListener_def lua_guards Let_def with_address_def dest!: reading_queue
        split: if_splits sum.splits prod.splits bool.splits) (metis fst_conv reading_refl)+
  show "lua_controlSocket L m a d = Ret d1 u \<Longrightarrow> reading d d1"
    by (auto simp: lua_controlSocket_def lua_guards with_address_def dest!: reading_queue[where d = d] split: if_splits sum.splits)
qed

lemma exec_setup_reading:
  assumes "exec_setup L m s d = Ret d1 u"
  shows "reading d d1"
  using assms
  by (cases s) (auto simp: lua_setJA3AttrName_def lua_setMinSyncHostUptime_def lua_setMaxSiblingQueueSize_def
      lua_setSiblingConnectTimeout_def lua_setNumSiblingThreads_def lua_setWebserverPassword_def lua_setNumLuaStates_def
      lua_setNumWorkerThreads_def lua_setMaxWebserverConns_def lua_setMetricsNoPassword_def lua_disableCurlPeerVerification_def
      lua_disableCurlHostVerification_def lua_setCurlCABundleFile_def lua_setCurlClientCertAndKey_def lua_newStringStatsDB_def
      lua_newShardedStringStatsDB_def lua_disableBuiltin_def lua_PersistDB_def lua_RedisUsername_def lua_RedisPassword_def
      lua_PersistReplicated_def lua_setBlacklistRetMsg_def lua_addWebHook_call_def lua_addCustomWebHook_def
      lua_setNumWebHookThreads_def lua_setWebHookQueueSize_def lua_setNumWebHookConnsPerThread_def lua_setWebHookTimeoutSecs_def
      lua_addCustomStat_def lua_setVerboseAllowLog_def lua_setHLLBits_def lua_guards done_with_def Let_def on_server_def
      setBasicAuthPassword_def setNumWorkerThreads_def Web_Server.setMaxConns_def setMetricsNoPassword_def
      dest: reading_sinks_calls reading_sibling_calls reading_server_calls split: if_splits prod.splits)

lemma map_state_Ret_iff [simp]: "map_state f m = Ret t v \<longleftrightarrow> (\<exists>s. m = Ret s v \<and> t = f s)"
  by (cases m) auto

lemma exec_runtime_reading: "exec_runtime L m r d = Ret d1 u \<Longrightarrow> reading d d1"
  by (cases r) (auto simp: lua_list_add_def lua_list_delete_def lua_incCustomStat_def lua_runCustomWebHook_def lua_log_def done_with_def
      split: if_splits option.splits)

text \<open>A route of the file: a custom command, behind both filters, for which the state has a function.\<close>

definition offers :: "lua_ctx \<Rightarrow> route \<Rightarrow> bool" where
  "offers c r \<longleftrightarrow> rt_filters r = [ACLFilter, LoginFilter] \<and>
     (case rt_handler r of
        Command_Handler command f \<Rightarrow> rt_method r = POST \<and> map_of (custom_func_map c) command \<noteq> None
          \<or> rt_method r = GET \<and> map_of (custom_get_func_map c) command \<noteq> None
      | _ \<Rightarrow> False)"

lemma insert_first_None: "map_of (insert_first k v fs) x = None \<longleftrightarrow> map_of fs x = None \<and> x \<noteq> k"
  by (auto simp: insert_first_def map_add_def split: option.splits)

lemma offers_effect: "offers c r \<Longrightarrow> offers (ctx_effect multi k c) r"
  by (cases "(multi, k, c)" rule: ctx_effect.cases)
    (auto simp: offers_def insert_first_None split: ws_handler.splits simp del: not_None_eq)

lemma offers_fold: "offers c r \<Longrightarrow> offers (fold (ctx_effect multi) ks c) r"
  by (induction ks arbitrary: c) (auto intro: offers_effect)

definition from_file :: "lua_ctx \<Rightarrow> daemon \<Rightarrow> daemon \<Rightarrow> bool" where
  "from_file c d d1 \<longleftrightarrow> launchWork d1 \<noteq> None \<and> app_initialised (dm_server d1) = app_initialised (dm_server d)
     \<and> (\<forall>r \<in> set (app_routes (dm_server d1)). r \<in> set (app_routes (dm_server d)) \<or> offers c r)"

lemma context_from_file:
  assumes "launchWork d \<noteq> None" "exec_context L ctxs m k (d, c) = (d1, c1)"
  shows "from_file c1 d d1"
  using assms by (cases k)
    (auto simp: from_file_def lua_setCustomEndpoint_def lua_setCustomGetEndpoint_def Let_def on_wf_def registerFunc_def register_routes
      offers_def insert_first_None split: if_splits simp del: not_None_eq)

lemma exec_from_file:
  assumes "launchWork d \<noteq> None" "lua_exec L ctxs m k (d, c) = Ret (d1, c1) u"
  shows "from_file c1 d d1"
proof (cases k)
  case (Setup_Call s)
  then show ?thesis using assms exec_setup_reading[of L m s d] by (auto simp: reading_def from_file_def)
next
  case (Context_Call x)
  then show ?thesis using assms context_from_file[of d L ctxs m x c d1 c1] by simp
next
  case (Runtime_Call r)
  then show ?thesis using assms exec_runtime_reading[of L m r d] by (auto simp: reading_def from_file_def)
qed

lemma run_from_file:
  "launchWork d \<noteq> None \<Longrightarrow> run_calls L ctxs m ks (d, c) = Ret (d1, c1) u \<Longrightarrow> from_file c1 d d1"
proof (induction ks arbitrary: d c)
  case (Cons k ks)
  then obtain d2 c2 where k: "lua_exec L ctxs m k (d, c) = Ret (d2, c2) ()" "run_calls L ctxs m ks (d2, c2) = Ret (d1, c1) u" by auto
  note a = exec_from_file[OF Cons.prems(1) k(1)]
  then have b: "from_file c1 d2 d1" using Cons.IH[OF _ k(2)] by (simp add: from_file_def)
  have "c1 = fold (ctx_effect (multi_lua m)) ks c2" using run_calls_effect[OF k(2)] .
  then show ?case using a b offers_fold unfolding from_file_def by metis
qed (simp add: from_file_def)

section \<open>After the start\<close>

lemma sensible_ACL_frame:
  "sensible_ACL L d = Ret d0 u \<Longrightarrow> app_routes (dm_server d0) = app_routes (dm_server d) \<and> app_initialised (dm_server d0) = app_initialised (dm_server d)"
  by (auto simp: sensible_ACL_def on_server_def setACL_def split: outcome.splits)

lemma configure_cases:
  assumes "configure L ctxs calls d = Ret (d', cs) todo"
  obtains d0 d1 g where "sensible_ACL L d = Ret d0 ()" "setupLua L ctxs False False calls (d0, default_context) = Ret (d1, g) todo"
    "setup_workers L ctxs calls g (unat (word_of_int (g_num_luastates d1) :: 32 word)) (d1, []) = Ret (d', cs) ()"
  using assms by (cases "sensible_ACL L d") (auto simp: configure_def split: outcome.splits prod.splits)

text \<open>The main state has read the file.\<close>

lemma main_from_file:
  assumes "setupLua L ctxs False False calls (d0, c) = Ret (d1, g) todo"
  shows "\<forall>r \<in> set (app_routes (dm_server d1)). r \<in> set (app_routes (dm_server d0)) \<or> offers g r"
    "app_initialised (dm_server d1) = app_initialised (dm_server d0)" "g = fold (ctx_effect False) calls c"
proof -
  let ?m = "\<lparr>client = False, multi_lua = False, list_alive = True\<rparr>"
  obtain d2 where run: "run_calls L ctxs ?m calls (d0\<lparr>launchWork := Some []\<rparr>, c) = Ret (d2, g) ()" and d1: "d1 = d2\<lparr>launchWork := None\<rparr>"
    using assms by (auto simp: setupLua_def Let_def)
  show "\<forall>r \<in> set (app_routes (dm_server d1)). r \<in> set (app_routes (dm_server d0)) \<or> offers g r"
    "app_initialised (dm_server d1) = app_initialised (dm_server d0)"
    using run_from_file[OF _ run] by (auto simp: from_file_def d1)
  show "g = fold (ctx_effect False) calls c" using run_calls_effect[OF run] by simp
qed

lemma effect_maps:
  "custom_func_map a = custom_func_map b \<Longrightarrow> custom_get_func_map a = custom_get_func_map b \<Longrightarrow>
   custom_func_map (fold (ctx_effect x) ks a) = custom_func_map (fold (ctx_effect y) ks b)
   \<and> custom_get_func_map (fold (ctx_effect x) ks a) = custom_get_func_map (fold (ctx_effect y) ks b)"
proof (induction ks arbitrary: a b)
  case (Cons k ks)
  have "custom_func_map (ctx_effect x k a) = custom_func_map (ctx_effect y k b)
    \<and> custom_get_func_map (ctx_effect x k a) = custom_get_func_map (ctx_effect y k b)"
    using Cons.prems by (cases "(x, k, a)" rule: ctx_effect.cases) simp_all
  then show ?case using Cons.IH by simp
qed simp

lemma offers_maps:
  "custom_func_map a = custom_func_map b \<Longrightarrow> custom_get_func_map a = custom_get_func_map b \<Longrightarrow> offers a r = offers b r"
  by (cases "rt_handler r") (simp_all add: offers_def)

text \<open>
  C12. The configuration is read by every Lua state and carried out once. For a file that calls no run-time function outside of
  a function, the states of the pool are as many as configured and all alike; reading the file in them changes nothing of what the main
  state has set up but the pointer to the list of work; and every path that the file adds to the web server is behind both filters and
  has its Lua function in every state, so a custom command never finds its function missing.
\<close>

theorem every_state_reads_the_configuration:
  assumes "configure L ctxs calls d = Ret (d', cs) todo" and "no_runtime calls"
  shows "\<exists>d0 d1 g c. sensible_ACL L d = Ret d0 () \<and> setupLua L ctxs False False calls (d0, default_context) = Ret (d1, g) todo
    \<and> cs = replicate (unat (word_of_int (g_num_luastates d1) :: 32 word)) c \<and> d' = d1\<lparr>launchWork := (if cs = [] then None else Some [])\<rparr>
    \<and> custom_func_map c = custom_func_map g \<and> custom_get_func_map c = custom_get_func_map g
    \<and> (\<forall>r \<in> set (app_routes (dm_server d')). r \<in> set (app_routes (dm_server d)) \<or> offers c r)"
proof -
  obtain d0 d1 g where s: "sensible_ACL L d = Ret d0 ()" "setupLua L ctxs False False calls (d0, default_context) = Ret (d1, g) todo"
    "setup_workers L ctxs calls g (unat (word_of_int (g_num_luastates d1) :: 32 word)) (d1, []) = Ret (d', cs) ()"
    using configure_cases[OF assms(1)] .
  let ?n = "unat (word_of_int (g_num_luastates d1) :: 32 word)"
  let ?start = "default_context\<lparr>allow_func := allow_func g, report_func := report_func g, reset_func := reset_func g, canon_func := canon_func g\<rparr>"
  let ?c = "fold (ctx_effect True) calls ?start"
  have w: "cs = replicate ?n ?c" "d' = (if ?n = 0 then d1 else d1\<lparr>launchWork := Some []\<rparr>)"
    using s(3) workers_run[where n = ?n and L = L and ctxs = ctxs and g = g and d = d1 and cs = "[]", OF assms(2) workers_stop[OF s(3)]] by simp_all
  have g: "g = fold (ctx_effect False) calls default_context" by (rule main_from_file(3)[OF s(2)])
  have maps: "custom_func_map ?c = custom_func_map g" "custom_get_func_map ?c = custom_get_func_map g"
    using effect_maps[where a = ?start and b = default_context and x = True and y = False and ks = calls] by (simp_all flip: g)
  have "launchWork d1 = None" using s(2) by (auto simp: setupLua_def Let_def)
  then have "d' = d1\<lparr>launchWork := (if cs = [] then None else Some [])\<rparr>" using w by simp
  moreover have "\<forall>r \<in> set (app_routes (dm_server d')). r \<in> set (app_routes (dm_server d)) \<or> offers ?c r"
    using main_from_file(1)[OF s(2)] sensible_ACL_frame[OF s(1)] w(2) offers_maps[OF maps] by auto
  ultimately show ?thesis using s w(1) maps by blast
qed

section \<open>The started server\<close>

text \<open>Every route has the filters it needs, whatever the setting for the metrics; and with the setting of the server.\<close>

definition always_guarded :: "daemon \<Rightarrow> bool" where
  "always_guarded d \<longleftrightarrow> (\<forall>r \<in> set (app_routes (dm_server d)). \<forall>m. guarded m r)"

definition now_guarded :: "daemon \<Rightarrow> bool" where
  "now_guarded d \<longleftrightarrow> (\<forall>r \<in> set (app_routes (dm_server d)). guarded (d_metricsNoPassword (dm_server d)) r)"

lemma from_file_guarded: "from_file c d d1 \<Longrightarrow> always_guarded d \<Longrightarrow> always_guarded d1"
  by (fastforce simp: from_file_def always_guarded_def offers_def guarded_def)

lemma setup_guarded:
  assumes "setupLua L ctxs x y calls (d, c) = Ret (d1, c1) todo" and "always_guarded d"
  shows "always_guarded d1"
proof -
  let ?m = "\<lparr>client = x, multi_lua = y, list_alive = True\<rparr>"
  obtain d2 where run: "run_calls L ctxs ?m calls (d\<lparr>launchWork := Some []\<rparr>, c) = Ret (d2, c1) ()" and d1: "dm_server d1 = dm_server d2"
    using assms(1) by (cases "run_calls L ctxs ?m calls (d\<lparr>launchWork := Some []\<rparr>, c)") (auto simp: setupLua_def Let_def split: if_splits)
  have "always_guarded (d\<lparr>launchWork := Some []\<rparr>)" using assms(2) by (simp add: always_guarded_def)
  then have "always_guarded d2" using from_file_guarded[OF run_from_file[OF _ run]] by simp
  then show ?thesis by (simp add: always_guarded_def d1)
qed

lemma workers_guarded:
  "setup_workers L ctxs calls g n (d, cs) = Ret (d', cs') u \<Longrightarrow> always_guarded d \<Longrightarrow> always_guarded d'"
  by (induction n arbitrary: d cs) (auto simp: Let_def split: outcome.splits dest: setup_guarded)

lemma configure_guarded:
  assumes "configure L ctxs calls d = Ret (d', cs) todo" "always_guarded d"
  shows "always_guarded d'"
proof -
  obtain d0 d1 g where s: "sensible_ACL L d = Ret d0 ()" "setupLua L ctxs False False calls (d0, default_context) = Ret (d1, g) todo"
    "setup_workers L ctxs calls g (unat (word_of_int (g_num_luastates d1) :: 32 word)) (d1, []) = Ret (d', cs) ()"
    using configure_cases[OF assms(1)] .
  have "always_guarded d0" using sensible_ACL_frame[OF s(1)] assms(2) by (simp add: always_guarded_def)
  then show ?thesis using workers_guarded[OF s(3)] setup_guarded[OF s(2)] by blast
qed

lemma register_all_guarded: "always_guarded d \<Longrightarrow> always_guarded (register_all L stats d)"
  using commands_guarded by (fastforce simp: always_guarded_def register_all_def)

lemma load_persist_server: "load_persist L T replies d = Some (Ret d1 u) \<Longrightarrow> dm_server d1 = dm_server d"
  by (auto simp: load_persist_def Let_def on_wf_def split: option.splits outcome.splits if_splits)

lemma run_launch_guarded: "now_guarded d \<Longrightarrow> now_guarded (run_launch j d)"
  using init_guarded[of "dm_server d"]
  by (cases j) (auto simp: now_guarded_def run_launch_def on_server_def on_replication_def on_wf_def ws_init_def split: if_splits)

lemma begin_work_guarded: "begin_work L H todo d = (d1, reqs) \<Longrightarrow> now_guarded d \<Longrightarrow> now_guarded d1"
proof -
  have "now_guarded d \<Longrightarrow> now_guarded (fold run_launch todo d)" by (induction todo arbitrary: d) (auto intro: run_launch_guarded)
  then show "begin_work L H todo d = (d1, reqs) \<Longrightarrow> now_guarded d \<Longrightarrow> now_guarded d1"
    by (auto simp: begin_work_def Let_def now_guarded_def split: prod.splits)
qed

lemma started_guarded:
  assumes "start_daemon L ctxs H stats bl wl calls d = Some (Ret (d', cs) reqs)" and "always_guarded d"
  shows "now_guarded d'"
proof -
  obtain d1 todo d2 d3 where s: "configure L ctxs calls d = Ret (d1, cs) todo"
    "load_persist L BLACKLIST bl (register_all L stats d1) = Some (Ret d2 ())" "load_persist L WHITELIST wl d2 = Some (Ret d3 ())"
    "begin_work L H todo d3 = (d', reqs)"
    using assms(1) by (auto simp: start_daemon_def split: outcome.splits option.splits prod.splits)
  have "always_guarded (register_all L stats d1)" using configure_guarded[OF s(1) assms(2)] by (rule register_all_guarded)
  then have "now_guarded d3" using load_persist_server[OF s(2)] load_persist_server[OF s(3)] by (simp add: always_guarded_def now_guarded_def)
  then show ?thesis by (rule begin_work_guarded[OF s(4)])
qed

text \<open>
  C11. A request that is not allowed in does nothing. However the daemon was configured, once it has started a request from an
  address outside the access control list, or one without the right password on a route that needs it, leaves the daemon as it is
  except for its log, and calls no Lua function, whether it is answered or not. It is answered with 404 when no route matches it and with 401
  otherwise; the exception is a request from a permitted address whose Authorization header the base-64 decoder throws on, which
  leaves the filter with that exception. Routes that need no password are \<^verbatim>\<open>livez\<close>, \<^verbatim>\<open>readyz\<close> and, if so configured, the metrics; the old
  paths \<^verbatim>\<open>/?command=\<close> and the commands that the configuration adds need one.
\<close>

theorem refused_requests_do_nothing:
  assumes "drogon_ok D" and "start_daemon L ctxs H stats bl wl calls d = Some (Ret (d', cs) reqs)" and "app_routes (dm_server d) = []"
    and c: "cn_server c = (dm_server d')\<lparr>filter_acl := seen\<rparr>" and "access (d_ACL (cn_server c)) seen = Ret l acl"
    and "\<not> ng_match (rq_peer rq) acl
      \<or> (\<forall>r p. dg_route D rq (app_routes (cn_server c)) = Some (r, p) \<longrightarrow> \<not> open_route (d_metricsNoPassword (cn_server c)) r)
        \<and> \<not> accepted (rq_authorization rq) (filter_password (cn_server c))"
  shows "(\<forall>c'. final_state (serve D rq c) = Some c' \<longrightarrow> cn_pool c' = cn_pool c \<and> unlogged (cn_state c') = unlogged (cn_state c))
    \<and> (dg_route D rq (app_routes (cn_server c)) = None \<or> \<not> ng_match (rq_peer rq) acl \<or> readable rq c \<longrightarrow>
        (\<exists>c'. serve D rq c = Ret c' ()
          \<and> resp_code (cn_resp c') = (if dg_route D rq (app_routes (cn_server c)) = None then 404 else 401)))"
proof -
  have "now_guarded d'" by (rule started_guarded[OF assms(2)]) (simp add: always_guarded_def assms(3))
  then have "\<forall>r \<in> set (app_routes (cn_server c)). guarded (d_metricsNoPassword (cn_server c)) r" by (simp add: now_guarded_def c)
  moreover have "access (d_ACL (cn_server c)) (filter_acl (cn_server c)) = Ret l acl" using assms(5) c by simp
  ultimately show ?thesis using assms(6) by (rule refused_at_server[OF assms(1)])
qed

section \<open>An instance\<close>

definition v6_bytes :: "8 word \<Rightarrow> 8 word \<Rightarrow> 8 word \<Rightarrow> 8 word list" where
  "v6_bytes a b z = [a, b] @ replicate 13 0 @ [z]"

definition start_net :: netlib where
  "start_net = demo_net\<lparr>inet_pton4 := map_of [(''127.0.0.0'', 0x7F000000), (''10.0.0.0'', 0x0A000000), (''100.64.0.0'', 0x64400000),
       (''169.254.0.0'', 0xA9FE0000), (''192.168.0.0'', 0xC0A80000), (''172.16.0.0'', 0xAC100000)],
     inet_pton6 := map_of [(''::1'', v6_bytes 0 0 1), (''fc00::'', v6_bytes 0xFC 0 0), (''fe80::'', v6_bytes 0xFE 0x80 0)]\<rparr>"

definition good_mask :: "netlib \<Rightarrow> string \<Rightarrow> bool" where
  "good_mask N p \<longleftrightarrow> (p = [] \<or> hd p \<noteq> CHR ''!'') \<and>
     (case Netmask_of_string N p of Inl _ \<Rightarrow> False | Inr nm \<Rightarrow> d_bits nm \<le> addr_width (d_network nm))"

lemma add_masks_return: "list_all (good_mask N) ps \<Longrightarrow> \<exists>g'. add_masks N ps g = Ret g' ()"
proof (induction ps arbitrary: g)
  case (Cons p ps)
  then obtain g1 where "addMask_str N p True g = Ret g1 ()"
    by (auto simp: good_mask_def addMask_str_def addMask_def nt_insert_def key_path_def Let_def split: sum.splits)
  then show ?case using Cons by simp
qed simp

lemma stou: "pdns_stou ''8'' = Inr 8" "pdns_stou ''10'' = Inr 10" "pdns_stou ''16'' = Inr 16" "pdns_stou ''12'' = Inr 12"
    "pdns_stou ''7'' = Inr 7" "pdns_stou ''128'' = Inr 128"
  by (simp_all add: pdns_stou_def stoul_def strto_subject_def Let_def isspace_c_def isdigit_c_def digits_value_def digit_value_def c_str_def)

lemma start_masks: "list_all (good_mask start_net) default_ACL"
  by (simp add: default_ACL_def good_mask_def Netmask_of_string_def splitField_def makeComboAddress_def start_net_def stou Let_def
      c_str_def makeIPv6sockaddr_def demo_net_def)

definition start_env :: lua_env where
  "start_env = \<lparr>le_web = demo_web\<lparr>we_net := start_net\<rparr>, le_format = (\<lambda>fmt args. fmt), le_now = 1000, le_file = (\<lambda>_. Regular),
     le_control_ok = (\<lambda>_. True)\<rparr>"

definition start_state :: daemon where
  "start_state = \<lparr>dm_wforce = demo_state0, dm_server = new_WforceWebserver, dm_perf = new_perf_stats 1000, dm_sync = demo_sync,
     dm_sib = demo_sib, dm_sk = demo_env, g_outputBuffer = [], launchWork = None, dm_launched = [], g_custom_webhook_db = new_WebHookDB,
     g_num_luastates = 2, g_serverControl = CA_None, g_curl_tls_options = \<lparr>verifyPeer = True, verifyHost = True, caCertBundleFile = [],
     clientCertFile = [], clientKeyFile = []\<rparr>, app_listeners = []\<rparr>"

definition start_calls :: "lua_call list" where
  "start_calls = [Setup_Call (SetWebserverPassword ''super''), Setup_Call (Webserver ''10.0.0.0'' ''super''),
     Context_Call (SetCustomEndpoint ''hello'' False (\<lambda>args s. (s, Inr (True, []))))]"

lemma start_calls_quiet: "no_runtime start_calls" "list_all no_ja3 start_calls"
  by (simp_all add: no_runtime_def no_ja3_def start_calls_def)

lemma start_listener: "new_ComboAddress start_net ''10.0.0.0'' 0 = Inr (CA_V4 0x0A000000 0)"
  by (simp add: new_ComboAddress_def makeIPv4sockaddr_def start_net_def demo_net_def find_char_def c_str_def)

lemma start_setup:
  assumes "g_num_luastates d0 = 2"
  shows "\<exists>d1 g. setupLua start_env ctxs False False start_calls (d0, default_context) = Ret (d1, g) [Start_Webserver]
    \<and> g_num_luastates d1 = 2 \<and> (\<forall>T. persist (list_of T (dm_wforce d1)) = persist (list_of T (dm_wforce d0)))"
  using assms
  by (simp add: setupLua_def start_calls_def lua_setWebserverPassword_def lua_webserver_def lua_guards done_with_def with_address_def
      start_env_def start_listener lua_setCustomEndpoint_def Let_def launch_or_queue_def on_wf_def log_line_def list_of_def)

lemma start_acl: "\<exists>acl. sensible_ACL start_env start_state = Ret (on_server (setACL acl) start_state) ()"
proof -
  obtain acl where "add_masks start_net default_ACL (getACL (dm_server start_state)) = Ret acl ()"
    using add_masks_return[OF start_masks, of "getACL (dm_server start_state)"] by blast
  moreover have "le_net start_env = start_net" by (simp add: start_env_def)
  ultimately show ?thesis by (intro exI[of _ acl]) (simp add: sensible_ACL_def)
qed

lemma start_configured:
  "\<exists>d' cs. configure start_env ctxs start_calls start_state = Ret (d', cs) [Start_Webserver] \<and> length cs = 2
     \<and> (\<forall>T. \<not> persist (list_of T (dm_wforce d')))"
proof -
  obtain acl where acl: "sensible_ACL start_env start_state = Ret (on_server (setACL acl) start_state) ()" using start_acl by blast
  have "g_num_luastates (on_server (setACL acl) start_state) = 2" by (simp add: on_server_def start_state_def)
  from start_setup[OF this, of ctxs] obtain d1 g where
    d1: "setupLua start_env ctxs False False start_calls (on_server (setACL acl) start_state, default_context) = Ret (d1, g) [Start_Webserver]"
    "g_num_luastates d1 = 2" "\<forall>T. persist (list_of T (dm_wforce d1)) = persist (list_of T (dm_wforce (on_server (setACL acl) start_state)))"
    by blast
  have "\<not> persist (list_of T (dm_wforce (on_server (setACL acl) start_state)))" for T
    by (simp add: on_server_def start_state_def list_of_def demo_state0_def new_BlackWhiteListDB_def)
  then show ?thesis using d1 acl workers_run[OF start_calls_quiet] by (simp add: configure_def)
qed

lemma start_routes [simp]: "app_routes (dm_server start_state) = []"
  by (simp add: start_state_def new_WforceWebserver_def)

theorem every_state_reads_the_configuration_witness:
  "\<exists>d' c. configure start_env (\<lambda>_. default_context) start_calls start_state = Ret (d', [c, c]) [Start_Webserver]
     \<and> (\<forall>r \<in> set (app_routes (dm_server d')). offers c r)"
proof -
  obtain d' cs where c: "configure start_env (\<lambda>_. default_context) start_calls start_state = Ret (d', cs) [Start_Webserver]" "length cs = 2"
    using start_configured by blast
  from every_state_reads_the_configuration[OF c(1) start_calls_quiet(1)] obtain n a where
    a: "cs = replicate n a" "\<forall>r \<in> set (app_routes (dm_server d')). r \<in> set (app_routes (dm_server start_state)) \<or> offers a r" by blast
  have "cs = [a, a]" using a(1) c(2) by (simp add: numeral_2_eq_2)
  then show ?thesis using c(1) a(2) by simp
qed

text \<open>A request for \<^verbatim>\<open>/?command=addWLEntry\<close> without a password, and the framework that finds the old path for it.\<close>

definition start_request :: http_req where
  "start_request = \<lparr>rq_method = POST, rq_path = ''/'', rq_peer = CA_V4 0x0A000001 40000, rq_peer_ip = ''10.0.0.1'',
     rq_peer_ip_port = ''10.0.0.1:40000'', rq_authorization = [], rq_body = []\<rparr>"

definition start_drogon :: drogon where
  "start_drogon = demo_drogon\<lparr>dg_route := (\<lambda>rq rs. map_option (\<lambda>r. (r, ''addWLEntry''))
     (find (\<lambda>r. rt_handler r = Query_Handler \<and> rt_method r = rq_method rq) rs))\<rparr>"

lemma start_route:
  assumes "dg_route start_drogon rq rs = Some (r, p)"
  shows "r \<in> set rs \<and> rt_method r = rq_method rq \<and> \<not> open_route m r"
proof -
  from assms have "find (\<lambda>r. rt_handler r = Query_Handler \<and> rt_method r = rq_method rq) rs = Some r" by (simp add: start_drogon_def)
  then have "r \<in> set rs \<and> rt_handler r = Query_Handler \<and> rt_method r = rq_method rq" unfolding find_Some_iff by force
  then show ?thesis by (simp add: open_route_def)
qed

lemma start_chain: "dg_chain start_drogon = run_chain"
  by (simp add: start_drogon_def demo_drogon_def)

lemma start_drogon_ok: "drogon_ok start_drogon"
  using start_route unfolding drogon_ok_def start_chain by auto

lemma list_of_register [simp]: "dm_wforce (register_all L stats d) = dm_wforce d"
  by (simp add: register_all_def)

lemma load_nothing: "\<not> persist (list_of T (dm_wforce d)) \<Longrightarrow> load_persist L T replies d = Some (Ret (on_wf (set_list_of T (list_of T (dm_wforce d))) d) ())"
  by (simp add: load_persist_def loadPersistEntries_def Let_def)

lemma list_of_set_list [simp]: "list_of U (set_list_of T (list_of T s) s) = list_of U s"
  by (simp add: list_of_def set_list_of_def)

lemma start_started:
  "\<exists>d' cs reqs. start_daemon start_env ctxs H stats bl wl start_calls start_state = Some (Ret (d', cs) reqs)"
proof -
  obtain d1 cs where c: "configure start_env ctxs start_calls start_state = Ret (d1, cs) [Start_Webserver]" "\<forall>T. \<not> persist (list_of T (dm_wforce d1))"
    using start_configured by blast
  let ?d2 = "on_wf (set_list_of BLACKLIST (list_of BLACKLIST (dm_wforce d1))) (register_all start_env stats d1)"
  let ?d3 = "on_wf (set_list_of WHITELIST (list_of WHITELIST (dm_wforce ?d2))) ?d2"
  have "load_persist start_env BLACKLIST bl (register_all start_env stats d1) = Some (Ret ?d2 ())"
    using c(2) load_nothing[of BLACKLIST "register_all start_env stats d1"] by simp
  moreover have "load_persist start_env WHITELIST wl ?d2 = Some (Ret ?d3 ())"
    using c(2) by (intro load_nothing) (simp add: on_wf_def)
  ultimately show ?thesis using c(1) by (simp add: start_daemon_def split: prod.splits)
qed

theorem refused_requests_do_nothing_witness:
  "\<exists>d' cs reqs. start_daemon start_env (\<lambda>_. default_context) demo_peer (\<lambda>_ x. x) [] [] start_calls start_state = Some (Ret (d', cs) reqs)
     \<and> (let c = \<lparr>cn_server = (dm_server d')\<lparr>filter_acl := getState (d_ACL (dm_server d'))\<rparr>, cn_pool = default_LuaMultiThread, cn_state = dm_wforce d',
                  cn_resp = fresh_response\<rparr>
        in \<exists>c'. serve start_drogon start_request c = Ret c' () \<and> cn_pool c' = cn_pool c \<and> unlogged (cn_state c') = unlogged (cn_state c)
             \<and> resp_code (cn_resp c') = (if dg_route start_drogon start_request (app_routes (cn_server c)) = None then 404 else 401))"
proof -
  obtain d' cs reqs where s: "start_daemon start_env (\<lambda>_. default_context) demo_peer (\<lambda>_ x. x) [] [] start_calls start_state = Some (Ret (d', cs) reqs)"
    using start_started by blast
  let ?seen = "getState (d_ACL (dm_server d'))"
  let ?c = "\<lparr>cn_server = (dm_server d')\<lparr>filter_acl := ?seen\<rparr>, cn_pool = default_LuaMultiThread, cn_state = dm_wforce d', cn_resp = fresh_response\<rparr>"
  have acl: "access (d_ACL (cn_server ?c)) ?seen = Ret ?seen (gh_state (d_ACL (dm_server d')))"
    by (simp add: access_def getState_def)
  have "\<not> accepted (rq_authorization start_request) pw" for pw by (simp add: accepted_def start_request_def)
  moreover have "readable start_request ?c"
    by (auto simp: readable_def start_request_def compareAuthorization_def toLower_def)
  ultimately obtain c' where c': "serve start_drogon start_request ?c = Ret c' ()"
      "cn_pool c' = cn_pool ?c \<and> unlogged (cn_state c') = unlogged (cn_state ?c)"
      "resp_code (cn_resp c') = (if dg_route start_drogon start_request (app_routes (cn_server ?c)) = None then 404 else 401)"
    using refused_requests_do_nothing[OF start_drogon_ok s start_routes _ acl, of start_request] start_route by auto
  then show ?thesis using s unfolding Let_def by blast
qed

end
