(* ===== verification/Console.thy ===== *)
theory Console
  imports Start_Up
begin

text \<open>
  The console (\<^verbatim>\<open>wforce/wforce.cc\<close>): lines of Lua typed on the terminal of the daemon or sent to its control socket by a client. The
  two ends of a control connection exchange nonces, make from them one nonce per direction, and count both up with every message,
  which carries its length in two bytes. The interpreter is a parameter: it gives the effect of a line in a Lua state and what the line
  returned or threw. The history of the terminal is left out.
\<close>

section \<open>Sockets\<close>

text \<open>\<^verbatim>\<open>readn2\<close> on the bytes that arrive before the peer closes. Reading no bytes looks like the end of the stream to it.\<close>

definition readn2 :: "nat \<Rightarrow> string \<Rightarrow> (string, string) outcome" where
  "readn2 len s =
     (if len = 0 \<or> length s < len then Exn (Runtime_Error ''EOF while writing message'') [] else Ret (drop len s) (take len s))"

text \<open>\<^verbatim>\<open>writen2\<close> on the bytes that have been written; \<open>w\<close> says whether a write at a position of the stream succeeds.\<close>

definition writen2 :: "(nat \<Rightarrow> bool) \<Rightarrow> string \<Rightarrow> string \<Rightarrow> (string, unit) outcome" where
  "writen2 w buf sent = (if buf = [] \<or> w (length sent) then Ret (sent @ buf) () else Exn (Runtime_Error ''failed in writen2'') sent)"

definition getMsgLen :: "string \<Rightarrow> (nat \<times> string) option" where
  "getMsgLen s = (case readn2 2 s of Ret rest raw \<Rightarrow> Some (from_be16 raw, rest) | _ \<Rightarrow> None)"

definition putMsgLen :: "(nat \<Rightarrow> bool) \<Rightarrow> string \<Rightarrow> string \<Rightarrow> string \<times> bool" where
  "putMsgLen w msg sent = (case writen2 w (size_bytes msg) sent of Ret sent' _ \<Rightarrow> (sent', True) | _ \<Rightarrow> (sent, False))"

section \<open>Running a line\<close>

text \<open>
  \<open>Nested_Other\<close> is an exception that is not a \<^verbatim>\<open>std::exception\<close>; \<^verbatim>\<open>WforceException\<close> and the exceptions derived from it are of this kind.
\<close>

datatype nested = No_Nested | Nested_Std string | Nested_Other

datatype lua_result = Lua_Nil | Lua_String string | Wrong_Type string | Execution_Error string nested | Syntax_Error string

record console_env =
  ce_box :: secretbox
  ce_run :: "nat option \<Rightarrow> string \<Rightarrow> daemon \<Rightarrow> daemon \<times> lua_result"
  ce_pool :: nat
  ce_write :: "nat \<Rightarrow> bool"
  ce_client :: string

definition threw :: "lua_result \<Rightarrow> bool" where
  "threw r \<longleftrightarrow> (case r of Lua_Nil \<Rightarrow> False | Lua_String _ \<Rightarrow> False | _ \<Rightarrow> True)"

fun exec_pool :: "console_env \<Rightarrow> string \<Rightarrow> nat list \<Rightarrow> daemon \<Rightarrow> daemon \<times> lua_result option" where
  "exec_pool E line [] d = (d, None)"
| "exec_pool E line (i # is) d =
     (case ce_run E (Some i) line d of (d1, r) \<Rightarrow> if threw r then (d1, Some r) else exec_pool E line is d1)"

definition exec_line :: "console_env \<Rightarrow> string \<Rightarrow> daemon \<Rightarrow> daemon \<times> lua_result" where
  "exec_line E line d =
     (case exec_pool E line [0..<ce_pool E] d of
        (d1, Some r) \<Rightarrow> (d1, r)
      | (d1, None) \<Rightarrow> ce_run E None line (d1\<lparr>g_outputBuffer := []\<rparr>))"

text \<open>The text that is sent back; \<open>None\<close> when an exception leaves its handler and the thread, which ends the process.\<close>

fun response_of :: "daemon \<Rightarrow> lua_result \<Rightarrow> string option" where
  "response_of d Lua_Nil = Some (g_outputBuffer d)"
| "response_of d (Lua_String s) = Some s"
| "response_of d (Wrong_Type what) = Some (''Command returned an object we can'' @ [CHR 0x27] @ ''t print: '' @ what @ nl)"
| "response_of d (Execution_Error what n) =
     (case n of
        No_Nested \<Rightarrow> Some (''Error: '' @ what @ '': '')
      | Nested_Std e \<Rightarrow> Some (''Error: '' @ what @ '': '' @ e)
      | Nested_Other \<Rightarrow> None)"
| "response_of d (Syntax_Error what) = Some (''Error: '' @ what @ '': '')"

section \<open>The end in the daemon\<close>

record ctrl =
  ct_daemon :: daemon
  ct_reading :: SodiumNonce
  ct_writing :: SodiumNonce
  ct_in :: string
  ct_out :: string

datatype thread_end = Closed | No_Decrypt | Died | Terminated

definition client_died :: "console_env \<Rightarrow> exn \<Rightarrow> ctrl \<Rightarrow> ctrl" where
  "client_died E e c =
     c\<lparr>ct_daemon := errlog (''Got an exception in client connection from '' @ ce_client E @ '': '' @ exn_reason e) (ct_daemon c)\<rparr>"

definition send_response :: "console_env \<Rightarrow> string \<Rightarrow> string \<Rightarrow> ctrl \<Rightarrow> ctrl \<times> thread_end option" where
  "send_response E key response c =
     (case sodEncryptSym (ce_box E) response key (ct_writing c) of
        (n, msg) \<Rightarrow>
          (let c1 = c\<lparr>ct_writing := n, ct_out := fst (putMsgLen (ce_write E) msg (ct_out c))\<rparr>
           in case writen2 (ce_write E) (take (length msg mod 65536) msg) (ct_out c1) of
                Ret sent _ \<Rightarrow> (c1\<lparr>ct_out := sent\<rparr>, None)
              | Exn e _ \<Rightarrow> (client_died E e c1, Some Died)
              | Undef \<Rightarrow> (c1, Some Died)))"

text \<open>One round of the loop in \<^verbatim>\<open>controlClientThread\<close>.\<close>

definition control_round :: "console_env \<Rightarrow> string \<Rightarrow> ctrl \<Rightarrow> ctrl \<times> thread_end option" where
  "control_round E key c =
     (case getMsgLen (ct_in c) of
        None \<Rightarrow> (c\<lparr>ct_daemon := on_wf (log_line Info (''Closed control connection from '' @ ce_client E)) (ct_daemon c)\<rparr>, Some Closed)
      | Some (len, rest) \<Rightarrow>
          (case readn2 len rest of
             Ret rest' msg \<Rightarrow>
               (case sodDecryptSym (ce_box E) msg key (ct_reading c) of
                  Ret n line \<Rightarrow>
                    (case exec_line E line (ct_daemon c) of
                       (d, r) \<Rightarrow>
                         (let c1 = c\<lparr>ct_in := rest', ct_reading := n, ct_daemon := d\<rparr>
                          in case response_of d r of
                               None \<Rightarrow> (c1, Some Terminated)
                             | Some response \<Rightarrow> send_response E key response c1))
                | Exn (Runtime_Error what) _ \<Rightarrow>
                    (c\<lparr>ct_in := rest', ct_daemon := errlog (''Could not decrypt client command: '' @ what) (ct_daemon c)\<rparr>, Some No_Decrypt)
                | Exn e _ \<Rightarrow> (client_died E e (c\<lparr>ct_in := rest'\<rparr>), Some Died)
                | Undef \<Rightarrow> (c, Some Died))
           | Exn e _ \<Rightarrow> (client_died E e c, Some Died)
           | Undef \<Rightarrow> (c, Some Died)))"

lemma getMsgLen_Some: "getMsgLen s = Some (len, rest) \<Longrightarrow> length rest + 2 = length s"
  by (auto simp: getMsgLen_def readn2_def split: if_splits)

lemma send_response_in: "ct_in (fst (send_response E key response c)) = ct_in c"
  by (auto simp: send_response_def client_died_def Let_def split: prod.splits outcome.splits)

lemma control_round_goes_on:
  assumes "control_round E key c = (c', None)"
  obtains len rest rest' msg n line d r response where "getMsgLen (ct_in c) = Some (len, rest)" "readn2 len rest = Ret rest' msg"
    "sodDecryptSym (ce_box E) msg key (ct_reading c) = Ret n line" "exec_line E line (ct_daemon c) = (d, r)" "response_of d r = Some response"
    "send_response E key response (c\<lparr>ct_in := rest', ct_reading := n, ct_daemon := d\<rparr>) = (c', None)"
proof -
  from assms obtain len rest where g: "getMsgLen (ct_in c) = Some (len, rest)"
    by (cases "getMsgLen (ct_in c)") (auto simp: control_round_def)
  from assms obtain rest' msg where r: "readn2 len rest = Ret rest' msg"
    by (cases "readn2 len rest") (simp_all add: control_round_def g)
  from assms obtain n line where s: "sodDecryptSym (ce_box E) msg key (ct_reading c) = Ret n line"
    by (cases "sodDecryptSym (ce_box E) msg key (ct_reading c)") (auto simp: control_round_def g r split: exn.splits)
  obtain d x where e: "exec_line E line (ct_daemon c) = (d, x)" by (cases "exec_line E line (ct_daemon c)")
  from assms obtain response where "response_of d x = Some response"
    by (cases "response_of d x") (simp_all add: control_round_def g r s e Let_def)
  with assms that g r s e show ?thesis by (simp add: control_round_def Let_def)
qed

lemma round_shorter:
  assumes "control_round E key c = (c', None)"
  shows "length (ct_in c') < length (ct_in c)"
  using assms
proof (cases rule: control_round_goes_on)
  case (1 len rest rest' msg n line d r response)
  have "ct_in c' = rest'" using send_response_in[of E key response "c\<lparr>ct_in := rest', ct_reading := n, ct_daemon := d\<rparr>"] 1(6) by simp
  moreover have "length rest' \<le> length rest" using 1(2) by (auto simp: readn2_def split: if_splits)
  ultimately show ?thesis using getMsgLen_Some[OF 1(1)] by simp
qed

function control_loop :: "console_env \<Rightarrow> string \<Rightarrow> ctrl \<Rightarrow> ctrl \<times> thread_end" where
  "control_loop E key c =
     (case control_round E key c of (c', Some e) \<Rightarrow> (c', e) | (c', None) \<Rightarrow> control_loop E key c')"
  by auto
termination by (relation "measure (\<lambda>(E, key, c). length (ct_in c))") (auto simp: round_shorter)

declare control_loop.simps [simp del]

definition control_start :: "SodiumNonce \<Rightarrow> SodiumNonce \<Rightarrow> string \<Rightarrow> string \<Rightarrow> daemon \<Rightarrow> ctrl" where
  "control_start ours theirs stream sent d =
     \<lparr>ct_daemon = d, ct_reading = nonce_merge ours theirs, ct_writing = nonce_merge theirs ours, ct_in = stream, ct_out = sent\<rparr>"

definition controlClientThread :: "console_env \<Rightarrow> SodiumNonce \<Rightarrow> string \<Rightarrow> daemon \<Rightarrow> ctrl \<times> thread_end" where
  "controlClientThread E ours stream d =
     (let key = d_default_key (g_replication (dm_wforce d)); c = control_start ours [] stream [] d
      in case readn2 crypto_secretbox_NONCEBYTES stream of
           Ret rest theirs \<Rightarrow>
             (case writen2 (ce_write E) (nonce_toString ours) [] of
                Ret sent _ \<Rightarrow> control_loop E key (control_start ours (map byte_of_char theirs) rest sent d)
              | Exn e _ \<Rightarrow> (client_died E e c, Died)
              | Undef \<Rightarrow> (c, Died))
         | Exn e _ \<Rightarrow> (client_died E e c, Died)
         | Undef \<Rightarrow> (c, Died))"

section \<open>The client and the local console\<close>

record client_end =
  cl_reading :: SodiumNonce
  cl_writing :: SodiumNonce
  cl_in :: string
  cl_out :: string
  cl_printed :: "string list"

definition client_send :: "console_env \<Rightarrow> string \<Rightarrow> string \<Rightarrow> client_end \<Rightarrow> (client_end, unit) outcome" where
  "client_send E key line c =
     (case sodEncryptSym (ce_box E) line key (cl_writing c) of
        (n, msg) \<Rightarrow>
          (let c1 = c\<lparr>cl_writing := n, cl_out := fst (putMsgLen (ce_write E) msg (cl_out c))\<rparr>
           in map_state (\<lambda>sent. c1\<lparr>cl_out := sent\<rparr>) (writen2 (ce_write E) msg (cl_out c1))))"

text \<open>The result of \<^verbatim>\<open>getMsgLen\<close> is not looked at; without a length, zero bytes are read, which throws.\<close>

definition client_recv :: "console_env \<Rightarrow> string \<Rightarrow> client_end \<Rightarrow> (client_end, unit) outcome" where
  "client_recv E key c =
     (case (case getMsgLen (cl_in c) of Some lr \<Rightarrow> lr | None \<Rightarrow> (0, [])) of
        (len, rest) \<Rightarrow>
          (case readn2 len rest of
             Ret rest' msg \<Rightarrow>
               (case sodDecryptSym (ce_box E) msg key (cl_reading c) of
                  Ret n answer \<Rightarrow> Ret (c\<lparr>cl_in := rest', cl_reading := n, cl_printed := cl_printed c @ [answer]\<rparr>) ()
                | Exn e _ \<Rightarrow> Exn e c
                | Undef \<Rightarrow> Undef)
           | Exn e _ \<Rightarrow> Exn e c
           | Undef \<Rightarrow> Undef))"

fun client_loop :: "console_env \<Rightarrow> string \<Rightarrow> string list \<Rightarrow> client_end \<Rightarrow> (client_end, unit) outcome" where
  "client_loop E key [] c = Ret c ()"
| "client_loop E key (line # lines) c =
     (if line = ''quit'' then Ret c ()
      else obind (obind (client_send E key line c) (\<lambda>c1 _. client_recv E key c1)) (\<lambda>c2 _. client_loop E key lines c2))"

definition client_start :: "SodiumNonce \<Rightarrow> SodiumNonce \<Rightarrow> string \<Rightarrow> string \<Rightarrow> client_end" where
  "client_start ours theirs stream sent =
     \<lparr>cl_reading = nonce_merge ours theirs, cl_writing = nonce_merge theirs ours, cl_in = stream, cl_out = sent, cl_printed = []\<rparr>"

text \<open>\<^verbatim>\<open>doClient\<close> after the connection has been made: \<open>stream\<close> is what the daemon sends, \<open>lines\<close> what the user types.\<close>

definition doClient :: "console_env \<Rightarrow> string \<Rightarrow> SodiumNonce \<Rightarrow> string \<Rightarrow> string \<Rightarrow> string list \<Rightarrow> (client_end, unit) outcome" where
  "doClient E key ours stream command lines =
     (let c = client_start ours [] stream []
      in case writen2 (ce_write E) (nonce_toString ours) [] of
           Ret sent _ \<Rightarrow>
             (case readn2 crypto_secretbox_NONCEBYTES stream of
                Ret rest theirs \<Rightarrow>
                  (let c1 = client_start ours (map byte_of_char theirs) rest sent
                   in if command \<noteq> [] then obind (client_send E key command c1) (\<lambda>c2 _. client_recv E key c2)
                      else client_loop E key lines c1)
              | Exn e _ \<Rightarrow> Exn e (c\<lparr>cl_out := sent\<rparr>)
              | Undef \<Rightarrow> Undef)
         | Exn e _ \<Rightarrow> Exn e c
         | Undef \<Rightarrow> Undef)"

text \<open>
  The console on the terminal of the daemon: what is printed, and whether it goes on. An exception that is not a \<^verbatim>\<open>std::exception\<close>
  reaches \<^verbatim>\<open>main\<close>, which exits.
\<close>

definition endl :: "string \<Rightarrow> string" where "endl s = s @ nl"

fun console_text :: "daemon \<Rightarrow> lua_result \<Rightarrow> string option" where
  "console_text d Lua_Nil = Some (g_outputBuffer d)"
| "console_text d (Lua_String s) = Some (endl s)"
| "console_text d (Execution_Error what n) =
     (case n of No_Nested \<Rightarrow> Some (what @ '': '') | Nested_Std e \<Rightarrow> Some (what @ '': '' @ endl e) | Nested_Other \<Rightarrow> None)"
| "console_text d (Wrong_Type what) = Some (endl what)"
| "console_text d (Syntax_Error what) = Some (endl what)"

fun doConsole :: "console_env \<Rightarrow> string list \<Rightarrow> daemon \<times> string \<Rightarrow> (daemon \<times> string, unit) outcome" where
  "doConsole E [] do = Ret do ()"
| "doConsole E (line # lines) (d, out) =
     (if line = ''quit'' then Ret (d, out) ()
      else case exec_line E line d of
             (d1, r) \<Rightarrow>
               (case console_text d1 r of
                  None \<Rightarrow> Exn Exit_Failure (d1, out)
                | Some text \<Rightarrow> doConsole E lines (d1, out @ text)))"

section \<open>A session\<close>

text \<open>
  Both ends of a connection after the exchange of nonces. What one end writes is appended to what the other has not read yet. A step in
  which an end fails is not a step of the relation, so a session that fails is one that stops early.
\<close>

record session =
  se_lines :: "string list"
  se_waiting :: bool
  se_client :: client_end
  se_server :: ctrl

definition complete :: "string \<Rightarrow> bool" where
  "complete s \<longleftrightarrow> (case getMsgLen s of Some (len, rest) \<Rightarrow> len \<le> length rest | None \<Rightarrow> False)"

definition deliver_up :: "client_end \<Rightarrow> client_end \<Rightarrow> ctrl \<Rightarrow> ctrl" where
  "deliver_up c c' v = v\<lparr>ct_in := ct_in v @ drop (length (cl_out c)) (cl_out c')\<rparr>"

definition deliver_down :: "ctrl \<Rightarrow> ctrl \<Rightarrow> client_end \<Rightarrow> client_end" where
  "deliver_down v v' c = c\<lparr>cl_in := cl_in c @ drop (length (ct_out v)) (ct_out v')\<rparr>"

inductive session_step :: "console_env \<Rightarrow> string \<Rightarrow> session \<Rightarrow> session \<Rightarrow> bool" for E key where
  client_sends: "\<not> se_waiting s \<Longrightarrow> se_lines s = line # lines \<Longrightarrow> line \<noteq> ''quit'' \<Longrightarrow> client_send E key line (se_client s) = Ret c () \<Longrightarrow>
    session_step E key s (s\<lparr>se_lines := lines, se_waiting := True, se_client := c, se_server := deliver_up (se_client s) c (se_server s)\<rparr>)"
| server_answers: "complete (ct_in (se_server s)) \<Longrightarrow> control_round E key (se_server s) = (v, None) \<Longrightarrow>
    session_step E key s (s\<lparr>se_server := v, se_client := deliver_down (se_server s) v (se_client s)\<rparr>)"
| client_prints: "se_waiting s \<Longrightarrow> complete (cl_in (se_client s)) \<Longrightarrow> client_recv E key (se_client s) = Ret c () \<Longrightarrow>
    session_step E key s (s\<lparr>se_waiting := False, se_client := c\<rparr>)"

inductive_simps session_step_iff: "session_step E key s s'"

definition session_start :: "SodiumNonce \<Rightarrow> SodiumNonce \<Rightarrow> string list \<Rightarrow> daemon \<Rightarrow> session" where
  "session_start ours theirs lines d =
     \<lparr>se_lines = lines, se_waiting = False, se_client = client_start ours theirs [] (nonce_toString ours),
      se_server = control_start theirs ours [] (nonce_toString theirs) d\<rparr>"

text \<open>What the lines would do and answer if they were run one after the other.\<close>

fun run_lines :: "console_env \<Rightarrow> string list \<Rightarrow> daemon \<Rightarrow> (daemon \<times> string list) option" where
  "run_lines E [] d = Some (d, [])"
| "run_lines E (line # lines) d =
     (case exec_line E line d of
        (d1, r) \<Rightarrow>
          (case response_of d1 r of
             None \<Rightarrow> None
           | Some t \<Rightarrow> (case run_lines E lines d1 of None \<Rightarrow> None | Some (d2, ts) \<Rightarrow> Some (d2, t # ts))))"

definition short :: "string \<Rightarrow> bool" where
  "short s \<longleftrightarrow> length s + crypto_secretbox_MACBYTES < 65536"

lemma message_travels:
  assumes "secretbox_ok B" and "sodEncryptSym B m key n = (n', msg)" and "short m"
  shows "getMsgLen (frame_of msg @ rest) = Some (length msg, msg @ rest)" and "readn2 (length msg) (msg @ rest) = Ret rest msg"
    and "sodDecryptSym B msg key n = Ret n' m" and "take (length msg mod 65536) msg = msg"
proof -
  have msg: "msg = crypto_secretbox_easy B n key m" "n' = nonce_increment n" using assms(2) by (simp_all add: sodEncryptSym_def)
  have law: "length msg = length m + crypto_secretbox_MACBYTES" "crypto_secretbox_open_easy B n key msg = Some m"
    using assms(1) by (auto simp: secretbox_ok_def msg)
  have len: "0 < length msg" "length msg < 65536" using law(1) assms(3) by (simp_all add: short_def crypto_secretbox_MACBYTES_def)
  have "from_be16 (size_bytes msg) = length msg" using len by (simp add: size_bytes_value)
  then show "getMsgLen (frame_of msg @ rest) = Some (length msg, msg @ rest)"
    by (simp add: getMsgLen_def readn2_def frame_of_def)
  show "readn2 (length msg) (msg @ rest) = Ret rest msg" using len by (simp add: readn2_def)
  show "sodDecryptSym B msg key n = Ret n' m" using law msg(2) by (cases m) (simp_all add: sodDecryptSym_def)
  show "take (length msg mod 65536) msg = msg" using len by simp
qed

lemma writes_frame:
  assumes "\<forall>i. w i"
  shows "putMsgLen w msg sent = (sent @ size_bytes msg, True)" "writen2 w msg (sent @ size_bytes msg) = Ret (sent @ frame_of msg) ()"
  using assms by (simp_all add: putMsgLen_def writen2_def frame_of_def)

lemma incomplete_Nil [simp]: "\<not> complete []"
  by (simp add: complete_def getMsgLen_def readn2_def)

text \<open>The three states between two lines: nothing on its way, the line on its way, the answer on its way.\<close>

definition at_rest :: "string list \<Rightarrow> bool \<Rightarrow> SodiumNonce \<times> SodiumNonce \<Rightarrow> SodiumNonce \<times> SodiumNonce \<Rightarrow> string \<times> string \<Rightarrow> string \<times> string
    \<Rightarrow> string list \<Rightarrow> daemon \<Rightarrow> session" where
  "at_rest lines waiting cn sn ins outs printed d =
     \<lparr>se_lines = lines, se_waiting = waiting,
      se_client = \<lparr>cl_reading = fst cn, cl_writing = snd cn, cl_in = fst ins, cl_out = fst outs, cl_printed = printed\<rparr>,
      se_server = \<lparr>ct_daemon = d, ct_reading = fst sn, ct_writing = snd sn, ct_in = snd ins, ct_out = snd outs\<rparr>\<rparr>"

lemma sends_line:
  assumes "\<forall>i. ce_write E i" and "sodEncryptSym (ce_box E) line key b = (b', msg)" and "line \<noteq> ''quit''"
  shows "session_step E key (at_rest (line # lines) False (a, b) sn ([], []) (oc, os) p d) s
    \<longleftrightarrow> s = at_rest lines True (a, b') sn ([], frame_of msg) (oc @ frame_of msg, os) p d"
proof -
  have "client_send E key line (se_client (at_rest (line # lines) False (a, b) sn ([], []) (oc, os) p d))
      = Ret (se_client (at_rest lines True (a, b') sn ([], frame_of msg) (oc @ frame_of msg, os) p d)) ()"
    by (simp add: at_rest_def client_send_def assms(2) Let_def writes_frame[OF assms(1)])
  then show ?thesis using assms(3) unfolding session_step_iff by (auto simp: at_rest_def deliver_up_def)
qed

lemma answers_line:
  assumes "secretbox_ok (ce_box E)" and "\<forall>i. ce_write E i" and "sodEncryptSym (ce_box E) line key b = (b', msg)" and "short line"
    and "exec_line E line d = (d', r)" "response_of d' r = Some t" "short t" "sodEncryptSym (ce_box E) t key a = (a', ans)"
  shows "session_step E key (at_rest lines True cn (b, a) ([], frame_of msg) (oc, os) p d) s
    \<longleftrightarrow> s = at_rest lines True cn (b', a') (frame_of ans, []) (oc, os @ frame_of ans) p d'"
proof -
  note m = message_travels(1,2)[OF assms(1,3,4), where rest = "[]", simplified] message_travels(3)[OF assms(1,3,4)]
  note ans = message_travels(4)[OF assms(1,8,7)]
  have "control_round E key (se_server (at_rest lines True cn (b, a) ([], frame_of msg) (oc, os) p d))
      = (se_server (at_rest lines True cn (b', a') (frame_of ans, []) (oc, os @ frame_of ans) p d'), None)"
    by (simp add: at_rest_def control_round_def m assms(5,6) Let_def send_response_def assms(8) writes_frame[OF assms(2)] ans)
  moreover have "complete (frame_of msg)" using m(1) by (simp add: complete_def)
  ultimately show ?thesis unfolding session_step_iff by (auto simp: at_rest_def deliver_down_def)
qed

lemma prints_answer:
  assumes "secretbox_ok (ce_box E)" and "sodEncryptSym (ce_box E) t key a = (a', ans)" and "short t"
  shows "session_step E key (at_rest lines True (a, b) sn (frame_of ans, []) outs p d) s
    \<longleftrightarrow> s = at_rest lines False (a', b) sn ([], []) outs (p @ [t]) d"
proof -
  note m = message_travels(1,2)[OF assms, where rest = "[]", simplified] message_travels(3)[OF assms]
  have "client_recv E key (se_client (at_rest lines True (a, b) sn (frame_of ans, []) outs p d))
      = Ret (se_client (at_rest lines False (a', b) sn ([], []) outs (p @ [t]) d)) ()"
    by (simp add: at_rest_def client_recv_def m)
  moreover have "complete (frame_of ans)" using m(1) by (simp add: complete_def)
  ultimately show ?thesis unfolding session_step_iff by (auto simp: at_rest_def)
qed

text \<open>The three steps of a line, each the only one its state has.\<close>

lemma one_line:
  assumes ok: "secretbox_ok (ce_box E)" "\<forall>i. ce_write E i" and "line \<noteq> ''quit''" "short line"
    and "exec_line E line d = (d', r)" "response_of d' r = Some t" "short t"
  obtains s1 s2 a' b' outs' where
    "\<And>x. session_step E key (at_rest (line # lines) False (a, b) (b, a) ([], []) outs p d) x \<longleftrightarrow> x = s1"
    "\<And>x. session_step E key s1 x \<longleftrightarrow> x = s2"
    "\<And>x. session_step E key s2 x \<longleftrightarrow> x = at_rest lines False (a', b') (b', a') ([], []) outs' (p @ [t]) d'"
    "cl_printed (se_client s1) = p" "cl_printed (se_client s2) = p"
proof -
  obtain b' msg where enc: "sodEncryptSym (ce_box E) line key b = (b', msg)" by (cases "sodEncryptSym (ce_box E) line key b")
  obtain a' ans where enc': "sodEncryptSym (ce_box E) t key a = (a', ans)" by (cases "sodEncryptSym (ce_box E) t key a")
  obtain oc os where outs: "outs = (oc, os)" by (cases outs)
  show ?thesis
    by (rule that[of "at_rest lines True (a, b') (b, a) ([], frame_of msg) (oc @ frame_of msg, os) p d"
          "at_rest lines True (a, b') (b', a') (frame_of ans, []) (oc @ frame_of msg, os @ frame_of ans) p d'" a' b'
          "(oc @ frame_of msg, os @ frame_of ans)"])
      (simp_all only: outs sends_line[OF ok(2) enc assms(3)] answers_line[OF ok enc assms(4-7) enc'] prints_answer[OF ok(1) enc' assms(7)],
       simp_all add: at_rest_def)
qed

lemma relpowp_only_step:
  assumes "\<And>x. R s0 x \<longleftrightarrow> x = s1"
  shows "(R ^^ n) s0 s \<longleftrightarrow> n = 0 \<and> s = s0 \<or> (\<exists>k. n = Suc k \<and> (R ^^ k) s1 s)"
proof (cases n)
  case (Suc k)
  have "(R ^^ Suc k) s0 s \<longleftrightarrow> (R ^^ k) s1 s"
    using assms relpowp_Suc_D2[of k R s0 s] relpowp_Suc_I2[of R s0 s1 k s] by auto
  then show ?thesis using Suc by simp
qed auto

lemma relpowp_no_step: "(\<And>x. \<not> R s0 x) \<Longrightarrow> (R ^^ n) s0 s \<longleftrightarrow> n = 0 \<and> s = s0"
proof (cases n)
  case (Suc k)
  assume "\<And>x. \<not> R s0 x"
  then show ?thesis using relpowp_Suc_D2[of k R s0 s] Suc by blast
qed auto

text \<open>A run from a state at rest: its length, what has been printed on the way, and where it ends.\<close>

lemma session_runs:
  assumes ok: "secretbox_ok (ce_box E)" "\<forall>i. ce_write E i"
    and "run_lines E lines d = Some (d', ts)" "\<forall>x \<in> set lines. x \<noteq> ''quit'' \<and> short x" "\<forall>t \<in> set ts. short t"
    and "(session_step E key ^^ n) (at_rest lines False (a, b) (b, a) ([], []) outs p d) s"
  shows "n \<le> 3 * length lines \<and> (\<exists>i. cl_printed (se_client s) = p @ take i ts)
    \<and> ((\<nexists>s'. session_step E key s s') \<longrightarrow> n = 3 * length lines \<and> cl_printed (se_client s) = p @ ts \<and> ct_daemon (se_server s) = d')"
  using assms(3-)
proof (induction lines arbitrary: n d ts a b outs p)
  case Nil
  have "\<not> session_step E key (at_rest [] False (a, b) (b, a) ([], []) outs p d) s1" for s1
    unfolding session_step_iff by (simp add: at_rest_def)
  then have "n = 0 \<and> s = at_rest [] False (a, b) (b, a) ([], []) outs p d" using Nil.prems(4) relpowp_no_step by metis
  then show ?case using Nil.prems by (simp add: at_rest_def)
next
  case (Cons line lines)
  obtain d1 r where e: "exec_line E line d = (d1, r)" by (cases "exec_line E line d")
  obtain t ts1 where ts: "response_of d1 r = Some t" "run_lines E lines d1 = Some (d', ts1)" "ts = t # ts1"
    using Cons.prems(1) e by (auto split: option.splits)
  have l: "line \<noteq> ''quit''" "short line" "short t" using Cons.prems(2,3) ts(3) by auto
  let ?s0 = "at_rest (line # lines) False (a, b) (b, a) ([], []) outs p d"
  obtain s1 s2 a' b' outs' where steps: "\<And>x. session_step E key ?s0 x \<longleftrightarrow> x = s1" "\<And>x. session_step E key s1 x \<longleftrightarrow> x = s2"
    "\<And>x. session_step E key s2 x \<longleftrightarrow> x = at_rest lines False (a', b') (b', a') ([], []) outs' (p @ [t]) d1"
    and pr: "cl_printed (se_client s1) = p" "cl_printed (se_client s2) = p"
    by (rule one_line[OF ok l(1,2) e ts(1) l(3), where key = key and lines = lines and a = a and b = b and outs = outs and p = p]) (rule that)
  consider "n = 0" "s = ?s0" | "n = 1" "s = s1" | "n = 2" "s = s2"
    | k where "n = Suc (Suc (Suc k))" "(session_step E key ^^ k) (at_rest lines False (a', b') (b', a') ([], []) outs' (p @ [t]) d1) s"
    using Cons.prems(4) unfolding relpowp_only_step[of "session_step E key", OF steps(1)] relpowp_only_step[of "session_step E key", OF steps(2)]
      relpowp_only_step[of "session_step E key", OF steps(3)] by auto
  then show ?case
  proof cases
    case 4
    have "k \<le> 3 * length lines \<and> (\<exists>i. cl_printed (se_client s) = (p @ [t]) @ take i ts1)
      \<and> ((\<nexists>s'. session_step E key s s') \<longrightarrow> k = 3 * length lines \<and> cl_printed (se_client s) = (p @ [t]) @ ts1 \<and> ct_daemon (se_server s) = d')"
      using Cons.prems(2,3) ts 4(2) by (intro Cons.IH) auto
    then show ?thesis using 4(1) ts(3) by (auto intro: exI[of _ "Suc i" for i])
  qed (use steps pr in \<open>auto simp: at_rest_def intro: exI[of _ 0]\<close>)
qed

lemma session_completes:
  assumes ok: "secretbox_ok (ce_box E)" "\<forall>i. ce_write E i"
    and "run_lines E lines d = Some (d', ts)" "\<forall>x \<in> set lines. x \<noteq> ''quit'' \<and> short x" "\<forall>t \<in> set ts. short t"
  shows "\<exists>s. (session_step E key ^^ (3 * length lines)) (at_rest lines False (a, b) (b, a) ([], []) outs p d) s"
  using assms(3-)
proof (induction lines arbitrary: d ts a b outs p)
  case (Cons line lines)
  obtain d1 r where e: "exec_line E line d = (d1, r)" by (cases "exec_line E line d")
  obtain t ts1 where ts: "response_of d1 r = Some t" "run_lines E lines d1 = Some (d', ts1)" "ts = t # ts1"
    using Cons.prems(1) e by (auto split: option.splits)
  have l: "line \<noteq> ''quit''" "short line" "short t" using Cons.prems(2,3) ts(3) by auto
  let ?s0 = "at_rest (line # lines) False (a, b) (b, a) ([], []) outs p d"
  obtain s1 s2 a' b' outs' where steps: "\<And>x. session_step E key ?s0 x \<longleftrightarrow> x = s1" "\<And>x. session_step E key s1 x \<longleftrightarrow> x = s2"
    "\<And>x. session_step E key s2 x \<longleftrightarrow> x = at_rest lines False (a', b') (b', a') ([], []) outs' (p @ [t]) d1"
    by (rule one_line[OF ok l(1,2) e ts(1) l(3), where key = key and lines = lines and a = a and b = b and outs = outs and p = p]) (rule that)
  obtain s where "(session_step E key ^^ (3 * length lines)) (at_rest lines False (a', b') (b', a') ([], []) outs' (p @ [t]) d1) s"
    using Cons.IH[OF ts(2)] Cons.prems(2,3) ts(3) by (metis list.set_intros(2))
  moreover have "3 * length (line # lines) = Suc (Suc (Suc (3 * length lines)))" by simp
  ultimately show ?case unfolding relpowp_only_step[of "session_step E key", OF steps(1)] relpowp_only_step[of "session_step E key", OF steps(2)]
      relpowp_only_step[of "session_step E key", OF steps(3)] by auto
qed auto

lemma session_start_at_rest:
  "session_start ours theirs lines d = at_rest lines False (nonce_merge ours theirs, nonce_merge theirs ours)
      (nonce_merge theirs ours, nonce_merge ours theirs) ([], []) (nonce_toString ours, nonce_toString theirs) [] d"
  by (simp add: session_start_def at_rest_def client_start_def control_start_def)

text \<open>
  C20. A session on the control socket answers every line, in order, and ends, for lines other than \<^verbatim>\<open>quit\<close>, lines and answers short enough
  for the two bytes of the length (fewer than 65520 bytes), and lines whose run lets no exception but one derived from
  \<^verbatim>\<open>std::exception\<close> out of the interpreter (another one ends the daemon). When client and daemon have the same key and all writes
  succeed, however the two ends take turns: a session takes at most three steps per line, what the client has printed at any
  time are the first answers, and when nothing more can happen it has printed the answers of all lines, which the daemon has run one after
  the other. The nonces of the two directions stay in step because each end makes them from its own and the other's, the other way round.
\<close>

theorem console_session_answers_every_line:
  assumes "secretbox_ok (ce_box E)" "\<forall>i. ce_write E i"
    and "run_lines E lines d = Some (d', ts)" "\<forall>x \<in> set lines. x \<noteq> ''quit'' \<and> short x" "\<forall>t \<in> set ts. short t"
    and "(session_step E key ^^ n) (session_start ours theirs lines d) s"
  shows "n \<le> 3 * length lines \<and> (\<exists>i. cl_printed (se_client s) = take i ts)
    \<and> ((\<nexists>s'. session_step E key s s') \<longrightarrow> n = 3 * length lines \<and> cl_printed (se_client s) = ts \<and> ct_daemon (se_server s) = d')"
  using session_runs[OF assms(1-5), where key = key and n = n and p = "[]"] assms(6) by (simp add: session_start_at_rest)

text \<open>The exchange of nonces leads both ends into such a session.\<close>

lemma nonce_bytes: "nonce_wf n \<Longrightarrow> readn2 crypto_secretbox_NONCEBYTES (nonce_toString n @ rest) = Ret rest (nonce_toString n)"
    "map byte_of_char (nonce_toString n) = n"
  by (simp_all add: readn2_def nonce_toString_def nonce_wf_def crypto_secretbox_NONCEBYTES_def comp_def)

lemma handshake:
  assumes "nonce_wf ours" "nonce_wf theirs" "\<forall>i. ce_write E i"
  shows "controlClientThread E theirs (nonce_toString ours @ stream) d =
      control_loop E (d_default_key (g_replication (dm_wforce d))) (control_start theirs ours stream (nonce_toString theirs) d)"
    and "doClient E key ours (nonce_toString theirs @ stream) [] lines = client_loop E key lines (client_start ours theirs stream (nonce_toString ours))"
  using assms nonce_bytes by (simp_all add: controlClientThread_def doClient_def writen2_def)

text \<open>
  A message that does not open leaves the daemon as it is except for its log. Exactly 16 bytes need no key: they are the
  empty line.
\<close>

lemma unopened_message_does_nothing:
  assumes "getMsgLen (ct_in c) = Some (len, rest)" "readn2 len rest = Ret rest' msg" "sodDecryptSym (ce_box E) msg key (ct_reading c) = Exn e n"
  shows "unlogged (dm_wforce (ct_daemon (fst (control_round E key c)))) = unlogged (dm_wforce (ct_daemon c))
    \<and> snd (control_round E key c) \<in> {Some No_Decrypt, Some Died}"
  using assms by (cases e) (auto simp: control_round_def client_died_def errlog_def on_wf_def log_line_def unlogged_def)

lemma empty_line_needs_no_key: "length msg = 16 \<Longrightarrow> sodDecryptSym B msg key n = Ret (nonce_increment n) []"
  by (simp add: sodDecryptSym_def crypto_secretbox_MACBYTES_def)

text \<open>A command of the console that throws a \<^verbatim>\<open>WforceException\<close> inside the interpreter, such as a bad netmask given to \<^verbatim>\<open>addACL\<close>, ends the daemon.\<close>

lemma wforce_exception_ends_the_daemon:
  assumes "getMsgLen (ct_in c) = Some (len, rest)" "readn2 len rest = Ret rest' msg" "sodDecryptSym (ce_box E) msg key (ct_reading c) = Ret n line"
    and "exec_line E line (ct_daemon c) = (d, Execution_Error what Nested_Other)"
  shows "snd (control_round E key c) = Some Terminated"
  using assms by (simp add: control_round_def Let_def)

section \<open>An instance\<close>

text \<open>An interpreter that in the main state answers by the output buffer, and in the others with nothing.\<close>

definition echo_env :: console_env where
  "echo_env = \<lparr>ce_box = demo_box, ce_run = (\<lambda>i line d. (case i of None \<Rightarrow> lua_out line d | Some _ \<Rightarrow> d, Lua_Nil)), ce_pool = 2,
     ce_write = (\<lambda>_. True), ce_client = ''10.0.0.1:4004''\<rparr>"

lemma echo_line: "exec_line echo_env line d = (d\<lparr>g_outputBuffer := line\<rparr>, Lua_Nil)"
  by (simp add: exec_line_def echo_env_def threw_def upt_rec lua_out_def)

theorem console_session_answers_every_line_witness:
  "\<exists>s. (session_step echo_env ''k'' ^^ 6) (session_start (replicate 24 1) (replicate 24 2) [''stats()'', ''siblings()''] start_state) s
     \<and> \<not> Ex (session_step echo_env ''k'' s) \<and> cl_printed (se_client s) = [''stats()'', ''siblings()'']"
proof -
  let ?ls = "[''stats()'', ''siblings()'']" and ?s0 = "session_start (replicate 24 1) (replicate 24 2) [''stats()'', ''siblings()''] start_state"
  have run: "run_lines echo_env ?ls start_state = Some (start_state\<lparr>g_outputBuffer := ''siblings()''\<rparr>, ?ls)" by (simp add: echo_line)
  have ok: "secretbox_ok (ce_box echo_env)" "\<forall>i. ce_write echo_env i" using demo_box_ok by (simp_all add: echo_env_def)
  have short: "\<forall>x \<in> set ?ls. x \<noteq> ''quit'' \<and> short x" "\<forall>t \<in> set ?ls. short t" by (simp_all add: short_def crypto_secretbox_MACBYTES_def)
  note all = console_session_answers_every_line[OF ok run short, where key = "''k''" and ours = "replicate 24 1" and theirs = "replicate 24 2"]
  obtain s where s: "(session_step echo_env ''k'' ^^ 6) ?s0 s"
    using session_completes[OF ok run short, where key = "''k''"] by (simp add: session_start_at_rest) blast
  have "\<not> session_step echo_env ''k'' s s'" for s'
    using all[of 7 s'] relpowp_Suc_I[OF s, of s'] by auto
  then show ?thesis using all[of 6 s] s by auto
qed

end
