(* ===== verification/Fwd_Web.thy ===== *)
theory Fwd_Web
  imports Repl_Fwd Lua_Config
begin

text \<open>
  The HTTP commands of the replication forwarder (\<^verbatim>\<open>wforce/replfwd-web.cc\<close>). The forwarder has three vectors of peers: the siblings
  of its own cluster, the forwarders it sends to, and the addresses it accepts forwarded operations from. Each can be added to,
  removed from, replaced and listed; the four handlers look at the name of the command to learn that it is about sources, which
  have neither port nor protocol.
\<close>

section \<open>State\<close>

record replfwd =
  rf_replication :: ReplfwdReplication
  rf_server :: WforceWebserver
  rf_sib :: sib_env
  rf_outputBuffer :: string
  rf_launchWork :: "launch list option"
  rf_launched :: "launch list"
  rf_listeners :: "(string \<times> 16 word) list"
  rf_log :: "(log_level \<times> string) list"
  rf_counted :: "string list"

definition rf_line :: "log_level \<Rightarrow> string \<Rightarrow> replfwd \<Rightarrow> replfwd" where
  "rf_line l t s = s\<lparr>rf_log := rf_log s @ [(l, t)]\<rparr>"

datatype peer_vector = Own_Siblings | Repl_Forwarders | Repl_Forwarders_Src

fun peers_of :: "peer_vector \<Rightarrow> ReplfwdReplication \<Rightarrow> Sibling list" where
  "peers_of Own_Siblings F = d_siblings (fwd_base F)"
| "peers_of Repl_Forwarders F = d_repl_forwarders F"
| "peers_of Repl_Forwarders_Src F = d_repl_forwarders_src F"

fun set_peers :: "peer_vector \<Rightarrow> Sibling list \<Rightarrow> ReplfwdReplication \<Rightarrow> ReplfwdReplication" where
  "set_peers Own_Siblings v F = F\<lparr>fwd_base := (fwd_base F)\<lparr>d_siblings := v\<rparr>\<rparr>"
| "set_peers Repl_Forwarders v F = F\<lparr>d_repl_forwarders := v\<rparr>"
| "set_peers Repl_Forwarders_Src v F = F\<lparr>d_repl_forwarders_src := v\<rparr>"

abbreviation rf_peers :: "peer_vector \<Rightarrow> replfwd \<Rightarrow> Sibling list" where "rf_peers T s \<equiv> peers_of T (rf_replication s)"

definition put_peers :: "peer_vector \<Rightarrow> Sibling list \<Rightarrow> replfwd \<Rightarrow> replfwd" where
  "put_peers T v s = s\<lparr>rf_replication := set_peers T v (rf_replication s)\<rparr>"

definition change_peers ::
    "peer_vector \<Rightarrow> (Sibling list \<Rightarrow> (Sibling list, bool \<times> string) outcome) \<Rightarrow> replfwd \<Rightarrow> (replfwd, unit) outcome" where
  "change_peers T f s =
     obind (map_state (\<lambda>v. put_peers T v s) (f (rf_peers T s)))
       (\<lambda>s1 (ok, error_msg). if ok then Ret s1 () else Exn (Wforce_Exception error_msg) s1)"

section \<open>Handlers\<close>

definition flag_value :: "Json \<Rightarrow> bool" where
  "flag_value j = (if is_null j then True else bool_value j)"

definition try_add_peer :: "web_env \<Rightarrow> string \<Rightarrow> peer_vector \<Rightarrow> Json \<Rightarrow> replfwd \<Rightarrow> (replfwd, unit) outcome" where
  "try_add_peer V command T msg s =
     (let is_src = (command = ''addReplicationForwarderSrc''); sibling_host = string_value (js_get msg ''sibling_host'');
          sibling_port = (if is_src then uint defaultPort else int_value (we_json V) (js_get msg ''sibling_port''));
          send_sdb = flag_value (js_get msg ''send_sdb''); send_wlbl = flag_value (js_get msg ''send_wlbl'')
      in if \<not> is_src \<and> (is_null (js_get msg ''sibling_host'') \<or> is_null (js_get msg ''sibling_port''))
         then Exn (Wforce_Exception ''One of mandatory parameters [sibling_host, sibling_port] is missing'') s
         else if is_src \<and> is_null (js_get msg ''sibling_host'')
         then Exn (Wforce_Exception ''Mandatory parameters [sibling_host] is missing'') s
         else case (if is_src then Inr NONE else json_protocol (js_get msg ''sibling_protocol'')) of
                Inl e \<Rightarrow> Exn e s
              | Inr p \<Rightarrow>
                  (if is_null (js_get msg ''encryption_key'')
                   then change_peers T (addSibling_host (we_sib V) (we_net V) sibling_host sibling_port p send_sdb send_wlbl) s
                   else change_peers T (addSiblingWithKey_host (we_sib V) (we_net V) sibling_host sibling_port p
                          (string_value (js_get msg ''encryption_key'')) send_sdb send_wlbl) s))"

definition try_remove_peer :: "web_env \<Rightarrow> string \<Rightarrow> peer_vector \<Rightarrow> Json \<Rightarrow> replfwd \<Rightarrow> (replfwd, unit) outcome" where
  "try_remove_peer V command T msg s =
     (let is_src = (command = ''removeReplicationForwarderSrc'')
      in if \<not> is_src \<and> (is_null (js_get msg ''sibling_host'') \<or> is_null (js_get msg ''sibling_port''))
         then Exn (Wforce_Exception ''One of mandatory parameters [sibling_host, sibling_port] is missing'') s
         else if is_src \<and> is_null (js_get msg ''sibling_host'')
         then Exn (Wforce_Exception ''Mandatory parameters [sibling_host] is missing'') s
         else change_peers T (removeSibling_host (we_sib V) (we_net V) (string_value (js_get msg ''sibling_host''))
                (if is_src then uint defaultPort else int_value (we_json V) (js_get msg ''sibling_port''))) s)"

definition boolToString :: "bool \<Rightarrow> string" where
  "boolToString b = (if b then ''true'' else ''false'')"

definition json_peer :: "web_env \<Rightarrow> string \<Rightarrow> Json \<Rightarrow> replfwd \<Rightarrow> Json \<Rightarrow> exn + string list" where
  "json_peer V command msg s i =
     (let is_src = (command = ''setReplicationForwarderSrcs'')
      in if \<not> is_src \<and> (is_null (js_get i ''sibling_host'') \<or> is_null (js_get i ''sibling_port''))
         then Inl (Wforce_Exception ''Mandatory parameter(s) [sibling_host, sibling_port] are missing'')
         else if is_src \<and> is_null (js_get i ''sibling_host'') then Inl (Wforce_Exception ''Mandatory parameter [sibling_host] is missing'')
         else
           (let encryption_key = (if is_null (js_get i ''encryption_key'') then Base64Encode (d_default_key (fwd_base (rf_replication s)))
                                  else string_value (js_get i ''encryption_key''));
                sibling_port = (if is_src then uint defaultPort else int_value (we_json V) (js_get i ''sibling_port''))
            in case (if is_src \<or> is_null (js_get i ''sibling_protocol'') then Inr UDP else stringToProtocol (string_value (js_get i ''sibling_protocol''))) of
                 Inl e \<Rightarrow> Inl e
               | Inr p \<Rightarrow>
                   (if p = NONE then Inl (Wforce_Exception (''Invalid sibling_protocol: '' @ string_value (js_get msg ''sibling_protocol'')))
                    else case createSiblingAddress (we_net V) (string_value (js_get i ''sibling_host'')) sibling_port (if is_src then NONE else p) of
                           Inl e \<Rightarrow> Inl e
                         | Inr address \<Rightarrow> Inr [address, encryption_key, boolToString (flag_value (js_get i ''send_sdb'')),
                                               boolToString (flag_value (js_get i ''send_wlbl''))])))"

fun json_peers :: "web_env \<Rightarrow> string \<Rightarrow> Json \<Rightarrow> replfwd \<Rightarrow> Json list \<Rightarrow> exn + string list list" where
  "json_peers V command msg s [] = Inr []"
| "json_peers V command msg s (i # is) =
     (case json_peer V command msg s i of
        Inl e \<Rightarrow> Inl e
      | Inr p \<Rightarrow> (case json_peers V command msg s is of Inl e \<Rightarrow> Inl e | Inr ps \<Rightarrow> Inr (p # ps)))"

definition try_set_peers :: "web_env \<Rightarrow> string \<Rightarrow> peer_vector \<Rightarrow> Json \<Rightarrow> replfwd \<Rightarrow> (replfwd, unit) outcome" where
  "try_set_peers V command T msg s =
     (if is_null (js_get msg ''siblings'') \<or> \<not> is_array (js_get msg ''siblings'')
      then Exn (Wforce_Exception ''Mandatory parameter [siblings] is missing or is not an array'') s
      else case json_peers V command msg s (array_items (js_get msg ''siblings'')) of
             Inl e \<Rightarrow> Exn e s
           | Inr parts \<Rightarrow> change_peers T (setSiblingsWithKey (we_sib V) (we_net V) parts) s)"

text \<open>
  The frame of the three kinds of change. The body of an error is made with \<^verbatim>\<open>string_value\<close> of a JSON object, which is the empty
  string.
\<close>

definition peer_cmd ::
    "(Json \<Rightarrow> replfwd \<Rightarrow> (replfwd, unit) outcome) \<Rightarrow> web_env \<Rightarrow> string \<Rightarrow> string \<Rightarrow> replfwd \<times> HttpResponse
     \<Rightarrow> (replfwd \<times> HttpResponse, unit) outcome" where
  "peer_cmd act V command body sr =
     (case sr of (s, resp) \<Rightarrow>
        (case js_parse_c (we_json V) body of
           (msg, err) \<Rightarrow>
             (let failure = string_value (js_object [(''status'', JString ''failure''), (''reason'', JString err)])
              in if is_null msg then Ret (s, \<lparr>resp_code = 400, resp_body = failure\<rparr>) ()
                 else case act msg s of
                        Ret s1 _ \<Rightarrow> Ret (s1, \<lparr>resp_code = 200, resp_body = status_ok\<rparr>) ()
                      | Exn e s1 \<Rightarrow>
                          (case program_exn e of
                             None \<Rightarrow> Exn e (s1, resp\<lparr>resp_code := 200\<rparr>)
                           | Some reason \<Rightarrow>
                               Ret (rf_line Error (''Exception in command ['' @ command @ ''] exception: '' @ reason) s1,
                                    \<lparr>resp_code = 500,
                                     resp_body = string_value (js_object [(''status'', JString ''failure''), (''reason'', JString reason)])\<rparr>) ())
                      | Undef \<Rightarrow> Undef)))"

definition parseAddSibling where "parseAddSibling V T command = peer_cmd (try_add_peer V command T) V command"
definition parseRemoveSibling where "parseRemoveSibling V T command = peer_cmd (try_remove_peer V command T) V command"
definition parseSetSiblings where "parseSetSiblings V T command = peer_cmd (try_set_peers V command T) V command"

definition peer_json :: "web_env \<Rightarrow> Sibling \<Rightarrow> Json" where
  "peer_json V i =
     js_object ([(''sibling_host'', JString (ca_toString (we_net V) (rem i))), (''sibling_protocol'', JString (protocolToString (proto i)))]
       @ (if proto i = NONE then []
          else [(''sibling_port'', JInt (uint (getPort (rem i))))] @ (if d_has_key i then [(''encryption_key'', JString (Base64Encode (d_key i)))] else [])
            @ [(''send_sdb'', JBool (sdb_send i)), (''send_wlbl'', JBool (wlbl_send i))]))"

definition parseGetSiblings where
  "parseGetSiblings V T command body sr =
     (case sr of (s, resp) \<Rightarrow>
        Ret (s, \<lparr>resp_code = 200, resp_body = js_dump (we_json V) (js_object [(''siblings'', JArray (map (peer_json V) (rf_peers T s)))])\<rparr>) ())"

definition fwd_parsePingCmd where
  "fwd_parsePingCmd command body sr = (case sr of (s, resp) \<Rightarrow> Ret (s, \<lparr>resp_code = 200, resp_body = status_ok\<rparr>) ())"

definition fwd_parseReadyzCmd where
  "fwd_parseReadyzCmd command body sr =
     (case sr of (s, resp) \<Rightarrow> Ret (s\<lparr>rf_counted := rf_counted s @ [''readyz'']\<rparr>, resp\<lparr>resp_code := 200\<rparr>) ())"

text \<open>\<^verbatim>\<open>registerWebserverCommands\<close>: name, method, whether a password is needed, handler.\<close>

type_synonym fwd_func = "string \<Rightarrow> string \<Rightarrow> replfwd \<times> HttpResponse \<Rightarrow> (replfwd \<times> HttpResponse, unit) outcome"

definition fwd_commands :: "web_env \<Rightarrow> (string \<times> HTTPVerb \<times> bool \<times> fwd_func) list" where
  "fwd_commands V =
     [(''ping'', GET, True, fwd_parsePingCmd), (''readyz'', GET, False, fwd_parseReadyzCmd),
      (''addSibling'', POST, True, parseAddSibling V Own_Siblings),
      (''addReplicationForwarderDest'', POST, True, parseAddSibling V Repl_Forwarders),
      (''addReplicationForwarderSrc'', POST, True, parseAddSibling V Repl_Forwarders_Src),
      (''removeSibling'', POST, True, parseRemoveSibling V Own_Siblings),
      (''removeReplicationForwarderDest'', POST, True, parseRemoveSibling V Repl_Forwarders),
      (''removeReplicationForwarderSrc'', POST, True, parseRemoveSibling V Repl_Forwarders_Src),
      (''setSiblings'', POST, True, parseSetSiblings V Own_Siblings),
      (''setReplicationForwarderDests'', POST, True, parseSetSiblings V Repl_Forwarders),
      (''setReplicationForwarderSrcs'', POST, True, parseSetSiblings V Repl_Forwarders_Src),
      (''getReplicationForwarderSrcs'', GET, True, parseGetSiblings V Repl_Forwarders_Src),
      (''getReplicationForwarderDests'', GET, True, parseGetSiblings V Repl_Forwarders),
      (''getSiblings'', GET, True, parseGetSiblings V Own_Siblings)]"

section \<open>What a command changes\<close>

lemma peers_put [simp]: "rf_peers U (put_peers T v s) = (if U = T then v else rf_peers U s)"
  by (cases T; cases U) (simp_all add: put_peers_def)

lemma put_same [simp]: "put_peers T (rf_peers T s) s = s"
  by (cases T) (simp_all add: put_peers_def)

lemma peers_rf_line [simp]: "rf_replication (rf_line l t s) = rf_replication s"
  by (simp add: rf_line_def)

text \<open>The contract of an operation on a vector of siblings, carried over to the vectors of the forwarder.\<close>

context vector_op
begin

lemma peers_ret:
  assumes "change_peers T f s = Ret s' u" and "\<forall>U. distinct_rems (rf_peers U s)"
  shows "(\<forall>U. distinct_rems (rf_peers U s')) \<and> (\<forall>U. U \<noteq> T \<longrightarrow> rf_peers U s' = rf_peers U s)"
proof (cases "f (rf_peers T s)")
  case (Ret v r)
  obtain ok out where r: "r = (ok, out)" by (cases r)
  have "s' = put_peers T v s" using assms(1) Ret r by (auto simp: change_peers_def split: if_splits)
  then show ?thesis using op_ret[of "rf_peers T s" v ok out] Ret r assms(2) by simp
qed (use assms in \<open>auto simp: change_peers_def\<close>)

lemma peers_exn:
  assumes "change_peers T f s = Exn e s'" and "\<forall>U. distinct_rems (rf_peers U s)"
  shows "s' = s"
proof (cases "f (rf_peers T s)")
  case (Ret v r)
  obtain ok out where r: "r = (ok, out)" by (cases r)
  have "s' = put_peers T v s \<and> \<not> ok" using assms(1) Ret r by (auto simp: change_peers_def split: if_splits)
  then show ?thesis using op_ret[of "rf_peers T s" v ok out] Ret r assms(2) by simp
next
  case (Exn e' v)
  then show ?thesis using assms(1) op_exn[OF Exn] by (auto simp: change_peers_def)
qed (use assms in \<open>auto simp: change_peers_def\<close>)

end

definition good_change :: "peer_vector \<Rightarrow> (Json \<Rightarrow> replfwd \<Rightarrow> (replfwd, unit) outcome) \<Rightarrow> bool" where
  "good_change T act \<longleftrightarrow>
     (\<forall>msg s. (\<forall>U. distinct_rems (rf_peers U s)) \<longrightarrow>
        (\<forall>s' u. act msg s = Ret s' u \<longrightarrow> (\<forall>U. distinct_rems (rf_peers U s')) \<and> (\<forall>U. U \<noteq> T \<longrightarrow> rf_peers U s' = rf_peers U s))
        \<and> (\<forall>e s'. act msg s = Exn e s' \<longrightarrow> s' = s))"

lemma good_changes: "good_change T (try_add_peer V command T)" "good_change T (try_remove_peer V command T)" "good_change T (try_set_peers V command T)"
  unfolding good_change_def try_add_peer_def try_remove_peer_def try_set_peers_def Let_def
  by (auto dest: op_add.peers_ret op_add.peers_exn op_add_key.peers_ret op_add_key.peers_exn op_remove.peers_ret op_remove.peers_exn
        op_set.peers_ret op_set.peers_exn split: if_splits sum.splits)

lemma failure_has_no_body [simp]: "string_value (js_object kvs) = []"
  by (simp add: js_object_def)

definition changes_only :: "peer_vector \<Rightarrow> replfwd \<Rightarrow> replfwd \<times> HttpResponse \<Rightarrow> bool" where
  "changes_only T s sr \<longleftrightarrow>
     (\<forall>U. distinct_rems (rf_peers U (fst sr))) \<and> (\<forall>U. U \<noteq> T \<longrightarrow> rf_peers U (fst sr) = rf_peers U s)
     \<and> (rf_peers T (fst sr) \<noteq> rf_peers T s \<longrightarrow> snd sr = \<lparr>resp_code = 200, resp_body = status_ok\<rparr>)"

lemma peer_cmd_spec:
  assumes act: "good_change T act" and d: "\<forall>U. distinct_rems (rf_peers U s)"
    and fin: "final_state (peer_cmd act V command body (s, resp)) = Some sr"
  shows "changes_only T s sr"
proof -
  obtain msg err where p: "js_parse_c (we_json V) body = (msg, err)" by fastforce
  have ret: "(\<forall>U. distinct_rems (rf_peers U t)) \<and> (\<forall>U. U \<noteq> T \<longrightarrow> rf_peers U t = rf_peers U s)" if "act msg s = Ret t u" for t u
    using act d that unfolding good_change_def by blast
  have exn: "t = s" if "act msg s = Exn e t" for e t using act d that unfolding good_change_def by blast
  show ?thesis
  proof (cases "is_null msg")
    case True
    then show ?thesis using fin p d by (auto simp: peer_cmd_def changes_only_def)
  next
    case False
    show ?thesis
    proof (cases "act msg s")
      case (Ret t u)
      then show ?thesis using fin p False ret[OF Ret] by (auto simp: peer_cmd_def changes_only_def)
    next
      case (Exn e t)
      then show ?thesis using fin p False d exn[OF Exn] by (cases "program_exn e") (auto simp: peer_cmd_def changes_only_def)
    next
      case Undef
      then show ?thesis using fin p False by (simp add: peer_cmd_def)
    qed
  qed
qed

text \<open>
  C25. The commands of the forwarder change what they say and nothing else. Whatever the request, every command keeps the addresses in each
  of the three vectors of peers distinct and leaves at least two of them alone; a vector changes only by a command that needs the password,
  and only if the answer is a success. A command that is refused, or that ends in an exception, changes none.
\<close>

theorem forwarder_commands_all_or_nothing:
  assumes "(name, verb, auth, h) \<in> set (fwd_commands V)" and "\<forall>T. distinct_rems (rf_peers T s)"
    and "final_state (h command body (s, resp)) = Some (s', resp')"
  shows "(\<forall>T. distinct_rems (rf_peers T s')) \<and> (\<exists>T. \<forall>U. U \<noteq> T \<longrightarrow> rf_peers U s' = rf_peers U s)
    \<and> ((\<exists>T. rf_peers T s' \<noteq> rf_peers T s) \<longrightarrow> auth \<and> verb = POST \<and> resp' = \<lparr>resp_code = 200, resp_body = status_ok\<rparr>)"
proof -
  consider T where "h \<in> {parseAddSibling V T, parseRemoveSibling V T, parseSetSiblings V T}" "auth" "verb = POST"
    | T where "h \<in> {fwd_parsePingCmd, fwd_parseReadyzCmd, parseGetSiblings V T}"
    using assms(1) by (auto simp: fwd_commands_def)
  then show ?thesis
  proof cases
    case (1 T)
    then have "changes_only T s (s', resp')"
      using assms(3) peer_cmd_spec[OF good_changes(1) assms(2)] peer_cmd_spec[OF good_changes(2) assms(2)] peer_cmd_spec[OF good_changes(3) assms(2)]
      by (auto simp: parseAddSibling_def parseRemoveSibling_def parseSetSiblings_def)
    then show ?thesis using 1(2,3) unfolding changes_only_def by (metis fst_conv snd_conv)
  next
    case (2 T)
    then have "rf_replication s' = rf_replication s"
      using assms(3) by (auto simp: parseGetSiblings_def fwd_parsePingCmd_def fwd_parseReadyzCmd_def)
    then show ?thesis using assms(2) by simp
  qed
qed

text \<open>
  The life of a source: for an IPv4 host, after \<^verbatim>\<open>addReplicationForwarderSrc\<close>, whatever it answers, connections from the host are accepted;
  after \<^verbatim>\<open>removeReplicationForwarderSrc\<close> they are not, unless a sibling has the address.
\<close>

lemma default_port: "uint defaultPort = int 4001" "(word_of_nat 4001 :: 16 word) = defaultPort"
  by (simp_all add: defaultPort_def)

lemma source_address:
  assumes "resolves_v4 S N host a"
  shows "\<exists>address. createSiblingAddress N host (uint defaultPort) p = Inr address \<and> parseSiblingString S N address = Inr (CA_V4 a defaultPort, p)"
proof -
  have "CHR '':'' \<notin> set host" using assms by (auto simp: resolves_v4_def)
  then obtain address where c: "createSiblingAddress N host (int 4001) p = Inr address" by (simp add: createSiblingAddress_def)
  then show ?thesis using parse_created_v4[OF assms _ _ c] default_port by auto
qed

lemma source_added:
  assumes "resolves_v4 S N host a"
  shows "\<exists>v' r. addSibling_host S N host (uint defaultPort) NONE x y v = Ret v' r \<and> (\<exists>x \<in> set v'. rem x = CA_V4 a defaultPort)"
proof -
  obtain address where ad: "createSiblingAddress N host (uint defaultPort) NONE = Inr address" "parseSiblingString S N address = Inr (CA_V4 a defaultPort, NONE)"
    using source_address[OF assms] by blast
  have "B64Decode [] [] = Ret [] 1" using b64_decode_encode[of "[]"] by simp
  then show ?thesis
    using ad by (auto simp: addSibling_host_def addSibling_def addSiblingWithKey_def new_Sibling_def Let_def checkIgnoreSelf_def addSibling_ptr_def
        siblingAddressPortExists_def list_ex_iff)
qed

lemma accepts_rem:
  assumes "x \<in> set (d_repl_forwarders_src F)" "rem x = CA_V4 a defaultPort"
  shows "fwd_checkConnFromSibling (CA_V4 a port) F \<noteq> None"
proof -
  have "addressOnlyEqual (rem x) (CA_V4 a port)" by (simp add: addressOnlyEqual_def assms(2))
  then have "find (\<lambda>f. addressOnlyEqual (rem f) (CA_V4 a port)) (d_repl_forwarders_src F) \<noteq> None" using assms(1) find_None_iff by metis
  then show ?thesis by (simp add: fwd_checkConnFromSibling_def split: option.splits)
qed

lemma added_source_is_accepted:
  assumes "js_parse_c (we_json V) body = (msg, err)" "\<not> is_null msg" "\<not> is_null (js_get msg ''sibling_host'')" "is_null (js_get msg ''encryption_key'')"
    and "resolves_v4 (we_sib V) (we_net V) (string_value (js_get msg ''sibling_host'')) a"
  shows "\<exists>s' resp'. parseAddSibling V Repl_Forwarders_Src ''addReplicationForwarderSrc'' body (s, resp) = Ret (s', resp') ()
    \<and> fwd_checkConnFromSibling (CA_V4 a port) (rf_replication s') \<noteq> None"
proof -
  obtain v' ok out where v: "addSibling_host (we_sib V) (we_net V) (string_value (js_get msg ''sibling_host'')) (uint defaultPort) NONE
      (flag_value (js_get msg ''send_sdb'')) (flag_value (js_get msg ''send_wlbl'')) (rf_peers Repl_Forwarders_Src s) = Ret v' (ok, out)"
    "\<exists>x \<in> set v'. rem x = CA_V4 a defaultPort"
    using source_added[OF assms(5)] by (metis prod.exhaust)
  have "d_repl_forwarders_src (rf_replication (put_peers Repl_Forwarders_Src v' s)) = v'" by (simp add: put_peers_def)
  then have acc: "fwd_checkConnFromSibling (CA_V4 a port) (rf_replication (put_peers Repl_Forwarders_Src v' s)) \<noteq> None" using v(2) accepts_rem by metis
  have "change_peers Repl_Forwarders_Src (addSibling_host (we_sib V) (we_net V) (string_value (js_get msg ''sibling_host'')) (uint defaultPort) NONE
      (flag_value (js_get msg ''send_sdb'')) (flag_value (js_get msg ''send_wlbl''))) s =
      (if ok then Ret (put_peers Repl_Forwarders_Src v' s) () else Exn (Wforce_Exception out) (put_peers Repl_Forwarders_Src v' s))"
    using v(1) by (simp add: change_peers_def)
  then show ?thesis using assms(1-4) acc by (simp add: parseAddSibling_def peer_cmd_def try_add_peer_def Let_def)
qed

lemma removed_source_is_refused:
  assumes "js_parse_c (we_json V) body = (msg, err)" "\<not> is_null msg" "\<not> is_null (js_get msg ''sibling_host'')"
    and "resolves_v4 (we_sib V) (we_net V) (string_value (js_get msg ''sibling_host'')) a"
    and d: "distinct_rems (rf_peers Repl_Forwarders_Src s)"
    and only: "\<forall>x \<in> set (rf_peers Repl_Forwarders_Src s). addressOnlyEqual (rem x) (CA_V4 a port) \<longrightarrow> rem x = CA_V4 a defaultPort"
    and none: "checkConnFromSibling (CA_V4 a port) (fwd_base (rf_replication s)) = None"
  shows "\<exists>s' resp'. parseRemoveSibling V Repl_Forwarders_Src ''removeReplicationForwarderSrc'' body (s, resp) = Ret (s', resp') ()
    \<and> fwd_checkConnFromSibling (CA_V4 a port) (rf_replication s') = None"
proof -
  let ?v = "rf_peers Repl_Forwarders_Src s"
  obtain address where ad: "createSiblingAddress (we_net V) (string_value (js_get msg ''sibling_host'')) (uint defaultPort) UDP = Inr address"
    "parseSiblingString (we_sib V) (we_net V) address = Inr (CA_V4 a defaultPort, UDP)" using source_address[OF assms(4)] by blast
  obtain v' r where rm: "remove_first (CA_V4 a defaultPort) ?v = (v', r)" by (cases "remove_first (CA_V4 a defaultPort) ?v")
  have v': "map rem v' = filter (\<lambda>x. x \<noteq> CA_V4 a defaultPort) (map rem ?v)" using remove_first_spec[OF rm d] by simp
  have "rem x \<in> set (map rem ?v) \<and> rem x \<noteq> CA_V4 a defaultPort" if "x \<in> set v'" for x
    using that arg_cong[OF v', of set] by auto
  then have "\<not> addressOnlyEqual (rem x) (CA_V4 a port)" if "x \<in> set v'" for x using only that by fastforce
  then have "find (\<lambda>f. addressOnlyEqual (rem f) (CA_V4 a port)) v' = None" by (simp add: find_None_iff)
  then have ref: "fwd_checkConnFromSibling (CA_V4 a port) (rf_replication (put_peers Repl_Forwarders_Src v' s)) = None"
    using none by (simp add: fwd_checkConnFromSibling_def put_peers_def)
  have "change_peers Repl_Forwarders_Src (removeSibling_host (we_sib V) (we_net V) (string_value (js_get msg ''sibling_host'')) (uint defaultPort)) s =
      (if r then Ret (put_peers Repl_Forwarders_Src v' s) () else Exn (Wforce_Exception []) (put_peers Repl_Forwarders_Src v' s))"
    using ad rm by (simp add: change_peers_def removeSibling_host_def removeSibling_def)
  then show ?thesis using assms(1-3) ref by (simp add: parseRemoveSibling_def peer_cmd_def try_remove_peer_def Let_def)
qed

section \<open>An instance\<close>

definition demo_forwarder :: replfwd where
  "demo_forwarder = \<lparr>rf_replication = demo_fwd True, rf_server = new_WforceWebserver, rf_sib = demo_sib, rf_outputBuffer = [], rf_launchWork = None,
     rf_launched = [], rf_listeners = [], rf_log = [], rf_counted = []\<rparr>"

theorem forwarder_commands_all_or_nothing_witness:
  "\<exists>s' resp'. final_state (parseSetSiblings demo_web Repl_Forwarders ''setReplicationForwarderDests'' demo_sib_body
       (demo_forwarder, \<lparr>resp_code = 200, resp_body = []\<rparr>)) = Some (s', resp')
     \<and> rf_peers Repl_Forwarders s' = [] \<and> rf_peers Repl_Forwarders demo_forwarder \<noteq> [] \<and> resp_body resp' = status_ok"
proof -
  let ?h = "parseSetSiblings demo_web Repl_Forwarders" and ?r = "\<lparr>resp_code = 200, resp_body = []\<rparr>"
  have some: "rf_peers Repl_Forwarders demo_forwarder \<noteq> []" by (simp add: demo_forwarder_def demo_fwd_def)
  have dist: "distinct_rems (rf_peers T demo_forwarder)" for T by (cases T) (simp_all add: demo_forwarder_def demo_fwd_def demo_repl_def distinct_rems_def)
  have reg: "(''setReplicationForwarderDests'', POST, True, ?h) \<in> set (fwd_commands demo_web)" by (simp add: fwd_commands_def)
  obtain s' resp' where f: "final_state (?h ''setReplicationForwarderDests'' demo_sib_body (demo_forwarder, ?r)) = Some (s', resp')"
    and v: "rf_peers Repl_Forwarders s' = []"
    by (simp add: parseSetSiblings_def peer_cmd_def try_set_peers_def change_peers_def setSiblingsWithKey_def demo_sib_request js_get_object Let_def put_peers_def)
  from forwarder_commands_all_or_nothing[OF reg _ f] have "resp' = \<lparr>resp_code = 200, resp_body = status_ok\<rparr>" using some v dist by metis
  then show ?thesis using f v some by auto
qed

end
