(* ===== verification/Fwd_Start.thy ===== *)
theory Fwd_Start
  imports Fwd_Web Start_Up
begin

text \<open>
  The configuration and the start of the replication forwarder (\<^verbatim>\<open>wforce/replfwd-lua.cc\<close>, \<^verbatim>\<open>main\<close> of \<^verbatim>\<open>wforce/replfwd.cc\<close>). The forwarder has a
  single Lua state, which reads the configuration file once; a run of the file is the sequence of calls it makes.
\<close>

section \<open>Functions of the configuration\<close>

definition rf_out :: "string \<Rightarrow> replfwd \<Rightarrow> replfwd" where
  "rf_out t s = s\<lparr>rf_outputBuffer := rf_outputBuffer s @ t\<rparr>"

definition on_peers :: "peer_vector \<Rightarrow> (Sibling list \<Rightarrow> (Sibling list, bool \<times> string) outcome) \<Rightarrow> replfwd \<Rightarrow> (replfwd, unit) outcome" where
  "on_peers T f s =
     obind (map_state (\<lambda>v. put_peers T v s) (f (rf_peers T s))) (\<lambda>s1 (ok, otext). Ret (rf_out otext s1) ())"

definition on_base :: "(WforceReplication \<Rightarrow> WforceReplication) \<Rightarrow> replfwd \<Rightarrow> replfwd" where
  "on_base f s = s\<lparr>rf_replication := (rf_replication s)\<lparr>fwd_base := f (fwd_base (rf_replication s))\<rparr>\<rparr>"

definition fwd_addACL :: "lua_env \<Rightarrow> string \<Rightarrow> replfwd \<Rightarrow> (replfwd, unit) outcome" where
  "fwd_addACL L t s = map_state (\<lambda>W. s\<lparr>rf_server := W\<rparr>) (addACL (le_net L) t (rf_server s))"

definition fwd_setACL :: "lua_env \<Rightarrow> string list \<Rightarrow> replfwd \<Rightarrow> (replfwd, unit) outcome" where
  "fwd_setACL L parts s =
     (case add_masks (le_net L) parts new_NetmaskGroup of
        Ret nmg _ \<Rightarrow> Ret (s\<lparr>rf_server := setACL nmg (rf_server s)\<rparr>) ()
      | Exn e _ \<Rightarrow> Exn e s
      | Undef \<Rightarrow> Undef)"

definition fwd_setKey :: "string \<Rightarrow> replfwd \<Rightarrow> (replfwd, unit) outcome" where
  "fwd_setKey key s =
     (case B64Decode key [] of
        Ret newkey ret \<Rightarrow>
          (if ret < 0 then let t = ''Unable to decode '' @ key @ '' as Base64'' in Ret (rf_line Error t (s\<lparr>rf_outputBuffer := t\<rparr>)) ()
           else Ret (on_base (setEncryptionKey newkey) s) ())
      | Exn e _ \<Rightarrow> Exn e s
      | Undef \<Rightarrow> Undef)"

definition fwd_removePeer :: "lua_env \<Rightarrow> peer_vector \<Rightarrow> string \<Rightarrow> replfwd \<Rightarrow> (replfwd, unit) outcome" where
  "fwd_removePeer L T address s =
     on_peers T (\<lambda>v. case removeSibling (rf_sib s) (le_net L) address v of (v', r) \<Rightarrow> Ret v' r) s"

definition fwd_addPeer :: "lua_env \<Rightarrow> peer_vector \<Rightarrow> string \<Rightarrow> bool \<Rightarrow> bool \<Rightarrow> replfwd \<Rightarrow> (replfwd, unit) outcome" where
  "fwd_addPeer L T address replicate_statsdb replicate_wlbl s =
     on_peers T (addSibling (rf_sib s) (le_net L) address replicate_statsdb replicate_wlbl) s"

definition fwd_addPeerWithKey :: "lua_env \<Rightarrow> peer_vector \<Rightarrow> string \<Rightarrow> string \<Rightarrow> bool \<Rightarrow> bool \<Rightarrow> replfwd \<Rightarrow> (replfwd, unit) outcome" where
  "fwd_addPeerWithKey L T address key replicate_statsdb replicate_wlbl s =
     on_peers T (addSiblingWithKey (rf_sib s) (le_net L) address key replicate_statsdb replicate_wlbl) s"

definition fwd_setPeersWithKey :: "lua_env \<Rightarrow> peer_vector \<Rightarrow> string list list \<Rightarrow> replfwd \<Rightarrow> (replfwd, unit) outcome" where
  "fwd_setPeersWithKey L T parts s = on_peers T (setSiblingsWithKey (rf_sib s) (le_net L) parts) s"

definition fwd_setSiblings :: "lua_env \<Rightarrow> string list \<Rightarrow> replfwd \<Rightarrow> (replfwd, unit) outcome" where
  "fwd_setSiblings L parts s = on_peers Own_Siblings (setSiblings (rf_sib s) (le_net L) parts) s"

text \<open>Sources are given without a port; the loop stops at the first one that has a colon.\<close>

fun without_colon :: "string list \<Rightarrow> string + string list" where
  "without_colon [] = Inr []"
| "without_colon (i # is) =
     (if CHR '':'' \<in> set i then Inl i
      else case without_colon is of Inl j \<Rightarrow> Inl j | Inr as \<Rightarrow> Inr ((i @ '':'' @ protocolToString NONE) # as))"

definition fwd_setSrcs :: "lua_env \<Rightarrow> string list \<Rightarrow> replfwd \<Rightarrow> (replfwd, unit) outcome" where
  "fwd_setSrcs L parts s =
     (case without_colon parts of
        Inl i \<Rightarrow> (let t = ''Host/Address must not contain any : chars ['' @ i @ '']'' in Ret (rf_line Error t (s\<lparr>rf_outputBuffer := t\<rparr>)) ())
      | Inr parts_proto_none \<Rightarrow> on_peers Repl_Forwarders_Src (setSiblings (rf_sib s) (le_net L) parts_proto_none) s)"

definition fwd_addSrc :: "lua_env \<Rightarrow> string \<Rightarrow> replfwd \<Rightarrow> (replfwd, unit) outcome" where
  "fwd_addSrc L address s =
     (case parseSiblingString (rf_sib s) (le_net L) address of
        Inl e \<Rightarrow> (case program_exn e of Some reason \<Rightarrow> Ret (rf_out reason (rf_line Error reason s)) () | None \<Rightarrow> Exn e s)
      | Inr (ca, p) \<Rightarrow>
          on_peers Repl_Forwarders_Src
            (\<lambda>v. case new_Sibling (rf_sib s) (le_net L) ca NONE [] 1000 5000 True True of
                   Inl e \<Rightarrow> Exn e v
                 | Inr sibling \<Rightarrow> (case addSibling_ptr (le_net L) sibling v of (v', r) \<Rightarrow> Ret v' r)) s)"

definition fwd_setMaxSiblingQueueSize :: "32 word \<Rightarrow> replfwd \<Rightarrow> replfwd" where
  "fwd_setMaxSiblingQueueSize sz s =
     (on_base (setMaxSiblingRecvQueueSize (unat sz)) s)\<lparr>rf_sib := setMaxSiblingSendQueueSize (unat sz) (rf_sib s)\<rparr>"

definition fwd_run_launch :: "launch \<Rightarrow> replfwd \<Rightarrow> replfwd" where
  "fwd_run_launch j s =
     (let s1 = s\<lparr>rf_launched := rf_launched s @ [j]\<rparr>
      in case j of
           Start_Sibling_Receivers ca \<Rightarrow> on_base (\<lambda>W. W\<lparr>d_siblings := map (checkIgnoreSelf (rf_sib s) ca) (d_siblings W)\<rparr>) s1
         | Start_Webserver \<Rightarrow> s1\<lparr>rf_server := ws_init (rf_server s1)\<rparr>
         | Start_Control ca \<Rightarrow> s1)"

definition fwd_launch :: "launch \<Rightarrow> replfwd \<Rightarrow> replfwd" where
  "fwd_launch j s = (case rf_launchWork s of Some l \<Rightarrow> s\<lparr>rf_launchWork := Some (l @ [j])\<rparr> | None \<Rightarrow> fwd_run_launch j s)"

definition fwd_siblingListener :: "lua_env \<Rightarrow> string \<Rightarrow> replfwd \<Rightarrow> replfwd" where
  "fwd_siblingListener L address s =
     (case new_ComboAddress (le_net L) address 4545 of
        Inl e \<Rightarrow>
          (let errstr = le_format L (''%s [%s]. %s (%s)'' @ nl)
                 [FStr ''siblingListener() error parsing address/port'', FStr address,
                  FStr ''Make sure to use IP addresses not hostnames'', FStr (exn_reason e)]
           in rf_out errstr (rf_line Error errstr s))
      | Inr ca \<Rightarrow> fwd_launch (Start_Sibling_Receivers ca) (s\<lparr>rf_sib := (rf_sib s)\<lparr>g_sibling_listen_addr := ca\<rparr>\<rparr>))"

definition fwd_webserver :: "lua_env \<Rightarrow> string \<Rightarrow> string \<Rightarrow> replfwd \<Rightarrow> replfwd" where
  "fwd_webserver L address password s =
     (let s1 = rf_line Warning ''Warning - webserver() configuration command is deprecated in favour of addListener() and will be removed in a future version'' s
      in case new_ComboAddress (le_net L) address 0 of
           Inl e \<Rightarrow> rf_line Error (''webserver() error parsing address/port '' @ bracketed address
                      @ ''. Make sure to use IP addresses not hostnames'') s1
         | Inr ca \<Rightarrow>
             (let ip = ca_toString (le_net L) ca
              in fwd_launch Start_Webserver
                   (rf_line Info (''Adding webserver listener on '' @ ip @ '':'' @ nat_to_string (unat (getPort ca)))
                     (s1\<lparr>rf_server := setBasicAuthPassword password (rf_server s1), rf_listeners := rf_listeners s1 @ [(ip, getPort ca)]\<rparr>))))"

definition fwd_check_file :: "lua_env \<Rightarrow> string \<Rightarrow> string \<Rightarrow> replfwd \<Rightarrow> replfwd \<times> bool" where
  "fwd_check_file L filetype filename s =
     (case le_file L filename of
        Regular \<Rightarrow> (s, True)
      | Other_File \<Rightarrow> (rf_line Error (''addListener() '' @ filetype @ '' file '' @ bracketed filename @ '' is not a regular file'') s, False)
      | Missing \<Rightarrow> (rf_line Error (''addListener() '' @ filetype @ '' file '' @ bracketed filename @ '' does not exist or cannot be read'') s, False))"

definition fwd_addListener :: "lua_env \<Rightarrow> string \<Rightarrow> bool \<Rightarrow> string \<Rightarrow> string \<Rightarrow> replfwd \<Rightarrow> replfwd" where
  "fwd_addListener L address useSSL cert_file key_file s =
     (case new_ComboAddress (le_net L) address 0 of
        Inl e \<Rightarrow> rf_line Error (''addListener() error parsing address/port '' @ bracketed address
                   @ ''. Make sure to use IP addresses not hostnames'') s
      | Inr ca \<Rightarrow>
          (case (if useSSL
                 then case fwd_check_file L ''certificate'' cert_file s of
                        (s1, True) \<Rightarrow> fwd_check_file L ''key'' key_file s1
                      | (s1, False) \<Rightarrow> (s1, False)
                 else (s, True)) of
             (s1, False) \<Rightarrow> s1
           | (s1, True) \<Rightarrow>
               (let ip = ca_toString (le_net L) ca
                in fwd_launch Start_Webserver
                     (rf_line Info (''Adding webserver listener on '' @ ip @ '':'' @ nat_to_string (unat (getPort ca))
                        @ '' with SSL='' @ bool_digit useSSL @ '', cert_file='' @ cert_file @ '', key_file='' @ key_file)
                       (s1\<lparr>rf_listeners := rf_listeners s1 @ [(ip, getPort ca)]\<rparr>)))))"

section \<open>Start\<close>

datatype fwd_call =
    Fwd_AddACL string | Fwd_SetACL "string list" | Fwd_SetKey string | Fwd_RemovePeer peer_vector string | Fwd_AddPeer peer_vector string bool bool
  | Fwd_AddPeerWithKey peer_vector string string bool bool | Fwd_SetPeersWithKey peer_vector "string list list" | Fwd_SetSiblings "string list"
  | Fwd_SetSrcs "string list" | Fwd_AddSrc string | Fwd_SetConnectTimeout int | Fwd_SetMaxQueueSize "32 word" | Fwd_SiblingListener string
  | Fwd_SetMetricsNoPassword | Fwd_Webserver string string | Fwd_AddListener string bool string string | Fwd_SetWebserverPassword string
  | Fwd_SetNumSiblingThreads int

fun fwd_exec :: "lua_env \<Rightarrow> fwd_call \<Rightarrow> replfwd \<Rightarrow> (replfwd, unit) outcome" where
  "fwd_exec L (Fwd_AddACL t) s = fwd_addACL L t s"
| "fwd_exec L (Fwd_SetACL parts) s = fwd_setACL L parts s"
| "fwd_exec L (Fwd_SetKey key) s = fwd_setKey key s"
| "fwd_exec L (Fwd_RemovePeer T address) s = fwd_removePeer L T address s"
| "fwd_exec L (Fwd_AddPeer T address x y) s = fwd_addPeer L T address x y s"
| "fwd_exec L (Fwd_AddPeerWithKey T address key x y) s = fwd_addPeerWithKey L T address key x y s"
| "fwd_exec L (Fwd_SetPeersWithKey T parts) s = fwd_setPeersWithKey L T parts s"
| "fwd_exec L (Fwd_SetSiblings parts) s = fwd_setSiblings L parts s"
| "fwd_exec L (Fwd_SetSrcs parts) s = fwd_setSrcs L parts s"
| "fwd_exec L (Fwd_AddSrc address) s = fwd_addSrc L address s"
| "fwd_exec L (Fwd_SetConnectTimeout timeout_ms) s = Ret (s\<lparr>rf_sib := setSiblingConnectTimeout timeout_ms (rf_sib s)\<rparr>) ()"
| "fwd_exec L (Fwd_SetMaxQueueSize sz) s = Ret (fwd_setMaxSiblingQueueSize sz s) ()"
| "fwd_exec L (Fwd_SiblingListener address) s = Ret (fwd_siblingListener L address s) ()"
| "fwd_exec L Fwd_SetMetricsNoPassword s = Ret (s\<lparr>rf_server := setMetricsNoPassword (rf_server s)\<rparr>) ()"
| "fwd_exec L (Fwd_Webserver address password) s = Ret (fwd_webserver L address password s) ()"
| "fwd_exec L (Fwd_AddListener address ssl cert key) s = Ret (fwd_addListener L address ssl cert key s) ()"
| "fwd_exec L (Fwd_SetWebserverPassword password) s = Ret (s\<lparr>rf_server := setBasicAuthPassword password (rf_server s)\<rparr>) ()"
| "fwd_exec L (Fwd_SetNumSiblingThreads n) s = Ret (on_base (\<lambda>W. W\<lparr>d_num_sibling_threads := word_of_int n\<rparr>) s) ()"

fun fwd_run :: "lua_env \<Rightarrow> fwd_call list \<Rightarrow> replfwd \<Rightarrow> (replfwd, unit) outcome" where
  "fwd_run L [] s = Ret s ()"
| "fwd_run L (k # ks) s = obind (fwd_exec L k s) (\<lambda>s1 _. fwd_run L ks s1)"

definition fwd_setupLua :: "lua_env \<Rightarrow> fwd_call list \<Rightarrow> replfwd \<Rightarrow> (replfwd, launch list) outcome" where
  "fwd_setupLua L calls s =
     obind (fwd_run L calls (s\<lparr>rf_launchWork := Some []\<rparr>))
       (\<lambda>s1 _. Ret (s1\<lparr>rf_launchWork := None\<rparr>) (case rf_launchWork s1 of Some l \<Rightarrow> l | None \<Rightarrow> []))"

definition fwd_start :: "lua_env \<Rightarrow> fwd_call list \<Rightarrow> replfwd \<Rightarrow> (replfwd, unit) outcome" where
  "fwd_start L calls s =
     (case add_masks (le_net L) default_ACL (getACL (rf_server s)) of
        Ret acl _ \<Rightarrow>
          obind (fwd_setupLua L calls (s\<lparr>rf_server := setACL acl (rf_server s)\<rparr>)) (\<lambda>s1 todo. Ret (fold fwd_run_launch todo s1) ())
      | Exn e _ \<Rightarrow> Exn e s
      | Undef \<Rightarrow> Undef)"

section \<open>The vectors of peers\<close>

definition peers_distinct :: "replfwd \<Rightarrow> bool" where
  "peers_distinct s \<longleftrightarrow> (\<forall>T. distinct_rems (rf_peers T s))"

lemma peers_rf_out [simp]: "rf_replication (rf_out t s) = rf_replication s"
  by (simp add: rf_out_def)

lemma peers_distinct_frame [simp]:
  "peers_distinct (s\<lparr>rf_server := a\<rparr>) = peers_distinct s" "peers_distinct (s\<lparr>rf_sib := b\<rparr>) = peers_distinct s"
  "peers_distinct (s\<lparr>rf_outputBuffer := t\<rparr>) = peers_distinct s" "peers_distinct (s\<lparr>rf_launchWork := w\<rparr>) = peers_distinct s"
  "peers_distinct (s\<lparr>rf_launched := l\<rparr>) = peers_distinct s" "peers_distinct (s\<lparr>rf_listeners := x\<rparr>) = peers_distinct s"
  "peers_distinct (rf_out t s) = peers_distinct s" "peers_distinct (rf_line lv t s) = peers_distinct s"
  by (simp_all add: peers_distinct_def)

lemma text_ops: "addSibling S N address x y = addSiblingWithKey S N address [] x y"
    "setSiblings S N parts = setSiblingsWithKey S N (map (\<lambda>a. [a, []]) parts)"
  by (rule ext, simp add: addSibling_def setSiblings_def)+

context vector_op
begin

lemma on_peers_distinct:
  assumes "final_state (on_peers T f s) = Some s'" and "peers_distinct s"
  shows "peers_distinct s'"
proof (cases "f (rf_peers T s)")
  case (Ret v r)
  obtain ok otext where r: "r = (ok, otext)" by (cases r)
  have "s' = rf_out otext (put_peers T v s)" using assms(1) Ret r by (simp add: on_peers_def)
  then show ?thesis using op_ret[of "rf_peers T s" v ok otext] Ret r assms(2) by (simp add: peers_distinct_def)
next
  case (Exn e v)
  then show ?thesis using assms op_exn[OF Exn] by (simp add: on_peers_def)
qed (use assms in \<open>simp add: on_peers_def\<close>)

end

interpretation op_add_text: vector_op "addSiblingWithKey S N address key a b"
  by unfold_locales (blast dest: addSiblingWithKey_exn addSiblingWithKey_op)+

interpretation op_remove_text: vector_op "\<lambda>v. case removeSibling S N address v of (v', r) \<Rightarrow> Ret v' r"
  by unfold_locales (auto simp: removeSibling_def dest: remove_first_none remove_first_distinct split: sum.splits prod.splits)

interpretation op_add_source: vector_op "\<lambda>v. case new_Sibling S N ca p [] timeout sz x y of
    Inl e \<Rightarrow> Exn e v | Inr sibling \<Rightarrow> (case addSibling_ptr N sibling v of (v', r) \<Rightarrow> Ret v' r)"
  by unfold_locales
    (auto simp: addSibling_ptr_def siblingAddressPortExists_def list_ex_iff distinct_rems_def split: sum.splits if_splits)

lemma base_distinct: "(\<And>W. map rem (d_siblings (f W)) = map rem (d_siblings W)) \<Longrightarrow> peers_distinct s \<Longrightarrow> peers_distinct (on_base f s)"
  unfolding peers_distinct_def
proof
  fix T
  assume "\<And>W. map rem (d_siblings (f W)) = map rem (d_siblings W)" "\<forall>T. distinct_rems (rf_peers T s)"
  then show "distinct_rems (rf_peers T (on_base f s))" by (cases T) (auto simp: on_base_def distinct_rems_def dest: spec[of _ T])
qed

lemma launch_distinct: "peers_distinct s \<Longrightarrow> peers_distinct (fwd_run_launch j s)" "peers_distinct s \<Longrightarrow> peers_distinct (fwd_launch j s)"
proof -
  have ign: "rem (checkIgnoreSelf S ca x) = rem x" for S ca x by (simp add: checkIgnoreSelf_def split: option.splits)
  show run: "peers_distinct (fwd_run_launch j s)" if "peers_distinct s" for s
  proof (cases j)
    case (Start_Sibling_Receivers ca)
    have "peers_distinct (s\<lparr>rf_launched := rf_launched s @ [j]\<rparr>)" using that by (simp add: peers_distinct_def)
    then show ?thesis unfolding fwd_run_launch_def Start_Sibling_Receivers Let_def launch.case
      by (rule base_distinct[rotated]) (simp add: ign comp_def)
  qed (use that in \<open>simp_all add: fwd_run_launch_def Let_def peers_distinct_def\<close>)
  show "peers_distinct s \<Longrightarrow> peers_distinct (fwd_launch j s)"
    using run[of s] by (auto simp: fwd_launch_def peers_distinct_def split: option.splits)
qed

lemma listener_distinct:
  assumes "peers_distinct s"
  shows "peers_distinct (fwd_addListener L x ssl cert key s)"
proof -
  have fl: "fwd_check_file L a b u = (u', ok) \<Longrightarrow> peers_distinct u' = peers_distinct u" for a b u u' ok
    by (auto simp: fwd_check_file_def split: file_kind.splits)
  obtain s1 ok where r: "(if ssl then case fwd_check_file L ''certificate'' cert s of
        (s1, True) \<Rightarrow> fwd_check_file L ''key'' key s1 | (s1, False) \<Rightarrow> (s1, False) else (s, True)) = (s1, ok)" by fastforce
  have "peers_distinct s1"
    using r fl assms by (cases "fwd_check_file L ''certificate'' cert s") (auto split: if_splits bool.splits)
  then show ?thesis using assms unfolding fwd_addListener_def r
    by (cases "new_ComboAddress (le_net L) x 0"; cases ok) (simp_all add: Let_def launch_distinct)
qed

lemma peer_calls_distinct:
  assumes d: "peers_distinct s"
  shows "final_state (fwd_removePeer L T x s) = Some s' \<Longrightarrow> peers_distinct s'"
    and "final_state (fwd_addPeer L T x a b s) = Some s' \<Longrightarrow> peers_distinct s'"
    and "final_state (fwd_addPeerWithKey L T x key a b s) = Some s' \<Longrightarrow> peers_distinct s'"
    and "final_state (fwd_setPeersWithKey L T pps s) = Some s' \<Longrightarrow> peers_distinct s'"
    and "final_state (fwd_setSiblings L ps s) = Some s' \<Longrightarrow> peers_distinct s'"
    and "final_state (fwd_setSrcs L ps s) = Some s' \<Longrightarrow> peers_distinct s'"
  using op_remove_text.on_peers_distinct[OF _ d] op_add_text.on_peers_distinct[OF _ d] op_set.on_peers_distinct[OF _ d] d
  by (simp_all add: fwd_removePeer_def fwd_addPeer_def fwd_addPeerWithKey_def fwd_setPeersWithKey_def fwd_setSiblings_def fwd_setSrcs_def text_ops
      Let_def split: sum.splits) (metis peers_distinct_frame(3,8))

lemma source_call_distinct:
  assumes "final_state (fwd_addSrc L x s) = Some s'" and d: "peers_distinct s"
  shows "peers_distinct s'"
proof (cases "parseSiblingString (rf_sib s) (le_net L) x")
  case (Inl e)
  then show ?thesis using assms by (cases "program_exn e") (auto simp: fwd_addSrc_def)
next
  case (Inr cp)
  then show ?thesis using assms(1) op_add_source.on_peers_distinct[OF _ d] by (cases cp) (simp add: fwd_addSrc_def)
qed

lemma settings_distinct:
  assumes d: "peers_distinct s"
  shows "final_state (fwd_addACL L x s) = Some s' \<Longrightarrow> peers_distinct s'" and "final_state (fwd_setACL L ps s) = Some s' \<Longrightarrow> peers_distinct s'"
    and "final_state (fwd_setKey key s) = Some s' \<Longrightarrow> peers_distinct s'" and "peers_distinct (fwd_setMaxSiblingQueueSize sz s)"
    and "peers_distinct (on_base (\<lambda>W. W\<lparr>d_num_sibling_threads := n\<rparr>) s)"
proof -
  note base = base_distinct[OF _ d]
  show "final_state (fwd_addACL L x s) = Some s' \<Longrightarrow> peers_distinct s'" using d by (auto simp: fwd_addACL_def)
  show "final_state (fwd_setACL L ps s) = Some s' \<Longrightarrow> peers_distinct s'" using d by (auto simp: fwd_setACL_def split: outcome.splits)
  show "final_state (fwd_setKey key s) = Some s' \<Longrightarrow> peers_distinct s'" using d base[of "setEncryptionKey newkey" for newkey]
    by (cases "B64Decode key []") (auto simp: fwd_setKey_def Let_def setEncryptionKey_def split: if_splits)
  have "peers_distinct (on_base (setMaxSiblingRecvQueueSize (unat sz)) s)" by (rule base) (simp add: setMaxSiblingRecvQueueSize_def)
  then show "peers_distinct (fwd_setMaxSiblingQueueSize sz s)" by (simp add: fwd_setMaxSiblingQueueSize_def)
  show "peers_distinct (on_base (\<lambda>W. W\<lparr>d_num_sibling_threads := n\<rparr>) s)" by (rule base) simp
qed

lemma launching_distinct:
  "peers_distinct s \<Longrightarrow> peers_distinct (fwd_siblingListener L x s)" "peers_distinct s \<Longrightarrow> peers_distinct (fwd_webserver L x y s)"
  by (cases "new_ComboAddress (le_net L) x 4545", simp_all add: fwd_siblingListener_def Let_def launch_distinct)
    (cases "new_ComboAddress (le_net L) x 0", simp_all add: fwd_webserver_def Let_def launch_distinct)

lemma fwd_exec_distinct:
  assumes "final_state (fwd_exec L k s) = Some s'" and d: "peers_distinct s"
  shows "peers_distinct s'"
  using assms(1) peer_calls_distinct[OF d] source_call_distinct[OF _ d] settings_distinct[OF d] launching_distinct[OF d] listener_distinct[OF d] d
  by (cases k) auto

lemma fwd_run_distinct: "final_state (fwd_run L calls s) = Some s' \<Longrightarrow> peers_distinct s \<Longrightarrow> peers_distinct s'"
proof (induction calls arbitrary: s)
  case (Cons k ks)
  then show ?case using fwd_exec_distinct[of L k s] by (cases "fwd_exec L k s") auto
qed simp

text \<open>However the forwarder is configured, it starts with distinct addresses in each of its vectors of peers.\<close>

lemma forwarder_starts_distinct:
  assumes "fwd_start L calls s = Ret s' ()" and "peers_distinct s"
  shows "peers_distinct s'"
proof -
  obtain acl s1 todo where s1: "fwd_setupLua L calls (s\<lparr>rf_server := setACL acl (rf_server s)\<rparr>) = Ret s1 todo" and s': "s' = fold fwd_run_launch todo s1"
    using assms(1) by (auto simp: fwd_start_def split: outcome.splits)
  have "peers_distinct s1"
    using s1 assms(2) fwd_run_distinct[of L calls "s\<lparr>rf_server := setACL acl (rf_server s), rf_launchWork := Some []\<rparr>"]
    by (auto simp: fwd_setupLua_def)
  then have "peers_distinct (fold fwd_run_launch todo s1)" by (induction todo arbitrary: s1) (auto intro: launch_distinct)
  then show ?thesis using s' by simp
qed

text \<open>An IPv6 address cannot be set as a source by the configuration.\<close>

lemma source_with_colon_is_refused:
  assumes "CHR '':'' \<in> set i" "i \<in> set parts" "fwd_setSrcs L parts s = Ret s' ()"
  shows "rf_replication s' = rf_replication s"
proof -
  have "\<exists>j. without_colon parts = Inl j" using assms(1,2) by (induction parts) (auto split: sum.splits)
  then show ?thesis using assms(3) by (auto simp: fwd_setSrcs_def Let_def)
qed

end
