(* ===== verification/Cron.thy ===== *)
theory Cron
  imports Wf_Prelude "HOL-Library.While_Combinator"
begin

text \<open>
  The times of scheduled background functions (\<^verbatim>\<open>ext/scheduler/Cron.h\<close>): reading a cron expression, and the loop that moves a
  broken-down time forward until it fits. \<^verbatim>\<open>localtime\<close> and \<^verbatim>\<open>mktime\<close> depend on the time zone the system is set to, so they are a parameter,
  \<open>Z\<close>; \<open>fixed_zone\<close> says what they do in a zone without daylight saving, by the calendar below. The clock counts seconds.
\<close>

section \<open>Broken-down time\<close>

record tm =
  tm_sec :: int
  tm_min :: int
  tm_hour :: int
  tm_mday :: int
  tm_mon :: int
  tm_year :: int
  tm_wday :: int
  tm_isdst :: int

record timelib =
  tl_localtime :: "int \<Rightarrow> tm"
  tl_mktime :: "tm \<Rightarrow> int"

text \<open>
  The date of a day counted from 1 March of the year 0: cycles of 400, 100, 4 and 1 years, then months of a year that begins in
  March, \<open>mp\<close> counting them from 0.
\<close>

definition march_split :: "int \<Rightarrow> int \<times> int" where
  "march_split z =
     (let r = z mod 146097; c = min 3 (r div 36524); r1 = r - 36524 * c; q = r1 div 1461; r2 = r1 mod 1461; y = min 3 (r2 div 365)
      in (400 * (z div 146097) + 100 * c + 4 * q + y, r2 - 365 * y))"

definition date_of_day :: "int \<Rightarrow> int \<times> int \<times> int" where
  "date_of_day n =
     (case march_split (n + 719468) of
        (y, doy) \<Rightarrow>
          (let mp = (5 * doy + 2) div 153; mon = (if mp < 10 then mp + 2 else mp - 10)
           in ((if mon < 2 then y + 1 else y), mon, doy - (153 * mp + 2) div 5 + 1)))"

definition day_of_date :: "int \<Rightarrow> int \<Rightarrow> int \<Rightarrow> int" where
  "day_of_date year mon mday =
     (let y = (if mon < 2 then year - 1 else year); mp = (if mon < 2 then mon + 10 else mon - 2)
      in 365 * y + y div 4 - y div 100 + y div 400 + (153 * mp + 2) div 5 + mday - 1 - 719468)"

definition tm_of :: "int \<Rightarrow> tm" where
  "tm_of x =
     (case date_of_day (x div 86400) of
        (y, m, d) \<Rightarrow>
          \<lparr>tm_sec = x mod 60, tm_min = x div 60 mod 60, tm_hour = x div 3600 mod 24, tm_mday = d, tm_mon = m, tm_year = y - 1900,
           tm_wday = (x div 86400 + 4) mod 7, tm_isdst = 0\<rparr>)"

definition secs_of :: "tm \<Rightarrow> int" where
  "secs_of t = 86400 * day_of_date (tm_year t + 1900) (tm_mon t) (tm_mday t) + 3600 * tm_hour t + 60 * tm_min t + tm_sec t"

text \<open>A zone that is \<open>off\<close> seconds ahead of UTC the whole year; \<^verbatim>\<open>mktime\<close> is asked about times that are not marked as summer time.\<close>

definition fixed_zone :: "int \<Rightarrow> timelib \<Rightarrow> bool" where
  "fixed_zone off Z \<longleftrightarrow>
     (\<forall>t. tl_localtime Z t = tm_of (t + off))
     \<and> (\<forall>t. 0 \<le> tm_mon t \<and> tm_mon t \<le> 11 \<and> tm_isdst t \<le> 0 \<longrightarrow> tl_mktime Z t = secs_of t - off)"

definition utc :: timelib where
  "utc = \<lparr>tl_localtime = tm_of, tl_mktime = secs_of\<rparr>"

lemma utc_fixed: "fixed_zone 0 utc"
  by (simp add: fixed_zone_def utc_def)

section \<open>Cron expressions\<close>

record Cron =
  minute :: int
  hour :: int
  day :: int
  month :: int
  day_of_week :: int

text \<open>Tokens of a string stream: the maximal runs without white space.\<close>

function tokens :: "string \<Rightarrow> string list" where
  "tokens s =
     (let t = dropWhile isspace_c s
      in if t = [] then [] else takeWhile (Not \<circ> isspace_c) t # tokens (dropWhile (Not \<circ> isspace_c) t))"
  by auto
termination
proof (relation "measure length")
  fix s t assume t: "t = dropWhile isspace_c s" "t \<noteq> []"
  then obtain c u where cu: "t = c # u" "\<not> isspace_c c" by (metis hd_dropWhile list.exhaust_sel)
  have "length (dropWhile (Not \<circ> isspace_c) u) \<le> length u" by (rule length_dropWhile_le)
  moreover have "length t \<le> length s" unfolding t by (rule length_dropWhile_le)
  ultimately show "(dropWhile (Not \<circ> isspace_c) t, s) \<in> measure length" using cu by simp
qed simp

declare tokens.simps [simp del]

definition verify_and_set :: "string \<Rightarrow> string \<Rightarrow> int \<Rightarrow> int \<Rightarrow> bool \<Rightarrow> exn + int" where
  "verify_and_set token expression lower_bound upper_bound adjust =
     (if token = ''*'' then Inr (- 1)
      else case stoi token of
             Inl e \<Rightarrow> Inl e
           | Inr f \<Rightarrow> (if f < lower_bound \<or> upper_bound < f then Inl (Runtime_Error (''cron out of range: '' @ expression))
                       else Inr (if adjust then f - 1 else f)))"

fun sum_bind :: "'e + 'a \<Rightarrow> ('a \<Rightarrow> 'e + 'b) \<Rightarrow> 'e + 'b" where
  "sum_bind (Inl e) f = Inl e"
| "sum_bind (Inr x) f = f x"

definition new_Cron :: "string \<Rightarrow> exn + Cron" where
  "new_Cron expression =
     (case tokens expression of
        [a, b, c, d, e] \<Rightarrow>
          sum_bind (verify_and_set a expression 0 59 False) (\<lambda>mi.
          sum_bind (verify_and_set b expression 0 23 False) (\<lambda>h.
          sum_bind (verify_and_set c expression 1 31 False) (\<lambda>dm.
          sum_bind (verify_and_set d expression 1 12 True) (\<lambda>mo.
          sum_bind (verify_and_set e expression 0 6 False) (\<lambda>w.
            Inr \<lparr>minute = mi, hour = h, day = dm, month = mo, day_of_week = w\<rparr>)))))
      | _ \<Rightarrow> Inl (Runtime_Error (''malformed cron string: '' @ expression)))"

definition tm_add :: "timelib \<Rightarrow> int \<Rightarrow> tm \<Rightarrow> tm" where
  "tm_add Z secs t = tl_localtime Z (tl_mktime Z t + secs)"

text \<open>One round of the loop; \<open>None\<close> is the \<^verbatim>\<open>break\<close>.\<close>

definition cron_advance :: "timelib \<Rightarrow> Cron \<Rightarrow> tm \<Rightarrow> tm option" where
  "cron_advance Z c next =
     (if month c \<noteq> - 1 \<and> tm_mon next \<noteq> month c
      then let moved = (if tm_mon next + 1 > 11 then next\<lparr>tm_mon := 0, tm_year := tm_year next + 1\<rparr> else next\<lparr>tm_mon := tm_mon next + 1\<rparr>)
           in Some (moved\<lparr>tm_mday := 1, tm_hour := 0, tm_min := 0\<rparr>)
      else if day c \<noteq> - 1 \<and> tm_mday next \<noteq> day c then Some ((tm_add Z 86400 next)\<lparr>tm_hour := 0, tm_min := 0\<rparr>)
      else if day_of_week c \<noteq> - 1 \<and> tm_wday next \<noteq> day_of_week c then Some ((tm_add Z 86400 next)\<lparr>tm_hour := 0, tm_min := 0\<rparr>)
      else if hour c \<noteq> - 1 \<and> tm_hour next \<noteq> hour c then Some ((tm_add Z 3600 next)\<lparr>tm_min := 0\<rparr>)
      else if minute c \<noteq> - 1 \<and> tm_min next \<noteq> minute c then Some (tm_add Z 60 next)
      else None)"

definition cron_loop :: "timelib \<Rightarrow> Cron \<Rightarrow> tm \<Rightarrow> tm option" where
  "cron_loop Z c = while_option (\<lambda>n. cron_advance Z c n \<noteq> None) (\<lambda>n. the (cron_advance Z c n))"

text \<open>\<open>None\<close> when the loop does not end.\<close>

definition cron_to_next :: "timelib \<Rightarrow> Cron \<Rightarrow> int \<Rightarrow> int option" where
  "cron_to_next Z c now = map_option (\<lambda>next. tl_mktime Z (next\<lparr>tm_isdst := - 1\<rparr>))
       (cron_loop Z c (tm_add Z 60 ((tl_localtime Z now)\<lparr>tm_sec := 0\<rparr>)))"

section \<open>The calendar\<close>

lemma march_split_range:
  assumes "march_split z = (y, doy)"
  shows "0 \<le> doy \<and> doy \<le> 365 \<and> z = 365 * y + y div 4 - y div 100 + y div 400 + doy"
proof -
  define e r where "e = z div 146097" and "r = z mod 146097"
  define c where "c = min 3 (r div 36524)"
  define r1 where "r1 = r - 36524 * c"
  define q r2 where "q = r1 div 1461" and "r2 = r1 mod 1461"
  define k where "k = min 3 (r2 div 365)"
  have r: "0 \<le> r" "r < 146097" "z = 146097 * e + r" by (auto simp: e_def r_def)
  have c: "0 \<le> c" "c \<le> 3" "0 \<le> r1" "r1 \<le> 36524" using r(1,2) by (auto simp: c_def r1_def min_def split: if_splits)
  have q: "0 \<le> q" "q \<le> 24" "r1 = 1461 * q + r2" "0 \<le> r2" "r2 < 1461" using c(3,4) by (auto simp: q_def r2_def)
  have k: "0 \<le> k" "k \<le> 3" "0 \<le> r2 - 365 * k" "r2 - 365 * k \<le> 365" using q(4,5) by (auto simp: k_def min_def split: if_splits)
  have yd: "y = 400 * e + 100 * c + 4 * q + k" "doy = r2 - 365 * k"
    using assms by (simp_all add: march_split_def Let_def e_def r_def c_def r1_def q_def r2_def k_def)
  have "y div 4 = 100 * e + 25 * c + q" by (rule int_div_pos_eq[where r = k]) (use k yd in simp_all)
  moreover have "y div 100 = 4 * e + c" by (rule int_div_pos_eq[where r = "4 * q + k"]) (use q k yd in simp_all)
  moreover have "y div 400 = e" by (rule int_div_pos_eq[where r = "100 * c + 4 * q + k"]) (use c q k yd in simp_all)
  ultimately show ?thesis using r(3) q(3) k(3,4) yd by (simp add: r1_def)
qed

lemma month_split:
  fixes doy :: int
  assumes "0 \<le> doy" "doy \<le> 365"
  shows "0 \<le> (5 * doy + 2) div 153 \<and> (5 * doy + 2) div 153 \<le> 11"
  using assms zdiv_mono1[of "5 * doy + 2" 1827 153] by (simp add: pos_imp_zdiv_nonneg_iff)

lemma day_of_date_of_day: "date_of_day n = (y, m, d) \<Longrightarrow> day_of_date y m d = n"
proof -
  assume a: "date_of_day n = (y, m, d)"
  obtain y0 doy where s: "march_split (n + 719468) = (y0, doy)" by fastforce
  note r = march_split_range[OF s]
  define mp where "mp = (5 * doy + 2) div 153"
  have mp: "0 \<le> mp" "mp \<le> 11" using r month_split unfolding mp_def by blast+
  have "m = (if mp < 10 then mp + 2 else mp - 10)" "y = (if m < 2 then y0 + 1 else y0)" "d = doy - (153 * mp + 2) div 5 + 1"
    using a s by (auto simp: date_of_day_def Let_def mp_def)
  then show ?thesis using r mp by (auto simp: day_of_date_def Let_def)
qed

lemma secs_tm_of: "secs_of (tm_of x) = x"
proof -
  obtain y m d where a: "date_of_day (x div 86400) = (y, m, d)" by (metis prod_cases3)
  define mi h where "mi = x div 60" and "h = mi div 60"
  have hd: "x div 3600 = h" "x div 86400 = h div 24" using zdiv_zmult2_eq[of 60 x 60] zdiv_zmult2_eq[of 24 x 3600] zdiv_zmult2_eq[of 24 "x div 3600" 1]
    by (simp_all add: mi_def h_def)
  have "x = 60 * mi + x mod 60" "mi = 60 * h + mi mod 60" "h = 24 * (h div 24) + h mod 24" by (simp_all add: mi_def h_def)
  then have "x = 86400 * (x div 86400) + 3600 * (x div 3600 mod 24) + 60 * (x div 60 mod 60) + x mod 60"
    unfolding hd mi_def[symmetric] by linarith
  then show ?thesis using day_of_date_of_day[OF a] by (simp add: secs_of_def tm_of_def a)
qed

text \<open>The longest each month can be.\<close>

definition longest :: "int \<Rightarrow> int" where
  "longest mon = (if mon = 1 then 29 else if mon \<in> {3, 5, 8, 10} then 30 else 31)"

lemma date_of_day_range: "date_of_day n = (y, m, d) \<Longrightarrow> 0 \<le> m \<and> m \<le> 11 \<and> 1 \<le> d \<and> d \<le> longest m"
proof -
  assume a: "date_of_day n = (y, m, d)"
  obtain y0 doy where s: "march_split (n + 719468) = (y0, doy)" by fastforce
  note r = march_split_range[OF s]
  define mp where "mp = (5 * doy + 2) div 153"
  have mp: "0 \<le> mp" "mp \<le> 11" using r month_split unfolding mp_def by blast+
  have md: "m = (if mp < 10 then mp + 2 else mp - 10)" "d = doy - (153 * mp + 2) div 5 + 1"
    using a s by (auto simp: date_of_day_def Let_def mp_def)
  have b: "153 * mp \<le> 5 * doy + 2" "5 * doy + 2 < 153 * mp + 153" unfolding mp_def by simp_all
  have "mp \<in> {0,1,2,3,4,5,6,7,8,9,10,11}" using mp by (simp only: insert_iff empty_iff) presburger
  then show ?thesis using md b r by (auto simp: longest_def)
qed

section \<open>The next time an expression fits\<close>

definition cron_matches :: "Cron \<Rightarrow> tm \<Rightarrow> bool" where
  "cron_matches c t \<longleftrightarrow>
     (month c = - 1 \<or> tm_mon t = month c) \<and> (day c = - 1 \<or> tm_mday t = day c) \<and> (day_of_week c = - 1 \<or> tm_wday t = day_of_week c)
     \<and> (hour c = - 1 \<or> tm_hour t = hour c) \<and> (minute c = - 1 \<or> tm_min t = minute c)"

definition fits_at :: "int \<Rightarrow> Cron \<Rightarrow> int \<Rightarrow> bool" where
  "fits_at off c t \<longleftrightarrow> (t + off) mod 60 = 0 \<and> cron_matches c (tm_of (t + off))"

lemma cron_advance_None: "cron_advance Z c n = None \<longleftrightarrow> cron_matches c n"
  by (auto simp: cron_advance_def cron_matches_def Let_def)

lemma tm_of_fields [simp]:
  "tm_sec (tm_of x) = x mod 60" "tm_min (tm_of x) = x div 60 mod 60" "tm_hour (tm_of x) = x div 3600 mod 24"
  "tm_mday (tm_of x) = snd (snd (date_of_day (x div 86400)))" "tm_mon (tm_of x) = fst (snd (date_of_day (x div 86400)))"
  "tm_wday (tm_of x) = (x div 86400 + 4) mod 7"
  by (simp_all add: tm_of_def split: prod.split)

text \<open>Where the rounds lead: to the beginning of the next day, hour or minute.\<close>

lemma same_quotient:
  fixes x u k :: int
  assumes "0 < k" "x \<le> u" "u < k * (x div k + 1)"
  shows "u div k = x div k"
proof (rule int_div_pos_eq)
  have "k * (x div k) \<le> x" using assms(1) by (simp add: minus_mod_eq_mult_div[symmetric])
  then show "0 \<le> u - k * (x div k)" using assms(2) by simp
  show "u - k * (x div k) < k" using assms(3) by (simp add: algebra_simps)
qed simp

lemma below_next: "0 < k \<Longrightarrow> x < k * (x div k + 1)" for x k :: int
  using pos_mod_bound[of k x] mult_div_mod_eq[of k x] unfolding distrib_left by linarith

lemma whole_day: "86400 * q div 3600 mod 24 = 0" "86400 * q div 60 mod 60 = 0" "86400 * q mod 60 = 0" for q :: int
proof -
  have "86400 * q = 3600 * (24 * q)" "86400 * q = 60 * (60 * (24 * q))" by simp_all
  then show "86400 * q div 3600 mod 24 = 0" "86400 * q div 60 mod 60 = 0" "86400 * q mod 60 = 0"
    by (metis mod_mult_self1_is_0 nonzero_mult_div_cancel_left zero_neq_numeral)+
qed

lemma whole_hour: "3600 * q div 60 mod 60 = 0" "3600 * q mod 60 = 0" for q :: int
proof -
  have "3600 * q = 60 * (60 * q)" by simp
  then show "3600 * q div 60 mod 60 = 0" "3600 * q mod 60 = 0"
    by (metis mod_mult_self1_is_0 nonzero_mult_div_cancel_left zero_neq_numeral)+
qed

lemma day_of_hour: "x div 86400 = x div 3600 div 24" for x :: int
  using zdiv_zmult2_eq[of 24 x 3600] by simp

lemma tm_of_range: "0 \<le> tm_mon (tm_of x)" "tm_mon (tm_of x) \<le> 11" "tm_isdst (tm_of x) = 0"
  using date_of_day_range[of "x div 86400"] by (auto simp: tm_of_def split: prod.split)

lemma mktime_tm_of:
  assumes "fixed_zone off Z"
  shows "tl_mktime Z (tm_of x) = x - off" "tl_mktime Z ((tm_of x)\<lparr>tm_isdst := - 1\<rparr>) = x - off"
    "tl_mktime Z ((tm_of x)\<lparr>tm_sec := 0\<rparr>) = x - x mod 60 - off"
proof -
  have "secs_of ((tm_of x)\<lparr>tm_isdst := - 1\<rparr>) = secs_of (tm_of x)" "secs_of ((tm_of x)\<lparr>tm_sec := 0\<rparr>) = x - x mod 60"
    using secs_tm_of[of x] by (simp_all add: secs_of_def)
  then show "tl_mktime Z (tm_of x) = x - off" "tl_mktime Z ((tm_of x)\<lparr>tm_isdst := - 1\<rparr>) = x - off"
      "tl_mktime Z ((tm_of x)\<lparr>tm_sec := 0\<rparr>) = x - x mod 60 - off"
    using assms tm_of_range[of x] by (simp_all add: fixed_zone_def secs_tm_of del: tm_of_fields)
qed

lemma tm_add_tm_of: "fixed_zone off Z \<Longrightarrow> tm_add Z k (tm_of x) = tm_of (x + k)"
  by (simp add: tm_add_def mktime_tm_of) (simp add: fixed_zone_def)

text \<open>The hour of the epoch determines all but minutes and seconds.\<close>

definition tm_at :: "int \<Rightarrow> int \<Rightarrow> int \<Rightarrow> tm" where
  "tm_at h mi sec =
     (case date_of_day (h div 24) of
        (y, m, d) \<Rightarrow> \<lparr>tm_sec = sec, tm_min = mi, tm_hour = h mod 24, tm_mday = d, tm_mon = m, tm_year = y - 1900, tm_wday = (h div 24 + 4) mod 7, tm_isdst = 0\<rparr>)"

lemma tm_of_at: "tm_of x = tm_at (x div 3600) (x div 60 mod 60) (x mod 60)"
  unfolding tm_of_def tm_at_def day_of_hour ..

lemma tm_at_min: "(tm_at h mi sec)\<lparr>tm_min := k\<rparr> = tm_at h k sec"
  by (cases "date_of_day (h div 24)") (simp add: tm_at_def)

lemma tm_at_day: "(tm_at (h + 24) mi sec)\<lparr>tm_hour := 0, tm_min := k\<rparr> = tm_at (24 * (h div 24 + 1)) k sec"
proof -
  have "(h + 24) div 24 = h div 24 + 1" "24 * (h div 24 + 1) div 24 = h div 24 + 1" "24 * (h div 24 + 1) mod 24 = 0" by simp_all
  then show ?thesis by (cases "date_of_day (h div 24 + 1)") (simp only: tm_at_def prod.case tm.simps)
qed

lemma next_day:
  assumes "x mod 60 = 0" "fixed_zone off Z"
  shows "(tm_add Z 86400 (tm_of x))\<lparr>tm_hour := 0, tm_min := 0\<rparr> = tm_of (86400 * (x div 86400 + 1))"
proof -
  have "(x + 86400) div 3600 = x div 3600 + 24" "(x + 86400) mod 60 = 0"
    using assms mod_mult_self2[of x 60 1440] div_mult_self1[of 3600 x 24] by simp_all
  moreover have "86400 * (x div 86400 + 1) div 3600 = 24 * (x div 3600 div 24 + 1)"
    using nonzero_mult_div_cancel_left[of 3600 "24 * (x div 3600 div 24 + 1)"] unfolding day_of_hour by simp
  ultimately show ?thesis unfolding tm_add_tm_of[OF assms(2)] tm_of_at[of "x + 86400"] tm_of_at[of "86400 * (x div 86400 + 1)"] whole_day
    by (simp only: tm_at_day)
qed

lemma next_hour:
  assumes "x mod 60 = 0" "fixed_zone off Z"
  shows "(tm_add Z 3600 (tm_of x))\<lparr>tm_min := 0\<rparr> = tm_of (3600 * (x div 3600 + 1))"
proof -
  have "(x + 3600) div 3600 = x div 3600 + 1" "(x + 3600) mod 60 = 0" "3600 * (x div 3600 + 1) div 3600 = x div 3600 + 1"
    using assms mod_mult_self2[of x 60 60] by simp_all
  then show ?thesis unfolding tm_add_tm_of[OF assms(2)] tm_of_at[of "x + 3600"] tm_of_at[of "3600 * (x div 3600 + 1)"] whole_hour
    by (simp only: tm_at_min)
qed

text \<open>Without a month, a round skips only times that do not fit.\<close>

lemma advance_skips:
  assumes Z: "fixed_zone off Z" and "month c = - 1" "x mod 60 = 0" "\<not> cron_matches c (tm_of x)"
  obtains x' where "cron_advance Z c (tm_of x) = Some (tm_of x')" "x < x'" "x' mod 60 = 0"
    "\<And>u. x \<le> u \<Longrightarrow> u < x' \<Longrightarrow> u mod 60 = 0 \<Longrightarrow> \<not> cron_matches c (tm_of u)"
proof -
  let ?D = "day c \<noteq> - 1 \<and> tm_mday (tm_of x) \<noteq> day c \<or> day_of_week c \<noteq> - 1 \<and> tm_wday (tm_of x) \<noteq> day_of_week c"
    and ?H = "hour c \<noteq> - 1 \<and> tm_hour (tm_of x) \<noteq> hour c"
  consider (day) ?D | (hour) "\<not> ?D" ?H | (minute) "\<not> ?D" "\<not> ?H" "minute c \<noteq> - 1" "tm_min (tm_of x) \<noteq> minute c"
    using assms(2,4) unfolding cron_matches_def by blast
  then show ?thesis
  proof cases
    case day
    show ?thesis
    proof (rule that)
      show "cron_advance Z c (tm_of x) = Some (tm_of (86400 * (x div 86400 + 1)))"
        using day assms(2) by (auto simp: cron_advance_def next_day[OF assms(3) Z] simp del: tm_of_fields)
      fix u assume "x \<le> u" "u < 86400 * (x div 86400 + 1)"
      then have "u div 86400 = x div 86400" by (intro same_quotient) simp_all
      then show "\<not> cron_matches c (tm_of u)" using day by (auto simp: cron_matches_def)
    qed (simp_all add: below_next whole_day)
  next
    case hour
    show ?thesis
    proof (rule that)
      show "cron_advance Z c (tm_of x) = Some (tm_of (3600 * (x div 3600 + 1)))"
        using hour assms(2) by (auto simp: cron_advance_def next_hour[OF assms(3) Z] simp del: tm_of_fields)
      fix u assume "x \<le> u" "u < 3600 * (x div 3600 + 1)"
      then have "u div 3600 = x div 3600" by (intro same_quotient) simp_all
      then show "\<not> cron_matches c (tm_of u)" using hour by (auto simp: cron_matches_def)
    qed (simp_all add: below_next whole_hour)
  next
    case minute
    show ?thesis
    proof (rule that)
      show "cron_advance Z c (tm_of x) = Some (tm_of (x + 60))"
        using minute assms(2) by (auto simp: cron_advance_def tm_add_tm_of[OF Z] simp del: tm_of_fields)
      fix u assume u: "x \<le> u" "u < x + 60" "u mod 60 = 0"
      then have "u = x" using assms(3) mod_eq_dvd_iff[of u 60 x] zdvd_not_zless[of "u - x" 60] by force
      then show "\<not> cron_matches c (tm_of u)" using assms(4) by simp
    qed (use assms(3) in simp_all)
  qed
qed

definition skipped :: "Cron \<Rightarrow> int \<Rightarrow> int \<Rightarrow> bool" where
  "skipped c x y \<longleftrightarrow> x \<le> y \<and> y mod 60 = 0 \<and> (\<forall>u. x \<le> u \<longrightarrow> u < y \<longrightarrow> u mod 60 = 0 \<longrightarrow> \<not> cron_matches c (tm_of u))"

lemma skipped_trans:
  assumes "skipped c x y" "y < z" "z mod 60 = 0" "\<And>u. y \<le> u \<Longrightarrow> u < z \<Longrightarrow> u mod 60 = 0 \<Longrightarrow> \<not> cron_matches c (tm_of u)"
  shows "skipped c x z"
  unfolding skipped_def
proof (intro conjI allI impI)
  fix u assume "x \<le> u" "u < z" "u mod 60 = 0"
  then show "\<not> cron_matches c (tm_of u)" using assms(1,4) unfolding skipped_def by (cases "u < y") auto
qed (use assms in \<open>auto simp: skipped_def\<close>)

lemma loop_finds:
  assumes Z: "fixed_zone off Z" and "month c = - 1" "x mod 60 = 0" "cron_loop Z c (tm_of x) = Some n"
  shows "\<exists>y. n = tm_of y \<and> skipped c x y \<and> cron_matches c (tm_of y)"
proof -
  have "\<exists>y. n = tm_of y \<and> skipped c x y"
  proof (rule while_option_rule[where P = "\<lambda>n. \<exists>y. n = tm_of y \<and> skipped c x y", OF _ assms(4)[unfolded cron_loop_def]])
    show "\<exists>y. tm_of x = tm_of y \<and> skipped c x y" using assms(3) by (auto simp: skipped_def)
    fix n assume "\<exists>y. n = tm_of y \<and> skipped c x y" and b: "cron_advance Z c n \<noteq> None"
    then obtain y where y: "n = tm_of y" "skipped c x y" by blast
    have ny: "y mod 60 = 0" "\<not> cron_matches c (tm_of y)" using y b by (simp_all add: skipped_def cron_advance_None)
    obtain y' where "cron_advance Z c (tm_of y) = Some (tm_of y')" "y < y'" "y' mod 60 = 0"
        "\<And>u. y \<le> u \<Longrightarrow> u < y' \<Longrightarrow> u mod 60 = 0 \<Longrightarrow> \<not> cron_matches c (tm_of u)"
      by (rule advance_skips[OF Z assms(2) ny]) (rule that)
    then have "the (cron_advance Z c n) = tm_of y'" "skipped c x y'" using y skipped_trans by auto
    then show "\<exists>y. the (cron_advance Z c n) = tm_of y \<and> skipped c x y" by blast
  qed
  moreover have "cron_matches c n" using while_option_stop[OF assms(4)[unfolded cron_loop_def]] by (simp add: cron_advance_None)
  ultimately show ?thesis by blast
qed

lemma loop_ends:
  assumes Z: "fixed_zone off Z" and "month c = - 1" "x mod 60 = 0" "x \<le> z" "z mod 60 = 0" "cron_matches c (tm_of z)"
  shows "\<exists>n. cron_loop Z c (tm_of x) = Some n"
  unfolding cron_loop_def
proof (rule measure_while_option_Some[where P = "\<lambda>n. \<exists>y \<le> z. n = tm_of y \<and> y mod 60 = 0" and f = "\<lambda>n. nat (z - secs_of n)"])
  show "\<exists>y \<le> z. tm_of x = tm_of y \<and> y mod 60 = 0" using assms(3,4) by (intro exI[of _ x]) simp
  fix n assume "\<exists>y \<le> z. n = tm_of y \<and> y mod 60 = 0" and b: "cron_advance Z c n \<noteq> None"
  then obtain y where y: "n = tm_of y" "y \<le> z" "y mod 60 = 0" by (elim exE conjE) (rule that)
  have ny: "\<not> cron_matches c (tm_of y)" using y b by (simp add: cron_advance_None)
  obtain y' where y': "cron_advance Z c (tm_of y) = Some (tm_of y')" "y < y'" "y' mod 60 = 0"
      "\<And>u. y \<le> u \<Longrightarrow> u < y' \<Longrightarrow> u mod 60 = 0 \<Longrightarrow> \<not> cron_matches c (tm_of u)"
    by (rule advance_skips[OF Z assms(2) y(3) ny]) (rule that)
  have yz: "y' \<le> z"
  proof (rule ccontr)
    assume "\<not> y' \<le> z"
    then show False using y'(4)[of z] y(2) assms(5,6) by simp
  qed
  have eq: "the (cron_advance Z c n) = tm_of y'" using y(1) y'(1) by simp
  show "(\<exists>y \<le> z. the (cron_advance Z c n) = tm_of y \<and> y mod 60 = 0) \<and> nat (z - secs_of (the (cron_advance Z c n))) < nat (z - secs_of n)"
    unfolding eq unfolding y(1) secs_tm_of using y'(2,3) yz by (intro conjI exI[of _ y']) simp_all
qed

text \<open>The first second of the next minute.\<close>

definition next_minute :: "int \<Rightarrow> int" where "next_minute x = 60 * (x div 60 + 1)"

lemma loop_start:
  assumes "fixed_zone off Z"
  shows "tm_add Z 60 ((tl_localtime Z now)\<lparr>tm_sec := 0\<rparr>) = tm_of (next_minute (now + off))"
proof -
  have l: "tl_localtime Z t = tm_of (t + off)" for t using assms by (simp add: fixed_zone_def)
  show ?thesis unfolding tm_add_def l mktime_tm_of(3)[OF assms] by (simp add: next_minute_def minus_mod_eq_mult_div algebra_simps)
qed

lemma after_next_minute: "u mod 60 = 0 \<Longrightarrow> next_minute x \<le> u \<longleftrightarrow> x < u" for u :: int
proof -
  assume "u mod 60 = 0"
  then obtain k where k: "u = 60 * k" by (auto simp: mod_eq_0_iff_dvd dvd_def)
  define q where "q = x div 60"
  have q: "60 * q \<le> x" "x < 60 * q + 60" by (simp_all add: q_def)
  have "q < k" if "x < 60 * k" using that q(1) by linarith
  moreover have "x < 60 * k" if "q < k" using that q(2) by linarith
  ultimately show ?thesis unfolding next_minute_def k q_def[symmetric] by (metis add1_zle_eq mult_le_cancel_left_pos zero_less_numeral)
qed

definition first_fit :: "int \<Rightarrow> Cron \<Rightarrow> int \<Rightarrow> int \<Rightarrow> bool" where
  "first_fit off c now t \<longleftrightarrow> now < t \<and> fits_at off c t \<and> (\<forall>u. now < u \<and> u < t \<longrightarrow> \<not> fits_at off c u)"

lemma first_fit_unique: "first_fit off c now t \<Longrightarrow> first_fit off c now u \<Longrightarrow> t = u"
  unfolding first_fit_def by (metis less_linear)

lemma skipped_first_fit:
  assumes "skipped c (next_minute (now + off)) y" "cron_matches c (tm_of y)"
  shows "first_fit off c now (y - off)"
proof -
  have "fits_at off c u \<Longrightarrow> now < u \<Longrightarrow> u < y - off \<Longrightarrow> False" for u
    using assms(1) after_next_minute[of "u + off" "now + off"] by (auto simp: skipped_def fits_at_def)
  moreover have "now < y - off" using assms(1) after_next_minute[of y "now + off"] by (simp add: skipped_def)
  moreover have "fits_at off c (y - off)" using assms by (simp add: fits_at_def skipped_def)
  ultimately show ?thesis unfolding first_fit_def by blast
qed

text \<open>
  C37. In a time zone without daylight saving, a cron expression that names no month is due at the first whole minute after the present at
  which its other fields fit, and the loop that looks for it ends exactly when there is such a minute.
\<close>

theorem cron_finds_the_first_fit:
  assumes Z: "fixed_zone off Z" and m: "month c = - 1"
  shows "(\<forall>t. cron_to_next Z c now = Some t \<longleftrightarrow> first_fit off c now t)
    \<and> (cron_to_next Z c now = None \<longleftrightarrow> (\<nexists>t. now < t \<and> fits_at off c t))"
proof -
  let ?x = "next_minute (now + off)"
  have x: "?x mod 60 = 0" by (simp add: next_minute_def)
  have some: "first_fit off c now s" if ret: "cron_to_next Z c now = Some s" for s
  proof -
    obtain n where n: "cron_loop Z c (tm_of ?x) = Some n" "s = tl_mktime Z (n\<lparr>tm_isdst := - 1\<rparr>)"
      using ret by (auto simp: cron_to_next_def loop_start[OF Z])
    obtain y where "n = tm_of y" "skipped c ?x y" "cron_matches c (tm_of y)" using loop_finds[OF Z m x n(1)] by blast
    then show ?thesis using skipped_first_fit n(2) mktime_tm_of(2)[OF Z] by auto
  qed
  have ends: "\<exists>s. cron_to_next Z c now = Some s" if "now < u" "fits_at off c u" for u
    using loop_ends[OF Z m x, of "u + off"] that after_next_minute[of "u + off" "now + off"]
    unfolding cron_to_next_def loop_start[OF Z] fits_at_def by auto
  have "cron_to_next Z c now = Some t \<longleftrightarrow> first_fit off c now t" for t
    using some ends first_fit_unique unfolding first_fit_def[of off c now t] by (metis first_fit_def)
  moreover have "cron_to_next Z c now = None \<longleftrightarrow> (\<nexists>t. now < t \<and> fits_at off c t)"
    using some ends unfolding first_fit_def by (metis not_None_eq)
  ultimately show ?thesis by blast
qed

lemmas cron_evaluate = cron_to_next_def cron_loop_def while_option_unfold cron_advance_def tm_add_def utc_def tm_of_def
  secs_of_def date_of_day_def day_of_date_def march_split_def Let_def

lemma cron_expression_read:
  "new_Cron '' 2 1  * * *'' = Inr \<lparr>minute = 2, hour = 1, day = - 1, month = - 1, day_of_week = - 1\<rparr>"
  by code_simp

theorem cron_finds_the_first_fit_witness:
  "new_Cron '' 2 1  * * *'' = Inr \<lparr>minute = 2, hour = 1, day = - 1, month = - 1, day_of_week = - 1\<rparr>
   \<and> first_fit 0 \<lparr>minute = 2, hour = 1, day = - 1, month = - 1, day_of_week = - 1\<rparr> 1705276800 1705280520"
proof -
  let ?c = "\<lparr>minute = 2, hour = 1, day = - 1, month = - 1, day_of_week = - 1\<rparr>"
  have "cron_to_next utc ?c 1705276800 = Some 1705280520" by (simp add: cron_evaluate)
  then show ?thesis using cron_finds_the_first_fit[OF utc_fixed, of ?c 1705276800] cron_expression_read by simp
qed

section \<open>Expressions with a month\<close>

text \<open>
  Going to the next month leaves the day of the week as it was: the Mondays of February are due on Thursday, 1 February 2024, when asked
  for on Monday, 15 January.
\<close>

lemma month_keeps_old_weekday:
  "cron_to_next utc \<lparr>minute = 0, hour = 0, day = - 1, month = 1, day_of_week = 1\<rparr> 1705276800 = Some 1706745600"
  "tm_wday (tl_localtime utc 1706745600) = 4"
  by (simp_all add: cron_evaluate)

text \<open>A date that no year has is looked for without end, in every zone whose local times are dates of the calendar.\<close>

definition calendar_tm :: "tm \<Rightarrow> bool" where
  "calendar_tm t \<longleftrightarrow> 1 \<le> tm_mday t \<and> tm_mday t \<le> longest (tm_mon t)"

definition calendar_zone :: "timelib \<Rightarrow> bool" where
  "calendar_zone Z \<longleftrightarrow> (\<forall>t. calendar_tm (tl_localtime Z t))"

lemma calendar_tm_of: "calendar_tm (tm_of x)"
  using date_of_day_range[of "x div 86400"] by (simp add: calendar_tm_def split: prod.split) (metis prod.collapse)

lemma fixed_calendar: "fixed_zone off Z \<Longrightarrow> calendar_zone Z"
  by (simp add: calendar_zone_def fixed_zone_def calendar_tm_of)

lemma calendar_updates [simp]:
  "calendar_tm (t\<lparr>tm_hour := h\<rparr>) = calendar_tm t" "calendar_tm (t\<lparr>tm_min := m\<rparr>) = calendar_tm t" "calendar_tm (t\<lparr>tm_mday := 1\<rparr>)"
  by (simp_all add: calendar_tm_def longest_def)

lemma advance_calendar: "calendar_zone Z \<Longrightarrow> cron_advance Z c n = Some n' \<Longrightarrow> calendar_tm n'"
proof (rule ccontr)
  assume z: "calendar_zone Z" and a: "cron_advance Z c n = Some n'" "\<not> calendar_tm n'"
  have "calendar_tm (tm_add Z k t)" for k t using z by (simp add: tm_add_def calendar_zone_def)
  then show False using a by (simp add: cron_advance_def Let_def split: if_splits) (metis calendar_updates)+
qed

lemma impossible_date_never_ends:
  assumes "calendar_zone Z" "month c \<noteq> - 1" "day c \<noteq> - 1" "longest (month c) < day c"
  shows "cron_to_next Z c now = None"
proof (rule ccontr)
  assume "cron_to_next Z c now \<noteq> None"
  then obtain n where n: "cron_loop Z c (tm_add Z 60 ((tl_localtime Z now)\<lparr>tm_sec := 0\<rparr>)) = Some n" by (auto simp: cron_to_next_def)
  have "calendar_tm n"
  proof (rule while_option_rule[where P = calendar_tm, OF _ n[unfolded cron_loop_def]])
    show "calendar_tm (tm_add Z 60 ((tl_localtime Z now)\<lparr>tm_sec := 0\<rparr>))" using assms(1) by (simp add: tm_add_def calendar_zone_def)
  qed (auto intro: advance_calendar[OF assms(1)])
  moreover have "cron_matches c n" using while_option_stop[OF n[unfolded cron_loop_def]] by (simp add: cron_advance_None)
  ultimately show False using assms by (auto simp: cron_matches_def calendar_tm_def)
qed

lemma thirty_first_of_february:
  "new_Cron ''0 0 31 2 *'' = Inr \<lparr>minute = 0, hour = 0, day = 31, month = 1, day_of_week = - 1\<rparr>"
  "fixed_zone off Z \<Longrightarrow> cron_to_next Z \<lparr>minute = 0, hour = 0, day = 31, month = 1, day_of_week = - 1\<rparr> now = None"
proof -
  show "new_Cron ''0 0 31 2 *'' = Inr \<lparr>minute = 0, hour = 0, day = 31, month = 1, day_of_week = - 1\<rparr>" by code_simp
qed (simp add: impossible_date_never_ends fixed_calendar longest_def)

section \<open>Zones with daylight saving\<close>

text \<open>
  A zone one hour ahead of UTC whose summer time ends at 0, and whose \<^verbatim>\<open>mktime\<close> reads an undecided time as summer time while that is
  possible. In the hour that is repeated, a function that runs every minute is due an hour before the present.
\<close>

definition autumn :: timelib where
  "autumn =
     \<lparr>tl_localtime = (\<lambda>t. if t < 0 then (tm_of (t + 7200))\<lparr>tm_isdst := 1\<rparr> else tm_of (t + 3600)),
      tl_mktime = (\<lambda>t. if 0 < tm_isdst t \<or> tm_isdst t < 0 \<and> secs_of t < 7200 then secs_of t - 7200 else secs_of t - 3600)\<rparr>"

lemma repeated_hour_goes_back:
  "cron_to_next autumn \<lparr>minute = - 1, hour = - 1, day = - 1, month = - 1, day_of_week = - 1\<rparr> 1800 = Some (- 1740)"
  by (simp add: autumn_def cron_evaluate)

text \<open>A range is not refused: its first number is taken.\<close>

lemma range_is_read_as_its_start:
  "new_Cron ''0 9-17 * * *'' = Inr \<lparr>minute = 0, hour = 9, day = - 1, month = - 1, day_of_week = - 1\<rparr>"
  by code_simp

end
