(* ===== verification/Scheduler.thy ===== *)
theory Scheduler
  imports Cron Machine "HOL-Library.Multiset"
begin

text \<open>
  The scheduler of background functions (\<^verbatim>\<open>ext/scheduler/Scheduler.h\<close>, with the pool of threads \<^verbatim>\<open>ext/ctpl.h\<close>). The tasks wait in a
  multimap ordered by time. One thread of the pool, the manager, sleeps until the first task is due or a task is added, and hands
  the due tasks to the other threads. A task of kind \<open>interval\<close> goes back into the multimap when its function has returned, the
  other recurring tasks when they are handed out. Times are seconds; a step reads the clock once. \<open>Z\<close> is the time zone of the cron expressions.
\<close>

section \<open>Tasks\<close>

datatype schedule = In_Task | Every_Task int | Cron_Task Cron

record 'f task =
  tk_f :: 'f
  tk_recur :: bool
  tk_interval :: bool
  tk_schedule :: schedule

definition InTask :: "'f \<Rightarrow> 'f task" where
  "InTask f = \<lparr>tk_f = f, tk_recur = False, tk_interval = False, tk_schedule = In_Task\<rparr>"

definition EveryTask :: "int \<Rightarrow> 'f \<Rightarrow> bool \<Rightarrow> 'f task" where
  "EveryTask time f interval = \<lparr>tk_f = f, tk_recur = True, tk_interval = interval, tk_schedule = Every_Task time\<rparr>"

definition CronTask :: "Cron \<Rightarrow> 'f \<Rightarrow> 'f task" where
  "CronTask cron f = \<lparr>tk_f = f, tk_recur = True, tk_interval = False, tk_schedule = Cron_Task cron\<rparr>"

text \<open>\<open>None\<close> when the next time of a cron expression is looked for without end.\<close>

definition get_new_time :: "timelib \<Rightarrow> int \<Rightarrow> 'f task \<Rightarrow> int option" where
  "get_new_time Z now t =
     (case tk_schedule t of In_Task \<Rightarrow> Some 0 | Every_Task time \<Rightarrow> Some (now + time) | Cron_Task cron \<Rightarrow> cron_to_next Z cron now)"

section \<open>State\<close>

text \<open>
  \<open>sc_running\<close> gives the task a thread of the pool is working on; \<open>sc_stopping\<close> are the threads that have been told to stop while they were
  idle and may take one more task before they notice.
\<close>

record 'f scheduler =
  sc_tasks :: "(int \<times> 'f task) list"
  sc_queue :: "'f task list"
  sc_running :: "nat \<Rightarrow> 'f task option"
  sc_threads :: nat
  sc_stopping :: "nat set"
  sc_manager :: nat
  sc_interrupted :: bool

definition new_Scheduler :: "nat \<Rightarrow> nat \<Rightarrow> 'f scheduler" where
  "new_Scheduler max_n_tasks manager =
     \<lparr>sc_tasks = [], sc_queue = [], sc_running = (\<lambda>_. None), sc_threads = max_n_tasks + 1, sc_stopping = {}, sc_manager = manager,
      sc_interrupted = False\<rparr>"

text \<open>\<^verbatim>\<open>multimap::emplace\<close>: after the entries of the same time.\<close>

fun emplace :: "int \<Rightarrow> 'a \<Rightarrow> (int \<times> 'a) list \<Rightarrow> (int \<times> 'a) list" where
  "emplace time t [] = [(time, t)]"
| "emplace time t ((u, v) # m) = (if u \<le> time then (u, v) # emplace time t m else (time, t) # (u, v) # m)"

definition add_task :: "int \<Rightarrow> 'f task \<Rightarrow> 'f scheduler \<Rightarrow> 'f scheduler" where
  "add_task time t s = s\<lparr>sc_tasks := emplace time t (sc_tasks s), sc_interrupted := True\<rparr>"

definition sched_in :: "int \<Rightarrow> 'f \<Rightarrow> 'f scheduler \<Rightarrow> 'f scheduler" where
  "sched_in time f = add_task time (InTask f)"

definition add_at_new_time :: "timelib \<Rightarrow> int \<Rightarrow> 'f task \<Rightarrow> 'f scheduler \<Rightarrow> 'f scheduler option" where
  "add_at_new_time Z now t s = map_option (\<lambda>time. add_task time t s) (get_new_time Z now t)"

definition sched_every :: "timelib \<Rightarrow> int \<Rightarrow> int \<Rightarrow> 'f \<Rightarrow> 'f scheduler \<Rightarrow> 'f scheduler option" where
  "sched_every Z now time f = add_at_new_time Z now (EveryTask time f False)"

definition sched_interval :: "timelib \<Rightarrow> int \<Rightarrow> int \<Rightarrow> 'f \<Rightarrow> 'f scheduler \<Rightarrow> 'f scheduler option" where
  "sched_interval Z now time f = add_at_new_time Z now (EveryTask time f True)"

definition sched_cron :: "timelib \<Rightarrow> int \<Rightarrow> string \<Rightarrow> 'f \<Rightarrow> 'f scheduler \<Rightarrow> exn + 'f scheduler option" where
  "sched_cron Z now expression f s =
     (case new_Cron expression of Inl e \<Rightarrow> Inl e | Inr cron \<Rightarrow> Inr (add_at_new_time Z now (CronTask cron f) s))"

text \<open>\<^verbatim>\<open>thread_pool::resize\<close>; a thread that is at work goes on until its task has ended.\<close>

definition setNumThreads :: "nat \<Rightarrow> 'f scheduler \<Rightarrow> 'f scheduler" where
  "setNumThreads n s =
     s\<lparr>sc_threads := n,
       sc_stopping := sc_stopping s \<union> {t. n \<le> t \<and> t < sc_threads s \<and> t \<noteq> sc_manager s \<and> sc_running s t = None}\<rparr>"

text \<open>\<^verbatim>\<open>manage_tasks\<close>: the due tasks, the new times of those that recur, and the multimap afterwards.\<close>

fun recurred :: "timelib \<Rightarrow> int \<Rightarrow> 'f task list \<Rightarrow> (int \<times> 'f task) list \<Rightarrow> (int \<times> 'f task) list option" where
  "recurred Z now [] acc = Some acc"
| "recurred Z now (t # ts) acc =
     (if tk_interval t \<or> \<not> tk_recur t then recurred Z now ts acc
      else case get_new_time Z now t of None \<Rightarrow> None | Some time \<Rightarrow> recurred Z now ts (emplace time t acc))"

definition due :: "int \<Rightarrow> (int \<times> 'f task) list \<Rightarrow> 'f task list" where
  "due now m = map snd (takeWhile (\<lambda>(time, t). time \<le> now) m)"

definition manage_tasks :: "timelib \<Rightarrow> int \<Rightarrow> 'f scheduler \<Rightarrow> 'f scheduler option" where
  "manage_tasks Z now s =
     (case recurred Z now (due now (sc_tasks s)) [] of
        None \<Rightarrow> None
      | Some again \<Rightarrow>
          Some (s\<lparr>sc_queue := sc_queue s @ due now (sc_tasks s),
                  sc_tasks := fold (\<lambda>(time, t). emplace time t) again (dropWhile (\<lambda>(time, t). time \<le> now) (sc_tasks s))\<rparr>))"

definition awake :: "int \<Rightarrow> 'f scheduler \<Rightarrow> bool" where
  "awake now s \<longleftrightarrow> sc_interrupted s \<or> (case sc_tasks s of [] \<Rightarrow> False | (time, t) # m \<Rightarrow> time \<le> now)"

text \<open>
  The threads. \<open>Throws\<close> is a function that ends with an exception: the pool keeps it in a future that nobody reads, and an interval task is not
  put back. \<open>bad\<close> are the tasks whose function can do that.
\<close>

datatype slabel = Manages int | Starts nat | Returns nat int | Throws nat | Exits nat

inductive sched_step :: "timelib \<Rightarrow> ('f task \<Rightarrow> bool) \<Rightarrow> 'f scheduler \<Rightarrow> slabel \<Rightarrow> 'f scheduler \<Rightarrow> bool" for Z bad where
  manages: "awake now s \<Longrightarrow> manage_tasks Z now (s\<lparr>sc_interrupted := False\<rparr>) = Some s' \<Longrightarrow> sched_step Z bad s (Manages now) s'"
| starts: "t < sc_threads s \<or> t \<in> sc_stopping s \<Longrightarrow> t \<noteq> sc_manager s \<Longrightarrow> sc_running s t = None \<Longrightarrow> sc_queue s = k # ks \<Longrightarrow>
    sched_step Z bad s (Starts t) (s\<lparr>sc_queue := ks, sc_running := (sc_running s)(t := Some k), sc_stopping := sc_stopping s - {t}\<rparr>)"
| returns: "sc_running s t = Some k \<Longrightarrow> \<not> tk_interval k \<Longrightarrow>
    sched_step Z bad s (Returns t now) (s\<lparr>sc_running := (sc_running s)(t := None)\<rparr>)"
| returns_interval: "sc_running s t = Some k \<Longrightarrow> tk_interval k \<Longrightarrow> add_at_new_time Z now k s = Some s' \<Longrightarrow>
    sched_step Z bad s (Returns t now) (s'\<lparr>sc_running := (sc_running s)(t := None)\<rparr>)"
| throws: "sc_running s t = Some k \<Longrightarrow> bad k \<Longrightarrow> sched_step Z bad s (Throws t) (s\<lparr>sc_running := (sc_running s)(t := None)\<rparr>)"
| exits: "t \<in> sc_stopping s \<Longrightarrow> sched_step Z bad s (Exits t) (s\<lparr>sc_stopping := sc_stopping s - {t}\<rparr>)"

section \<open>The multimap\<close>

lemma mset_emplace: "mset (emplace time t m) = add_mset (time, t) (mset m)"
  by (induction time t m rule: emplace.induct) auto

lemma sorted_emplace: "sorted (map fst m) \<Longrightarrow> sorted (map fst (emplace time t m))"
proof (induction time t m rule: emplace.induct)
  case (2 time t u v m)
  have "set (emplace time t m) = insert (time, t) (set m)"
    using arg_cong[OF mset_emplace[of time t m], of set_mset] by simp
  then show ?case using 2 by (auto simp: sorted_wrt_map)
qed simp

lemma mset_fold_emplace: "mset (fold (\<lambda>(time, t). emplace time t) xs m) = mset xs + mset m"
  by (induction xs arbitrary: m) (auto simp: mset_emplace)

lemma sorted_fold_emplace: "sorted (map fst m) \<Longrightarrow> sorted (map fst (fold (\<lambda>(time, t). emplace time t) xs m))"
  by (induction xs arbitrary: m) (auto simp: sorted_emplace)

lemma recurred_mset:
  "recurred Z now ts acc = Some again \<Longrightarrow>
     mset (map snd again) = mset (filter (\<lambda>t. tk_recur t \<and> \<not> tk_interval t) ts) + mset (map snd acc)"
proof (induction ts arbitrary: acc)
  case (Cons t ts)
  show ?case
  proof (cases "tk_interval t \<or> \<not> tk_recur t")
    case False
    then obtain time where "recurred Z now ts (emplace time t acc) = Some again" using Cons.prems by (auto split: option.splits)
    from Cons.IH[OF this] show ?thesis using False arg_cong[OF mset_emplace[of time t acc], of "image_mset snd"] by simp
  qed (use Cons in auto)
qed simp

text \<open>On a sorted multimap the due tasks are those whose time has come.\<close>

lemma due_sorted: "sorted (map fst m) \<Longrightarrow> takeWhile (\<lambda>(time, t). time \<le> now) m = filter (\<lambda>(time, t). time \<le> now) m"
proof (induction m)
  case (Cons p m)
  show ?case
  proof (cases "fst p \<le> now")
    case False
    then have "\<not> fst q \<le> now" if "q \<in> set m" for q using that Cons.prems by (force simp: sorted_wrt_map)
    then show ?thesis using False by (auto simp: case_prod_unfold filter_empty_conv)
  qed (use Cons in \<open>auto simp: case_prod_unfold\<close>)
qed simp

section \<open>No task is lost\<close>

definition waiting :: "'f task \<Rightarrow> 'f scheduler \<Rightarrow> nat" where
  "waiting x s = count (mset (map snd (sc_tasks s))) x"

definition places :: "'f task \<Rightarrow> 'f scheduler \<Rightarrow> nat" where
  "places x s = waiting x s + count (mset (sc_queue s)) x + card {t. sc_running s t = Some x}"

definition task_kept :: "'f task \<Rightarrow> 'f scheduler \<Rightarrow> bool" where
  "task_kept x s \<longleftrightarrow>
     finite (dom (sc_running s)) \<and> sorted (map fst (sc_tasks s))
     \<and> (if tk_interval x then places x s = 1 else waiting x s = 1)"

definition scheduled_once :: "'f task \<Rightarrow> 'f scheduler \<Rightarrow> bool" where
  "scheduled_once x s \<longleftrightarrow>
     sorted (map fst (sc_tasks s)) \<and> waiting x s = 1 \<and> x \<notin> set (sc_queue s) \<and> sc_running s = (\<lambda>_. None)"

lemma scheduled_once_kept: "scheduled_once x s \<Longrightarrow> task_kept x s"
  by (simp add: scheduled_once_def task_kept_def places_def count_eq_zero_iff)

lemma waiting_split: "waiting x s = count (mset (due now (sc_tasks s))) x
    + count (mset (map snd (dropWhile (\<lambda>(time, t). time \<le> now) (sc_tasks s)))) x"
proof -
  have "mset (map snd (sc_tasks s))
      = mset (due now (sc_tasks s)) + mset (map snd (dropWhile (\<lambda>(time, t). time \<le> now) (sc_tasks s)))"
    unfolding due_def mset_append[symmetric] map_append[symmetric] takeWhile_dropWhile_id ..
  then show ?thesis by (simp add: waiting_def)
qed

lemma sorted_dropWhile_fst: "sorted (map fst m) \<Longrightarrow> sorted (map fst (dropWhile P m))"
  by (induction m) auto

lemma manage_kept:
  assumes "manage_tasks Z now s = Some s'" "tk_recur x" "task_kept x s"
  shows "task_kept x s'"
proof -
  let ?due = "due now (sc_tasks s)" and ?rest = "dropWhile (\<lambda>(time, t). time \<le> now) (sc_tasks s)"
  obtain again where a: "recurred Z now ?due [] = Some again"
      "s' = s\<lparr>sc_queue := sc_queue s @ ?due, sc_tasks := fold (\<lambda>(time, t). emplace time t) again ?rest\<rparr>"
    using assms(1) by (auto simp: manage_tasks_def split: option.splits)
  have "mset (map snd (sc_tasks s')) = mset (filter (\<lambda>t. tk_recur t \<and> \<not> tk_interval t) ?due) + mset (map snd ?rest)"
    using recurred_mset[OF a(1)] arg_cong[OF mset_fold_emplace[of again ?rest], of "image_mset snd"] by (simp add: a(2))
  then have "waiting x s' = (if tk_interval x then 0 else count (mset ?due) x) + count (mset (map snd ?rest)) x"
    using assms(2) by (simp add: waiting_def)
  moreover have "sorted (map fst (sc_tasks s'))"
    using assms(3) unfolding task_kept_def a(2) by (simp add: sorted_fold_emplace sorted_dropWhile_fst)
  moreover have "places x s' = waiting x s' + (count (mset (sc_queue s)) x + count (mset ?due) x) + card {t. sc_running s t = Some x}"
    by (simp add: places_def a(2))
  ultimately show ?thesis using assms(3) waiting_split[of x s now] a(2) by (auto simp: task_kept_def places_def split: if_splits)
qed

lemma kept_interrupted [simp]: "task_kept x (s\<lparr>sc_interrupted := b\<rparr>) = task_kept x s" "task_kept x (s\<lparr>sc_stopping := T\<rparr>) = task_kept x s"
  by (simp_all add: task_kept_def places_def waiting_def)

lemma card_running_started:
  fixes r :: "nat \<Rightarrow> 'a option"
  assumes "finite (dom r)" "r u = None"
  shows "card {t. (r(u := Some k)) t = Some x} = card {t. r t = Some x} + (if k = x then 1 else 0)"
proof (cases "k = x")
  case True
  have "{t. (r(u := Some k)) t = Some x} = insert u {t. r t = Some x}" using True by auto
  moreover have "finite {t. r t = Some x}" by (rule finite_subset[OF _ assms(1)]) auto
  ultimately show ?thesis using True assms(2) by simp
next
  case False
  then have "{t. (r(u := Some k)) t = Some x} = {t. r t = Some x}" using assms(2) by auto
  then show ?thesis using False by simp
qed

lemma card_running_ended:
  fixes r :: "nat \<Rightarrow> 'a option"
  assumes "finite (dom r)" "r u = Some k"
  shows "card {t. r t = Some x} = card {t. (r(u := None)) t = Some x} + (if k = x then 1 else 0)"
proof -
  have "r = (r(u := None))(u := Some k)" using assms(2) by (simp add: fun_eq_iff)
  then show ?thesis using card_running_started[of "r(u := None)" u k x] assms(1) by simp
qed

lemma sched_step_kept:
  assumes "sched_step Z bad s l s'" "tk_recur x" "\<not> bad x" "task_kept x s"
  shows "task_kept x s'"
  using assms
proof (induction rule: sched_step.induct)
  case (manages now s s')
  then show ?case using manage_kept[of Z now "s\<lparr>sc_interrupted := False\<rparr>" s' x] by simp
next
  case (starts t s k ks)
  then show ?case using card_running_started[of "sc_running s" t k x]
    by (auto simp: task_kept_def places_def waiting_def simp del: fun_upd_apply split: if_splits)
next
  case (returns s t k now)
  then show ?case using card_running_ended[of "sc_running s" t k x]
    by (auto simp: task_kept_def places_def waiting_def simp del: fun_upd_apply split: if_splits)
next
  case (returns_interval s t k now s')
  then obtain time where "s' = add_task time k s" by (auto simp: add_at_new_time_def)
  then show ?case using returns_interval card_running_ended[of "sc_running s" t k x] arg_cong[OF mset_emplace[of time k "sc_tasks s"], of "image_mset snd"]
    by (auto simp: task_kept_def places_def waiting_def add_task_def sorted_emplace simp del: fun_upd_apply split: if_splits)
next
  case (throws s t k)
  then show ?case using card_running_ended[of "sc_running s" t k x]
    by (auto simp: task_kept_def places_def waiting_def simp del: fun_upd_apply split: if_splits)
qed simp

lemma reach_kept: "reach (scheduled_once x) (sched_step Z bad) s \<Longrightarrow> tk_recur x \<Longrightarrow> \<not> bad x \<Longrightarrow> task_kept x s"
  by (erule reach_invariant) (auto intro: scheduled_once_kept sched_step_kept)

lemma one_place:
  assumes "task_kept x s" "tk_interval x" "sc_running s t = Some x"
  shows "waiting x s = 0 \<and> x \<notin> set (sc_queue s) \<and> (\<forall>u. sc_running s u = Some x \<longrightarrow> u = t)"
proof -
  let ?R = "{t. sc_running s t = Some x}"
  have fin: "finite ?R" by (rule finite_subset[of _ "dom (sc_running s)"]) (use assms(1) in \<open>auto simp: task_kept_def\<close>)
  have "?R \<noteq> {}" using assms(3) by auto
  then have "card ?R \<noteq> 0" using fin by simp
  moreover have "waiting x s + count (mset (sc_queue s)) x + card ?R = 1" using assms(1,2) by (simp add: task_kept_def places_def)
  ultimately have one: "card ?R = 1" "waiting x s = 0" "count (mset (sc_queue s)) x = 0" by linarith+
  obtain v where "?R = {v}" using one(1) by (auto simp: card_1_singleton_iff)
  then show ?thesis using one(2,3) assms(3) by (auto simp: count_eq_zero_iff set_eq_iff)
qed

text \<open>
  C36. A recurring task that has been scheduled once is never lost and never doubled, whatever the order in which the threads of the
  scheduler work, as long as its function lets no exception out: a cron task is always in the multimap exactly once, and an interval
  task is in exactly one place of the multimap, the queue of the pool and the threads; so while a thread runs its function, it waits
  nowhere and no other thread runs it. The multimap stays sorted by time.
\<close>

theorem scheduled_tasks_are_kept:
  assumes "reach (scheduled_once x) (sched_step Z bad) s" and "tk_recur x" and "\<not> bad x"
  shows "sorted (map fst (sc_tasks s)) \<and> (if tk_interval x then places x s = 1 else waiting x s = 1)
    \<and> (\<forall>t. tk_interval x \<and> sc_running s t = Some x \<longrightarrow>
          waiting x s = 0 \<and> x \<notin> set (sc_queue s) \<and> (\<forall>u. sc_running s u = Some x \<longrightarrow> u = t))"
  using reach_kept[OF assms] one_place[of x s] by (auto simp: task_kept_def)

theorem scheduled_tasks_are_kept_witness:
  "\<exists>s. reach (scheduled_once (EveryTask 60 ''bg'' True)) (sched_step utc (\<lambda>_. False)) s
     \<and> sc_running s 1 = Some (EveryTask 60 ''bg'' True) \<and> places (EveryTask 60 ''bg'' True) s = 1
     \<and> waiting (EveryTask 60 ''bg'' True) s = 0 \<and> EveryTask 60 ''bg'' True \<notin> set (sc_queue s)"
proof -
  define x where "x = EveryTask 60 ''bg'' True"
  define s0 where "s0 = (new_Scheduler 4 0)\<lparr>sc_tasks := [(60, x)], sc_interrupted := True\<rparr>"
  define s1 where "s1 = s0\<lparr>sc_tasks := [], sc_queue := [x], sc_interrupted := False\<rparr>"
  define s2 where "s2 = s1\<lparr>sc_queue := [], sc_running := (sc_running s1)(1 := Some x), sc_stopping := sc_stopping s1 - {1}\<rparr>"
  let ?step = "sched_step utc (\<lambda>_. False)"
  have x: "tk_recur x" "tk_interval x" by (simp_all add: x_def EveryTask_def)
  have "reach (scheduled_once x) ?step s0"
    by (rule reach.start) (simp add: scheduled_once_def waiting_def s0_def new_Scheduler_def)
  moreover have "?step s0 (Manages 60) s1"
    by (rule sched_step.manages) (simp_all add: awake_def manage_tasks_def due_def x s0_def s1_def new_Scheduler_def)
  ultimately have "reach (scheduled_once x) ?step s1" by (rule reach.move)
  moreover have "?step s1 (Starts 1) s2"
    unfolding s2_def by (rule sched_step.starts) (simp_all add: s0_def s1_def new_Scheduler_def)
  ultimately have r: "reach (scheduled_once x) ?step s2" by (rule reach.move)
  have run: "sc_running s2 1 = Some x" by (simp add: s2_def)
  have "places x s2 = 1" "waiting x s2 = 0 \<and> x \<notin> set (sc_queue s2)"
    using scheduled_tasks_are_kept[OF r] x run by auto
  then show ?thesis unfolding x_def[symmetric] using r run by blast
qed

section \<open>What can go wrong\<close>

text \<open>An interval task whose function lets an exception out is gone.\<close>

lemma exception_loses_the_task:
  assumes "task_kept x s" "tk_interval x" "bad x" "sc_running s t = Some x" "sched_step Z bad s (Throws t) s'"
  shows "places x s' = 0"
proof -
  have s': "s' = s\<lparr>sc_running := (sc_running s)(t := None)\<rparr>" using assms(5) by (cases rule: sched_step.cases) auto
  have "card {u. sc_running s' u = Some x} = 0" using one_place[OF assms(1,2,4)] s' by (auto simp: card_eq_0_iff)
  then show ?thesis using one_place[OF assms(1,2,4)] s' by (simp add: places_def waiting_def count_eq_zero_iff)
qed

text \<open>
  The constructor makes one thread more than it is told, for the manager; changing the number does not. With one thread left, and
  that the manager, no task is ever started.
\<close>

definition manager_alone :: "'f scheduler \<Rightarrow> bool" where
  "manager_alone s \<longleftrightarrow> sc_threads s = 1 \<and> sc_manager s = 0 \<and> sc_stopping s = {}"

lemma manager_alone_step: "manager_alone s \<Longrightarrow> sched_step Z bad s l s' \<Longrightarrow> manager_alone s'"
  by (erule sched_step.cases)
    (auto simp: manager_alone_def manage_tasks_def add_at_new_time_def add_task_def split: option.splits)

lemma manager_alone_starts_nothing:
  assumes "reach manager_alone (sched_step Z bad) s"
  shows "\<not> sched_step Z bad s (Starts t) s'"
proof -
  have "manager_alone s" by (rule reach_invariant[OF assms]) (auto intro: manager_alone_step)
  then show ?thesis by (auto simp: manager_alone_def elim: sched_step.cases)
qed

end
