(* ===== verification/Spec2Isabelle.thy ===== *)
theory Spec2Isabelle
  imports Wf_Prelude Sketches TW_Stats TW_DB Netmask Netmask_Tree Repl_Msgs TW_Wrapper BlackWhiteList Base64 Sod_Crypto Siblings
    Replication Repl_Fwd Json Json_Text Misc_Strings Webhook Login_Tuple Web_State Web_Allow Web_Lists Web_Siblings
    Machine State_Holder Lua_Pool Sync Web_Sync Web_Custom Perf_Stats Web_Server Cluster Lua_Config Start_Up Console Fwd_Web Fwd_Start Cron
    Scheduler
begin

text \<open>
  Verification of weakforced, a daemon that detects abuse of logins. Mail and web servers report
  every login to it and ask it whether a login may proceed. It answers from statistics it keeps per
  key (an address, a login, a pair of them) over a sliding time window, and from a black list and a
  white list. A cluster of daemons shares what each learns: every update is replicated to the
  siblings, and a forwarder passes updates between two clusters.

  The model is a shallow embedding. A C++ object is a record, a method a function from the record to
  its new value and result. A call that can throw returns an \<open>outcome\<close> (theory \<open>Wf_Prelude\<close>): \<open>Ret\<close> state
  value, \<open>Exn\<close> exception state (what had been changed before the throw stays changed), or \<open>Undef\<close>
  where the C++ standard leaves the behaviour undefined (an index outside an array, a division by
  zero). Fixed-width integers are words, \<^verbatim>\<open>time_t\<close> and \<^verbatim>\<open>int\<close> values are \<open>int\<close> where the code does
  nothing that overflows on them. Every reading of the clock is an argument. Strings are lists of
  characters, one byte each. A \<^verbatim>\<open>std::map\<close> is a sorted association list.

  \<^bold>\<open>Theories, in the order of the code's layers.\<close>

  \<^item> \<open>Wf_Prelude\<close>: outcomes, ordered maps, the number conversions of the C and C++ libraries, and the two
    interfaces shared by several components: \<open>keyed_store\<close> (a table with lookup, assignment and erasure;
    implemented by \<^verbatim>\<open>std::map\<close>, by the tables of the lists and by the netmask tree) and \<open>bounded_queue\<close>
    (a queue that drops what does not fit; implemented by the send queue of a sibling and by the receive
    queue of replication).
  \<^item> \<open>Sketches\<close> (\<^verbatim>\<open>ext/ext/murmur3.cc\<close>, \<^verbatim>\<open>hyperloglog.hpp\<close>, \<^verbatim>\<open>count_min_sketch.cpp\<close>): the estimate of a
    count-min sketch is never below the true count, the registers of a HyperLogLog are the maxima of
    the ranks, dumps restore, merging two HyperLogLogs is not the union.
  \<^item> \<open>TW_Stats\<close> (\<^verbatim>\<open>common/twmap.hh\<close>, \<^verbatim>\<open>TWStatsEntry\<close>): the ring of windows of one counter. No operation leaves the
    ring, what a read returns is described by an abstract view that maps absolute window numbers to
    contents, and data disappear within one window of their expiry. The theory shows an update that
    is lost. The locale \<open>member_change\<close> states what an operation on one window keeps.
  \<^item> \<open>TW_DB\<close> (\<^verbatim>\<open>common/twmap.hh\<close>, \<^verbatim>\<open>TWStatsDB\<close>): the table of keys and the tracker that orders them by last
    modification. All calls keep the invariant (locale \<open>entry_fn\<close>), and expiry removes exactly the least
    recently modified keys.
  \<^item> \<open>TW_Wrapper\<close> (\<^verbatim>\<open>wforce/twmap-wrapper.cc\<close>): sharding by hash of the key (locale \<open>shard_call\<close>), keys
    made from addresses, and the operation handed to replication.
  \<^item> \<open>Netmask\<close>, \<open>Netmask_Tree\<close> (\<^verbatim>\<open>common/iputils.hh\<close>): addresses, netmasks and the tree of netmasks, which
    refines a finite map from prefixes to values and whose lookup is longest prefix match.
  \<^item> \<open>BlackWhiteList\<close> (\<^verbatim>\<open>wforce/blackwhitelist.cc\<close>): the lists with expiry, replication, webhook events and
    persistence. The decision about an address is the longest match among the listed networks, the
    tables and the netmask group agree after every call, purging removes exactly what has expired.
  \<^item> \<open>Repl_Msgs\<close>, \<open>Replication\<close> (\<^verbatim>\<open>wforce/replication*.cc\<close>, \<^verbatim>\<open>wforce/wforce-replication.cc\<close>): the replicated
    operations, how they travel, and that a receiver that applies the operation of an update ends with
    the same data as the sender. \<open>Cluster\<close> puts the parts together: a sequence of updates on one daemon, through queues, packets,
    connection and worker, gives another daemon the same data. \<open>String_Code\<close> holds encodings used to show that the assumption about
    protobuf can be met.
  \<^item> \<open>Base64\<close>, \<open>Sod_Crypto\<close> (\<^verbatim>\<open>common/sodcrypto.cc\<close>): the coder of keys, the nonces and the packets.
  \<^item> \<open>Siblings\<close> (\<^verbatim>\<open>wforce/wforce-sibling.cc\<close>): addresses of siblings, the vector of siblings, sending.
  \<^item> \<open>Repl_Fwd\<close> (\<^verbatim>\<open>wforce/replfwd-replication.cc\<close>): the forwarder between clusters. \<open>Fwd_Web\<close> and \<open>Fwd_Start\<close> (\<^verbatim>\<open>wforce/replfwd-web.cc\<close>,
    \<^verbatim>\<open>wforce/replfwd-lua.cc\<close>, \<^verbatim>\<open>wforce/replfwd.cc\<close>): its HTTP commands, configuration and start, and that they keep its three vectors of peers.
  \<^item> \<open>Json\<close>, \<open>Json_Text\<close> (\<^verbatim>\<open>ext/json11/json11.cpp\<close>): JSON values, the printer and the parser. The parser ends on every
    input and reads back what the printer writes.
  \<^item> \<open>Webhook\<close> (\<^verbatim>\<open>common/webhook.hh\<close>, \<^verbatim>\<open>common/webhook.cc\<close>): the registry of web hooks, the bounded queue of events and the
    threads that post them. An event reaches each subscribed hook once, queued events are posted once and in order.
    \<open>Misc_Strings\<close> holds the two string algorithms of Boost that the code calls.
  \<^item> \<open>Login_Tuple\<close> (\<^verbatim>\<open>common/login_tuple.cc\<close>): the record of a login, its JSON text and the device cache.
  \<^item> \<open>Web_State\<close>, \<open>Web_Allow\<close>, \<open>Web_Lists\<close>, \<open>Web_Siblings\<close> (\<^verbatim>\<open>wforce/wforce-web.cc\<close>): the state of the daemon and the handlers of
    its HTTP commands, from the text of the request to the answer: report and allow, the commands on the lists, reset,
    statistics, siblings and readiness. The theorems say what a request is answered, that a network listed by a command
    is denied by the next decision about it, and that a command is carried out or leaves the data alone.
    The locale \<open>vector_op\<close> states what an operation on the vector of siblings keeps.
  \<^item> \<open>Sync\<close>, \<open>Web_Sync\<close> (\<^verbatim>\<open>wforce/wforce.cc\<close>, \<^verbatim>\<open>wforce/wforce-web.cc\<close>): how a starting daemon gets the databases of a running one.
    The dump is a stream of replication operations; after receiving it the starter knows what the sender knows, on top of what it knew.
    The starter asks its hosts in order, the one it chooses understands the request and calls back when it is done.
  \<^item> \<open>Web_Custom\<close> (\<^verbatim>\<open>wforce/wforce-web.cc\<close>): the commands the administrator defines in Lua and the command \<^verbatim>\<open>stats\<close>. \<open>Perf_Stats\<close>
    (\<^verbatim>\<open>common/perf-stats.cc\<close>): the counters of the daemon about itself, kept in a database of their own.
  \<^item> \<open>Web_Server\<close> (\<^verbatim>\<open>common/wforce-webserver.cc\<close>): registration of all the handlers above and the filters in front of them. A request
    from an address that is not in the access control list, or without the password where one is needed, reaches no handler.
  \<^item> \<open>Lua_Config\<close> (\<^verbatim>\<open>wforce/wforce-lua.cc\<close>, \<^verbatim>\<open>common/common-lua.cc\<close>, \<^verbatim>\<open>wforce/wforce-common-lua.cc\<close>): the functions that the configuration file can
    call, each with what it does in the main Lua state, in a state of the pool and in a console client. \<open>Start_Up\<close> (\<^verbatim>\<open>main\<close> of
    \<^verbatim>\<open>wforce/wforce.cc\<close>): the file is a sequence of such calls, run by the main state and by each state of the pool, then commands are
    registered, lists loaded and jobs started. However the daemon was configured, every path of the started server is behind the filters
    it needs, and every custom command has its function in every Lua state.
  \<^item> \<open>Console\<close> (\<^verbatim>\<open>wforce/wforce.cc\<close>): the terminal and the control socket, with both ends of a control connection. A session answers
    every line in order and ends, whichever way the two ends take turns.
  \<^item> \<open>Machine\<close>: states reachable by a step relation and the induction for invariants. \<open>State_Holder\<close> (\<^verbatim>\<open>common/sholder.hh\<close>)
    and \<open>Lua_Pool\<close> (\<^verbatim>\<open>wforce/luastate.hh\<close>, \<^verbatim>\<open>common/customfunc.hh\<close>) are the two parts whose correctness depends on how threads
    interleave: readers of a shared configuration see the last published value, and a worker never finds the pool of Lua
    states empty exactly when there are at least as many states as workers.
  \<^item> \<open>Cron\<close> and \<open>Scheduler\<close> (\<^verbatim>\<open>ext/ext/scheduler/Cron.h\<close>, \<^verbatim>\<open>ext/ext/scheduler/Scheduler.h\<close>, \<^verbatim>\<open>ext/ext/ctpl.h\<close>): the background functions that
    trackalert schedules. The time zone is a parameter. Where the clocks are never changed, a cron expression without a month is
    due at the first minute that fits, and the search for it ends exactly when there is one; with a month it can miss the day of the week
    or never end, and in the hour that is repeated when the clocks go back it can be due before the present. Whatever the order in which the threads work, a recurring
    task is never lost or doubled, and an interval task never runs twice at a time.

  \<^bold>\<open>Parameters.\<close> Code outside the repository is an argument: \<open>sk_env\<close> (floating-point parts of the
  sketches and their random coefficients), \<open>netlib\<close> (\<^verbatim>\<open>inet_pton\<close>, \<^verbatim>\<open>getaddrinfo\<close>, \<^verbatim>\<open>getnameinfo\<close>), \<open>redis_env\<close>
  (the answers of the Redis server), \<open>secretbox\<close> (libsodium), \<open>proto_codec\<close> (the classes generated by
  protobuf), \<open>sib_env\<close> (sockets), \<open>json_lib\<close> (floating point in the C library), \<open>ua_parsers\<close> (parsers of user agents),
  \<open>hook_env\<close> (hashes and clock of the web hooks), \<open>sync_env\<close> (HTTP client and writes of a synchronisation), \<open>drogon\<close> (routing and filter chains of the HTTP framework),
  \<open>lua_env\<close> (\<^verbatim>\<open>boost::format\<close>, the clock and files at start-up), \<open>console_env\<close> (the interpreter and the sockets of the console), \<open>timelib\<close> (\<^verbatim>\<open>localtime\<close> and
  \<^verbatim>\<open>mktime\<close> of the system's time zone) and \<open>web_env\<close> (all of these but the time zone, and the Lua functions that the administrator provides). What is relied on is stated by \<open>secretbox_ok\<close>, \<open>codec_ok\<close>, \<open>float_ok\<close>, \<open>drogon_ok\<close>, \<open>fixed_zone\<close> and the hypotheses on \<open>netlib\<close>; each has
  an instance that satisfies it.

  \<^bold>\<open>Loops.\<close> Loops over a container recurse on it. The receiver of a TCP connection recurses on the bytes
  that are left, the decoder of base 64 and the parser of JSON on the input that is left; all terminate by a measure,
  for the parser on the ground that each of its functions leaves less input than it was given. The loop over times of a cron
  expression may run for ever and is \<open>while_option\<close>, with \<open>None\<close> for that case. Threads
  that run for ever are given by one iteration, and theorems speak about sequences of iterations. Locks
  are held for a whole call in the modelled code, so a call is one step.

  \<^bold>\<open>Readings of the source.\<close> The counters of type \<^verbatim>\<open>int\<close> wrap at 32 bits, as compilers make them, where the standard leaves a signed
  overflow undefined. The shards of a new database read the clock once together, and a step of the scheduler's manager reads it once.
  The leading zeroes of a hash are counted by the portable loop, which differs from the compiler's builtin only for 0, where the builtin is undefined.
  Texts to be encoded in base 64 are shorter than the largest \<^verbatim>\<open>int\<close>.

  \<^bold>\<open>Not modelled.\<close> The Lua interpreter itself and the bindings of single methods and members to it, the command line, GeoIP and
  DNS lookups, the HTTP client, metrics, the parsers of device identifiers and, but for its scheduler, the trackalert daemon: they call third-party
  libraries or Lua and keep no data of the kind above. Of the configuration functions, those for GeoIP and DNS, the timeouts of the Redis
  connections, the precision of the count-min sketches and the printing of version, key and access control list are left out. The accept loop of the TCP listener only starts a receiver.
\<close>

end
